(* ===== verification/NewIP_Base.thy ===== *)
theory NewIP_Base
  imports Main "HOL-Library.Word"
begin

text \<open>
  The prelude of the development: the machine integers of the C code, byte buffers with
  checked little-endian accesses (the host and the BPF target are little-endian, so a load of
  a 16-bit field gives the bytes swapped with respect to the network order), the byte-order
  macros, the faults a C program can run into, and the error-passing combinators that the
  models of the components share.
\<close>

unbundle bit_operations_syntax

section \<open>Machine integers\<close>

type_synonym u8 = "8 word"
type_synonym u16 = "16 word"
type_synonym u32 = "32 word"
type_synonym u64 = "64 word"

named_theorems byte_simps
named_theorems res_simps

section \<open>Faults and fallible computations\<close>

text \<open>What goes wrong when C code follows a bad pointer: the pointer is NULL, it points to a
  freed object, or the access is outside the buffer.\<close>

datatype fault = NullDeref | UseAfterFree nat | OutOfBounds

type_synonym 'a res = "fault + 'a"

definition rbind :: "'a res \<Rightarrow> ('a \<Rightarrow> 'b res) \<Rightarrow> 'b res" where
  "rbind m f = (case m of Inl e \<Rightarrow> Inl e | Inr x \<Rightarrow> f x)"

lemma rbind_Inl [simp]: "rbind (Inl e) f = Inl e"
  by (simp add: rbind_def)

lemma rbind_Inr [simp]: "rbind (Inr x) f = f x"
  by (simp add: rbind_def)

lemma rbind_eq_Inr [res_simps]: "rbind m f = Inr y \<longleftrightarrow> (\<exists>x. m = Inr x \<and> f x = Inr y)"
  by (auto simp: rbind_def split: sum.splits)

lemma rbind_assoc: "rbind (rbind m f) g = rbind m (\<lambda>x. rbind (f x) g)"
  by (auto simp: rbind_def split: sum.splits)

lemma rbind_cong [fundef_cong]:
  "m = m' \<Longrightarrow> (\<And>x. m' = Inr x \<Longrightarrow> f x = g x) \<Longrightarrow> rbind m f = rbind m' g"
  by (auto simp: rbind_def split: sum.splits)

text \<open>A loop that chases pointers may also not return: its result is an option of a result.\<close>

type_synonym 'a out = "'a res option"

definition obind :: "'a out \<Rightarrow> ('a \<Rightarrow> 'b out) \<Rightarrow> 'b out" where
  "obind m f = (case m of None \<Rightarrow> None | Some r \<Rightarrow> (case r of Inl e \<Rightarrow> Some (Inl e) | Inr x \<Rightarrow> f x))"

lemma obind_simps [simp]:
  "obind None f = None"
  "obind (Some (Inl e)) f = Some (Inl e)"
  "obind (Some (Inr x)) f = f x"
  by (simp_all add: obind_def)

lemma obind_eq_Inr [res_simps]:
  "obind m f = Some (Inr y) \<longleftrightarrow> (\<exists>x. m = Some (Inr x) \<and> f x = Some (Inr y))"
  by (auto simp: obind_def split: option.splits sum.splits)

text \<open>Following a pointer: \<open>None\<close> is NULL, and an address the heap does not hold was freed.\<close>

definition deref :: "(nat \<rightharpoonup> 'n) \<Rightarrow> nat option \<Rightarrow> 'n res" where
  "deref h p =
     (case p of None \<Rightarrow> Inl NullDeref
      | Some a \<Rightarrow> (case h a of None \<Rightarrow> Inl (UseAfterFree a) | Some n \<Rightarrow> Inr n))"

lemma deref_None [simp]: "deref h None = Inl NullDeref"
  by (simp add: deref_def)

lemma deref_Some [simp]: "h a = Some n \<Longrightarrow> deref h (Some a) = Inr n"
  by (simp add: deref_def)

lemma deref_eq_Inr [res_simps]: "deref h p = Inr n \<longleftrightarrow> (\<exists>a. p = Some a \<and> h a = Some n)"
  by (auto simp: deref_def split: option.splits)

text \<open>An element of an array.\<close>

definition get_elem :: "'a list \<Rightarrow> nat \<Rightarrow> 'a res" where
  "get_elem xs i = (if i < length xs then Inr (xs ! i) else Inl OutOfBounds)"

section \<open>Byte order\<close>

text \<open>\<open>le16 b0 b1\<close> is what a little-endian machine loads from the bytes \<open>b0 b1\<close>;
  \<open>ntohs\<close> and \<open>htons\<close> swap the two bytes.\<close>

definition le16 :: "u8 \<Rightarrow> u8 \<Rightarrow> u16" where
  "le16 b0 b1 = ucast b0 OR push_bit 8 (ucast b1)"

definition lo8 :: "u16 \<Rightarrow> u8" where
  "lo8 w = ucast w"

definition hi8 :: "u16 \<Rightarrow> u8" where
  "hi8 w = ucast (drop_bit 8 w)"

definition ntohs :: "u16 \<Rightarrow> u16" where
  "ntohs w = push_bit 8 w OR drop_bit 8 w"

definition htons :: "u16 \<Rightarrow> u16" where
  "htons w = ntohs w"

lemma bit_u8_ge [byte_simps, simp]: "8 \<le> n \<Longrightarrow> \<not> bit (w :: u8) n"
  by (auto dest: bit_imp_le_length)

lemma lo8_le16 [byte_simps, simp]: "lo8 (le16 a b) = a"
  unfolding lo8_def le16_def by (rule bit_word_eqI) (auto simp: bit_simps)

lemma hi8_le16 [byte_simps, simp]: "hi8 (le16 a b) = b"
  unfolding hi8_def le16_def by (rule bit_word_eqI) (auto simp: bit_simps)

lemma le16_lo_hi [byte_simps, simp]: "le16 (lo8 w) (hi8 w) = w"
  unfolding lo8_def hi8_def le16_def by (rule bit_word_eqI) (auto simp: bit_simps)

lemma ntohs_ntohs [byte_simps, simp]: "ntohs (ntohs w) = w"
  unfolding ntohs_def by (rule bit_word_eqI) (auto simp: bit_simps)

lemma ntohs_htons [byte_simps, simp]: "ntohs (htons w) = w"
  by (simp add: htons_def)

lemma htons_ntohs [byte_simps, simp]: "htons (ntohs w) = w"
  by (simp add: htons_def)

lemma ntohs_le16: "ntohs (le16 a b) = le16 b a"
  unfolding ntohs_def le16_def by (rule bit_word_eqI) (auto simp: bit_simps)

lemma unat_le16: "unat (le16 a b) = unat a + 256 * unat b"
proof -
  have "unat (le16 a b) = unat a OR push_bit 8 (unat b)"
    unfolding le16_def by (rule bit_eqI) (auto simp: bit_simps, (drule bit_imp_le_length, simp)+)
  also have "\<dots> = unat a + push_bit 8 (unat b)"
    by (rule disjunctive_add [symmetric]) (auto simp: bit_simps)
  finally show ?thesis by (simp add: push_bit_eq_mult)
qed

lemma unat_htons_le16: "unat (ntohs (le16 a b)) = unat b + 256 * unat a"
  by (simp add: ntohs_le16 unat_le16)

lemma htons_inject [simp]: "htons x = htons y \<longleftrightarrow> x = y"
  by (metis ntohs_htons)

lemma ntohs_inject [simp]: "ntohs x = ntohs y \<longleftrightarrow> x = y"
  by (metis ntohs_ntohs)

lemma ntohs_0 [simp]: "ntohs 0 = 0"
  by (simp add: ntohs_def)

lemma ntohs_eq_0 [simp]: "ntohs w = 0 \<longleftrightarrow> w = 0"
  by (metis ntohs_0 ntohs_ntohs)

lemma unat_u8_lt [byte_simps]: "unat (b :: u8) < 256"
  by (rule less_le_trans [OF unsigned_less]) simp

lemma unat_u16_lt [byte_simps]: "unat (w :: u16) < 65536"
  by (rule less_le_trans [OF unsigned_less]) simp

lemma unat_u8_minus_1 [byte_simps]: "unat (- 1 :: u8) = 255"
  by (simp add: unsigned_minus_1_eq_mask mask_eq_exp_minus_1)

lemma unat_u16_to_u64 [byte_simps, simp]: "unat (ucast (w :: u16) :: u64) = unat w"
  using unat_u16_lt [of w] by (simp add: unsigned_ucast_eq take_bit_eq_mod)

lemma unat_u64_to_u16 [byte_simps]: "unat (ucast (w :: u64) :: u16) = unat w mod 65536"
  by (simp add: unsigned_ucast_eq take_bit_eq_mod)

section \<open>Byte buffers\<close>

text \<open>Loads and stores at an offset of a buffer; an access that is not inside the buffer is a
  fault, never an unspecified value.\<close>

definition ld8 :: "u8 list \<Rightarrow> nat \<Rightarrow> u8 res" where
  "ld8 m i = (if i < length m then Inr (m ! i) else Inl OutOfBounds)"

definition ld16 :: "u8 list \<Rightarrow> nat \<Rightarrow> u16 res" where
  "ld16 m i = (if i + 2 \<le> length m then Inr (le16 (m ! i) (m ! (i + 1))) else Inl OutOfBounds)"

definition st16 :: "u8 list \<Rightarrow> nat \<Rightarrow> u16 \<Rightarrow> u8 list res" where
  "st16 m i w =
     (if i + 2 \<le> length m then Inr (m[i := lo8 w, i + 1 := hi8 w]) else Inl OutOfBounds)"

text \<open>\<open>memcpy\<close> of a block of bytes, out of and into a buffer.\<close>

definition ldn :: "u8 list \<Rightarrow> nat \<Rightarrow> nat \<Rightarrow> u8 list res" where
  "ldn m i n = (if i + n \<le> length m then Inr (take n (drop i m)) else Inl OutOfBounds)"

definition stn :: "u8 list \<Rightarrow> nat \<Rightarrow> u8 list \<Rightarrow> u8 list res" where
  "stn m i bs =
     (if i + length bs \<le> length m then Inr (take i m @ bs @ drop (i + length bs) m)
      else Inl OutOfBounds)"

definition in_buf :: "u8 list \<Rightarrow> nat \<Rightarrow> nat \<Rightarrow> bool" where
  "in_buf m i n \<longleftrightarrow> i + n \<le> length m"

lemma ld8_ok: "in_buf m i 1 \<Longrightarrow> ld8 m i = Inr (m ! i)"
  by (simp add: ld8_def in_buf_def)

lemma ld16_ok: "in_buf m i 2 \<Longrightarrow> ld16 m i = Inr (le16 (m ! i) (m ! (i + 1)))"
  by (simp add: ld16_def in_buf_def)

lemma st16_ok: "in_buf m i 2 \<Longrightarrow> st16 m i w = Inr (m[i := lo8 w, i + 1 := hi8 w])"
  by (simp add: st16_def in_buf_def)

lemma ld16_eq_Inr [res_simps]:
  "ld16 m i = Inr w \<longleftrightarrow> i + 2 \<le> length m \<and> w = le16 (m ! i) (m ! (i + 1))"
  by (auto simp: ld16_def)

lemma ld8_eq_Inr [res_simps]: "ld8 m i = Inr b \<longleftrightarrow> i < length m \<and> b = m ! i"
  by (auto simp: ld8_def)

lemma st16_eq_Inr [res_simps]:
  "st16 m i w = Inr m' \<longleftrightarrow> i + 2 \<le> length m \<and> m' = m[i := lo8 w, i + 1 := hi8 w]"
  by (auto simp: st16_def)

lemma ldn_eq_Inr [res_simps]: "ldn m i n = Inr bs \<longleftrightarrow> i + n \<le> length m \<and> bs = take n (drop i m)"
  by (auto simp: ldn_def)

lemma stn_eq_Inr [res_simps]:
  "stn m i bs = Inr m' \<longleftrightarrow>
     i + length bs \<le> length m \<and> m' = take i m @ bs @ drop (i + length bs) m"
  by (auto simp: stn_def)

lemma st16_length: "st16 m i w = Inr m' \<Longrightarrow> length m' = length m"
  by (auto simp: res_simps)

lemma stn_length: "stn m i bs = Inr m' \<Longrightarrow> length m' = length m"
  by (auto simp: res_simps)

lemma ld16_st16_same: "st16 m i w = Inr m' \<Longrightarrow> ld16 m' i = Inr w"
  by (auto simp: res_simps)

lemma ld16_st16_other:
  "st16 m i w = Inr m' \<Longrightarrow> j + 2 \<le> i \<or> i + 2 \<le> j \<Longrightarrow> ld16 m' j = ld16 m j"
  by (auto simp: res_simps ld16_def)

lemma nth_st16: "st16 m i w = Inr m' \<Longrightarrow> k < i \<or> i + 2 \<le> k \<Longrightarrow> m' ! k = m ! k"
  by (auto simp: res_simps)

end
