(* ===== verification/NewIP_Header.thy ===== *)
theory NewIP_Header
  imports NewIP_Base
begin

text \<open>
  The wire structures of \<open>xdp/newip_router/newip.h\<close>: the offset header of a New IP packet, the
  shipping specification and the three contracts, and the metadata block that the XDP program
  hands to the tc program. A C pointer cast to one of these structures is a checked load of its
  fields at their offsets; 16-bit fields hold the raw (network order) value until \<open>ntohs\<close> is
  applied to it. The structures have C's natural alignment, so \<open>ping_contract\<close> has two bytes of
  padding before its timestamp and \<open>meta_info\<close> two bytes after the contract.
\<close>

section \<open>The structures\<close>

record newip_offset =
  shipping_offset :: u8
  contract_offset :: u8
  payload_offset :: u8

record shipping_spec =
  src_addr_type :: u8
  dst_addr_type :: u8
  addr_cast :: u8

record max_delay_forwarding =
  mdf_contract_type :: u16
  max_allowed_delay :: u16
  delay_exp :: u16

record ping_contract =
  ping_contract_type :: u16
  ping_code :: u16
  ping_hops :: u16
  ping_timestamp :: "u8 list"

record latency_based_forwarding =
  lbf_contract_type :: u16
  min_delay :: u16
  max_delay :: u16
  experienced_delay :: u16
  fib_todelay :: u16
  fib_tohops :: u16

record meta_info =
  meta_ifindex :: u32
  meta_contract :: max_delay_forwarding

section \<open>Loads and stores of the structures\<close>

definition sizeof_newip_offset :: nat where "sizeof_newip_offset = 3"
definition sizeof_shipping_spec :: nat where "sizeof_shipping_spec = 3"
definition sizeof_mdf :: nat where "sizeof_mdf = 6"
definition sizeof_ping :: nat where "sizeof_ping = 16"
definition sizeof_lbf :: nat where "sizeof_lbf = 12"
definition sizeof_meta_info :: nat where "sizeof_meta_info = 12"

lemmas sizeof_defs [byte_simps] =
  sizeof_newip_offset_def sizeof_shipping_spec_def sizeof_mdf_def sizeof_ping_def
  sizeof_lbf_def sizeof_meta_info_def

definition get_newip_offset :: "u8 list \<Rightarrow> nat \<Rightarrow> newip_offset res" where
  "get_newip_offset m i =
     rbind (ld8 m i) (\<lambda>s. rbind (ld8 m (i + 1)) (\<lambda>c. rbind (ld8 m (i + 2)) (\<lambda>p.
       Inr \<lparr>shipping_offset = s, contract_offset = c, payload_offset = p\<rparr>)))"

definition get_shipping_spec :: "u8 list \<Rightarrow> nat \<Rightarrow> shipping_spec res" where
  "get_shipping_spec m i =
     rbind (ld8 m i) (\<lambda>s. rbind (ld8 m (i + 1)) (\<lambda>d. rbind (ld8 m (i + 2)) (\<lambda>c.
       Inr \<lparr>src_addr_type = s, dst_addr_type = d, addr_cast = c\<rparr>)))"

definition get_mdf :: "u8 list \<Rightarrow> nat \<Rightarrow> max_delay_forwarding res" where
  "get_mdf m i =
     rbind (ld16 m i) (\<lambda>t. rbind (ld16 m (i + 2)) (\<lambda>a. rbind (ld16 m (i + 4)) (\<lambda>e.
       Inr \<lparr>mdf_contract_type = t, max_allowed_delay = a, delay_exp = e\<rparr>)))"

definition put_mdf :: "u8 list \<Rightarrow> nat \<Rightarrow> max_delay_forwarding \<Rightarrow> u8 list res" where
  "put_mdf m i c =
     rbind (st16 m i (mdf_contract_type c)) (\<lambda>m.
     rbind (st16 m (i + 2) (max_allowed_delay c)) (\<lambda>m.
     st16 m (i + 4) (delay_exp c)))"

definition get_ping :: "u8 list \<Rightarrow> nat \<Rightarrow> ping_contract res" where
  "get_ping m i =
     rbind (ld16 m i) (\<lambda>t. rbind (ld16 m (i + 2)) (\<lambda>c. rbind (ld16 m (i + 4)) (\<lambda>h.
     rbind (ldn m (i + 8) 8) (\<lambda>ts.
       Inr \<lparr>ping_contract_type = t, ping_code = c, ping_hops = h, ping_timestamp = ts\<rparr>))))"

definition get_lbf :: "u8 list \<Rightarrow> nat \<Rightarrow> latency_based_forwarding res" where
  "get_lbf m i =
     rbind (ld16 m i) (\<lambda>t. rbind (ld16 m (i + 2)) (\<lambda>mi. rbind (ld16 m (i + 4)) (\<lambda>ma.
     rbind (ld16 m (i + 6)) (\<lambda>e. rbind (ld16 m (i + 8)) (\<lambda>td. rbind (ld16 m (i + 10)) (\<lambda>th.
       Inr \<lparr>lbf_contract_type = t, min_delay = mi, max_delay = ma, experienced_delay = e,
            fib_todelay = td, fib_tohops = th\<rparr>))))))"

definition put_lbf :: "u8 list \<Rightarrow> nat \<Rightarrow> latency_based_forwarding \<Rightarrow> u8 list res" where
  "put_lbf m i c =
     rbind (st16 m i (lbf_contract_type c)) (\<lambda>m.
     rbind (st16 m (i + 2) (min_delay c)) (\<lambda>m.
     rbind (st16 m (i + 4) (max_delay c)) (\<lambda>m.
     rbind (st16 m (i + 6) (experienced_delay c)) (\<lambda>m.
     rbind (st16 m (i + 8) (fib_todelay c)) (\<lambda>m.
     st16 m (i + 10) (fib_tohops c))))))"

section \<open>The interface of a structure overlaid on a buffer\<close>

text \<open>What a client of an overlaid structure may rely on, whatever the structure is: access is
  possible exactly when the whole structure is inside the buffer, a store is read back, it
  keeps the length, and it touches no byte outside the structure; a load depends on no byte
  outside it either.\<close>

locale wire_struct =
  fixes get :: "u8 list \<Rightarrow> nat \<Rightarrow> 's res"
    and put :: "u8 list \<Rightarrow> nat \<Rightarrow> 's \<Rightarrow> u8 list res"
    and sz :: nat
  assumes get_ok: "(\<exists>s. get m i = Inr s) \<longleftrightarrow> in_buf m i sz"
    and put_ok: "(\<exists>m'. put m i s = Inr m') \<longleftrightarrow> in_buf m i sz"
    and put_length: "put m i s = Inr m' \<Longrightarrow> length m' = length m"
    and get_put: "put m i s = Inr m' \<Longrightarrow> get m' i = Inr s"
    and put_frame: "put m i s = Inr m' \<Longrightarrow> k < i \<or> i + sz \<le> k \<Longrightarrow> m' ! k = m ! k"
    and get_local: "in_buf m i sz \<Longrightarrow> in_buf m' i sz \<Longrightarrow>
          (\<And>k. k < sz \<Longrightarrow> m' ! (i + k) = m ! (i + k)) \<Longrightarrow> get m' i = get m i"
begin

lemma get_put_other:
  assumes "put m i s = Inr m'" and "j + sz \<le> i \<or> i + sz \<le> j" and "in_buf m j sz"
  shows "get m' j = get m j"
proof (rule get_local)
  show "in_buf m' j sz" using assms put_length by (auto simp: in_buf_def)
  show "m' ! (j + k) = m ! (j + k)" if "k < sz" for k
    using put_frame [OF assms(1), of "j + k"] assms(2) that by auto
qed (fact assms(3))

lemma put_put:
  assumes "put m i s = Inr m1"
  shows "\<exists>m2. put m1 i t = Inr m2 \<and> get m2 i = Inr t \<and> length m2 = length m"
proof -
  have "in_buf m1 i sz" using assms put_ok put_length by (fastforce simp: in_buf_def)
  then obtain m2 where "put m1 i t = Inr m2" using put_ok by blast
  then show ?thesis using assms get_put put_length by metis
qed

end

lemma ld16_local:
  assumes "in_buf m i sz" "in_buf m' i sz" "j + 2 \<le> sz"
    and eq: "\<And>k. k < sz \<Longrightarrow> m' ! (i + k) = m ! (i + k)"
  shows "ld16 m' (i + j) = ld16 m (i + j)"
  using assms(1-3) eq [of j] eq [of "j + 1"] by (simp add: ld16_def in_buf_def)

interpretation mdf_wire: wire_struct get_mdf put_mdf sizeof_mdf
proof unfold_locales
  fix m m' :: "u8 list" and i k :: nat and s
  show "(\<exists>s. get_mdf m i = Inr s) \<longleftrightarrow> in_buf m i sizeof_mdf"
    by (auto simp: get_mdf_def res_simps in_buf_def sizeof_mdf_def)
  show "(\<exists>m'. put_mdf m i s = Inr m') \<longleftrightarrow> in_buf m i sizeof_mdf"
    by (auto simp: put_mdf_def res_simps in_buf_def sizeof_mdf_def)
  show "length m' = length m" if "put_mdf m i s = Inr m'"
    using that by (auto simp: put_mdf_def res_simps)
  show "get_mdf m' i = Inr s" if "put_mdf m i s = Inr m'"
    using that by (auto simp: put_mdf_def get_mdf_def ld16_def res_simps)
  show "m' ! k = m ! k" if "put_mdf m i s = Inr m'" "k < i \<or> i + sizeof_mdf \<le> k"
    using that by (auto simp: put_mdf_def res_simps sizeof_mdf_def)
next
  fix m m' :: "u8 list" and i :: nat
  assume bufs: "in_buf m i sizeof_mdf" "in_buf m' i sizeof_mdf"
    and eq: "\<And>k. k < sizeof_mdf \<Longrightarrow> m' ! (i + k) = m ! (i + k)"
  have "ld16 m' (i + j) = ld16 m (i + j)" if "j + 2 \<le> 6" for j
    by (rule ld16_local [OF bufs _ eq]) (use that in \<open>simp_all add: sizeof_mdf_def\<close>)
  from this [of 0] this [of 2] this show "get_mdf m' i = get_mdf m i"
    by (simp add: get_mdf_def)
qed

interpretation lbf_wire: wire_struct get_lbf put_lbf sizeof_lbf
proof unfold_locales
  fix m m' :: "u8 list" and i k :: nat and s
  show "(\<exists>s. get_lbf m i = Inr s) \<longleftrightarrow> in_buf m i sizeof_lbf"
    by (auto simp: get_lbf_def res_simps in_buf_def sizeof_lbf_def)
  show "(\<exists>m'. put_lbf m i s = Inr m') \<longleftrightarrow> in_buf m i sizeof_lbf"
    by (auto simp: put_lbf_def res_simps in_buf_def sizeof_lbf_def)
  show "length m' = length m" if "put_lbf m i s = Inr m'"
    using that by (auto simp: put_lbf_def res_simps)
  show "get_lbf m' i = Inr s" if "put_lbf m i s = Inr m'"
    using that by (auto simp: put_lbf_def get_lbf_def ld16_def res_simps)
  show "m' ! k = m ! k" if "put_lbf m i s = Inr m'" "k < i \<or> i + sizeof_lbf \<le> k"
    using that by (auto simp: put_lbf_def res_simps sizeof_lbf_def)
next
  fix m m' :: "u8 list" and i :: nat
  assume bufs: "in_buf m i sizeof_lbf" "in_buf m' i sizeof_lbf"
    and eq: "\<And>k. k < sizeof_lbf \<Longrightarrow> m' ! (i + k) = m ! (i + k)"
  have "ld16 m' (i + j) = ld16 m (i + j)" if "j + 2 \<le> 12" for j
    by (rule ld16_local [OF bufs _ eq]) (use that in \<open>simp_all add: sizeof_lbf_def\<close>)
  from this [of 0] this [of 2] this show "get_lbf m' i = get_lbf m i"
    by (simp add: get_lbf_def)
qed

end
