(* ===== verification/Lbf_Delay.thy ===== *)
theory Lbf_Delay
  imports NewIP_Header
begin

text \<open>
  The delay arithmetic of \<open>lbf/src/linux/sch_lbf.c\<close>: \<open>lbf_get_min_delay\<close>,
  \<open>lbf_get_max_delay\<close> and the part of \<open>lbf_enqueue\<close> that turns the contract of a packet
  into its local queueing budget. Everything is unsigned 16-bit; sums of two 16-bit values in a
  comparison or a difference are computed in \<open>int\<close>, as C's promotion does, and cut to 16 bits
  when they are assigned.
\<close>

definition DMAX_BESTEFFORT :: u16 where "DMAX_BESTEFFORT = 10000"
definition LQB_BESTEFFORT :: u16 where "LQB_BESTEFFORT = 64000"

definition lbf_get_min_delay :: "u16 \<Rightarrow> u16 \<Rightarrow> u16 \<Rightarrow> u16 \<Rightarrow> u16" where
  "lbf_get_min_delay e_delay_new mn todelay tohops =
     (let qmin = (if uint mn > uint e_delay_new + uint todelay
                  then word_of_int (uint mn - (uint e_delay_new + uint todelay)) else 0)
      in if tohops = 0 then 0 else qmin div tohops)"

definition lbf_get_max_delay :: "u16 \<Rightarrow> u16 \<Rightarrow> u16 \<Rightarrow> u16 \<Rightarrow> u16" where
  "lbf_get_max_delay e_delay_new mx todelay tohops =
     (let qmax = (if mx > 0
                  then word_of_int (uint mx - (uint e_delay_new + uint todelay)) else 0)
      in if tohops = 0 then 0
         else if mx = 0 then DMAX_BESTEFFORT else qmax div tohops)"

section \<open>The budget computed at enqueue\<close>

record lbf_budget =
  b_contract :: latency_based_forwarding
  b_lqmin :: u16
  b_lqmax :: u16
  b_lqbudget :: u16
  b_early_discard :: bool

text \<open>\<open>h_delay\<close> is the constant 0 in the code; the hop count is decremented in network order
  (\<open>lbf->fib_tohops - htons(1)\<close>).\<close>

definition dec_tohops :: "u16 \<Rightarrow> u16" where
  "dec_tohops raw = raw - htons 1"

definition lbf_plan :: "latency_based_forwarding \<Rightarrow> lbf_budget" where
  "lbf_plan c =
     (let h_delay = (0 :: u16);
          c1 = c\<lparr>experienced_delay := htons (ntohs (experienced_delay c) + h_delay * 10),
                 fib_todelay := htons (ntohs (fib_todelay c) - h_delay)\<rparr>;
          e_delay_new = ntohs (experienced_delay c1);
          mn = ntohs (min_delay c1) * 10;
          mx = ntohs (max_delay c1) * 10;
          todelay = ntohs (fib_todelay c1) * 10;
          tohops = ntohs (fib_tohops c1);
          lqmin = lbf_get_min_delay e_delay_new mn todelay tohops;
          lqmax = lbf_get_max_delay e_delay_new mx todelay tohops
      in \<lparr>b_contract = c1\<lparr>fib_tohops := dec_tohops (fib_tohops c1)\<rparr>,
          b_lqmin = lqmin, b_lqmax = lqmax,
          b_lqbudget = (if mx > 0 then lqmax - lqmin else LQB_BESTEFFORT),
          b_early_discard = (mx > 0 \<and> uint e_delay_new + uint todelay > uint mx)\<rparr>)"

text \<open>The absolute times between which the packet may leave, in nanoseconds:
  \<open>curr_time + (__u64)lqmin * NSEC_PER_USEC * 100\<close>.\<close>

definition NSEC_PER_USEC :: u64 where "NSEC_PER_USEC = 1000"

definition abs_time :: "u64 \<Rightarrow> u16 \<Rightarrow> u64" where
  "abs_time curr_time lq = curr_time + ucast lq * NSEC_PER_USEC * 100"

section \<open>What the delays are\<close>

lemma uint_u16_bounds: "0 \<le> uint (w :: u16)" "uint (w :: u16) < 65536"
  using uint_lt2p [of w] by simp_all

lemma uint_u16_pos: "w \<noteq> 0 \<Longrightarrow> 0 < uint (w :: u16)"
  using uint_u16_bounds(1) [of w] by (metis order_le_less uint_0_iff)

lemma uint_diff_sum:
  assumes "uint e + uint td \<le> uint (mx :: u16)"
  shows "uint (mx - (e + td)) = uint mx - (uint e + uint td)"
proof -
  have "uint (mx - (e + td)) = (uint mx - (uint e + uint td)) mod 65536"
    by (simp add: uint_word_ariths mod_diff_right_eq)
  then show ?thesis
    using assms uint_u16_bounds [of mx] uint_u16_bounds [of e] uint_u16_bounds [of td] by simp
qed

lemma min_delay_eq:
  assumes "th \<noteq> 0"
  shows "uint (lbf_get_min_delay e mn td th) = max 0 (uint mn - (uint e + uint td)) div uint th"
  using assms by (auto simp: lbf_get_min_delay_def Let_def uint_div uint_diff_sum)

lemma max_delay_eq:
  assumes "th \<noteq> 0" and "mx \<noteq> 0" and "uint e + uint td \<le> uint mx"
  shows "uint (lbf_get_max_delay e mx td th) = (uint mx - (uint e + uint td)) div uint th"
  using assms by (simp add: lbf_get_max_delay_def Let_def uint_div uint_diff_sum word_gt_0)

lemma delays_ordered:
  assumes "th \<noteq> 0" "mx \<noteq> 0" "uint e + uint td \<le> uint mx" "mn \<le> mx"
  shows "lbf_get_min_delay e mn td th \<le> lbf_get_max_delay e mx td th"
proof -
  have "uint mn \<le> uint mx" using assms(4) by (simp add: word_le_def)
  then have "max 0 (uint mn - (uint e + uint td)) div uint th
      \<le> (uint mx - (uint e + uint td)) div uint th"
    using assms(1,3) by (intro zdiv_mono1) (auto simp: uint_u16_pos)
  then show ?thesis using assms by (simp add: word_le_def min_delay_eq max_delay_eq)
qed

lemma max_delay_le:
  assumes "th \<noteq> 0" "mx \<noteq> 0" "uint e + uint td \<le> uint mx"
  shows "uint (lbf_get_max_delay e mx td th) * uint th \<le> uint mx - (uint e + uint td)"
proof -
  have "x div uint th * uint th \<le> x" if "0 \<le> x" for x
    using uint_u16_pos [OF assms(1)] by (simp add: minus_mod_eq_div_mult [symmetric])
  with assms show ?thesis by (simp add: max_delay_eq)
qed

section \<open>A packet's way through its remaining hops\<close>

text \<open>The delays \<open>ds\<close> a packet experiences in its remaining hops, each within the local budget
  that the hop computes from the delay experienced so far and the number of hops left.\<close>

fun within_budgets :: "u16 \<Rightarrow> u16 \<Rightarrow> u16 \<Rightarrow> u16 \<Rightarrow> u16 list \<Rightarrow> bool" where
  "within_budgets mn mx td e [] \<longleftrightarrow> True"
| "within_budgets mn mx td e (d # ds) \<longleftrightarrow>
     lbf_get_min_delay e mn td (word_of_nat (length (d # ds))) \<le> d \<and>
     d \<le> lbf_get_max_delay e mx td (word_of_nat (length (d # ds))) \<and>
     within_budgets mn mx td (e + d) ds"

lemma word_of_nat_u16_nz: "0 < n \<Longrightarrow> n < 65536 \<Longrightarrow> (word_of_nat n :: u16) \<noteq> 0"
  by (simp add: word_of_nat_eq_0_iff) (meson nat_dvd_not_less)

lemma hop_in_max:
  assumes "th \<noteq> 0" "mx \<noteq> 0" "uint e + uint td \<le> uint mx" "d \<le> lbf_get_max_delay e mx td th"
  shows "uint (e + d) = uint e + uint d \<and> uint (e + d) + uint td \<le> uint mx"
proof -
  have "uint d \<le> (uint mx - (uint e + uint td)) div uint th"
    using assms by (simp add: word_le_def max_delay_eq)
  also have "\<dots> \<le> uint mx - (uint e + uint td)"
    using assms(3) uint_u16_pos [OF assms(1)] zdiv_mono2 [of "uint mx - (uint e + uint td)" 1 "uint th"] by simp
  finally have d: "uint e + uint d + uint td \<le> uint mx" by simp
  then have "uint e + uint d < 65536"
    using uint_u16_bounds [of mx] uint_u16_bounds [of td] by linarith
  with d show ?thesis using uint_u16_bounds [of e] uint_u16_bounds [of d]
    by (simp add: uint_word_ariths)
qed

text \<open>C5. End-to-end latency. If a packet is not discarded early at its first hop and every
  remaining hop delays it within the local budget computed by \<open>lbf_get_min_delay\<close> and
  \<open>lbf_get_max_delay\<close>, then on leaving the last hop the delay it has experienced, together with
  the remaining forwarding delay, lies between the minimum and the maximum of its contract,
  and the 16-bit sum that the packet carries has not wrapped around.\<close>

theorem lbf_path_in_contract:
  assumes "mx \<noteq> 0" "mn \<le> mx" "uint e + uint td \<le> uint mx"
    and "ds \<noteq> []" "length ds < 65536" "within_budgets mn mx td e ds"
  shows "uint (e + sum_list ds) = uint e + sum_list (map uint ds) \<and>
         uint mn \<le> uint (e + sum_list ds) + uint td \<and>
         uint (e + sum_list ds) + uint td \<le> uint mx"
  using assms(3-6)
proof (induction ds arbitrary: e)
  case (Cons d ds)
  let ?th = "word_of_nat (length (d # ds)) :: u16"
  have th: "?th \<noteq> 0" using Cons.prems by (intro word_of_nat_u16_nz) auto
  have step: "uint (e + d) = uint e + uint d \<and> uint (e + d) + uint td \<le> uint mx"
    using Cons.prems by (intro hop_in_max [OF th assms(1)]) auto
  show ?case
  proof (cases "ds = []")
    case True
    have "uint mn \<le> uint e + uint td + uint d"
      using Cons.prems min_delay_eq [of 1 e mn td] by (simp add: True word_le_def)
    then show ?thesis using True step by simp
  next
    case False
    with Cons.IH [of "e + d"] Cons.prems step show ?thesis by (auto simp: add.assoc)
  qed
qed simp

theorem lbf_path_in_contract_witness:
  "uint (100 + sum_list [400, 700 :: u16]) = 1200 \<and> (1000 :: int) \<le> 1200 + 50 \<and> (1200 + 50 :: int) \<le> 2000"
  using lbf_path_in_contract [of 2000 1000 100 50 "[400, 700]"]
  by (simp add: lbf_get_min_delay_def lbf_get_max_delay_def Let_def)

lemma delays_reversed:
  assumes "th \<noteq> 0" "mx \<noteq> 0" "uint e + uint td \<le> uint mx" "uint mx + uint th \<le> uint mn"
  shows "lbf_get_max_delay e mx td th < lbf_get_min_delay e mn td th"
proof -
  let ?x = "uint mx - (uint e + uint td)" and ?n = "uint mn - (uint e + uint td)"
  have th: "0 < uint th" using assms(1) by (rule uint_u16_pos)
  have "?x div uint th + 1 = (?x + uint th) div uint th" using th div_add_self2 [of "uint th" ?x] by linarith
  also have "\<dots> \<le> ?n div uint th" using assms(4) th by (intro zdiv_mono1) auto
  finally have "?x div uint th < ?n div uint th" by linarith
  moreover have "max 0 ?n = ?n" using assms(3,4) th by simp
  ultimately show ?thesis
    using assms(1-3) by (simp add: word_less_alt min_delay_eq max_delay_eq)
qed

text \<open>C16. The local budget of an accepted packet. Take a contract with a maximum delay and hops
  left that is not discarded early. The delays are those of the code: ten times the 16-bit fields,
  modulo 2 to the 16. Over the hops left the longest local delay stays within what
  the maximum delay still allows. The budget is \<open>lqmax - lqmin\<close> without wrap-around when the
  shortest local delay is at most the longest, which is so whenever the minimum delay is at most
  the maximum; when the minimum exceeds the maximum by the hop count or more, which \<open>lbf_enqueue\<close>
  does not check, the shortest delay is the larger one and the budget wraps around.\<close>

theorem lbf_plan_budget:
  assumes "ntohs (fib_tohops c) \<noteq> 0" "ntohs (max_delay c) * 10 \<noteq> 0"
    and "\<not> b_early_discard (lbf_plan c)"
  shows "uint (b_lqmax (lbf_plan c)) * uint (ntohs (fib_tohops c)) + uint (ntohs (experienced_delay c))
           \<le> uint (ntohs (max_delay c) * 10) \<and>
         uint (b_lqbudget (lbf_plan c)) =
           (if b_lqmin (lbf_plan c) \<le> b_lqmax (lbf_plan c)
            then uint (b_lqmax (lbf_plan c)) - uint (b_lqmin (lbf_plan c))
            else 65536 - (uint (b_lqmin (lbf_plan c)) - uint (b_lqmax (lbf_plan c)))) \<and>
         (ntohs (min_delay c) * 10 \<le> ntohs (max_delay c) * 10 \<longrightarrow>
            b_lqmin (lbf_plan c) \<le> b_lqmax (lbf_plan c)) \<and>
         (uint (ntohs (max_delay c) * 10) + uint (ntohs (fib_tohops c)) \<le> uint (ntohs (min_delay c) * 10) \<longrightarrow>
            b_lqmax (lbf_plan c) < b_lqmin (lbf_plan c))"
proof -
  let ?e = "ntohs (experienced_delay c)" and ?td = "ntohs (fib_todelay c) * 10"
  let ?mx = "ntohs (max_delay c) * 10" and ?mn = "ntohs (min_delay c) * 10"
  let ?th = "ntohs (fib_tohops c)"
  have le: "uint ?e + uint ?td \<le> uint ?mx"
    using assms(2,3) by (auto simp: lbf_plan_def Let_def word_gt_0)
  have ord: "b_lqmin (lbf_plan c) \<le> b_lqmax (lbf_plan c)" if "?mn \<le> ?mx"
    using delays_ordered [OF assms(1,2) le that] by (simp add: lbf_plan_def Let_def)
  have rev: "b_lqmax (lbf_plan c) < b_lqmin (lbf_plan c)" if "uint ?mx + uint ?th \<le> uint ?mn"
    using delays_reversed [OF assms(1,2) le that] by (simp add: lbf_plan_def Let_def)
  have "uint (x - y) = (if y \<le> x then uint x - uint y else 65536 - (uint y - uint x))" for x y :: u16
    using uint_u16_bounds [of x] uint_u16_bounds [of y] by (auto simp: uint_sub_if' word_le_def)
  moreover have "b_lqbudget (lbf_plan c) = b_lqmax (lbf_plan c) - b_lqmin (lbf_plan c)"
    using assms(2) by (simp add: lbf_plan_def Let_def word_gt_0)
  moreover have "uint (b_lqmax (lbf_plan c)) * uint ?th \<le> uint ?mx - (uint ?e + uint ?td)"
    using max_delay_le [OF assms(1,2) le] by (simp add: lbf_plan_def Let_def)
  moreover have "uint (b_lqmax (lbf_plan c)) * uint ?th + uint ?e \<le> uint ?mx"
    using calculation(3) uint_u16_bounds(1) [of ?td] by linarith
  ultimately show ?thesis using ord rev by auto
qed

definition sample_lbf :: latency_based_forwarding where
  "sample_lbf = \<lparr>lbf_contract_type = htons 2, min_delay = htons 500, max_delay = htons 800,
     experienced_delay = htons 100, fib_todelay = htons 10, fib_tohops = htons 2\<rparr>"

text \<open>The same contract with a minimum of 500 and a maximum of 100, and one hop left.\<close>

definition reversed_lbf :: latency_based_forwarding where
  "reversed_lbf = \<lparr>lbf_contract_type = htons 2, min_delay = htons 500, max_delay = htons 100,
     experienced_delay = 0, fib_todelay = 0, fib_tohops = htons 1\<rparr>"

theorem lbf_plan_budget_witness:
  "uint (b_lqbudget (lbf_plan sample_lbf)) = 1500 \<and> uint (b_lqbudget (lbf_plan reversed_lbf)) = 61536"
  using lbf_plan_budget [of sample_lbf] lbf_plan_budget [of reversed_lbf]
  by (simp add: sample_lbf_def reversed_lbf_def lbf_plan_def Let_def lbf_get_min_delay_def
      lbf_get_max_delay_def)

text \<open>The hop count that a router writes back. \<open>lbf->fib_tohops - htons(1)\<close> subtracts in
  network byte order: it decrements the hop count exactly when its low byte is not zero; for a
  multiple of 256 it leaves the high byte and sets the low byte to 255, so the count grows.\<close>

theorem dec_tohops_decrements:
  "ntohs (dec_tohops raw) =
     (if lo8 (ntohs raw) \<noteq> 0 then ntohs raw - 1 else ntohs raw + 255)"
proof -
  obtain a b where raw: "raw = le16 a b" using le16_lo_hi by metis
  have h1: "htons 1 = 256" by (simp add: htons_def ntohs_def)
  have le16_eqI: "x = y" if "unat x = unat y" for x y :: u16
    using that by (simp add: word_unat_eq_iff)
  have bnds: "unat a < 256" "unat b < 256" "unat (- 1 :: u8) = 255" "b \<noteq> 0 \<Longrightarrow> 0 < unat b"
    using unat_u8_lt [of a] unat_u8_lt [of b] by (auto simp: unat_gt_0 unat_u8_minus_1)
  have dec: "le16 a b - 256 = le16 a (b - 1)"
    using bnds by (intro le16_eqI, cases "b = 0") (auto simp: unat_le16 unat_sub_if')
  have "le16 (b - 1) a = (if b \<noteq> 0 then le16 b a - 1 else le16 b a + 255)"
    using bnds unat_u16_lt [of "le16 b a"]
    by (intro le16_eqI, cases "b = 0") (auto simp: unat_le16 unat_sub_if' unat_word_ariths)
  with dec show ?thesis
    by (simp add: raw dec_tohops_def h1 ntohs_le16)
qed

end
