(* ===== verification/Lbf_Heap.thy ===== *)
theory Lbf_Heap
  imports NewIP_Base
begin

text \<open>
  The packet store of \<open>lbf/src/linux/sch_lbf.c\<close>: a singly linked list of hnodes, one per range
  of local queueing budgets, each with a linked list of pnodes ordered by earliest departure
  time. Both kinds of node live in an explicit heap (a map from addresses), pointers are
  optional addresses, and every access of the code is an access of the heap that faults on NULL
  and on a freed address. \<open>kcalloc\<close> may fail: \<open>kc_plan\<close> is what the allocator will answer to the
  next calls (once it is used up, every call succeeds); a freed address is not handed out again.
  A loop over a linked list is a \<open>partial_function\<close>, so that following a cycle for ever is a
  possible result of the model.
\<close>

section \<open>The data\<close>

record lbf_pnode =
  p_next :: "nat option"
  p_hnode :: "nat option"
  tmin_nsec :: u64
  tmax_nsec :: u64
  trcv :: u64
  realpkt :: "nat option"

record lbf_hnode =
  next_hnode :: "nat option"
  queue :: "nat option"
  prev_hnode :: "nat option"
  hnode_num :: u32
  range_start :: int
  range_end :: int

record lbf_hnode_head =
  list_head :: "nat option"
  list_tail :: "nat option"
  list_len :: u32

record kernel_heap =
  pheap :: "nat \<rightharpoonup> lbf_pnode"
  hheap :: "nat \<rightharpoonup> lbf_hnode"
  brk :: nat
  kc_plan :: "bool list"

record lbf_vars =
  hops_left :: u16

record lbf_stats =
  stats_delay :: u64
  stats_overlimit :: u32

text \<open>\<open>watchdog\<close> is the expiry last given to \<open>qdisc_watchdog_schedule_ns\<close> (\<open>None\<close> once it is
  cancelled).\<close>

record lbf_sched_data = kernel_heap +
  hnode_list :: "lbf_hnode_head option"
  next_pnode :: "nat option"
  vars :: lbf_vars
  stats :: lbf_stats
  watchdog :: "u64 option"

section \<open>Heap accesses\<close>

definition kcalloc :: "'a kernel_heap_scheme \<Rightarrow> nat option \<times> 'a kernel_heap_scheme" where
  "kcalloc s =
     (case kc_plan s of
        [] \<Rightarrow> (Some (brk s), s\<lparr>brk := Suc (brk s)\<rparr>)
      | ok # plan \<Rightarrow>
          if ok then (Some (brk s), s\<lparr>brk := Suc (brk s), kc_plan := plan\<rparr>)
          else (None, s\<lparr>kc_plan := plan\<rparr>))"

definition p_write ::
  "'a kernel_heap_scheme \<Rightarrow> nat option \<Rightarrow> (lbf_pnode \<Rightarrow> lbf_pnode) \<Rightarrow> 'a kernel_heap_scheme res" where
  "p_write s p f =
     rbind (deref (pheap s) p) (\<lambda>n. Inr (s\<lparr>pheap := (pheap s)(the p \<mapsto> f n)\<rparr>))"

definition h_write ::
  "'a kernel_heap_scheme \<Rightarrow> nat option \<Rightarrow> (lbf_hnode \<Rightarrow> lbf_hnode) \<Rightarrow> 'a kernel_heap_scheme res" where
  "h_write s p f =
     rbind (deref (hheap s) p) (\<lambda>n. Inr (s\<lparr>hheap := (hheap s)(the p \<mapsto> f n)\<rparr>))"

lemma p_write_ok [simp]:
  "pheap s a = Some n \<Longrightarrow> p_write s (Some a) f = Inr (s\<lparr>pheap := (pheap s)(a \<mapsto> f n)\<rparr>)"
  by (simp add: p_write_def)

lemma h_write_ok [simp]:
  "hheap s a = Some n \<Longrightarrow> h_write s (Some a) f = Inr (s\<lparr>hheap := (hheap s)(a \<mapsto> f n)\<rparr>)"
  by (simp add: h_write_def)

section \<open>hnodes\<close>

abbreviation LQB_RANGE :: int where "LQB_RANGE \<equiv> 10"

definition create_hnode ::
  "int \<Rightarrow> u32 \<Rightarrow> 'a kernel_heap_scheme \<Rightarrow> nat option \<times> 'a kernel_heap_scheme" where
  "create_hnode lqbudget num s =
     (case kcalloc s of
        (None, s) \<Rightarrow> (None, s)
      | (Some a, s) \<Rightarrow>
          let start = lqbudget - lqbudget mod LQB_RANGE
          in (Some a, s\<lparr>hheap := (hheap s)(a \<mapsto>
                \<lparr>next_hnode = None, queue = None, prev_hnode = None, hnode_num = num,
                 range_start = start, range_end = start + LQB_RANGE - 1\<rparr>)\<rparr>))"

text \<open>Where the walk over the hnodes stops: at the hnode that covers the budget, past the last
  one, or in front of the first one that starts above the budget.\<close>

datatype hnode_stop = StopFound nat | StopAppend nat | StopInsert nat nat

partial_function (option) hnode_walk ::
  "(nat \<rightharpoonup> lbf_hnode) \<Rightarrow> int \<Rightarrow> nat option \<Rightarrow> nat \<Rightarrow> hnode_stop out" where
  "hnode_walk H lqbudget cur prev =
     (case cur of
        None \<Rightarrow> Some (Inr (StopAppend prev))
      | Some c \<Rightarrow>
          (case H c of
             None \<Rightarrow> Some (Inl (UseAfterFree c))
           | Some n \<Rightarrow>
               if lqbudget \<ge> range_start n \<and> lqbudget < range_end n then Some (Inr (StopFound c))
               else if lqbudget < range_start n then Some (Inr (StopInsert prev c))
               else hnode_walk H lqbudget (next_hnode n) c))"

definition list_len_inc :: "lbf_hnode_head \<Rightarrow> lbf_hnode_head" where
  "list_len_inc l = l\<lparr>list_len := list_len l + 1\<rparr>"

text \<open>The lookup in an existing list, and the creation of the hnode where the walk stopped.\<close>

definition hnode_in_list ::
  "lbf_hnode_head \<Rightarrow> 'a lbf_sched_data_scheme \<Rightarrow> int \<Rightarrow> (nat option \<times> 'a lbf_sched_data_scheme) out" where
  "hnode_in_list l s lqbudget =
     (case list_head l of
        None \<Rightarrow>
          (case create_hnode lqbudget (list_len l) s of
             (None, s) \<Rightarrow> Some (Inr (None, s))
           | (Some a, s) \<Rightarrow>
               Some (Inr (Some a, s\<lparr>hnode_list := Some ((list_len_inc l)\<lparr>list_head := Some a\<rparr>)\<rparr>)))
      | Some h0 \<Rightarrow>
          obind (hnode_walk (hheap s) lqbudget (Some h0) h0) (\<lambda>stop.
            (case stop of
               StopFound c \<Rightarrow> Some (Inr (Some c, s))
             | StopAppend prev \<Rightarrow>
                 (case create_hnode lqbudget (list_len l) s of
                    (None, s) \<Rightarrow> Some (Inr (None, s))
                  | (Some a, s) \<Rightarrow>
                      Some (rbind (h_write s (Some prev) (next_hnode_update (\<lambda>_. Some a))) (\<lambda>s.
                        Inr (Some a, s\<lparr>hnode_list := Some (list_len_inc l)\<rparr>))))
             | StopInsert prev c \<Rightarrow>
                 (case create_hnode lqbudget (list_len l) s of
                    (None, s) \<Rightarrow> Some (Inr (None, s))
                  | (Some a, s) \<Rightarrow>
                      Some (rbind (h_write s (Some a) (next_hnode_update (\<lambda>_. Some c))) (\<lambda>s.
                        if c = prev
                        then Inr (Some a, s\<lparr>hnode_list := Some ((list_len_inc l)\<lparr>list_head := Some a\<rparr>)\<rparr>)
                        else rbind (h_write s (Some prev) (next_hnode_update (\<lambda>_. Some a))) (\<lambda>s.
                               Inr (Some a, s\<lparr>hnode_list := Some (list_len_inc l)\<rparr>)))))))) "

definition lbf_get_hnode ::
  "'a lbf_sched_data_scheme \<Rightarrow> int \<Rightarrow> (nat option \<times> 'a lbf_sched_data_scheme) out" where
  "lbf_get_hnode s lqbudget =
     (case hnode_list s of
        Some l \<Rightarrow> hnode_in_list l s lqbudget
      | None \<Rightarrow>
          (case kcalloc s of
             (None, s) \<Rightarrow> Some (Inl NullDeref)
           | (Some _, s) \<Rightarrow>
               let l = \<lparr>list_head = None, list_tail = None, list_len = 0\<rparr>
               in hnode_in_list l (s\<lparr>hnode_list := Some l\<rparr>) lqbudget))"

section \<open>pnodes\<close>

text \<open>The insertion loop of \<open>pnode_queue_add\<close>: it stops at the first pnode whose earliest time
  is later than the new one's, or past the last pnode.\<close>

partial_function (option) pnode_walk ::
  "(nat \<rightharpoonup> lbf_pnode) \<Rightarrow> u64 \<Rightarrow> nat option \<Rightarrow> nat \<Rightarrow> (nat \<times> nat option) out" where
  "pnode_walk H tmin cur prev =
     (case cur of
        None \<Rightarrow> Some (Inr (prev, None))
      | Some c \<Rightarrow>
          (case H c of
             None \<Rightarrow> Some (Inl (UseAfterFree c))
           | Some n \<Rightarrow>
               if tmin < tmin_nsec n then Some (Inr (prev, Some c))
               else pnode_walk H tmin (p_next n) c))"

definition pnode_queue_add ::
  "'a kernel_heap_scheme \<Rightarrow> nat \<Rightarrow> nat \<Rightarrow> u64 \<Rightarrow> u64 \<Rightarrow> u64 \<Rightarrow> 'a kernel_heap_scheme out" where
  "pnode_queue_add s hnode pkt tmin tmax trcv_nsec =
     (case kcalloc s of
        (None, s) \<Rightarrow> Some (Inr s)
      | (Some my, s) \<Rightarrow>
          let s = s\<lparr>pheap := (pheap s)(my \<mapsto>
                    \<lparr>p_next = None, p_hnode = None, tmin_nsec = tmin, tmax_nsec = tmax,
                     trcv = trcv_nsec, realpkt = Some pkt\<rparr>)\<rparr>
          in obind (Some (deref (hheap s) (Some hnode))) (\<lambda>h.
             (case queue h of
                None \<Rightarrow>
                  Some (rbind (p_write s (Some my) (p_hnode_update (\<lambda>_. Some hnode))) (\<lambda>s.
                    h_write s (Some hnode) (queue_update (\<lambda>_. Some my))))
              | Some q0 \<Rightarrow>
                  obind (pnode_walk (pheap s) tmin (Some q0) q0) (\<lambda>(prev, cur).
                    (case cur of
                       None \<Rightarrow> Some (p_write s (Some prev) (p_next_update (\<lambda>_. Some my)))
                     | Some c \<Rightarrow>
                         Some (rbind
                           (if prev = c
                            then rbind (h_write s (Some hnode) (queue_update (\<lambda>_. Some my))) (\<lambda>s.
                                 rbind (p_write s (Some c) (p_hnode_update (\<lambda>_. None))) (\<lambda>s.
                                 p_write s (Some my) (p_hnode_update (\<lambda>_. Some hnode))))
                            else p_write s (Some prev) (p_next_update (\<lambda>_. Some my)))
                           (\<lambda>s. p_write s (Some my) (p_next_update (\<lambda>_. Some c)))))))))"

definition remove_pnode :: "'a kernel_heap_scheme \<Rightarrow> nat \<Rightarrow> 'a kernel_heap_scheme res" where
  "remove_pnode s p =
     rbind (deref (pheap s) (Some p)) (\<lambda>n.
     rbind
       (case p_next n of
          Some nx \<Rightarrow>
            rbind (h_write s (p_hnode n) (queue_update (\<lambda>_. Some nx))) (\<lambda>s.
            p_write s (Some nx) (p_hnode_update (\<lambda>_. p_hnode n)))
        | None \<Rightarrow>
            rbind (deref (hheap s) (p_hnode n)) (\<lambda>h.
              (case prev_hnode h of
                 None \<Rightarrow> h_write s (p_hnode n) (queue_update (\<lambda>_. None))
               | Some pv \<Rightarrow>
                   rbind (h_write s (Some pv) (next_hnode_update (\<lambda>_. next_hnode h))) (\<lambda>s.
                   rbind (case next_hnode h of
                            None \<Rightarrow> Inr s
                          | Some nh \<Rightarrow> h_write s (Some nh) (prev_hnode_update (\<lambda>_. Some pv))) (\<lambda>s.
                   Inr (s\<lparr>hheap := (hheap s)(the (p_hnode n) := None)\<rparr>))))))
       (\<lambda>s. Inr (s\<lparr>pheap := (pheap s)(p := None)\<rparr>)))"

section \<open>The searches\<close>

definition expired :: "u64 \<Rightarrow> 'a lbf_sched_data_scheme \<Rightarrow> lbf_pnode \<Rightarrow> bool" where
  "expired curr_time s n \<longleftrightarrow> tmax_nsec n < curr_time \<and> hops_left (vars s) = 0"

text \<open>Where a search goes on after an expired pnode: with the next pnode, or, when it was the
  last one, back at the previous hnode if there is one.\<close>

definition after_expired ::
  "'a kernel_heap_scheme \<Rightarrow> nat \<Rightarrow> lbf_pnode \<Rightarrow> (nat \<times> nat option) res" where
  "after_expired s curr_hnode n =
     (case p_next n of
        Some nx \<Rightarrow> Inr (curr_hnode, Some nx)
      | None \<Rightarrow>
          rbind (deref (hheap s) (Some curr_hnode)) (\<lambda>h.
            Inr (case prev_hnode h of Some pv \<Rightarrow> pv | None \<Rightarrow> curr_hnode, None)))"

partial_function (option) next_in_queue ::
  "u64 \<Rightarrow> 'a lbf_sched_data_scheme \<Rightarrow> nat option \<Rightarrow> nat \<Rightarrow> u64 \<Rightarrow> nat option \<Rightarrow>
     ('a lbf_sched_data_scheme \<times> nat \<times> u64 \<times> nat option) out" where
  "next_in_queue curr_time s cp ch tmin ret =
     (case cp of
        None \<Rightarrow> Some (Inr (s, ch, tmin, ret))
      | Some p \<Rightarrow>
          (case pheap s p of
             None \<Rightarrow> Some (Inl (UseAfterFree p))
           | Some n \<Rightarrow>
               if expired curr_time s n
               then (case after_expired s ch n of
                       Inl e \<Rightarrow> Some (Inl e)
                     | Inr cur \<Rightarrow>
                         (case remove_pnode s p of
                            Inl e \<Rightarrow> Some (Inl e)
                          | Inr s' \<Rightarrow> next_in_queue curr_time s' (snd cur) (fst cur) tmin ret))
               else if tmin_nsec n < tmin then Some (Inr (s, ch, tmin_nsec n, Some p))
               else Some (Inr (s, ch, tmin, ret))))"

partial_function (option) next_in_list ::
  "u64 \<Rightarrow> 'a lbf_sched_data_scheme \<Rightarrow> nat option \<Rightarrow> u64 \<Rightarrow> nat option \<Rightarrow>
     (nat option \<times> 'a lbf_sched_data_scheme) out" where
  "next_in_list curr_time s chp tmin ret =
     (case chp of
        None \<Rightarrow> Some (Inr (ret, s))
      | Some ch \<Rightarrow>
          (case hheap s ch of
             None \<Rightarrow> Some (Inl (UseAfterFree ch))
           | Some h \<Rightarrow>
               (case next_in_queue curr_time s (queue h) ch tmin ret of
                  None \<Rightarrow> None
                | Some (Inl e) \<Rightarrow> Some (Inl e)
                | Some (Inr (s', ch', tmin', ret')) \<Rightarrow>
                    (case hheap s' ch' of
                       None \<Rightarrow> Some (Inl (UseAfterFree ch'))
                     | Some h' \<Rightarrow> next_in_list curr_time s' (next_hnode h') tmin' ret'))))"

definition search_next_pnode ::
  "u64 \<Rightarrow> 'a lbf_sched_data_scheme \<Rightarrow> (nat option \<times> 'a lbf_sched_data_scheme) out" where
  "search_next_pnode curr_time s =
     (case hnode_list s of
        None \<Rightarrow> Some (Inr (None, s))
      | Some l \<Rightarrow> next_in_list curr_time s (list_head l) (- 1) None)"

partial_function (option) now_in_queue ::
  "u64 \<Rightarrow> 'a lbf_sched_data_scheme \<Rightarrow> nat option \<Rightarrow> nat \<Rightarrow>
     ('a lbf_sched_data_scheme \<times> nat \<times> nat option) out" where
  "now_in_queue curr_time s cp ch =
     (case cp of
        None \<Rightarrow> Some (Inr (s, ch, None))
      | Some p \<Rightarrow>
          (case pheap s p of
             None \<Rightarrow> Some (Inl (UseAfterFree p))
           | Some n \<Rightarrow>
               if tmin_nsec n \<le> curr_time
               then if expired curr_time s n
                    then (case after_expired s ch n of
                            Inl e \<Rightarrow> Some (Inl e)
                          | Inr cur \<Rightarrow>
                              (case remove_pnode s p of
                                 Inl e \<Rightarrow> Some (Inl e)
                               | Inr s' \<Rightarrow> now_in_queue curr_time s' (snd cur) (fst cur)))
                    else Some (Inr (s, ch, Some p))
               else Some (Inr (s, ch, None))))"

partial_function (option) now_in_list ::
  "u64 \<Rightarrow> 'a lbf_sched_data_scheme \<Rightarrow> nat option \<Rightarrow> (nat option \<times> 'a lbf_sched_data_scheme) out" where
  "now_in_list curr_time s chp =
     (case chp of
        None \<Rightarrow> Some (Inr (None, s))
      | Some ch \<Rightarrow>
          (case hheap s ch of
             None \<Rightarrow> Some (Inl (UseAfterFree ch))
           | Some h \<Rightarrow>
               (case now_in_queue curr_time s (queue h) ch of
                  None \<Rightarrow> None
                | Some (Inl e) \<Rightarrow> Some (Inl e)
                | Some (Inr (s', ch', Some p)) \<Rightarrow> Some (Inr (Some p, s'))
                | Some (Inr (s', ch', None)) \<Rightarrow>
                    (case hheap s' ch' of
                       None \<Rightarrow> Some (Inl (UseAfterFree ch'))
                     | Some h' \<Rightarrow> now_in_list curr_time s' (next_hnode h')))))"

definition search_now_pnode ::
  "u64 \<Rightarrow> 'a lbf_sched_data_scheme \<Rightarrow> (nat option \<times> 'a lbf_sched_data_scheme) out" where
  "search_now_pnode curr_time s =
     (case hnode_list s of
        None \<Rightarrow> Some (Inr (None, s))
      | Some l \<Rightarrow> now_in_list curr_time s (list_head l))"

text \<open>The loops are executable.\<close>

declare hnode_walk.simps [code] pnode_walk.simps [code] next_in_queue.simps [code]
  next_in_list.simps [code] now_in_queue.simps [code] now_in_list.simps [code]

end
