(* ===== verification/Lbf_Store.thy ===== *)
theory Lbf_Store
  imports Lbf_Heap
begin

text \<open>
  The abstract packet store that the heap of \<open>Lbf_Heap\<close> represents: a list of buckets (the
  hnodes), each with its list of entries (the pnodes). \<open>store_repr\<close> says that the heap holds
  exactly the nodes of an abstract store, linked as the store says; every operation of the code
  is then shown to compute the corresponding operation on lists.
\<close>

section \<open>Abstract stores and the heaps that represent them\<close>

record ent =
  e_addr :: nat
  e_tmin :: u64
  e_tmax :: u64
  e_trcv :: u64
  e_pkt :: "nat option"

record bucket =
  b_addr :: nat
  b_num :: u32
  b_start :: int
  b_ents :: "ent list"

definition pnode_of :: "nat option \<Rightarrow> nat option \<Rightarrow> ent \<Rightarrow> lbf_pnode" where
  "pnode_of nxt tag e =
     \<lparr>p_next = nxt, p_hnode = tag, tmin_nsec = e_tmin e, tmax_nsec = e_tmax e,
      trcv = e_trcv e, realpkt = e_pkt e\<rparr>"

lemma pnode_of_simps [simp]:
  "p_next (pnode_of nxt tag e) = nxt" "p_hnode (pnode_of nxt tag e) = tag"
  "tmin_nsec (pnode_of nxt tag e) = e_tmin e" "tmax_nsec (pnode_of nxt tag e) = e_tmax e"
  "realpkt (pnode_of nxt tag e) = e_pkt e"
  "p_next_update f (pnode_of nxt tag e) = pnode_of (f nxt) tag e"
  "p_hnode_update f (pnode_of nxt tag e) = pnode_of nxt (f tag) e"
  "realpkt_update f (pnode_of nxt tag e) = pnode_of nxt tag (e\<lparr>e_pkt := f (e_pkt e)\<rparr>)"
  by (simp_all add: pnode_of_def)

definition first_ent :: "ent list \<Rightarrow> nat option \<Rightarrow> nat option" where
  "first_ent es nxt = (case es of [] \<Rightarrow> nxt | e # _ \<Rightarrow> Some (e_addr e))"

lemma first_ent_simps [simp]:
  "first_ent [] nxt = nxt" "first_ent (e # es) nxt = Some (e_addr e)"
  by (simp_all add: first_ent_def)

lemma first_ent_append: "first_ent (xs @ ys) nxt = first_ent xs (first_ent ys nxt)"
  by (cases xs) simp_all

text \<open>A segment of a pnode queue: only its first node carries the hnode pointer.\<close>

fun pseg :: "(nat \<rightharpoonup> lbf_pnode) \<Rightarrow> nat option \<Rightarrow> ent list \<Rightarrow> nat option \<Rightarrow> bool" where
  "pseg H tag [] nxt \<longleftrightarrow> True"
| "pseg H tag (e # es) nxt \<longleftrightarrow>
     H (e_addr e) = Some (pnode_of (first_ent es nxt) tag e) \<and> pseg H None es nxt"

lemma pseg_append:
  "pseg H tag (xs @ ys) nxt \<longleftrightarrow>
     pseg H tag xs (first_ent ys nxt) \<and> pseg H (if xs = [] then tag else None) ys nxt"
  by (induction H tag xs nxt rule: pseg.induct) (auto simp: first_ent_append)

lemma pseg_frame [simp]: "a \<notin> e_addr ` set es \<Longrightarrow> pseg (H(a := x)) tag es nxt = pseg H tag es nxt"
  by (induction es arbitrary: tag) auto

lemma pseg_cong: "(\<And>e. e \<in> set es \<Longrightarrow> H' (e_addr e) = H (e_addr e)) \<Longrightarrow>
    pseg H' tag es nxt = pseg H tag es nxt"
  by (induction es arbitrary: tag) auto

definition first_bucket :: "bucket list \<Rightarrow> nat option \<Rightarrow> nat option" where
  "first_bucket bs nxt = (case bs of [] \<Rightarrow> nxt | b # _ \<Rightarrow> Some (b_addr b))"

lemma first_bucket_simps [simp]:
  "first_bucket [] nxt = nxt" "first_bucket (b # bs) nxt = Some (b_addr b)"
  by (simp_all add: first_bucket_def)

lemma first_bucket_append: "first_bucket (xs @ ys) nxt = first_bucket xs (first_bucket ys nxt)"
  by (cases xs) simp_all

definition hnode_of :: "nat option \<Rightarrow> bucket \<Rightarrow> lbf_hnode" where
  "hnode_of nxt b =
     \<lparr>next_hnode = nxt, queue = first_ent (b_ents b) None, prev_hnode = None,
      hnode_num = b_num b, range_start = b_start b, range_end = b_start b + LQB_RANGE - 1\<rparr>"

lemma hnode_of_simps [simp]:
  "next_hnode (hnode_of nxt b) = nxt" "queue (hnode_of nxt b) = first_ent (b_ents b) None"
  "prev_hnode (hnode_of nxt b) = None" "range_start (hnode_of nxt b) = b_start b"
  "range_end (hnode_of nxt b) = b_start b + 9"
  "next_hnode_update f (hnode_of nxt b) = hnode_of (f nxt) b"
  by (simp_all add: hnode_of_def)

fun hseg :: "(nat \<rightharpoonup> lbf_hnode) \<Rightarrow> bucket list \<Rightarrow> nat option \<Rightarrow> bool" where
  "hseg H [] nxt \<longleftrightarrow> True"
| "hseg H (b # bs) nxt \<longleftrightarrow>
     H (b_addr b) = Some (hnode_of (first_bucket bs nxt) b) \<and> hseg H bs nxt"

lemma hseg_append:
  "hseg H (xs @ ys) nxt \<longleftrightarrow> hseg H xs (first_bucket ys nxt) \<and> hseg H ys nxt"
  by (induction xs) (auto simp: first_bucket_append)

lemma hseg_frame [simp]: "a \<notin> b_addr ` set bs \<Longrightarrow> hseg (H(a := x)) bs nxt = hseg H bs nxt"
  by (induction bs) auto

definition all_ents :: "bucket list \<Rightarrow> ent list" where
  "all_ents Q = concat (map b_ents Q)"

lemma all_ents_simps [simp]:
  "all_ents [] = []" "all_ents (b # Q) = b_ents b @ all_ents Q"
  "all_ents (Q @ Q') = all_ents Q @ all_ents Q'"
  by (simp_all add: all_ents_def)

definition list_head_ok :: "lbf_hnode_head option \<Rightarrow> bucket list \<Rightarrow> bool" where
  "list_head_ok l Q \<longleftrightarrow>
     (case l of None \<Rightarrow> Q = []
      | Some l \<Rightarrow> list_head l = first_bucket Q None \<and> list_len l = word_of_nat (length Q))"

text \<open>The heap holds the nodes of the store \<open>Q\<close>, linked accordingly, and nothing else.\<close>

definition store_repr :: "'a lbf_sched_data_scheme \<Rightarrow> bucket list \<Rightarrow> bool" where
  "store_repr s Q \<longleftrightarrow>
     list_head_ok (hnode_list s) Q \<and> hseg (hheap s) Q None \<and>
     (\<forall>b \<in> set Q. pseg (pheap s) (Some (b_addr b)) (b_ents b) None) \<and>
     distinct (map b_addr Q) \<and> distinct (map e_addr (all_ents Q)) \<and>
     dom (hheap s) = b_addr ` set Q \<and> dom (pheap s) = e_addr ` set (all_ents Q) \<and>
     (\<forall>a \<in> dom (hheap s) \<union> dom (pheap s). a < brk s)"

lemma store_reprD:
  assumes "store_repr s Q"
  shows "list_head_ok (hnode_list s) Q" "hseg (hheap s) Q None"
    "\<And>b. b \<in> set Q \<Longrightarrow> pseg (pheap s) (Some (b_addr b)) (b_ents b) None"
    "distinct (map b_addr Q)" "distinct (map e_addr (all_ents Q))"
    "dom (hheap s) = b_addr ` set Q" "dom (pheap s) = e_addr ` set (all_ents Q)"
  using assms by (simp_all add: store_repr_def)

lemma store_repr_brk:
  assumes "store_repr s Q"
  shows "\<forall>a \<in> dom (hheap s). a < brk s" "\<forall>a \<in> dom (pheap s). a < brk s"
  using assms unfolding store_repr_def by (meson UnI1 UnI2)+

text \<open>What the abstract store satisfies: the entries of a bucket are ordered by earliest
  departure time and the buckets by the range they cover, which starts at a multiple of
  \<open>LQB_RANGE\<close>.\<close>

definition store_ok :: "bucket list \<Rightarrow> bool" where
  "store_ok Q \<longleftrightarrow>
     sorted (map b_start Q) \<and>
     (\<forall>b \<in> set Q. sorted (map e_tmin (b_ents b)) \<and> b_start b mod LQB_RANGE = 0)"

section \<open>Insertion into a queue\<close>

definition insert_ent :: "ent \<Rightarrow> ent list \<Rightarrow> ent list" where
  "insert_ent e es =
     takeWhile (\<lambda>x. e_tmin x \<le> e_tmin e) es @ e # dropWhile (\<lambda>x. e_tmin x \<le> e_tmin e) es"

lemma set_insert_ent [simp]: "set (insert_ent e es) = insert e (set es)"
  unfolding insert_ent_def by (metis Un_insert_right list.simps(15) set_append takeWhile_dropWhile_id)

lemma distinct_insert_ent:
  "distinct (map f (insert_ent e es)) \<longleftrightarrow> f e \<notin> f ` set es \<and> distinct (map f es)"
proof -
  have "distinct (map f (xs @ e # ys)) \<longleftrightarrow> f e \<notin> f ` set (xs @ ys) \<and> distinct (map f (xs @ ys))" for xs ys
    by auto
  then show ?thesis unfolding insert_ent_def by (metis takeWhile_dropWhile_id)
qed

lemma sorted_insert_ent:
  assumes "sorted (map e_tmin es)"
  shows "sorted (map e_tmin (insert_ent e es))"
proof -
  let ?P = "\<lambda>x. e_tmin x \<le> e_tmin e"
  have "sorted (map e_tmin (takeWhile ?P es @ dropWhile ?P es))" using assms by simp
  then have "sorted (map e_tmin (takeWhile ?P es))" "sorted (map e_tmin (dropWhile ?P es))"
    "\<forall>x \<in> set (takeWhile ?P es). \<forall>y \<in> set (dropWhile ?P es). e_tmin x \<le> e_tmin y"
    by (simp_all only: map_append sorted_append set_map) blast
  moreover have "e_tmin e \<le> e_tmin y" if "y \<in> set (dropWhile ?P es)" for y
    using that assms
  proof (induction es)
    case (Cons x es)
    then show ?case by (cases "?P x") (auto simp: not_le intro: less_imp_le order_trans)
  qed simp
  ultimately show ?thesis
    unfolding insert_ent_def by (auto simp: sorted_append dest: set_takeWhileD)
qed

lemma pnode_walk_eq:
  "pseg H tag es None \<Longrightarrow>
   pnode_walk H t (first_ent es None) prev =
     Some (Inr (case takeWhile (\<lambda>e. e_tmin e \<le> t) es of [] \<Rightarrow> prev | x # xs \<Rightarrow> e_addr (last (x # xs)),
                first_ent (dropWhile (\<lambda>e. e_tmin e \<le> t) es) None))"
proof (induction es arbitrary: tag prev)
  case Nil
  then show ?case by (subst pnode_walk.simps) simp
next
  case (Cons e es)
  then show ?case
    by (subst pnode_walk.simps) (auto simp: pnode_of_def not_le split: list.splits)
qed

text \<open>The parts of the qdisc's data that no operation of the store touches.\<close>

definition store_only :: "'a lbf_sched_data_scheme \<Rightarrow> 'a lbf_sched_data_scheme \<Rightarrow> bool" where
  "store_only s s' \<longleftrightarrow>
     s' = s\<lparr>pheap := pheap s', hheap := hheap s', brk := brk s', kc_plan := kc_plan s',
            hnode_list := hnode_list s'\<rparr>"

lemma store_only_fields:
  assumes "store_only s s'"
  shows "next_pnode s' = next_pnode s" "vars s' = vars s" "stats s' = stats s"
    "watchdog s' = watchdog s" "lbf_sched_data.more s' = lbf_sched_data.more s"
  using assms unfolding store_only_def by (metis lbf_sched_data.select_convs lbf_sched_data.surjective
      kernel_heap.update_convs lbf_sched_data.update_convs)+

lemma store_only_refl [simp, intro]: "store_only s s"
  by (simp add: store_only_def)

lemma store_only_trans: "store_only s s' \<Longrightarrow> store_only s' s'' \<Longrightarrow> store_only s s''"
  unfolding store_only_def
  by (cases s; cases s'; cases s'') simp

lemma store_repr_replace:
  assumes R: "store_repr s (A @ b # B)"
    and "hnode_list s' = hnode_list s"
    and hh: "hheap s' = (hheap s)(b_addr b \<mapsto> hnode_of (first_bucket B None) (b\<lparr>b_ents := es\<rparr>))"
    and pq: "pseg (pheap s') (Some (b_addr b)) es None"
    and fr: "\<And>x. x \<notin> e_addr ` set (b_ents b) \<union> e_addr ` set es \<Longrightarrow> pheap s' x = pheap s x"
    and dp: "dom (pheap s') = (dom (pheap s) - e_addr ` set (b_ents b)) \<union> e_addr ` set es"
    and ds: "distinct (map e_addr es)"
    and dj: "e_addr ` set es \<inter> (dom (pheap s) - e_addr ` set (b_ents b)) = {}"
    and br: "brk s \<le> brk s'" "\<forall>x \<in> e_addr ` set es. x < brk s'"
  shows "store_repr s' (A @ b\<lparr>b_ents := es\<rparr> # B)"
proof -
  let ?b = "b\<lparr>b_ents := es\<rparr>"
  have dist: "distinct (map b_addr (A @ b # B))"
    "distinct (map e_addr (all_ents A @ b_ents b @ all_ents B))"
    and dom_eq: "dom (pheap s) = e_addr ` set (all_ents A @ b_ents b @ all_ents B)"
    using store_reprD [OF R] by simp_all
  have other: "pseg (pheap s') (Some (b_addr c)) (b_ents c) None" if "c \<in> set A \<union> set B" for c
  proof -
    have "pseg (pheap s) (Some (b_addr c)) (b_ents c) None"
      using store_reprD(3) [OF R] that by auto
    moreover have "pheap s' (e_addr e) = pheap s (e_addr e)" if "e \<in> set (b_ents c)" for e
    proof (rule fr)
      have "e \<in> set (all_ents A) \<union> set (all_ents B)"
        using \<open>c \<in> set A \<union> set B\<close> that by (auto simp: all_ents_def)
      then have "e_addr e \<in> dom (pheap s) - e_addr ` set (b_ents b)"
        using dist(2) dom_eq by auto
      then show "e_addr e \<notin> e_addr ` set (b_ents b) \<union> e_addr ` set es" using dj by auto
    qed
    ultimately show ?thesis using pseg_cong [of "b_ents c" "pheap s'" "pheap s"] by blast
  qed
  have "hseg (hheap s') (A @ ?b # B) None"
    using store_reprD(2) [OF R] dist(1) by (auto simp: hseg_append hh)
  moreover have "e_addr ` set (all_ents A) \<union> e_addr ` set (all_ents B) \<subseteq>
      dom (pheap s) - e_addr ` set (b_ents b)"
    using dist(2) dom_eq by auto
  then have "(e_addr ` set (all_ents A) \<union> e_addr ` set (all_ents B)) \<inter> e_addr ` set es = {}"
    using dj by blast
  then have "distinct (map e_addr (all_ents A @ es @ all_ents B))"
    using dist(2) ds by auto
  moreover have "dom (pheap s') = e_addr ` set (all_ents A @ es @ all_ents B)"
    using dist(2) by (auto simp: dp dom_eq)
  moreover have dh: "dom (hheap s') = dom (hheap s)"
    using store_reprD(6) [OF R] by (auto simp: hh)
  then have "dom (hheap s') = b_addr ` set (A @ ?b # B)"
    using store_reprD(6) [OF R] by simp
  moreover have "\<forall>a \<in> dom (hheap s') \<union> dom (pheap s'). a < brk s'"
    unfolding dh dp using store_repr_brk [OF R] br by (meson DiffD1 UnE less_le_trans)
  moreover have "list_head_ok (hnode_list s') (A @ ?b # B)"
    using store_reprD(1) [OF R] assms(2) by (cases A) (auto simp: list_head_ok_def split: option.splits)
  ultimately show ?thesis
    using other pq dist(1) unfolding store_repr_def by auto
qed

lemma kcalloc_Some:
  "kcalloc s = (Some a, s1) \<Longrightarrow> a = brk s \<and> (\<exists>kp. s1 = s\<lparr>brk := Suc (brk s), kc_plan := kp\<rparr>)"
  by (cases s) (auto simp: kcalloc_def split: list.splits if_splits)

lemma kcalloc_Some_tl:
  "kcalloc s = (Some a, s1) \<Longrightarrow> s1 = s\<lparr>brk := Suc (brk s), kc_plan := tl (kc_plan s)\<rparr>"
  by (cases s) (auto simp: kcalloc_def split: list.splits if_splits)

lemma kcalloc_None: "kcalloc s = (None, s1) \<Longrightarrow> \<exists>kp. s1 = s\<lparr>kc_plan := kp\<rparr>"
  by (auto simp: kcalloc_def split: list.splits if_splits)

text \<open>The heap effect of \<open>pnode_queue_add\<close> on one queue: the new node \<open>a\<close> is linked in front of
  the first entry with a later earliest time.\<close>

lemma insert_ent_cases:
  obtains (empty) "es = []"
  | (front) c cs where "es = c # cs" "e_tmin e < e_tmin c" "insert_ent e es = e # c # cs"
  | (at_end) xs l where "es = xs @ [l]" "takeWhile (\<lambda>x. e_tmin x \<le> e_tmin e) es = xs @ [l]"
      "insert_ent e es = xs @ [l, e]"
  | (middle) xs l c cs where "es = xs @ l # c # cs"
      "takeWhile (\<lambda>x. e_tmin x \<le> e_tmin e) es = xs @ [l]"
      "dropWhile (\<lambda>x. e_tmin x \<le> e_tmin e) es = c # cs"
      "insert_ent e es = xs @ l # e # c # cs"
proof (cases "takeWhile (\<lambda>x. e_tmin x \<le> e_tmin e) es" rule: rev_cases)
  case Nil
  then show ?thesis using that(1,2) by (cases es) (auto simp: insert_ent_def split: if_splits)
next
  case (snoc xs l)
  have eq: "es = (xs @ [l]) @ dropWhile (\<lambda>x. e_tmin x \<le> e_tmin e) es"
    using takeWhile_dropWhile_id [of "\<lambda>x. e_tmin x \<le> e_tmin e" es] snoc by simp
  show ?thesis
  proof (cases "dropWhile (\<lambda>x. e_tmin x \<le> e_tmin e) es")
    case Nil
    with eq have "es = (xs @ [l]) @ []" by (simp only:)
    then have "es = xs @ [l]" by simp
    then show ?thesis using that(3) [of xs l] Nil snoc by (simp add: insert_ent_def)
  next
    case (Cons c cs)
    then show ?thesis using that(4) [of xs l c cs] eq snoc by (simp add: insert_ent_def)
  qed
qed

lemma pnode_queue_add_refines:
  assumes R: "store_repr s (A @ b # B)" and kc: "kcalloc s = (Some a, s1)"
    and e_def: "e = \<lparr>e_addr = a, e_tmin = tmin, e_tmax = tmax, e_trcv = rcv, e_pkt = Some pkt\<rparr>"
  shows "\<exists>s'. pnode_queue_add s (b_addr b) pkt tmin tmax rcv = Some (Inr s') \<and> store_only s s' \<and>
           store_repr s' (A @ b\<lparr>b_ents := insert_ent e (b_ents b)\<rparr> # B)"
proof -
  let ?es = "b_ents b" and ?h = "b_addr b" and ?H = "pheap s"
  obtain kp where a: "a = brk s" and s1: "s1 = s\<lparr>brk := Suc (brk s), kc_plan := kp\<rparr>"
    using kcalloc_Some [OF kc] by auto
  have sub: "e_addr ` set ?es \<subseteq> dom ?H"
    using store_reprD(7) [OF R] by auto
  have fresh: "a \<notin> dom ?H"
    using store_repr_brk(2) [OF R] by (auto simp: a)
  with sub have fresh': "a \<notin> e_addr ` set ?es" by blast
  note fresh = fresh fresh'
  have es_brk: "\<forall>x \<in> e_addr ` set ?es. x < brk s"
    using sub store_repr_brk(2) [OF R] by blast
  have hn: "hheap s ?h = Some (hnode_of (first_bucket B None) b)"
    and ps: "pseg ?H (Some ?h) ?es None"
    and ds: "distinct (map e_addr ?es)"
    using store_reprD(2,3,5) [OF R] by (simp_all add: hseg_append)
  have e [simp]: "e_addr e = a" "e_tmin e = tmin"
    and my: "\<And>nx tg. pnode_of nx tg e = \<lparr>p_next = nx, p_hnode = tg, tmin_nsec = tmin,
        tmax_nsec = tmax, trcv = rcv, realpkt = Some pkt\<rparr>"
    by (simp_all add: e_def pnode_of_def)
  have walk: "pnode_walk (?H(a \<mapsto> n)) tmin (first_ent ?es None) prev =
     Some (Inr (case takeWhile (\<lambda>e. e_tmin e \<le> tmin) ?es of [] \<Rightarrow> prev | x # xs \<Rightarrow> e_addr (last (x # xs)),
                first_ent (dropWhile (\<lambda>e. e_tmin e \<le> tmin) ?es) None))" for n prev
    using ps fresh by (intro pnode_walk_eq) simp
  let ?s' = "\<lambda>P HH. s\<lparr>brk := Suc (brk s), kc_plan := kp, pheap := P, hheap := HH\<rparr>"
  have finish: ?thesis
    if eq: "pnode_queue_add s ?h pkt tmin tmax rcv = Some (Inr (?s' P HH))"
      and HH: "HH = (hheap s)(?h \<mapsto> hnode_of (first_bucket B None) (b\<lparr>b_ents := insert_ent e ?es\<rparr>))"
      and P: "pseg P (Some ?h) (insert_ent e ?es) None"
      and fr: "\<And>x. x \<notin> insert a (e_addr ` set ?es) \<Longrightarrow> P x = ?H x"
      and dP: "dom P = insert a (dom ?H)" for P HH
  proof (intro exI conjI)
    show "store_only s (?s' P HH)" by (cases s) (simp add: store_only_def)
    show "store_repr (?s' P HH) (A @ b\<lparr>b_ents := insert_ent e ?es\<rparr> # B)"
    proof (rule store_repr_replace [OF R])
      show "dom (pheap (?s' P HH)) = dom ?H - e_addr ` set ?es \<union> e_addr ` set (insert_ent e ?es)"
        using sub fresh by (auto simp: dP)
      show "e_addr ` set (insert_ent e ?es) \<inter> (dom ?H - e_addr ` set ?es) = {}"
        using fresh by auto
      show "\<forall>x\<in>e_addr ` set (insert_ent e ?es). x < brk (?s' P HH)"
        using es_brk by (auto simp: a less_Suc_eq)
    qed (use fresh ds HH P fr in \<open>auto simp: distinct_insert_ent\<close>)
  qed (fact eq)
  have same_first: "(hheap s)(?h \<mapsto> hnode_of (first_bucket B None) (b\<lparr>b_ents := insert_ent e ?es\<rparr>)) = hheap s"
    if "first_ent (insert_ent e ?es) None = first_ent ?es None"
    using hn that by (auto simp: fun_upd_idem_iff hnode_of_def)
  show ?thesis
  proof (cases rule: insert_ent_cases [where es = ?es and e = e])
    case empty
    show ?thesis
    proof (rule finish)
      show "pnode_queue_add s ?h pkt tmin tmax rcv = Some (Inr (?s'
          (?H(a \<mapsto> pnode_of None (Some ?h) e))
          ((hheap s)(?h \<mapsto> hnode_of (first_bucket B None) (b\<lparr>b_ents := [e]\<rparr>)))))"
        unfolding pnode_queue_add_def kc using hn s1 empty by (simp add: hnode_of_def my)
    qed (use fresh in \<open>simp_all add: empty insert_ent_def\<close>)
  next
    case (front c cs)
    then have c: "\<not> e_tmin c \<le> tmin" "a \<noteq> e_addr c" "e_addr c \<noteq> a"
      "e_addr c \<notin> e_addr ` set cs" "a \<notin> e_addr ` set cs"
      using fresh ds by auto
    show ?thesis
    proof (rule finish)
      show "pnode_queue_add s ?h pkt tmin tmax rcv = Some (Inr (?s'
          (?H(e_addr c \<mapsto> pnode_of (first_ent cs None) None c,
              a \<mapsto> pnode_of (Some (e_addr c)) (Some ?h) e))
          ((hheap s)(?h \<mapsto> hnode_of (first_bucket B None) (b\<lparr>b_ents := insert_ent e ?es\<rparr>)))))"
        unfolding pnode_queue_add_def kc using hn s1 front ps walk [of _ "e_addr c"] c
        by (simp add: my [symmetric] fun_upd_twist [of a "e_addr c"]) (simp add: hnode_of_def)
    qed (use ps c front in \<open>auto\<close>)
  next
    case (at_end xs l)
    let ?tag = "if xs = [] then Some ?h else None"
    have l: "pseg ?H (Some ?h) xs (Some (e_addr l))" "?H (e_addr l) = Some (pnode_of None ?tag l)"
      using ps by (simp_all add: at_end pseg_append)
    have dist: "e_addr l \<notin> e_addr ` set xs" "a \<noteq> e_addr l" "e_addr l \<noteq> a" "a \<notin> e_addr ` set xs"
      using ds fresh by (auto simp: at_end)
    obtain q0 where q0: "first_ent ?es None = Some q0"
      by (cases ?es) (auto simp: at_end)
    have w: "pnode_walk (?H(a \<mapsto> n)) tmin (Some q0) q0 = Some (Inr (e_addr l, None))" for n
      using walk [of n q0] at_end unfolding q0 by (simp split: list.splits) (metis last_snoc last.simps)
    show ?thesis
    proof (rule finish)
      show "pnode_queue_add s ?h pkt tmin tmax rcv = Some (Inr (?s'
          (?H(e_addr l \<mapsto> pnode_of (Some a) ?tag l, a \<mapsto> pnode_of None None e)) (hheap s)))"
        unfolding pnode_queue_add_def kc using hn s1 l(2) dist w q0
        by (simp add: my [symmetric] fun_upd_twist [of a "e_addr l"])
      show "hheap s = (hheap s)(?h \<mapsto> hnode_of (first_bucket B None) (b\<lparr>b_ents := insert_ent e ?es\<rparr>))"
        by (rule same_first [symmetric], unfold at_end(3)) (simp add: at_end(1) first_ent_append)
    qed (use l dist at_end in \<open>auto simp: pseg_append\<close>)
  next
    case (middle xs l c cs)
    let ?tag = "if xs = [] then Some ?h else None"
    have l: "pseg ?H (Some ?h) xs (Some (e_addr l))"
      "?H (e_addr l) = Some (pnode_of (Some (e_addr c)) ?tag l)" "pseg ?H None (c # cs) None"
      using ps by (simp_all add: middle pseg_append)
    have dist: "e_addr l \<notin> e_addr ` set xs" "a \<noteq> e_addr l" "e_addr l \<noteq> a" "a \<notin> e_addr ` set xs"
      "a \<noteq> e_addr c" "e_addr c \<noteq> a" "e_addr l \<noteq> e_addr c" "e_addr c \<noteq> e_addr l"
      "e_addr l \<notin> e_addr ` set cs" "a \<notin> e_addr ` set cs"
      using ds fresh by (auto simp: middle)
    obtain q0 where q0: "first_ent ?es None = Some q0"
      by (cases ?es) (auto simp: middle)
    have w: "pnode_walk (?H(a \<mapsto> n)) tmin (Some q0) q0 = Some (Inr (e_addr l, Some (e_addr c)))" for n
      using walk [of n q0] middle unfolding q0 by (simp split: list.splits) (metis last_snoc last.simps)
    show ?thesis
    proof (rule finish)
      show "pnode_queue_add s ?h pkt tmin tmax rcv = Some (Inr (?s'
          (?H(e_addr l \<mapsto> pnode_of (Some a) ?tag l, a \<mapsto> pnode_of (Some (e_addr c)) None e)) (hheap s)))"
        unfolding pnode_queue_add_def kc using hn s1 l(2) dist w q0
        by (simp add: my [symmetric] fun_upd_twist [of a "e_addr l"])
      show "hheap s = (hheap s)(?h \<mapsto> hnode_of (first_bucket B None) (b\<lparr>b_ents := insert_ent e ?es\<rparr>))"
        by (rule same_first [symmetric], unfold middle(4)) (simp add: middle(1) first_ent_append)
    qed (use l dist middle in \<open>auto simp: pseg_append\<close>)
  qed
qed

section \<open>The queue after an insertion\<close>

lemma insert_ent_filter:
  assumes "sorted (map e_tmin es)"
  shows "insert_ent e es = filter (\<lambda>x. e_tmin x \<le> e_tmin e) es @ e # filter (\<lambda>x. e_tmin e < e_tmin x) es"
  using assms
proof (induction es)
  case (Cons x es)
  show ?case
  proof (cases "e_tmin x \<le> e_tmin e")
    case True
    with Cons show ?thesis by (simp add: insert_ent_def leD)
  next
    case False
    then have "e_tmin e < e_tmin y" if "y \<in> set es" for y
      using Cons.prems that by (auto simp: not_le intro: less_le_trans)
    then have "filter (\<lambda>x. e_tmin x \<le> e_tmin e) es = []" "filter (\<lambda>x. e_tmin e < e_tmin x) es = es"
      by (meson filter_False leD, meson filter_True)
    with False show ?thesis by (auto simp: insert_ent_def)
  qed
qed (simp add: insert_ent_def)

text \<open>C9. Insertion into a queue. When the allocation succeeds, \<open>pnode_queue_add\<close> links a new
  pnode behind every pnode of the queue with the same or an earlier departure time and in front
  of the later ones; the queue stays sorted, the other queues are untouched, and only the
  first pnode of the queue points back to its hnode.\<close>

theorem queue_add_ordered:
  assumes R: "store_repr s (A @ b # B)" and ok: "sorted (map e_tmin (b_ents b))" and kc: "kc_plan s = []"
  shows "\<exists>s' e es. pnode_queue_add s (b_addr b) pkt tmin tmax rcv = Some (Inr s') \<and>
           e = \<lparr>e_addr = brk s, e_tmin = tmin, e_tmax = tmax, e_trcv = rcv, e_pkt = Some pkt\<rparr> \<and>
           es = filter (\<lambda>x. e_tmin x \<le> tmin) (b_ents b) @ e # filter (\<lambda>x. tmin < e_tmin x) (b_ents b) \<and>
           sorted (map e_tmin es) \<and> store_repr s' (A @ b\<lparr>b_ents := es\<rparr> # B)"
proof -
  let ?e = "\<lparr>e_addr = brk s, e_tmin = tmin, e_tmax = tmax, e_trcv = rcv, e_pkt = Some pkt\<rparr>"
  have "kcalloc s = (Some (brk s), s\<lparr>brk := Suc (brk s)\<rparr>)" using kc by (simp add: kcalloc_def)
  from pnode_queue_add_refines [OF R this, of ?e tmin tmax rcv pkt] obtain s' where
    "pnode_queue_add s (b_addr b) pkt tmin tmax rcv = Some (Inr s')"
    "store_repr s' (A @ b\<lparr>b_ents := insert_ent ?e (b_ents b)\<rparr> # B)"
    by auto
  then show ?thesis
    using insert_ent_filter [OF ok, of ?e] sorted_insert_ent [OF ok, of ?e] by auto
qed

text \<open>A store with one hnode and two pnodes.\<close>

definition sample_ents :: "ent list" where
  "sample_ents = [\<lparr>e_addr = 3, e_tmin = 100, e_tmax = 900, e_trcv = 0, e_pkt = Some 7\<rparr>,
                  \<lparr>e_addr = 4, e_tmin = 300, e_tmax = 900, e_trcv = 0, e_pkt = Some 8\<rparr>]"

definition sample_bucket :: bucket where
  "sample_bucket = \<lparr>b_addr = 2, b_num = 0, b_start = 150, b_ents = sample_ents\<rparr>"

definition sample_store :: lbf_sched_data where
  "sample_store =
     \<lparr>pheap = [3 \<mapsto> pnode_of (Some 4) (Some 2) (sample_ents ! 0), 4 \<mapsto> pnode_of None None (sample_ents ! 1)],
      hheap = [2 \<mapsto> hnode_of None sample_bucket], brk = 5, kc_plan = [],
      hnode_list = Some \<lparr>list_head = Some 2, list_tail = None, list_len = 1\<rparr>,
      next_pnode = None, vars = \<lparr>hops_left = 1\<rparr>, stats = \<lparr>stats_delay = 0, stats_overlimit = 0\<rparr>,
      watchdog = None\<rparr>"

lemma sample_store_repr: "store_repr sample_store [sample_bucket]"
  by (auto simp: store_repr_def sample_store_def sample_bucket_def sample_ents_def list_head_ok_def)

lemma sample_store_ok: "store_ok [sample_bucket]"
  by (simp add: store_ok_def sample_bucket_def sample_ents_def)

theorem queue_add_ordered_witness:
  "\<exists>s' es. pnode_queue_add sample_store 2 9 200 500 0 = Some (Inr s') \<and> map e_addr es = [3, 5, 4] \<and>
     store_repr s' [sample_bucket\<lparr>b_ents := es\<rparr>]"
proof -
  have "sorted (map e_tmin (b_ents sample_bucket))" "kc_plan sample_store = []" "b_addr sample_bucket = 2"
    using sample_store_ok by (simp_all add: store_ok_def sample_store_def sample_bucket_def)
  then obtain s' e es where r: "pnode_queue_add sample_store 2 9 200 500 0 = Some (Inr s')"
    "e = \<lparr>e_addr = brk sample_store, e_tmin = 200, e_tmax = 500, e_trcv = 0, e_pkt = Some 9\<rparr>"
    "es = filter (\<lambda>x. e_tmin x \<le> 200) (b_ents sample_bucket) @ e #
          filter (\<lambda>x. 200 < e_tmin x) (b_ents sample_bucket)"
    "store_repr s' [sample_bucket\<lparr>b_ents := es\<rparr>]"
    using queue_add_ordered [of sample_store "[]" sample_bucket "[]" 9 200 500 0] sample_store_repr by auto
  from r(2,3) have "map e_addr es = [3, 5, 4]"
    by (simp add: sample_store_def sample_bucket_def sample_ents_def)
  with r(1,4) show ?thesis by (intro exI conjI)
qed

end
