(* ===== verification/Lbf_Buckets.thy ===== *)
theory Lbf_Buckets
  imports Lbf_Store
begin

text \<open>
  \<open>lbf_get_hnode\<close> on the abstract store: which bucket serves a local queueing budget, where a
  new one is linked in, and what the allocation failures lead to.
\<close>

declare dropWhile_eq_Nil_conv [simp del]

text \<open>The walk passes every bucket whose range ends at or below the budget. The comparison with
  \<open>range_end\<close> is strict although \<open>range_end\<close> is the last budget of the range.\<close>

definition passed :: "int \<Rightarrow> bucket \<Rightarrow> bool" where
  "passed lq b \<longleftrightarrow> b_start b + (LQB_RANGE - 1) \<le> lq"

definition new_bucket :: "nat \<Rightarrow> int \<Rightarrow> bucket list \<Rightarrow> bucket" where
  "new_bucket a lq Q =
     \<lparr>b_addr = a, b_num = word_of_nat (length Q), b_start = lq - lq mod LQB_RANGE, b_ents = []\<rparr>"

lemma new_bucket_simps [simp]:
  "b_addr (new_bucket a lq Q) = a" "b_ents (new_bucket a lq Q) = []"
  "b_start (new_bucket a lq Q) = lq - lq mod LQB_RANGE"
  by (simp_all add: new_bucket_def)

definition get_bucket :: "nat \<Rightarrow> int \<Rightarrow> bucket list \<Rightarrow> bucket list \<times> bucket \<times> bucket list" where
  "get_bucket a lq Q =
     (case dropWhile (passed lq) Q of
        [] \<Rightarrow> (takeWhile (passed lq) Q, new_bucket a lq Q, [])
      | c # R \<Rightarrow>
          if b_start c \<le> lq then (takeWhile (passed lq) Q, c, R)
          else (takeWhile (passed lq) Q, new_bucket a lq Q, c # R))"

definition last_addr :: "bucket list \<Rightarrow> nat \<Rightarrow> nat" where
  "last_addr P prev = (if P = [] then prev else b_addr (last P))"

lemma last_addr_simps [simp]:
  "last_addr [] prev = prev" "last_addr (P @ [l]) prev = b_addr l"
  "last_addr (b # P) prev = last_addr P (b_addr b)"
  by (simp_all add: last_addr_def)

definition stop_of :: "int \<Rightarrow> nat \<Rightarrow> bucket list \<Rightarrow> hnode_stop" where
  "stop_of lq prev Q =
     (case dropWhile (passed lq) Q of
        [] \<Rightarrow> StopAppend (last_addr (takeWhile (passed lq) Q) prev)
      | c # R \<Rightarrow>
          if b_start c \<le> lq then StopFound (b_addr c)
          else StopInsert (last_addr (takeWhile (passed lq) Q) prev) (b_addr c))"

lemma stop_of_Nil:
  "dropWhile (passed lq) Q = [] \<Longrightarrow>
   stop_of lq prev Q = StopAppend (last_addr (takeWhile (passed lq) Q) prev)"
  by (simp only: stop_of_def list.case)

lemma stop_of_Cons:
  "dropWhile (passed lq) Q = c # R \<Longrightarrow>
   stop_of lq prev Q = (if b_start c \<le> lq then StopFound (b_addr c)
                        else StopInsert (last_addr (takeWhile (passed lq) Q) prev) (b_addr c))"
  by (simp only: stop_of_def list.case)

lemma get_bucket_Nil:
  "dropWhile (passed lq) Q = [] \<Longrightarrow>
   get_bucket a lq Q = (takeWhile (passed lq) Q, new_bucket a lq Q, [])"
  by (simp only: get_bucket_def list.case)

lemma get_bucket_Cons:
  "dropWhile (passed lq) Q = c # R \<Longrightarrow>
   get_bucket a lq Q =
     (if b_start c \<le> lq then (takeWhile (passed lq) Q, c, R)
      else (takeWhile (passed lq) Q, new_bucket a lq Q, c # R))"
  by (simp only: get_bucket_def list.case)

lemma hnode_walk_eq:
  "hseg H Q None \<Longrightarrow>
   hnode_walk H lq (first_bucket Q None) prev = Some (Inr (stop_of lq prev Q))"
proof (induction Q arbitrary: prev)
  case Nil
  then show ?case by (subst hnode_walk.simps) (simp add: stop_of_def)
next
  case (Cons b Q)
  show ?case
  proof (cases "passed lq b")
    case True
    then have "stop_of lq prev (b # Q) = stop_of lq (b_addr b) Q"
      by (simp only: stop_of_def takeWhile.simps dropWhile.simps if_True last_addr_simps)
    with True Cons show ?thesis
      by (subst hnode_walk.simps) (simp add: passed_def)
  next
    case False
    with Cons.prems show ?thesis
      by (subst hnode_walk.simps) (auto simp: stop_of_def passed_def)
  qed
qed

lemma store_repr_add_bucket:
  assumes R: "store_repr s (P @ R)" and new: "b_ents nb = []" "b_addr nb \<notin> dom (hheap s)"
    and hs: "hseg (hheap s') (P @ nb # R) None"
    and dh: "dom (hheap s') = insert (b_addr nb) (dom (hheap s))"
    and ph: "pheap s' = pheap s" and br: "brk s \<le> brk s'" "b_addr nb < brk s'"
    and hd: "list_head_ok (hnode_list s') (P @ nb # R)"
  shows "store_repr s' (P @ nb # R)"
proof -
  have "\<forall>a \<in> dom (hheap s') \<union> dom (pheap s'). a < brk s'"
    using store_repr_brk [OF R] br unfolding dh ph by (metis UnE insertE less_le_trans)
  moreover have "dom (hheap s') = b_addr ` set (P @ nb # R)"
    using store_reprD(6) [OF R] by (simp add: dh)
  moreover have "distinct (map b_addr (P @ nb # R))"
    using store_reprD(4,6) [OF R] new(2) by auto
  ultimately show ?thesis
    using R hs hd new(1) unfolding store_repr_def by (auto simp: ph)
qed

lemma create_hnode_cases:
  obtains (fail) s1 kp where "create_hnode lq num s = (None, s1)" "s1 = s\<lparr>kc_plan := kp\<rparr>" "kc_plan s \<noteq> []"
  | (ok) s1 kp nb where "create_hnode lq num s = (Some (brk s), s1)"
      "nb = \<lparr>b_addr = brk s, b_num = num, b_start = lq - lq mod LQB_RANGE, b_ents = []\<rparr>"
      "s1 = s\<lparr>brk := Suc (brk s), kc_plan := kp, hheap := (hheap s)(brk s \<mapsto> hnode_of None nb)\<rparr>"
proof (cases "kcalloc s")
  case (Pair p s1)
  show ?thesis
  proof (cases p)
    case None
    show ?thesis
    proof (rule that(1))
      show "create_hnode lq num s = (None, s1)" using Pair None by (simp add: create_hnode_def)
      show "s1 = s\<lparr>kc_plan := tl (kc_plan s)\<rparr>" "kc_plan s \<noteq> []"
        using Pair None by (auto simp: kcalloc_def split: list.splits if_splits)
    qed
  next
    case (Some a)
    with Pair have kc: "kcalloc s = (Some a, s1)" by simp
    from kcalloc_Some [OF kc] obtain kp where kp: "a = brk s" "s1 = s\<lparr>brk := Suc (brk s), kc_plan := kp\<rparr>"
      by blast
    show ?thesis
    proof (rule that(2))
      show "create_hnode lq num s = (Some (brk s),
          s\<lparr>brk := Suc (brk s), kc_plan := kp, hheap := (hheap s)(brk s \<mapsto> hnode_of None
            \<lparr>b_addr = brk s, b_num = num, b_start = lq - lq mod LQB_RANGE, b_ents = []\<rparr>)\<rparr>)"
        by (simp add: create_hnode_def kc kp hnode_of_def Let_def)
    qed simp_all
  qed
qed

text \<open>The lookup in an existing list.\<close>

lemma hnode_in_list_refines:
  assumes R: "store_repr s Q" and l: "hnode_list s = Some l"
  obtains (fail) s' where "hnode_in_list l s lq = Some (Inr (None, s'))" "store_repr s' Q"
      "store_only s s'" "kc_plan s \<noteq> []"
  | (ok) s' P b B where "hnode_in_list l s lq = Some (Inr (Some (b_addr b), s'))"
      "get_bucket (brk s) lq Q = (P, b, B)" "store_repr s' (P @ b # B)" "store_only s s'"
proof -
  note result_fail = fail and result_ok = ok
  let ?P = "takeWhile (passed lq) Q" and ?D = "dropWhile (passed lq) Q"
  let ?nb = "new_bucket (brk s) lq Q"
  have PD: "?P @ ?D = Q" by simp
  have len: "list_len l = word_of_nat (length Q)" and hd: "list_head l = first_bucket Q None"
    using store_reprD(1) [OF R] by (simp_all add: list_head_ok_def l)
  have hs: "hseg (hheap s) ?P (first_bucket ?D None)" "hseg (hheap s) ?D None"
    using store_reprD(2) [OF R] hseg_append [of "hheap s" ?P ?D None] by simp_all
  have fresh: "brk s \<notin> dom (hheap s)" "brk s \<notin> b_addr ` set Q"
    using store_repr_brk(1) [OF R] store_reprD(6) [OF R] by auto
  have created: thesis
    if eq: "hnode_in_list l s lq = Some (Inr (Some (brk s),
        s\<lparr>brk := Suc (brk s), kc_plan := kp, hheap := HH, hnode_list := Some l'\<rparr>))"
      and gb: "get_bucket (brk s) lq Q = (?P, ?nb, ?D)"
      and HH: "hseg HH (?P @ ?nb # ?D) None" "dom HH = insert (brk s) (dom (hheap s))"
      and l': "list_head_ok (Some l') (?P @ ?nb # ?D)" for kp HH l'
  proof (rule result_ok)
    let ?s' = "s\<lparr>brk := Suc (brk s), kc_plan := kp, hheap := HH, hnode_list := Some l'\<rparr>"
    show "hnode_in_list l s lq = Some (Inr (Some (b_addr ?nb), ?s'))"
      using eq by (simp add: new_bucket_def)
    show "store_only s ?s'" by (cases s) (simp add: store_only_def)
    show "store_repr ?s' (?P @ ?nb # ?D)"
      using R fresh HH l' by (intro store_repr_add_bucket [where s = s]) (simp_all add: new_bucket_def)
  qed (fact gb)
  have dist: "distinct (map b_addr (?P @ ?D))"
    using store_reprD(4) [OF R] by (simp only: PD)
  have freshP: "brk s \<notin> b_addr ` set ?P" "brk s \<notin> b_addr ` set ?D"
    using fresh(2) by (auto dest: set_takeWhileD set_dropWhileD)
  have walk: "hnode_walk (hheap s) lq (Some h0) h0 = Some (Inr (stop_of lq h0 Q))"
    if "first_bucket Q None = Some h0" for h0
    using hnode_walk_eq [OF store_reprD(2) [OF R], of lq h0] that by simp
  have head: "list_head_ok (Some (list_len_inc l)) (?P @ ?nb # ?D)" if "?P \<noteq> []"
  proof -
    have "length ?P + length ?D = length Q" by (metis PD length_append)
    then have n: "length (?P @ ?nb # ?D) = Suc (length Q)" by simp
    have "first_bucket (?P @ ?D) None = first_bucket (?P @ ?nb # ?D) None"
      using that by (cases ?P) simp_all
    then have "first_bucket Q None = first_bucket (?P @ ?nb # ?D) None" by (simp only: PD)
    then show ?thesis
      unfolding list_head_ok_def n by (simp add: list_len_inc_def hd len)
  qed
  have head0: "list_head_ok (Some ((list_len_inc l)\<lparr>list_head := Some (brk s)\<rparr>)) (?P @ ?nb # ?D)"
    if "?P = []"
    using that len PD by (simp add: list_head_ok_def list_len_inc_def new_bucket_def)
  show thesis
  proof (cases "\<exists>c C. ?D = c # C \<and> b_start c \<le> lq")
    case True
    then obtain c C where found: "?D = c # C" "b_start c \<le> lq" by blast
    have "first_bucket Q None \<noteq> None" using found(1) by (cases Q) auto
    then obtain h0 where h0: "first_bucket Q None = Some h0" by blast
    show thesis
    proof (rule result_ok)
      show "hnode_in_list l s lq = Some (Inr (Some (b_addr c), s))"
        using h0 walk [OF h0] found by (simp add: hnode_in_list_def hd stop_of_def)
      show "get_bucket (brk s) lq Q = (?P, c, C)" using found by (simp add: get_bucket_def)
      show "store_repr s (?P @ c # C)" using R PD found(1) by metis
    qed simp
  next
    case False
    have gb: "get_bucket (brk s) lq Q = (?P, ?nb, ?D)"
    proof (cases ?D)
      case Nil
      then show ?thesis by (simp only: get_bucket_Nil)
    next
      case (Cons c C)
      with False have "\<not> b_start c \<le> lq" by blast
      with Cons show ?thesis by (simp only: get_bucket_Cons if_False)
    qed
    show thesis
    proof (cases rule: create_hnode_cases [where s = s and lq = lq and num = "list_len l"])
      case (fail s1 kp)
      show thesis
      proof (rule result_fail)
        show "hnode_in_list l s lq = Some (Inr (None, s1))"
        proof (cases "first_bucket Q None")
          case None
          then show ?thesis by (simp add: hnode_in_list_def hd fail(1))
        next
          case (Some h0)
          have stop: "stop_of lq h0 Q \<noteq> StopFound c" for c
            using False by (cases ?D) (auto simp: stop_of_Nil stop_of_Cons)
          show ?thesis
            using walk [OF Some]
            by (cases "stop_of lq h0 Q") (simp_all add: stop hnode_in_list_def hd Some fail(1))
        qed
        show "store_repr s1 Q" using R by (simp add: fail(2) store_repr_def)
        show "store_only s s1" by (cases s) (simp add: fail(2) store_only_def)
      qed (fact fail(3))
    next
      case (ok s1 kp nb)
      have nb: "nb = ?nb" by (simp add: ok(2) new_bucket_def len)
      let ?H1 = "(hheap s)(brk s \<mapsto> hnode_of None ?nb)"
      consider (empty) "Q = []" | (at_end) P' p where "?P = P' @ [p]" "?D = []"
        | (front) c C where "?P = []" "?D = c # C" "\<not> b_start c \<le> lq"
        | (middle) P' p c C where "?P = P' @ [p]" "?D = c # C" "\<not> b_start c \<le> lq"
        using False by (metis PD append_Nil list.exhaust rev_exhaust)
      then show thesis
      proof cases
        case empty
        show thesis
        proof (rule created [OF _ gb])
          show "hnode_in_list l s lq = Some (Inr (Some (brk s), s\<lparr>brk := Suc (brk s), kc_plan := kp,
              hheap := ?H1, hnode_list := Some ((list_len_inc l)\<lparr>list_head := Some (brk s)\<rparr>)\<rparr>))"
            by (simp add: hnode_in_list_def hd empty ok(1,3) nb)
        qed (use head0 empty in simp_all)
      next
        case at_end
        have "first_bucket Q None \<noteq> None" using at_end(1) by (cases Q) auto
        then obtain h0 where h0: "first_bucket Q None = Some h0" by blast
        have p: "hheap s (b_addr p) = Some (hnode_of None p)" "b_addr p \<noteq> brk s"
            "hseg (hheap s) P' (Some (b_addr p))" "b_addr p \<notin> b_addr ` set P'" "brk s \<notin> b_addr ` set P'"
          using hs dist freshP by (auto simp: at_end hseg_append)
        let ?HH = "?H1(b_addr p \<mapsto> hnode_of (Some (brk s)) p)"
        show thesis
        proof (rule created [OF _ gb])
          show "hnode_in_list l s lq = Some (Inr (Some (brk s), s\<lparr>brk := Suc (brk s), kc_plan := kp,
              hheap := ?HH, hnode_list := Some (list_len_inc l)\<rparr>))"
            using p(1,2) by (simp add: hnode_in_list_def hd h0 walk stop_of_def at_end ok(1,3) nb)
          show "list_head_ok (Some (list_len_inc l)) (?P @ ?nb # ?D)" using at_end by (intro head) simp
          show "hseg ?HH (?P @ ?nb # ?D) None" using p at_end by (simp add: hseg_append)
          show "dom ?HH = insert (brk s) (dom (hheap s))" using p(1) by auto
        qed
      next
        case front
        then have Q: "Q = c # C" using PD by simp
        have c: "hheap s (b_addr c) = Some (hnode_of (first_bucket C None) c)" "hseg (hheap s) (c # C) None"
          using hs front by simp_all
        let ?HH = "(hheap s)(brk s \<mapsto> hnode_of (Some (b_addr c)) ?nb)"
        show thesis
        proof (rule created [OF _ gb])
          show "hnode_in_list l s lq = Some (Inr (Some (brk s), s\<lparr>brk := Suc (brk s), kc_plan := kp,
              hheap := ?HH, hnode_list := Some ((list_len_inc l)\<lparr>list_head := Some (brk s)\<rparr>)\<rparr>))"
            using walk [of "b_addr c"] front
            by (simp add: hnode_in_list_def hd Q stop_of_def ok(1,3) nb)
          show "hseg ?HH (?P @ ?nb # ?D) None" using c freshP front by simp
        qed (use head0 front in auto)
      next
        case middle
        have "first_bucket Q None \<noteq> None" using middle(1) by (cases Q) auto
        then obtain h0 where h0: "first_bucket Q None = Some h0" by blast
        have p: "hheap s (b_addr p) = Some (hnode_of (Some (b_addr c)) p)" "b_addr p \<noteq> brk s"
            "hseg (hheap s) P' (Some (b_addr p))" "b_addr p \<notin> b_addr ` set P'" "brk s \<notin> b_addr ` set P'"
            "b_addr c \<noteq> b_addr p" "hseg (hheap s) (c # C) None" "b_addr p \<notin> b_addr ` set (c # C)"
          using hs dist freshP by (auto simp: middle hseg_append)
        let ?HH = "(hheap s)(brk s \<mapsto> hnode_of (Some (b_addr c)) ?nb, b_addr p \<mapsto> hnode_of (Some (brk s)) p)"
        show thesis
        proof (rule created [OF _ gb])
          show "hnode_in_list l s lq = Some (Inr (Some (brk s), s\<lparr>brk := Suc (brk s), kc_plan := kp,
              hheap := ?HH, hnode_list := Some (list_len_inc l)\<rparr>))"
            using p(1,2,6) by (simp add: hnode_in_list_def hd h0 walk stop_of_def middle ok(1,3) nb)
          show "list_head_ok (Some (list_len_inc l)) (?P @ ?nb # ?D)" using middle by (intro head) simp
          show "hseg ?HH (?P @ ?nb # ?D) None" using p freshP middle by (simp add: hseg_append)
          show "dom ?HH = insert (brk s) (dom (hheap s))" using p(1) by auto
        qed
      qed
    qed
  qed
qed

lemma lbf_get_hnode_refines:
  assumes R: "store_repr s Q"
  obtains (null) "hnode_list s = None" "kc_plan s \<noteq> [] \<and> \<not> hd (kc_plan s)"
      "lbf_get_hnode s lq = Some (Inl NullDeref)"
  | (fail) s' where "lbf_get_hnode s lq = Some (Inr (None, s'))" "store_repr s' Q"
      "store_only s s'" "kc_plan s \<noteq> []"
  | (ok) s' a P b B where "lbf_get_hnode s lq = Some (Inr (Some (b_addr b), s'))"
      "get_bucket a lq Q = (P, b, B)" "store_repr s' (P @ b # B)" "store_only s s'" "brk s \<le> a"
proof (cases "hnode_list s")
  case (Some l)
  then have "lbf_get_hnode s lq = hnode_in_list l s lq" by (simp add: lbf_get_hnode_def)
  then show thesis
    by (cases rule: hnode_in_list_refines [OF R Some, of lq]) (auto intro: that(2,3))
next
  case None
  then have Q: "Q = []" using store_reprD(1) [OF R] by (simp add: list_head_ok_def)
  show thesis
  proof (cases "kcalloc s")
    case (Pair p s1)
    show thesis
    proof (cases p)
      case None
      with Pair \<open>hnode_list s = None\<close> show thesis
        by (intro that(1)) (auto simp: lbf_get_hnode_def kcalloc_def split: list.splits if_splits)
    next
      case (Some x)
      let ?l = "\<lparr>list_head = None, list_tail = None, list_len = 0\<rparr>"
      let ?s2 = "s1\<lparr>hnode_list := Some ?l\<rparr>"
      from Pair Some have kc: "kcalloc s = (Some x, s1)" by simp
      then have s1: "s1 = s\<lparr>brk := Suc (brk s), kc_plan := tl (kc_plan s)\<rparr>" by (rule kcalloc_Some_tl)
      have eq: "lbf_get_hnode s lq = hnode_in_list ?l ?s2 lq"
        using None by (simp add: lbf_get_hnode_def kc Let_def)
      have R2: "store_repr ?s2 Q"
        using R by (simp add: store_repr_def Q s1 list_head_ok_def)
      have so: "store_only s ?s2" by (cases s) (simp add: store_only_def s1)
      have l: "hnode_list ?s2 = Some ?l" and br: "brk s \<le> brk ?s2" by (simp_all add: s1)
      show thesis
      proof (rule hnode_in_list_refines [OF R2 l, of lq])
        fix s' assume "hnode_in_list ?l ?s2 lq = Some (Inr (None, s'))" "store_repr s' Q"
          "store_only ?s2 s'" "kc_plan ?s2 \<noteq> []"
        then show thesis
          using eq s1 store_only_trans [OF so] by (intro that(2)) auto
      next
        fix s' P b B assume "hnode_in_list ?l ?s2 lq = Some (Inr (Some (b_addr b), s'))"
          "get_bucket (brk ?s2) lq Q = (P, b, B)" "store_repr s' (P @ b # B)" "store_only ?s2 s'"
        then show thesis
          using eq br store_only_trans [OF so] by (intro that(3)) auto
      qed
    qed
  qed
qed

section \<open>The invariant of the store\<close>

lemma get_bucket_cases:
  assumes "get_bucket a lq Q = (P, b, B)"
  shows "(P @ b # B = Q \<and> b_start b \<le> lq \<and> lq < b_start b + (LQB_RANGE - 1)) \<or>
         (P @ B = Q \<and> b = new_bucket a lq Q \<and> (\<forall>c \<in> set P. b_start c + (LQB_RANGE - 1) \<le> lq) \<and>
          (B \<noteq> [] \<longrightarrow> lq < b_start (hd B)))"
proof (cases "dropWhile (passed lq) Q")
  case Nil
  then have "takeWhile (passed lq) Q = Q" by (metis append_Nil2 takeWhile_dropWhile_id)
  with Nil assms show ?thesis
    by (auto simp: get_bucket_Nil passed_def)
next
  case (Cons c C)
  have "\<not> passed lq c" using Cons by (metis hd_dropWhile list.distinct(1) list.sel(1))
  moreover have "takeWhile (passed lq) Q @ c # C = Q" by (metis Cons takeWhile_dropWhile_id)
  moreover have "\<forall>x \<in> set (takeWhile (passed lq) Q). passed lq x" by (meson set_takeWhileD)
  ultimately show ?thesis
    using assms unfolding get_bucket_Cons [OF Cons] by (auto simp: passed_def split: if_splits)
qed

lemma get_bucket_store_ok:
  assumes "get_bucket a lq Q = (P, b, B)" and "store_ok Q"
  shows "store_ok (P @ b # B)"
  using get_bucket_cases [OF assms(1)]
proof (elim disjE conjE)
  assume new: "P @ B = Q" "b = new_bucket a lq Q" "\<forall>c \<in> set P. b_start c + (LQB_RANGE - 1) \<le> lq"
    "B \<noteq> [] \<longrightarrow> lq < b_start (hd B)"
  have sorted: "sorted (map b_start P)" "sorted (map b_start B)"
    "\<forall>x \<in> set P. \<forall>y \<in> set B. b_start x \<le> b_start y"
    using assms(2) new(1) by (auto simp: store_ok_def sorted_append)
  have start: "b_start b = lq - lq mod 10" by (simp add: new(2) new_bucket_def)
  have "b_start x \<le> b_start b" if "x \<in> set P" for x
    using new(3) that pos_mod_bound [of 10 lq] by (fastforce simp: start)
  moreover have "b_start b \<le> b_start y" if "y \<in> set B" for y
  proof -
    have "lq < b_start y" using new(4) sorted(2) that by (cases B) auto
    then show ?thesis using pos_mod_sign [of 10 lq] by (simp add: start)
  qed
  ultimately have "sorted (map b_start (P @ b # B))"
    using sorted by (auto simp: sorted_append)
  moreover have "b_start b mod 10 = 0" by (simp add: start minus_mod_eq_div_mult)
  moreover have "b_ents b = []" by (simp add: new(2) new_bucket_def)
  ultimately show ?thesis
    using assms(2) new(1) by (auto simp: store_ok_def)
qed (use assms(2) in simp)

lemma get_bucket_range:
  assumes "get_bucket a lq Q = (P, b, B)"
  shows "b_start b \<le> lq \<and> lq < b_start b + LQB_RANGE"
  using get_bucket_cases [OF assms] pos_mod_bound [of 10 lq] pos_mod_sign [of 10 lq]
  by (auto simp: new_bucket_def)

text \<open>The walk of \<open>lbf_get_hnode\<close> ends at the existing hnode \<open>h\<close>: that is the one it returns.\<close>

definition served_by :: "'a lbf_sched_data_scheme \<Rightarrow> int \<Rightarrow> nat \<Rightarrow> bool" where
  "served_by s lq h \<longleftrightarrow>
     (case Option.bind (hnode_list s) list_head of
        None \<Rightarrow> False
      | Some h0 \<Rightarrow> hnode_walk (hheap s) lq (Some h0) h0 = Some (Inr (StopFound h)))"

lemma served_by_get_hnode: "served_by s lq h \<Longrightarrow> lbf_get_hnode s lq = Some (Inr (Some h, s))"
  by (auto simp: served_by_def lbf_get_hnode_def hnode_in_list_def split: option.splits bind_splits)

lemma served_by_bucket:
  assumes R: "store_repr s Q" and c: "c \<in> set Q"
  shows "served_by s lq (b_addr c) \<longleftrightarrow> (\<exists>P B. get_bucket a lq Q = (P, c, B) \<and> P @ c # B = Q)"
proof -
  obtain d D where Q: "Q = d # D" using c by (cases Q) auto
  with store_reprD(1) [OF R] obtain l where l: "hnode_list s = Some l" "list_head l = Some (b_addr d)"
    by (auto simp: list_head_ok_def split: option.splits)
  have "served_by s lq (b_addr c) \<longleftrightarrow> stop_of lq (b_addr d) Q = StopFound (b_addr c)"
    using hnode_walk_eq [OF store_reprD(2) [OF R], of lq "b_addr d"] l by (simp add: served_by_def Q)
  also have "\<dots> \<longleftrightarrow> (\<exists>B. dropWhile (passed lq) Q = c # B \<and> b_start c \<le> lq)"
  proof (cases "dropWhile (passed lq) Q")
    case (Cons x B)
    then have "x \<in> set Q" by (metis list.set_intros(1) set_dropWhileD)
    then have "b_addr x = b_addr c \<longleftrightarrow> x = c"
      using store_reprD(4) [OF R] c by (meson distinct_map inj_onD)
    then show ?thesis unfolding stop_of_Cons [OF Cons] Cons by auto
  qed (simp add: stop_of_Nil)
  also have "\<dots> \<longleftrightarrow> (\<exists>P B. get_bucket a lq Q = (P, c, B) \<and> P @ c # B = Q)"
  proof
    assume "\<exists>B. dropWhile (passed lq) Q = c # B \<and> b_start c \<le> lq"
    then obtain B where B: "dropWhile (passed lq) Q = c # B" "b_start c \<le> lq" by blast
    then have "get_bucket a lq Q = (takeWhile (passed lq) Q, c, B)" by (simp only: get_bucket_Cons if_True)
    moreover have "takeWhile (passed lq) Q @ c # B = Q" by (metis B(1) takeWhile_dropWhile_id)
    ultimately show "\<exists>P B. get_bucket a lq Q = (P, c, B) \<and> P @ c # B = Q" by blast
  next
    assume "\<exists>P B. get_bucket a lq Q = (P, c, B) \<and> P @ c # B = Q"
    then obtain P B where gb: "get_bucket a lq Q = (P, c, B)" "P @ c # B = Q" by blast
    have "P = takeWhile (passed lq) Q"
      using gb(1) by (auto simp: get_bucket_def split: list.splits if_splits)
    then have "dropWhile (passed lq) Q = c # B" by (metis gb(2) same_append_eq takeWhile_dropWhile_id)
    moreover have "b_start c \<le> lq"
      using gb(1) calculation by (auto simp: get_bucket_def new_bucket_def split: if_splits)
    ultimately show "\<exists>B. dropWhile (passed lq) Q = c # B \<and> b_start c \<le> lq" by blast
  qed
  finally show ?thesis .
qed

text \<open>A budget that ends in 9 is in the range of a bucket but never served by an existing one.\<close>

lemma get_bucket_last_of_range:
  assumes "store_ok Q" "lq mod LQB_RANGE = LQB_RANGE - 1" "get_bucket a lq Q = (P, b, B)"
  shows "b = new_bucket a lq Q \<and> P @ B = Q"
  using get_bucket_cases [OF assms(3)]
proof (elim disjE conjE)
  assume b: "P @ b # B = Q" "b_start b \<le> lq" "lq < b_start b + (LQB_RANGE - 1)"
  then have "b_start b mod 10 = 0" using assms(1) by (auto simp: store_ok_def)
  then have False using b(2,3) assms(2) by presburger
  then show ?thesis ..
qed simp

section \<open>The lookup of an hnode\<close>

text \<open>C10. The hnode for a budget. When the allocations succeed, \<open>lbf_get_hnode\<close> returns an hnode
  whose range, which starts at a multiple of \<open>LQB_RANGE\<close>, contains the budget; at most one hnode
  is added to the list, at its place in the order of the ranges, and no pnode is touched.\<close>

theorem get_hnode_covers:
  assumes R: "store_repr s Q" and ok: "store_ok Q" and kc: "kc_plan s = []"
  shows "\<exists>s' P b B. lbf_get_hnode s lq = Some (Inr (Some (b_addr b), s')) \<and>
           store_repr s' (P @ b # B) \<and> store_ok (P @ b # B) \<and>
           b_start b \<le> lq \<and> lq \<le> b_start b + (LQB_RANGE - 1) \<and> b_start b mod LQB_RANGE = 0 \<and>
           (P @ b # B = Q \<or> P @ B = Q \<and> b_ents b = []) \<and> store_only s s'"
proof (cases rule: lbf_get_hnode_refines [OF R, of lq])
  case (3 s' a P b B)
  have "store_ok (P @ b # B)" by (rule get_bucket_store_ok [OF 3(2) ok])
  moreover from this have "b_start b mod LQB_RANGE = 0" by (simp add: store_ok_def)
  moreover have "P @ b # B = Q \<or> P @ B = Q \<and> b_ents b = []"
    using get_bucket_cases [OF 3(2)] by auto
  ultimately show ?thesis
    using 3 get_bucket_range [OF 3(2)] by (intro exI [of _ s'] exI [of _ P] exI [of _ b] exI [of _ B]) auto
qed (use kc in simp_all)

theorem get_hnode_covers_witness:
  "\<exists>s' (b :: bucket). lbf_get_hnode sample_store 163 = Some (Inr (Some (b_addr b), s')) \<and> b_start b \<le> 163 \<and>
     163 \<le> b_start b + (LQB_RANGE - 1)"
proof -
  have "kc_plan sample_store = []" by (simp add: sample_store_def)
  from get_hnode_covers [OF sample_store_repr sample_store_ok this, of 163] show ?thesis by blast
qed

text \<open>The last budget of a range. The comparison \<open>lqbudget < curr_hnode->range_end\<close> excludes
  the last budget of the range: for a budget that ends in 9, \<open>lbf_get_hnode\<close> never finds an
  existing hnode, it allocates and links another one with the same range at every call.\<close>

theorem get_hnode_last_budget:
  assumes R: "store_repr s Q" and ok: "store_ok Q" and kc: "kc_plan s = []"
    and lq: "lq mod LQB_RANGE = LQB_RANGE - 1"
  shows "\<exists>s' b h. lbf_get_hnode s lq = Some (Inr (Some h, s')) \<and> hheap s h = None \<and>
           hheap s' h \<noteq> None \<and> card (dom (hheap s')) = card (dom (hheap s)) + 1"
proof (cases rule: lbf_get_hnode_refines [OF R, of lq])
  case (3 s' a P b B)
  have new: "b = new_bucket a lq Q" "P @ B = Q"
    using get_bucket_last_of_range [OF ok lq 3(2)] by simp_all
  have dom: "dom (hheap s') = insert (b_addr b) (dom (hheap s))"
    using store_reprD(6) [OF R] store_reprD(6) [OF 3(3)] new(2) by auto
  have "b_addr b \<notin> dom (hheap s)"
    using 3(5) new(1) store_repr_brk(1) [OF R] by (metis leD new_bucket_simps(1))
  moreover have "finite (dom (hheap s))" using store_reprD(6) [OF R] by simp
  ultimately have "card (dom (hheap s')) = card (dom (hheap s)) + 1" unfolding dom by simp
  with 3(1) \<open>b_addr b \<notin> dom (hheap s)\<close> dom show ?thesis by (auto simp: domIff)
qed (use kc in simp_all)

theorem get_hnode_last_budget_witness:
  "\<exists>s' h. lbf_get_hnode sample_store 159 = Some (Inr (Some h, s')) \<and> hheap sample_store h = None"
proof -
  have "kc_plan sample_store = []" by (simp add: sample_store_def)
  from get_hnode_last_budget [OF sample_store_repr sample_store_ok this, of 159] show ?thesis by auto
qed

end
