(* ===== verification/Lbf_Search.thy ===== *)
theory Lbf_Search
  imports Lbf_Buckets
begin

text \<open>
  \<open>remove_pnode\<close>, \<open>search_now_pnode\<close> and \<open>search_next_pnode\<close> on the abstract store. Since no
  hnode ever has a predecessor pointer, removing a pnode never frees an hnode; the searches
  drop the expired entries at the front of the queues they look at.
\<close>

section \<open>Removal of the first entry of a queue\<close>

lemma remove_pnode_refines:
  assumes R: "store_repr s (A @ b # B)" and es: "b_ents b = e # es"
  shows "\<exists>s'. remove_pnode s (e_addr e) = Inr s' \<and> store_only s s' \<and>
           store_repr s' (A @ b\<lparr>b_ents := es\<rparr> # B)"
proof -
  let ?h = "b_addr b" and ?H = "pheap s"
  have hn: "hheap s ?h = Some (hnode_of (first_bucket B None) b)"
    and ps: "?H (e_addr e) = Some (pnode_of (first_ent es None) (Some ?h) e)" "pseg ?H None es None"
    and ds: "e_addr e \<notin> e_addr ` set es" "distinct (map e_addr es)"
    using store_reprD(2,5) [OF R] store_reprD(3) [OF R, of b] by (simp_all add: hseg_append es)
  have sub: "e_addr e \<in> dom ?H" "e_addr ` set es \<subseteq> dom ?H"
    using store_reprD(7) [OF R] by (auto simp: es)
  let ?HH = "(hheap s)(?h \<mapsto> hnode_of (first_bucket B None) (b\<lparr>b_ents := es\<rparr>))"
  let ?s' = "\<lambda>P. s\<lparr>pheap := P, hheap := ?HH\<rparr>"
  have queue_upd: "queue_update (\<lambda>_. x) (hnode_of nxt b) = hnode_of nxt (b\<lparr>b_ents := es\<rparr>)"
    if "x = first_ent es None" for x nxt
    using that by (simp add: hnode_of_def)
  have finish: ?thesis
    if eq: "remove_pnode s (e_addr e) = Inr (?s' P)"
      and P: "pseg P (Some ?h) es None"
      and fr: "\<And>x. x \<notin> e_addr ` set (b_ents b) \<union> e_addr ` set es \<Longrightarrow> P x = ?H x"
      and dP: "dom P = dom ?H - {e_addr e}" for P
  proof (intro exI conjI)
    show "store_only s (?s' P)" by (cases s) (simp add: store_only_def)
    show "store_repr (?s' P) (A @ b\<lparr>b_ents := es\<rparr> # B)"
    proof (rule store_repr_replace [OF R])
      show "dom (pheap (?s' P)) = dom ?H - e_addr ` set (b_ents b) \<union> e_addr ` set es"
        using sub ds by (auto simp: dP es)
      show "\<forall>x\<in>e_addr ` set es. x < brk (?s' P)"
        using sub(2) store_repr_brk(2) [OF R] by auto
    qed (use fr ds P in \<open>auto simp: es\<close>)
  qed (fact eq)
  show ?thesis
  proof (cases es)
    case Nil
    show ?thesis
    proof (rule finish)
      show "remove_pnode s (e_addr e) = Inr (?s' (?H(e_addr e := None)))"
        using hn ps queue_upd [of None] by (simp add: remove_pnode_def Nil)
    qed (auto simp: Nil es)
  next
    case (Cons c cs)
    have c: "e_addr c \<noteq> e_addr e" "e_addr e \<noteq> e_addr c" "e_addr c \<notin> e_addr ` set cs"
      "?H (e_addr c) = Some (pnode_of (first_ent cs None) None c)"
      using ds ps(2) by (auto simp: Cons)
    show ?thesis
    proof (rule finish)
      show "remove_pnode s (e_addr e) =
          Inr (?s' (?H(e_addr c \<mapsto> pnode_of (first_ent cs None) (Some ?h) c, e_addr e := None)))"
        using hn ps c queue_upd [of "Some (e_addr c)"] by (simp add: remove_pnode_def Cons)
    qed (use c ds ps(2) in \<open>auto simp: Cons es\<close>)
  qed
qed

section \<open>The searches as list functions\<close>

definition dead :: "u64 \<Rightarrow> u16 \<Rightarrow> ent \<Rightarrow> bool" where
  "dead now hl e \<longleftrightarrow> e_tmax e < now \<and> hl = 0"

definition ripe :: "u64 \<Rightarrow> ent \<Rightarrow> bool" where
  "ripe now e \<longleftrightarrow> e_tmin e \<le> now"

fun now_scan :: "u64 \<Rightarrow> u16 \<Rightarrow> bucket list \<Rightarrow> nat option \<times> bucket list" where
  "now_scan now hl [] = (None, [])"
| "now_scan now hl (b # B) =
     (let es = dropWhile (\<lambda>e. ripe now e \<and> dead now hl e) (b_ents b)
      in if es \<noteq> [] \<and> ripe now (hd es) then (Some (e_addr (hd es)), b\<lparr>b_ents := es\<rparr> # B)
         else let (f, B') = now_scan now hl B in (f, b\<lparr>b_ents := es\<rparr> # B'))"

fun next_scan :: "u64 \<Rightarrow> u16 \<Rightarrow> u64 \<Rightarrow> nat option \<Rightarrow> bucket list \<Rightarrow> nat option \<times> bucket list" where
  "next_scan now hl tmin ret [] = (ret, [])"
| "next_scan now hl tmin ret (b # B) =
     (let es = dropWhile (dead now hl) (b_ents b);
          better = es \<noteq> [] \<and> e_tmin (hd es) < tmin;
          (f, B') = next_scan now hl (if better then e_tmin (hd es) else tmin)
                      (if better then Some (e_addr (hd es)) else ret) B
      in (f, b\<lparr>b_ents := es\<rparr> # B'))"

lemma expired_pnode_of [simp]:
  "expired now s (pnode_of nxt tag e) \<longleftrightarrow> dead now (hops_left (vars s)) e"
  by (simp add: expired_def dead_def)

lemma after_expired_first:
  assumes "store_repr s (A @ b # B)"
  shows "after_expired s (b_addr b) (pnode_of nxt tag e) = Inr (b_addr b, nxt)"
  using store_reprD(2) [OF assms]
  by (auto simp: after_expired_def hseg_append split: option.splits)

lemma now_in_queue_refines:
  assumes "store_repr s (A @ b # B)"
    and "es = dropWhile (\<lambda>e. ripe now e \<and> dead now (hops_left (vars s)) e) (b_ents b)"
  shows "\<exists>s'. now_in_queue now s (first_ent (b_ents b) None) (b_addr b) =
           Some (Inr (s', b_addr b, if es \<noteq> [] \<and> ripe now (hd es) then Some (e_addr (hd es)) else None)) \<and>
           store_only s s' \<and> store_repr s' (A @ b\<lparr>b_ents := es\<rparr> # B)"
  using assms(1) unfolding assms(2)
proof (induction "b_ents b" arbitrary: s b)
  case Nil
  then have b: "b_ents b = []" "b\<lparr>b_ents := []\<rparr> = b" by (cases b, simp)+
  with Nil.prems show ?case by (subst now_in_queue.simps) (simp add: b)
next
  case (Cons e es)
  let ?dead = "\<lambda>e. ripe now e \<and> dead now (hops_left (vars s)) e"
  have es: "b_ents b = e # es" using Cons.hyps(2) by simp
  have ps: "pheap s (e_addr e) = Some (pnode_of (first_ent es None) (Some (b_addr b)) e)"
    using store_reprD(3) [OF Cons.prems, of b] by (simp add: es)
  show ?case
  proof (cases "?dead e")
    case True
    obtain s1 where s1: "remove_pnode s (e_addr e) = Inr s1" "store_only s s1"
      "store_repr s1 (A @ b\<lparr>b_ents := es\<rparr> # B)"
      using remove_pnode_refines [OF Cons.prems es] by blast
    have v: "vars s1 = vars s" using store_only_fields(2) [OF s1(2)] .
    obtain s' where s': "now_in_queue now s1 (first_ent es None) (b_addr b) =
           Some (Inr (s', b_addr b, if dropWhile ?dead es \<noteq> [] \<and> ripe now (hd (dropWhile ?dead es))
                then Some (e_addr (hd (dropWhile ?dead es))) else None))"
           "store_only s1 s'" "store_repr s' (A @ b\<lparr>b_ents := dropWhile ?dead es\<rparr> # B)"
      using Cons.hyps(1) [of "b\<lparr>b_ents := es\<rparr>" s1] s1(3) by (auto simp: v)
    show ?thesis
      using s' True store_only_trans [OF s1(2) s'(2)] s1(1) ps after_expired_first [OF Cons.prems]
      by (subst now_in_queue.simps) (simp add: es ripe_def)
  next
    case False
    have b: "b\<lparr>b_ents := e # es\<rparr> = b" using es by (cases b) simp
    from False Cons.prems ps show ?thesis
      by (subst now_in_queue.simps) (auto simp: es ripe_def b)
  qed
qed

lemma next_in_queue_refines:
  assumes "store_repr s (A @ b # B)"
    and "es = dropWhile (dead now (hops_left (vars s))) (b_ents b)"
    and "better = (es \<noteq> [] \<and> e_tmin (hd es) < tmin)"
  shows "\<exists>s'. next_in_queue now s (first_ent (b_ents b) None) (b_addr b) tmin ret =
           Some (Inr (s', b_addr b, if better then e_tmin (hd es) else tmin,
                      if better then Some (e_addr (hd es)) else ret)) \<and>
           store_only s s' \<and> store_repr s' (A @ b\<lparr>b_ents := es\<rparr> # B)"
  using assms(1) unfolding assms(2,3)
proof (induction "b_ents b" arbitrary: s b)
  case Nil
  then have b: "b_ents b = []" "b\<lparr>b_ents := []\<rparr> = b" by (cases b, simp)+
  with Nil.prems show ?case by (subst next_in_queue.simps) (simp add: b)
next
  case (Cons e es)
  let ?dead = "dead now (hops_left (vars s))"
  have es: "b_ents b = e # es" using Cons.hyps(2) by simp
  have ps: "pheap s (e_addr e) = Some (pnode_of (first_ent es None) (Some (b_addr b)) e)"
    using store_reprD(3) [OF Cons.prems, of b] by (simp add: es)
  show ?case
  proof (cases "?dead e")
    case True
    obtain s1 where s1: "remove_pnode s (e_addr e) = Inr s1" "store_only s s1"
      "store_repr s1 (A @ b\<lparr>b_ents := es\<rparr> # B)"
      using remove_pnode_refines [OF Cons.prems es] by blast
    have v: "vars s1 = vars s" using store_only_fields(2) [OF s1(2)] .
    let ?better = "dropWhile ?dead es \<noteq> [] \<and> e_tmin (hd (dropWhile ?dead es)) < tmin"
    obtain s' where s': "next_in_queue now s1 (first_ent es None) (b_addr b) tmin ret =
           Some (Inr (s', b_addr b, if ?better then e_tmin (hd (dropWhile ?dead es)) else tmin,
                      if ?better then Some (e_addr (hd (dropWhile ?dead es))) else ret))"
           "store_only s1 s'" "store_repr s' (A @ b\<lparr>b_ents := dropWhile ?dead es\<rparr> # B)"
      using Cons.hyps(1) [of "b\<lparr>b_ents := es\<rparr>" s1] s1(3) by (auto simp: v)
    show ?thesis
      using s' True store_only_trans [OF s1(2) s'(2)] s1(1) ps after_expired_first [OF Cons.prems]
      by (subst next_in_queue.simps) (simp add: es)
  next
    case False
    have b: "b\<lparr>b_ents := e # es\<rparr> = b" using es by (cases b) simp
    from False Cons.prems ps show ?thesis
      by (subst next_in_queue.simps) (auto simp: es b)
  qed
qed

lemma now_in_list_refines:
  assumes "store_repr s (A @ Q)" and "now_scan now (hops_left (vars s)) Q = (f, Q')"
  shows "\<exists>s'. now_in_list now s (first_bucket Q None) = Some (Inr (f, s')) \<and>
           store_only s s' \<and> store_repr s' (A @ Q')"
  using assms
proof (induction Q arbitrary: A s f Q')
  case Nil
  then show ?case by (subst now_in_list.simps) simp
next
  case (Cons b B)
  let ?es = "dropWhile (\<lambda>e. ripe now e \<and> dead now (hops_left (vars s)) e) (b_ents b)"
  have hn: "hheap s (b_addr b) = Some (hnode_of (first_bucket B None) b)"
    using store_reprD(2) [OF Cons.prems(1)] by (simp add: hseg_append)
  obtain s1 where s1: "now_in_queue now s (first_ent (b_ents b) None) (b_addr b) =
      Some (Inr (s1, b_addr b, if ?es \<noteq> [] \<and> ripe now (hd ?es) then Some (e_addr (hd ?es)) else None))"
      "store_only s s1" "store_repr s1 (A @ b\<lparr>b_ents := ?es\<rparr> # B)"
    using now_in_queue_refines [OF Cons.prems(1) refl, of now] by blast
  have v: "vars s1 = vars s" using store_only_fields(2) [OF s1(2)] .
  have hn1: "hheap s1 (b_addr b) = Some (hnode_of (first_bucket B None) (b\<lparr>b_ents := ?es\<rparr>))"
    using store_reprD(2) [OF s1(3)] by (simp add: hseg_append)
  show ?case
  proof (cases "?es \<noteq> [] \<and> ripe now (hd ?es)")
    case True
    then show ?thesis
      using Cons.prems(2) hn s1 by (subst now_in_list.simps) (auto simp: Let_def)
  next
    case False
    obtain B' where B': "now_scan now (hops_left (vars s1)) B = (f, B')" "Q' = b\<lparr>b_ents := ?es\<rparr> # B'"
      using Cons.prems(2) False by (auto simp: Let_def v split: prod.splits)
    have R: "store_repr s1 ((A @ [b\<lparr>b_ents := ?es\<rparr>]) @ B)" using s1(3) by simp
    obtain s' where s': "now_in_list now s1 (first_bucket B None) = Some (Inr (f, s'))"
      "store_only s1 s'" "store_repr s' ((A @ [b\<lparr>b_ents := ?es\<rparr>]) @ B')"
      using Cons.IH [OF R B'(1)] by blast
    have "now_in_list now s (Some (b_addr b)) = Some (Inr (f, s'))"
      using hn s1(1) hn1 s'(1) False by (subst now_in_list.simps) (simp split del: if_split)
    then show ?thesis
      using s'(3) B'(2) store_only_trans [OF s1(2) s'(2)] by auto
  qed
qed

lemma next_in_list_refines:
  assumes "store_repr s (A @ Q)" and "next_scan now (hops_left (vars s)) tmin ret Q = (f, Q')"
  shows "\<exists>s'. next_in_list now s (first_bucket Q None) tmin ret = Some (Inr (f, s')) \<and>
           store_only s s' \<and> store_repr s' (A @ Q')"
  using assms
proof (induction Q arbitrary: A s tmin ret f Q')
  case Nil
  then show ?case by (subst next_in_list.simps) simp
next
  case (Cons b B)
  let ?es = "dropWhile (dead now (hops_left (vars s))) (b_ents b)"
  let ?better = "?es \<noteq> [] \<and> e_tmin (hd ?es) < tmin"
  let ?tmin = "if ?better then e_tmin (hd ?es) else tmin"
  let ?ret = "if ?better then Some (e_addr (hd ?es)) else ret"
  have hn: "hheap s (b_addr b) = Some (hnode_of (first_bucket B None) b)"
    using store_reprD(2) [OF Cons.prems(1)] by (simp add: hseg_append)
  obtain s1 where s1: "next_in_queue now s (first_ent (b_ents b) None) (b_addr b) tmin ret =
      Some (Inr (s1, b_addr b, ?tmin, ?ret))"
      "store_only s s1" "store_repr s1 (A @ b\<lparr>b_ents := ?es\<rparr> # B)"
    using next_in_queue_refines [OF Cons.prems(1) refl refl, of now tmin ret] by blast
  have v: "vars s1 = vars s" using store_only_fields(2) [OF s1(2)] .
  have hn1: "hheap s1 (b_addr b) = Some (hnode_of (first_bucket B None) (b\<lparr>b_ents := ?es\<rparr>))"
    using store_reprD(2) [OF s1(3)] by (simp add: hseg_append)
  obtain B' where B': "next_scan now (hops_left (vars s1)) ?tmin ?ret B = (f, B')"
      "Q' = b\<lparr>b_ents := ?es\<rparr> # B'"
    using Cons.prems(2) by (auto simp: Let_def v split: prod.splits)
  have R: "store_repr s1 ((A @ [b\<lparr>b_ents := ?es\<rparr>]) @ B)" using s1(3) by simp
  obtain s' where s': "next_in_list now s1 (first_bucket B None) ?tmin ?ret = Some (Inr (f, s'))"
    "store_only s1 s'" "store_repr s' ((A @ [b\<lparr>b_ents := ?es\<rparr>]) @ B')"
    using Cons.IH [OF R B'(1)] by blast
  have "next_in_list now s (Some (b_addr b)) tmin ret = Some (Inr (f, s'))"
    using hn s1(1) hn1 s'(1) by (subst next_in_list.simps) (simp split del: if_split)
  then show ?case
    using s'(3) B'(2) store_only_trans [OF s1(2) s'(2)] by auto
qed

lemma search_now_refines:
  assumes R: "store_repr s Q" and "now_scan now (hops_left (vars s)) Q = (f, Q')"
  shows "\<exists>s'. search_now_pnode now s = Some (Inr (f, s')) \<and> store_only s s' \<and> store_repr s' Q'"
proof (cases "hnode_list s")
  case None
  then show ?thesis
    using assms store_reprD(1) [OF R] by (auto simp: list_head_ok_def search_now_pnode_def)
next
  case (Some l)
  then show ?thesis
    using store_reprD(1) [OF R] now_in_list_refines [where A = "[]"] assms
    by (simp add: list_head_ok_def search_now_pnode_def)
qed

lemma search_next_refines:
  assumes R: "store_repr s Q" and "next_scan now (hops_left (vars s)) (- 1) None Q = (f, Q')"
  shows "\<exists>s'. search_next_pnode now s = Some (Inr (f, s')) \<and> store_only s s' \<and> store_repr s' Q'"
proof (cases "hnode_list s")
  case None
  then show ?thesis
    using assms store_reprD(1) [OF R] by (auto simp: list_head_ok_def search_next_pnode_def)
next
  case (Some l)
  then show ?thesis
    using store_reprD(1) [OF R] next_in_list_refines [where A = "[]"] assms
    by (simp add: list_head_ok_def search_next_pnode_def)
qed

section \<open>What the searches leave behind\<close>

text \<open>\<open>pruned\<close>: a bucket lost some dead entries at the front of its queue, nothing else.\<close>

definition pruned :: "u64 \<Rightarrow> u16 \<Rightarrow> bucket \<Rightarrow> bucket \<Rightarrow> bool" where
  "pruned now hl b b' \<longleftrightarrow>
     b' = b\<lparr>b_ents := b_ents b'\<rparr> \<and>
     (\<exists>d. b_ents b = d @ b_ents b' \<and> (\<forall>e \<in> set d. dead now hl e))"

lemma pruned_dropWhile:
  assumes "\<And>e. P e \<Longrightarrow> dead now hl e"
  shows "pruned now hl b (b\<lparr>b_ents := dropWhile P (b_ents b)\<rparr>)"
  unfolding pruned_def using assms
  by (auto intro!: exI [of _ "takeWhile P (b_ents b)"] dest: set_takeWhileD)

lemma pruned_refl: "pruned now hl b b"
  by (simp add: pruned_def)

lemma now_scan_pruned: "now_scan now hl Q = (f, Q') \<Longrightarrow> list_all2 (pruned now hl) Q Q'"
proof (induction Q arbitrary: f Q')
  case (Cons b B)
  let ?b = "b\<lparr>b_ents := dropWhile (\<lambda>e. ripe now e \<and> dead now hl e) (b_ents b)\<rparr>"
  have b: "pruned now hl b ?b" by (rule pruned_dropWhile) simp
  have B: "list_all2 (pruned now hl) B B" by (simp add: list_all2_refl pruned_refl)
  obtain g B' where gB: "now_scan now hl B = (g, B')" by fastforce
  have "Q' = ?b # B \<or> Q' = ?b # B'"
    using Cons.prems by (auto simp: Let_def gB split: if_splits)
  then show ?case using b B Cons.IH [OF gB] by auto
qed simp

lemma next_scan_pruned: "next_scan now hl tmin ret Q = (f, Q') \<Longrightarrow> list_all2 (pruned now hl) Q Q'"
  by (induction Q arbitrary: tmin ret f Q')
    (auto simp: Let_def pruned_dropWhile split: prod.splits)

lemma pruned_fields: "pruned now hl b b' \<Longrightarrow> b_addr b' = b_addr b \<and> b_start b' = b_start b"
  unfolding pruned_def by (metis bucket.select_convs(1,3) bucket.surjective bucket.update_convs(4))

lemma pruned_store_ok:
  assumes "list_all2 (pruned now hl) Q Q'" "store_ok Q"
  shows "store_ok Q'"
proof -
  have "map b_start Q' = map b_start Q"
    using assms(1) by (induction rule: list_all2_induct) (auto dest: pruned_fields)
  moreover have "sorted (map e_tmin (b_ents b')) \<and> b_start b' mod LQB_RANGE = 0" if "b' \<in> set Q'" for b'
  proof -
    obtain b where b: "b \<in> set Q" "pruned now hl b b'"
      using assms(1) \<open>b' \<in> set Q'\<close> by (metis list_all2_conv_all_nth in_set_conv_nth)
    then show ?thesis
      using assms(2) pruned_fields [OF b(2)] by (auto simp: store_ok_def pruned_def sorted_append)
  qed
  ultimately show ?thesis using assms(2) by (simp add: store_ok_def)
qed

lemma pruned_all_ents:
  "list_all2 (pruned now hl) Q Q' \<Longrightarrow> set (all_ents Q') \<subseteq> set (all_ents Q) \<and>
   (\<forall>e \<in> set (all_ents Q) - set (all_ents Q'). dead now hl e)"
  by (induction rule: list_all2_induct) (auto simp: pruned_def)

section \<open>What the searches find\<close>

definition heads :: "bucket list \<Rightarrow> ent list" where
  "heads Q = concat (map (\<lambda>b. take 1 (b_ents b)) Q)"

lemma heads_simps [simp]:
  "heads [] = []" "heads (b # B) = take 1 (b_ents b) @ heads B" "heads (A @ B) = heads A @ heads B"
  by (simp_all add: heads_def)

lemma take_1_eq: "take (Suc 0) xs = (case xs of [] \<Rightarrow> [] | x # _ \<Rightarrow> [x])"
  by (cases xs) simp_all

lemma heads_min:
  assumes "store_ok Q" "e \<in> set (all_ents Q)"
  shows "\<exists>h \<in> set (heads Q). e_tmin h \<le> e_tmin e"
proof -
  obtain b where b: "b \<in> set Q" "e \<in> set (b_ents b)" using assms(2) by (auto simp: all_ents_def)
  then obtain h es where es: "b_ents b = h # es" by (cases "b_ents b") auto
  have "h \<in> set (heads Q)" using b(1) es by (force simp: heads_def)
  moreover have "e_tmin h \<le> e_tmin e" using assms(1) b es by (auto simp: store_ok_def)
  ultimately show ?thesis by blast
qed

lemma hd_dropWhile_not: "dropWhile P xs = y # ys \<Longrightarrow> \<not> P y"
  by (metis hd_dropWhile list.distinct(1) list.sel(1))

lemma now_scan_Cons_cases:
  assumes "now_scan now hl (b # B) = (f, Q')"
  obtains (here) e es where "ripe now e" "\<not> dead now hl e" "f = Some (e_addr e)"
      "Q' = b\<lparr>b_ents := e # es\<rparr> # B"
  | (later) es B' where "now_scan now hl B = (f, B')" "Q' = b\<lparr>b_ents := es\<rparr> # B'"
      "\<forall>x \<in> set (take 1 es). \<not> ripe now x"
proof -
  define es where "es = dropWhile (\<lambda>e. ripe now e \<and> dead now hl e) (b_ents b)"
  obtain g B' where gB: "now_scan now hl B = (g, B')" by fastforce
  have eq: "(f, Q') = (if es \<noteq> [] \<and> ripe now (hd es) then (Some (e_addr (hd es)), b\<lparr>b_ents := es\<rparr> # B)
                       else (g, b\<lparr>b_ents := es\<rparr> # B'))"
    using assms by (simp only: now_scan.simps Let_def es_def gB prod.case)
  show thesis
  proof (cases es)
    case Nil
    with eq gB show thesis by (intro later [of B' "[]"]) simp_all
  next
    case (Cons e es')
    then have "\<not> (ripe now e \<and> dead now hl e)" unfolding es_def by (rule hd_dropWhile_not)
    with eq gB Cons show thesis
      by (cases "ripe now e") (auto intro: here [of e es'] later [of B' es])
  qed
qed

lemma now_scan_Some:
  assumes "now_scan now hl Q = (Some p, Q')"
  shows "\<exists>A b B e es. Q' = A @ b # B \<and> b_ents b = e # es \<and> e_addr e = p \<and> ripe now e \<and>
           \<not> dead now hl e \<and> (\<forall>x \<in> set (heads A). \<not> ripe now x)"
  using assms
proof (induction Q arbitrary: Q')
  case (Cons b B)
  from Cons.prems show ?case
  proof (cases rule: now_scan_Cons_cases)
    case (here e es)
    then show ?thesis
      by (intro exI [of _ "[]"] exI [of _ "b\<lparr>b_ents := e # es\<rparr>"] exI [of _ B] exI [of _ e] exI [of _ es])
        simp
  next
    case (later es B')
    obtain A c C e cs where IH: "B' = A @ c # C" "b_ents c = e # cs" "e_addr e = p" "ripe now e"
      "\<not> dead now hl e" "\<forall>x \<in> set (heads A). \<not> ripe now x"
      using Cons.IH [OF later(1)] by blast
    show ?thesis
      by (rule exI [of _ "b\<lparr>b_ents := es\<rparr> # A"], rule exI [of _ c], rule exI [of _ C],
          rule exI [of _ e], rule exI [of _ cs]) (use IH later(2,3) in auto)
  qed
qed simp

lemma now_scan_None:
  "now_scan now hl Q = (None, Q') \<Longrightarrow> \<forall>e \<in> set (heads Q'). \<not> ripe now e"
proof (induction Q arbitrary: Q')
  case (Cons b B)
  from Cons.prems show ?case
  proof (cases rule: now_scan_Cons_cases)
    case (later es B')
    then show ?thesis using Cons.IH [OF later(1)] by auto
  qed simp
qed simp

definition next_found ::
  "u64 \<Rightarrow> u16 \<Rightarrow> u64 \<Rightarrow> nat option \<Rightarrow> nat option \<Rightarrow> bucket list \<Rightarrow> bool" where
  "next_found now hl tmin ret f Q' \<longleftrightarrow>
     (f = ret \<and> (\<forall>h \<in> set (heads Q'). tmin \<le> e_tmin h)) \<or>
     (\<exists>e \<in> set (heads Q'). f = Some (e_addr e) \<and> e_tmin e < tmin \<and>
        (\<forall>h \<in> set (heads Q'). e_tmin e \<le> e_tmin h))"

lemma next_scan_found:
  assumes "next_scan now hl tmin ret Q = (f, Q')"
  shows "next_found now hl tmin ret f Q' \<and> (\<forall>h \<in> set (heads Q'). \<not> dead now hl h)"
  using assms
proof (induction Q arbitrary: tmin ret f Q')
  case Nil
  then show ?case by (simp add: next_found_def)
next
  case (Cons b B)
  let ?es = "dropWhile (dead now hl) (b_ents b)"
  let ?better = "?es \<noteq> [] \<and> e_tmin (hd ?es) < tmin"
  let ?tmin = "if ?better then e_tmin (hd ?es) else tmin"
  let ?ret = "if ?better then Some (e_addr (hd ?es)) else ret"
  obtain B' where B': "next_scan now hl ?tmin ?ret B = (f, B')" "Q' = b\<lparr>b_ents := ?es\<rparr> # B'"
    using Cons.prems by (auto simp: Let_def split: prod.splits)
  have IH: "next_found now hl ?tmin ?ret f B'" "\<forall>h \<in> set (heads B'). \<not> dead now hl h"
    using Cons.IH [OF B'(1)] by blast+
  show ?case
  proof (cases ?es)
    case Nil
    then show ?thesis using IH B'(2) by (simp add: next_found_def)
  next
    case (Cons e es)
    then have "\<not> dead now hl e" by (rule hd_dropWhile_not)
    then show ?thesis
      using IH B'(2) Cons by (auto simp: next_found_def split: if_splits)
  qed
qed

lemma mem_heads:
  "h \<in> set (heads Q) \<longleftrightarrow> (\<exists>A b B es. Q = A @ b # B \<and> b_ents b = h # es)"
proof
  assume "h \<in> set (heads Q)"
  then obtain b where "b \<in> set Q" "h \<in> set (take 1 (b_ents b))"
    unfolding heads_def by auto
  moreover from this(2) obtain es where "b_ents b = h # es" by (cases "b_ents b") auto
  ultimately have "\<exists>b \<in> set Q. \<exists>es. b_ents b = h # es" by blast
  then show "\<exists>A b B es. Q = A @ b # B \<and> b_ents b = h # es"
    by (meson split_list)
qed (auto simp: heads_def)

section \<open>The searches on the heap\<close>

text \<open>C11. The packet that may leave. \<open>search_now_pnode\<close> returns; the pnode it finds is the first
  of its queue, due and not expired, and every queue in front of it, for smaller budgets,
  holds no due packet; when it finds none, no stored packet is due. It only removes expired
  pnodes.\<close>

theorem search_now_finds:
  assumes R: "store_repr s Q" and ok: "store_ok Q"
  shows "\<exists>f s' Q'. search_now_pnode now s = Some (Inr (f, s')) \<and> store_repr s' Q' \<and> store_ok Q' \<and>
           (case f of
              None \<Rightarrow> \<forall>e \<in> set (all_ents Q'). now < e_tmin e
            | Some p \<Rightarrow> \<exists>A b B e es. Q' = A @ b # B \<and> b_ents b = e # es \<and> e_addr e = p \<and>
                e_tmin e \<le> now \<and> \<not> (e_tmax e < now \<and> hops_left (vars s) = 0) \<and>
                (\<forall>x \<in> set (all_ents A). now < e_tmin x)) \<and>
           set (all_ents Q') \<subseteq> set (all_ents Q) \<and>
           (\<forall>e \<in> set (all_ents Q) - set (all_ents Q'). e_tmax e < now \<and> hops_left (vars s) = 0)"
proof -
  obtain f Q' where scan: "now_scan now (hops_left (vars s)) Q = (f, Q')" by fastforce
  obtain s' where s': "search_now_pnode now s = Some (Inr (f, s'))" "store_repr s' Q'"
    using search_now_refines [OF R scan] by blast
  note pr = now_scan_pruned [OF scan]
  have ok': "store_ok Q'" using pruned_store_ok [OF pr ok] .
  have late: "now < e_tmin e"
    if "\<forall>x \<in> set (heads A). \<not> ripe now x" "store_ok A" "e \<in> set (all_ents A)" for A e
    using heads_min [OF that(2,3)] that(1) by (auto simp: ripe_def)
  have "case f of
              None \<Rightarrow> \<forall>e \<in> set (all_ents Q'). now < e_tmin e
            | Some p \<Rightarrow> \<exists>A b B e es. Q' = A @ b # B \<and> b_ents b = e # es \<and> e_addr e = p \<and>
                e_tmin e \<le> now \<and> \<not> (e_tmax e < now \<and> hops_left (vars s) = 0) \<and>
                (\<forall>x \<in> set (all_ents A). now < e_tmin x)"
  proof (cases f)
    case None
    then show ?thesis using late [OF _ ok'] now_scan_None scan by simp
  next
    case (Some p)
    obtain A b B e es where f: "Q' = A @ b # B" "b_ents b = e # es" "e_addr e = p" "ripe now e"
      "\<not> dead now (hops_left (vars s)) e" "\<forall>x \<in> set (heads A). \<not> ripe now x"
      using now_scan_Some scan Some by blast
    have "store_ok A" using ok' f(1) by (auto simp: store_ok_def sorted_append)
    with f late have "\<forall>x \<in> set (all_ents A). now < e_tmin x" by blast
    with f Some show ?thesis by (auto simp: ripe_def dead_def)
  qed
  with s' ok' pruned_all_ents [OF pr] show ?thesis
    by (intro exI [of _ f] exI [of _ s'] exI [of _ Q']) (auto simp: dead_def)
qed

theorem search_now_finds_witness:
  "\<exists>f s' Q'. search_now_pnode 200 sample_store = Some (Inr (f, s')) \<and> store_repr s' Q' \<and>
     set (all_ents Q') = set sample_ents"
proof -
  from search_now_finds [OF sample_store_repr sample_store_ok, of 200] obtain f s' Q' where
    r: "search_now_pnode 200 sample_store = Some (Inr (f, s'))" "store_repr s' Q'"
    "set (all_ents Q') \<subseteq> set (all_ents [sample_bucket])"
    "\<forall>e \<in> set (all_ents [sample_bucket]) - set (all_ents Q'). hops_left (vars sample_store) = 0"
    by blast
  have "hops_left (vars sample_store) = 1" by (simp add: sample_store_def)
  with r(3,4) have "set (all_ents Q') = set sample_ents" by (auto simp: sample_bucket_def)
  with r(1,2) show ?thesis by (intro exI conjI)
qed

text \<open>C12. The packet to wait for. \<open>search_next_pnode\<close> returns; the pnode it finds has the earliest
  departure time of all stored pnodes, and when it finds none the store holds only pnodes with
  the largest time there is. It only removes expired pnodes.\<close>

theorem search_next_earliest:
  assumes R: "store_repr s Q" and ok: "store_ok Q"
  shows "\<exists>f s' Q'. search_next_pnode now s = Some (Inr (f, s')) \<and> store_repr s' Q' \<and> store_ok Q' \<and>
           (case f of
              None \<Rightarrow> \<forall>e \<in> set (all_ents Q'). e_tmin e = - 1
            | Some p \<Rightarrow> \<exists>e \<in> set (all_ents Q'). e_addr e = p \<and> \<not> (e_tmax e < now \<and> hops_left (vars s) = 0) \<and>
                (\<forall>x \<in> set (all_ents Q'). e_tmin e \<le> e_tmin x)) \<and>
           set (all_ents Q') \<subseteq> set (all_ents Q) \<and>
           (\<forall>e \<in> set (all_ents Q) - set (all_ents Q'). e_tmax e < now \<and> hops_left (vars s) = 0)"
proof -
  obtain f Q' where scan: "next_scan now (hops_left (vars s)) (- 1) None Q = (f, Q')" by fastforce
  obtain s' where s': "search_next_pnode now s = Some (Inr (f, s'))" "store_repr s' Q'"
    using search_next_refines [OF R scan] by blast
  note pr = next_scan_pruned [OF scan] and fd = next_scan_found [OF scan]
  have ok': "store_ok Q'" using pruned_store_ok [OF pr ok] .
  have min: "t \<le> e_tmin e" if "\<forall>h \<in> set (heads Q'). t \<le> e_tmin h" "e \<in> set (all_ents Q')" for t e
    using heads_min [OF ok' that(2)] that(1) by fastforce
  have hds: "set (heads Q') \<subseteq> set (all_ents Q')"
    by (auto simp: heads_def all_ents_def dest: in_set_takeD)
  have "case f of
              None \<Rightarrow> \<forall>e \<in> set (all_ents Q'). e_tmin e = - 1
            | Some p \<Rightarrow> \<exists>e \<in> set (all_ents Q'). e_addr e = p \<and> \<not> (e_tmax e < now \<and> hops_left (vars s) = 0) \<and>
                (\<forall>x \<in> set (all_ents Q'). e_tmin e \<le> e_tmin x)"
  proof (cases f)
    case None
    then show ?thesis using fd min [of "- 1"] by (auto simp: next_found_def intro: antisym)
  next
    case (Some p)
    then obtain e where "e \<in> set (heads Q')" "e_addr e = p" "\<forall>h \<in> set (heads Q'). e_tmin e \<le> e_tmin h"
      using fd by (auto simp: next_found_def)
    then show ?thesis using Some fd hds min by (auto simp: dead_def)
  qed
  with s' ok' pruned_all_ents [OF pr] show ?thesis
    by (intro exI [of _ f] exI [of _ s'] exI [of _ Q']) (auto simp: dead_def)
qed

theorem search_next_earliest_witness:
  "\<exists>f s' Q'. search_next_pnode 200 sample_store = Some (Inr (f, s')) \<and> store_repr s' Q' \<and>
     set (all_ents Q') \<subseteq> set sample_ents"
proof -
  from search_next_earliest [OF sample_store_repr sample_store_ok, of 200] obtain f s' Q' where
    r: "search_next_pnode 200 sample_store = Some (Inr (f, s'))" "store_repr s' Q'"
    "set (all_ents Q') \<subseteq> set (all_ents [sample_bucket])"
    by blast
  have "all_ents [sample_bucket] = sample_ents" by (simp add: sample_bucket_def)
  with r show ?thesis by (intro exI conjI) simp_all
qed

end
