(* ===== verification/Lbf_Qdisc.thy ===== *)
theory Lbf_Qdisc
  imports Lbf_Delay Lbf_Heap
begin

text \<open>
  The queue discipline of \<open>lbf/src/linux/sch_lbf.c\<close>: the \<open>Qdisc_ops\<close> callbacks over the packet
  store of \<open>Lbf_Heap\<close> and the kernel's own FIFO. What the callbacks call in the kernel (the FIFO,
  the statistics, netlink) is not in the repository: it is a record of functions, the parameter
  \<open>K\<close> of the definitions, over a part of \<open>struct Qdisc\<close> that only the kernel reads. A reading of
  the clock (\<open>psched_get_time\<close>, in ticks) is an argument, one for each call. Socket buffers are
  addresses into the memory \<open>skbs\<close>; a load or a store through a header pointer is a checked
  access to the bytes of the buffer.
\<close>

section \<open>Socket buffers and the Qdisc\<close>

text \<open>\<open>cb_val\<close> and \<open>cb_enqueue_time\<close> are the \<open>struct lbf_skb_cb\<close> in the control block.\<close>

record sk_buff =
  head_bytes :: "u8 list"
  mac_header :: nat
  network_header :: nat
  cb_val :: u32
  cb_enqueue_time :: u64

definition lbf_get_enqueue_time :: "sk_buff \<Rightarrow> u64" where
  "lbf_get_enqueue_time b = cb_enqueue_time b"

definition lbf_get_val :: "sk_buff \<Rightarrow> u64" where
  "lbf_get_val b = scast (cb_val b)"

definition lbf_set_enqueue_time :: "u64 \<Rightarrow> sk_buff \<Rightarrow> sk_buff" where
  "lbf_set_enqueue_time now b = b\<lparr>cb_enqueue_time := now\<rparr>"

text \<open>\<open>kern\<close> stands for the fields of \<open>struct Qdisc\<close> that only the kernel's functions use: the
  list of queued buffers and the counters.\<close>

record 'k Qdisc =
  limit :: u32
  qlen :: u32
  kern :: 'k

record 'k kernel_ops =
  k_ticks2ns :: "u64 \<Rightarrow> u64"
  k_drop :: "nat \<Rightarrow> 'k Qdisc \<Rightarrow> nat list \<Rightarrow> int \<times> 'k Qdisc \<times> nat list"
  k_to_free :: "nat \<Rightarrow> nat list \<Rightarrow> nat list"
  k_qstats_drop :: "'k Qdisc \<Rightarrow> 'k Qdisc"
  k_backlog_inc :: "nat \<Rightarrow> 'k Qdisc \<Rightarrow> 'k Qdisc"
  k_backlog_dec :: "nat \<Rightarrow> 'k Qdisc \<Rightarrow> 'k Qdisc"
  k_bstats_update :: "nat \<Rightarrow> 'k Qdisc \<Rightarrow> 'k Qdisc"
  k_enqueue_tail :: "nat \<Rightarrow> 'k Qdisc \<Rightarrow> int \<times> 'k Qdisc"
  k_dequeue_head :: "'k Qdisc \<Rightarrow> nat option \<times> 'k Qdisc"
  k_reset_queue :: "'k Qdisc \<Rightarrow> 'k Qdisc \<times> nat list"

record 'k lbf_qdisc = lbf_sched_data +
  sch :: "'k Qdisc"
  skbs :: "nat \<rightharpoonup> sk_buff"
  watchdog_inited :: bool

definition skb_at :: "'k lbf_qdisc \<Rightarrow> nat \<Rightarrow> sk_buff res" where
  "skb_at s p = deref (skbs s) (Some p)"

definition skb_write :: "'k lbf_qdisc \<Rightarrow> nat \<Rightarrow> (sk_buff \<Rightarrow> sk_buff) \<Rightarrow> 'k lbf_qdisc res" where
  "skb_write s p f = rbind (skb_at s p) (\<lambda>b. Inr (s\<lparr>skbs := (skbs s)(p \<mapsto> f b)\<rparr>))"

section \<open>Which contract a packet carries\<close>

definition ETH_P_NEWIP :: u16 where "ETH_P_NEWIP = 0x88b6"

definition is_newip :: "sk_buff \<Rightarrow> bool res" where
  "is_newip b = rbind (ld16 (head_bytes b) (mac_header b + 12)) (\<lambda>pr. Inr (pr = htons ETH_P_NEWIP))"

text \<open>The pointer to the contract, or \<open>None\<close> where the code takes the packet to have none:
  \<open>newipoff->contract_offset != newipoff->payload_offset || newipoff->contract_offset != 0\<close>.\<close>

definition contract_at :: "sk_buff \<Rightarrow> nat option res" where
  "contract_at b =
     rbind (get_newip_offset (head_bytes b) (network_header b)) (\<lambda>off.
       Inr (if contract_offset off \<noteq> payload_offset off \<or> contract_offset off \<noteq> 0
            then Some (network_header b + unat (contract_offset off)) else None))"

text \<open>The type of the contract of a New IP packet, with its position.\<close>

definition contract_of :: "sk_buff \<Rightarrow> (nat \<times> u16) option res" where
  "contract_of b =
     rbind (is_newip b) (\<lambda>yes.
       if \<not> yes then Inr None
       else rbind (contract_at b) (\<lambda>c.
              (case c of
                 None \<Rightarrow> Inr None
               | Some i \<Rightarrow> rbind (ld16 (head_bytes b) i) (\<lambda>t. Inr (Some (i, t))))))"

section \<open>Enqueue\<close>

abbreviation NET_XMIT_SUCCESS :: int where "NET_XMIT_SUCCESS \<equiv> 0"

definition qstats_drop :: "'k kernel_ops \<Rightarrow> 'k lbf_qdisc \<Rightarrow> 'k lbf_qdisc" where
  "qstats_drop K s = s\<lparr>sch := k_qstats_drop K (sch s)\<rparr>"

text \<open>Storing an accepted packet: look the hnode up, add a pnode, count the packet.\<close>

definition lbf_store ::
  "'k kernel_ops \<Rightarrow> nat \<Rightarrow> u16 \<Rightarrow> u64 \<Rightarrow> u64 \<Rightarrow> u64 \<Rightarrow> 'k lbf_qdisc \<Rightarrow> (int \<times> 'k lbf_qdisc) out" where
  "lbf_store K skb lqbudget tmin tmax rcv s =
     obind (lbf_get_hnode s (uint lqbudget)) (\<lambda>(hnode, s).
       (case hnode of
          None \<Rightarrow> Some (Inr (1, s))
        | Some h \<Rightarrow>
            obind (pnode_queue_add s h skb tmin tmax rcv) (\<lambda>s.
              let q = k_backlog_inc K skb (sch s)
              in Some (Inr (NET_XMIT_SUCCESS, s\<lparr>sch := q\<lparr>qlen := qlen q + 1\<rparr>\<rparr>)))))"

text \<open>A packet with a Latency Based Forwarding contract at position \<open>i\<close> of its buffer.\<close>

definition enqueue_lbf ::
  "'k kernel_ops \<Rightarrow> u64 \<Rightarrow> nat \<Rightarrow> nat \<Rightarrow> 'k lbf_qdisc \<Rightarrow> nat list \<Rightarrow> (int \<times> 'k lbf_qdisc \<times> nat list) out" where
  "enqueue_lbf K now skb i s to_free =
     obind (Some (skb_at s skb)) (\<lambda>b.
     obind (Some (get_lbf (head_bytes b) i)) (\<lambda>c.
       let rcv = lbf_get_val b
       in if fib_tohops c = 0
          then Some (Inr (1, qstats_drop K s, k_to_free K skb to_free))
          else
            let plan = lbf_plan c
            in obind (Some (put_lbf (head_bytes b) i (b_contract plan))) (\<lambda>bytes.
                 let s = s\<lparr>skbs := (skbs s)(skb \<mapsto> b\<lparr>head_bytes := bytes\<rparr>),
                           vars := (vars s)\<lparr>hops_left := fib_tohops (b_contract plan)\<rparr>\<rparr>
                 in if b_early_discard plan
                    then Some (Inr (- 1, qstats_drop K s, to_free))
                    else
                      let curr_time = k_ticks2ns K now
                      in obind (lbf_store K skb (b_lqbudget plan)
                                  (abs_time curr_time (b_lqmin plan))
                                  (abs_time curr_time (b_lqmax plan)) rcv s) (\<lambda>(ret, s).
                           Some (Inr (ret, s, to_free))))))"

text \<open>\<open>now_set\<close> is the clock at \<open>lbf_set_enqueue_time\<close>, \<open>now\<close> the one at the computation of the
  departure times.\<close>

definition enqueue_tail ::
  "'k kernel_ops \<Rightarrow> nat \<Rightarrow> 'k lbf_qdisc \<Rightarrow> nat list \<Rightarrow> int \<times> 'k lbf_qdisc \<times> nat list" where
  "enqueue_tail K skb s to_free =
     (let (ret, q) = k_enqueue_tail K skb (sch s) in (ret, s\<lparr>sch := q\<rparr>, to_free))"

definition lbf_enqueue ::
  "'k kernel_ops \<Rightarrow> u64 \<Rightarrow> u64 \<Rightarrow> nat \<Rightarrow> 'k lbf_qdisc \<Rightarrow> nat list \<Rightarrow> (int \<times> 'k lbf_qdisc \<times> nat list) out" where
  "lbf_enqueue K now_set now skb s to_free =
     (if qlen (sch s) \<ge> limit (sch s)
      then
        let s = s\<lparr>stats := (stats s)\<lparr>stats_overlimit := stats_overlimit (stats s) + 1\<rparr>\<rparr>;
            (ret, q, to_free) = k_drop K skb (sch s) to_free
        in Some (Inr (ret, s\<lparr>sch := q\<rparr>, to_free))
      else
        obind (Some (skb_write s skb (lbf_set_enqueue_time now_set))) (\<lambda>s.
        obind (Some (skb_at s skb)) (\<lambda>b.
        obind (Some (contract_of b)) (\<lambda>c.
          (case c of
             None \<Rightarrow> Some (Inr (enqueue_tail K skb s to_free))
           | Some (i, t) \<Rightarrow>
               if t = htons 2 then enqueue_lbf K now skb i s to_free
               else Some (Inr (enqueue_tail K skb s to_free)))))))"

section \<open>Dequeue\<close>

text \<open>The clock readings of one call: at its start, in \<open>search_now_pnode\<close>, in
  \<open>search_next_pnode\<close>, and when the delay is accounted.\<close>

record clocks =
  t_curr :: u64
  t_now :: u64
  t_next :: u64
  t_stat :: u64

text \<open>Taking the packet out of a pnode and removing the pnode.\<close>

definition take_pnode :: "'k lbf_qdisc \<Rightarrow> nat \<Rightarrow> (nat option \<times> 'k lbf_qdisc) res" where
  "take_pnode s p =
     rbind (deref (pheap s) (Some p)) (\<lambda>n.
     rbind (p_write s (Some p) (realpkt_update (\<lambda>_. None))) (\<lambda>s.
     rbind (remove_pnode s p) (\<lambda>s. Inr (realpkt n, s))))"

text \<open>The first part: the pnode that the watchdog was armed for.\<close>

definition dequeue_next :: "'k kernel_ops \<Rightarrow> u64 \<Rightarrow> 'k lbf_qdisc \<Rightarrow> (nat option \<times> 'k lbf_qdisc) res" where
  "dequeue_next K curr_time s =
     (case next_pnode s of
        None \<Rightarrow> Inr (None, s)
      | Some p \<Rightarrow>
          rbind (deref (pheap s) (Some p)) (\<lambda>n.
            if expired curr_time s n
            then rbind (take_pnode (qstats_drop K s) p) (\<lambda>(_, s).
                   Inr (None, s\<lparr>next_pnode := None\<rparr>))
            else if tmin_nsec n > curr_time then Inr (None, s)
            else rbind (take_pnode s p) (\<lambda>(pkt, s). Inr (pkt, s\<lparr>next_pnode := None\<rparr>))))"

text \<open>The second part: a pnode that may leave now; its packet replaces the one taken before.\<close>

definition dequeue_now ::
  "u64 \<Rightarrow> nat option \<Rightarrow> 'k lbf_qdisc \<Rightarrow> (nat option \<times> 'k lbf_qdisc) out" where
  "dequeue_now curr_time skb s =
     obind (search_now_pnode curr_time s) (\<lambda>(f, s).
       (case f of
          None \<Rightarrow> Some (Inr (skb, s))
        | Some p \<Rightarrow> Some (take_pnode s p)))"

text \<open>The third part: arm the watchdog for the pnode with the smallest earliest time.\<close>

definition dequeue_sched :: "u64 \<Rightarrow> 'k lbf_qdisc \<Rightarrow> 'k lbf_qdisc out" where
  "dequeue_sched curr_time s =
     obind (search_next_pnode curr_time s) (\<lambda>(f, s).
       if f \<noteq> None \<and> f \<noteq> next_pnode s
       then obind (Some (deref (pheap s) f)) (\<lambda>n.
              Some (Inr (s\<lparr>next_pnode := f, watchdog := Some (tmin_nsec n)\<rparr>)))
       else Some (Inr s))"

text \<open>The fourth part, for a packet of the store: account its delay in microseconds and add it
  to the experienced delay of its contract, in units of 100 microseconds.\<close>

definition dequeue_account ::
  "'k kernel_ops \<Rightarrow> u64 \<Rightarrow> nat \<Rightarrow> 'k lbf_qdisc \<Rightarrow> 'k lbf_qdisc res" where
  "dequeue_account K now skb s =
     rbind (skb_at s skb) (\<lambda>b.
       let d = k_ticks2ns K (now - lbf_get_enqueue_time b) div NSEC_PER_USEC;
           s = s\<lparr>stats := (stats s)\<lparr>stats_delay := d\<rparr>\<rparr>
       in rbind (contract_at b) (\<lambda>c.
            (case c of
               None \<Rightarrow> Inr s
             | Some i \<Rightarrow>
                 rbind (ld16 (head_bytes b) (i + 6)) (\<lambda>e.
                 rbind (st16 (head_bytes b) (i + 6) (htons (ucast (ucast (ntohs e) + d div 100)))) (\<lambda>bytes.
                   Inr (s\<lparr>skbs := (skbs s)(skb \<mapsto> b\<lparr>head_bytes := bytes\<rparr>)\<rparr>))))))"

text \<open>\<open>skb->next = NULL\<close> clears the link that the kernel's lists use; the lists are in \<open>kern\<close>.\<close>

definition dequeue_done :: "'k kernel_ops \<Rightarrow> nat \<Rightarrow> 'k lbf_qdisc \<Rightarrow> 'k lbf_qdisc" where
  "dequeue_done K skb s =
     (let q = k_bstats_update K skb (k_backlog_dec K skb (sch s))
      in s\<lparr>sch := q\<lparr>qlen := qlen q - 1\<rparr>\<rparr>)"

text \<open>The last part: the FIFO, with the check of the Max Delay Forwarding contract. The delay is
  in ticks here.\<close>

definition mdf_check ::
  "'k kernel_ops \<Rightarrow> nat \<Rightarrow> nat \<Rightarrow> sk_buff \<Rightarrow> u64 \<Rightarrow> 'k lbf_qdisc \<Rightarrow> (nat option \<times> 'k lbf_qdisc) res" where
  "mdf_check K skb i b d s =
     rbind (get_mdf (head_bytes b) i) (\<lambda>mdf.
       let allowed = ntohs (max_allowed_delay mdf);
           exp = ntohs (delay_exp mdf)
       in if ucast exp + d > ucast allowed
          then Inr (None, qstats_drop K (s\<lparr>skbs := (skbs s)(skb := None)\<rparr>))
          else rbind (st16 (head_bytes b) (i + 4) (htons (ucast (ucast exp + d)))) (\<lambda>bytes.
                 Inr (Some skb, s\<lparr>skbs := (skbs s)(skb \<mapsto> b\<lparr>head_bytes := bytes\<rparr>)\<rparr>)))"

definition dequeue_fifo ::
  "'k kernel_ops \<Rightarrow> u64 \<Rightarrow> 'k lbf_qdisc \<Rightarrow> (nat option \<times> 'k lbf_qdisc) res" where
  "dequeue_fifo K now s =
     (case k_dequeue_head K (sch s) of
        (None, q) \<Rightarrow> Inr (None, s\<lparr>sch := q\<rparr>)
      | (Some skb, q) \<Rightarrow>
          let s = s\<lparr>sch := q\<rparr>
          in rbind (skb_at s skb) (\<lambda>b.
               let d = now - lbf_get_enqueue_time b;
                   s = s\<lparr>stats := (stats s)\<lparr>stats_delay := d\<rparr>\<rparr>
               in rbind (contract_of b) (\<lambda>c.
                    (case c of
                       None \<Rightarrow> Inr (Some skb, s)
                     | Some (i, t) \<Rightarrow>
                         if t = htons 1 then mdf_check K skb i b d s else Inr (Some skb, s)))))"

text \<open>The three parts that work on the store, and the whole function.\<close>

definition dequeue_store ::
  "'k kernel_ops \<Rightarrow> clocks \<Rightarrow> 'k lbf_qdisc \<Rightarrow> (nat option \<times> 'k lbf_qdisc) out" where
  "dequeue_store K t s =
     obind (Some (dequeue_next K (k_ticks2ns K (t_curr t)) s)) (\<lambda>(skb, s).
     obind (dequeue_now (k_ticks2ns K (t_now t)) skb s) (\<lambda>(skb, s).
     obind (dequeue_sched (k_ticks2ns K (t_next t)) s) (\<lambda>s. Some (Inr (skb, s)))))"

definition lbf_dequeue :: "'k kernel_ops \<Rightarrow> clocks \<Rightarrow> 'k lbf_qdisc \<Rightarrow> (nat option \<times> 'k lbf_qdisc) out" where
  "lbf_dequeue K t s =
     obind (dequeue_store K t s) (\<lambda>(skb, s).
       (case skb of
          Some p \<Rightarrow>
            obind (Some (dequeue_account K (t_stat t) p s)) (\<lambda>s.
              Some (Inr (Some p, dequeue_done K p s)))
        | None \<Rightarrow> Some (dequeue_fifo K (t_stat t) s)))"

text \<open>\<open>qdisc_peek_dequeued\<close> is the kernel's: it is given the \<open>dequeue\<close> callback.\<close>

definition lbf_peek ::
  "(('k lbf_qdisc \<Rightarrow> (nat option \<times> 'k lbf_qdisc) out) \<Rightarrow> 'k lbf_qdisc \<Rightarrow> 'r) \<Rightarrow>
     'k kernel_ops \<Rightarrow> clocks \<Rightarrow> 'k lbf_qdisc \<Rightarrow> 'r" where
  "lbf_peek qdisc_peek_dequeued K t s = qdisc_peek_dequeued (lbf_dequeue K t) s"

section \<open>Configuration, reset, statistics\<close>

text \<open>The netlink functions: parse the nested options into a table, read an attribute, and
  write attributes into a message.\<close>

record ('o, 'a, 'm) netlink_ops =
  n_parse_nested :: "nat \<Rightarrow> 'o \<Rightarrow> int \<times> (nat \<Rightarrow> 'a option)"
  n_get_u32 :: "'a \<Rightarrow> u32"
  n_nest_start :: "'m \<Rightarrow> nat \<Rightarrow> 'm option"
  n_put_u32 :: "'m \<Rightarrow> nat \<Rightarrow> u32 \<Rightarrow> 'm option"
  n_nest_end :: "'m \<Rightarrow> int \<times> 'm"
  n_nest_cancel :: "'m \<Rightarrow> 'm"

abbreviation TCA_LBF_LIMIT :: nat where "TCA_LBF_LIMIT \<equiv> 1"
abbreviation TCA_LBF_MAX :: nat where "TCA_LBF_MAX \<equiv> 1"
abbreviation TCA_OPTIONS :: nat where "TCA_OPTIONS \<equiv> 2"
abbreviation EINVAL :: int where "EINVAL \<equiv> 22"
abbreviation EMSGSIZE :: int where "EMSGSIZE \<equiv> 90"

definition lbf_change ::
  "('o, 'a, 'm) netlink_ops \<Rightarrow> 'o option \<Rightarrow> 'k lbf_qdisc \<Rightarrow> int \<times> 'k lbf_qdisc" where
  "lbf_change N opt s =
     (case opt of
        None \<Rightarrow> (- EINVAL, s)
      | Some o' \<Rightarrow>
          let (err, tb) = n_parse_nested N TCA_LBF_MAX o'
          in if err < 0 then (err, s)
             else (case tb TCA_LBF_LIMIT of
                     None \<Rightarrow> (0, s)
                   | Some a \<Rightarrow> (0, s\<lparr>sch := (sch s)\<lparr>limit := n_get_u32 N a\<rparr>\<rparr>)))"

text \<open>\<open>PSCHED_PASTPERFECT\<close> is 0; \<open>lbf_params_init\<close> and \<open>lbf_vars_init\<close> do nothing.\<close>

definition lbf_stats_init :: "lbf_stats \<Rightarrow> lbf_stats" where
  "lbf_stats_init st = st\<lparr>stats_delay := 0, stats_overlimit := 0\<rparr>"

definition lbf_init ::
  "('o, 'a, 'm) netlink_ops \<Rightarrow> 'o option \<Rightarrow> 'k lbf_qdisc \<Rightarrow> int \<times> 'k lbf_qdisc" where
  "lbf_init N opt s =
     lbf_change N opt
       (s\<lparr>hnode_list := None, next_pnode := None, stats := lbf_stats_init (stats s),
          watchdog := None, sch := (sch s)\<lparr>limit := 1000\<rparr>, watchdog_inited := True\<rparr>)"

definition watchdog_cancel :: "'k lbf_qdisc \<Rightarrow> 'k lbf_qdisc" where
  "watchdog_cancel s = (if watchdog_inited s then s\<lparr>watchdog := None\<rparr> else s)"

text \<open>\<open>qdisc_reset_queue\<close> frees the buffers of the FIFO.\<close>

definition lbf_reset :: "'k kernel_ops \<Rightarrow> 'k lbf_qdisc \<Rightarrow> 'k lbf_qdisc" where
  "lbf_reset K s =
     (let s = watchdog_cancel s;
          (q, freed) = k_reset_queue K (sch s)
      in s\<lparr>sch := q, skbs := skbs s |` (- set freed)\<rparr>)"

definition lbf_destroy :: "'k lbf_qdisc \<Rightarrow> 'k lbf_qdisc" where
  "lbf_destroy s = watchdog_cancel s"

definition lbf_dump :: "('o, 'a, 'm) netlink_ops \<Rightarrow> 'm \<Rightarrow> 'k lbf_qdisc \<Rightarrow> int \<times> 'm" where
  "lbf_dump N msg s =
     (case n_nest_start N msg TCA_OPTIONS of
        None \<Rightarrow> (- EMSGSIZE, msg)
      | Some opts \<Rightarrow>
          (case n_put_u32 N opts TCA_LBF_LIMIT (limit (sch s)) of
             None \<Rightarrow> (- EMSGSIZE, n_nest_cancel N opts)
           | Some msg \<Rightarrow> n_nest_end N msg))"

record tc_lbf_xstats =
  xstats_delay :: u32
  xstats_overlimit :: u32

definition lbf_dump_stats ::
  "'k kernel_ops \<Rightarrow> (tc_lbf_xstats \<Rightarrow> 'd \<Rightarrow> int \<times> 'd) \<Rightarrow> 'd \<Rightarrow> 'k lbf_qdisc \<Rightarrow> int \<times> 'd" where
  "lbf_dump_stats K gnet_stats_copy_app d s =
     gnet_stats_copy_app
       \<lparr>xstats_delay = ucast (k_ticks2ns K (stats_delay (stats s)) div NSEC_PER_USEC),
        xstats_overlimit = stats_overlimit (stats s)\<rparr> d"

end
