(* ===== verification/Lbf_Dequeue.thy ===== *)
theory Lbf_Dequeue
  imports Lbf_Qdisc Lbf_Search
begin

text \<open>
  What \<open>lbf_dequeue\<close> does to the abstract store: the first three parts of the function are
  refined to operations on lists of buckets, \<open>abs_next\<close>, \<open>abs_now\<close> and \<open>abs_sched\<close>, and the
  properties of the order and the times of departure are proved on them.
\<close>

section \<open>Taking the first entry of a queue\<close>

fun abs_take :: "nat \<Rightarrow> bucket list \<Rightarrow> ent option \<times> bucket list" where
  "abs_take p [] = (None, [])"
| "abs_take p (b # B) =
     (if first_ent (b_ents b) None = Some p then (Some (hd (b_ents b)), b\<lparr>b_ents := tl (b_ents b)\<rparr> # B)
      else let (e, B') = abs_take p B in (e, b # B'))"

lemma abs_take_head:
  assumes "distinct (map e_addr (all_ents (A @ b # B)))" "b_ents b = e # es"
  shows "abs_take (e_addr e) (A @ b # B) = (Some e, A @ b\<lparr>b_ents := es\<rparr> # B)"
  using assms
proof (induction A)
  case (Cons a A)
  then have "first_ent (b_ents a) None \<noteq> Some (e_addr e)"
    by (cases "b_ents a") auto
  with Cons show ?case by simp
qed simp

lemma store_repr_pkt:
  assumes R: "store_repr s (A @ b # B)" and es: "b_ents b = e # es"
  shows "\<exists>s'. p_write s (Some (e_addr e)) (realpkt_update f) = Inr s' \<and> store_only s s' \<and>
           store_repr s' (A @ b\<lparr>b_ents := e\<lparr>e_pkt := f (e_pkt e)\<rparr> # es\<rparr> # B)"
proof -
  let ?n = "pnode_of (first_ent es None) (Some (b_addr b)) (e\<lparr>e_pkt := f (e_pkt e)\<rparr>)"
  let ?s' = "s\<lparr>pheap := (pheap s)(e_addr e \<mapsto> ?n)\<rparr>"
  have ps: "pheap s (e_addr e) = Some (pnode_of (first_ent es None) (Some (b_addr b)) e)"
      "pseg (pheap s) None es None"
    using store_reprD(3) [OF R, of b] by (simp_all add: es)
  have ds: "e_addr e \<notin> e_addr ` set es" "distinct (map e_addr es)"
    using store_reprD(5) [OF R] by (simp_all add: es)
  have hn: "hheap s (b_addr b) = Some (hnode_of (first_bucket B None) b)"
    using store_reprD(2) [OF R] by (simp add: hseg_append)
  have sub: "e_addr ` set (b_ents b) \<subseteq> dom (pheap s)"
    using store_reprD(7) [OF R] by auto
  show ?thesis
  proof (intro exI conjI)
    show "p_write s (Some (e_addr e)) (realpkt_update f) = Inr ?s'" using ps by simp
    show "store_only s ?s'" by (cases s) (simp add: store_only_def)
    show "store_repr ?s' (A @ b\<lparr>b_ents := e\<lparr>e_pkt := f (e_pkt e)\<rparr> # es\<rparr> # B)"
    proof (rule store_repr_replace [OF R])
      show "hheap ?s' = (hheap s)(b_addr b \<mapsto> hnode_of (first_bucket B None)
          (b\<lparr>b_ents := e\<lparr>e_pkt := f (e_pkt e)\<rparr> # es\<rparr>))"
        using hn by (auto simp: fun_upd_idem_iff hnode_of_def es)
      show "\<forall>x\<in>e_addr ` set (e\<lparr>e_pkt := f (e_pkt e)\<rparr> # es). x < brk ?s'"
        using sub store_repr_brk(2) [OF R] by (auto simp: es)
    qed (use ps ds sub in \<open>auto simp: es\<close>)
  qed
qed

lemma take_pnode_refines:
  assumes R: "store_repr s (A @ b # B)" and es: "b_ents b = e # es"
  shows "\<exists>s'. take_pnode s (e_addr e) = Inr (e_pkt e, s') \<and> store_only s s' \<and>
           store_repr s' (A @ b\<lparr>b_ents := es\<rparr> # B)"
proof -
  let ?e = "e\<lparr>e_pkt := None\<rparr>"
  have ps: "pheap s (e_addr e) = Some (pnode_of (first_ent es None) (Some (b_addr b)) e)"
    using store_reprD(3) [OF R, of b] by (simp add: es)
  obtain s1 where s1: "p_write s (Some (e_addr e)) (realpkt_update (\<lambda>_. None)) = Inr s1"
      "store_only s s1" "store_repr s1 (A @ b\<lparr>b_ents := ?e # es\<rparr> # B)"
    using store_repr_pkt [OF R es, of "\<lambda>_. None"] by blast
  obtain s2 where s2: "remove_pnode s1 (e_addr ?e) = Inr s2" "store_only s1 s2"
      "store_repr s2 (A @ b\<lparr>b_ents := ?e # es\<rparr>\<lparr>b_ents := es\<rparr> # B)"
    using remove_pnode_refines [OF s1(3), of ?e es] by auto
  have "take_pnode s (e_addr e) = Inr (e_pkt e, s2)"
    using ps s1(1) s2(1) unfolding take_pnode_def by simp
  with s2(3) store_only_trans [OF s1(2) s2(2)] show ?thesis by auto
qed

section \<open>The abstract dequeue\<close>

text \<open>The pnode that \<open>next_pnode\<close> points to is the first of its queue.\<close>

definition next_ok :: "nat option \<Rightarrow> bucket list \<Rightarrow> bool" where
  "next_ok nxt Q \<longleftrightarrow> (\<forall>p. nxt = Some p \<longrightarrow> p \<in> e_addr ` set (heads Q))"

definition abs_next ::
  "u64 \<Rightarrow> u16 \<Rightarrow> nat option \<Rightarrow> bucket list \<Rightarrow> ent option \<times> nat option \<times> bucket list" where
  "abs_next now hl nxt Q =
     (case nxt of
        None \<Rightarrow> (None, None, Q)
      | Some p \<Rightarrow>
          (case abs_take p Q of
             (None, _) \<Rightarrow> (None, nxt, Q)
           | (Some e, Q') \<Rightarrow>
               if dead now hl e then (None, None, Q')
               else if ripe now e then (Some e, None, Q') else (None, nxt, Q)))"

definition abs_now ::
  "u64 \<Rightarrow> u16 \<Rightarrow> ent option \<Rightarrow> bucket list \<Rightarrow> ent option \<times> bucket list" where
  "abs_now now hl r Q =
     (case now_scan now hl Q of
        (None, Q') \<Rightarrow> (r, Q')
      | (Some p, Q') \<Rightarrow> abs_take p Q')"

definition abs_sched :: "u64 \<Rightarrow> u16 \<Rightarrow> nat option \<Rightarrow> bucket list \<Rightarrow> nat option \<times> bucket list" where
  "abs_sched now hl nxt Q =
     (case next_scan now hl (- 1) None Q of (f, Q') \<Rightarrow> (if f = None then nxt else f, Q'))"

definition abs_dequeue ::
  "u64 \<Rightarrow> u64 \<Rightarrow> u64 \<Rightarrow> u16 \<Rightarrow> nat option \<Rightarrow> bucket list \<Rightarrow> ent option \<times> nat option \<times> bucket list" where
  "abs_dequeue tc tn tx hl nxt Q =
     (let (r, nxt, Q) = abs_next tc hl nxt Q;
          (r, Q) = abs_now tn hl r Q;
          (nxt, Q) = abs_sched tx hl nxt Q
      in (r, nxt, Q))"

section \<open>The refinement of the three parts\<close>

text \<open>What the parts leave unchanged: everything but the store, \<open>next_pnode\<close>, the watchdog and
  the drop counter.\<close>

definition deq_only :: "'k lbf_qdisc \<Rightarrow> 'k lbf_qdisc \<Rightarrow> bool" where
  "deq_only s s' \<longleftrightarrow> vars s' = vars s \<and> stats s' = stats s \<and> skbs s' = skbs s \<and>
     watchdog_inited s' = watchdog_inited s"

lemma deq_only_refl [simp, intro]: "deq_only s s"
  by (simp add: deq_only_def)

lemma deq_only_trans: "deq_only s s' \<Longrightarrow> deq_only s' s'' \<Longrightarrow> deq_only s s''"
  by (simp add: deq_only_def)

lemma store_only_deq_only: "store_only s s' \<Longrightarrow> deq_only s s'"
  using store_only_fields [of s s'] by (cases s; cases s') (auto simp: deq_only_def store_only_def)

lemma store_only_sch: "store_only s s' \<Longrightarrow> sch s' = sch s"
  by (cases s; cases s') (auto simp: store_only_def)

lemma store_repr_cong:
  "store_repr s Q \<Longrightarrow> pheap s' = pheap s \<Longrightarrow> hheap s' = hheap s \<Longrightarrow> brk s' = brk s \<Longrightarrow>
   hnode_list s' = hnode_list s \<Longrightarrow> store_repr s' Q"
  by (simp add: store_repr_def)

lemma next_okE:
  assumes "next_ok (Some p) Q"
  obtains A b B e es where "Q = A @ b # B" "b_ents b = e # es" "p = e_addr e"
  using assms by (auto simp: next_ok_def mem_heads)

lemma store_repr_distinct: "store_repr s Q \<Longrightarrow> distinct (map e_addr (all_ents Q))"
  using store_reprD(5) .

lemma dequeue_next_refines:
  assumes R: "store_repr s Q" and ok: "next_ok (next_pnode s) Q"
    and abs: "abs_next now (hops_left (vars s)) (next_pnode s) Q = (r, nxt, Q')"
  shows "\<exists>s'. dequeue_next K now s = Inr (Option.bind r e_pkt, s') \<and> store_repr s' Q' \<and>
           next_pnode s' = nxt \<and> watchdog s' = watchdog s \<and> deq_only s s' \<and>
           sch s' \<in> {sch s, k_qstats_drop K (sch s)}"
proof (cases "next_pnode s")
  case None
  then show ?thesis using R abs by (auto simp: dequeue_next_def abs_next_def)
next
  case (Some p)
  obtain A b B e es where Q: "Q = A @ b # B" "b_ents b = e # es" "p = e_addr e"
    using ok unfolding Some by (rule next_okE)
  have R': "store_repr s (A @ b # B)" using R Q by simp
  have ps: "pheap s p = Some (pnode_of (first_ent es None) (Some (b_addr b)) e)"
    using store_reprD(3) [OF R', of b] by (simp add: Q)
  have take: "abs_take p Q = (Some e, A @ b\<lparr>b_ents := es\<rparr> # B)"
    using abs_take_head store_repr_distinct [OF R'] Q by simp
  consider (dead) "dead now (hops_left (vars s)) e"
    | (early) "\<not> dead now (hops_left (vars s)) e" "\<not> ripe now e"
    | (ripe) "\<not> dead now (hops_left (vars s)) e" "ripe now e" by blast
  then show ?thesis
  proof cases
    case dead
    let ?s = "qstats_drop K s"
    have "store_repr ?s (A @ b # B)" using R' by (simp add: qstats_drop_def store_repr_def)
    from take_pnode_refines [OF this Q(2)] obtain s1 where s1:
      "take_pnode ?s p = Inr (e_pkt e, s1)" "store_only ?s s1" "store_repr s1 (A @ b\<lparr>b_ents := es\<rparr> # B)"
      using Q(3) by blast
    have "dequeue_next K now s = Inr (None, s1\<lparr>next_pnode := None\<rparr>)"
      using dead ps s1(1) by (simp add: dequeue_next_def Some)
    moreover have "r = None" "nxt = None" "Q' = A @ b\<lparr>b_ents := es\<rparr> # B"
      using abs dead take by (auto simp: abs_next_def Some)
    moreover have "deq_only s (s1\<lparr>next_pnode := None\<rparr>)" "sch s1 = k_qstats_drop K (sch s)"
      "watchdog s1 = watchdog s"
      using store_only_deq_only [OF s1(2)] store_only_sch [OF s1(2)] store_only_fields [OF s1(2)]
      by (auto simp: deq_only_def qstats_drop_def)
    moreover have "store_repr (s1\<lparr>next_pnode := None\<rparr>) (A @ b\<lparr>b_ents := es\<rparr> # B)"
      using s1(3) by (rule store_repr_cong) simp_all
    ultimately show ?thesis by auto
  next
    case early
    then have "r = None" "nxt = Some p" "Q' = Q"
      using abs take by (auto simp: abs_next_def Some)
    moreover have "dequeue_next K now s = Inr (None, s)"
      using early ps by (simp add: dequeue_next_def Some ripe_def not_le)
    ultimately show ?thesis using R Some by auto
  next
    case ripe
    from take_pnode_refines [OF R' Q(2)] obtain s1 where s1:
      "take_pnode s p = Inr (e_pkt e, s1)" "store_only s s1" "store_repr s1 (A @ b\<lparr>b_ents := es\<rparr> # B)"
      using Q(3) by blast
    have "dequeue_next K now s = Inr (e_pkt e, s1\<lparr>next_pnode := None\<rparr>)"
      using ripe ps s1(1) by (simp add: dequeue_next_def Some ripe_def leD)
    moreover have "r = Some e" "nxt = None" "Q' = A @ b\<lparr>b_ents := es\<rparr> # B"
      using abs ripe take by (auto simp: abs_next_def Some)
    moreover have "deq_only s (s1\<lparr>next_pnode := None\<rparr>)" "sch s1 = sch s"
      "watchdog s1 = watchdog s"
      using store_only_deq_only [OF s1(2)] store_only_sch [OF s1(2)] store_only_fields [OF s1(2)]
      by (auto simp: deq_only_def)
    moreover have "store_repr (s1\<lparr>next_pnode := None\<rparr>) (A @ b\<lparr>b_ents := es\<rparr> # B)"
      using s1(3) by (rule store_repr_cong) simp_all
    ultimately show ?thesis by auto
  qed
qed

lemma dequeue_now_refines:
  assumes R: "store_repr s Q" and abs: "abs_now now (hops_left (vars s)) r Q = (r', Q')"
  shows "\<exists>s'. dequeue_now now (Option.bind r e_pkt) s = Some (Inr (Option.bind r' e_pkt, s')) \<and>
           store_repr s' Q' \<and> store_only s s'"
proof -
  obtain f Q1 where scan: "now_scan now (hops_left (vars s)) Q = (f, Q1)" by fastforce
  obtain s1 where s1: "search_now_pnode now s = Some (Inr (f, s1))" "store_only s s1" "store_repr s1 Q1"
    using search_now_refines [OF R scan] by blast
  show ?thesis
  proof (cases f)
    case None
    then show ?thesis using abs scan s1 by (auto simp: abs_now_def dequeue_now_def)
  next
    case (Some p)
    obtain A b B e es where Q1: "Q1 = A @ b # B" "b_ents b = e # es" "e_addr e = p"
      using now_scan_Some scan Some by blast
    obtain s2 where s2: "take_pnode s1 (e_addr e) = Inr (e_pkt e, s2)" "store_only s1 s2"
      "store_repr s2 (A @ b\<lparr>b_ents := es\<rparr> # B)"
      using take_pnode_refines s1(3) Q1 by blast
    have "distinct (map e_addr (all_ents (A @ b # B)))"
      using store_repr_distinct [OF s1(3)] Q1(1) by simp
    from abs_take_head [OF this Q1(2)]
    have "abs_take p Q1 = (Some e, A @ b\<lparr>b_ents := es\<rparr> # B)" using Q1 by simp
    then show ?thesis
      using abs scan Some s1(1) s2 Q1(3) store_only_trans [OF s1(2) s2(2)]
      by (auto simp: abs_now_def dequeue_now_def)
  qed
qed

lemma dequeue_sched_refines:
  assumes R: "store_repr s Q"
    and abs: "abs_sched now (hops_left (vars s)) (next_pnode s) Q = (nxt, Q')"
  shows "\<exists>s'. dequeue_sched now s = Some (Inr s') \<and> store_repr s' Q' \<and> next_pnode s' = nxt \<and>
           deq_only s s' \<and> sch s' = sch s \<and>
           (nxt \<noteq> next_pnode s \<longrightarrow>
              (\<exists>e \<in> set (heads Q'). nxt = Some (e_addr e) \<and> watchdog s' = Some (e_tmin e)))"
proof -
  obtain f Q1 where scan: "next_scan now (hops_left (vars s)) (- 1) None Q = (f, Q1)" by fastforce
  obtain s1 where s1: "search_next_pnode now s = Some (Inr (f, s1))" "store_only s s1" "store_repr s1 Q1"
    using search_next_refines [OF R scan] by blast
  note fields = store_only_fields [OF s1(2)] store_only_sch [OF s1(2)] store_only_deq_only [OF s1(2)]
  have Q': "Q' = Q1" "nxt = (if f = None then next_pnode s else f)"
    using abs scan by (auto simp: abs_sched_def)
  show ?thesis
  proof (cases "f \<noteq> None \<and> f \<noteq> next_pnode s")
    case False
    then have "dequeue_sched now s = Some (Inr s1)" using s1(1) fields by (auto simp: dequeue_sched_def)
    with False Q' s1(3) fields show ?thesis by auto
  next
    case True
    then obtain e where e: "e \<in> set (heads Q1)" "f = Some (e_addr e)"
      using next_scan_found [OF scan] by (auto simp: next_found_def)
    then obtain A b B es where Q1: "Q1 = A @ b # B" "b_ents b = e # es" by (auto simp: mem_heads)
    let ?s' = "s1\<lparr>next_pnode := f, watchdog := Some (e_tmin e)\<rparr>"
    have "pheap s1 (e_addr e) = Some (pnode_of (first_ent es None) (Some (b_addr b)) e)"
      using store_reprD(3) [OF s1(3), of b] by (simp add: Q1)
    then have "dequeue_sched now s = Some (Inr ?s')"
      using s1(1) True e(2) fields by (simp add: dequeue_sched_def)
    moreover have "store_repr ?s' Q'" using s1(3) unfolding Q'(1) by (rule store_repr_cong) simp_all
    moreover have "deq_only s ?s'" using fields by (simp add: deq_only_def)
    ultimately show ?thesis using True e Q' fields by auto
  qed
qed

end
