(* ===== verification/Lbf_Invariant.thy ===== *)
theory Lbf_Invariant
  imports Lbf_Dequeue "HOL-Library.Multiset"
begin

text \<open>
  The invariant of the queue discipline and what \<open>lbf_enqueue\<close> does to it. The kernel's functions
  are assumed to do what they are documented to do: \<open>kernel_laws\<close>, over the list \<open>fifo\<close> of the
  buffers that the kernel's queue holds.
\<close>

section \<open>What the kernel's functions do\<close>

definition same_queue :: "('k \<Rightarrow> nat list) \<Rightarrow> 'k Qdisc \<Rightarrow> 'k Qdisc \<Rightarrow> bool" where
  "same_queue fifo q q' \<longleftrightarrow>
     limit q' = limit q \<and> qlen q' = qlen q \<and> fifo (kern q') = fifo (kern q)"

definition kernel_laws :: "'k kernel_ops \<Rightarrow> ('k \<Rightarrow> nat list) \<Rightarrow> bool" where
  "kernel_laws K fifo \<longleftrightarrow>
     (\<forall>q. same_queue fifo q (k_qstats_drop K q)) \<and>
     (\<forall>p q. same_queue fifo q (k_backlog_inc K p q)) \<and>
     (\<forall>p q. same_queue fifo q (k_backlog_dec K p q)) \<and>
     (\<forall>p q. same_queue fifo q (k_bstats_update K p q)) \<and>
     (\<forall>p q f. case k_drop K p q f of (ret, q', f') \<Rightarrow>
        ret = 1 \<and> same_queue fifo q q' \<and> set f' = insert p (set f)) \<and>
     (\<forall>p f. set (k_to_free K p f) = insert p (set f)) \<and>
     (\<forall>p q. case k_enqueue_tail K p q of (ret, q') \<Rightarrow>
        ret = NET_XMIT_SUCCESS \<and> fifo (kern q') = fifo (kern q) @ [p] \<and>
        qlen q' = qlen q + 1 \<and> limit q' = limit q) \<and>
     (\<forall>q. case k_dequeue_head K q of
        (None, q') \<Rightarrow> fifo (kern q) = [] \<and> same_queue fifo q q'
      | (Some p, q') \<Rightarrow> fifo (kern q) = p # fifo (kern q') \<and> qlen q' = qlen q - 1 \<and>
          limit q' = limit q) \<and>
     (\<forall>q. case k_reset_queue K q of (q', freed) \<Rightarrow>
        fifo (kern q') = [] \<and> qlen q' = 0 \<and> limit q' = limit q \<and> set freed = set (fifo (kern q)))"

lemma kernel_lawsD:
  assumes "kernel_laws K fifo"
  shows "same_queue fifo q (k_qstats_drop K q)" "same_queue fifo q (k_backlog_inc K p q)"
    "same_queue fifo q (k_backlog_dec K p q)" "same_queue fifo q (k_bstats_update K p q)"
    "k_drop K p q f = (ret, q', f') \<Longrightarrow> ret = 1 \<and> same_queue fifo q q' \<and> set f' = insert p (set f)"
    "set (k_to_free K p f) = insert p (set f)"
    "k_enqueue_tail K p q = (ret, q') \<Longrightarrow> ret = NET_XMIT_SUCCESS \<and>
       fifo (kern q') = fifo (kern q) @ [p] \<and> qlen q' = qlen q + 1 \<and> limit q' = limit q"
    "k_dequeue_head K q = (None, q') \<Longrightarrow> fifo (kern q) = [] \<and> same_queue fifo q q'"
    "k_dequeue_head K q = (Some p, q') \<Longrightarrow>
       fifo (kern q) = p # fifo (kern q') \<and> qlen q' = qlen q - 1 \<and> limit q' = limit q"
    "k_reset_queue K q = (q', freed) \<Longrightarrow>
       fifo (kern q') = [] \<and> qlen q' = 0 \<and> limit q' = limit q \<and> set freed = set (fifo (kern q))"
proof -
  note K1 = assms [unfolded kernel_laws_def]
  note K2 = K1 [THEN conjunct2] note K3 = K2 [THEN conjunct2] note K4 = K3 [THEN conjunct2]
  note K5 = K4 [THEN conjunct2] note K6 = K5 [THEN conjunct2] note K7 = K6 [THEN conjunct2]
  note K8 = K7 [THEN conjunct2] note K9 = K8 [THEN conjunct2]
  show "same_queue fifo q (k_qstats_drop K q)" "same_queue fifo q (k_backlog_inc K p q)"
    "same_queue fifo q (k_backlog_dec K p q)" "same_queue fifo q (k_bstats_update K p q)"
    "set (k_to_free K p f) = insert p (set f)"
    using K1 [THEN conjunct1] K2 [THEN conjunct1] K3 [THEN conjunct1] K4 [THEN conjunct1]
      K6 [THEN conjunct1] by simp_all
  have "case k_drop K p q f of (ret, q', f') \<Rightarrow> ret = 1 \<and> same_queue fifo q q' \<and> set f' = insert p (set f)"
    by (rule K5 [THEN conjunct1, rule_format])
  then show "k_drop K p q f = (ret, q', f') \<Longrightarrow> ret = 1 \<and> same_queue fifo q q' \<and> set f' = insert p (set f)"
    by simp
  have "case k_enqueue_tail K p q of (ret, q') \<Rightarrow> ret = NET_XMIT_SUCCESS \<and>
      fifo (kern q') = fifo (kern q) @ [p] \<and> qlen q' = qlen q + 1 \<and> limit q' = limit q"
    by (rule K7 [THEN conjunct1, rule_format])
  then show "k_enqueue_tail K p q = (ret, q') \<Longrightarrow> ret = NET_XMIT_SUCCESS \<and>
      fifo (kern q') = fifo (kern q) @ [p] \<and> qlen q' = qlen q + 1 \<and> limit q' = limit q"
    by simp
  have deq: "case k_dequeue_head K q of
        (None, q') \<Rightarrow> fifo (kern q) = [] \<and> same_queue fifo q q'
      | (Some p, q') \<Rightarrow> fifo (kern q) = p # fifo (kern q') \<and> qlen q' = qlen q - 1 \<and> limit q' = limit q"
    by (rule K8 [THEN conjunct1, rule_format])
  then show "k_dequeue_head K q = (None, q') \<Longrightarrow> fifo (kern q) = [] \<and> same_queue fifo q q'"
    by simp
  from deq show "k_dequeue_head K q = (Some p, q') \<Longrightarrow>
      fifo (kern q) = p # fifo (kern q') \<and> qlen q' = qlen q - 1 \<and> limit q' = limit q"
    by simp
  have "case k_reset_queue K q of (q', freed) \<Rightarrow>
        fifo (kern q') = [] \<and> qlen q' = 0 \<and> limit q' = limit q \<and> set freed = set (fifo (kern q))"
    by (rule K9 [rule_format])
  then show "k_reset_queue K q = (q', freed) \<Longrightarrow>
      fifo (kern q') = [] \<and> qlen q' = 0 \<and> limit q' = limit q \<and> set freed = set (fifo (kern q))"
    by simp
qed

text \<open>A kernel that satisfies the laws: the queue is a list, nothing is counted.\<close>

definition sample_kernel :: "nat list kernel_ops" where
  "sample_kernel =
     \<lparr>k_ticks2ns = (\<lambda>t. t * 64),
      k_drop = (\<lambda>p q f. (1, q, p # f)), k_to_free = (\<lambda>p f. p # f), k_qstats_drop = (\<lambda>q. q),
      k_backlog_inc = (\<lambda>p q. q), k_backlog_dec = (\<lambda>p q. q), k_bstats_update = (\<lambda>p q. q),
      k_enqueue_tail = (\<lambda>p q. (0, q\<lparr>kern := kern q @ [p], qlen := qlen q + 1\<rparr>)),
      k_dequeue_head = (\<lambda>q. case kern q of [] \<Rightarrow> (None, q)
                          | p # ps \<Rightarrow> (Some p, q\<lparr>kern := ps, qlen := qlen q - 1\<rparr>)),
      k_reset_queue = (\<lambda>q. (q\<lparr>kern := [], qlen := 0\<rparr>, kern q))\<rparr>"

lemma sample_kernel_laws: "kernel_laws sample_kernel id"
  by (simp add: kernel_laws_def sample_kernel_def same_queue_def split: list.splits)

section \<open>Well-formed packets\<close>

definition contract_size :: "u16 \<Rightarrow> nat" where
  "contract_size t = (if t = htons 2 then sizeof_lbf else if t = htons 1 then sizeof_mdf else 2)"

text \<open>The headers that the code looks at are inside the buffer.\<close>

definition skb_wf :: "sk_buff \<Rightarrow> bool" where
  "skb_wf b =
     (case contract_of b of
        Inl _ \<Rightarrow> False
      | Inr None \<Rightarrow> True
      | Inr (Some (i, t)) \<Rightarrow> i + contract_size t \<le> length (head_bytes b))"

definition stored_wf :: "sk_buff \<Rightarrow> bool" where
  "stored_wf b =
     (case contract_at b of
        Inr (Some i) \<Rightarrow> i + sizeof_lbf \<le> length (head_bytes b)
      | _ \<Rightarrow> False)"

lemma set_time_fields [simp]:
  "head_bytes (lbf_set_enqueue_time t b) = head_bytes b"
  "mac_header (lbf_set_enqueue_time t b) = mac_header b"
  "network_header (lbf_set_enqueue_time t b) = network_header b"
  "cb_enqueue_time (lbf_set_enqueue_time t b) = t"
  by (simp_all add: lbf_set_enqueue_time_def)

lemma contract_at_set_time [simp]: "contract_at (lbf_set_enqueue_time t b) = contract_at b"
  unfolding contract_at_def set_time_fields ..

lemma contract_of_set_time [simp]: "contract_of (lbf_set_enqueue_time t b) = contract_of b"
  unfolding contract_of_def is_newip_def contract_at_set_time set_time_fields ..

lemma skb_wf_set_time [simp]: "skb_wf (lbf_set_enqueue_time t b) = skb_wf b"
  unfolding skb_wf_def contract_of_set_time set_time_fields ..

lemma lbf_get_val_set_time [simp]: "lbf_get_val (lbf_set_enqueue_time t b) = lbf_get_val b"
  by (simp add: lbf_get_val_def lbf_set_enqueue_time_def)

lemma contract_of_at: "contract_of b = Inr (Some (i, t)) \<Longrightarrow> contract_at b = Inr (Some i)"
  by (auto simp: contract_of_def res_simps split: if_splits option.splits)

lemma contract_at_ge: "contract_at b = Inr (Some i) \<Longrightarrow> network_header b \<le> i \<and>
    network_header b + 3 \<le> length (head_bytes b)"
  by (auto simp: contract_at_def get_newip_offset_def res_simps split: if_splits)

section \<open>What enqueue writes into a packet\<close>

lemma b_contract_plan: "b_contract (lbf_plan c) = c\<lparr>fib_tohops := dec_tohops (fib_tohops c)\<rparr>"
  by (cases c) (simp add: lbf_plan_def Let_def)

lemma put_lbf_tohops:
  assumes "get_lbf m i = Inr c"
  shows "put_lbf m i (c\<lparr>fib_tohops := w\<rparr>) = Inr (m[i + 10 := lo8 w, i + 11 := hi8 w])"
proof -
  have len: "i + 12 \<le> length m"
    using assms lbf_wire.get_ok [of m i] by (auto simp: in_buf_def sizeof_lbf_def)
  have same: "st16 m j (le16 (m ! j) (m ! k)) = Inr m" if "j + 2 \<le> length m" "k = j + 1" for j k
    using that by (simp add: st16_def)
  have "c = \<lparr>lbf_contract_type = le16 (m ! i) (m ! (i + 1)), min_delay = le16 (m ! (i + 2)) (m ! (i + 3)),
      max_delay = le16 (m ! (i + 4)) (m ! (i + 5)), experienced_delay = le16 (m ! (i + 6)) (m ! (i + 7)),
      fib_todelay = le16 (m ! (i + 8)) (m ! (i + 9)), fib_tohops = le16 (m ! (i + 10)) (m ! (i + 11))\<rparr>"
    using assms by (auto simp: get_lbf_def res_simps numeral_eq_Suc)
  then show ?thesis
    using len by (simp add: put_lbf_def same) (simp add: st16_def add.commute)
qed

lemma contract_at_update:
  assumes "contract_at b = Inr (Some i)" "i + 3 \<le> j"
  shows "contract_at (b\<lparr>head_bytes := (head_bytes b)[j := x, Suc j := y]\<rparr>) = Inr (Some i)"
proof -
  have "network_header b \<le> i" using contract_at_ge [OF assms(1)] by simp
  then have "get_newip_offset ((head_bytes b)[j := x, Suc j := y]) (network_header b) =
      get_newip_offset (head_bytes b) (network_header b)"
    using assms(2) by (simp add: get_newip_offset_def ld8_def)
  with assms(1) show ?thesis by (simp add: contract_at_def cong: if_cong)
qed

lemma stored_wf_update:
  assumes "contract_at b = Inr (Some i)" "i + sizeof_lbf \<le> length (head_bytes b)" "i + 3 \<le> j"
  shows "stored_wf (b\<lparr>head_bytes := (head_bytes b)[j := x, Suc j := y]\<rparr>)"
  using assms contract_at_update [OF assms(1,3), of x y] by (simp add: stored_wf_def)

section \<open>The invariant\<close>

definition pkts :: "bucket list \<Rightarrow> nat list" where
  "pkts Q = map (\<lambda>e. the (e_pkt e)) (all_ents Q)"

definition packets_ok :: "('k \<Rightarrow> nat list) \<Rightarrow> 'k lbf_qdisc \<Rightarrow> bucket list \<Rightarrow> bool" where
  "packets_ok fifo s Q \<longleftrightarrow>
     (\<forall>e \<in> set (all_ents Q). e_pkt e \<noteq> None) \<and>
     distinct (pkts Q @ fifo (kern (sch s))) \<and>
     (\<forall>p \<in> set (pkts Q). \<exists>b. skbs s p = Some b \<and> stored_wf b) \<and>
     (\<forall>p \<in> set (fifo (kern (sch s))). \<exists>b. skbs s p = Some b \<and> skb_wf b)"

text \<open>\<open>qlen\<close> may be larger than the number of packets the queue discipline holds (a packet whose
  pnode could not be allocated is counted, and an expired one is not discounted), never
  smaller.\<close>

definition qdisc_inv :: "('k \<Rightarrow> nat list) \<Rightarrow> 'k lbf_qdisc \<Rightarrow> bucket list \<Rightarrow> bool" where
  "qdisc_inv fifo s Q \<longleftrightarrow>
     store_repr s Q \<and> store_ok Q \<and> packets_ok fifo s Q \<and>
     length (pkts Q) + length (fifo (kern (sch s))) \<le> unat (qlen (sch s))"

text \<open>A buffer that is handed to \<open>enqueue\<close>: it exists, its headers are well-formed, and the
  queue discipline does not hold it already.\<close>

definition incoming :: "('k \<Rightarrow> nat list) \<Rightarrow> 'k lbf_qdisc \<Rightarrow> bucket list \<Rightarrow> nat \<Rightarrow> bool" where
  "incoming fifo s Q skb \<longleftrightarrow>
     (\<exists>b. skbs s skb = Some b \<and> skb_wf b) \<and> skb \<notin> set (pkts Q) \<and> skb \<notin> set (fifo (kern (sch s)))"

section \<open>Enqueue, branch by branch\<close>

lemma enqueue_limit:
  assumes "qlen (sch s) \<ge> limit (sch s)" "k_drop K skb (sch s) tf = (ret, q, tf')"
  shows "lbf_enqueue K t0 t1 skb s tf =
     Some (Inr (ret, s\<lparr>stats := (stats s)\<lparr>stats_overlimit := stats_overlimit (stats s) + 1\<rparr>, sch := q\<rparr>, tf'))"
  using assms by (simp add: lbf_enqueue_def Let_def)

lemma enqueue_tail_branch:
  assumes "\<not> qlen (sch s) \<ge> limit (sch s)" "skbs s skb = Some b" "contract_of b = Inr c"
    and "\<And>i. c \<noteq> Some (i, htons 2)" "k_enqueue_tail K skb (sch s) = (ret, q)"
  shows "lbf_enqueue K t0 t1 skb s tf =
     Some (Inr (ret, s\<lparr>skbs := (skbs s)(skb \<mapsto> lbf_set_enqueue_time t0 b), sch := q\<rparr>, tf))"
  using assms by (cases c) (auto simp: lbf_enqueue_def skb_write_def skb_at_def enqueue_tail_def)

lemma enqueue_lbf_branch:
  assumes "\<not> qlen (sch s) \<ge> limit (sch s)" "skbs s skb = Some b"
    and "contract_of b = Inr (Some (i, htons 2))"
  shows "lbf_enqueue K t0 t1 skb s tf =
     enqueue_lbf K t1 skb i (s\<lparr>skbs := (skbs s)(skb \<mapsto> lbf_set_enqueue_time t0 b)\<rparr>) tf"
  using assms by (simp add: lbf_enqueue_def skb_write_def skb_at_def)

lemma enqueue_lbf_nohops:
  assumes "skbs s skb = Some b" "get_lbf (head_bytes b) i = Inr c" "fib_tohops c = 0"
  shows "enqueue_lbf K t1 skb i s tf = Some (Inr (1, qstats_drop K s, k_to_free K skb tf))"
  using assms by (simp add: enqueue_lbf_def skb_at_def)

text \<open>The state once the header is rewritten.\<close>

definition rewritten :: "'k lbf_qdisc \<Rightarrow> nat \<Rightarrow> sk_buff \<Rightarrow> nat \<Rightarrow> latency_based_forwarding \<Rightarrow> 'k lbf_qdisc" where
  "rewritten s skb b i c =
     (let w = dec_tohops (fib_tohops c)
      in s\<lparr>skbs := (skbs s)(skb \<mapsto> b\<lparr>head_bytes := (head_bytes b)[i + 10 := lo8 w, i + 11 := hi8 w]\<rparr>),
           vars := (vars s)\<lparr>hops_left := w\<rparr>\<rparr>)"

lemma enqueue_lbf_early:
  assumes "skbs s skb = Some b" "get_lbf (head_bytes b) i = Inr c" "fib_tohops c \<noteq> 0"
    and "b_early_discard (lbf_plan c)"
  shows "enqueue_lbf K t1 skb i s tf = Some (Inr (- 1, qstats_drop K (rewritten s skb b i c), tf))"
  using assms put_lbf_tohops [OF assms(2)]
  by (simp add: enqueue_lbf_def skb_at_def Let_def b_contract_plan rewritten_def)

lemma enqueue_lbf_accept:
  assumes "skbs s skb = Some b" "get_lbf (head_bytes b) i = Inr c" "fib_tohops c \<noteq> 0"
    and "\<not> b_early_discard (lbf_plan c)"
  shows "enqueue_lbf K t1 skb i s tf =
     obind (lbf_store K skb (b_lqbudget (lbf_plan c))
              (abs_time (k_ticks2ns K t1) (b_lqmin (lbf_plan c)))
              (abs_time (k_ticks2ns K t1) (b_lqmax (lbf_plan c))) (lbf_get_val b) (rewritten s skb b i c))
       (\<lambda>(ret, s). Some (Inr (ret, s, tf)))"
  using assms put_lbf_tohops [OF assms(2)]
  by (simp add: enqueue_lbf_def skb_at_def Let_def b_contract_plan rewritten_def)

section \<open>Storing a packet\<close>

lemma kcalloc_plan: "kcalloc s = (p, s') \<Longrightarrow> kc_plan s = [] \<Longrightarrow> kc_plan s' = []"
  by (auto simp: kcalloc_def)

lemma h_write_plan: "h_write s p f = Inr s' \<Longrightarrow> kc_plan s' = kc_plan s"
  by (auto simp: h_write_def res_simps)

lemma create_hnode_plan: "create_hnode lq n s = (p, s') \<Longrightarrow> kc_plan s = [] \<Longrightarrow> kc_plan s' = []"
  by (auto simp: create_hnode_def Let_def kcalloc_def)

lemma hnode_in_list_plan:
  assumes "hnode_in_list l s lq = Some (Inr (r, s'))" "kc_plan s = []"
  shows "kc_plan s' = []"
proof (cases "list_head l")
  case None
  with assms show ?thesis
    by (auto simp: hnode_in_list_def dest: create_hnode_plan split: option.splits prod.splits)
next
  case (Some h0)
  then obtain stop where "hnode_walk (hheap s) lq (Some h0) h0 = Some (Inr stop)"
    using assms(1) by (auto simp: hnode_in_list_def res_simps)
  with Some assms(1) have walk: "hnode_in_list l s lq = (case stop of
      StopFound c \<Rightarrow> Some (Inr (Some c, s))
    | _ \<Rightarrow> Some (Inr (r, s')))"
    by (auto split: hnode_stop.splits simp: hnode_in_list_def)
  obtain p s1 where cr: "create_hnode lq (list_len l) s = (p, s1)" by fastforce
  then have "kc_plan s1 = []" using create_hnode_plan assms(2) by blast
  with assms Some cr walk \<open>hnode_walk (hheap s) lq (Some h0) h0 = Some (Inr stop)\<close> show ?thesis
    by (cases stop; cases p) (auto simp: hnode_in_list_def res_simps dest!: h_write_plan split: if_splits)
qed

lemma lbf_get_hnode_plan:
  assumes "lbf_get_hnode s lq = Some (Inr (r, s'))" "kc_plan s = []"
  shows "kc_plan s' = []"
proof (cases "hnode_list s")
  case None
  obtain p s1 where kc: "kcalloc s = (p, s1)" by fastforce
  then have "kc_plan s1 = []" using kcalloc_plan assms(2) by blast
  with assms(1) kc None show ?thesis
    by (cases p) (auto simp: lbf_get_hnode_def Let_def elim!: hnode_in_list_plan)
qed (use assms in \<open>auto simp: lbf_get_hnode_def dest: hnode_in_list_plan\<close>)

text \<open>What an accepted packet changes outside the store: the backlog and \<open>qlen\<close>.\<close>

definition counted :: "'k kernel_ops \<Rightarrow> nat \<Rightarrow> 'k lbf_qdisc \<Rightarrow> 'k lbf_qdisc \<Rightarrow> bool" where
  "counted K skb s s' \<longleftrightarrow>
     store_only s (s'\<lparr>sch := sch s\<rparr>) \<and>
     sch s' = (k_backlog_inc K skb (sch s))\<lparr>qlen := qlen (k_backlog_inc K skb (sch s)) + 1\<rparr>"

lemma counted_intro:
  assumes "store_only s s1"
    and "s' = s1\<lparr>sch := (k_backlog_inc K skb (sch s1))\<lparr>qlen := qlen (k_backlog_inc K skb (sch s1)) + 1\<rparr>\<rparr>"
  shows "counted K skb s s'"
proof -
  have sch: "sch s1 = sch s" using store_only_sch [OF assms(1)] .
  then have "s1\<lparr>sch := sch s\<rparr> = s1" by (cases s1) simp
  with assms(1) have "store_only s (s1\<lparr>sch := sch s\<rparr>)" by (simp only:)
  with assms(2) sch show ?thesis by (simp add: counted_def)
qed

lemma counted_fields:
  assumes "counted K skb s s'"
  shows "next_pnode s' = next_pnode s" "vars s' = vars s" "stats s' = stats s"
    "watchdog s' = watchdog s" "skbs s' = skbs s" "watchdog_inited s' = watchdog_inited s"
  using assms store_only_fields [of s "s'\<lparr>sch := sch s\<rparr>"]
    store_only_deq_only [of s "s'\<lparr>sch := sch s\<rparr>"]
  by (auto simp: counted_def deq_only_def)

lemma lbf_store_cases:
  assumes R: "store_repr s Q"
  obtains (null) "hnode_list s = None" "kc_plan s \<noteq> [] \<and> \<not> hd (kc_plan s)"
      "lbf_store K skb lq tmin tmax rcv s = Some (Inl NullDeref)"
  | (nohnode) s' where "lbf_store K skb lq tmin tmax rcv s = Some (Inr (1, s'))" "store_only s s'"
      "store_repr s' Q" "kc_plan s \<noteq> []"
  | (nopnode) s' a P b B where
      "lbf_store K skb lq tmin tmax rcv s = Some (Inr (NET_XMIT_SUCCESS, s'))"
      "get_bucket a (uint lq) Q = (P, b, B)" "store_repr s' (P @ b # B)" "counted K skb s s'"
      "kc_plan s \<noteq> []"
  | (stored) s' a P b B e where
      "lbf_store K skb lq tmin tmax rcv s = Some (Inr (NET_XMIT_SUCCESS, s'))"
      "get_bucket a (uint lq) Q = (P, b, B)"
      "e_tmin e = tmin" "e_tmax e = tmax" "e_trcv e = rcv" "e_pkt e = Some skb"
      "store_repr s' (P @ b\<lparr>b_ents := insert_ent e (b_ents b)\<rparr> # B)" "counted K skb s s'"
proof (cases rule: lbf_get_hnode_refines [OF R, of "uint lq"])
  case 1
  then show thesis by (intro null) (simp_all add: lbf_store_def)
next
  case (2 s')
  then show thesis by (intro nohnode [of s']) (simp_all add: lbf_store_def)
next
  case (3 s1 a P b B)
  note get = 3
  let ?cnt = "\<lambda>s. s\<lparr>sch := (k_backlog_inc K skb (sch s))\<lparr>qlen := qlen (k_backlog_inc K skb (sch s)) + 1\<rparr>\<rparr>"
  show thesis
  proof (cases "kcalloc s1")
    case (Pair p s2)
    show thesis
    proof (cases p)
      case None
      then obtain kp where s2: "s2 = s1\<lparr>kc_plan := kp\<rparr>" using Pair kcalloc_None by blast
      have "kc_plan s1 \<noteq> []" using Pair None by (auto simp: kcalloc_def)
      then have kc: "kc_plan s \<noteq> []" using lbf_get_hnode_plan [OF get(1)] by blast
      have add: "pnode_queue_add s1 (b_addr b) skb tmin tmax rcv = Some (Inr s2)"
        using Pair None by (simp add: pnode_queue_add_def)
      have so: "store_only s s2"
        using get(4) by (rule store_only_trans) (cases s1, simp add: s2 store_only_def)
      have "store_repr (?cnt s2) (P @ b # B)" using get(3) by (simp add: s2 store_repr_def)
      with add get(1,2) kc counted_intro [OF so refl] show thesis
        by (intro nopnode [of "?cnt s2"]) (simp_all add: lbf_store_def Let_def)
    next
      case (Some x)
      let ?e = "\<lparr>e_addr = x, e_tmin = tmin, e_tmax = tmax, e_trcv = rcv, e_pkt = Some skb\<rparr>"
      from Pair Some have "kcalloc s1 = (Some x, s2)" by simp
      from pnode_queue_add_refines [OF get(3) this, of ?e tmin tmax rcv skb]
      obtain s3 where s3: "pnode_queue_add s1 (b_addr b) skb tmin tmax rcv = Some (Inr s3)"
        "store_only s1 s3" "store_repr s3 (P @ b\<lparr>b_ents := insert_ent ?e (b_ents b)\<rparr> # B)"
        by auto
      have "store_repr (?cnt s3) (P @ b\<lparr>b_ents := insert_ent ?e (b_ents b)\<rparr> # B)"
        using s3(3) by (simp add: store_repr_def)
      with s3(1) get(1,2) counted_intro [OF store_only_trans [OF get(4) s3(2)] refl] show thesis
        by (intro stored [of "?cnt s3" a P b B ?e]) (simp_all add: lbf_store_def Let_def)
    qed
  qed
qed

section \<open>Enqueue preserves the invariant\<close>

lemma mset_insert_ent: "mset (insert_ent e es) = add_mset e (mset es)"
proof -
  have "mset (xs @ e # ys) = add_mset e (mset (xs @ ys))" for xs ys by simp
  then show ?thesis unfolding insert_ent_def by (metis takeWhile_dropWhile_id)
qed

lemma get_bucket_all_ents:
  assumes "get_bucket a lq Q = (P, b, B)"
  shows "all_ents (P @ b # B) = all_ents Q"
  using get_bucket_cases [OF assms] by auto

lemma get_bucket_heads:
  assumes "get_bucket a lq Q = (P, b, B)"
  shows "heads (P @ b # B) = heads Q"
  using get_bucket_cases [OF assms] by auto

lemma mset_pkts_insert:
  "mset (pkts (P @ b\<lparr>b_ents := insert_ent e (b_ents b)\<rparr> # B)) =
   add_mset (the (e_pkt e)) (mset (pkts (P @ b # B)))"
  by (simp add: pkts_def mset_insert_ent)

lemma heads_insert:
  assumes "h \<in> set (heads (P @ b # B))" "e_tmin h \<le> e_tmin e"
  shows "h \<in> set (heads (P @ b\<lparr>b_ents := insert_ent e (b_ents b)\<rparr> # B))"
  using assms by (cases "b_ents b") (auto simp: insert_ent_def)

lemma store_ok_insert:
  "store_ok (P @ b # B) \<Longrightarrow> store_ok (P @ b\<lparr>b_ents := insert_ent e (b_ents b)\<rparr> # B)"
  by (auto simp: store_ok_def sorted_insert_ent)

lemma packets_ok_skbs:
  assumes "packets_ok fifo s Q" "skbs s' = (skbs s)(skb \<mapsto> b)" "fifo (kern (sch s')) = fifo (kern (sch s))"
    and "skb \<notin> set (pkts Q)" "skb \<notin> set (fifo (kern (sch s)))"
  shows "packets_ok fifo s' Q"
  using assms by (auto simp: packets_ok_def)

lemma packets_ok_append:
  assumes "packets_ok fifo s Q" "skbs s' = (skbs s)(skb \<mapsto> b)" "skb_wf b"
    and "fifo (kern (sch s')) = fifo (kern (sch s)) @ [skb]"
    and "skb \<notin> set (pkts Q)" "skb \<notin> set (fifo (kern (sch s)))"
  shows "packets_ok fifo s' Q"
  using assms by (auto simp: packets_ok_def)

lemma packets_ok_insert:
  assumes ok: "packets_ok fifo s Q" and "skbs s' = (skbs s)(skb \<mapsto> c)" "stored_wf c"
    and "fifo (kern (sch s')) = fifo (kern (sch s))"
    and "skb \<notin> set (pkts Q)" "skb \<notin> set (fifo (kern (sch s)))"
    and gb: "get_bucket a lq Q = (P, b, B)" and e: "e_pkt e = Some skb"
  shows "packets_ok fifo s' (P @ b\<lparr>b_ents := insert_ent e (b_ents b)\<rparr> # B)"
proof -
  let ?Q' = "P @ b\<lparr>b_ents := insert_ent e (b_ents b)\<rparr> # B"
  have "mset (pkts ?Q') = mset (skb # pkts Q)"
    unfolding mset_pkts_insert using get_bucket_all_ents [OF gb] e by (simp add: pkts_def)
  then have m: "mset (pkts ?Q' @ fifo (kern (sch s))) = mset (skb # pkts Q @ fifo (kern (sch s)))"
    "set (pkts ?Q') = insert skb (set (pkts Q))"
    by (simp, metis list.simps(15) mset_eq_setD)
  from m(1) have "distinct (pkts ?Q' @ fifo (kern (sch s))) = distinct (skb # pkts Q @ fifo (kern (sch s)))"
    by (rule mset_eq_imp_distinct_iff)
  moreover have "set (all_ents ?Q') = insert e (set (all_ents Q))"
    using get_bucket_all_ents [OF gb] by (auto simp flip: get_bucket_all_ents [OF gb])
  ultimately show ?thesis
    using assms m(2) by (auto simp: packets_ok_def)
qed

lemma qlen_inc:
  assumes "\<not> qlen q \<ge> limit q"
  shows "unat (qlen q + 1) = unat (qlen q) + 1"
proof -
  have "qlen q < limit q" using assms by simp
  then have "unat (qlen q) < unat (limit q)" by (simp add: word_less_nat_alt)
  moreover have "unat (limit q) < 2 ^ 32" using unsigned_less [of "limit q"] by simp
  ultimately show ?thesis by (simp add: unat_word_ariths)
qed

definition qdisc_safe :: "('k \<Rightarrow> nat list) \<Rightarrow> 'k lbf_qdisc \<Rightarrow> bucket list \<Rightarrow> bool" where
  "qdisc_safe fifo s Q \<longleftrightarrow> qdisc_inv fifo s Q \<and> next_ok (next_pnode s) Q"

text \<open>A packet overtakes when \<open>pnode_queue_add\<close> puts it in front of the pnode that \<open>next_pnode\<close>
  points to: \<open>lbf_get_hnode\<close> finds the hnode of that pnode for its budget and its earliest
  departure time is smaller. The first definition is on the budget and the time, the second on
  the packet, as \<open>lbf_enqueue\<close> computes the two from its header.\<close>

definition goes_in_front :: "'k lbf_qdisc \<Rightarrow> u16 \<Rightarrow> u64 \<Rightarrow> bool" where
  "goes_in_front s lq tmin =
     (case Option.bind (next_pnode s) (pheap s) of
        None \<Rightarrow> False
      | Some n \<Rightarrow>
          (case p_hnode n of
             None \<Rightarrow> False
           | Some h \<Rightarrow> served_by s (uint lq) h \<and> tmin < tmin_nsec n))"

lemma goes_in_front_cong:
  assumes "next_pnode s' = next_pnode s" "pheap s' = pheap s" "hheap s' = hheap s"
    and "hnode_list s' = hnode_list s"
  shows "goes_in_front s' lq tmin = goes_in_front s lq tmin"
  using assms by (simp add: goes_in_front_def served_by_def cong: option.case_cong)

definition overtakes :: "'k kernel_ops \<Rightarrow> u64 \<Rightarrow> sk_buff \<Rightarrow> 'k lbf_qdisc \<Rightarrow> bool" where
  "overtakes K now b s =
     (case contract_of b of
        Inr (Some (i, t)) \<Rightarrow>
          t = htons 2 \<and>
          (case get_lbf (head_bytes b) i of
             Inr c \<Rightarrow> goes_in_front s (b_lqbudget (lbf_plan c))
                       (abs_time (k_ticks2ns K now) (b_lqmin (lbf_plan c)))
           | Inl _ \<Rightarrow> False)
      | _ \<Rightarrow> False)"

lemma next_node:
  assumes "store_repr s Q" "next_ok (Some p) Q"
  obtains A c C h es where "Q = A @ c # C" "b_ents c = h # es" "p = e_addr h"
    "pheap s p = Some (pnode_of (first_ent es None) (Some (b_addr c)) h)"
proof -
  obtain A c C h es where Q: "Q = A @ c # C" "b_ents c = h # es" "p = e_addr h"
    using assms(2) by (rule next_okE)
  have "pheap s p = Some (pnode_of (first_ent es None) (Some (b_addr c)) h)"
    using store_reprD(3) [OF assms(1), of c] by (simp add: Q)
  then show thesis using that Q by blast
qed

lemma head_of_bucket: "b_ents c = h # es \<Longrightarrow> c \<in> set Q \<Longrightarrow> h \<in> set (heads Q)"
  by (induction Q) auto

text \<open>A new pnode leaves the first pnode of every queue in its place, unless it goes in front.\<close>

lemma next_ok_insert:
  assumes R: "store_repr s Q" and ok: "next_ok (next_pnode s) Q"
    and gb: "get_bucket a (uint lq) Q = (P, b, B)"
    and front: "\<not> goes_in_front s lq (e_tmin e)"
  shows "next_ok (next_pnode s) (P @ b\<lparr>b_ents := insert_ent e (b_ents b)\<rparr> # B)"
proof (cases "next_pnode s")
  case (Some p)
  with ok have "next_ok (Some p) Q" by simp
  from R this obtain A c C h es where Q: "Q = A @ c # C" "b_ents c = h # es" "p = e_addr h"
      "pheap s p = Some (pnode_of (first_ent es None) (Some (b_addr c)) h)"
    by (rule next_node)
  have h: "h \<in> set (heads (P @ b # B))"
    unfolding get_bucket_heads [OF gb] mem_heads using Q by blast
  have "h \<in> set (heads (P @ b\<lparr>b_ents := insert_ent e (b_ents b)\<rparr> # B))"
  proof (cases "c = b \<and> b_ents b \<noteq> []")
    case True
    then have "P @ b # B = Q" using get_bucket_cases [OF gb] by auto
    then have "served_by s (uint lq) (b_addr b)"
      using served_by_bucket [OF R, of b "uint lq" a] gb by auto
    then have "e_tmin h \<le> e_tmin e" using front Q Some True by (simp add: goes_in_front_def not_less)
    then show ?thesis by (rule heads_insert [OF h])
  next
    case False
    have "c \<in> set Q" using Q(1) by simp
    then have "c \<in> set P \<union> set B" using get_bucket_cases [OF gb] False Q(2) by auto
    then have "h \<in> set (heads P) \<union> set (heads B)"
      using head_of_bucket [OF Q(2)] by blast
    then show ?thesis by auto
  qed
  then show ?thesis using Some Q(3) by (simp add: next_ok_def)
qed (simp add: next_ok_def)

lemma skb_wf_lbf:
  assumes "skb_wf b" "contract_of b = Inr (Some (i, htons 2))"
  obtains c where "get_lbf (head_bytes b) i = Inr c" "contract_at b = Inr (Some i)"
    "i + sizeof_lbf \<le> length (head_bytes b)"
proof -
  have len: "i + sizeof_lbf \<le> length (head_bytes b)"
    using assms by (simp add: skb_wf_def contract_size_def)
  then obtain c where "get_lbf (head_bytes b) i = Inr c"
    using lbf_wire.get_ok [of "head_bytes b" i] by (auto simp: in_buf_def)
  with len contract_of_at [OF assms(2)] show thesis using that by blast
qed

lemma rewritten_fields [simp]:
  "next_pnode (rewritten s skb b i c) = next_pnode s" "pheap (rewritten s skb b i c) = pheap s"
  "hheap (rewritten s skb b i c) = hheap s"
  "hnode_list (rewritten s skb b i c) = hnode_list s" "kc_plan (rewritten s skb b i c) = kc_plan s"
  "sch (rewritten s skb b i c) = sch s" "stats (rewritten s skb b i c) = stats s"
  "watchdog (rewritten s skb b i c) = watchdog s"
  by (simp_all add: rewritten_def Let_def)

lemma store_repr_rewritten [simp]: "store_repr (rewritten s skb b i c) Q = store_repr s Q"
  by (simp add: rewritten_def Let_def store_repr_def)

lemma skbs_rewritten:
  "skbs (rewritten s skb b i c) = (skbs s)(skb \<mapsto>
     b\<lparr>head_bytes := (head_bytes b)[i + 10 := lo8 (dec_tohops (fib_tohops c)),
                                    i + 11 := hi8 (dec_tohops (fib_tohops c))]\<rparr>)"
  by (simp add: rewritten_def Let_def)

text \<open>The cases of \<open>lbf_enqueue\<close> for a packet that the kernel may hand over.\<close>

lemma qdisc_safe_frame:
  assumes S: "qdisc_safe fifo s Q" and I: "incoming fifo s Q skb"
    and "store_repr s' Q" "next_pnode s' = next_pnode s" "same_queue fifo (sch s) (sch s')"
    and "skbs s' = skbs s \<or> skbs s' = (skbs s)(skb \<mapsto> b)"
  shows "qdisc_safe fifo s' Q"
proof -
  have q: "fifo (kern (sch s')) = fifo (kern (sch s))" "qlen (sch s') = qlen (sch s)"
    using assms(5) by (simp_all add: same_queue_def)
  have ok: "packets_ok fifo s Q" using S by (simp add: qdisc_safe_def qdisc_inv_def)
  then have "packets_ok fifo s' Q"
    using assms(6) packets_ok_skbs [OF ok _ q(1)] I q(1)
    by (auto simp: incoming_def packets_ok_def)
  with assms q show ?thesis by (simp add: qdisc_safe_def qdisc_inv_def)
qed

text \<open>The allocation of the list head is refused. The code then dereferences the NULL pointer.\<close>

definition list_head_refused :: "'k lbf_qdisc \<Rightarrow> bool" where
  "list_head_refused s \<longleftrightarrow> hnode_list s = None \<and> kc_plan s \<noteq> [] \<and> \<not> hd (kc_plan s)"

lemma store_safe:
  assumes K: "kernel_laws K fifo" and S: "qdisc_safe fifo s Q" and I: "incoming fifo s Q skb"
    and L: "\<not> qlen (sch s) \<ge> limit (sch s)"
    and s1: "store_repr s1 Q" "next_pnode s1 = next_pnode s" "sch s1 = sch s" "pheap s1 = pheap s"
      "hheap s1 = hheap s" "hnode_list s1 = hnode_list s" "kc_plan s1 = kc_plan s" "skbs s1 = (skbs s)(skb \<mapsto> c)"
    and c: "stored_wf c"
  shows "(list_head_refused s \<and> lbf_store K skb lq tmin tmax rcv s1 = Some (Inl NullDeref)) \<or>
         (\<exists>ret s' Q'. lbf_store K skb lq tmin tmax rcv s1 = Some (Inr (ret, s')) \<and>
           qdisc_inv fifo s' Q' \<and> (\<not> goes_in_front s lq tmin \<longrightarrow> next_ok (next_pnode s') Q'))"
proof -
  have inv: "store_ok Q" "packets_ok fifo s Q" "next_ok (next_pnode s1) Q"
    "length (pkts Q) + length (fifo (kern (sch s))) \<le> unat (qlen (sch s))"
    using S s1(2) by (auto simp: qdisc_safe_def qdisc_inv_def)
  have fresh: "skb \<notin> set (pkts Q)" "skb \<notin> set (fifo (kern (sch s)))"
    using I by (simp_all add: incoming_def)
  have bl: "same_queue fifo (sch s) (k_backlog_inc K skb (sch s))" by (rule kernel_lawsD(2) [OF K])
  have cnt: "fifo (kern (sch s')) = fifo (kern (sch s))" "unat (qlen (sch s')) = unat (qlen (sch s)) + 1"
    if "counted K skb s1 s'" for s'
    using that bl qlen_inc [OF L] by (simp_all add: counted_def same_queue_def s1(3))
  show ?thesis
  proof (cases rule: lbf_store_cases [OF s1(1), of K skb lq tmin tmax rcv])
    case 1
    then show ?thesis using s1 by (simp add: list_head_refused_def)
  next
    case (2 s')
    note nohnode = 2
    from nohnode have "sch s' = sch s1" "skbs s' = skbs s1" "next_pnode s' = next_pnode s1"
      using store_only_sch store_only_fields(1) store_only_deq_only [of s1 s'] by (auto simp: deq_only_def)
    with nohnode s1 have "qdisc_safe fifo s' Q"
      by (intro qdisc_safe_frame [OF S I, of _ c]) (auto simp: same_queue_def)
    with nohnode show ?thesis unfolding qdisc_safe_def by blast
  next
    case (3 s' a P b B)
    note nopnode = 3
    note ents = get_bucket_all_ents [OF nopnode(2)]
    have f: "skbs s' = (skbs s)(skb \<mapsto> c)" "next_pnode s' = next_pnode s1"
      using counted_fields [OF nopnode(4)] s1 by auto
    have "pkts (P @ b # B) = pkts Q" using ents by (simp add: pkts_def)
    moreover have "packets_ok fifo s' (P @ b # B)"
      using packets_ok_skbs [OF inv(2) f(1) cnt(1) [OF nopnode(4)] fresh]
      unfolding packets_ok_def \<open>pkts (P @ b # B) = pkts Q\<close> ents .
    moreover have "next_ok (next_pnode s') (P @ b # B)"
      using inv(3) unfolding next_ok_def get_bucket_heads [OF nopnode(2)] f(2) .
    ultimately have "qdisc_safe fifo s' (P @ b # B)"
      using nopnode inv(4) cnt [OF nopnode(4)] get_bucket_store_ok [OF nopnode(2) inv(1)]
      by (simp add: qdisc_safe_def qdisc_inv_def)
    with nopnode(1) show ?thesis unfolding qdisc_safe_def by blast
  next
    case (4 s' a P b B e)
    note stored = 4
    let ?Q = "P @ b\<lparr>b_ents := insert_ent e (b_ents b)\<rparr> # B"
    have f: "skbs s' = (skbs s)(skb \<mapsto> c)" "next_pnode s' = next_pnode s1"
      using counted_fields [OF stored(8)] s1 by auto
    have "mset (pkts ?Q) = add_mset (the (e_pkt e)) (mset (pkts Q))"
      unfolding mset_pkts_insert unfolding pkts_def get_bucket_all_ents [OF stored(2)] ..
    from arg_cong [OF this, of size] have "length (pkts ?Q) = length (pkts Q) + 1" by simp
    moreover have "packets_ok fifo s' ?Q"
      using packets_ok_insert [OF inv(2) f(1) c cnt(1) fresh stored(2,6)] stored(8) .
    ultimately have "qdisc_inv fifo s' ?Q"
      using stored(7) inv(4) cnt [OF stored(8)]
        store_ok_insert [OF get_bucket_store_ok [OF stored(2) inv(1)]]
      by (simp add: qdisc_inv_def)
    moreover have "next_ok (next_pnode s') ?Q" if "\<not> goes_in_front s lq tmin"
    proof -
      have "\<not> goes_in_front s1 lq (e_tmin e)" using that s1 stored(3) goes_in_front_cong [of s1 s] by simp
      from next_ok_insert [OF s1(1) inv(3) stored(2) this] show ?thesis unfolding f(2) .
    qed
    ultimately show ?thesis using stored(1) by blast
  qed
qed

lemma enqueue_safe:
  assumes K: "kernel_laws K fifo" and S: "qdisc_safe fifo s Q" and I: "incoming fifo s Q skb"
    and b: "skbs s skb = Some b" "skb_wf b"
  shows "(list_head_refused s \<and> lbf_enqueue K t0 t1 skb s tf = Some (Inl NullDeref)) \<or>
         (\<exists>ret s' tf' Q'. lbf_enqueue K t0 t1 skb s tf = Some (Inr (ret, s', tf')) \<and>
           qdisc_inv fifo s' Q' \<and> (\<not> overtakes K t1 b s \<longrightarrow> next_ok (next_pnode s') Q'))"
proof -
  let ?b = "lbf_set_enqueue_time t0 b"
  let ?s = "s\<lparr>skbs := (skbs s)(skb \<mapsto> ?b)\<rparr>"
  have R: "store_repr s Q" using S by (simp add: qdisc_safe_def qdisc_inv_def)
  have R': "store_repr ?s Q" using R by (simp add: store_repr_def)
  obtain c where c: "contract_of b = Inr c"
    using b(2) by (auto simp: skb_wf_def split: sum.splits)
  consider (limit) "qlen (sch s) \<ge> limit (sch s)"
    | (tail) "\<not> qlen (sch s) \<ge> limit (sch s)" "\<And>i. c \<noteq> Some (i, htons 2)"
    | (lbf) i where "\<not> qlen (sch s) \<ge> limit (sch s)" "c = Some (i, htons 2)" by blast
  then show ?thesis
  proof cases
    case limit
    obtain ret q tf' where drop: "k_drop K skb (sch s) tf = (ret, q, tf')" using prod_cases3 by blast
    let ?s' = "s\<lparr>stats := (stats s)\<lparr>stats_overlimit := stats_overlimit (stats s) + 1\<rparr>, sch := q\<rparr>"
    have "qdisc_safe fifo ?s' Q"
      by (rule qdisc_safe_frame [OF S I])
        (use R kernel_lawsD(5) [OF K drop] in \<open>auto simp: store_repr_def\<close>)
    with enqueue_limit [where K = K, OF limit drop] show ?thesis unfolding qdisc_safe_def by blast
  next
    case tail
    obtain ret q where enq: "k_enqueue_tail K skb (sch s) = (ret, q)" by fastforce
    let ?s' = "s\<lparr>skbs := (skbs s)(skb \<mapsto> ?b), sch := q\<rparr>"
    note q = kernel_lawsD(7) [OF K enq]
    have ok: "packets_ok fifo s Q" using S by (simp add: qdisc_safe_def qdisc_inv_def)
    have "packets_ok fifo ?s' Q"
      by (rule packets_ok_append [OF ok, of _ skb ?b]) (use q I b in \<open>auto simp: incoming_def\<close>)
    moreover have "unat (qlen q) = unat (qlen (sch s)) + 1"
      using q qlen_inc [OF tail(1)] by simp
    ultimately have "qdisc_safe fifo ?s' Q"
      using S q R by (simp add: qdisc_safe_def qdisc_inv_def store_repr_def)
    with enqueue_tail_branch [OF tail(1) b(1) c tail(2) enq] show ?thesis unfolding qdisc_safe_def by blast
  next
    case lbf
    have cb: "contract_of b = Inr (Some (i, htons 2))" using c lbf(2) by simp
    obtain l where l: "get_lbf (head_bytes b) i = Inr l" "contract_at b = Inr (Some i)"
      "i + sizeof_lbf \<le> length (head_bytes b)"
      using skb_wf_lbf [OF b(2) cb] by blast
    have l': "get_lbf (head_bytes ?b) i = Inr l" "skbs ?s skb = Some ?b" using l(1) by simp_all
    note eq = enqueue_lbf_branch [OF lbf(1) b(1) cb, of K t0 t1 tf]
    let ?r = "rewritten ?s skb ?b i l"
    let ?c = "?b\<lparr>head_bytes := (head_bytes ?b)[i + 10 := lo8 (dec_tohops (fib_tohops l)),
                     i + 11 := hi8 (dec_tohops (fib_tohops l))]\<rparr>"
    have rskb: "skbs ?r = (skbs s)(skb \<mapsto> ?c)" by (simp add: skbs_rewritten)
    have drop: "same_queue fifo (sch s) (k_qstats_drop K (sch s))" by (rule kernel_lawsD(1) [OF K])
    consider (nohops) "fib_tohops l = 0" | (early) "fib_tohops l \<noteq> 0" "b_early_discard (lbf_plan l)"
      | (accept) "fib_tohops l \<noteq> 0" "\<not> b_early_discard (lbf_plan l)" by blast
    then show ?thesis
    proof cases
      case nohops
      have "qdisc_safe fifo (qstats_drop K ?s) Q"
        by (rule qdisc_safe_frame [OF S I, of _ ?b])
          (use R drop in \<open>auto simp: qstats_drop_def store_repr_def\<close>)
      then show ?thesis
        unfolding eq enqueue_lbf_nohops [OF l'(2,1) nohops] qdisc_safe_def by blast
    next
      case early
      have "store_repr (qstats_drop K ?r) Q"
        using R' by (simp add: qstats_drop_def) (simp add: store_repr_def rewritten_def Let_def)
      then have "qdisc_safe fifo (qstats_drop K ?r) Q"
        by (rule qdisc_safe_frame [OF S I, of _ ?c]) (use drop rskb in \<open>auto simp: qstats_drop_def\<close>)
      then show ?thesis
        unfolding eq enqueue_lbf_early [OF l'(2,1) early] qdisc_safe_def by blast
    next
      case accept
      have swf: "stored_wf ?c"
        using stored_wf_update [of ?b i "i + 10"] l by (simp add: add.commute)
      let ?lq = "b_lqbudget (lbf_plan l)" and ?mn = "abs_time (k_ticks2ns K t1) (b_lqmin (lbf_plan l))"
      have front: "goes_in_front s ?lq ?mn = overtakes K t1 b s"
        using cb l(1) by (simp add: overtakes_def)
      have "(list_head_refused s \<and> lbf_store K skb ?lq ?mn (abs_time (k_ticks2ns K t1)
              (b_lqmax (lbf_plan l))) (lbf_get_val ?b) ?r = Some (Inl NullDeref)) \<or>
          (\<exists>ret s' Q'. lbf_store K skb ?lq ?mn (abs_time (k_ticks2ns K t1) (b_lqmax (lbf_plan l)))
              (lbf_get_val ?b) ?r = Some (Inr (ret, s')) \<and>
            qdisc_inv fifo s' Q' \<and> (\<not> overtakes K t1 b s \<longrightarrow> next_ok (next_pnode s') Q'))"
        unfolding front [symmetric]
        by (rule store_safe [OF K S I lbf(1)]) (use R' rskb swf in simp_all)
      then show ?thesis
        unfolding eq enqueue_lbf_accept [OF l'(2,1) accept] by fastforce
    qed
  qed
qed

end
