(* ===== verification/Lbf_Release.thy ===== *)
theory Lbf_Release
  imports Lbf_Invariant
begin

text \<open>
  What leaves the queue discipline and when: conservation of the stored packets, the conditions
  under which \<open>lbf_dequeue\<close> returns one, and the preservation of the invariant.
\<close>

section \<open>The abstract dequeue\<close>

lemma abs_take_Some:
  "abs_take p Q = (Some e, Q') \<Longrightarrow>
   \<exists>A b B es. Q = A @ b # B \<and> b_ents b = e # es \<and> e_addr e = p \<and> Q' = A @ b\<lparr>b_ents := es\<rparr> # B"
proof (induction Q arbitrary: Q')
  case (Cons b B)
  show ?case
  proof (cases "first_ent (b_ents b) None = Some p")
    case True
    with Cons.prems show ?thesis
      by (cases "b_ents b") (auto intro!: exI [of _ "[]"])
  next
    case False
    then obtain B' where B': "abs_take p B = (Some e, B')" "Q' = b # B'"
      using Cons.prems by (auto split: prod.splits)
    obtain A c C es where "B = A @ c # C" "b_ents c = e # es" "e_addr e = p" "B' = A @ c\<lparr>b_ents := es\<rparr> # C"
      using Cons.IH [OF B'(1)] by blast
    with B'(2) show ?thesis
      by (intro exI [of _ "b # A"] exI [of _ c] exI [of _ C] exI [of _ es]) simp
  qed
qed simp

lemma abs_take_ents:
  "abs_take p Q = (Some e, Q') \<Longrightarrow> mset (all_ents Q) = add_mset e (mset (all_ents Q'))"
  by (drule abs_take_Some) auto

lemma abs_take_store_ok:
  assumes "abs_take p Q = (Some e, Q')" "store_ok Q"
  shows "store_ok Q'"
proof -
  obtain A b B es where "Q = A @ b # B" "b_ents b = e # es" "Q' = A @ b\<lparr>b_ents := es\<rparr> # B"
    using abs_take_Some [OF assms(1)] by blast
  then show ?thesis using assms(2) by (auto simp: store_ok_def)
qed

lemma abs_take_pkt: "abs_take p Q = (Some e, Q') \<Longrightarrow> e \<in> set (all_ents Q) \<and> e_addr e = p"
  using abs_take_Some by force

text \<open>The entries that a search drops are dead at its time.\<close>

lemma pruned_mset:
  "list_all2 (pruned now hl) Q Q' \<Longrightarrow>
   \<exists>D. mset (all_ents Q) = D + mset (all_ents Q') \<and> (\<forall>e \<in># D. dead now hl e)"
proof (induction rule: list_all2_induct)
  case (Cons b B b' B')
  then obtain D where D: "mset (all_ents B) = D + mset (all_ents B')" "\<forall>e \<in># D. dead now hl e" by blast
  obtain d where "b_ents b = d @ b_ents b'" "\<forall>e \<in> set d. dead now hl e"
    using Cons.hyps(1) by (auto simp: pruned_def)
  with D show ?case by (intro exI [of _ "mset d + D"]) auto
qed simp

lemma abs_next_cases:
  assumes "abs_next now hl nxt Q = (r, nxt', Q')" "next_ok nxt Q"
  obtains (none) "nxt = None" "r = None" "nxt' = None" "Q' = Q"
  | (dead) p e where "nxt = Some p" "abs_take p Q = (Some e, Q')" "dead now hl e" "r = None" "nxt' = None"
  | (ripe) p e where "nxt = Some p" "abs_take p Q = (Some e, Q')" "ripe now e" "\<not> dead now hl e"
      "r = Some e" "nxt' = None"
  | (early) p e where "nxt = Some p" "p = e_addr e" "e \<in> set (heads Q)" "\<not> ripe now e"
      "\<not> dead now hl e" "r = None" "nxt' = nxt" "Q' = Q"
proof (cases nxt)
  case None
  with assms(1) show thesis by (intro none) (auto simp: abs_next_def)
next
  case (Some p)
  show thesis
  proof (cases "abs_take p Q")
    case (Pair x Q1)
    show thesis
    proof (cases x)
      case None
      obtain A b B e es where Q: "Q = A @ b # B" "b_ents b = e # es" "p = e_addr e"
        using assms(2) unfolding Some by (rule next_okE)
      have "fst (abs_take p (A @ b # B)) \<noteq> None"
        using Q(2,3) by (induction A) (auto split: prod.splits)
      with None Pair Q(1) show thesis by simp
    next
      case (Some e)
      with Pair have take: "abs_take p Q = (Some e, Q1)" by simp
      then have e: "p = e_addr e" "e \<in> set (heads Q)"
        using abs_take_Some [OF take] by (auto simp: mem_heads)
      consider "dead now hl e" | "\<not> dead now hl e" "ripe now e" | "\<not> dead now hl e" "\<not> ripe now e"
        by blast
      then show thesis
      proof cases
        case 1
        with take \<open>nxt = Some p\<close> assms(1) show thesis by (intro dead) (auto simp: abs_next_def)
      next
        case 2
        with take \<open>nxt = Some p\<close> assms(1) show thesis by (intro ripe) (auto simp: abs_next_def)
      next
        case 3
        with take e \<open>nxt = Some p\<close> assms(1) show thesis by (intro early) (auto simp: abs_next_def)
      qed
    qed
  qed
qed

lemma abs_now_cases:
  assumes "abs_now now hl r Q = (r', Q')" "distinct (map e_addr (all_ents Q))"
  obtains (none) "now_scan now hl Q = (None, Q')" "r' = r"
  | (some) p e Q1 where "now_scan now hl Q = (Some p, Q1)" "abs_take p Q1 = (Some e, Q')" "r' = Some e"
      "ripe now e" "\<not> dead now hl e"
proof (cases "now_scan now hl Q")
  case (Pair f Q1)
  show thesis
  proof (cases f)
    case None
    with Pair assms(1) show thesis by (intro none) (auto simp: abs_now_def)
  next
    case (Some p)
    with Pair have scan: "now_scan now hl Q = (Some p, Q1)" by simp
    obtain A b B e es where Q1: "Q1 = A @ b # B" "b_ents b = e # es" "e_addr e = p" "ripe now e"
      "\<not> dead now hl e"
      using now_scan_Some [OF scan] by blast
    obtain D where "mset (all_ents Q) = D + mset (all_ents Q1)"
      using pruned_mset [OF now_scan_pruned [OF scan]] by blast
    then have "mset (map e_addr (all_ents Q)) = image_mset e_addr D + mset (map e_addr (all_ents Q1))"
      by simp
    then have "distinct (map e_addr (all_ents Q1))"
      using assms(2) by (metis distinct_append ex_mset mset_append mset_eq_imp_distinct_iff)
    then have "abs_take p Q1 = (Some e, A @ b\<lparr>b_ents := es\<rparr> # B)"
      using abs_take_head Q1 by blast
    with scan Q1 assms(1) show thesis by (intro some) (auto simp: abs_now_def)
  qed
qed

definition opt_mset :: "'a option \<Rightarrow> 'a multiset" where
  "opt_mset r = (case r of None \<Rightarrow> {#} | Some e \<Rightarrow> {#e#})"

lemma opt_mset_simps [simp]: "opt_mset None = {#}" "opt_mset (Some e) = {#e#}"
  by (simp_all add: opt_mset_def)

lemma abs_dequeue_split:
  assumes "abs_dequeue tc tn tx hl nxt Q = (r, nxt', Q')"
  obtains r1 nxt1 Q1 Q2 where "abs_next tc hl nxt Q = (r1, nxt1, Q1)" "abs_now tn hl r1 Q1 = (r, Q2)"
    "abs_sched tx hl nxt1 Q2 = (nxt', Q')"
  using assms by (auto simp: abs_dequeue_def Let_def split: prod.splits)

lemma abs_next_mset:
  assumes "abs_next tc hl nxt Q = (r1, nxt1, Q1)" "next_ok nxt Q"
  shows "\<exists>D. mset (all_ents Q) = opt_mset r1 + D + mset (all_ents Q1) \<and> (\<forall>e \<in># D. dead tc hl e)"
  using assms
proof (cases rule: abs_next_cases)
  case (dead p e)
  then show ?thesis using abs_take_ents [OF dead(2)] by (intro exI [of _ "{#e#}"]) simp
qed (auto dest: abs_take_ents)

lemma abs_now_mset:
  assumes "abs_now tn hl r1 Q1 = (r, Q2)" "distinct (map e_addr (all_ents Q1))"
  shows "\<exists>L D. mset (all_ents Q1) + opt_mset r1 = opt_mset r + L + D + mset (all_ents Q2) \<and>
               (\<forall>e \<in># D. dead tn hl e) \<and> (L = {#} \<or> L = opt_mset r1 \<and> r \<noteq> None)"
  using assms
proof (cases rule: abs_now_cases)
  case none
  then obtain D where "mset (all_ents Q1) = D + mset (all_ents Q2)" "\<forall>e \<in># D. dead tn hl e"
    using pruned_mset [OF now_scan_pruned [OF none(1)]] by blast
  then show ?thesis using none(2) by (intro exI [of _ "{#}"] exI [of _ D]) simp
next
  case (some p e Q3)
  then obtain D where "mset (all_ents Q1) = D + mset (all_ents Q3)" "\<forall>e \<in># D. dead tn hl e"
    using pruned_mset [OF now_scan_pruned [OF some(1)]] by blast
  then show ?thesis using some(3) abs_take_ents [OF some(2)]
    by (intro exI [of _ "opt_mset r1"] exI [of _ D]) simp
qed

lemma abs_sched_mset:
  assumes "abs_sched tx hl nxt1 Q2 = (nxt', Q')"
  shows "\<exists>D. mset (all_ents Q2) = D + mset (all_ents Q') \<and> (\<forall>e \<in># D. dead tx hl e)"
proof -
  obtain f where "next_scan tx hl (- 1) None Q2 = (f, Q')"
    using assms by (auto simp: abs_sched_def split: prod.splits)
  then show ?thesis using pruned_mset [OF next_scan_pruned] by blast
qed

lemma distinct_submset:
  assumes "distinct (map f xs)" "mset xs = D + mset ys"
  shows "distinct (map f ys)"
proof -
  have "mset (map f xs) = image_mset f D + mset (map f ys)" using assms(2) by simp
  then show ?thesis
    using assms(1) by (metis distinct_append ex_mset mset_append mset_eq_imp_distinct_iff)
qed

text \<open>Conservation: the entries of the store before the call are the one returned, at most one
  that the first part took and the second part replaced, dead ones, and those still stored.\<close>

lemma abs_dequeue_conserves:
  assumes D: "abs_dequeue tc tn tx hl nxt Q = (r, nxt', Q')" and ok: "next_ok nxt Q"
    and dist: "distinct (map e_addr (all_ents Q))"
  shows "\<exists>L D. mset (all_ents Q) = opt_mset r + L + D + mset (all_ents Q') \<and>
           (\<forall>e \<in># D. \<exists>t \<in> {tc, tn, tx}. dead t hl e) \<and>
           (L = {#} \<or> (\<exists>e. L = {#e#} \<and> nxt = Some (e_addr e) \<and> ripe tc e \<and> r \<noteq> None))"
proof -
  obtain r1 nxt1 Q1 Q2 where parts: "abs_next tc hl nxt Q = (r1, nxt1, Q1)"
    "abs_now tn hl r1 Q1 = (r, Q2)" "abs_sched tx hl nxt1 Q2 = (nxt', Q')"
    using abs_dequeue_split [OF D] by blast
  obtain D1 where D1: "mset (all_ents Q) = opt_mset r1 + D1 + mset (all_ents Q1)" "\<forall>e \<in># D1. dead tc hl e"
    using abs_next_mset [OF parts(1) ok] by blast
  have "distinct (map e_addr (all_ents Q1))" using distinct_submset [OF dist D1(1)] .
  then obtain L D2 where D2: "mset (all_ents Q1) + opt_mset r1 = opt_mset r + L + D2 + mset (all_ents Q2)"
    "\<forall>e \<in># D2. dead tn hl e" "L = {#} \<or> L = opt_mset r1 \<and> r \<noteq> None"
    using abs_now_mset [OF parts(2)] by blast
  obtain D3 where D3: "mset (all_ents Q2) = D3 + mset (all_ents Q')" "\<forall>e \<in># D3. dead tx hl e"
    using abs_sched_mset [OF parts(3)] by blast
  have "L = {#} \<or> (\<exists>e. L = {#e#} \<and> nxt = Some (e_addr e) \<and> ripe tc e \<and> r \<noteq> None)"
    using parts(1) ok
  proof (cases rule: abs_next_cases)
    case (ripe p e)
    then show ?thesis using D2(3) abs_take_pkt [OF ripe(2)] by auto
  qed (use D2(3) in auto)
  moreover have "mset (all_ents Q) = opt_mset r + L + (D1 + D2 + D3) + mset (all_ents Q')"
    using D1(1) D2(1) D3(1) by (simp add: ac_simps)
  moreover have "\<forall>e \<in># D1 + D2 + D3. \<exists>t \<in> {tc, tn, tx}. dead t hl e"
    using D1(2) D2(2) D3(2) by auto
  ultimately show ?thesis by blast
qed

lemma abs_dequeue_released:
  assumes D: "abs_dequeue tc tn tx hl nxt Q = (Some e, nxt', Q')" and ok: "next_ok nxt Q"
    and dist: "distinct (map e_addr (all_ents Q))"
  shows "\<exists>t \<in> {tc, tn}. ripe t e \<and> \<not> dead t hl e"
proof -
  obtain r1 nxt1 Q1 Q2 where parts: "abs_next tc hl nxt Q = (r1, nxt1, Q1)"
    "abs_now tn hl r1 Q1 = (Some e, Q2)" "abs_sched tx hl nxt1 Q2 = (nxt', Q')"
    using abs_dequeue_split [OF D] by blast
  obtain D1 where "mset (all_ents Q) = opt_mset r1 + D1 + mset (all_ents Q1)"
    using abs_next_mset [OF parts(1) ok] by blast
  then have "distinct (map e_addr (all_ents Q1))" using distinct_submset [OF dist] by blast
  with parts(2) show ?thesis
  proof (cases rule: abs_now_cases)
    case none
    then have "r1 = Some e" by simp
    with parts(1) ok show ?thesis by (cases rule: abs_next_cases) simp_all
  next
    case (some p x Q3)
    then show ?thesis by simp
  qed
qed

lemma abs_dequeue_store_ok:
  assumes D: "abs_dequeue tc tn tx hl nxt Q = (r, nxt', Q')" and ok: "next_ok nxt Q" "store_ok Q"
    and dist: "distinct (map e_addr (all_ents Q))"
  shows "store_ok Q'"
proof -
  obtain r1 nxt1 Q1 Q2 where parts: "abs_next tc hl nxt Q = (r1, nxt1, Q1)"
    "abs_now tn hl r1 Q1 = (r, Q2)" "abs_sched tx hl nxt1 Q2 = (nxt', Q')"
    using abs_dequeue_split [OF D] by blast
  have ok1: "store_ok Q1"
    using parts(1) ok(1) by (cases rule: abs_next_cases) (auto intro: abs_take_store_ok ok(2))
  obtain D1 where "mset (all_ents Q) = opt_mset r1 + D1 + mset (all_ents Q1)"
    using abs_next_mset [OF parts(1) ok(1)] by blast
  then have "distinct (map e_addr (all_ents Q1))" using distinct_submset [OF dist] by blast
  with parts(2) have "store_ok Q2"
  proof (cases rule: abs_now_cases)
    case none
    then show ?thesis using pruned_store_ok [OF now_scan_pruned] ok1 by blast
  next
    case (some p e Q3)
    then show ?thesis using pruned_store_ok [OF now_scan_pruned] ok1 abs_take_store_ok by blast
  qed
  moreover obtain f where "next_scan tx hl (- 1) None Q2 = (f, Q')"
    using parts(3) by (auto simp: abs_sched_def split: prod.splits)
  ultimately show ?thesis using pruned_store_ok [OF next_scan_pruned] by blast
qed

text \<open>If nothing is returned, nothing that is still stored could have left.\<close>

lemma abs_dequeue_idle:
  assumes D: "abs_dequeue tc tn tx hl nxt Q = (None, nxt', Q')" and ok: "next_ok nxt Q" "store_ok Q"
    and dist: "distinct (map e_addr (all_ents Q))"
  shows "\<forall>e \<in> set (all_ents Q'). \<not> ripe tn e"
proof -
  obtain r1 nxt1 Q1 Q2 where parts: "abs_next tc hl nxt Q = (r1, nxt1, Q1)"
    "abs_now tn hl r1 Q1 = (None, Q2)" "abs_sched tx hl nxt1 Q2 = (nxt', Q')"
    using abs_dequeue_split [OF D] by blast
  have ok1: "store_ok Q1"
    using parts(1) ok(1) by (cases rule: abs_next_cases) (auto intro: abs_take_store_ok ok(2))
  obtain D1 where "mset (all_ents Q) = opt_mset r1 + D1 + mset (all_ents Q1)"
    using abs_next_mset [OF parts(1) ok(1)] by blast
  then have "distinct (map e_addr (all_ents Q1))" using distinct_submset [OF dist] by blast
  with parts(2) have scan: "now_scan tn hl Q1 = (None, Q2)"
    by (cases rule: abs_now_cases) auto
  have ok2: "store_ok Q2" using pruned_store_ok [OF now_scan_pruned [OF scan] ok1] .
  have "\<not> ripe tn e" if e: "e \<in> set (all_ents Q2)" for e
  proof -
    obtain h where "h \<in> set (heads Q2)" "e_tmin h \<le> e_tmin e" using heads_min [OF ok2 e] by blast
    then show ?thesis using now_scan_None [OF scan] by (auto simp: ripe_def)
  qed
  moreover obtain D3 where "mset (all_ents Q2) = D3 + mset (all_ents Q')"
    using abs_sched_mset [OF parts(3)] by blast
  then have "set (all_ents Q') \<subseteq> set (all_ents Q2)"
    by (metis mset_subset_eq_add_right set_mset_mono set_mset_mset)
  ultimately show ?thesis by blast
qed

text \<open>\<open>next_pnode\<close> after the call is the first of its queue: the search of the third part found
  one, or the old one was kept and, not having become due during the call, it is still stored.\<close>

lemma now_scan_keeps_head:
  "now_scan now hl Q = (f, Q') \<Longrightarrow> h \<in> set (heads Q) \<Longrightarrow> \<not> ripe now h \<Longrightarrow> h \<in> set (heads Q')"
proof (induction Q arbitrary: f Q')
  case (Cons b B)
  obtain g B' where B: "now_scan now hl B = (g, B')" by fastforce
  show ?case
  proof (cases "h \<in> set (heads B)")
    case True
    then show ?thesis using Cons.IH [OF B] Cons.prems B by (auto simp: Let_def split: if_splits)
  next
    case False
    with Cons.prems(2) obtain es where "b_ents b = h # es" by (cases "b_ents b") auto
    then show ?thesis using Cons.prems B by (auto simp: Let_def split: if_splits)
  qed
qed simp

lemma pruned_keeps_head:
  assumes "list_all2 (pruned now hl) Q Q'" "h \<in> set (heads Q)" "\<not> dead now hl h"
  shows "h \<in> set (heads Q')"
  using assms(1,2)
proof (induction rule: list_all2_induct)
  case (Cons b B b' B')
  obtain d where d: "b_ents b = d @ b_ents b'" "\<forall>e \<in> set d. dead now hl e"
    using Cons.hyps(1) by (auto simp: pruned_def)
  show ?case
  proof (cases "h \<in> set (heads B)")
    case True
    then show ?thesis using Cons.IH by simp
  next
    case False
    with Cons.prems obtain es where "b_ents b = h # es"
      by (cases "b_ents b") auto
    moreover have "d = []" using d assms(3) calculation by (cases d) auto
    ultimately have "b_ents b' = h # es" using d(1) by simp
    then show ?thesis by simp
  qed
qed simp

lemma abs_take_keeps_head:
  assumes "abs_take p Q = (Some e, Q')" "h \<in> set (heads Q)" "h \<noteq> e"
  shows "h \<in> set (heads Q')"
proof -
  obtain A b B es where "Q = A @ b # B" "b_ents b = e # es" "Q' = A @ b\<lparr>b_ents := es\<rparr> # B"
    using abs_take_Some [OF assms(1)] by blast
  with assms show ?thesis by auto
qed

text \<open>\<open>next_pnode\<close> stays the first pnode of a queue when the pnode it points to, if it was not due
  at the first reading of the clock, is not due at the second one and has not expired at the
  third.\<close>

lemma abs_dequeue_next_ok:
  assumes D: "abs_dequeue tc tn tx hl nxt Q = (r, nxt', Q')" and ok: "next_ok nxt Q"
    and dist: "distinct (map e_addr (all_ents Q))"
    and still: "\<And>e. e \<in> set (heads Q) \<Longrightarrow> nxt = Some (e_addr e) \<Longrightarrow> \<not> ripe tc e \<Longrightarrow> \<not> dead tc hl e \<Longrightarrow>
                  \<not> ripe tn e \<and> \<not> dead tx hl e"
  shows "next_ok nxt' Q'"
proof -
  obtain r1 nxt1 Q1 Q2 where parts: "abs_next tc hl nxt Q = (r1, nxt1, Q1)"
    "abs_now tn hl r1 Q1 = (r, Q2)" "abs_sched tx hl nxt1 Q2 = (nxt', Q')"
    using abs_dequeue_split [OF D] by blast
  obtain D1 where "mset (all_ents Q) = opt_mset r1 + D1 + mset (all_ents Q1)"
    using abs_next_mset [OF parts(1) ok] by blast
  then have dist1: "distinct (map e_addr (all_ents Q1))" using distinct_submset [OF dist] by blast
  obtain f where f: "next_scan tx hl (- 1) None Q2 = (f, Q')" "nxt' = (if f = None then nxt1 else f)"
    using parts(3) by (auto simp: abs_sched_def split: prod.splits)
  show ?thesis
  proof (cases "f = None \<and> nxt1 \<noteq> None")
    case False
    then show ?thesis using next_scan_found [OF f(1)] f(2) by (auto simp: next_ok_def next_found_def)
  next
    case True
    obtain e where e: "nxt1 = Some (e_addr e)" "e \<in> set (heads Q1)" "\<not> ripe tn e" "\<not> dead tx hl e"
      using parts(1) ok by (cases rule: abs_next_cases) (use True still in auto)
    from parts(2) dist1 have "e \<in> set (heads Q2)"
    proof (cases rule: abs_now_cases)
      case none
      then show ?thesis using now_scan_keeps_head e by blast
    next
      case (some p x Q3)
      have "e \<in> set (heads Q3)" using now_scan_keeps_head [OF some(1)] e by blast
      then show ?thesis using abs_take_keeps_head [OF some(2)] some(4) e(3) by blast
    qed
    then have "e \<in> set (heads Q')" using pruned_keeps_head [OF next_scan_pruned [OF f(1)]] e(4) by blast
    then show ?thesis using True f(2) e(1) by (simp add: next_ok_def)
  qed
qed

section \<open>Dequeue on the heap\<close>

text \<open>The first three parts of \<open>lbf_dequeue\<close> compute the abstract dequeue.\<close>

lemma dequeue_store_refines:
  assumes R: "store_repr s Q" and ok: "next_ok (next_pnode s) Q"
    and D: "abs_dequeue (k_ticks2ns K (t_curr t)) (k_ticks2ns K (t_now t)) (k_ticks2ns K (t_next t))
              (hops_left (vars s)) (next_pnode s) Q = (r, nxt', Q')"
  shows "\<exists>s'. dequeue_store K t s = Some (Inr (Option.bind r e_pkt, s')) \<and> store_repr s' Q' \<and>
           next_pnode s' = nxt' \<and> deq_only s s' \<and> sch s' \<in> {sch s, k_qstats_drop K (sch s)}"
proof -
  obtain r1 nxt1 Q1 Q2 where parts:
    "abs_next (k_ticks2ns K (t_curr t)) (hops_left (vars s)) (next_pnode s) Q = (r1, nxt1, Q1)"
    "abs_now (k_ticks2ns K (t_now t)) (hops_left (vars s)) r1 Q1 = (r, Q2)"
    "abs_sched (k_ticks2ns K (t_next t)) (hops_left (vars s)) nxt1 Q2 = (nxt', Q')"
    using abs_dequeue_split [OF D] by blast
  obtain s1 where s1: "dequeue_next K (k_ticks2ns K (t_curr t)) s = Inr (Option.bind r1 e_pkt, s1)"
    "store_repr s1 Q1" "next_pnode s1 = nxt1" "deq_only s s1" "sch s1 \<in> {sch s, k_qstats_drop K (sch s)}"
    using dequeue_next_refines [OF R ok parts(1)] by blast
  have v1: "vars s1 = vars s" using s1(4) by (simp add: deq_only_def)
  obtain s2 where s2: "dequeue_now (k_ticks2ns K (t_now t)) (Option.bind r1 e_pkt) s1 =
      Some (Inr (Option.bind r e_pkt, s2))" "store_repr s2 Q2" "store_only s1 s2"
    using dequeue_now_refines [OF s1(2), of "k_ticks2ns K (t_now t)" r1 r Q2] parts(2) v1 by auto
  note so = store_only_fields [OF s2(3)] store_only_sch [OF s2(3)] store_only_deq_only [OF s2(3)]
  have "abs_sched (k_ticks2ns K (t_next t)) (hops_left (vars s2)) (next_pnode s2) Q2 = (nxt', Q')"
    using parts(3) v1 s1(3) so by simp
  then obtain s3 where s3: "dequeue_sched (k_ticks2ns K (t_next t)) s2 = Some (Inr s3)"
    "store_repr s3 Q'" "next_pnode s3 = nxt'" "deq_only s2 s3" "sch s3 = sch s2"
    using dequeue_sched_refines [OF s2(2)] by blast
  have "dequeue_store K t s = Some (Inr (Option.bind r e_pkt, s3))"
    using s1(1) s2(1) s3(1) by (simp add: dequeue_store_def)
  moreover have "deq_only s s3"
    using s1(4) so(7) s3(4) by (meson deq_only_trans)
  ultimately show ?thesis using s1(5) so(6) s3 by auto
qed

section \<open>The packet that leaves\<close>

lemma dequeue_account_ok:
  assumes "skbs s p = Some b" "stored_wf b"
  shows "\<exists>d bytes. dequeue_account K now p s =
     Inr (s\<lparr>stats := (stats s)\<lparr>stats_delay := d\<rparr>, skbs := (skbs s)(p \<mapsto> b\<lparr>head_bytes := bytes\<rparr>)\<rparr>)"
proof -
  obtain i where i: "contract_at b = Inr (Some i)" "i + 12 \<le> length (head_bytes b)"
    using assms(2) by (auto simp: stored_wf_def sizeof_lbf_def split: sum.splits option.splits)
  then show ?thesis
    using assms(1) by (simp add: dequeue_account_def skb_at_def Let_def ld16_def st16_def)
      (metis (full_types))
qed

lemma packets_ok_sub:
  assumes ok: "packets_ok fifo s Q" and sub: "mset (all_ents Q) = M + mset (all_ents Q')"
    and f: "fifo (kern (sch s)) = fs @ fifo (kern (sch s'))"
    and sk: "\<And>p. p \<in> set (pkts Q') \<union> set (fifo (kern (sch s'))) \<Longrightarrow> skbs s' p = skbs s p"
  shows "packets_ok fifo s' Q'"
proof -
  have m: "mset (pkts Q) = image_mset (\<lambda>e. the (e_pkt e)) M + mset (pkts Q')"
    using sub by (simp add: pkts_def)
  then have m2: "mset (pkts Q @ fifo (kern (sch s))) =
      (image_mset (\<lambda>e. the (e_pkt e)) M + mset fs) + mset (pkts Q' @ fifo (kern (sch s')))"
    using f by simp
  then have "distinct (pkts Q' @ fifo (kern (sch s')))"
    using distinct_submset [of "\<lambda>x. x", OF _ m2] ok unfolding packets_ok_def by simp
  moreover have "set (pkts Q') \<subseteq> set (pkts Q)" "set (all_ents Q') \<subseteq> set (all_ents Q)"
    using m sub by (metis mset_subset_eq_add_right set_mset_mono set_mset_mset)+
  ultimately show ?thesis using ok sk f unfolding packets_ok_def by auto
qed

lemma qlen_dec: "0 < n \<Longrightarrow> n \<le> unat (q :: u32) \<Longrightarrow> unat (q - 1) = unat q - 1"
  by (metis gr0I le_zero_eq less_nat_zero_code unat_minus_one unat_0)

lemma dequeue_fifo_safe:
  assumes K: "kernel_laws K fifo" and R: "store_repr s Q" and ok: "packets_ok fifo s Q"
    and len: "length (pkts Q) + length (fifo (kern (sch s))) \<le> unat (qlen (sch s))"
  shows "\<exists>res s'. dequeue_fifo K now s = Inr (res, s') \<and> store_repr s' Q \<and> packets_ok fifo s' Q \<and>
           next_pnode s' = next_pnode s \<and> vars s' = vars s \<and>
           length (pkts Q) + length (fifo (kern (sch s'))) \<le> unat (qlen (sch s')) \<and>
           (fifo (kern (sch s)) = [] \<longrightarrow> res = None) \<and>
           (\<forall>p. res = Some p \<longrightarrow> fifo (kern (sch s)) = p # fifo (kern (sch s')))"
proof (cases "k_dequeue_head K (sch s)")
  case (Pair h q)
  show ?thesis
  proof (cases h)
    case None
    with Pair have q: "fifo (kern (sch s)) = []" "same_queue fifo (sch s) q"
      using kernel_lawsD(8) [OF K] by auto
    let ?s' = "s\<lparr>sch := q\<rparr>"
    have "packets_ok fifo ?s' Q"
      by (rule packets_ok_sub [OF ok, of "{#}" _ "[]"]) (use q in \<open>auto simp: same_queue_def\<close>)
    moreover have "dequeue_fifo K now s = Inr (None, ?s')" using Pair None by (simp add: dequeue_fifo_def)
    ultimately show ?thesis using q R len by (auto simp: same_queue_def store_repr_def)
  next
    case (Some p)
    with Pair have deq: "k_dequeue_head K (sch s) = (Some p, q)" by simp
    note q = kernel_lawsD(9) [OF K deq]
    obtain b where b: "skbs s p = Some b" "skb_wf b" using ok q by (auto simp: packets_ok_def)
    obtain c where c: "contract_of b = Inr c" using b(2) by (auto simp: skb_wf_def split: sum.splits)
    let ?d = "now - lbf_get_enqueue_time b"
    let ?s = "s\<lparr>sch := q, stats := (stats s)\<lparr>stats_delay := ?d\<rparr>\<rparr>"
    have fresh: "p \<notin> set (pkts Q)" "p \<notin> set (fifo (kern q))" using ok q by (auto simp: packets_ok_def)
    have len': "length (pkts Q) + length (fifo (kern q)) \<le> unat (qlen q)"
      using q len qlen_dec [of "length (fifo (kern (sch s)))" "qlen (sch s)"] by simp
    have finish: ?thesis
      if eq: "dequeue_fifo K now s = Inr (res, s')" and res: "res = None \<or> res = Some p"
        and s': "store_repr s' Q" "next_pnode s' = next_pnode s" "vars s' = vars s"
          "same_queue fifo q (sch s')" "skbs s' = skbs s \<or> skbs s' = (skbs s)(p := x)" for res s' x
    proof -
      have "packets_ok fifo s' Q"
        by (rule packets_ok_sub [OF ok, of "{#}" _ "[p]"])
          (use q s' fresh in \<open>auto simp: same_queue_def\<close>)
      then show ?thesis using eq res s' len' q by (auto simp: same_queue_def)
    qed
    have eq: "dequeue_fifo K now s = (case c of None \<Rightarrow> Inr (Some p, ?s)
        | Some (i, t) \<Rightarrow> if t = htons 1 then mdf_check K p i b ?d ?s else Inr (Some p, ?s))"
      using deq b(1) c by (cases c) (auto simp: dequeue_fifo_def skb_at_def Let_def)
    show ?thesis
    proof (cases "\<exists>i. c = Some (i, htons 1)")
      case False
      then have "dequeue_fifo K now s = Inr (Some p, ?s)" unfolding eq by (cases c) auto
      then show ?thesis
        by (rule finish [where x = None]) (use R in \<open>auto simp: store_repr_def same_queue_def\<close>)
    next
      case True
      then obtain i where i: "c = Some (i, htons 1)" by blast
      then have i6: "i + 6 \<le> length (head_bytes b)"
        using b(2) c by (simp add: skb_wf_def contract_size_def sizeof_mdf_def split: if_splits)
      then obtain m where m: "get_mdf (head_bytes b) i = Inr m"
        using mdf_wire.get_ok [of "head_bytes b" i] by (auto simp: in_buf_def sizeof_mdf_def)
      let ?exp = "ntohs (delay_exp m)"
      show ?thesis
      proof (cases "ucast ?exp + ?d > ucast (ntohs (max_allowed_delay m))")
        case True
        let ?s' = "qstats_drop K (?s\<lparr>skbs := (skbs s)(p := None)\<rparr>)"
        have "dequeue_fifo K now s = Inr (None, ?s')" using True m i by (simp add: eq mdf_check_def Let_def)
        then show ?thesis
          by (rule finish [where x = None])
            (use R kernel_lawsD(1) [OF K] in \<open>auto simp: qstats_drop_def store_repr_def\<close>)
      next
        case False
        obtain bytes where "st16 (head_bytes b) (i + 4) (htons (ucast (ucast ?exp + ?d))) = Inr bytes"
          using i6 by (simp add: st16_def)
        with False m i have "dequeue_fifo K now s =
            Inr (Some p, ?s\<lparr>skbs := (skbs s)(p \<mapsto> b\<lparr>head_bytes := bytes\<rparr>)\<rparr>)"
          by (simp add: eq mdf_check_def Let_def)
        then show ?thesis
          by (rule finish [where x = "Some (b\<lparr>head_bytes := bytes\<rparr>)"])
            (use R in \<open>auto simp: store_repr_def same_queue_def\<close>)
      qed
    qed
  qed
qed

text \<open>\<open>lbf_dequeue\<close> returns without a fault, keeps the invariant and computes the abstract
  dequeue; the packet of the entry it takes is the one returned, and without one the FIFO is
  served.\<close>

lemma dequeue_safe:
  assumes K: "kernel_laws K fifo" and S: "qdisc_safe fifo s Q"
    and D: "abs_dequeue (k_ticks2ns K (t_curr t)) (k_ticks2ns K (t_now t)) (k_ticks2ns K (t_next t))
              (hops_left (vars s)) (next_pnode s) Q = (r, nxt', Q')"
  shows "\<exists>res s'. lbf_dequeue K t s = Some (Inr (res, s')) \<and> qdisc_inv fifo s' Q' \<and>
           next_pnode s' = nxt' \<and> vars s' = vars s \<and>
           (\<forall>e. r = Some e \<longrightarrow> res = e_pkt e \<and> res \<noteq> None \<and> fifo (kern (sch s')) = fifo (kern (sch s)) \<and>
                            dom (skbs s') = dom (skbs s)) \<and>
           (r = None \<longrightarrow> (\<forall>p. res = Some p \<longrightarrow> fifo (kern (sch s)) = p # fifo (kern (sch s'))) \<and>
                         (fifo (kern (sch s)) = [] \<longrightarrow> res = None))"
proof -
  have inv: "store_repr s Q" "store_ok Q" "packets_ok fifo s Q" "next_ok (next_pnode s) Q"
    and len: "length (pkts Q) + length (fifo (kern (sch s))) \<le> unat (qlen (sch s))"
    using S by (auto simp: qdisc_safe_def qdisc_inv_def)
  note dist = store_repr_distinct [OF inv(1)]
  obtain s1 where s1: "dequeue_store K t s = Some (Inr (Option.bind r e_pkt, s1))" "store_repr s1 Q'"
    "next_pnode s1 = nxt'" "deq_only s s1" "sch s1 \<in> {sch s, k_qstats_drop K (sch s)}"
    using dequeue_store_refines [OF inv(1,4) D] by blast
  have q1: "same_queue fifo (sch s) (sch s1)"
    using s1(5) kernel_lawsD(1) [OF K] by (auto simp: same_queue_def)
  have f1: "skbs s1 = skbs s" "vars s1 = vars s" using s1(4) by (simp_all add: deq_only_def)
  have ok': "store_ok Q'" using abs_dequeue_store_ok [OF D inv(4,2) dist] .
  obtain L D' where cons: "mset (all_ents Q) = opt_mset r + L + D' + mset (all_ents Q')"
    using abs_dequeue_conserves [OF D inv(4) dist] by blast
  then have lenQ: "length (pkts Q) = size (opt_mset r) + size L + size D' + length (pkts Q')"
    unfolding pkts_def by (metis length_map size_mset size_union)
  show ?thesis
  proof (cases r)
    case None
    have "packets_ok fifo s1 Q'"
      by (rule packets_ok_sub [OF inv(3) cons, of "[]"]) (use q1 f1 in \<open>auto simp: same_queue_def\<close>)
    moreover have "length (pkts Q') + length (fifo (kern (sch s1))) \<le> unat (qlen (sch s1))"
      using lenQ len q1 by (simp add: same_queue_def)
    ultimately obtain res s' where s': "dequeue_fifo K (t_stat t) s1 = Inr (res, s')" "store_repr s' Q'"
      "packets_ok fifo s' Q'" "next_pnode s' = next_pnode s1" "vars s' = vars s1"
      "length (pkts Q') + length (fifo (kern (sch s'))) \<le> unat (qlen (sch s'))"
      "fifo (kern (sch s1)) = [] \<longrightarrow> res = None"
      "\<forall>p. res = Some p \<longrightarrow> fifo (kern (sch s1)) = p # fifo (kern (sch s'))"
      using dequeue_fifo_safe [OF K s1(2)] by blast
    have "lbf_dequeue K t s = Some (Inr (res, s'))"
      using s1(1) s'(1) None by (simp add: lbf_dequeue_def)
    with s' ok' s1(3) f1 q1 None show ?thesis by (auto simp: qdisc_inv_def same_queue_def)
  next
    case (Some e)
    have e: "e \<in> set (all_ents Q)"
      using arg_cong [OF cons, of set_mset] Some by auto
    then obtain p where p: "e_pkt e = Some p" using inv(3) by (auto simp: packets_ok_def)
    with e have pQ: "p \<in> set (pkts Q)" by (force simp: pkts_def)
    then obtain b where b: "skbs s p = Some b" "stored_wf b" using inv(3) by (auto simp: packets_ok_def)
    have "mset (pkts Q) = add_mset p (image_mset (\<lambda>e. the (e_pkt e)) (L + D') + mset (pkts Q'))"
      using cons Some p by (simp add: pkts_def)
    then have m: "mset (pkts Q) = image_mset (\<lambda>e. the (e_pkt e)) (L + D') + mset (p # pkts Q')" by simp
    have "distinct (p # pkts Q')"
      using distinct_submset [of "\<lambda>x. x", OF _ m] inv(3) unfolding packets_ok_def by simp
    then have fresh: "p \<notin> set (pkts Q')" "p \<notin> set (fifo (kern (sch s)))"
      using inv(3) pQ by (auto simp: packets_ok_def)
    obtain d bytes where acc: "dequeue_account K (t_stat t) p s1 =
        Inr (s1\<lparr>stats := (stats s1)\<lparr>stats_delay := d\<rparr>, skbs := (skbs s1)(p \<mapsto> b\<lparr>head_bytes := bytes\<rparr>)\<rparr>)"
      using dequeue_account_ok [of s1 p b K "t_stat t"] b f1 by auto
    let ?s2 = "s1\<lparr>stats := (stats s1)\<lparr>stats_delay := d\<rparr>, skbs := (skbs s1)(p \<mapsto> b\<lparr>head_bytes := bytes\<rparr>)\<rparr>"
    let ?s' = "dequeue_done K p ?s2"
    have q2: "fifo (kern (sch ?s')) = fifo (kern (sch s))" "qlen (sch ?s') = qlen (sch s) - 1"
      using q1 kernel_lawsD(3,4) [OF K] by (simp_all add: dequeue_done_def Let_def same_queue_def)
    have f2: "skbs ?s' = (skbs s)(p \<mapsto> b\<lparr>head_bytes := bytes\<rparr>)" "next_pnode ?s' = nxt'"
      "vars ?s' = vars s"
      using f1 s1(3) by (simp_all add: dequeue_done_def Let_def)
    have "packets_ok fifo ?s' Q'"
      by (rule packets_ok_sub [OF inv(3) cons, of "[]"]) (use q2 f2 fresh in auto)
    moreover have "store_repr ?s' Q'"
      using s1(2) by (simp add: store_repr_def dequeue_done_def Let_def)
    moreover have "length (pkts Q') + length (fifo (kern (sch ?s'))) \<le> unat (qlen (sch ?s'))"
      using lenQ len q2 Some qlen_dec [of 1 "qlen (sch s)"] by simp
    moreover have "lbf_dequeue K t s = Some (Inr (Some p, ?s'))"
      using s1(1) acc Some p by (simp add: lbf_dequeue_def)
    moreover have "dom (skbs ?s') = dom (skbs s)" unfolding f2(1) using b(1) by auto
    ultimately show ?thesis using Some p ok' f2 q2 by (auto simp: qdisc_inv_def)
  qed
qed

end
