(* ===== verification/Lbf_System.thy ===== *)
theory Lbf_System
  imports Lbf_Release
begin

text \<open>
  The queue discipline as a system: its runs from \<open>lbf_init\<close>, what holds in every state they
  reach, what each call does to the packets, and what goes wrong outside the conditions of the
  runs. Every example runs on \<open>sample_kernel\<close>.
\<close>

section \<open>Runs\<close>

text \<open>A packet arrives in a buffer that does not exist yet, with the headers that the code reads
  within the buffer. The calls are those of \<open>lbf_qdisc_ops\<close> that change the state, with any
  clock readings, any allocation failures and any configuration; \<open>lbf_peek\<close> has no step of its own,
  as it lets the kernel call \<open>lbf_dequeue\<close>, and \<open>lbf_destroy\<close> ends a run. Three conditions, each of them
  about the state and the input of a call, keep the runs away from the sequences of \<open>Lbf_Faults\<close>:
  the packet does not overtake the one \<open>next_pnode\<close> points to, that one does not become due while
  \<open>lbf_dequeue\<close> is running, and \<open>lbf_reset\<close> is called with nothing stored.\<close>

definition arrive :: "nat \<Rightarrow> sk_buff \<Rightarrow> 'k lbf_qdisc \<Rightarrow> 'k lbf_qdisc" where
  "arrive p b s = s\<lparr>skbs := (skbs s)(p \<mapsto> b)\<rparr>"

text \<open>The pnode that \<open>next_pnode\<close> points to is neither due nor expired when \<open>lbf_dequeue\<close> looks at
  it, and is due when \<open>search_now_pnode\<close> reads the clock or expired when \<open>search_next_pnode\<close> does.\<close>

definition due_midway :: "'k kernel_ops \<Rightarrow> clocks \<Rightarrow> 'k lbf_qdisc \<Rightarrow> bool" where
  "due_midway K t s =
     (case Option.bind (next_pnode s) (pheap s) of
        None \<Rightarrow> False
      | Some n \<Rightarrow>
          k_ticks2ns K (t_curr t) < tmin_nsec n \<and> \<not> expired (k_ticks2ns K (t_curr t)) s n \<and>
          (tmin_nsec n \<le> k_ticks2ns K (t_now t) \<or> expired (k_ticks2ns K (t_next t)) s n))"

inductive lbf_reach ::
  "'k kernel_ops \<Rightarrow> ('o, 'a, 'm) netlink_ops \<Rightarrow> ('k \<Rightarrow> nat list) \<Rightarrow> 'k lbf_qdisc \<Rightarrow> bool"
  for K N fifo where
  init: "lbf_reach K N fifo s"
    if "lbf_init N opt s0 = (ret, s)" "pheap s0 = Map.empty" "hheap s0 = Map.empty"
      "fifo (kern (sch s0)) = []"
| enqueue: "lbf_reach K N fifo s'"
    if "lbf_reach K N fifo s" "skbs s p = None" "skb_wf b" "\<not> overtakes K now b s"
      "lbf_enqueue K now_set now p (arrive p b s) to_free = Some (Inr (ret, s', to_free'))"
| dequeue: "lbf_reach K N fifo s'"
    if "lbf_reach K N fifo s" "\<not> due_midway K t s" "lbf_dequeue K t s = Some (Inr (res, s'))"
| change: "lbf_reach K N fifo s'"
    if "lbf_reach K N fifo s" "lbf_change N opt s = (ret, s')"
| reset: "lbf_reach K N fifo (lbf_reset K s)"
    if "lbf_reach K N fifo s" "pheap s = Map.empty"

lemma store_repr_frame [simp]:
  "store_repr (s\<lparr>sch := q\<rparr>) Q = store_repr s Q"
  "store_repr (s\<lparr>skbs := m\<rparr>) Q = store_repr s Q"
  by (simp_all add: store_repr_def)

lemma lbf_init_safe:
  assumes "lbf_init N opt s0 = (ret, s)" "pheap s0 = Map.empty" "hheap s0 = Map.empty"
    and "fifo (kern (sch s0)) = []"
  shows "qdisc_safe fifo s []"
  using assms
  by (auto simp: lbf_init_def lbf_change_def Let_def qdisc_safe_def qdisc_inv_def store_repr_def
      list_head_ok_def store_ok_def packets_ok_def pkts_def next_ok_def split: option.splits
      prod.splits if_splits)

lemma lbf_change_safe:
  assumes "lbf_change N opt s = (ret, s')" "qdisc_safe fifo s Q"
  shows "qdisc_safe fifo s' Q"
  using assms
  by (auto simp: lbf_change_def Let_def qdisc_safe_def qdisc_inv_def packets_ok_def
      split: option.splits prod.splits if_splits)

lemma arrive_safe:
  assumes "qdisc_safe fifo s Q" "skbs s p = None" "skb_wf b"
  shows "qdisc_safe fifo (arrive p b s) Q \<and> incoming fifo (arrive p b s) Q p"
  using assms
  by (auto simp: arrive_def qdisc_safe_def qdisc_inv_def packets_ok_def incoming_def)

lemma overtakes_arrive [simp]: "overtakes K now b (arrive p b' s) = overtakes K now b s"
proof -
  have "goes_in_front (arrive p b' s) = goes_in_front s"
    by (intro ext goes_in_front_cong) (simp_all add: arrive_def)
  then show ?thesis unfolding overtakes_def by (simp only:)
qed

lemma list_head_refused_arrive [simp]: "list_head_refused (arrive p b s) = list_head_refused s"
  by (simp add: list_head_refused_def arrive_def)

text \<open>What a call of \<open>lbf_enqueue\<close> can do in a safe state.\<close>

lemma enqueue_arrived:
  assumes K: "kernel_laws K fifo" and S: "qdisc_safe fifo s Q" and b: "skbs s p = None" "skb_wf b"
  shows "(list_head_refused s \<and> lbf_enqueue K t0 t1 p (arrive p b s) tf = Some (Inl NullDeref)) \<or>
         (\<exists>ret s' tf' Q'. lbf_enqueue K t0 t1 p (arrive p b s) tf = Some (Inr (ret, s', tf')) \<and>
           qdisc_inv fifo s' Q' \<and> (\<not> overtakes K t1 b s \<longrightarrow> next_ok (next_pnode s') Q'))"
proof -
  have A: "qdisc_safe fifo (arrive p b s) Q" "incoming fifo (arrive p b s) Q p"
    using arrive_safe [OF S b] by simp_all
  have "skbs (arrive p b s) p = Some b" by (simp add: arrive_def)
  from enqueue_safe [OF K A this b(2), of t0 t1 tf] show ?thesis by simp
qed

lemma dequeue_safe_tick:
  assumes K: "kernel_laws K fifo" and S: "qdisc_safe fifo s Q" and t: "\<not> due_midway K t s"
    and deq: "lbf_dequeue K t s = Some (Inr (res, s'))"
  shows "\<exists>Q'. qdisc_safe fifo s' Q'"
proof -
  let ?tc = "k_ticks2ns K (t_curr t)" and ?hl = "hops_left (vars s)"
  have inv: "store_repr s Q" "next_ok (next_pnode s) Q"
    using S by (simp_all add: qdisc_safe_def qdisc_inv_def)
  obtain r nxt' Q' where D: "abs_dequeue ?tc (k_ticks2ns K (t_now t))
      (k_ticks2ns K (t_next t)) ?hl (next_pnode s) Q = (r, nxt', Q')"
    using prod_cases3 by blast
  have "qdisc_inv fifo s' Q'" "next_pnode s' = nxt'"
    using dequeue_safe [OF K S D] deq by auto
  moreover have "next_ok nxt' Q'"
  proof (rule abs_dequeue_next_ok [OF D inv(2) store_repr_distinct [OF inv(1)]])
    fix e assume e: "e \<in> set (heads Q)" "next_pnode s = Some (e_addr e)" "\<not> ripe ?tc e" "\<not> dead ?tc ?hl e"
    obtain A b B es where "Q = A @ b # B" "b_ents b = e # es" using e(1) by (auto simp: mem_heads)
    then have "pheap s (e_addr e) = Some (pnode_of (first_ent es None) (Some (b_addr b)) e)"
      using store_reprD(3) [OF inv(1), of b] by simp
    then show "\<not> ripe (k_ticks2ns K (t_now t)) e \<and> \<not> dead (k_ticks2ns K (t_next t)) ?hl e"
      using t e by (auto simp: due_midway_def ripe_def)
  qed
  ultimately show ?thesis by (auto simp: qdisc_safe_def)
qed

lemma lbf_reset_safe:
  assumes K: "kernel_laws K fifo" and S: "qdisc_safe fifo s Q" and E: "pheap s = Map.empty"
  shows "qdisc_safe fifo (lbf_reset K s) Q"
proof -
  obtain q freed where res: "k_reset_queue K (sch s) = (q, freed)" by fastforce
  have Q: "all_ents Q = []"
    using store_reprD(7) [of s Q] S E by (simp add: qdisc_safe_def qdisc_inv_def)
  have "fifo (kern q) = []" "qlen q = 0" using kernel_lawsD(10) [OF K res] by simp_all
  moreover have "store_repr (lbf_reset K s) Q"
    by (rule store_repr_cong [of s])
      (use S res in \<open>simp_all add: lbf_reset_def watchdog_cancel_def qdisc_safe_def qdisc_inv_def\<close>)
  ultimately show ?thesis
    using S by (simp add: qdisc_safe_def qdisc_inv_def lbf_reset_def watchdog_cancel_def res
        packets_ok_def pkts_def Q)
qed

lemma lbf_reach_inv:
  assumes "lbf_reach K N fifo s" "kernel_laws K fifo"
  shows "\<exists>Q. qdisc_safe fifo s Q"
  using assms(1)
proof induction
  case (init opt s0 ret s)
  then show ?case using lbf_init_safe by blast
next
  case (enqueue s p b now now_set to_free ret s' to_free')
  then obtain Q where "qdisc_safe fifo s Q" by blast
  from enqueue_arrived [OF assms(2) this enqueue.hyps(2,3), of now_set now to_free]
  show ?case using enqueue.hyps(4,5) by (auto simp: qdisc_safe_def)
next
  case (dequeue s t res s')
  then show ?case using dequeue_safe_tick [OF assms(2)] by blast
next
  case (change s opt ret s')
  then show ?case using lbf_change_safe by blast
next
  case (reset s)
  then show ?case using lbf_reset_safe [OF assms(2)] by blast
qed

text \<open>C1. The invariant of the queue discipline. Take a run from \<open>lbf_init\<close> of the calls
  \<open>lbf_enqueue\<close>, \<open>lbf_dequeue\<close>, \<open>lbf_change\<close> and \<open>lbf_reset\<close>, with any clock readings and any
  allocation failures, in which (a) the buffers given to \<open>lbf_enqueue\<close> are new and hold the
  headers that the code reads, (b) no packet is put in front of the pnode that \<open>next_pnode\<close>
  points to, (c) that pnode does not become due or expire between two clock readings of one
  \<open>lbf_dequeue\<close>, and (d) \<open>lbf_reset\<close> is called only with nothing stored. Then the heap holds
  exactly the nodes of a list of buckets, linked as the list says, with every bucket's queue
  sorted by earliest departure time and the buckets sorted by the budgets they cover;
  \<open>next_pnode\<close> is NULL or the first pnode of a queue; every stored or queued packet exists once
  and has well-formed headers; and \<open>qlen\<close> is at least the number of packets held. Without (b),
  (c) or (d) this is false, as \<open>Lbf_Faults\<close> shows.\<close>

theorem lbf_reach_safe:
  assumes "kernel_laws K fifo" "lbf_reach K N fifo s"
  shows "\<exists>Q. store_repr s Q \<and> store_ok Q \<and> next_ok (next_pnode s) Q \<and> packets_ok fifo s Q \<and>
           length (all_ents Q) + length (fifo (kern (sch s))) \<le> unat (qlen (sch s))"
  using lbf_reach_inv [OF assms(2,1)] by (auto simp: qdisc_safe_def qdisc_inv_def pkts_def)

definition sample_netlink :: "(u32 option, u32, nat) netlink_ops" where
  "sample_netlink =
     \<lparr>n_parse_nested = (\<lambda>mx opt. (0, \<lambda>i. if i = TCA_LBF_LIMIT then opt else None)),
      n_get_u32 = id, n_nest_start = (\<lambda>m t. Some m), n_put_u32 = (\<lambda>m t v. Some (m + 8)),
      n_nest_end = (\<lambda>m. (int m, m)), n_nest_cancel = (\<lambda>m. m)\<rparr>"

definition blank_qdisc :: "nat list lbf_qdisc" where
  "blank_qdisc =
     \<lparr>pheap = Map.empty, hheap = Map.empty, brk = 1, kc_plan = [], hnode_list = None,
      next_pnode = None, vars = \<lparr>hops_left = 0\<rparr>, stats = \<lparr>stats_delay = 0, stats_overlimit = 0\<rparr>,
      watchdog = None, sch = \<lparr>limit = 0, qlen = 0, kern = []\<rparr>, skbs = Map.empty,
      watchdog_inited = False\<rparr>"

text \<open>The state after \<open>lbf_init\<close> with a limit of 100 packets.\<close>

definition sample_qdisc :: "nat list lbf_qdisc" where
  "sample_qdisc = snd (lbf_init sample_netlink (Some (Some 100)) blank_qdisc)"

lemma sample_qdisc_eq:
  "sample_qdisc = blank_qdisc\<lparr>sch := \<lparr>limit = 100, qlen = 0, kern = []\<rparr>, watchdog_inited := True\<rparr>"
  by (simp add: sample_qdisc_def lbf_init_def lbf_change_def sample_netlink_def blank_qdisc_def
      lbf_stats_init_def)

lemma sample_qdisc_reach: "lbf_reach sample_kernel sample_netlink id sample_qdisc"
proof (rule lbf_reach.init)
  show "lbf_init sample_netlink (Some (Some 100)) blank_qdisc = (0, sample_qdisc)"
    by (simp add: sample_qdisc_def lbf_init_def lbf_change_def sample_netlink_def)
qed (simp_all add: blank_qdisc_def)

theorem lbf_reach_safe_witness:
  "\<exists>Q. store_repr sample_qdisc Q \<and> store_ok Q \<and> next_ok (next_pnode sample_qdisc) Q \<and>
     packets_ok id sample_qdisc Q \<and>
     length (all_ents Q) + length (id (kern (sch sample_qdisc))) \<le> unat (qlen (sch sample_qdisc))"
  using lbf_reach_safe [OF sample_kernel_laws sample_qdisc_reach] .

section \<open>Sample runs\<close>

definition be16 :: "u16 \<Rightarrow> u8 list" where
  "be16 w = [hi8 w, lo8 w]"

text \<open>An Ethernet frame with a Latency Based Forwarding contract, its fields given in host order.\<close>

definition lbf_packet :: "u16 \<Rightarrow> u16 \<Rightarrow> u16 \<Rightarrow> u16 \<Rightarrow> u16 \<Rightarrow> sk_buff" where
  "lbf_packet mn mx e td th =
     \<lparr>head_bytes = replicate 12 0 @ [0x88, 0xb6] @ [3, 3, 15] @ be16 2 @ be16 mn @ be16 mx @ be16 e @
        be16 td @ be16 th,
      mac_header = 0, network_header = 14, cb_val = 0, cb_enqueue_time = 0\<rparr>"

definition clocks_at :: "u64 \<Rightarrow> clocks" where
  "clocks_at t = \<lparr>t_curr = t, t_now = t, t_next = t, t_stat = t\<rparr>"

definition after_enqueue :: "nat \<Rightarrow> sk_buff \<Rightarrow> u64 \<Rightarrow> nat list lbf_qdisc \<Rightarrow> nat list lbf_qdisc" where
  "after_enqueue p b now s =
     (case lbf_enqueue sample_kernel now now p (arrive p b s) [] of
        Some (Inr (_, s', _)) \<Rightarrow> s' | _ \<Rightarrow> s)"

definition after_dequeue :: "clocks \<Rightarrow> nat list lbf_qdisc \<Rightarrow> nat list lbf_qdisc" where
  "after_dequeue t s = (case lbf_dequeue sample_kernel t s of Some (Inr (_, s')) \<Rightarrow> s' | _ \<Rightarrow> s)"

text \<open>A packet is stored; \<open>lbf_dequeue\<close> is called too early and arms the watchdog for it.\<close>

definition one_stored :: "nat list lbf_qdisc" where
  "one_stored = after_enqueue 7 (lbf_packet 50 80 10 1 2) 0 sample_qdisc"

definition one_armed :: "nat list lbf_qdisc" where
  "one_armed = after_dequeue (clocks_at 0) one_stored"

lemma dequeue_total:
  assumes "kernel_laws K fifo" "qdisc_safe fifo s Q"
  shows "\<exists>res s'. lbf_dequeue K t s = Some (Inr (res, s'))"
proof -
  obtain r nxt' Q' where D: "abs_dequeue (k_ticks2ns K (t_curr t)) (k_ticks2ns K (t_now t))
      (k_ticks2ns K (t_next t)) (hops_left (vars s)) (next_pnode s) Q = (r, nxt', Q')"
    using prod_cases3 by blast
  from dequeue_safe [OF assms D] show ?thesis by (elim exE conjE) (intro exI)
qed

lemma enqueue_total:
  assumes "kernel_laws K fifo" "qdisc_safe fifo s Q" "skbs s p = None" "skb_wf b"
    and "\<not> list_head_refused s"
  shows "\<exists>ret s' tf'. lbf_enqueue K now_set now p (arrive p b s) tf = Some (Inr (ret, s', tf'))"
  using enqueue_arrived [OF assms(1-4), of now_set now tf] assms(5) by blast

lemma after_enqueue_reach:
  assumes "lbf_reach sample_kernel N id s" "skbs s p = None" "skb_wf b"
    and "\<not> overtakes sample_kernel now b s" "\<not> list_head_refused s"
  shows "lbf_reach sample_kernel N id (after_enqueue p b now s)"
proof -
  obtain Q where Q: "qdisc_safe id s Q" using lbf_reach_inv [OF assms(1) sample_kernel_laws] by blast
  obtain ret s' tf' where eq: "lbf_enqueue sample_kernel now now p (arrive p b s) [] = Some (Inr (ret, s', tf'))"
    using enqueue_total [OF sample_kernel_laws Q assms(2,3,5)] by blast
  from lbf_reach.enqueue [OF assms(1-4) this] eq show ?thesis by (simp add: after_enqueue_def)
qed

lemma after_dequeue_reach:
  assumes "lbf_reach sample_kernel N id s" "\<not> due_midway sample_kernel t s"
  shows "lbf_reach sample_kernel N id (after_dequeue t s)"
proof -
  obtain Q where Q: "qdisc_safe id s Q" using lbf_reach_inv [OF assms(1) sample_kernel_laws] by blast
  obtain res s' where eq: "lbf_dequeue sample_kernel t s = Some (Inr (res, s'))"
    using dequeue_total [OF sample_kernel_laws Q] by blast
  from lbf_reach.dequeue [OF assms this] eq show ?thesis by (simp add: after_dequeue_def)
qed

lemma one_stored_reach: "lbf_reach sample_kernel sample_netlink id one_stored"
  unfolding one_stored_def
  by (rule after_enqueue_reach [OF sample_qdisc_reach]) (code_simp+)

lemma one_armed_reach: "lbf_reach sample_kernel sample_netlink id one_armed"
  unfolding one_armed_def
  by (rule after_dequeue_reach [OF one_stored_reach]) code_simp

text \<open>C2. No bad pointer and no endless loop. In a state that such a run reaches, \<open>lbf_dequeue\<close>
  returns whatever the clock readings are, and \<open>lbf_enqueue\<close> returns for every new buffer that
  holds the headers the code reads, even one that is put in front of the pnode \<open>next_pnode\<close>
  points to. The exception is that the list of hnodes does not exist yet and its allocation is
  refused: if \<open>lbf_enqueue\<close> does not return, it dereferences the NULL pointer in that case.\<close>

theorem lbf_reach_no_fault:
  assumes "kernel_laws K fifo" "lbf_reach K N fifo s"
  shows "(\<exists>res s'. lbf_dequeue K t s = Some (Inr (res, s'))) \<and>
         (skbs s p = None \<and> skb_wf b \<longrightarrow>
           (\<exists>ret s' tf'. lbf_enqueue K now_set now p (arrive p b s) tf = Some (Inr (ret, s', tf'))) \<or>
           (hnode_list s = None \<and> kc_plan s \<noteq> [] \<and> \<not> hd (kc_plan s) \<and>
            lbf_enqueue K now_set now p (arrive p b s) tf = Some (Inl NullDeref)))"
proof -
  obtain Q where Q: "qdisc_safe fifo s Q" using lbf_reach_inv [OF assms(2,1)] by blast
  show ?thesis
    using dequeue_total [OF assms(1) Q, of t] enqueue_arrived [OF assms(1) Q, of p b now_set now tf]
    unfolding list_head_refused_def by blast
qed

theorem lbf_reach_no_fault_witness:
  "(\<exists>res s'. lbf_dequeue sample_kernel (clocks_at 9) one_armed = Some (Inr (res, s'))) \<and>
   (\<exists>ret s' tf'. lbf_enqueue sample_kernel 10 10 8 (arrive 8 (lbf_packet 30 60 10 1 2) one_armed) [] =
      Some (Inr (ret, s', tf')))"
proof -
  have "skb_wf (lbf_packet 30 60 10 1 2)" "skbs one_armed 8 = None" "kc_plan one_armed = []"
    by code_simp+
  then show ?thesis
    using lbf_reach_no_fault [OF sample_kernel_laws one_armed_reach, of "clocks_at 9" 8
        "lbf_packet 30 60 10 1 2" 10 10 "[]"] by simp
qed

section \<open>What leaves, and when\<close>

lemma pseg_node: "pseg H tag es nxt \<Longrightarrow> e \<in> set es \<Longrightarrow> \<exists>nx tg. H (e_addr e) = Some (pnode_of nx tg e)"
  by (induction H tag es nxt rule: pseg.induct) auto

lemma ent_node:
  assumes "store_repr s Q" "e \<in> set (all_ents Q)"
  shows "\<exists>nx tg. pheap s (e_addr e) = Some (pnode_of nx tg e)"
proof -
  obtain b where "b \<in> set Q" "e \<in> set (b_ents b)" using assms(2) by (auto simp: all_ents_def)
  with store_reprD(3) [OF assms(1)] pseg_node show ?thesis by blast
qed

lemma node_ent:
  assumes "store_repr s Q" "pheap s a = Some n"
  shows "\<exists>e \<in> set (all_ents Q). a = e_addr e \<and> (\<exists>nx tg. n = pnode_of nx tg e)"
proof -
  have "a \<in> dom (pheap s)" using assms(2) by blast
  then obtain e where "e \<in> set (all_ents Q)" "a = e_addr e" using store_reprD(7) [OF assms(1)] by auto
  with ent_node [OF assms(1)] assms(2) show ?thesis by fastforce
qed

text \<open>C3. A packet leaves the store only at its time. The buffer that \<open>lbf_dequeue\<close> returns is
  either that of a pnode whose earliest departure time had been reached at one of the two
  clock readings and which had not expired then, or the first buffer of the FIFO, and in that
  case no pnode that is still stored could have left at the second reading.\<close>

theorem dequeue_not_early:
  assumes "kernel_laws K fifo" "lbf_reach K N fifo s" "lbf_dequeue K t s = Some (Inr (Some p, s'))"
  shows "(\<exists>a n now. pheap s a = Some n \<and> realpkt n = Some p \<and>
             (now = k_ticks2ns K (t_curr t) \<or> now = k_ticks2ns K (t_now t)) \<and>
             tmin_nsec n \<le> now \<and> \<not> expired now s n) \<or>
         (fifo (kern (sch s)) = p # fifo (kern (sch s')) \<and>
            (\<forall>a n. pheap s' a = Some n \<longrightarrow> k_ticks2ns K (t_now t) < tmin_nsec n))"
proof -
  let ?tc = "k_ticks2ns K (t_curr t)" and ?tn = "k_ticks2ns K (t_now t)"
  obtain Q where S: "qdisc_safe fifo s Q" using lbf_reach_inv [OF assms(2,1)] by blast
  then have inv: "store_repr s Q" "store_ok Q" "next_ok (next_pnode s) Q"
    by (auto simp: qdisc_safe_def qdisc_inv_def)
  note dist = store_repr_distinct [OF inv(1)]
  obtain r nxt' Q' where D: "abs_dequeue ?tc ?tn (k_ticks2ns K (t_next t)) (hops_left (vars s))
      (next_pnode s) Q = (r, nxt', Q')"
    using prod_cases3 by blast
  note safe = dequeue_safe [OF assms(1) S D, unfolded assms(3)]
  show ?thesis
  proof (cases r)
    case None
    with D have idle: "\<forall>e \<in> set (all_ents Q'). \<not> ripe ?tn e"
      using abs_dequeue_idle [OF _ inv(3,2) dist] by blast
    have "store_repr s' Q'" using safe by (auto simp: qdisc_inv_def)
    then have "?tn < tmin_nsec n" if "pheap s' a = Some n" for a n
      using idle node_ent that by (fastforce simp: ripe_def not_le)
    then show ?thesis using safe None by auto
  next
    case (Some e)
    then obtain now where now: "now = ?tc \<or> now = ?tn" "ripe now e" "\<not> dead now (hops_left (vars s)) e"
      using abs_dequeue_released [OF D [unfolded Some] inv(3) dist] by blast
    have e: "e \<in> set (all_ents Q)" "e_pkt e = Some p"
      using abs_dequeue_conserves [OF D inv(3) dist] safe Some
      by (auto dest!: arg_cong [where f = set_mset])
    then obtain nx tg where "pheap s (e_addr e) = Some (pnode_of nx tg e)"
      using ent_node [OF inv(1)] by blast
    with e(2) now show ?thesis
      by (intro disjI1 exI [of _ "e_addr e"] exI [of _ "pnode_of nx tg e"] exI [of _ now])
        (auto simp: ripe_def)
  qed
qed

theorem dequeue_not_early_witness:
  "\<exists>a n. pheap one_armed a = Some n \<and> realpkt n = Some 7 \<and> tmin_nsec n \<le> 640000000"
proof -
  have "(case lbf_dequeue sample_kernel (clocks_at 10000000) one_armed of
      Some (Inr (r, s)) \<Rightarrow> r = Some 7 | _ \<Rightarrow> False)" by code_simp
  then obtain s' where "lbf_dequeue sample_kernel (clocks_at 10000000) one_armed = Some (Inr (Some 7, s'))"
    by (auto split: option.splits sum.splits prod.splits)
  moreover have "id (kern (sch one_armed)) = []" by code_simp
  ultimately show ?thesis
    using dequeue_not_early [OF sample_kernel_laws one_armed_reach]
    by (fastforce simp: clocks_at_def sample_kernel_def)
qed

text \<open>C4. No packet is duplicated or forgotten, with one exception. The packets stored before
  \<open>lbf_dequeue\<close> are the one returned from the store, those that have expired at one of the clock
  readings, those still stored, and at most one more: the packet that \<open>next_pnode\<close> pointed to,
  when it was due and \<open>search_now_pnode\<close> found another one, which replaces it. That packet is
  neither returned nor freed.\<close>

theorem dequeue_conserves:
  assumes "kernel_laws K fifo" "qdisc_safe fifo s Q" "lbf_dequeue K t s = Some (Inr (res, s'))"
  shows "\<exists>Q' r L D. qdisc_inv fifo s' Q' \<and>
           mset (all_ents Q) = opt_mset r + L + D + mset (all_ents Q') \<and>
           (\<forall>e. r = Some e \<longrightarrow> res = e_pkt e) \<and>
           (\<forall>e \<in># D. hops_left (vars s) = 0 \<and>
              (\<exists>now \<in> {t_curr t, t_now t, t_next t}. e_tmax e < k_ticks2ns K now)) \<and>
           (L = {#} \<or> (\<exists>e. L = {#e#} \<and> next_pnode s = Some (e_addr e) \<and>
              e_tmin e \<le> k_ticks2ns K (t_curr t) \<and> r \<noteq> None))"
proof -
  obtain r nxt' Q' where D: "abs_dequeue (k_ticks2ns K (t_curr t)) (k_ticks2ns K (t_now t))
      (k_ticks2ns K (t_next t)) (hops_left (vars s)) (next_pnode s) Q = (r, nxt', Q')"
    using prod_cases3 by blast
  have inv: "store_repr s Q" "next_ok (next_pnode s) Q"
    using assms(2) by (auto simp: qdisc_safe_def qdisc_inv_def)
  obtain L D' where LD: "mset (all_ents Q) = opt_mset r + L + D' + mset (all_ents Q')"
    "\<forall>e \<in># D'. \<exists>now \<in> {k_ticks2ns K (t_curr t), k_ticks2ns K (t_now t), k_ticks2ns K (t_next t)}.
        dead now (hops_left (vars s)) e"
    "L = {#} \<or> (\<exists>e. L = {#e#} \<and> next_pnode s = Some (e_addr e) \<and> ripe (k_ticks2ns K (t_curr t)) e \<and> r \<noteq> None)"
    using abs_dequeue_conserves [OF D inv(2) store_repr_distinct [OF inv(1)]] by blast
  have "qdisc_inv fifo s' Q'" "\<forall>e. r = Some e \<longrightarrow> res = e_pkt e"
    using dequeue_safe [OF assms(1,2) D, unfolded assms(3)] by auto
  with LD show ?thesis
    by (intro exI [of _ Q'] exI [of _ r] exI [of _ L] exI [of _ D']) (auto simp: dead_def ripe_def)
qed

text \<open>Two packets are stored, the first one armed.\<close>

definition two_stored :: "nat list lbf_qdisc" where
  "two_stored = after_enqueue 8 (lbf_packet 60 120 10 1 2) 10 one_armed"

lemma two_stored_reach: "lbf_reach sample_kernel sample_netlink id two_stored"
  unfolding two_stored_def
  by (rule after_enqueue_reach [OF one_armed_reach]) (code_simp+)

theorem dequeue_conserves_witness:
  "\<exists>Q Q' L r. qdisc_safe id two_stored Q \<and> mset (all_ents Q) = opt_mset r + L + mset (all_ents Q')"
proof -
  obtain Q where Q: "qdisc_safe id two_stored Q"
    using lbf_reach_inv [OF two_stored_reach sample_kernel_laws] by blast
  obtain res s' where "lbf_dequeue sample_kernel (clocks_at 10000000) two_stored = Some (Inr (res, s'))"
    using dequeue_total [OF sample_kernel_laws Q] by blast
  from dequeue_conserves [OF sample_kernel_laws Q this] obtain Q' r L D where
    eq: "mset (all_ents Q) = opt_mset r + L + D + mset (all_ents Q')"
    and D: "\<forall>e \<in># D. hops_left (vars two_stored) = 0"
    by blast
  have "hops_left (vars two_stored) \<noteq> 0" by code_simp
  with D have "D = {#}" by (meson multiset_nonemptyE)
  with eq Q show ?thesis by auto
qed

section \<open>What enqueue does with a packet\<close>

text \<open>C13. Storing a packet. An accepted Latency Based Forwarding packet goes into the bucket that
  covers its budget, behind every stored packet of the bucket with the same or an earlier
  departure time and in front of the later ones; its departure times are the clock plus its
  local delays; the only change to its bytes is the decremented hop count; one more packet is
  counted.\<close>

theorem enqueue_stores:
  assumes K: "kernel_laws K fifo" and S: "qdisc_safe fifo s Q"
    and b: "skbs s p = Some b" "contract_of b = Inr (Some (i, htons 2))"
    and c: "get_lbf (head_bytes b) i = Inr c" "fib_tohops c \<noteq> 0" "\<not> b_early_discard (lbf_plan c)"
    and L: "qlen (sch s) < limit (sch s)" and kc: "kc_plan s = []"
  shows "\<exists>s' a P k B e. lbf_enqueue K t0 t1 p s tf = Some (Inr (NET_XMIT_SUCCESS, s', tf)) \<and>
           get_bucket a (uint (b_lqbudget (lbf_plan c))) Q = (P, k, B) \<and>
           b_start k \<le> uint (b_lqbudget (lbf_plan c)) \<and>
           uint (b_lqbudget (lbf_plan c)) < b_start k + LQB_RANGE \<and>
           store_repr s' (P @ k\<lparr>b_ents := insert_ent e (b_ents k)\<rparr> # B) \<and>
           store_ok (P @ k\<lparr>b_ents := insert_ent e (b_ents k)\<rparr> # B) \<and>
           e_pkt e = Some p \<and> e_trcv e = lbf_get_val b \<and>
           e_tmin e = abs_time (k_ticks2ns K t1) (b_lqmin (lbf_plan c)) \<and>
           e_tmax e = abs_time (k_ticks2ns K t1) (b_lqmax (lbf_plan c)) \<and>
           skbs s' = (skbs s)(p \<mapsto> b\<lparr>cb_enqueue_time := t0,
             head_bytes := (head_bytes b)[i + 10 := lo8 (dec_tohops (fib_tohops c)),
                                          i + 11 := hi8 (dec_tohops (fib_tohops c))]\<rparr>) \<and>
           hops_left (vars s') = dec_tohops (fib_tohops c) \<and>
           unat (qlen (sch s')) = unat (qlen (sch s)) + 1 \<and> next_pnode s' = next_pnode s"
proof -
  let ?b = "lbf_set_enqueue_time t0 b"
  let ?s = "s\<lparr>skbs := (skbs s)(p \<mapsto> ?b)\<rparr>" and ?lq = "b_lqbudget (lbf_plan c)"
  let ?r = "rewritten ?s p ?b i c"
  let ?tmin = "abs_time (k_ticks2ns K t1) (b_lqmin (lbf_plan c))"
  let ?tmax = "abs_time (k_ticks2ns K t1) (b_lqmax (lbf_plan c))"
  have inv: "store_repr ?r Q" "store_ok Q" using S by (simp_all add: qdisc_safe_def qdisc_inv_def)
  have "get_lbf (head_bytes ?b) i = Inr c" "skbs ?s p = Some ?b" using c(1) by simp_all
  then have eq: "lbf_enqueue K t0 t1 p s tf =
      obind (lbf_store K p ?lq ?tmin ?tmax (lbf_get_val b) ?r) (\<lambda>(ret, s). Some (Inr (ret, s, tf)))"
    using enqueue_lbf_branch [OF _ b, of K t0 t1 tf] enqueue_lbf_accept [of ?s p ?b i c K t1 tf] c(2,3) L
    by simp
  show ?thesis
  proof (cases rule: lbf_store_cases [OF inv(1), of K p ?lq ?tmin ?tmax "lbf_get_val b"])
    case (4 s' a P k B e)
    note f = counted_fields [OF 4(8)]
    have "limit (sch s) \<le> qlen (sch s) \<Longrightarrow> False" using L by simp
    then have q: "unat (qlen (sch s')) = unat (qlen (sch s)) + 1"
      using 4(8) kernel_lawsD(2) [OF K, of "sch s" p] qlen_inc [of "sch s"]
      by (auto simp: counted_def same_queue_def)
    have skb: "skbs s' = (skbs s)(p \<mapsto> b\<lparr>cb_enqueue_time := t0,
             head_bytes := (head_bytes b)[i + 10 := lo8 (dec_tohops (fib_tohops c)),
                                          i + 11 := hi8 (dec_tohops (fib_tohops c))]\<rparr>)"
      unfolding f(5) skbs_rewritten by (simp add: lbf_set_enqueue_time_def)
    have "hops_left (vars s') = dec_tohops (fib_tohops c)" "next_pnode s' = next_pnode s"
      using f by (simp_all add: rewritten_def Let_def)
    moreover have "lbf_enqueue K t0 t1 p s tf = Some (Inr (NET_XMIT_SUCCESS, s', tf))"
      using eq 4(1) by simp
    moreover note get_bucket_range [OF 4(2)]
      store_ok_insert [OF get_bucket_store_ok [OF 4(2) inv(2)], of e] 4(2-7) q skb
    ultimately show ?thesis by blast
  qed (use kc in simp_all)
qed

theorem enqueue_stores_witness:
  "\<exists>s'. lbf_enqueue sample_kernel 0 5 7 (arrive 7 (lbf_packet 50 80 10 1 2) sample_qdisc) [] =
     Some (Inr (NET_XMIT_SUCCESS, s', [])) \<and> unat (qlen (sch s')) = 1"
proof -
  let ?b = "lbf_packet 50 80 10 1 2" and ?s = "arrive 7 (lbf_packet 50 80 10 1 2) sample_qdisc"
  obtain c where c: "get_lbf (head_bytes ?b) 17 = Inr c" "fib_tohops c \<noteq> 0" "\<not> b_early_discard (lbf_plan c)"
  proof -
    have "(case get_lbf (head_bytes ?b) 17 of
        Inr c \<Rightarrow> fib_tohops c \<noteq> 0 \<and> \<not> b_early_discard (lbf_plan c) | _ \<Rightarrow> False)" by code_simp
    then show thesis using that by (auto split: sum.splits)
  qed
  have facts: "contract_of ?b = Inr (Some (17, htons 2))" "qlen (sch ?s) < limit (sch ?s)" "kc_plan ?s = []"
    "unat (qlen (sch ?s)) = 0" by code_simp+
  have skb: "skbs ?s 7 = Some ?b" by (simp add: arrive_def)
  have "skbs sample_qdisc 7 = None" "skb_wf ?b" by code_simp+
  moreover obtain Q where "qdisc_safe id sample_qdisc Q"
    using lbf_reach_inv [OF sample_qdisc_reach sample_kernel_laws] by blast
  ultimately have "qdisc_safe id ?s Q" using arrive_safe by blast
  then show ?thesis
    using enqueue_stores [OF sample_kernel_laws _ skb facts(1) c facts(2,3), of Q 0 5 "[]"] facts(4) by auto
qed

text \<open>C36. Refused packets. At the limit \<open>lbf_enqueue\<close> counts the packet in \<open>stats.overlimit\<close> and
  puts it on the list of packets to free; below the limit a Latency Based Forwarding packet whose
  \<open>fib_tohops\<close> is 0 is put on that list too, its arrival time having been noted in the buffer.
  Nothing else of the state changes, apart from the kernel's own drop counters: not the store,
  not \<open>next_pnode\<close>, the watchdog, \<open>hops_left\<close>, the FIFO or \<open>qlen\<close>, and not a byte of any packet.\<close>

theorem enqueue_refuses:
  assumes K: "kernel_laws K fifo" and b: "skbs s p = Some b"
  shows "(qlen (sch s) \<ge> limit (sch s) \<longrightarrow>
            (\<exists>q tf'. lbf_enqueue K t0 t1 p s tf =
                Some (Inr (1, s\<lparr>stats := (stats s)\<lparr>stats_overlimit := stats_overlimit (stats s) + 1\<rparr>,
                                 sch := q\<rparr>, tf')) \<and>
              same_queue fifo (sch s) q \<and> set tf' = insert p (set tf))) \<and>
         (qlen (sch s) < limit (sch s) \<and> contract_of b = Inr (Some (i, htons 2)) \<and>
          get_lbf (head_bytes b) i = Inr c \<and> fib_tohops c = 0 \<longrightarrow>
            (\<exists>q tf'. lbf_enqueue K t0 t1 p s tf =
                Some (Inr (1, s\<lparr>skbs := (skbs s)(p \<mapsto> b\<lparr>cb_enqueue_time := t0\<rparr>), sch := q\<rparr>, tf')) \<and>
              same_queue fifo (sch s) q \<and> set tf' = insert p (set tf)))"
proof (intro conjI impI)
  assume L: "qlen (sch s) \<ge> limit (sch s)"
  obtain ret q tf' where drop: "k_drop K p (sch s) tf = (ret, q, tf')" using prod_cases3 by blast
  show "\<exists>q tf'. lbf_enqueue K t0 t1 p s tf =
          Some (Inr (1, s\<lparr>stats := (stats s)\<lparr>stats_overlimit := stats_overlimit (stats s) + 1\<rparr>,
                           sch := q\<rparr>, tf')) \<and>
        same_queue fifo (sch s) q \<and> set tf' = insert p (set tf)"
    using enqueue_limit [OF L drop, of t0 t1] kernel_lawsD(5) [OF K drop] by auto
next
  let ?b = "b\<lparr>cb_enqueue_time := t0\<rparr>"
  assume r: "qlen (sch s) < limit (sch s) \<and> contract_of b = Inr (Some (i, htons 2)) \<and>
    get_lbf (head_bytes b) i = Inr c \<and> fib_tohops c = 0"
  have "get_lbf (head_bytes ?b) i = Inr c" using r by simp
  from enqueue_lbf_nohops [OF _ this, of "s\<lparr>skbs := (skbs s)(p \<mapsto> ?b)\<rparr>" p K t1 tf]
  show "\<exists>q tf'. lbf_enqueue K t0 t1 p s tf =
          Some (Inr (1, s\<lparr>skbs := (skbs s)(p \<mapsto> ?b), sch := q\<rparr>, tf')) \<and>
        same_queue fifo (sch s) q \<and> set tf' = insert p (set tf)"
    using enqueue_lbf_branch [of s p b i K t0 t1 tf] b r kernel_lawsD(1,6) [OF K]
    by (fastforce simp: qstats_drop_def lbf_set_enqueue_time_def)
qed

theorem enqueue_refuses_witness:
  "\<exists>q tf'. lbf_enqueue sample_kernel 3 5 7 (arrive 7 (lbf_packet 50 80 10 1 0) sample_qdisc) [] =
     Some (Inr (1, (arrive 7 (lbf_packet 50 80 10 1 0) sample_qdisc)
       \<lparr>skbs := [7 \<mapsto> (lbf_packet 50 80 10 1 0)\<lparr>cb_enqueue_time := 3\<rparr>], sch := q\<rparr>, tf')) \<and> set tf' = {7}"
proof -
  let ?b = "lbf_packet 50 80 10 1 0" and ?s = "arrive 7 (lbf_packet 50 80 10 1 0) sample_qdisc"
  have "(case get_lbf (head_bytes ?b) 17 of Inr c \<Rightarrow> fib_tohops c = 0 | _ \<Rightarrow> False)" by code_simp
  then obtain c where "get_lbf (head_bytes ?b) 17 = Inr c" "fib_tohops c = 0" by (auto split: sum.splits)
  moreover have "skbs ?s = [7 \<mapsto> ?b]" by (simp add: arrive_def sample_qdisc_eq blank_qdisc_def)
  moreover have "contract_of ?b = Inr (Some (17, htons 2))" "qlen (sch ?s) < limit (sch ?s)" by code_simp+
  ultimately show ?thesis
    using enqueue_refuses [OF sample_kernel_laws, of ?s 7 ?b 3 5 "[]" 17 c] by auto
qed

text \<open>The early discard. A packet that cannot meet its maximum delay any more is rejected with
  the return value -1, but it is not handed to the caller for freeing, not stored and not
  queued, while its hop count has been decremented and \<open>hops_left\<close>, which decides whether stored
  packets of other flows may expire, has been overwritten.\<close>

theorem early_discard_leaks:
  assumes K: "kernel_laws K fifo" and L: "qlen (sch s) < limit (sch s)"
    and b: "skbs s p = Some b" "contract_of b = Inr (Some (i, htons 2))"
    and c: "get_lbf (head_bytes b) i = Inr c" "fib_tohops c \<noteq> 0" "b_early_discard (lbf_plan c)"
  shows "\<exists>s'. lbf_enqueue K t0 t1 p s tf = Some (Inr (- 1, s', tf)) \<and>
           same_queue fifo (sch s) (sch s') \<and> pheap s' = pheap s \<and> hheap s' = hheap s \<and>
           skbs s' p \<noteq> None \<and> hops_left (vars s') = dec_tohops (fib_tohops c)"
proof -
  let ?b = "lbf_set_enqueue_time t0 b"
  have "get_lbf (head_bytes ?b) i = Inr c" using c by simp
  from enqueue_lbf_early [OF _ this c(2,3), of "s\<lparr>skbs := (skbs s)(p \<mapsto> ?b)\<rparr>" p K t1 tf]
  show ?thesis
    using enqueue_lbf_branch [OF _ b, of K t0 t1 tf] kernel_lawsD(1) [OF K] L
    by (simp add: qstats_drop_def rewritten_def Let_def)
qed

theorem early_discard_leaks_witness:
  "\<exists>s'. lbf_enqueue sample_kernel 0 5 7 (arrive 7 (lbf_packet 50 80 795 1 2) sample_qdisc) [] =
     Some (Inr (- 1, s', [])) \<and> skbs s' 7 \<noteq> None"
proof -
  let ?b = "lbf_packet 50 80 795 1 2" and ?s = "arrive 7 (lbf_packet 50 80 795 1 2) sample_qdisc"
  have "(case get_lbf (head_bytes ?b) 17 of
      Inr c \<Rightarrow> fib_tohops c \<noteq> 0 \<and> b_early_discard (lbf_plan c) | _ \<Rightarrow> False)" by code_simp
  then obtain c where "get_lbf (head_bytes ?b) 17 = Inr c" "fib_tohops c \<noteq> 0" "b_early_discard (lbf_plan c)"
    by (auto split: sum.splits)
  moreover have "skbs ?s 7 = Some ?b" by (simp add: arrive_def)
  moreover have "contract_of ?b = Inr (Some (17, htons 2))" "qlen (sch ?s) < limit (sch ?s)" by code_simp+
  ultimately show ?thesis
    using early_discard_leaks [OF sample_kernel_laws, of ?s 7 ?b 17 c 0 5 "[]"] by blast
qed

section \<open>The contracts at dequeue\<close>

text \<open>C14. The Max Delay Forwarding deadline. A queued packet with such a contract leaves the FIFO
  exactly when the delay it has experienced, with the time it was queued, does not exceed its
  maximum; then the sum, which has not wrapped around, is written into its contract and no other
  field of the contract changes. Otherwise the packet is freed.\<close>

theorem mdf_deadline:
  assumes "k_dequeue_head K (sch s) = (Some p, q)" "skbs s p = Some b"
    and "contract_of b = Inr (Some (i, htons 1))" "get_mdf (head_bytes b) i = Inr m"
    and "d = now - cb_enqueue_time b" "unat d < 2 ^ 64 - 2 ^ 16"
  shows "if unat (ntohs (delay_exp m)) + unat d \<le> unat (ntohs (max_allowed_delay m))
         then \<exists>s' b' m'. dequeue_fifo K now s = Inr (Some p, s') \<and> skbs s' p = Some b' \<and>
                get_mdf (head_bytes b') i = Inr m' \<and>
                unat (ntohs (delay_exp m')) = unat (ntohs (delay_exp m)) + unat d \<and>
                max_allowed_delay m' = max_allowed_delay m \<and> mdf_contract_type m' = mdf_contract_type m
         else \<exists>s'. dequeue_fifo K now s = Inr (None, s') \<and> skbs s' p = None"
proof -
  let ?exp = "ntohs (delay_exp m)" and ?mx = "ntohs (max_allowed_delay m)"
  have exp: "unat ?exp < 65536" "unat ?mx < 65536" by (rule unat_u16_lt)+
  have sum: "unat (ucast ?exp + d :: u64) = unat ?exp + unat d"
    using exp assms(6) by (simp add: unat_word_ariths)
  have gt: "(ucast ?exp + d :: u64) > ucast ?mx \<longleftrightarrow> unat ?exp + unat d > unat ?mx"
    using exp by (simp add: word_less_nat_alt sum)
  have eq: "dequeue_fifo K now s =
      mdf_check K p i b d (s\<lparr>sch := q, stats := (stats s)\<lparr>stats_delay := d\<rparr>\<rparr>)"
    using assms(1-3,5) by (simp add: dequeue_fifo_def skb_at_def Let_def lbf_get_enqueue_time_def)
  show ?thesis
  proof (cases "unat ?exp + unat d \<le> unat ?mx")
    case False
    then have "dequeue_fifo K now s = Inr (None, qstats_drop K
        (s\<lparr>sch := q, stats := (stats s)\<lparr>stats_delay := d\<rparr>, skbs := (skbs s)(p := None)\<rparr>))"
      using gt assms(4) by (simp add: eq mdf_check_def Let_def)
    with False show ?thesis by (simp add: qstats_drop_def)
  next
    case True
    let ?w = "htons (ucast (ucast ?exp + d :: u64))"
    have buf: "in_buf (head_bytes b) i sizeof_mdf" using assms(4) mdf_wire.get_ok by blast
    then obtain bytes where st: "st16 (head_bytes b) (i + 4) ?w = Inr bytes"
      by (simp add: st16_def in_buf_def sizeof_mdf_def)
    have "get_mdf bytes i = Inr (m\<lparr>delay_exp := ?w\<rparr>)"
      using assms(4) st unfolding get_mdf_def
      by (auto simp: res_simps ld16_st16_same [OF st] ld16_st16_other [OF st] simp flip: ld16_eq_Inr)
        (auto simp: st16_def ld16_def split: if_splits)
    moreover have "unat (ntohs ?w) = unat ?exp + unat d"
      using sum True exp by (simp add: unat_u64_to_u16)
    moreover have "dequeue_fifo K now s = Inr (Some p, s\<lparr>sch := q, stats := (stats s)\<lparr>stats_delay := d\<rparr>,
        skbs := (skbs s)(p \<mapsto> b\<lparr>head_bytes := bytes\<rparr>)\<rparr>)"
      using gt True assms(4) st by (simp add: eq mdf_check_def Let_def)
    ultimately show ?thesis using True by simp
  qed
qed

text \<open>A Max Delay Forwarding packet, its fields given in host order.\<close>

definition mdf_packet :: "u16 \<Rightarrow> u16 \<Rightarrow> sk_buff" where
  "mdf_packet allowed exp =
     \<lparr>head_bytes = replicate 12 0 @ [0x88, 0xb6] @ [3, 3, 9] @ be16 1 @ be16 allowed @ be16 exp,
      mac_header = 0, network_header = 14, cb_val = 0, cb_enqueue_time = 1000\<rparr>"

definition mdf_queued :: "u16 \<Rightarrow> u16 \<Rightarrow> nat list lbf_qdisc" where
  "mdf_queued allowed exp =
     sample_qdisc\<lparr>sch := \<lparr>limit = 100, qlen = 1, kern = [7]\<rparr>, skbs := [7 \<mapsto> mdf_packet allowed exp]\<rparr>"

theorem mdf_deadline_witness:
  "(\<exists>s'. dequeue_fifo sample_kernel 1300 (mdf_queued 500 100) = Inr (Some 7, s')) \<and>
   (\<exists>s'. dequeue_fifo sample_kernel 1500 (mdf_queued 500 100) = Inr (None, s'))"
proof -
  let ?s = "mdf_queued 500 100" and ?b = "mdf_packet 500 100"
  have deq: "k_dequeue_head sample_kernel (sch ?s) = (Some 7, \<lparr>limit = 100, qlen = 0, kern = []\<rparr>)"
    and skb: "skbs ?s 7 = Some ?b" and time: "cb_enqueue_time ?b = 1000"
    by (simp_all add: mdf_queued_def sample_kernel_def mdf_packet_def)
  have "contract_of ?b = Inr (Some (17, htons 1))" by code_simp
  moreover have "get_mdf (head_bytes ?b) 17 =
      Inr \<lparr>mdf_contract_type = htons 1, max_allowed_delay = htons 500, delay_exp = htons 100\<rparr>"
    by code_simp
  ultimately show ?thesis
    using mdf_deadline [OF deq skb, of 17 _ 300 1300] mdf_deadline [OF deq skb, of 17 _ 500 1500] time
    by auto
qed

text \<open>C15. The experienced delay. When a stored packet leaves, the time since it was enqueued, in
  units of 100 microseconds, is added to the experienced delay of its contract, modulo
  \<open>2 ^ 16\<close>; no other byte of the packet changes and the delay in microseconds becomes the
  statistic.\<close>

theorem account_adds_delay:
  assumes "skbs s p = Some b" "contract_at b = Inr (Some i)" "get_lbf (head_bytes b) i = Inr c"
    and "d = k_ticks2ns K (now - cb_enqueue_time b) div NSEC_PER_USEC"
  shows "\<exists>s' b'. dequeue_account K now p s = Inr s' \<and> skbs s' p = Some b' \<and>
           get_lbf (head_bytes b') i = Inr (c\<lparr>experienced_delay := htons (ntohs (experienced_delay c) + ucast (d div 100))\<rparr>) \<and>
           (\<forall>k. k < i + 6 \<or> i + 8 \<le> k \<longrightarrow> head_bytes b' ! k = head_bytes b ! k) \<and>
           stats_delay (stats s') = d \<and> sch s' = sch s \<and> pheap s' = pheap s"
proof -
  let ?w = "htons (ntohs (experienced_delay c) + ucast (d div 100))"
  have buf: "in_buf (head_bytes b) i sizeof_lbf" using assms(3) lbf_wire.get_ok by blast
  then obtain bytes where st: "st16 (head_bytes b) (i + 6) ?w = Inr bytes"
    by (simp add: st16_def in_buf_def sizeof_lbf_def)
  have e: "ld16 (head_bytes b) (i + 6) = Inr (experienced_delay c)"
    using assms(3) by (auto simp: get_lbf_def res_simps)
  have "(ucast (ucast x + y :: u64) :: u16) = x + ucast y" for x :: u16 and y :: u64
    by (simp add: word_unat_eq_iff unat_u64_to_u16 unat_word_ariths mod_add_right_eq mod_mod_cancel)
  then have w: "htons (ucast (ucast (ntohs (experienced_delay c)) + d div 100 :: u64)) = ?w" by simp
  have "dequeue_account K now p s = Inr (s\<lparr>stats := (stats s)\<lparr>stats_delay := d\<rparr>,
      skbs := (skbs s)(p \<mapsto> b\<lparr>head_bytes := bytes\<rparr>)\<rparr>)"
    using assms e st w by (simp add: dequeue_account_def skb_at_def Let_def lbf_get_enqueue_time_def)
  moreover have "get_lbf bytes i = Inr (c\<lparr>experienced_delay := ?w\<rparr>)"
    using assms(3) st unfolding get_lbf_def
    by (auto simp: res_simps simp flip: ld16_eq_Inr) (auto simp: st16_def ld16_def split: if_splits)
  moreover have "\<forall>k. k < i + 6 \<or> i + 8 \<le> k \<longrightarrow> bytes ! k = head_bytes b ! k"
    using nth_st16 [OF st] by simp
  ultimately show ?thesis by simp
qed

theorem account_adds_delay_witness:
  "\<exists>s' b'. dequeue_account sample_kernel 10000000 7 one_armed = Inr s' \<and> skbs s' 7 = Some b' \<and>
     stats_delay (stats s') = 640000"
proof -
  have "(case skbs one_armed 7 of Some b \<Rightarrow>
      contract_at b = Inr (Some 17) \<and> cb_enqueue_time b = 0 \<and>
      (case get_lbf (head_bytes b) 17 of Inr _ \<Rightarrow> True | _ \<Rightarrow> False) | _ \<Rightarrow> False)"
    by code_simp
  then obtain b c where b: "skbs one_armed 7 = Some b" "contract_at b = Inr (Some 17)"
    "get_lbf (head_bytes b) 17 = Inr c" "cb_enqueue_time b = 0"
    by (auto split: option.splits sum.splits)
  moreover have "640000 = k_ticks2ns sample_kernel (10000000 - cb_enqueue_time b) div NSEC_PER_USEC"
    by (simp add: b(4) sample_kernel_def NSEC_PER_USEC_def)
  ultimately show ?thesis
    using account_adds_delay [of one_armed 7 b 17 c 640000 sample_kernel 10000000] by blast
qed

end
