(* ===== verification/Lbf_Faults.thy ===== *)
theory Lbf_Faults
  imports Lbf_System
begin

text \<open>
  What happens outside the conditions that the runs of \<open>Lbf_System\<close> keep to: the sequences of
  calls after which the queue discipline follows a bad pointer, loses a packet or stops
  accepting packets. Each is stated for every state of its kind and shown on a run from
  \<open>lbf_init\<close>.
\<close>

section \<open>Outside the conditions of the runs\<close>

text \<open>A pnode that is not the first of its queue has no pointer to its hnode.\<close>

lemma take_second_faults:
  assumes R: "store_repr s (A @ b # B)" and es: "b_ents b = e # h # es"
  shows "take_pnode s (e_addr h) = Inl NullDeref"
proof -
  have "pheap s (e_addr h) = Some (pnode_of (first_ent es None) None h)"
    using store_reprD(3) [OF R, of b] es by simp
  then show ?thesis
    by (cases "first_ent es None") (simp_all add: take_pnode_def remove_pnode_def h_write_def)
qed

text \<open>The packet that overtakes is stored in front of the pnode \<open>next_pnode\<close> points to.\<close>

lemma insert_in_front:
  assumes R: "store_repr s Q" "store_ok Q" "next_ok (next_pnode s) Q"
    and n: "next_pnode s = Some a" "pheap s a = Some n"
    and front: "goes_in_front s lq (e_tmin e)"
    and gb: "get_bucket x (uint lq) Q = (P, b, B)"
  obtains h es where "insert_ent e (b_ents b) = e # h # es" "e_addr h = a" "e_tmin h = tmin_nsec n"
proof -
  have "next_ok (Some a) Q" using R(3) n(1) by simp
  from R(1) this obtain A c C h es where Q: "Q = A @ c # C" "b_ents c = h # es" "a = e_addr h"
      "pheap s a = Some (pnode_of (first_ent es None) (Some (b_addr c)) h)"
    by (rule next_node)
  then have "served_by s (uint lq) (b_addr c)" and lt: "e_tmin e < e_tmin h" "e_tmin h = tmin_nsec n"
    using front n by (auto simp: goes_in_front_def)
  then have "c = b" using served_by_bucket [OF R(1), of c "uint lq" x] gb Q(1) by auto
  then have "insert_ent e (b_ents b) = e # h # es" using Q(2) lt(1) leD by (fastforce simp: insert_ent_def)
  then show thesis using that Q(3) lt(2) by simp
qed

text \<open>C34. A packet that overtakes. Take a state that a run reaches, with a pnode that
  \<open>next_pnode\<close> points to, and let \<open>lbf_enqueue\<close> accept a Latency Based Forwarding packet, the
  allocations succeeding, that goes into the queue of that pnode with an earlier departure time.
  The call returns normally, but \<open>next_pnode\<close> still points to the pnode, which is not the first
  of its queue any more and has lost its pointer to the hnode: every \<open>lbf_dequeue\<close> for which it
  is due dereferences NULL.\<close>

theorem overtaken_next_faults:
  assumes K: "kernel_laws K fifo" and s: "lbf_reach K N fifo s" "skbs s p = None" "skb_wf b"
    and n: "next_pnode s = Some a" "pheap s a = Some n" and over: "overtakes K now b s"
    and c: "contract_of b = Inr (Some (i, htons 2))" "get_lbf (head_bytes b) i = Inr c"
      "fib_tohops c \<noteq> 0" "\<not> b_early_discard (lbf_plan c)"
    and room: "qlen (sch s) < limit (sch s)" "kc_plan s = []"
  shows "\<exists>s'. lbf_enqueue K t0 now p (arrive p b s) tf = Some (Inr (NET_XMIT_SUCCESS, s', tf)) \<and>
           (\<forall>t. tmin_nsec n \<le> k_ticks2ns K (t_curr t) \<longrightarrow> lbf_dequeue K t s' = Some (Inl NullDeref))"
proof -
  obtain Q where "qdisc_safe fifo s Q" using lbf_reach_inv [OF s(1) K] by blast
  then have inv: "store_repr s Q" "store_ok Q" "next_ok (next_pnode s) Q"
    by (simp_all add: qdisc_safe_def qdisc_inv_def)
  let ?b = "lbf_set_enqueue_time t0 b" and ?lq = "b_lqbudget (lbf_plan c)"
  let ?mn = "abs_time (k_ticks2ns K now) (b_lqmin (lbf_plan c))"
  let ?mx = "abs_time (k_ticks2ns K now) (b_lqmax (lbf_plan c))"
  let ?s = "(arrive p b s)\<lparr>skbs := (skbs (arrive p b s))(p \<mapsto> ?b)\<rparr>"
  let ?r = "rewritten ?s p ?b i c"
  have r: "store_repr ?r Q" "kc_plan ?r = []" "hnode_list ?r = hnode_list s" "next_pnode ?r = next_pnode s"
    using inv(1) room(2) by (simp_all add: arrive_def)
  have eq: "lbf_enqueue K t0 now p (arrive p b s) tf = obind (lbf_store K p ?lq ?mn ?mx (lbf_get_val ?b) ?r)
      (\<lambda>(ret, s). Some (Inr (ret, s, tf)))"
    using enqueue_lbf_branch [of "arrive p b s" p b i K t0 now tf] c room(1)
      enqueue_lbf_accept [of ?s p ?b i c K now tf]
    by (simp add: arrive_def)
  show ?thesis
  proof (cases rule: lbf_store_cases [OF r(1), of K p ?lq ?mn ?mx "lbf_get_val ?b"])
    case (4 s' x P k B e)
    have "goes_in_front s ?lq (e_tmin e)" using over c(1,2) 4(3) by (simp add: overtakes_def)
    then obtain h es where h: "insert_ent e (b_ents k) = e # h # es" "e_addr h = a" "e_tmin h = tmin_nsec n"
      using insert_in_front [OF inv n _ 4(2)] by blast
    have R': "store_repr s' (P @ k\<lparr>b_ents := e # h # es\<rparr> # B)" using 4(7) h(1) by simp
    have nx: "next_pnode s' = Some a" using counted_fields(1) [OF 4(8)] r(4) n(1) by simp
    have m: "pheap s' a = Some (pnode_of (first_ent es None) None h)"
      using store_reprD(3) [OF R', of "k\<lparr>b_ents := e # h # es\<rparr>"] h(2) by simp
    have "store_repr (qstats_drop K s') (P @ k\<lparr>b_ents := e # h # es\<rparr> # B)"
      using R' by (simp only: qstats_drop_def store_repr_frame)
    from take_second_faults [OF R'] take_second_faults [OF this]
    have "take_pnode s' a = Inl NullDeref" "take_pnode (qstats_drop K s') a = Inl NullDeref"
      using h(2) by simp_all
    then have "lbf_dequeue K t s' = Some (Inl NullDeref)" if "tmin_nsec n \<le> k_ticks2ns K (t_curr t)" for t
      using that nx m h(3) by (auto simp: lbf_dequeue_def dequeue_store_def dequeue_next_def)
    then show ?thesis using eq 4(1) by auto
  qed (use r(2) in simp_all)
qed

text \<open>A packet with an earlier time arrives while another one of its bucket is armed.\<close>

theorem overtaken_next_faults_witness:
  "\<exists>s'. lbf_enqueue sample_kernel 10 10 8 (arrive 8 (lbf_packet 30 60 10 1 2) one_armed) [] =
          Some (Inr (NET_XMIT_SUCCESS, s', [])) \<and>
        lbf_dequeue sample_kernel (clocks_at 10000000) s' = Some (Inl NullDeref)"
proof -
  let ?b = "lbf_packet 30 60 10 1 2"
  have "(case (next_pnode one_armed, pheap one_armed 3, get_lbf (head_bytes ?b) 17) of
      (Some a, Some n, Inr c) \<Rightarrow> a = 3 \<and> tmin_nsec n \<le> 640000000 \<and> fib_tohops c \<noteq> 0 \<and>
        \<not> b_early_discard (lbf_plan c)
    | _ \<Rightarrow> False)" by code_simp
  then obtain n c where "next_pnode one_armed = Some 3" "pheap one_armed 3 = Some n"
    "tmin_nsec n \<le> 640000000" "get_lbf (head_bytes ?b) 17 = Inr c" "fib_tohops c \<noteq> 0"
    "\<not> b_early_discard (lbf_plan c)"
    by (auto split: option.splits sum.splits)
  moreover have "overtakes sample_kernel 10 ?b one_armed" "contract_of ?b = Inr (Some (17, htons 2))"
    "skb_wf ?b" "skbs one_armed 8 = None" "qlen (sch one_armed) < limit (sch one_armed)"
    "kc_plan one_armed = []" by code_simp+
  ultimately show ?thesis
    using overtaken_next_faults [OF sample_kernel_laws one_armed_reach, of 8 ?b 3 n 10 17 c 10 "[]"]
    by (auto simp: clocks_at_def sample_kernel_def)
qed

text \<open>The clock between two readings. If the only stored packet is the one \<open>next_pnode\<close> points
  to and it becomes due between the reading at the start of \<open>lbf_dequeue\<close> and the one in
  \<open>search_now_pnode\<close>, the packet is returned and its pnode freed, but \<open>next_pnode\<close> still points
  to it: every later call of \<open>lbf_dequeue\<close> follows a dangling pointer.\<close>

theorem next_left_dangling:
  assumes K: "kernel_laws K fifo" and S: "qdisc_safe fifo s [b]" and b: "b_ents b = [e]"
    and nx: "next_pnode s = Some (e_addr e)"
    and t: "k_ticks2ns K (t_curr t) < e_tmin e" "e_tmin e \<le> k_ticks2ns K (t_now t)"
    and live: "hops_left (vars s) \<noteq> 0"
  shows "\<exists>s'. lbf_dequeue K t s = Some (Inr (e_pkt e, s')) \<and>
           (\<forall>t'. lbf_dequeue K t' s' = Some (Inl (UseAfterFree (e_addr e))))"
proof -
  let ?hl = "hops_left (vars s)"
  have "abs_dequeue (k_ticks2ns K (t_curr t)) (k_ticks2ns K (t_now t)) (k_ticks2ns K (t_next t)) ?hl
      (next_pnode s) [b] = (Some e, Some (e_addr e), [b\<lparr>b_ents := []\<rparr>])"
  proof -
    have nd: "\<not> dead x ?hl y" for x y using live by (simp add: dead_def)
    have "b\<lparr>b_ents := [e]\<rparr> = b" using b by (cases b) simp
    then show ?thesis
      using nx b t nd by (simp add: abs_dequeue_def abs_next_def abs_now_def abs_sched_def Let_def ripe_def leD)
  qed
  from dequeue_safe [OF K S this] obtain s' where s': "lbf_dequeue K t s = Some (Inr (e_pkt e, s'))"
    "qdisc_inv fifo s' [b\<lparr>b_ents := []\<rparr>]" "next_pnode s' = Some (e_addr e)"
    by auto
  have "dom (pheap s') = {}"
    using store_reprD(7) [of s' "[b\<lparr>b_ents := []\<rparr>]"] s'(2) by (simp add: qdisc_inv_def)
  then have "lbf_dequeue K t' s' = Some (Inl (UseAfterFree (e_addr e)))" for t'
    using s'(3) by (simp add: lbf_dequeue_def dequeue_store_def dequeue_next_def deref_def)
  with s'(1) show ?thesis by blast
qed

lemma sample_ticks: "k_ticks2ns sample_kernel t = t * 64"
  by (simp add: sample_kernel_def)

lemma single_store:
  assumes R: "store_repr s Q" and l: "hnode_list s = Some l" "list_head l = Some h"
    and h: "hheap s h = Some hn" "next_hnode hn = None" "queue hn = Some p"
    and n: "pheap s p = Some n" "p_next n = None"
  shows "\<exists>b e. Q = [b] \<and> b_ents b = [e] \<and> e_addr e = p \<and> e_tmin e = tmin_nsec n \<and> e_pkt e = realpkt n"
proof -
  obtain b B where Q: "Q = b # B" "b_addr b = h"
    using store_reprD(1) [OF R] l by (cases Q) (auto simp: list_head_ok_def)
  then have "hn = hnode_of (first_bucket B None) b" using store_reprD(2) [OF R] h(1) by simp
  then have B: "B = []" and q: "first_ent (b_ents b) None = Some p" using h by (cases B, auto)+
  then obtain e es where es: "b_ents b = e # es" "e_addr e = p" by (cases "b_ents b") auto
  have "n = pnode_of (first_ent es None) (Some (b_addr b)) e"
    using store_reprD(3) [OF R, of b] n(1) es by (simp add: Q)
  then have "es = []" "e_tmin e = tmin_nsec n" "e_pkt e = realpkt n" using n(2) by (cases es, auto)+
  with Q B es show ?thesis by blast
qed

theorem next_left_dangling_witness:
  "\<exists>s'. lbf_dequeue sample_kernel ((clocks_at 10000000)\<lparr>t_curr := 0\<rparr>) one_armed = Some (Inr (Some 7, s')) \<and>
     (\<forall>t'. lbf_dequeue sample_kernel t' s' = Some (Inl (UseAfterFree 3)))"
proof -
  obtain Q where Q: "qdisc_safe id one_armed Q"
    using lbf_reach_inv [OF one_armed_reach sample_kernel_laws] by blast
  have c: "(case (hnode_list one_armed, hheap one_armed 2, pheap one_armed 3) of
      (Some l, Some hn, Some n) \<Rightarrow> list_head l = Some 2 \<and> next_hnode hn = None \<and> queue hn = Some 3 \<and>
        p_next n = None \<and> 0 < tmin_nsec n \<and> tmin_nsec n \<le> 640000000 \<and> realpkt n = Some 7
    | _ \<Rightarrow> False)" by code_simp
  then obtain l hn n where l: "hnode_list one_armed = Some l" "hheap one_armed 2 = Some hn"
      "pheap one_armed 3 = Some n"
    by (auto split: option.splits)
  with c have n: "list_head l = Some 2" "next_hnode hn = None" "queue hn = Some 3" "p_next n = None"
    "0 < tmin_nsec n" "tmin_nsec n \<le> 640000000" "realpkt n = Some 7" by simp_all
  obtain b e where be: "Q = [b]" "b_ents b = [e]" "e_addr e = 3" "e_tmin e = tmin_nsec n" "e_pkt e = Some 7"
    using single_store [of one_armed Q l 2 hn 3 n] Q l n by (auto simp: qdisc_safe_def qdisc_inv_def)
  have "next_pnode one_armed = Some 3" "hops_left (vars one_armed) \<noteq> 0" by code_simp+
  then show ?thesis
    using next_left_dangling [OF sample_kernel_laws Q [unfolded be(1)] be(2),
        of "(clocks_at 10000000)\<lparr>t_curr := 0\<rparr>"] be n
    by (simp add: clocks_at_def sample_ticks)
qed

lemma abs_dequeue_overwrites:
  assumes inv: "store_ok Q" "next_ok nxt Q" "distinct (map e_addr (all_ents Q))"
    and nx: "nxt = Some (e_addr e)" "e \<in> set (all_ents Q)"
    and due: "e_tmin e \<le> tc" "hl \<noteq> 0"
    and other: "x \<in> set (all_ents Q)" "x \<noteq> e" "e_tmin x \<le> tn"
    and D: "abs_dequeue tc tn tx hl nxt Q = (r, nxt', Q')"
  shows "\<exists>y Q1. mset (all_ents Q) = {#e#} + mset (all_ents Q1) \<and> r = Some y \<and> y \<in> set (all_ents Q1) \<and>
           set (all_ents Q') \<subseteq> set (all_ents Q1)"
proof -
  have nd: "\<not> dead y hl z" for y z using due(2) by (simp add: dead_def)
  obtain r1 nxt1 Q1 Q2 where parts: "abs_next tc hl nxt Q = (r1, nxt1, Q1)"
    "abs_now tn hl r1 Q1 = (r, Q2)" "abs_sched tx hl nxt1 Q2 = (nxt', Q')"
    using abs_dequeue_split [OF D] by blast
  have same: "y = e" if "y \<in> set (all_ents Q)" "e_addr y = e_addr e" for y
    using inv(3) that nx(2) by (auto simp: distinct_map inj_on_def)
  have take: "abs_take (e_addr e) Q = (Some e, Q1)"
    using parts(1) inv(2)
  proof (cases rule: abs_next_cases)
    case (early a y)
    then have "y = e" using same [of y] nx(1) by (auto simp: mem_heads)
    then show ?thesis using early(4) due(1) by (simp add: ripe_def)
  next
    case (ripe a y)
    then show ?thesis using same [of y] nx(1) abs_take_pkt [OF ripe(2)] by auto
  qed (use nd nx(1) in simp_all)
  have m1: "mset (all_ents Q) = {#e#} + mset (all_ents Q1)" using abs_take_ents [OF take] by simp
  have x1: "x \<in> set (all_ents Q1)" using other(1,2) arg_cong [OF m1, of set_mset] by auto
  have dist1: "distinct (map e_addr (all_ents Q1))" using distinct_submset [OF inv(3) m1] .
  have ok1: "store_ok Q1" using abs_take_store_ok [OF take inv(1)] .
  from parts(2) dist1
  have "\<exists>y. r = Some y \<and> y \<in> set (all_ents Q1) \<and> set (all_ents Q2) \<subseteq> set (all_ents Q1)"
  proof (cases rule: abs_now_cases)
    case none
    note ok2 = pruned_store_ok [OF now_scan_pruned [OF none(1)] ok1]
    have "x \<in> set (all_ents Q2)"
      using x1 pruned_all_ents [OF now_scan_pruned [OF none(1)]] nd by blast
    then obtain h where "h \<in> set (heads Q2)" "e_tmin h \<le> e_tmin x" using heads_min [OF ok2] by blast
    then show ?thesis using now_scan_None [OF none(1)] other(3) by (auto simp: ripe_def)
  next
    case (some a y Q3)
    have "set (all_ents Q2) \<subseteq> set (all_ents Q3)"
      using arg_cong [OF abs_take_ents [OF some(2)], of set_mset] by auto
    then show ?thesis
      using some(3) abs_take_pkt [OF some(2)] pruned_all_ents [OF now_scan_pruned [OF some(1)]] by blast
  qed
  moreover have "set (all_ents Q') \<subseteq> set (all_ents Q2)"
    using abs_sched_mset [OF parts(3)] by (metis mset_subset_eq_add_right set_mset_mono set_mset_mset)
  ultimately show ?thesis using m1 by blast
qed

text \<open>C35. Two packets in one call. Take a state with the invariant in which \<open>next_pnode\<close> points to
  a stored packet that is due at the clock reading at the start of \<open>lbf_dequeue\<close>, \<open>hops_left\<close> is
  not 0, so that nothing expires, and another stored packet is due when \<open>search_now_pnode\<close> reads
  the clock. The call removes the first packet and returns one of the others: the first one is in
  neither the store nor the FIFO any more, and its buffer is still allocated.\<close>

theorem dequeue_loses_packet:
  assumes K: "kernel_laws K fifo" and S: "qdisc_safe fifo s Q"
    and nx: "next_pnode s = Some (e_addr e)" "e \<in> set (all_ents Q)" "e_pkt e = Some p"
    and due: "e_tmin e \<le> k_ticks2ns K (t_curr t)" "hops_left (vars s) \<noteq> 0"
    and other: "x \<in> set (all_ents Q)" "x \<noteq> e" "e_tmin x \<le> k_ticks2ns K (t_now t)"
  shows "\<exists>res s' Q'. lbf_dequeue K t s = Some (Inr (Some res, s')) \<and> res \<noteq> p \<and> qdisc_inv fifo s' Q' \<and>
           p \<notin> set (pkts Q') \<and> p \<notin> set (fifo (kern (sch s'))) \<and> skbs s' p \<noteq> None"
proof -
  have inv: "store_repr s Q" "store_ok Q" "next_ok (next_pnode s) Q" "packets_ok fifo s Q"
    using S by (auto simp: qdisc_safe_def qdisc_inv_def)
  obtain r nxt' Q' where D: "abs_dequeue (k_ticks2ns K (t_curr t)) (k_ticks2ns K (t_now t)) (k_ticks2ns K (t_next t))
      (hops_left (vars s)) (next_pnode s) Q = (r, nxt', Q')"
    using prod_cases3 by blast
  obtain y Q1 where y: "mset (all_ents Q) = {#e#} + mset (all_ents Q1)" "r = Some y" "y \<in> set (all_ents Q1)"
      "set (all_ents Q') \<subseteq> set (all_ents Q1)"
    using abs_dequeue_overwrites [OF inv(2,3) store_repr_distinct [OF inv(1)] nx(1,2) due other D] by blast
  from dequeue_safe [OF K S D] y(2) obtain res s' where s': "lbf_dequeue K t s = Some (Inr (res, s'))"
    "qdisc_inv fifo s' Q'" "res = e_pkt y" "fifo (kern (sch s')) = fifo (kern (sch s))"
    "dom (skbs s') = dom (skbs s)"
    by auto
  have mp: "mset (pkts Q) = mset (p # pkts Q1)" using y(1) nx(3) by (simp add: pkts_def)
  then have p: "p \<in> set (pkts Q)" "p \<notin> set (pkts Q1)"
    using inv(4) mset_eq_setD [OF mp] mset_eq_imp_distinct_iff [OF mp] by (auto simp: packets_ok_def)
  have "y \<in> set (all_ents Q)" using y(3) arg_cong [OF y(1), of set_mset] by auto
  then obtain z where z: "e_pkt y = Some z" using inv(4) unfolding packets_ok_def by blast
  have "z \<in> set (pkts Q1)" using y(3) z by (force simp: pkts_def)
  moreover have "p \<notin> set (fifo (kern (sch s)))" "skbs s p \<noteq> None"
    using inv(4) p(1) by (auto simp: packets_ok_def)
  moreover have "set (pkts Q') \<subseteq> set (pkts Q1)" using y(4) by (auto simp: pkts_def)
  moreover have "skbs s' p \<noteq> None" using calculation(3) s'(5) by (metis domIff)
  ultimately have "lbf_dequeue K t s = Some (Inr (Some z, s')) \<and> z \<noteq> p \<and> qdisc_inv fifo s' Q' \<and>
      p \<notin> set (pkts Q') \<and> p \<notin> set (fifo (kern (sch s'))) \<and> skbs s' p \<noteq> None"
    using s' p(2) z by auto
  then show ?thesis by blast
qed

text \<open>Both packets of \<open>two_stored\<close> are due.\<close>

theorem dequeue_loses_packet_witness:
  "\<exists>p res s' Q'. lbf_dequeue sample_kernel (clocks_at 10000000) two_stored = Some (Inr (Some res, s')) \<and>
     res \<noteq> p \<and> p \<notin> set (pkts Q') \<and> skbs s' p \<noteq> None"
proof -
  obtain Q where Q: "qdisc_safe id two_stored Q"
    using lbf_reach_inv [OF two_stored_reach sample_kernel_laws] by blast
  then have R: "store_repr two_stored Q" by (simp add: qdisc_safe_def qdisc_inv_def)
  have c: "(case (pheap two_stored 3, pheap two_stored 5) of (Some n, Some m) \<Rightarrow>
      tmin_nsec n \<le> 640000000 \<and> tmin_nsec m \<le> 640000000 \<and> realpkt n = Some 7
    | _ \<Rightarrow> False)" by code_simp
  then obtain n m where nm: "pheap two_stored 3 = Some n" "pheap two_stored 5 = Some m"
    by (auto split: option.splits)
  obtain e x where "e \<in> set (all_ents Q)" "3 = e_addr e" "e_tmin e = tmin_nsec n" "e_pkt e = realpkt n"
    "x \<in> set (all_ents Q)" "5 = e_addr x" "e_tmin x = tmin_nsec m"
    using node_ent [OF R nm(1)] node_ent [OF R nm(2)] by auto
  note ex = this
  have nx: "next_pnode two_stored = Some 3" "hops_left (vars two_stored) \<noteq> 0" by code_simp+
  have due: "e_tmin y \<le> k_ticks2ns sample_kernel (t_curr (clocks_at 10000000))"
    "e_tmin y \<le> k_ticks2ns sample_kernel (t_now (clocks_at 10000000))" if "y = e \<or> y = x" for y
    using that ex c nm by (auto simp: clocks_at_def sample_ticks)
  have "x \<noteq> e" using ex by auto
  then show ?thesis
    using dequeue_loses_packet [OF sample_kernel_laws Q _ ex(1) _ due(1) nx(2) ex(5) _ due(2), of 7]
      ex(2,4) nx(1) c nm by auto
qed

text \<open>Reset with packets stored. \<open>lbf_reset\<close> empties the FIFO and zeroes \<open>qlen\<close> but keeps the
  store. The next packet that leaves the store takes \<open>qlen\<close> to \<open>2 ^ 32 - 1\<close>, and from then on
  \<open>lbf_enqueue\<close> drops every packet, whatever the limit is.\<close>

theorem reset_underflows:
  assumes K: "kernel_laws K fifo" and S: "qdisc_safe fifo s Q"
    and deq: "lbf_dequeue K t (lbf_reset K s) = Some (Inr (Some p, s'))"
  shows "qlen (sch s') = - 1 \<and>
         (\<exists>s'' tf'. lbf_enqueue K t0 t1 skb s' tf = Some (Inr (1, s'', tf')) \<and> skb \<in> set tf')"
proof -
  obtain q freed where res: "k_reset_queue K (sch s) = (q, freed)" by fastforce
  have q: "fifo (kern q) = []" "qlen q = 0" using kernel_lawsD(10) [OF K res] by simp_all
  have sch0: "sch (lbf_reset K s) = q" using res by (simp add: lbf_reset_def watchdog_cancel_def)
  obtain pk s1 where s1: "dequeue_store K t (lbf_reset K s) = Some (Inr (pk, s1))"
    using deq by (auto simp: lbf_dequeue_def res_simps)
  have S0: "store_repr (lbf_reset K s) Q" "next_ok (next_pnode (lbf_reset K s)) Q"
    using S res by (auto simp: lbf_reset_def watchdog_cancel_def qdisc_safe_def qdisc_inv_def store_repr_def)
  obtain r nxt' Q' where D: "abs_dequeue (k_ticks2ns K (t_curr t)) (k_ticks2ns K (t_now t))
      (k_ticks2ns K (t_next t)) (hops_left (vars (lbf_reset K s))) (next_pnode (lbf_reset K s)) Q = (r, nxt', Q')"
    using prod_cases3 by blast
  have "sch s1 \<in> {q, k_qstats_drop K q}"
    using dequeue_store_refines [OF S0 D] s1 sch0 by auto
  then have q1: "same_queue fifo q (sch s1)"
    using kernel_lawsD(1) [OF K] by (auto simp: same_queue_def)
  have "qlen (sch s') = - 1"
  proof (cases pk)
    case None
    then have "dequeue_fifo K (t_stat t) s1 = Inr (Some p, s')"
      using deq s1 by (simp add: lbf_dequeue_def)
    moreover obtain q' where "k_dequeue_head K (sch s1) = (None, q')"
    proof (cases "k_dequeue_head K (sch s1)")
      case (Pair h q')
      have "fifo (kern (sch s1)) = []" using q(1) q1 by (simp add: same_queue_def)
      then have "h = None" using kernel_lawsD(9) [OF K, of "sch s1" _ q'] Pair by (cases h) auto
      with Pair show thesis using that by simp
    qed
    ultimately show ?thesis by (simp add: dequeue_fifo_def)
  next
    case (Some x)
    then obtain s2 where s2: "dequeue_account K (t_stat t) x s1 = Inr s2" "s' = dequeue_done K x s2"
      using deq s1 by (auto simp: lbf_dequeue_def res_simps)
    have "sch s2 = sch s1"
      using s2(1) by (auto simp: dequeue_account_def Let_def res_simps split: option.splits)
    then show ?thesis
      using s2(2) q1 q(2) kernel_lawsD(3,4) [OF K] by (simp add: dequeue_done_def Let_def same_queue_def)
  qed
  moreover obtain r q'' tf' where drop: "k_drop K skb (sch s') tf = (r, q'', tf')" using prod_cases3 by blast
  ultimately show ?thesis
    using enqueue_limit [OF _ drop, of t0 t1] kernel_lawsD(5) [OF K drop] by auto
qed

text \<open>The queue discipline with a packet stored is reset.\<close>

theorem reset_underflows_witness:
  "\<exists>s'. lbf_dequeue sample_kernel (clocks_at 10000000) (lbf_reset sample_kernel one_armed) =
     Some (Inr (Some 7, s')) \<and> qlen (sch s') = - 1"
proof -
  have "(case lbf_dequeue sample_kernel (clocks_at 10000000) (lbf_reset sample_kernel one_armed) of
      Some (Inr (r, s)) \<Rightarrow> r = Some 7 | _ \<Rightarrow> False)" by code_simp
  then obtain s' where "lbf_dequeue sample_kernel (clocks_at 10000000) (lbf_reset sample_kernel one_armed) =
      Some (Inr (Some 7, s'))"
    by (auto split: option.splits sum.splits prod.splits)
  moreover obtain Q where "qdisc_safe id one_armed Q"
    using lbf_reach_inv [OF one_armed_reach sample_kernel_laws] by blast
  ultimately show ?thesis
    using reset_underflows [OF sample_kernel_laws, of one_armed Q "clocks_at 10000000" 7 s' 0 0 8 "[]"]
    by blast
qed

end
