(* ===== verification/Xdp_Base.thy ===== *)
theory Xdp_Base
  imports NewIP_Header
begin

text \<open>
  What an XDP program works on. A pointer into the packet is the offset from \<open>ctx->data\<close>, a
  pointer into the metadata the offset from \<open>ctx->data_meta\<close>; an access outside
  \<open>data .. data_end\<close> or \<open>data_meta .. data\<close> is a fault. The comparison \<open>p + 1 > data_end\<close> of a
  pointer \<open>p\<close> to a structure of \<open>n\<close> bytes is \<open>past\<close>.
\<close>

record xdp_md =
  pkt :: "u8 list"
  meta_area :: "u8 list"
  ingress_ifindex :: u32

definition past :: "u8 list \<Rightarrow> nat \<Rightarrow> nat \<Rightarrow> bool" where
  "past m i n \<longleftrightarrow> i + n > length m"

lemma past_iff [simp]: "past m i n \<longleftrightarrow> \<not> in_buf m i n"
  by (auto simp: past_def in_buf_def)

lemma in_buf_mono: "in_buf m i n \<Longrightarrow> k \<le> n \<Longrightarrow> in_buf m i k"
  by (simp add: in_buf_def)

lemma in_buf_part: "in_buf m i n \<Longrightarrow> j + k \<le> n \<Longrightarrow> in_buf m (i + j) k"
  by (simp add: in_buf_def)

section \<open>XDP actions and their statistics\<close>

definition XDP_ABORTED :: u32 where "XDP_ABORTED = 0"
definition XDP_DROP :: u32 where "XDP_DROP = 1"
definition XDP_PASS :: u32 where "XDP_PASS = 2"
definition XDP_TX :: u32 where "XDP_TX = 3"
definition XDP_REDIRECT :: u32 where "XDP_REDIRECT = 4"
definition XDP_ACTION_MAX :: u32 where "XDP_ACTION_MAX = XDP_REDIRECT + 1"

lemmas xdp_actions = XDP_ABORTED_def XDP_DROP_def XDP_PASS_def XDP_TX_def XDP_REDIRECT_def
  XDP_ACTION_MAX_def

record datarec =
  rx_packets :: u64
  rx_bytes :: u64

text \<open>The maps of the program: the static table of 8-bit addresses and the statistics record of
  the current CPU for each action.\<close>

record bpf_maps =
  static_redirect_8b :: "u8 \<rightharpoonup> u32"
  xdp_stats_map :: "u32 \<rightharpoonup> datarec"

definition xdp_stats_record_action :: "xdp_md \<Rightarrow> u32 \<Rightarrow> bpf_maps \<Rightarrow> u32 \<times> bpf_maps" where
  "xdp_stats_record_action ctx action maps =
     (if action \<ge> XDP_ACTION_MAX then (XDP_ABORTED, maps)
      else (case xdp_stats_map maps action of
              None \<Rightarrow> (XDP_ABORTED, maps)
            | Some r \<Rightarrow>
                (action,
                 maps\<lparr>xdp_stats_map := (xdp_stats_map maps)(action \<mapsto>
                   r\<lparr>rx_packets := rx_packets r + 1,
                     rx_bytes := rx_bytes r + word_of_nat (length (pkt ctx))\<rparr>)\<rparr>)))"

section \<open>32-bit fields and addresses\<close>

definition le32 :: "u8 \<Rightarrow> u8 \<Rightarrow> u8 \<Rightarrow> u8 \<Rightarrow> u32" where
  "le32 b0 b1 b2 b3 =
     ucast b0 OR push_bit 8 (ucast b1) OR push_bit 16 (ucast b2) OR push_bit 24 (ucast b3)"

definition bytes32 :: "u32 \<Rightarrow> u8 list" where
  "bytes32 w = [ucast w, ucast (drop_bit 8 w), ucast (drop_bit 16 w), ucast (drop_bit 24 w)]"

definition ld32 :: "u8 list \<Rightarrow> nat \<Rightarrow> u32 res" where
  "ld32 m i = rbind (ldn m i 4) (\<lambda>b. Inr (le32 (b ! 0) (b ! 1) (b ! 2) (b ! 3)))"

definition ld64 :: "u8 list \<Rightarrow> nat \<Rightarrow> u64 res" where
  "ld64 m i = rbind (ld32 m i) (\<lambda>lo. rbind (ld32 m (i + 4)) (\<lambda>hi. Inr (ucast lo OR push_bit 32 (ucast hi))))"

definition st32 :: "u8 list \<Rightarrow> nat \<Rightarrow> u32 \<Rightarrow> u8 list res" where
  "st32 m i w = stn m i (bytes32 w)"

lemma le32_bytes32 [byte_simps]:
  "le32 (ucast w) (ucast (drop_bit 8 w)) (ucast (drop_bit 16 w)) (ucast (drop_bit 24 w)) = w"
  unfolding le32_def
proof (rule bit_word_eqI)
  fix n :: nat
  assume "n < LENGTH(32)"
  then show "bit (ucast (ucast w :: u8) OR push_bit 8 (ucast (ucast (drop_bit 8 w) :: u8)) OR
      push_bit 16 (ucast (ucast (drop_bit 16 w) :: u8)) OR
      push_bit 24 (ucast (ucast (drop_bit 24 w) :: u8)) :: u32) n = bit w n"
    by (cases "24 \<le> n"; cases "16 \<le> n"; cases "8 \<le> n") (auto simp: bit_simps)
qed

lemma length_bytes32 [simp]: "length (bytes32 w) = 4"
  by (simp add: bytes32_def)

lemma st32_eq_Inr [res_simps]:
  "st32 m i w = Inr m' \<longleftrightarrow> i + 4 \<le> length m \<and> m' = take i m @ bytes32 w @ drop (i + 4) m"
  by (simp add: st32_def res_simps)

lemma st32_ok: "in_buf m i 4 \<Longrightarrow> \<exists>m'. st32 m i w = Inr m'"
  by (simp add: st32_def stn_def in_buf_def)

lemma ld32_ok: "in_buf m i 4 \<Longrightarrow> \<exists>w. ld32 m i = Inr w"
  by (simp add: ld32_def ldn_def in_buf_def)

lemma st32_length: "st32 m i w = Inr m' \<Longrightarrow> length m' = length m"
  by (auto simp: res_simps)

lemma ld32_st32: "st32 m i w = Inr m' \<Longrightarrow> ld32 m' i = Inr w"
  by (auto simp: res_simps ld32_def bytes32_def byte_simps)

lemma ld32_take: "i + 4 \<le> n \<Longrightarrow> n \<le> length m \<Longrightarrow> ld32 (take n m @ xs) i = ld32 m i"
  by (simp add: ld32_def ldn_def take_drop)

lemma ld32_take4:
  assumes "take 4 m' = take 4 m" "4 \<le> length m'"
  shows "ld32 m' 0 = ld32 m 0"
proof -
  have "4 \<le> length m" using arg_cong [OF assms(1), of length] assms(2) by simp
  then show ?thesis using assms by (simp add: ld32_def ldn_def)
qed

lemma ld16_drop:
  assumes "length m' = length m" "drop n m' = drop n m"
  shows "ld16 m' (n + k) = ld16 m (n + k)"
proof (cases "n + k + 2 \<le> length m")
  case True
  then have n: "n \<le> length m" "n \<le> length m'" using assms(1) by simp_all
  have "m' ! (n + j) = m ! (n + j)" for j
    using nth_drop [OF n(1), of j] nth_drop [OF n(2), of j] assms(2) by simp
  from this [of k] this [of "k + 1"] show ?thesis using assms(1) by (simp add: ld16_def add.assoc)
qed (use assms(1) in \<open>simp add: ld16_def\<close>)

lemma nth_stn: "stn m i bs = Inr m' \<Longrightarrow> k < i \<or> i + length bs \<le> k \<Longrightarrow> m' ! k = m ! k"
  by (auto simp: res_simps nth_append)

lemma stn_ok: "in_buf m i (length bs) \<Longrightarrow> \<exists>m'. stn m i bs = Inr m'"
  by (simp add: stn_def in_buf_def)

lemma ldn_ok: "in_buf m i n \<Longrightarrow> \<exists>bs. ldn m i n = Inr bs \<and> length bs = n"
  by (auto simp: ldn_def in_buf_def)

end
