(* ===== verification/Xdp_Router.thy ===== *)
theory Xdp_Router
  imports Xdp_Base
begin

text \<open>
  The XDP program of \<open>xdp/newip_router/xdp_prog_kern.c\<close>. The BPF helpers it calls are
  parameters: \<open>bpf_xdp_adjust_meta\<close> and \<open>bpf_fib_lookup\<close>, in the record \<open>E\<close>. The program is cut
  into the steps between its labels: each returns the context and either the value the program
  returns at once, or the action with which it jumps to \<open>out\<close>, or the result for the next step.
\<close>

section \<open>Helpers and constants\<close>

definition ETH_P_NEWIP_router :: u16 where "ETH_P_NEWIP_router = 0x88b6"

abbreviation (input) NEWIP_T_IPv4 :: u8 where "NEWIP_T_IPv4 \<equiv> 0"
abbreviation (input) NEWIP_T_IPv6 :: u8 where "NEWIP_T_IPv6 \<equiv> 1"
abbreviation (input) NEWIP_T_8b :: u8 where "NEWIP_T_8b \<equiv> 2"

text \<open>\<open>fib_dst\<close> is the union of \<open>ipv4_dst\<close> and \<open>ipv6_dst\<close>; the other fields stay zero.\<close>

record bpf_fib_lookup =
  family :: u8
  fib_ifindex :: u32
  fib_dst :: "u8 list"
  smac :: "u8 list"
  dmac :: "u8 list"

definition fib_zero :: bpf_fib_lookup where
  "fib_zero = \<lparr>family = 0, fib_ifindex = 0, fib_dst = replicate 16 0, smac = replicate 6 0,
     dmac = replicate 6 0\<rparr>"

record xdp_env =
  e_adjust_meta :: "xdp_md \<Rightarrow> int \<Rightarrow> int \<times> xdp_md"
  e_fib_lookup :: "xdp_md \<Rightarrow> bpf_fib_lookup \<Rightarrow> int \<times> bpf_fib_lookup"
  hdr_AF_INET :: "u8 option"
  hdr_AF_INET6 :: "u8 option"

text \<open>The address families: the values of the headers the program is compiled with, if they define
  them, and otherwise the ones of the \<open>#ifndef\<close> blocks of the program. None of the headers it
  includes under \<open>xdp/headers\<close> defines them; the socket header does, as 2 and 10.\<close>

definition AF_INET :: "xdp_env \<Rightarrow> u8" where
  "AF_INET E = (case hdr_AF_INET E of Some v \<Rightarrow> v | None \<Rightarrow> 1)"

definition AF_INET6 :: "xdp_env \<Rightarrow> u8" where
  "AF_INET6 E = (case hdr_AF_INET6 E of Some v \<Rightarrow> v | None \<Rightarrow> 6)"

abbreviation (input) BPF_FIB_LKUP_RET_SUCCESS :: int where "BPF_FIB_LKUP_RET_SUCCESS \<equiv> 0"
abbreviation (input) BPF_FIB_LKUP_RET_BLACKHOLE :: int where "BPF_FIB_LKUP_RET_BLACKHOLE \<equiv> 1"
abbreviation (input) BPF_FIB_LKUP_RET_UNREACHABLE :: int where "BPF_FIB_LKUP_RET_UNREACHABLE \<equiv> 2"
abbreviation (input) BPF_FIB_LKUP_RET_PROHIBIT :: int where "BPF_FIB_LKUP_RET_PROHIBIT \<equiv> 3"

abbreviation (input) ETH_HLEN :: nat where "ETH_HLEN \<equiv> 14"
abbreviation (input) ETH_ALEN :: nat where "ETH_ALEN \<equiv> 6"

section \<open>The steps\<close>

datatype 'a ctl = Ret u32 | Out u32 | Next 'a

type_synonym 'a step = "(xdp_md \<times> 'a ctl) res"

definition sbind :: "'a step \<Rightarrow> (xdp_md \<Rightarrow> 'a \<Rightarrow> 'b step) \<Rightarrow> 'b step" where
  "sbind m f =
     rbind m (\<lambda>(c, r). (case r of Ret a \<Rightarrow> Inr (c, Ret a) | Out a \<Rightarrow> Inr (c, Out a) | Next x \<Rightarrow> f c x))"

text \<open>From the Ethernet header to the shipping specification.\<close>

definition router_headers :: "xdp_md \<Rightarrow> (newip_offset \<times> shipping_spec) step" where
  "router_headers ctx =
     (if past (pkt ctx) 0 ETH_HLEN then Inr (ctx, Out XDP_DROP)
      else rbind (ld16 (pkt ctx) 12) (\<lambda>h_proto.
        if h_proto \<noteq> htons ETH_P_NEWIP_router then Inr (ctx, Out XDP_PASS)
        else if past (pkt ctx) ETH_HLEN sizeof_newip_offset then Inr (ctx, Out XDP_DROP)
        else rbind (get_newip_offset (pkt ctx) ETH_HLEN) (\<lambda>off.
          let sp = ETH_HLEN + unat (shipping_offset off)
          in if past (pkt ctx) sp sizeof_shipping_spec then Inr (ctx, Out XDP_DROP)
             else if past (meta_area ctx) 0 sizeof_meta_info then Inr (ctx, Ret XDP_ABORTED)
             else rbind (get_shipping_spec (pkt ctx) sp) (\<lambda>spec. Inr (ctx, Next (off, spec))))))"

text \<open>The size of the source address, and the place of the destination address:
  \<open>data + nh_off + sizeof(*shipping_spec) + sizeof(*newipoff) + size\<close>.\<close>

definition addr_size :: "u8 \<Rightarrow> nat" where
  "addr_size t = (if t = NEWIP_T_IPv4 then 4 else if t = NEWIP_T_IPv6 then 16
                  else if t = NEWIP_T_8b then 1 else 0)"

definition dst_pos :: "shipping_spec \<Rightarrow> nat" where
  "dst_pos spec = ETH_HLEN + sizeof_shipping_spec + sizeof_newip_offset + addr_size (src_addr_type spec)"

definition router_dst :: "xdp_env \<Rightarrow> bpf_maps \<Rightarrow> xdp_md \<Rightarrow> shipping_spec \<Rightarrow> bpf_fib_lookup step" where
  "router_dst E maps ctx spec =
     (let p = dst_pos spec; t = dst_addr_type spec
      in if t = NEWIP_T_IPv4 then
           (if past (pkt ctx) p 4 then Inr (ctx, Out XDP_DROP)
            else rbind (ldn (pkt ctx) p 4) (\<lambda>a.
                   Inr (ctx, Next (fib_zero\<lparr>family := AF_INET E, fib_dst := a @ replicate 12 0\<rparr>))))
         else if t = NEWIP_T_IPv6 then
           (if past (pkt ctx) p 16 then Inr (ctx, Out XDP_DROP)
            else rbind (ldn (pkt ctx) p 16) (\<lambda>a.
                   Inr (ctx, Next (fib_zero\<lparr>family := AF_INET6 E, fib_dst := a\<rparr>))))
         else if t = NEWIP_T_8b then
           (if past (pkt ctx) p 1 then Inr (ctx, Out XDP_DROP)
            else rbind (ld8 (pkt ctx) p) (\<lambda>a.
              (case static_redirect_8b maps a of
                 None \<Rightarrow> Inr (ctx, Ret XDP_ABORTED)
               | Some ifindex \<Rightarrow>
                   rbind (st32 (meta_area ctx) 0 ifindex) (\<lambda>m.
                     Inr (ctx\<lparr>meta_area := m\<rparr>, Next fib_zero)))))
         else Inr (ctx, Out XDP_DROP))"

text \<open>The contract: a ping contract has its hops decremented in the packet, a Max Delay
  Forwarding contract is copied to the metadata.\<close>

definition router_contract :: "xdp_md \<Rightarrow> newip_offset \<Rightarrow> unit step" where
  "router_contract ctx off =
     (if \<not> contract_offset off < payload_offset off then Inr (ctx, Next ())
      else
        let cp = ETH_HLEN + unat (contract_offset off)
        in if past (pkt ctx) cp 2 then Inr (ctx, Out XDP_DROP)
           else rbind (ld16 (pkt ctx) cp) (\<lambda>raw.
             if ntohs raw = 3 then
               (if past (pkt ctx) cp sizeof_ping then Inr (ctx, Out XDP_DROP)
                else rbind (ld16 (pkt ctx) (cp + 4)) (\<lambda>hops.
                     rbind (st16 (pkt ctx) (cp + 4) (htons (ntohs hops - 1))) (\<lambda>m.
                       Inr (ctx\<lparr>pkt := m\<rparr>, Next ()))))
             else if ntohs raw = 1 then
               (if past (pkt ctx) cp sizeof_mdf then Inr (ctx, Out XDP_DROP)
                else rbind (get_mdf (pkt ctx) cp) (\<lambda>mdf.
                     rbind (st16 (meta_area ctx) 6 (max_allowed_delay mdf)) (\<lambda>m.
                     rbind (st16 m 8 (delay_exp mdf)) (\<lambda>m.
                       Inr (ctx\<lparr>meta_area := m\<rparr>, Next ())))))
             else Inr (ctx, Next ())))"

text \<open>The routing lookup for IP destinations.\<close>

definition router_fib :: "xdp_env \<Rightarrow> xdp_md \<Rightarrow> bpf_fib_lookup \<Rightarrow> u32 step" where
  "router_fib E ctx fib =
     (case e_fib_lookup E ctx (fib\<lparr>fib_ifindex := ingress_ifindex ctx\<rparr>) of (rc, fib) \<Rightarrow>
        if rc = BPF_FIB_LKUP_RET_SUCCESS then
          rbind (stn (pkt ctx) 0 (dmac fib)) (\<lambda>m.
          rbind (stn m ETH_ALEN (smac fib)) (\<lambda>m.
          rbind (st32 (meta_area ctx) 0 (fib_ifindex fib)) (\<lambda>mt.
            Inr (ctx\<lparr>pkt := m, meta_area := mt\<rparr>, Out XDP_PASS))))
        else if rc = BPF_FIB_LKUP_RET_BLACKHOLE \<or> rc = BPF_FIB_LKUP_RET_UNREACHABLE \<or>
                rc = BPF_FIB_LKUP_RET_PROHIBIT
        then Inr (ctx, Out XDP_DROP)
        else Inr (ctx, Out XDP_PASS))"

text \<open>The body up to the label \<open>out\<close>.\<close>

definition router_body :: "xdp_env \<Rightarrow> bpf_maps \<Rightarrow> xdp_md \<Rightarrow> u32 step" where
  "router_body E maps ctx =
     sbind (router_headers ctx) (\<lambda>ctx (off, spec).
     sbind (router_dst E maps ctx spec) (\<lambda>ctx fib.
     sbind (router_contract ctx off) (\<lambda>ctx _.
       if dst_addr_type spec = NEWIP_T_8b then Inr (ctx, Out XDP_PASS)
       else router_fib E ctx fib)))"

definition xdp_router_func :: "xdp_env \<Rightarrow> bpf_maps \<Rightarrow> xdp_md \<Rightarrow> (u32 \<times> xdp_md \<times> bpf_maps) res" where
  "xdp_router_func E maps ctx =
     (case e_adjust_meta E ctx (- int sizeof_meta_info) of (ret, ctx) \<Rightarrow>
        if ret < 0 then Inr (XDP_ABORTED, ctx, maps)
        else rbind (router_body E maps ctx) (\<lambda>(ctx, r).
          (case r of
             Ret a \<Rightarrow> Inr (a, ctx, maps)
           | Out a \<Rightarrow> (case xdp_stats_record_action ctx a maps of (a, maps) \<Rightarrow> Inr (a, ctx, maps))
           | Next a \<Rightarrow> (case xdp_stats_record_action ctx a maps of (a, maps) \<Rightarrow> Inr (a, ctx, maps)))))"

definition xdp_pass_func :: "xdp_md \<Rightarrow> u32" where
  "xdp_pass_func ctx = XDP_PASS"

section \<open>Every step stays inside its buffers\<close>

lemma sbind_simps [simp]:
  "sbind (Inr (c, Ret a)) f = Inr (c, Ret a)" "sbind (Inr (c, Out a)) f = Inr (c, Out a)"
  "sbind (Inr (c, Next x)) f = f c x"
  by (simp_all add: sbind_def)

lemma in_buf_newip_offset: "in_buf m i sizeof_newip_offset \<Longrightarrow> \<exists>off. get_newip_offset m i = Inr off"
  by (auto simp: get_newip_offset_def ld8_def in_buf_def sizeof_newip_offset_def)

lemma in_buf_shipping_spec: "in_buf m i sizeof_shipping_spec \<Longrightarrow> \<exists>s. get_shipping_spec m i = Inr s"
  by (auto simp: get_shipping_spec_def ld8_def in_buf_def sizeof_shipping_spec_def)

text \<open>What the bounds checks of the first step establish for the later ones.\<close>

definition headers_ok :: "xdp_md \<Rightarrow> newip_offset \<Rightarrow> shipping_spec \<Rightarrow> bool" where
  "headers_ok ctx off spec \<longleftrightarrow>
     in_buf (pkt ctx) 0 ETH_HLEN \<and> in_buf (meta_area ctx) 0 sizeof_meta_info \<and>
     ld16 (pkt ctx) 12 = Inr (htons ETH_P_NEWIP_router) \<and>
     get_newip_offset (pkt ctx) ETH_HLEN = Inr off \<and>
     get_shipping_spec (pkt ctx) (ETH_HLEN + unat (shipping_offset off)) = Inr spec"

lemma router_headers_cases:
  obtains (drop) "router_headers ctx = Inr (ctx, Out XDP_DROP)"
  | (other) "router_headers ctx = Inr (ctx, Out XDP_PASS)" "in_buf (pkt ctx) 0 ETH_HLEN"
      "ld16 (pkt ctx) 12 \<noteq> Inr (htons ETH_P_NEWIP_router)"
  | (abort) "router_headers ctx = Inr (ctx, Ret XDP_ABORTED)" "past (meta_area ctx) 0 sizeof_meta_info"
  | (ok) off spec where "router_headers ctx = Inr (ctx, Next (off, spec))" "headers_ok ctx off spec"
proof (cases "past (pkt ctx) 0 ETH_HLEN")
  case True
  then show thesis by (intro drop) (simp add: router_headers_def)
next
  case False
  then have b: "in_buf (pkt ctx) 0 ETH_HLEN" by simp
  then obtain w where w: "ld16 (pkt ctx) 12 = Inr w" by (simp add: ld16_def in_buf_def)
  show thesis
  proof (cases "w = htons ETH_P_NEWIP_router")
    case False
    then show thesis using b w by (intro other) (auto simp: router_headers_def)
  next
    case True
    show thesis
    proof (cases "past (pkt ctx) ETH_HLEN sizeof_newip_offset")
      case True
      then show thesis using b w \<open>w = _\<close> by (intro drop) (simp add: router_headers_def)
    next
      case False
      then obtain off where off: "get_newip_offset (pkt ctx) ETH_HLEN = Inr off"
        using in_buf_newip_offset by auto
      let ?sp = "ETH_HLEN + unat (shipping_offset off)"
      show thesis
      proof (cases "past (pkt ctx) ?sp sizeof_shipping_spec")
        case True
        then show thesis using b w \<open>w = _\<close> False off by (intro drop) (simp add: router_headers_def)
      next
        case nsp: False
        then obtain spec where spec: "get_shipping_spec (pkt ctx) ?sp = Inr spec"
          using in_buf_shipping_spec by auto
        have "router_headers ctx = (if past (meta_area ctx) 0 sizeof_meta_info then Inr (ctx, Ret XDP_ABORTED)
            else Inr (ctx, Next (off, spec)))"
          using b w \<open>w = _\<close> False nsp off spec by (simp add: router_headers_def)
        then show thesis
          using abort ok [of off spec] b w \<open>w = _\<close> off spec
          by (cases "past (meta_area ctx) 0 sizeof_meta_info") (auto simp: headers_ok_def)
      qed
    qed
  qed
qed

lemma router_dst_total:
  assumes "in_buf (meta_area ctx) 0 sizeof_meta_info"
  shows "\<exists>m r. router_dst E maps ctx spec = Inr (ctx\<lparr>meta_area := m\<rparr>, r) \<and> length m = length (meta_area ctx) \<and>
           (dst_addr_type spec \<noteq> NEWIP_T_8b \<longrightarrow> m = meta_area ctx)"
proof -
  let ?p = "dst_pos spec"
  have same: "ctx\<lparr>meta_area := meta_area ctx\<rparr> = ctx" by simp
  have "in_buf (meta_area ctx) 0 4"
    using assms by (rule in_buf_mono) (simp add: sizeof_meta_info_def)
  then have "\<exists>m. st32 (meta_area ctx) 0 w = Inr m \<and> length m = length (meta_area ctx)" for w
    using st32_ok st32_length by blast
  then obtain M where M: "\<And>w. st32 (meta_area ctx) 0 w = Inr (M w) \<and> length (M w) = length (meta_area ctx)"
    by metis
  consider (v4) "dst_addr_type spec = NEWIP_T_IPv4" | (v6) "dst_addr_type spec = NEWIP_T_IPv6"
    | (b8) "dst_addr_type spec = NEWIP_T_8b"
    | (other) "dst_addr_type spec \<notin> {NEWIP_T_IPv4, NEWIP_T_IPv6, NEWIP_T_8b}" by blast
  then show ?thesis
  proof cases
    case v4
    then show ?thesis using ldn_ok [of "pkt ctx" ?p 4]
      by (cases "past (pkt ctx) ?p 4")
        (auto simp: router_dst_def Let_def intro!: exI [of _ "meta_area ctx"])
  next
    case v6
    then show ?thesis using ldn_ok [of "pkt ctx" ?p 16]
      by (cases "past (pkt ctx) ?p 16")
        (auto simp: router_dst_def Let_def intro!: exI [of _ "meta_area ctx"])
  next
    case b8
    show ?thesis
    proof (cases "past (pkt ctx) ?p 1")
      case True
      then show ?thesis using b8
        by (auto simp: router_dst_def Let_def intro!: exI [of _ "meta_area ctx"])
    next
      case False
      then have "ld8 (pkt ctx) ?p = Inr (pkt ctx ! ?p)" by (simp add: ld8_ok)
      then show ?thesis using b8 False M same
        by (cases "static_redirect_8b maps (pkt ctx ! ?p)")
          (auto simp: router_dst_def Let_def intro: exI [of _ "meta_area ctx"])
    qed
  next
    case other
    then show ?thesis by (auto simp: router_dst_def Let_def intro!: exI [of _ "meta_area ctx"])
  qed
qed

text \<open>The contract step changes at most the two bytes of the hop count of a ping contract.\<close>

definition hop_count_at :: "newip_offset \<Rightarrow> nat" where
  "hop_count_at off = ETH_HLEN + unat (contract_offset off) + 4"

definition same_but_hops :: "newip_offset \<Rightarrow> u8 list \<Rightarrow> u8 list \<Rightarrow> bool" where
  "same_but_hops off m m' \<longleftrightarrow> length m' = length m \<and>
     (\<forall>k. k \<noteq> hop_count_at off \<and> k \<noteq> hop_count_at off + 1 \<longrightarrow> m' ! k = m ! k)"

lemma same_but_hops_refl [simp]: "same_but_hops off m m"
  by (simp add: same_but_hops_def)

lemma router_contract_total:
  assumes "in_buf (meta_area ctx) 0 sizeof_meta_info"
  shows "\<exists>m mt r. router_contract ctx off = Inr (ctx\<lparr>pkt := m, meta_area := mt\<rparr>, r) \<and>
           same_but_hops off (pkt ctx) m \<and> length mt = length (meta_area ctx) \<and>
           take 4 mt = take 4 (meta_area ctx) \<and> r \<in> {Next (), Out XDP_DROP}"
proof -
  let ?cp = "ETH_HLEN + unat (contract_offset off)"
  let ?P = "\<lambda>x. \<exists>m mt r. x = Inr (ctx\<lparr>pkt := m, meta_area := mt\<rparr>, r) \<and>
           same_but_hops off (pkt ctx) m \<and> length mt = length (meta_area ctx) \<and>
           take 4 mt = take 4 (meta_area ctx) \<and> r \<in> {Next (), Out XDP_DROP}"
  have "?P (Inr (ctx, r))" if "r \<in> {Next (), Out XDP_DROP}" for r :: "unit ctl"
    by (rule exI [of _ "pkt ctx"], rule exI [of _ "meta_area ctx"], rule exI [of _ r]) (use that in simp)
  then have drop: "?P (Inr (ctx, Out XDP_DROP))" and go: "?P (Inr (ctx, Next ()))" by blast+
  show ?thesis
  proof (cases "contract_offset off < payload_offset off \<and> in_buf (pkt ctx) ?cp 2")
    case False
    then show ?thesis using drop go by (auto simp: router_contract_def Let_def)
  next
    case True
    then obtain raw where raw: "ld16 (pkt ctx) ?cp = Inr raw" using ld16_ok by blast
    consider (ping) "ntohs raw = 3" "in_buf (pkt ctx) ?cp sizeof_ping"
      | (mdf) "ntohs raw = 1" "in_buf (pkt ctx) ?cp sizeof_mdf"
      | (short) "ntohs raw = 3 \<and> \<not> in_buf (pkt ctx) ?cp sizeof_ping \<or>
          ntohs raw = 1 \<and> \<not> in_buf (pkt ctx) ?cp sizeof_mdf"
      | (none) "ntohs raw \<noteq> 3" "ntohs raw \<noteq> 1" by blast
    then show ?thesis
    proof cases
      case ping
      then have b: "in_buf (pkt ctx) (?cp + 4) 2"
        by (auto simp: in_buf_def sizeof_ping_def)
      then obtain hops m where "ld16 (pkt ctx) (?cp + 4) = Inr hops"
        "st16 (pkt ctx) (?cp + 4) (htons (ntohs hops - 1)) = Inr m"
        using ld16_ok st16_ok by blast
      moreover from this(2) have "same_but_hops off (pkt ctx) m"
        using nth_st16 st16_length unfolding same_but_hops_def hop_count_at_def
        by (metis Suc_eq_plus1 Suc_leI add_2_eq_Suc' le_neq_implies_less linorder_not_le not_less_eq_eq)
      ultimately have "router_contract ctx off = Inr (ctx\<lparr>pkt := m, meta_area := meta_area ctx\<rparr>, Next ())"
        using True raw ping by (simp add: router_contract_def Let_def)
      with \<open>same_but_hops off (pkt ctx) m\<close> show ?thesis by blast
    next
      case mdf
      then obtain c where c: "get_mdf (pkt ctx) ?cp = Inr c" using mdf_wire.get_ok by blast
      have len: "12 \<le> length (meta_area ctx)" using assms by (simp add: in_buf_def sizeof_meta_info_def)
      obtain m1 where m1: "st16 (meta_area ctx) 6 (max_allowed_delay c) = Inr m1"
        using len by (simp add: st16_def)
      obtain m2 where m2: "st16 m1 8 (delay_exp c) = Inr m2"
        using len st16_length [OF m1] by (simp add: st16_def)
      have "length m2 = length (meta_area ctx)" using st16_length [OF m1] st16_length [OF m2] by simp
      moreover have "take 4 m2 = take 4 (meta_area ctx)"
        using m1 m2 by (auto simp: res_simps)
      moreover have "router_contract ctx off = Inr (ctx\<lparr>pkt := pkt ctx, meta_area := m2\<rparr>, Next ())"
        using True raw mdf c m1 m2 by (simp add: router_contract_def Let_def)
      ultimately show ?thesis using same_but_hops_refl by blast
    next
      case short
      then show ?thesis using True raw drop by (auto simp: router_contract_def Let_def)
    next
      case none
      then show ?thesis using True raw go by (auto simp: router_contract_def Let_def)
    qed
  qed
qed

text \<open>The addresses that the routing lookup returns are Ethernet addresses.\<close>

definition macs_ok :: "xdp_env \<Rightarrow> bool" where
  "macs_ok E \<longleftrightarrow> (\<forall>c f. length (dmac (snd (e_fib_lookup E c f))) = ETH_ALEN \<and>
                      length (smac (snd (e_fib_lookup E c f))) = ETH_ALEN)"

lemma router_fib_total:
  assumes "in_buf (meta_area ctx) 0 sizeof_meta_info" "in_buf (pkt ctx) 0 ETH_HLEN" "macs_ok E"
  shows "\<exists>m mt a. router_fib E ctx fib = Inr (ctx\<lparr>pkt := m, meta_area := mt\<rparr>, Out a) \<and>
           length m = length (pkt ctx) \<and> (\<forall>k. 12 \<le> k \<longrightarrow> m ! k = pkt ctx ! k) \<and>
           length mt = length (meta_area ctx) \<and> drop 4 mt = drop 4 (meta_area ctx) \<and>
           a \<in> {XDP_PASS, XDP_DROP}"
proof -
  obtain rc f where look: "e_fib_lookup E ctx (fib\<lparr>fib_ifindex := ingress_ifindex ctx\<rparr>) = (rc, f)"
    by fastforce
  have macs: "length (dmac f) = 6" "length (smac f) = 6"
    using assms(3) look unfolding macs_ok_def by (metis snd_conv)+
  have P: "14 \<le> length (pkt ctx)" using assms(2) by (simp add: in_buf_def)
  show ?thesis
  proof (cases "rc = BPF_FIB_LKUP_RET_SUCCESS")
    case False
    then have "\<exists>a. router_fib E ctx fib = Inr (ctx, Out a) \<and> a \<in> {XDP_PASS, XDP_DROP}"
      using look by (simp add: router_fib_def)
    then obtain a where "router_fib E ctx fib = Inr (ctx\<lparr>pkt := pkt ctx, meta_area := meta_area ctx\<rparr>, Out a)"
      "a \<in> {XDP_PASS, XDP_DROP}" by auto
    then show ?thesis by blast
  next
    case True
    obtain m1 where m1: "stn (pkt ctx) 0 (dmac f) = Inr m1"
      using stn_ok [of "pkt ctx" 0 "dmac f"] P macs by (auto simp: in_buf_def)
    obtain m2 where m2: "stn m1 ETH_ALEN (smac f) = Inr m2"
      using stn_ok [of m1 6 "smac f"] P macs stn_length [OF m1] by (auto simp: in_buf_def)
    obtain mt where mt: "st32 (meta_area ctx) 0 (fib_ifindex f) = Inr mt"
      using st32_ok [of "meta_area ctx" 0] assms(1) by (auto simp: in_buf_def sizeof_meta_info_def)
    have "m2 ! k = pkt ctx ! k" if "12 \<le> k" for k
      using nth_stn [OF m1, of k] nth_stn [OF m2, of k] macs that by simp
    moreover have "router_fib E ctx fib = Inr (ctx\<lparr>pkt := m2, meta_area := mt\<rparr>, Out XDP_PASS)"
      using look True m1 m2 mt by (simp add: router_fib_def)
    moreover have "drop 4 mt = drop 4 (meta_area ctx)" using mt by (auto simp: res_simps)
    ultimately show ?thesis
      using stn_length [OF m1] stn_length [OF m2] st32_length [OF mt] by auto
  qed
qed

end
