(* ===== verification/Xdp_Forward.thy ===== *)
theory Xdp_Forward
  imports Xdp_Router
begin

text \<open>
  What the XDP router promises. A packet is read as an abstract \<open>view\<close>: a foreign packet, a
  malformed one, or a destination with a contract. The decision of the router is a function of
  the view, of the static table and of the routing lookup; \<open>xdp_router_func\<close> refines it. The rest
  of the theory says which bytes the router changes and what it leaves in the metadata.
\<close>

section \<open>The abstract packet\<close>

datatype dest = Dst4 "u8 list" | Dst6 "u8 list" | Dst8 u8

datatype contract_view = CNone | CShort | CPing | CMdf u16 u16 | COther

datatype view = Foreign | Malformed | View dest contract_view

definition dst_view :: "u8 list \<Rightarrow> shipping_spec \<Rightarrow> dest option" where
  "dst_view m spec =
     (let p = dst_pos spec; t = dst_addr_type spec
      in if t = NEWIP_T_IPv4 \<and> in_buf m p 4 then Some (Dst4 (take 4 (drop p m)))
         else if t = NEWIP_T_IPv6 \<and> in_buf m p 16 then Some (Dst6 (take 16 (drop p m)))
         else if t = NEWIP_T_8b \<and> in_buf m p 1 then Some (Dst8 (m ! p))
         else None)"

definition contract_view :: "u8 list \<Rightarrow> newip_offset \<Rightarrow> contract_view" where
  "contract_view m off =
     (let cp = ETH_HLEN + unat (contract_offset off)
      in if payload_offset off \<le> contract_offset off then CNone
         else if \<not> in_buf m cp 2 then CShort
         else let t = ntohs (le16 (m ! cp) (m ! (cp + 1)))
              in if t = 3 then (if in_buf m cp sizeof_ping then CPing else CShort)
                 else if t = 1 then
                   (case get_mdf m cp of Inr c \<Rightarrow> CMdf (max_allowed_delay c) (delay_exp c)
                    | Inl _ \<Rightarrow> CShort)
                 else COther)"

definition router_view :: "u8 list \<Rightarrow> view" where
  "router_view m =
     (if \<not> in_buf m 0 ETH_HLEN then Malformed
      else if le16 (m ! 12) (m ! 13) \<noteq> htons ETH_P_NEWIP_router then Foreign
      else (case get_newip_offset m ETH_HLEN of Inl _ \<Rightarrow> Malformed
            | Inr off \<Rightarrow>
                (case get_shipping_spec m (ETH_HLEN + unat (shipping_offset off)) of Inl _ \<Rightarrow> Malformed
                 | Inr spec \<Rightarrow>
                     (case dst_view m spec of None \<Rightarrow> Malformed
                      | Some d \<Rightarrow> View d (contract_view m off)))))"

text \<open>The decision, and whether it is counted in the statistics: the program returns without
  counting when an 8-bit address is not in the table.\<close>

definition fib_query :: "xdp_env \<Rightarrow> dest \<Rightarrow> bpf_fib_lookup" where
  "fib_query E d = (case d of
     Dst4 a \<Rightarrow> fib_zero\<lparr>family := AF_INET E, fib_dst := a @ replicate 12 0\<rparr>
   | Dst6 a \<Rightarrow> fib_zero\<lparr>family := AF_INET6 E, fib_dst := a\<rparr>
   | Dst8 _ \<Rightarrow> fib_zero)"

definition fib_verdict :: "int \<Rightarrow> u32" where
  "fib_verdict rc = (if rc \<in> {BPF_FIB_LKUP_RET_BLACKHOLE, BPF_FIB_LKUP_RET_UNREACHABLE, BPF_FIB_LKUP_RET_PROHIBIT}
     then XDP_DROP else XDP_PASS)"

definition abs_router ::
    "xdp_env \<Rightarrow> (bpf_fib_lookup \<Rightarrow> int) \<Rightarrow> (u8 \<rightharpoonup> u32) \<Rightarrow> u32 \<Rightarrow> view \<Rightarrow> u32 \<times> bool" where
  "abs_router E L table ifin v = (case v of
     Foreign \<Rightarrow> (XDP_PASS, True)
   | Malformed \<Rightarrow> (XDP_DROP, True)
   | View d c \<Rightarrow>
       (case d of
          Dst8 a \<Rightarrow> if table a = None then (XDP_ABORTED, False)
                    else if c = CShort then (XDP_DROP, True) else (XDP_PASS, True)
        | _ \<Rightarrow> if c = CShort then (XDP_DROP, True)
               else (fib_verdict (L ((fib_query E d)\<lparr>fib_ifindex := ifin\<rparr>)), True)))"

section \<open>The steps, by view\<close>

lemma router_dst_view:
  "router_dst E maps ctx spec =
     (case dst_view (pkt ctx) spec of
        None \<Rightarrow> Inr (ctx, Out XDP_DROP)
      | Some (Dst8 a) \<Rightarrow>
          (case static_redirect_8b maps a of None \<Rightarrow> Inr (ctx, Ret XDP_ABORTED)
           | Some i \<Rightarrow> rbind (st32 (meta_area ctx) 0 i) (\<lambda>m. Inr (ctx\<lparr>meta_area := m\<rparr>, Next (fib_query E (Dst8 a)))))
      | Some d \<Rightarrow> Inr (ctx, Next (fib_query E d)))"
  by (auto simp: router_dst_def dst_view_def Let_def fib_query_def ldn_def in_buf_def ld8_def
      split: option.splits)

lemma router_contract_view:
  "router_contract ctx off =
     (case contract_view (pkt ctx) off of
        CShort \<Rightarrow> Inr (ctx, Out XDP_DROP)
      | CPing \<Rightarrow> rbind (ld16 (pkt ctx) (hop_count_at off)) (\<lambda>hops.
          rbind (st16 (pkt ctx) (hop_count_at off) (htons (ntohs hops - 1))) (\<lambda>m.
            Inr (ctx\<lparr>pkt := m\<rparr>, Next ())))
      | CMdf a e \<Rightarrow> rbind (st16 (meta_area ctx) 6 a) (\<lambda>m. rbind (st16 m 8 e) (\<lambda>m.
            Inr (ctx\<lparr>meta_area := m\<rparr>, Next ())))
      | _ \<Rightarrow> Inr (ctx, Next ()))"
proof (cases "contract_offset off < payload_offset off \<and>
    in_buf (pkt ctx) (ETH_HLEN + unat (contract_offset off)) 2")
  case False
  then show ?thesis by (auto simp: router_contract_def contract_view_def Let_def)
next
  case True
  let ?cp = "ETH_HLEN + unat (contract_offset off)"
  have raw: "ld16 (pkt ctx) ?cp = Inr (le16 (pkt ctx ! ?cp) (pkt ctx ! (?cp + 1)))"
    using True by (simp add: ld16_ok)
  have "(\<exists>c. get_mdf (pkt ctx) ?cp = Inr c) \<longleftrightarrow> in_buf (pkt ctx) ?cp sizeof_mdf"
    by (rule mdf_wire.get_ok)
  then show ?thesis using True raw
    by (cases "get_mdf (pkt ctx) ?cp")
      (auto simp: router_contract_def contract_view_def Let_def hop_count_at_def)
qed

lemma router_headers_view:
  assumes "in_buf (meta_area ctx) 0 sizeof_meta_info"
  obtains "router_view (pkt ctx) = Malformed" "router_headers ctx = Inr (ctx, Out XDP_DROP)"
  | "router_view (pkt ctx) = Foreign" "router_headers ctx = Inr (ctx, Out XDP_PASS)"
  | off spec where "router_headers ctx = Inr (ctx, Next (off, spec))" "headers_ok ctx off spec"
      "router_view (pkt ctx) = (case dst_view (pkt ctx) spec of None \<Rightarrow> Malformed
         | Some d \<Rightarrow> View d (contract_view (pkt ctx) off))"
proof (cases "in_buf (pkt ctx) 0 ETH_HLEN")
  case False
  then show thesis by (intro that(1)) (simp_all add: router_view_def router_headers_def)
next
  case True
  then have ty: "ld16 (pkt ctx) 12 = Inr (le16 (pkt ctx ! 12) (pkt ctx ! 13))"
    by (simp add: ld16_def in_buf_def)
  show thesis
  proof (cases "le16 (pkt ctx ! 12) (pkt ctx ! 13) = htons ETH_P_NEWIP_router")
    case False
    then show thesis using True ty
      by (intro that(2)) (simp_all add: router_view_def router_headers_def)
  next
    case newip: True
    show thesis
    proof (cases "get_newip_offset (pkt ctx) ETH_HLEN")
      case (Inl f)
      then have "past (pkt ctx) ETH_HLEN sizeof_newip_offset"
        using in_buf_newip_offset [of "pkt ctx" ETH_HLEN] by auto
      then show thesis using True ty newip Inl
        by (intro that(1)) (simp_all add: router_view_def router_headers_def)
    next
      case (Inr off)
      then have b: "in_buf (pkt ctx) ETH_HLEN sizeof_newip_offset"
        by (auto simp: get_newip_offset_def res_simps in_buf_def sizeof_newip_offset_def)
      show thesis
      proof (cases "get_shipping_spec (pkt ctx) (ETH_HLEN + unat (shipping_offset off))")
        case (Inl f)
        then have "past (pkt ctx) (ETH_HLEN + unat (shipping_offset off)) sizeof_shipping_spec"
          using in_buf_shipping_spec by fastforce
        then show thesis using True ty newip Inl Inr b
          by (intro that(1)) (simp_all add: router_view_def router_headers_def)
      next
        case spec: (Inr spec)
        then have "in_buf (pkt ctx) (ETH_HLEN + unat (shipping_offset off)) sizeof_shipping_spec"
          by (auto simp: get_shipping_spec_def res_simps in_buf_def sizeof_shipping_spec_def)
        then show thesis using True ty newip Inr b spec assms
          by (intro that(3) [of off spec])
            (simp_all add: router_view_def router_headers_def headers_ok_def split: option.split)
      qed
    qed
  qed
qed

section \<open>Refinement\<close>

text \<open>What the two BPF helpers and the per-CPU statistics array provide.\<close>

definition lookup_by_query :: "xdp_env \<Rightarrow> (bpf_fib_lookup \<Rightarrow> int) \<Rightarrow> bool" where
  "lookup_by_query E L \<longleftrightarrow> (\<forall>c f. fst (e_fib_lookup E c f) = L f)"

definition meta_reserved :: "xdp_env \<Rightarrow> xdp_md \<Rightarrow> xdp_md \<Rightarrow> bool" where
  "meta_reserved E ctx ctx1 \<longleftrightarrow>
     e_adjust_meta E ctx (- int sizeof_meta_info) = (0, ctx1) \<and> pkt ctx1 = pkt ctx \<and>
     ingress_ifindex ctx1 = ingress_ifindex ctx \<and> in_buf (meta_area ctx1) 0 sizeof_meta_info"

definition stats_ready :: "bpf_maps \<Rightarrow> bool" where
  "stats_ready maps \<longleftrightarrow> (\<forall>a < XDP_ACTION_MAX. xdp_stats_map maps a \<noteq> None)"

definition count_action :: "u32 \<Rightarrow> nat \<Rightarrow> bpf_maps \<Rightarrow> bpf_maps" where
  "count_action a n maps = maps\<lparr>xdp_stats_map := (xdp_stats_map maps)(a :=
     map_option (\<lambda>r. r\<lparr>rx_packets := rx_packets r + 1, rx_bytes := rx_bytes r + word_of_nat n\<rparr>)
       (xdp_stats_map maps a))\<rparr>"

lemma record_action_counts:
  assumes "stats_ready maps" "a < XDP_ACTION_MAX"
  shows "xdp_stats_record_action ctx a maps = (a, count_action a (length (pkt ctx)) maps)"
proof -
  obtain r where "xdp_stats_map maps a = Some r" using assms by (auto simp: stats_ready_def)
  then show ?thesis using assms(2)
    by (simp add: xdp_stats_record_action_def count_action_def linorder_not_le [symmetric])
qed

text \<open>The verdict of a step: the action and whether it is counted.\<close>

fun ctl_verdict :: "u32 ctl \<Rightarrow> u32 \<times> bool" where
  "ctl_verdict (Ret a) = (a, False)"
| "ctl_verdict (Out a) = (a, True)"
| "ctl_verdict (Next a) = (a, True)"

lemma fib_query_family [simp]:
  "fib_query E (Dst4 a) = fib_zero\<lparr>family := AF_INET E, fib_dst := a @ replicate 12 0\<rparr>"
  "fib_query E (Dst6 a) = fib_zero\<lparr>family := AF_INET6 E, fib_dst := a\<rparr>"
  by (simp_all add: fib_query_def)

lemma router_fib_verdict:
  assumes "in_buf (meta_area ctx) 0 sizeof_meta_info" "in_buf (pkt ctx) 0 ETH_HLEN" "macs_ok E"
    "lookup_by_query E L"
  shows "\<exists>ctx'. router_fib E ctx q = Inr (ctx', Out (fib_verdict (L (q\<lparr>fib_ifindex := ingress_ifindex ctx\<rparr>)))) \<and>
           length (pkt ctx') = length (pkt ctx)"
proof -
  let ?q = "q\<lparr>fib_ifindex := ingress_ifindex ctx\<rparr>"
  obtain m mt a where r: "router_fib E ctx q = Inr (ctx\<lparr>pkt := m, meta_area := mt\<rparr>, Out a)"
    "length m = length (pkt ctx)"
    using router_fib_total [OF assms(1-3)] by blast
  obtain f where look: "e_fib_lookup E ctx ?q = (L ?q, f)"
    using assms(4) by (metis lookup_by_query_def prod.collapse)
  have "a = fib_verdict (L ?q)"
    using r(1) unfolding router_fib_def look
    by (cases "L ?q = 0") (auto simp: fib_verdict_def res_simps split: if_splits)
  with r show ?thesis by auto
qed

lemma router_body_refines:
  assumes "macs_ok E" "lookup_by_query E L" "in_buf (meta_area ctx) 0 sizeof_meta_info"
  shows "\<exists>ctx' r. router_body E maps ctx = Inr (ctx', r) \<and> length (pkt ctx') = length (pkt ctx) \<and>
           ctl_verdict r = abs_router E L (static_redirect_8b maps) (ingress_ifindex ctx) (router_view (pkt ctx))"
  using router_headers_view [OF assms(3)]
proof cases
  case 1
  then show ?thesis by (simp add: router_body_def abs_router_def)
next
  case 2
  then show ?thesis by (simp add: router_body_def abs_router_def)
next
  case (3 off spec)
  show ?thesis
  proof (cases "dst_view (pkt ctx) spec")
    case None
    then show ?thesis using 3 by (simp add: router_body_def abs_router_def router_dst_view)
  next
    case (Some d)
    have V: "router_view (pkt ctx) = View d (contract_view (pkt ctx) off)" using 3 Some by simp
    have P: "in_buf (pkt ctx) 0 ETH_HLEN" using 3(2) by (simp add: headers_ok_def)
    obtain mt r where dst: "router_dst E maps ctx spec = Inr (ctx\<lparr>meta_area := mt\<rparr>, r)"
      and mt: "length mt = length (meta_area ctx)"
      using router_dst_total [OF assms(3)] by blast
    have M: "in_buf (meta_area (ctx\<lparr>meta_area := mt\<rparr>)) 0 sizeof_meta_info"
      using assms(3) mt by (simp add: in_buf_def)
    obtain m mt' r' where con: "router_contract (ctx\<lparr>meta_area := mt\<rparr>) off =
          Inr (ctx\<lparr>pkt := m, meta_area := mt'\<rparr>, r')"
      and m: "length m = length (pkt ctx)" and mt': "length mt' = length mt"
      and r': "r' \<in> {Next (), Out XDP_DROP}"
      using router_contract_total [OF M, of off] by (auto simp: same_but_hops_def)
    have short: "r' = Out XDP_DROP \<longleftrightarrow> contract_view (pkt ctx) off = CShort"
      using con r' by (auto simp: router_contract_view res_simps split: contract_view.splits)
    have ty: "dst_addr_type spec = NEWIP_T_8b \<longleftrightarrow> (\<exists>a. d = Dst8 a)"
      using Some by (auto simp: dst_view_def Let_def split: if_splits)
    let ?ctx = "ctx\<lparr>pkt := m, meta_area := mt'\<rparr>"
    have body: "router_body E maps ctx =
        sbind (Inr (ctx\<lparr>meta_area := mt\<rparr>, r)) (\<lambda>c fib.
          sbind (router_contract c off) (\<lambda>c _.
            if dst_addr_type spec = NEWIP_T_8b then Inr (c, Out XDP_PASS) else router_fib E c fib))"
      using 3 dst by (simp add: router_body_def)
    have fib: "\<exists>c. router_fib E ?ctx q = Inr (c, Out (fib_verdict (L (q\<lparr>fib_ifindex := ingress_ifindex ctx\<rparr>)))) \<and>
        length (pkt c) = length (pkt ctx)" for q
      using router_fib_verdict [of ?ctx E L q] assms(1-3) P m mt mt' by (simp add: in_buf_def)
    show ?thesis
    proof (cases d)
      case (Dst8 a)
      show ?thesis
      proof (cases "static_redirect_8b maps a")
        case None
        then show ?thesis using Some Dst8 V 3 by (simp add: router_body_def abs_router_def router_dst_view)
      next
        case (Some i)
        then have "r = Next (fib_query E d)"
          using \<open>dst_view _ _ = _\<close> Dst8 dst by (auto simp: router_dst_view res_simps)
        then show ?thesis using body con r' short ty Dst8 V Some m by (auto simp: abs_router_def)
      qed
    next
      case (Dst4 a)
      then have "r = Next (fib_query E d)" using Some dst by (simp add: router_dst_view)
      then show ?thesis using body con r' short ty Dst4 V m fib [of "fib_query E d"]
        by (auto simp: abs_router_def)
    next
      case (Dst6 a)
      then have "r = Next (fib_query E d)" using Some dst by (simp add: router_dst_view)
      then show ?thesis using body con r' short ty Dst6 V m fib [of "fib_query E d"]
        by (auto simp: abs_router_def)
    qed
  qed
qed

end
