(* ===== verification/Xdp_Spec.thy ===== *)
theory Xdp_Spec
  imports Xdp_Forward
begin

text \<open>
  The properties of the XDP router: it never accesses memory outside its buffers, whatever the
  packet; it refines the abstract routing decision; it changes only the Ethernet addresses and
  the hop count of a ping contract; what it leaves in the metadata. Two theorems record where it
  does not do what it means to: the address families it asks the routing table for, and the place
  it reads the destination from.
\<close>

section \<open>Frame\<close>

definition writable :: "u8 list \<Rightarrow> nat \<Rightarrow> bool" where
  "writable m k \<longleftrightarrow> k < 2 * ETH_ALEN \<or>
     (case get_newip_offset m ETH_HLEN of Inl _ \<Rightarrow> False
      | Inr off \<Rightarrow> contract_view m off = CPing \<and>
                   (k = hop_count_at off \<or> k = hop_count_at off + 1))"

lemma router_contract_frame:
  assumes "router_contract ctx off = Inr (ctx', r)" "k < length (pkt ctx)"
    "\<not> (contract_view (pkt ctx) off = CPing \<and> (k = hop_count_at off \<or> k = hop_count_at off + 1))"
  shows "pkt ctx' ! k = pkt ctx ! k"
  using assms
  by (cases "contract_view (pkt ctx) off")
    (auto simp: router_contract_view res_simps nth_list_update)

lemma router_dst_frame: "router_dst E maps ctx spec = Inr (ctx', r) \<Longrightarrow> pkt ctx' = pkt ctx"
  by (auto simp: router_dst_view res_simps split: option.splits dest.splits)

lemma router_body_frame:
  assumes "macs_ok E"
  shows "\<exists>ctx' r. router_body E maps ctx = Inr (ctx', r) \<and>
           length (pkt ctx') = length (pkt ctx) \<and> ctl_verdict r \<in> {(XDP_ABORTED, False), (XDP_PASS, True), (XDP_DROP, True)} \<and>
           (\<forall>k < length (pkt ctx). \<not> writable (pkt ctx) k \<longrightarrow> pkt ctx' ! k = pkt ctx ! k) \<and>
           (router_view (pkt ctx) = Foreign \<longrightarrow> pkt ctx' = pkt ctx)"
proof (cases rule: router_headers_cases [of ctx])
  case drop
  then show ?thesis by (auto simp: router_body_def)
next
  case other
  then show ?thesis by (auto simp: router_body_def)
next
  case abort
  then show ?thesis by (auto simp: router_body_def)
next
  case (ok off spec)
  have M0: "in_buf (meta_area ctx) 0 sizeof_meta_info" and P: "in_buf (pkt ctx) 0 ETH_HLEN"
    and off: "get_newip_offset (pkt ctx) ETH_HLEN = Inr off"
    and ty: "ld16 (pkt ctx) 12 = Inr (htons ETH_P_NEWIP_router)"
    using ok(2) by (simp_all add: headers_ok_def)
  have nf: "router_view (pkt ctx) \<noteq> Foreign"
    using ty by (auto simp: router_view_def ld16_eq_Inr split: option.split sum.split)
  obtain mt r where dst: "router_dst E maps ctx spec = Inr (ctx\<lparr>meta_area := mt\<rparr>, r)"
    and mt: "length mt = length (meta_area ctx)"
    using router_dst_total [OF M0] by blast
  have rc: "(\<exists>q. r = Next q) \<or> r = Ret XDP_ABORTED \<or> r = Out XDP_DROP"
    using dst by (auto simp: router_dst_view res_simps split: option.splits dest.splits)
  have M: "in_buf (meta_area (ctx\<lparr>meta_area := mt\<rparr>)) 0 sizeof_meta_info"
    using M0 mt by (simp add: in_buf_def)
  obtain m mt' r' where con: "router_contract (ctx\<lparr>meta_area := mt\<rparr>) off =
        Inr (ctx\<lparr>pkt := m, meta_area := mt'\<rparr>, r')"
    and m: "length m = length (pkt ctx)" and mt': "length mt' = length mt"
    and r': "r' \<in> {Next (), Out XDP_DROP}"
    using router_contract_total [OF M, of off] by (auto simp: same_but_hops_def)
  have fr: "m ! k = pkt ctx ! k" if "k < length (pkt ctx)" "\<not> writable (pkt ctx) k" for k
    using router_contract_frame [OF con, of k] that off by (simp add: writable_def)
  let ?ctx = "ctx\<lparr>pkt := m, meta_area := mt'\<rparr>"
  have MP: "in_buf (meta_area ?ctx) 0 sizeof_meta_info" "in_buf (pkt ?ctx) 0 ETH_HLEN"
    using M0 P m mt mt' by (simp_all add: in_buf_def)
  have fib: "\<exists>c a. router_fib E ?ctx q = Inr (c, Out a) \<and> length (pkt c) = length m \<and>
      a \<in> {XDP_PASS, XDP_DROP} \<and> (\<forall>k \<ge> 12. pkt c ! k = m ! k)" for q
    using router_fib_total [OF MP assms, of q] by fastforce
  have body: "router_body E maps ctx =
      sbind (Inr (ctx\<lparr>meta_area := mt\<rparr>, r)) (\<lambda>c fib.
        sbind (router_contract c off) (\<lambda>c _.
          if dst_addr_type spec = NEWIP_T_8b then Inr (c, Out XDP_PASS) else router_fib E c fib))"
    using ok dst by (simp add: router_body_def)
  have k12: "12 \<le> k" if "\<not> writable (pkt ctx) k" for k
    using that by (simp add: writable_def)
  show ?thesis
  proof (cases "\<exists>q. r = Next q \<and> r' = Next () \<and> dst_addr_type spec \<noteq> NEWIP_T_8b")
    case True
    then obtain q c a where "router_body E maps ctx = Inr (c, Out a)" "length (pkt c) = length m"
      "a \<in> {XDP_PASS, XDP_DROP}" "\<forall>k \<ge> 12. pkt c ! k = m ! k"
      using body con fib by fastforce
    then show ?thesis using nf m fr k12 by auto
  next
    case False
    then show ?thesis using body con rc r' nf m fr by (auto split: if_splits)
  qed
qed

section \<open>The result, by view\<close>

lemma router_func_body:
  assumes "meta_reserved E ctx ctx1" "router_body E maps ctx1 = Inr (ctx', r)"
  shows "xdp_router_func E maps ctx =
     (case r of Ret a \<Rightarrow> Inr (a, ctx', maps)
      | Out a \<Rightarrow> Inr (fst (xdp_stats_record_action ctx' a maps), ctx', snd (xdp_stats_record_action ctx' a maps))
      | Next a \<Rightarrow> Inr (fst (xdp_stats_record_action ctx' a maps), ctx', snd (xdp_stats_record_action ctx' a maps)))"
  using assms by (auto simp: xdp_router_func_def meta_reserved_def split: ctl.split prod.split)

lemma router_body_view:
  assumes "in_buf (meta_area ctx) 0 sizeof_meta_info" "router_view (pkt ctx) = View d c"
  obtains off spec where "get_newip_offset (pkt ctx) ETH_HLEN = Inr off"
    "contract_view (pkt ctx) off = c" "dst_view (pkt ctx) spec = Some d"
    "dst_addr_type spec = NEWIP_T_8b \<longleftrightarrow> (\<exists>a. d = Dst8 a)" "in_buf (pkt ctx) 0 ETH_HLEN"
    "router_body E maps ctx = sbind (router_dst E maps ctx spec) (\<lambda>ctx fib.
       sbind (router_contract ctx off) (\<lambda>ctx _.
         if dst_addr_type spec = NEWIP_T_8b then Inr (ctx, Out XDP_PASS) else router_fib E ctx fib))"
  using router_headers_view [OF assms(1)]
proof cases
  case (3 off spec)
  then have "dst_view (pkt ctx) spec = Some d" "contract_view (pkt ctx) off = c"
    using assms(2) by (auto split: option.splits)
  moreover from this(1) have "dst_addr_type spec = NEWIP_T_8b \<longleftrightarrow> (\<exists>a. d = Dst8 a)"
    by (auto simp: dst_view_def Let_def split: if_splits)
  ultimately show thesis using 3
    by (intro that [of off spec]) (auto simp: headers_ok_def router_body_def)
qed (use assms(2) in auto)

text \<open>An 8-bit destination: its table entry is written to the metadata, then the contract is
  processed.\<close>

lemma router_body_8b:
  assumes "in_buf (meta_area ctx) 0 sizeof_meta_info" "router_view (pkt ctx) = View (Dst8 a) c"
    "static_redirect_8b maps a = Some i"
  obtains off mt where "get_newip_offset (pkt ctx) ETH_HLEN = Inr off"
    "contract_view (pkt ctx) off = c" "st32 (meta_area ctx) 0 i = Inr mt"
    "router_body E maps ctx = sbind (router_contract (ctx\<lparr>meta_area := mt\<rparr>) off) (\<lambda>ctx _. Inr (ctx, Out XDP_PASS))"
proof (rule router_body_view [OF assms(1,2), where maps = maps and E = E])
  fix off spec
  assume B: "get_newip_offset (pkt ctx) ETH_HLEN = Inr off" "contract_view (pkt ctx) off = c"
    "dst_view (pkt ctx) spec = Some (Dst8 a)"
    "dst_addr_type spec = NEWIP_T_8b \<longleftrightarrow> (\<exists>x. Dst8 a = Dst8 x)"
    "router_body E maps ctx = sbind (router_dst E maps ctx spec) (\<lambda>ctx fib.
       sbind (router_contract ctx off) (\<lambda>ctx _.
         if dst_addr_type spec = NEWIP_T_8b then Inr (ctx, Out XDP_PASS) else router_fib E ctx fib))"
  obtain mt where "st32 (meta_area ctx) 0 i = Inr mt"
    using st32_ok [of "meta_area ctx" 0 i] assms(1) by (auto simp: in_buf_def sizeof_meta_info_def)
  then show thesis
    using B(3,4,5) assms(3) by (intro that [OF B(1,2)]) (simp_all add: router_dst_view)
qed

text \<open>An IP destination: the contract is processed, then the routing table is asked.\<close>

lemma router_body_ip:
  assumes "in_buf (meta_area ctx) 0 sizeof_meta_info" "router_view (pkt ctx) = View d c"
    "\<And>a. d \<noteq> Dst8 a"
  obtains off where "get_newip_offset (pkt ctx) ETH_HLEN = Inr off"
    "contract_view (pkt ctx) off = c" "in_buf (pkt ctx) 0 ETH_HLEN"
    "router_body E maps ctx = sbind (router_contract ctx off) (\<lambda>ctx _. router_fib E ctx (fib_query E d))"
proof (rule router_body_view [OF assms(1,2), where maps = maps and E = E])
  fix off spec
  assume B: "get_newip_offset (pkt ctx) ETH_HLEN = Inr off" "contract_view (pkt ctx) off = c"
    "in_buf (pkt ctx) 0 ETH_HLEN" "dst_view (pkt ctx) spec = Some d"
    "dst_addr_type spec = NEWIP_T_8b \<longleftrightarrow> (\<exists>x. d = Dst8 x)"
    "router_body E maps ctx = sbind (router_dst E maps ctx spec) (\<lambda>ctx fib.
       sbind (router_contract ctx off) (\<lambda>ctx _.
         if dst_addr_type spec = NEWIP_T_8b then Inr (ctx, Out XDP_PASS) else router_fib E ctx fib))"
  have "router_dst E maps ctx spec = Inr (ctx, Next (fib_query E d))"
    using B(4) assms(3) by (auto simp: router_dst_view split: dest.split)
  then show thesis
    using B(5,6) assms(3) by (intro that [OF B(1,2,3)]) simp
qed

section \<open>A router and packets to run it on\<close>

text \<open>The lookup of the sample router knows one next hop, and only the families of the kernel:
  2 for IPv4 and 10 for IPv6.\<close>

definition sample_lookup :: "bpf_fib_lookup \<Rightarrow> int" where
  "sample_lookup f = (if family f = 2 \<or> family f = 10 then BPF_FIB_LKUP_RET_SUCCESS else - 97)"

definition lenient_lookup :: "bpf_fib_lookup \<Rightarrow> int" where
  "lenient_lookup f = BPF_FIB_LKUP_RET_SUCCESS"

definition sample_env :: "(bpf_fib_lookup \<Rightarrow> int) \<Rightarrow> xdp_env" where
  "sample_env L = \<lparr>
     e_adjust_meta = \<lambda>ctx n. (0, ctx\<lparr>meta_area := replicate 12 0xEE\<rparr>),
     e_fib_lookup = \<lambda>ctx f. (L f, if L f = BPF_FIB_LKUP_RET_SUCCESS
       then f\<lparr>fib_ifindex := 9, smac := [1, 1, 1, 1, 1, 1], dmac := [2, 2, 2, 2, 2, 2]\<rparr>
       else f\<lparr>smac := replicate 6 0, dmac := replicate 6 0\<rparr>),
     hdr_AF_INET = None, hdr_AF_INET6 = None\<rparr>"

definition sample_maps :: bpf_maps where
  "sample_maps = \<lparr>static_redirect_8b = [5 \<mapsto> 3, 7 \<mapsto> 4],
     xdp_stats_map = (\<lambda>a. if a < XDP_ACTION_MAX then Some \<lparr>rx_packets = 0, rx_bytes = 0\<rparr> else None)\<rparr>"

definition sample_md :: "u8 list \<Rightarrow> xdp_md" where
  "sample_md m = \<lparr>pkt = m, meta_area = [], ingress_ifindex = 2\<rparr>"

definition sample_eth :: "u8 list" where
  "sample_eth = replicate 6 0xAA @ replicate 6 0xBB @ [0x88, 0xb6]"

text \<open>A ping contract with 3 hops left, to the 8-bit address 5 and to an IPv4 address, and a Max
  Delay Forwarding contract (500, 0).\<close>

definition ping_8b :: "u8 list" where
  "ping_8b = sample_eth @ [3, 8, 24] @ [2, 2, 0] @ [1, 5] @ [0, 3, 0, 1, 0, 3] @ replicate 10 0"

definition ping_v4 :: "u8 list" where
  "ping_v4 = sample_eth @ [3, 14, 30] @ [0, 0, 0] @ [10, 0, 1, 2, 10, 0, 2, 2] @ [0, 3, 0, 1, 0, 3] @ replicate 10 0"

definition mdf_8b :: "u8 list" where
  "mdf_8b = sample_eth @ [3, 8, 14] @ [2, 2, 0] @ [1, 5] @ [0, 1, 1, 0xf4, 0, 0]"

lemma sample_env_ok [simp]:
  "macs_ok (sample_env L)" "lookup_by_query (sample_env L) L" "stats_ready sample_maps"
  "meta_reserved (sample_env L) ctx (ctx\<lparr>meta_area := replicate 12 0xEE\<rparr>)"
  by (auto simp: macs_ok_def lookup_by_query_def stats_ready_def meta_reserved_def sample_env_def
      sample_maps_def in_buf_def sizeof_meta_info_def fib_zero_def)

lemma router_view_type:
  assumes "router_view m = View d c" "take 14 m' = take 14 m"
  shows "ld16 m' 12 = Inr (htons ETH_P_NEWIP_router)"
proof -
  have len: "14 \<le> length m" and ty: "le16 (m ! 12) (m ! 13) = htons ETH_P_NEWIP_router"
    using assms(1) by (auto simp: router_view_def in_buf_def split: if_splits)
  have "14 \<le> length m'" using arg_cong [OF assms(2), of length] len by (simp add: min_def split: if_splits)
  moreover have "m' ! k = m ! k" if "k < 14" for k using assms(2) that by (metis nth_take)
  ultimately show ?thesis using ty by (simp add: ld16_def)
qed

text \<open>The run for an 8-bit destination.\<close>

lemma router_8b_run:
  assumes "meta_reserved E ctx ctx1" "stats_ready maps"
    and "router_view (pkt ctx) = View (Dst8 a) c" "c \<noteq> CShort" "static_redirect_8b maps a = Some i"
  shows "\<exists>ctx' maps'. xdp_router_func E maps ctx = Inr (XDP_PASS, ctx', maps') \<and>
           ld32 (meta_area ctx') 0 = Inr i \<and> take 14 (pkt ctx') = take 14 (pkt ctx) \<and>
           in_buf (meta_area ctx') 0 sizeof_meta_info"
proof -
  have m: "in_buf (meta_area ctx1) 0 sizeof_meta_info" "pkt ctx1 = pkt ctx"
    using assms(1) by (simp_all add: meta_reserved_def)
  have v: "router_view (pkt ctx1) = View (Dst8 a) c" using assms(3) m(2) by simp
  show ?thesis
  proof (rule router_body_8b [OF m(1) v assms(5), where E = E])
    fix off mt
    assume B: "contract_view (pkt ctx1) off = c" "st32 (meta_area ctx1) 0 i = Inr mt"
      "router_body E maps ctx1 = sbind (router_contract (ctx1\<lparr>meta_area := mt\<rparr>) off) (\<lambda>ctx _. Inr (ctx, Out XDP_PASS))"
    have len: "length mt = length (meta_area ctx1)" using st32_length [OF B(2)] .
    then have M: "in_buf (meta_area (ctx1\<lparr>meta_area := mt\<rparr>)) 0 sizeof_meta_info"
      using m(1) by (simp add: in_buf_def)
    obtain p mt' r where con: "router_contract (ctx1\<lparr>meta_area := mt\<rparr>) off = Inr (ctx1\<lparr>pkt := p, meta_area := mt'\<rparr>, r)"
      and p: "same_but_hops off (pkt ctx1) p" and mt': "length mt' = length mt" "take 4 mt' = take 4 mt"
      and r: "r \<in> {Next (), Out XDP_DROP}"
      using router_contract_total [OF M, of off] by auto
    have "r = Next ()"
      using con r B(1) assms(4) by (auto simp: router_contract_view res_simps split: contract_view.splits)
    then have "router_body E maps ctx1 = Inr (ctx1\<lparr>pkt := p, meta_area := mt'\<rparr>, Out XDP_PASS)"
      using B(3) con by simp
    note run = router_func_body [OF assms(1) this]
    have "ld32 mt' 0 = ld32 mt 0"
      using mt' len m(1) by (auto simp: ld32_def ldn_def in_buf_def sizeof_meta_info_def)
    then have "ld32 mt' 0 = Inr i" using ld32_st32 [OF B(2)] by simp
    moreover have "take 14 p = take 14 (pkt ctx1)"
      using p by (intro nth_equalityI) (auto simp: same_but_hops_def hop_count_at_def)
    ultimately show ?thesis
      using run m len mt'(1) record_action_counts [OF assms(2), of XDP_PASS] by (auto simp: xdp_actions in_buf_def)
  qed
qed

lemma sample_run: "\<not> isl (xdp_router_func (sample_env lenient_lookup) sample_maps (sample_md ping_v4))"
  by code_simp

section \<open>Properties\<close>

text \<open>C7. Memory safety of the XDP router: for every packet, every state of the maps and whatever
  the BPF helpers answer (the metadata helper may even reserve less than it was asked for), the
  program returns an action and never reads or writes outside the packet and the metadata.\<close>

theorem router_never_faults:
  assumes "macs_ok E"
  shows "\<exists>a ctx' maps'. xdp_router_func E maps ctx = Inr (a, ctx', maps') \<and>
           (a = XDP_ABORTED \<or> a = XDP_PASS \<or> a = XDP_DROP)"
proof -
  obtain ret ctx1 where adj: "e_adjust_meta E ctx (- int sizeof_meta_info) = (ret, ctx1)" by fastforce
  obtain ctx' r where b: "router_body E maps ctx1 = Inr (ctx', r)"
    "ctl_verdict r \<in> {(XDP_ABORTED, False), (XDP_PASS, True), (XDP_DROP, True)}"
    using router_body_frame [OF assms, of maps ctx1] by blast
  have act: "fst (xdp_stats_record_action ctx' a maps) \<in> {a, XDP_ABORTED}" for a
    by (auto simp: xdp_stats_record_action_def split: option.split)
  show ?thesis
  proof (cases "ret < 0")
    case True
    then show ?thesis using adj by (simp add: xdp_router_func_def)
  next
    case False
    then show ?thesis using adj b act
      by (cases r) (auto simp: xdp_router_func_def split: prod.splits, (metis fst_conv insertE singletonD)+)
  qed
qed

theorem router_never_faults_witness:
  "\<exists>a ctx' maps'. xdp_router_func (sample_env lenient_lookup) sample_maps (sample_md ping_v4) = Inr (a, ctx', maps') \<and>
     (a = XDP_ABORTED \<or> a = XDP_PASS \<or> a = XDP_DROP)"
  by (rule router_never_faults) simp

text \<open>C17. Frame of the XDP router: when the metadata helper keeps the packet, the router changes
  at most the two Ethernet addresses and the hop count of a complete ping contract; the length
  and every other byte stay, and a packet of another protocol is not changed at all.\<close>

theorem router_frame:
  assumes "macs_ok E" "\<And>c n. pkt (snd (e_adjust_meta E c n)) = pkt c"
    and run: "xdp_router_func E maps ctx = Inr (a, ctx', maps')"
  shows "length (pkt ctx') = length (pkt ctx) \<and>
     (\<forall>k < length (pkt ctx). \<not> writable (pkt ctx) k \<longrightarrow> pkt ctx' ! k = pkt ctx ! k) \<and>
     (router_view (pkt ctx) = Foreign \<longrightarrow> pkt ctx' = pkt ctx)"
proof -
  obtain ret ctx1 where adj: "e_adjust_meta E ctx (- int sizeof_meta_info) = (ret, ctx1)" by fastforce
  then have P: "pkt ctx1 = pkt ctx" using assms(2) by (metis snd_conv)
  obtain c r where b: "router_body E maps ctx1 = Inr (c, r)"
    and fr: "length (pkt c) = length (pkt ctx1)"
      "\<forall>k < length (pkt ctx1). \<not> writable (pkt ctx1) k \<longrightarrow> pkt c ! k = pkt ctx1 ! k"
      "router_view (pkt ctx1) = Foreign \<longrightarrow> pkt c = pkt ctx1"
    using router_body_frame [OF assms(1), of maps ctx1] by blast
  have "ctx' = ctx1 \<or> ctx' = c"
    using run adj b by (cases r) (auto simp: xdp_router_func_def split: if_splits prod.splits)
  then show ?thesis using P fr by auto
qed

theorem router_frame_witness:
  "\<exists>a ctx' maps'. xdp_router_func (sample_env lenient_lookup) sample_maps (sample_md ping_v4) = Inr (a, ctx', maps') \<and>
     length (pkt ctx') = length (pkt (sample_md ping_v4)) \<and>
     (\<forall>k < length (pkt (sample_md ping_v4)). \<not> writable (pkt (sample_md ping_v4)) k \<longrightarrow>
        pkt ctx' ! k = pkt (sample_md ping_v4) ! k)"
proof -
  obtain a ctx' maps' where run: "xdp_router_func (sample_env lenient_lookup) sample_maps (sample_md ping_v4) = Inr (a, ctx', maps')"
    using sample_run by (auto simp: sum.isl_def split: sum.splits) (metis old.sum.exhaust prod_cases3)
  show ?thesis
    using run router_frame [OF sample_env_ok(1) _ run] by (simp add: sample_env_def)
qed

text \<open>C6. The XDP router refines the abstract routing decision: when the helpers behave as
  documented, the returned action is the one \<open>abs_router\<close> computes from the view of the packet,
  the static table and the routing lookup, and the statistics map counts exactly that action once
  with the packet's length, or nothing for an 8-bit address that is not in the table.\<close>

theorem router_refines:
  assumes "macs_ok E" "lookup_by_query E L" "meta_reserved E ctx ctx1" "stats_ready maps"
  shows "\<exists>ctx'. xdp_router_func E maps ctx =
     (case abs_router E L (static_redirect_8b maps) (ingress_ifindex ctx) (router_view (pkt ctx)) of
        (a, counted) \<Rightarrow> Inr (a, ctx', if counted then count_action a (length (pkt ctx)) maps else maps))"
proof -
  have m: "in_buf (meta_area ctx1) 0 sizeof_meta_info" "pkt ctx1 = pkt ctx"
    "ingress_ifindex ctx1 = ingress_ifindex ctx"
    using assms(3) by (simp_all add: meta_reserved_def)
  let ?A = "abs_router E L (static_redirect_8b maps) (ingress_ifindex ctx) (router_view (pkt ctx))"
  obtain ctx' r where b: "router_body E maps ctx1 = Inr (ctx', r)" "length (pkt ctx') = length (pkt ctx)"
    "ctl_verdict r = ?A"
    using router_body_refines [OF assms(1,2) m(1)] m(2,3) by metis
  have lt: "fst ?A < XDP_ACTION_MAX"
    by (auto simp: abs_router_def xdp_actions fib_verdict_def split: view.split dest.split)
  show ?thesis
  proof (cases r)
    case (Ret a)
    then have "?A = (a, False)" using b(3) by simp
    then show ?thesis using Ret router_func_body [OF assms(3) b(1)] by simp
  next
    case (Out a)
    then have A: "?A = (a, True)" using b(3) by simp
    then have "a < XDP_ACTION_MAX" using lt by simp
    then show ?thesis
      using A Out b router_func_body [OF assms(3) b(1)] record_action_counts [OF assms(4), of a ctx'] by simp
  next
    case (Next a)
    then have A: "?A = (a, True)" using b(3) by simp
    then have "a < XDP_ACTION_MAX" using lt by simp
    then show ?thesis
      using A Next b router_func_body [OF assms(3) b(1)] record_action_counts [OF assms(4), of a ctx'] by simp
  qed
qed

theorem router_refines_witness:
  "\<exists>ctx'. xdp_router_func (sample_env lenient_lookup) sample_maps (sample_md ping_8b) =
     Inr (XDP_PASS, ctx', count_action XDP_PASS 38 sample_maps)"
proof -
  have v: "abs_router (sample_env lenient_lookup) lenient_lookup (static_redirect_8b sample_maps) (ingress_ifindex (sample_md ping_8b))
      (router_view (pkt (sample_md ping_8b))) = (XDP_PASS, True)" "length (pkt (sample_md ping_8b)) = 38"
    by code_simp+
  show ?thesis
    using router_refines [OF sample_env_ok(1,2,4,3), of lenient_lookup "sample_md ping_8b"] unfolding v
    by simp
qed

text \<open>What the contract step does to the packet and to the metadata when the contract is a ping
  or Max Delay Forwarding.\<close>

lemma router_contract_ping:
  assumes "contract_view (pkt ctx) off = CPing"
  shows "\<exists>hops m. ld16 (pkt ctx) (hop_count_at off) = Inr hops \<and>
           router_contract ctx off = Inr (ctx\<lparr>pkt := m\<rparr>, Next ()) \<and>
           ld16 m (hop_count_at off) = Inr (htons (ntohs hops - 1)) \<and> length m = length (pkt ctx)"
proof -
  have "in_buf (pkt ctx) (ETH_HLEN + unat (contract_offset off)) sizeof_ping"
    using assms by (auto simp: contract_view_def Let_def split: if_splits sum.splits)
  then have "in_buf (pkt ctx) (hop_count_at off) 2"
    by (simp add: in_buf_def hop_count_at_def sizeof_ping_def)
  then obtain hops m where "ld16 (pkt ctx) (hop_count_at off) = Inr hops"
    "st16 (pkt ctx) (hop_count_at off) (htons (ntohs hops - 1)) = Inr m"
    using ld16_ok st16_ok by blast
  then show ?thesis
    using assms ld16_st16_same st16_length by (auto simp: router_contract_view)
qed

lemma router_contract_mdf:
  assumes "contract_view (pkt ctx) off = CMdf a e" "in_buf (meta_area ctx) 0 sizeof_meta_info"
  shows "\<exists>mt. router_contract ctx off = Inr (ctx\<lparr>meta_area := mt\<rparr>, Next ()) \<and>
           ld16 mt 6 = Inr a \<and> ld16 mt 8 = Inr e \<and> length mt = length (meta_area ctx) \<and>
           take 4 mt = take 4 (meta_area ctx)"
proof -
  have b: "12 \<le> length (meta_area ctx)" using assms(2) by (simp add: in_buf_def sizeof_meta_info_def)
  then obtain m1 where m1: "st16 (meta_area ctx) 6 a = Inr m1" by (simp add: st16_def)
  obtain m2 where m2: "st16 m1 8 e = Inr m2" using b st16_length [OF m1] by (simp add: st16_def)
  have "ld16 m2 6 = Inr a" using ld16_st16_other [OF m2, of 6] ld16_st16_same [OF m1] by simp
  moreover have "take 4 m2 = take 4 (meta_area ctx)" using m1 m2 by (auto simp: res_simps)
  ultimately show ?thesis
    using assms(1) m1 m2 ld16_st16_same [OF m2] st16_length [OF m1] st16_length [OF m2]
    by (auto simp: router_contract_view)
qed

text \<open>The routing step on a successful lookup.\<close>

lemma router_fib_success:
  assumes "e_fib_lookup E ctx (q\<lparr>fib_ifindex := ingress_ifindex ctx\<rparr>) = (BPF_FIB_LKUP_RET_SUCCESS, f)"
    "length (dmac f) = 6" "length (smac f) = 6" "in_buf (pkt ctx) 0 ETH_HLEN"
    "in_buf (meta_area ctx) 0 sizeof_meta_info"
  shows "\<exists>m mt. router_fib E ctx q = Inr (ctx\<lparr>pkt := m, meta_area := mt\<rparr>, Out XDP_PASS) \<and>
           m = dmac f @ smac f @ drop 12 (pkt ctx) \<and> ld32 mt 0 = Inr (fib_ifindex f) \<and>
           drop 4 mt = drop 4 (meta_area ctx)"
proof -
  have len: "14 \<le> length (pkt ctx)" "12 \<le> length (meta_area ctx)"
    using assms(4,5) by (simp_all add: in_buf_def sizeof_meta_info_def)
  obtain mt where mt: "st32 (meta_area ctx) 0 (fib_ifindex f) = Inr mt"
    using st32_ok [of "meta_area ctx" 0] len by (auto simp: in_buf_def)
  then have "drop 4 mt = drop 4 (meta_area ctx)" by (auto simp: res_simps)
  then show ?thesis
    using assms(1-3) len mt ld32_st32 [OF mt] by (auto simp: router_fib_def stn_def)
qed

text \<open>A run that is not aborted has processed the contract; what follows the contract step keeps
  the packet after the Ethernet addresses and the metadata after the interface index.\<close>

lemma router_run_contract:
  assumes "macs_ok E" "meta_reserved E ctx ctx1" "router_view (pkt ctx) = View d c" "c \<noteq> CShort"
    and run: "xdp_router_func E maps ctx = Inr (a, ctx', maps')" "a \<noteq> XDP_ABORTED"
  obtains off c2 c3 where "get_newip_offset (pkt ctx) ETH_HLEN = Inr off"
    "pkt c2 = pkt ctx" "contract_view (pkt c2) off = c" "in_buf (meta_area c2) 0 sizeof_meta_info"
    "router_contract c2 off = Inr (c3, Next ())"
    "length (pkt ctx') = length (pkt c3)" "\<And>k. 12 \<le> k \<Longrightarrow> pkt ctx' ! k = pkt c3 ! k"
    "length (meta_area ctx') = length (meta_area c3)" "drop 4 (meta_area ctx') = drop 4 (meta_area c3)"
proof -
  have m: "in_buf (meta_area ctx1) 0 sizeof_meta_info" "pkt ctx1 = pkt ctx"
    using assms(2) by (simp_all add: meta_reserved_def)
  have v: "router_view (pkt ctx1) = View d c" using assms(3) m(2) by simp
  have step: "\<exists>c3. router_contract c2 off = Inr (c3, Next ()) \<and>
      in_buf (meta_area c3) 0 sizeof_meta_info \<and> length (pkt c3) = length (pkt c2)"
    if M: "in_buf (meta_area c2) 0 sizeof_meta_info" and V: "contract_view (pkt c2) off = c"
    for c2 :: xdp_md and off
  proof -
    obtain p mt r where con: "router_contract c2 off = Inr (c2\<lparr>pkt := p, meta_area := mt\<rparr>, r)"
      "same_but_hops off (pkt c2) p" "length mt = length (meta_area c2)" "r \<in> {Next (), Out XDP_DROP}"
      using router_contract_total [OF M, of off] by blast
    moreover have "r = Next ()"
      using con V assms(4) by (auto simp: router_contract_view res_simps split: contract_view.splits)
    ultimately show ?thesis using M by (auto simp: same_but_hops_def in_buf_def)
  qed
  show thesis
  proof (cases "\<exists>x. d = Dst8 x")
    case True
    then obtain x where d: "d = Dst8 x" by blast
    show thesis
    proof (cases "static_redirect_8b maps x")
      case None
      have "router_body E maps ctx1 = Inr (ctx1, Ret XDP_ABORTED)"
        using router_headers_view [OF m(1)]
      proof cases
        case (3 off spec)
        then have "dst_view (pkt ctx1) spec = Some (Dst8 x)" using v d by (auto split: option.splits)
        then show ?thesis using 3 None by (simp add: router_body_def router_dst_view)
      qed (use v in simp_all)
      then have False using run router_func_body [OF assms(2)] by fastforce
      then show thesis ..
    next
      case (Some i)
      show thesis
      proof (rule router_body_8b [OF m(1) v [unfolded d] Some, where E = E])
        fix off mt
        assume B: "get_newip_offset (pkt ctx1) ETH_HLEN = Inr off" "contract_view (pkt ctx1) off = c"
          "st32 (meta_area ctx1) 0 i = Inr mt"
          "router_body E maps ctx1 = sbind (router_contract (ctx1\<lparr>meta_area := mt\<rparr>) off) (\<lambda>ctx _. Inr (ctx, Out XDP_PASS))"
        let ?c2 = "ctx1\<lparr>meta_area := mt\<rparr>"
        have M: "in_buf (meta_area ?c2) 0 sizeof_meta_info"
          using m(1) st32_length [OF B(3)] by (simp add: in_buf_def)
        obtain c3 where c3: "router_contract ?c2 off = Inr (c3, Next ())"
          using step [OF M, of off] B(2) by auto
        then have "router_body E maps ctx1 = Inr (c3, Out XDP_PASS)" using B(4) by simp
        then have "ctx' = c3" using run router_func_body [OF assms(2)] by fastforce
        then show thesis using that [of off ?c2 c3] B(1,2) m(2) M c3 by simp
      qed
    qed
  next
    case False
    then have nd: "\<And>x. d \<noteq> Dst8 x" by blast
    show thesis
    proof (rule router_body_ip [OF m(1) v nd, where E = E and maps = maps])
      fix off
      assume B: "get_newip_offset (pkt ctx1) ETH_HLEN = Inr off" "contract_view (pkt ctx1) off = c"
        "in_buf (pkt ctx1) 0 ETH_HLEN"
        "router_body E maps ctx1 = sbind (router_contract ctx1 off) (\<lambda>ctx _. router_fib E ctx (fib_query E d))"
      obtain c3 where c3: "router_contract ctx1 off = Inr (c3, Next ())"
        "in_buf (meta_area c3) 0 sizeof_meta_info" "length (pkt c3) = length (pkt ctx1)"
        using step [OF m(1) B(2)] by blast
      then have "in_buf (pkt c3) 0 ETH_HLEN" using B(3) by (simp add: in_buf_def)
      then obtain p mt b where fib: "router_fib E c3 (fib_query E d) = Inr (c3\<lparr>pkt := p, meta_area := mt\<rparr>, Out b)"
        and fr: "length p = length (pkt c3)" "\<forall>k. 12 \<le> k \<longrightarrow> p ! k = pkt c3 ! k"
          "length mt = length (meta_area c3)" "drop 4 mt = drop 4 (meta_area c3)"
        using router_fib_total [OF c3(2) _ assms(1)] by blast
      have "router_body E maps ctx1 = Inr (c3\<lparr>pkt := p, meta_area := mt\<rparr>, Out b)"
        using B(4) c3(1) fib by simp
      then have "ctx' = c3\<lparr>pkt := p, meta_area := mt\<rparr>" using run router_func_body [OF assms(2)] by fastforce
      then show thesis using that [of off ctx1 c3] B(1,2) m c3(1) fr by simp
    qed
  qed
qed

text \<open>C20. Every router on the path takes one hop from a ping contract: whenever the router does not
  abort a packet that carries a complete ping contract, the hop count (in network order) of the
  packet it hands on is the old one minus one, modulo 2 to the 16; a count of 0 becomes 65535.\<close>

theorem ping_hops_decremented:
  assumes "macs_ok E" "meta_reserved E ctx ctx1" "router_view (pkt ctx) = View d CPing"
    and "xdp_router_func E maps ctx = Inr (a, ctx', maps')" "a \<noteq> XDP_ABORTED"
  shows "\<exists>off hops. get_newip_offset (pkt ctx) ETH_HLEN = Inr off \<and>
           ld16 (pkt ctx) (hop_count_at off) = Inr hops \<and>
           ld16 (pkt ctx') (hop_count_at off) = Inr (htons (ntohs hops - 1))"
proof (rule router_run_contract [OF assms(1-3) _ assms(4,5)])
  fix off c2 c3
  assume off: "get_newip_offset (pkt ctx) ETH_HLEN = Inr off" "pkt c2 = pkt ctx"
    "contract_view (pkt c2) off = CPing"
    and con: "router_contract c2 off = Inr (c3, Next ())"
    and fr: "length (pkt ctx') = length (pkt c3)" "\<And>k. 12 \<le> k \<Longrightarrow> pkt ctx' ! k = pkt c3 ! k"
  obtain hops where hops: "ld16 (pkt ctx) (hop_count_at off) = Inr hops"
    "ld16 (pkt c3) (hop_count_at off) = Inr (htons (ntohs hops - 1))"
    using router_contract_ping [OF off(3)] con off(2) by auto
  have "ld16 (pkt ctx') (hop_count_at off) = ld16 (pkt c3) (hop_count_at off)"
    using fr by (simp add: ld16_def hop_count_at_def)
  then show ?thesis using off(1) hops by auto
qed simp

text \<open>Bytes of a packet after a run, for the witnesses.\<close>

definition run_bytes :: "(u32 \<times> xdp_md \<times> bpf_maps) res \<Rightarrow> (u32 \<times> u8 list \<times> u8 list) res" where
  "run_bytes r = rbind r (\<lambda>(a, ctx, maps). Inr (a, pkt ctx, meta_area ctx))"

lemma run_bytes_Inr:
  "run_bytes r = Inr (a, m, mt) \<Longrightarrow> \<exists>ctx' maps'. r = Inr (a, ctx', maps') \<and> pkt ctx' = m \<and> meta_area ctx' = mt"
  by (auto simp: run_bytes_def res_simps)

definition ping_v4_out :: "u8 list" where
  "ping_v4_out = replicate 6 2 @ replicate 6 1 @ [0x88, 0xb6] @ [3, 14, 30] @ [0, 0, 0] @
     [10, 0, 1, 2, 10, 0, 2, 2] @ [0, 3, 0, 1, 0, 2] @ replicate 10 0"

lemma ping_v4_run:
  "run_bytes (xdp_router_func (sample_env lenient_lookup) sample_maps (sample_md ping_v4)) =
     Inr (XDP_PASS, ping_v4_out, [9, 0, 0, 0] @ replicate 8 0xEE)"
  by code_simp

theorem ping_hops_decremented_witness:
  "\<exists>a ctx' maps' off hops.
     xdp_router_func (sample_env lenient_lookup) sample_maps (sample_md ping_v4) = Inr (a, ctx', maps') \<and>
     get_newip_offset (pkt (sample_md ping_v4)) ETH_HLEN = Inr off \<and>
     ld16 (pkt (sample_md ping_v4)) (hop_count_at off) = Inr hops \<and>
     ld16 (pkt ctx') (hop_count_at off) = Inr (htons (ntohs hops - 1))"
proof -
  obtain ctx' maps' where run: "xdp_router_func (sample_env lenient_lookup) sample_maps (sample_md ping_v4) =
      Inr (XDP_PASS, ctx', maps')"
    using run_bytes_Inr [OF ping_v4_run] by blast
  have "router_view (pkt (sample_md ping_v4)) = View (Dst4 [10, 0, 2, 2]) CPing" by code_simp
  from ping_hops_decremented [OF sample_env_ok(1,4) this run] show ?thesis
    using run by (auto simp: xdp_actions)
qed

text \<open>C19. The Max Delay Forwarding contract of a packet that is not aborted is in the metadata that
  the router hands on: the allowed delay and the accumulated delay, in network order, at the
  places where the structure \<open>meta_info\<close> has them.\<close>

theorem mdf_in_metadata:
  assumes "macs_ok E" "meta_reserved E ctx ctx1" "router_view (pkt ctx) = View d (CMdf m e)"
    and "xdp_router_func E maps ctx = Inr (a, ctx', maps')" "a \<noteq> XDP_ABORTED"
  shows "ld16 (meta_area ctx') 6 = Inr m \<and> ld16 (meta_area ctx') 8 = Inr e"
proof (rule router_run_contract [OF assms(1-3) _ assms(4,5)])
  fix off c2 c3
  assume off: "contract_view (pkt c2) off = CMdf m e" "in_buf (meta_area c2) 0 sizeof_meta_info"
    and con: "router_contract c2 off = Inr (c3, Next ())"
    and fr: "length (meta_area ctx') = length (meta_area c3)"
      "drop 4 (meta_area ctx') = drop 4 (meta_area c3)"
  obtain mt where mt: "c3 = c2\<lparr>meta_area := mt\<rparr>" "ld16 mt 6 = Inr m" "ld16 mt 8 = Inr e"
    using router_contract_mdf [OF off] con by auto
  have same: "ld16 (meta_area ctx') (4 + k) = ld16 (meta_area c3) (4 + k)" for k
    by (rule ld16_drop [OF fr])
  show ?thesis using same [of 2] same [of 4] mt by simp
qed simp

lemma mdf_8b_run:
  "run_bytes (xdp_router_func (sample_env lenient_lookup) sample_maps (sample_md mdf_8b)) =
     Inr (XDP_PASS, mdf_8b, [3, 0, 0, 0, 0xEE, 0xEE, 1, 0xf4, 0, 0, 0xEE, 0xEE])"
  by code_simp

theorem mdf_in_metadata_witness:
  "\<exists>ctx' maps'. xdp_router_func (sample_env lenient_lookup) sample_maps (sample_md mdf_8b) =
       Inr (XDP_PASS, ctx', maps') \<and>
     ld16 (meta_area ctx') 6 = Inr 0xf401 \<and> ld16 (meta_area ctx') 8 = Inr 0"
proof -
  obtain ctx' maps' where run: "xdp_router_func (sample_env lenient_lookup) sample_maps (sample_md mdf_8b) =
      Inr (XDP_PASS, ctx', maps')"
    using run_bytes_Inr [OF mdf_8b_run] by blast
  have "router_view (pkt (sample_md mdf_8b)) = View (Dst8 5) (CMdf 0xf401 0)" by code_simp
  from mdf_in_metadata [OF sample_env_ok(1,4) this run] show ?thesis
    using run by (simp add: xdp_actions)
qed

text \<open>C18. An IP destination for which the routing lookup succeeds: the packet is passed with the
  Ethernet addresses of the next hop and with its interface in the metadata. The query has the
  address family of the headers the program is compiled with. Against the socket header's values
  2 and 10 the kernel's lookup can succeed; with the program's own values it cannot.\<close>

theorem router_ip_forward:
  assumes "meta_reserved E ctx ctx1" "stats_ready maps"
    and "router_view (pkt ctx) = View d c" "c \<noteq> CShort" "\<And>x. d \<noteq> Dst8 x"
    and look: "\<And>c. e_fib_lookup E c ((fib_query E d)\<lparr>fib_ifindex := ingress_ifindex ctx\<rparr>) =
                (BPF_FIB_LKUP_RET_SUCCESS, f)"
    and macs: "length (dmac f) = 6" "length (smac f) = 6"
  shows "\<exists>ctx' maps'. xdp_router_func E maps ctx = Inr (XDP_PASS, ctx', maps') \<and>
           take 12 (pkt ctx') = dmac f @ smac f \<and> ld32 (meta_area ctx') 0 = Inr (fib_ifindex f)"
proof -
  have m: "in_buf (meta_area ctx1) 0 sizeof_meta_info" "pkt ctx1 = pkt ctx"
    "ingress_ifindex ctx1 = ingress_ifindex ctx"
    using assms(1) by (simp_all add: meta_reserved_def)
  have v: "router_view (pkt ctx1) = View d c" using assms(3) m(2) by simp
  show ?thesis
  proof (rule router_body_ip [OF m(1) v assms(5), where E = E and maps = maps])
    fix off
    assume B: "contract_view (pkt ctx1) off = c" "in_buf (pkt ctx1) 0 ETH_HLEN"
      "router_body E maps ctx1 = sbind (router_contract ctx1 off) (\<lambda>ctx _. router_fib E ctx (fib_query E d))"
    obtain p mt r where con: "router_contract ctx1 off = Inr (ctx1\<lparr>pkt := p, meta_area := mt\<rparr>, r)"
      and p: "same_but_hops off (pkt ctx1) p" and mt: "length mt = length (meta_area ctx1)"
      and r: "r \<in> {Next (), Out XDP_DROP}"
      using router_contract_total [OF m(1), of off] by blast
    have "r = Next ()"
      using con r B(1) assms(4) by (auto simp: router_contract_view res_simps split: contract_view.splits)
    let ?c3 = "ctx1\<lparr>pkt := p, meta_area := mt\<rparr>"
    have "e_fib_lookup E ?c3 ((fib_query E d)\<lparr>fib_ifindex := ingress_ifindex ?c3\<rparr>) = (BPF_FIB_LKUP_RET_SUCCESS, f)"
      using look m(3) by simp
    moreover have "in_buf (pkt ?c3) 0 ETH_HLEN" "in_buf (meta_area ?c3) 0 sizeof_meta_info"
      using B(2) p mt m(1) by (simp_all add: in_buf_def same_but_hops_def)
    ultimately obtain p' mt' where fib: "router_fib E ?c3 (fib_query E d) = Inr (?c3\<lparr>pkt := p', meta_area := mt'\<rparr>, Out XDP_PASS)"
      "p' = dmac f @ smac f @ drop 12 (pkt ?c3)" "ld32 mt' 0 = Inr (fib_ifindex f)"
      using router_fib_success [OF _ macs] by blast
    then have "router_body E maps ctx1 = Inr (?c3\<lparr>pkt := p', meta_area := mt'\<rparr>, Out XDP_PASS)"
      using B(3) con \<open>r = Next ()\<close> by simp
    from router_func_body [OF assms(1) this] show ?thesis
      using fib(2,3) macs record_action_counts [OF assms(2), of XDP_PASS] by (auto simp: xdp_actions)
  qed
qed

text \<open>The sample router compiled with the socket header; its lookup accepts only the kernel's
  families.\<close>

definition socket_env :: xdp_env where
  "socket_env = (sample_env sample_lookup)\<lparr>hdr_AF_INET := Some 2, hdr_AF_INET6 := Some 10\<rparr>"

theorem router_ip_forward_witness:
  "\<exists>ctx' maps'. xdp_router_func socket_env sample_maps (sample_md ping_v4) =
       Inr (XDP_PASS, ctx', maps') \<and>
     take 12 (pkt ctx') = [2, 2, 2, 2, 2, 2] @ [1, 1, 1, 1, 1, 1] \<and> ld32 (meta_area ctx') 0 = Inr 9"
proof -
  let ?d = "Dst4 [10, 0, 2, 2]" and ?ctx = "sample_md ping_v4"
  let ?f = "(fib_query socket_env ?d)\<lparr>fib_ifindex := 9, smac := [1, 1, 1, 1, 1, 1], dmac := [2, 2, 2, 2, 2, 2]\<rparr>"
  have "router_view (pkt ?ctx) = View ?d CPing" by code_simp
  moreover have "meta_reserved socket_env ?ctx (?ctx\<lparr>meta_area := replicate 12 0xEE\<rparr>)"
    using sample_env_ok(4) [of sample_lookup ?ctx] by (simp add: meta_reserved_def socket_env_def)
  moreover have "e_fib_lookup socket_env c ((fib_query socket_env ?d)\<lparr>fib_ifindex := ingress_ifindex ?ctx\<rparr>) =
      (BPF_FIB_LKUP_RET_SUCCESS, ?f)" for c
    by (simp add: socket_env_def sample_env_def sample_lookup_def AF_INET_def)
  ultimately show ?thesis
    using router_ip_forward [OF _ sample_env_ok(3), of socket_env ?ctx _ ?d CPing ?f] by simp
qed

text \<open>Without the socket header the program's own values 1 and 6 are the families in the routing
  query. When the lookup accepts only the kernel's families 2 (IPv4) and 10 (IPv6), a packet to an
  IP destination is passed without a route.\<close>

lemma ip_noroute_run:
  assumes "macs_ok E" "meta_reserved E ctx ctx1" "stats_ready maps"
    and "\<And>c f. family f \<noteq> 2 \<Longrightarrow> family f \<noteq> 10 \<Longrightarrow> fst (e_fib_lookup E c f) < 0"
    and "router_view (pkt ctx) = View d c" "c \<noteq> CShort" "\<And>x. d \<noteq> Dst8 x"
    and af: "hdr_AF_INET E = None" "hdr_AF_INET6 E = None"
  shows "\<exists>ctx' maps'. xdp_router_func E maps ctx = Inr (XDP_PASS, ctx', maps') \<and>
           take 14 (pkt ctx') = take 14 (pkt ctx) \<and>
           take 4 (meta_area ctx') = take 4 (meta_area ctx1) \<and> in_buf (meta_area ctx') 0 sizeof_meta_info"
proof -
  have m: "in_buf (meta_area ctx1) 0 sizeof_meta_info" "pkt ctx1 = pkt ctx"
    using assms(2) by (simp_all add: meta_reserved_def)
  have v: "router_view (pkt ctx1) = View d c" using assms(5) m(2) by simp
  show ?thesis
  proof (rule router_body_ip [OF m(1) v assms(7), where E = E and maps = maps])
    fix off
    assume B: "contract_view (pkt ctx1) off = c" "in_buf (pkt ctx1) 0 ETH_HLEN"
      "router_body E maps ctx1 = sbind (router_contract ctx1 off) (\<lambda>ctx _. router_fib E ctx (fib_query E d))"
    obtain p mt r where con: "router_contract ctx1 off = Inr (ctx1\<lparr>pkt := p, meta_area := mt\<rparr>, r)"
      and p: "same_but_hops off (pkt ctx1) p" and mt: "take 4 mt = take 4 (meta_area ctx1)"
        "length mt = length (meta_area ctx1)"
      and r: "r \<in> {Next (), Out XDP_DROP}"
      using router_contract_total [OF m(1), of off] by blast
    have "r = Next ()"
      using con r B(1) assms(6) by (auto simp: router_contract_view res_simps split: contract_view.splits)
    let ?c3 = "ctx1\<lparr>pkt := p, meta_area := mt\<rparr>"
    let ?q = "(fib_query E d)\<lparr>fib_ifindex := ingress_ifindex ?c3\<rparr>"
    have "family ?q \<noteq> 2" "family ?q \<noteq> 10"
      using assms(7) af by (cases d; simp add: AF_INET_def AF_INET6_def)+
    then have "fst (e_fib_lookup E ?c3 ?q) < 0" by (rule assms(4))
    then have "router_fib E ?c3 (fib_query E d) = Inr (?c3, Out XDP_PASS)"
      by (auto simp: router_fib_def split: prod.split)
    then have body: "router_body E maps ctx1 = Inr (?c3, Out XDP_PASS)"
      using B(3) con \<open>r = Next ()\<close> by simp
    have "take 14 p = take 14 (pkt ctx1)"
      using p by (intro nth_equalityI) (auto simp: same_but_hops_def hop_count_at_def)
    then show ?thesis
      using router_func_body [OF assms(2) body] mt m record_action_counts [OF assms(3), of XDP_PASS]
      by (auto simp: xdp_actions in_buf_def)
  qed
qed

text \<open>The destination is not looked for after the shipping specification: its place is computed
  from the sizes of the two headers and of the source address, whatever \<open>shipping_offset\<close> says.
  A packet whose shipping specification starts one byte later, with source address 7 and
  destination address 5, is routed to its own source: to interface 4, where the table has
  interface 3 for address 5.\<close>

definition shifted_8b :: "u8 list" where
  "shifted_8b = sample_eth @ [4, 9, 9] @ [0] @ [2, 2, 0] @ [7, 5]"

theorem destination_ignores_shipping_offset:
  "get_newip_offset shifted_8b ETH_HLEN = Inr \<lparr>shipping_offset = 4, contract_offset = 9, payload_offset = 9\<rparr> \<and>
   get_shipping_spec shifted_8b (ETH_HLEN + 4) = Inr \<lparr>src_addr_type = 2, dst_addr_type = 2, addr_cast = 0\<rparr> \<and>
   ld8 shifted_8b (ETH_HLEN + 4 + sizeof_shipping_spec) = Inr 7 \<and>
   ld8 shifted_8b (ETH_HLEN + 4 + sizeof_shipping_spec + 1) = Inr 5 \<and>
   static_redirect_8b sample_maps 7 = Some 4 \<and> static_redirect_8b sample_maps 5 = Some 3 \<and>
   run_bytes (xdp_router_func (sample_env lenient_lookup) sample_maps (sample_md shifted_8b)) =
     Inr (XDP_PASS, shifted_8b, [4, 0, 0, 0] @ replicate 8 0xEE)"
  by code_simp

end
