(* ===== verification/Tc_Router.thy ===== *)
theory Tc_Router
  imports Xdp_Spec
begin

text \<open>
  The tc program of \<open>xdp/newip_router/tc_prog_kern.c\<close>, which runs on the packet the XDP program
  passed and redirects it to the interface it finds in the metadata, and the composition of the
  two programs. \<open>bpf_redirect\<close> is a parameter.
\<close>

record sk_buff_ctx =
  tc_data :: "u8 list"
  tc_meta :: "u8 list"
  tc_cb :: "u32 list"

definition TC_ACT_UNSPEC :: int where "TC_ACT_UNSPEC = - 1"
definition TC_ACT_SHOT :: int where "TC_ACT_SHOT = 2"

text \<open>\<open>cb->val = 65\<close> writes the first word of the control block.\<close>

definition tc_out :: "int \<Rightarrow> sk_buff_ctx \<Rightarrow> int \<times> sk_buff_ctx" where
  "tc_out action ctx = (action, ctx\<lparr>tc_cb := (tc_cb ctx)[0 := 65]\<rparr>)"

definition tc_router_func :: "(u32 \<Rightarrow> u64 \<Rightarrow> int) \<Rightarrow> sk_buff_ctx \<Rightarrow> (int \<times> sk_buff_ctx) res" where
  "tc_router_func bpf_redirect ctx =
     (if past (tc_data ctx) 0 ETH_HLEN then Inr (tc_out TC_ACT_SHOT ctx)
      else rbind (ld16 (tc_data ctx) 12) (\<lambda>h_proto.
        if h_proto \<noteq> htons ETH_P_NEWIP_router then Inr (tc_out TC_ACT_UNSPEC ctx)
        else if past (tc_meta ctx) 0 sizeof_meta_info then Inr (tc_out TC_ACT_UNSPEC ctx)
        else rbind (ld32 (tc_meta ctx) 0) (\<lambda>ifindex. Inr (tc_out (bpf_redirect ifindex 0) ctx))))"

text \<open>The context of the tc program for a packet that the XDP program passed.\<close>

definition to_tc :: "xdp_md \<Rightarrow> sk_buff_ctx" where
  "to_tc ctx = \<lparr>tc_data = pkt ctx, tc_meta = meta_area ctx, tc_cb = replicate 5 0\<rparr>"

definition forward :: "xdp_env \<Rightarrow> (u32 \<Rightarrow> u64 \<Rightarrow> int) \<Rightarrow> bpf_maps \<Rightarrow> xdp_md \<Rightarrow> (u32 \<times> int option) res" where
  "forward E bpf_redirect maps ctx =
     rbind (xdp_router_func E maps ctx) (\<lambda>(a, ctx, maps).
       if a = XDP_PASS then
         rbind (tc_router_func bpf_redirect (to_tc ctx)) (\<lambda>(b, skb). Inr (a, Some b))
       else Inr (a, None))"

section \<open>Lemmas\<close>

lemma tc_router_cases:
  obtains (short) "\<not> in_buf (tc_data ctx) 0 ETH_HLEN" "tc_router_func R ctx = Inr (tc_out TC_ACT_SHOT ctx)"
  | (other) w where "ld16 (tc_data ctx) 12 = Inr w" "w \<noteq> htons ETH_P_NEWIP_router"
      "tc_router_func R ctx = Inr (tc_out TC_ACT_UNSPEC ctx)"
  | (nometa) "ld16 (tc_data ctx) 12 = Inr (htons ETH_P_NEWIP_router)"
      "\<not> in_buf (tc_meta ctx) 0 sizeof_meta_info" "tc_router_func R ctx = Inr (tc_out TC_ACT_UNSPEC ctx)"
  | (redirect) i where "ld16 (tc_data ctx) 12 = Inr (htons ETH_P_NEWIP_router)"
      "ld32 (tc_meta ctx) 0 = Inr i" "tc_router_func R ctx = Inr (tc_out (R i 0) ctx)"
proof (cases "in_buf (tc_data ctx) 0 ETH_HLEN")
  case False
  then show thesis by (intro short) (simp_all add: tc_router_func_def)
next
  case True
  then obtain w where w: "ld16 (tc_data ctx) 12 = Inr w" by (simp add: ld16_def in_buf_def)
  have "in_buf (tc_meta ctx) 0 sizeof_meta_info \<Longrightarrow> \<exists>i. ld32 (tc_meta ctx) 0 = Inr i"
    by (rule ld32_ok) (simp add: in_buf_def sizeof_meta_info_def)
  then show thesis
    using other [OF w] nometa redirect True w
    by (cases "w = htons ETH_P_NEWIP_router"; cases "in_buf (tc_meta ctx) 0 sizeof_meta_info")
      (auto simp: tc_router_func_def)
qed

text \<open>A packet that the XDP program passed with its Ethernet type and with metadata.\<close>

lemma tc_router_redirects:
  assumes "router_view m = View d c" "take 14 (pkt ctx) = take 14 m"
    and "in_buf (meta_area ctx) 0 sizeof_meta_info" "ld32 (meta_area ctx) 0 = Inr i"
  shows "tc_router_func R (to_tc ctx) = Inr (tc_out (R i 0) (to_tc ctx))"
proof -
  have "ld16 (pkt ctx) 12 = Inr (htons ETH_P_NEWIP_router)" by (rule router_view_type [OF assms(1,2)])
  moreover from this have "in_buf (pkt ctx) 0 ETH_HLEN" by (auto simp: res_simps in_buf_def)
  ultimately show ?thesis using assms(3,4) by (simp add: tc_router_func_def to_tc_def)
qed

lemma forward_8b_run:
  assumes "meta_reserved E ctx ctx1" "stats_ready maps"
    and "router_view (pkt ctx) = View (Dst8 a) c" "c \<noteq> CShort" "static_redirect_8b maps a = Some i"
  shows "forward E R maps ctx = Inr (XDP_PASS, Some (R i 0))"
proof -
  obtain ctx' maps' where run: "xdp_router_func E maps ctx = Inr (XDP_PASS, ctx', maps')"
    "ld32 (meta_area ctx') 0 = Inr i" "take 14 (pkt ctx') = take 14 (pkt ctx)"
    "in_buf (meta_area ctx') 0 sizeof_meta_info"
    using router_8b_run [OF assms(1-5)] by blast
  then show ?thesis
    using tc_router_redirects [OF assms(3) run(3,4,2)] by (simp add: forward_def tc_out_def)
qed

section \<open>Properties\<close>

text \<open>The tc program never accesses memory outside the packet and its metadata, changes
  neither of them, and always marks the control block; it redirects exactly the New IP packets
  that come with metadata, to the interface in it.\<close>

theorem tc_router_total:
  "\<exists>action. tc_router_func R ctx = Inr (tc_out action ctx) \<and>
     (action = TC_ACT_SHOT \<or> action = TC_ACT_UNSPEC \<or>
      (\<exists>i. ld16 (tc_data ctx) 12 = Inr (htons ETH_P_NEWIP_router) \<and>
           ld32 (tc_meta ctx) 0 = Inr i \<and> action = R i 0))"
  by (cases rule: tc_router_cases [of ctx R]) auto

text \<open>End to end: a New IP packet with an 8-bit destination that is in the static table and with
  an acceptable contract passes through the XDP program and is redirected by the tc program to
  the interface of the table entry.\<close>

theorem forward_8b:
  assumes "meta_reserved E ctx ctx1" "stats_ready maps"
    and "router_view (pkt ctx) = View (Dst8 a) c" "c \<noteq> CShort" "static_redirect_8b maps a = Some i"
  shows "forward E R maps ctx = Inr (XDP_PASS, Some (R i 0))"
  using assms by (rule forward_8b_run)

theorem forward_8b_witness:
  "forward (sample_env lenient_lookup) (\<lambda>i f. int (unat i)) sample_maps (sample_md mdf_8b) = Inr (XDP_PASS, Some 3)"
proof -
  have v: "router_view (pkt (sample_md mdf_8b)) = View (Dst8 5) (CMdf 0xf401 0)" by code_simp
  show ?thesis
    using forward_8b [OF sample_env_ok(4,3) v, of 3 lenient_lookup "\<lambda>i f. int (unat i)"]
    by (simp add: sample_maps_def)
qed

text \<open>End to end, compiled without the socket header and with the routing lookup of the kernel's
  families: a New IP packet to an IP
  destination is not routed but redirected by the tc program to the interface number that the
  first four bytes of the reserved metadata happen to hold; the XDP program reserved them without
  writing them.\<close>

theorem forward_ip_stale_interface:
  assumes "macs_ok E" "meta_reserved E ctx ctx1" "stats_ready maps"
    and "\<And>c f. family f \<noteq> 2 \<Longrightarrow> family f \<noteq> 10 \<Longrightarrow> fst (e_fib_lookup E c f) < 0"
    and "router_view (pkt ctx) = View d c" "c \<noteq> CShort" "\<And>x. d \<noteq> Dst8 x"
    and "ld32 (meta_area ctx1) 0 = Inr stale"
    and "hdr_AF_INET E = None" "hdr_AF_INET6 E = None"
  shows "forward E R maps ctx = Inr (XDP_PASS, Some (R stale 0))"
proof -
  obtain ctx' maps' where run: "xdp_router_func E maps ctx = Inr (XDP_PASS, ctx', maps')"
    "take 14 (pkt ctx') = take 14 (pkt ctx)" "take 4 (meta_area ctx') = take 4 (meta_area ctx1)"
    "in_buf (meta_area ctx') 0 sizeof_meta_info"
    using ip_noroute_run [OF assms(1-7,9,10)] by blast
  have "ld32 (meta_area ctx') 0 = Inr stale"
    using ld32_take4 [OF run(3)] run(4) assms(8) by (simp add: in_buf_def sizeof_meta_info_def)
  then show ?thesis
    using run tc_router_redirects [OF assms(5) run(2,4)] by (simp add: forward_def tc_out_def)
qed

theorem forward_ip_stale_interface_witness:
  "forward (sample_env sample_lookup) (\<lambda>i f. int (unat i)) sample_maps (sample_md ping_v4) =
     Inr (XDP_PASS, Some 0xEEEEEEEE)"
proof -
  have v: "router_view (pkt (sample_md ping_v4)) = View (Dst4 [10, 0, 2, 2]) CPing" by code_simp
  have L: "fst (e_fib_lookup (sample_env sample_lookup) c f) < 0" if "family f \<noteq> 2" "family f \<noteq> 10" for c f
    using that by (simp add: sample_env_def sample_lookup_def)
  have st: "ld32 (replicate 12 0xEE) 0 = Inr 0xEEEEEEEE" by code_simp
  show ?thesis
    using forward_ip_stale_interface [OF sample_env_ok(1,4,3) L v, of "0xEEEEEEEE" "\<lambda>i f. int (unat i)"] st
    by (simp add: sample_env_def)
qed

end
