(* ===== verification/Xdp_Parsing.thy ===== *)
theory Xdp_Parsing
  imports Xdp_Base
begin

text \<open>
  The header parsers of \<open>xdp/common/parsing_helpers.h\<close>. A parser takes the packet and the position
  of the cursor; it returns its result, the new position, and the place of the header it stores
  through its output argument (\<open>None\<close> when it does not store one).
\<close>

type_synonym parse_result = "(int \<times> nat \<times> nat option) res"

abbreviation (input) sizeof_ethhdr :: nat where "sizeof_ethhdr \<equiv> 14"
abbreviation (input) sizeof_vlan_hdr :: nat where "sizeof_vlan_hdr \<equiv> 4"
abbreviation (input) sizeof_pointer :: nat where "sizeof_pointer \<equiv> 8"

definition ETH_P_8021Q :: u16 where "ETH_P_8021Q = 0x8100"
definition ETH_P_8021AD :: u16 where "ETH_P_8021AD = 0x88a8"
definition VLAN_MAX_DEPTH :: nat where "VLAN_MAX_DEPTH = 2"
definition VLAN_VID_MASK :: u16 where "VLAN_VID_MASK = 0x0fff"

section \<open>Ethernet with VLAN tags\<close>

record vlan_hdr =
  h_vlan_TCI :: u16
  h_vlan_encapsulated_proto :: u16

definition get_vlan_hdr :: "u8 list \<Rightarrow> nat \<Rightarrow> vlan_hdr res" where
  "get_vlan_hdr m i =
     rbind (ld16 m i) (\<lambda>t. rbind (ld16 m (i + 2)) (\<lambda>p.
       Inr \<lparr>h_vlan_TCI = t, h_vlan_encapsulated_proto = p\<rparr>))"

definition proto_is_vlan :: "u16 \<Rightarrow> bool" where
  "proto_is_vlan h_proto \<longleftrightarrow> h_proto = htons ETH_P_8021Q \<or> h_proto = htons ETH_P_8021AD"

text \<open>The loop, with \<open>n\<close> rounds to go; \<open>vlans\<close> is the array of collected identifiers when the
  caller wants them.\<close>

fun vlan_loop :: "u8 list \<Rightarrow> nat \<Rightarrow> nat \<Rightarrow> nat \<Rightarrow> u16 \<Rightarrow> u16 list option \<Rightarrow> (u16 \<times> nat \<times> u16 list option) res" where
  "vlan_loop m 0 i vlh h_proto vlans = Inr (h_proto, vlh, vlans)"
| "vlan_loop m (Suc n) i vlh h_proto vlans =
     (if \<not> proto_is_vlan h_proto then Inr (h_proto, vlh, vlans)
      else if past m vlh sizeof_vlan_hdr then Inr (h_proto, vlh, vlans)
      else rbind (get_vlan_hdr m vlh) (\<lambda>v.
        vlan_loop m n (i + 1) (vlh + sizeof_vlan_hdr) (h_vlan_encapsulated_proto v)
          (map_option (\<lambda>ids. ids[i := ntohs (h_vlan_TCI v) AND VLAN_VID_MASK]) vlans)))"

definition parse_ethhdr_vlan ::
    "u8 list \<Rightarrow> nat \<Rightarrow> u16 list option \<Rightarrow> (int \<times> nat \<times> nat option \<times> u16 list option) res" where
  "parse_ethhdr_vlan m pos vlans =
     (if past m pos sizeof_ethhdr then Inr (- 1, pos, None, vlans)
      else rbind (ld16 m (pos + 12)) (\<lambda>h_proto.
           rbind (vlan_loop m VLAN_MAX_DEPTH 0 (pos + sizeof_ethhdr) h_proto vlans) (\<lambda>(h_proto, vlh, vlans).
             Inr (int (unat h_proto), vlh, Some pos, vlans))))"

definition parse_ethhdr :: "u8 list \<Rightarrow> nat \<Rightarrow> parse_result" where
  "parse_ethhdr m pos =
     rbind (parse_ethhdr_vlan m pos None) (\<lambda>(ty, pos, hdr, _). Inr (ty, pos, hdr))"

section \<open>The other headers\<close>

definition parse_ip6hdr :: "u8 list \<Rightarrow> nat \<Rightarrow> parse_result" where
  "parse_ip6hdr m pos =
     (if past m pos 40 then Inr (- 1, pos, None)
      else rbind (ld8 m (pos + 6)) (\<lambda>nexthdr. Inr (int (unat nexthdr), pos + 40, Some pos)))"

text \<open>\<open>ihl\<close> is the low half of the first byte; \<open>sizeof(iph)\<close> is the size of the pointer.\<close>

definition parse_iphdr :: "u8 list \<Rightarrow> nat \<Rightarrow> parse_result" where
  "parse_iphdr m pos =
     (if past m pos 20 then Inr (- 1, pos, None)
      else rbind (ld8 m pos) (\<lambda>b.
        let hdrsize = unat (b AND 0x0f) * 4
        in if hdrsize < sizeof_pointer then Inr (- 1, pos, None)
           else if past m pos hdrsize then Inr (- 1, pos, None)
           else rbind (ld8 m (pos + 9)) (\<lambda>protocol.
                  Inr (int (unat protocol), pos + hdrsize, Some pos))))"

definition parse_icmp6hdr :: "u8 list \<Rightarrow> nat \<Rightarrow> parse_result" where
  "parse_icmp6hdr m pos =
     (if past m pos 8 then Inr (- 1, pos, None)
      else rbind (ld8 m pos) (\<lambda>ty. Inr (int (unat ty), pos + 8, Some pos)))"

definition parse_icmphdr :: "u8 list \<Rightarrow> nat \<Rightarrow> parse_result" where
  "parse_icmphdr m pos =
     (if past m pos 8 then Inr (- 1, pos, None)
      else rbind (ld8 m pos) (\<lambda>ty. Inr (int (unat ty), pos + 8, Some pos)))"

record icmphdr_common =
  icmp_type :: u8
  icmp_code :: u8
  icmp_cksum :: u16

definition get_icmphdr_common :: "u8 list \<Rightarrow> nat \<Rightarrow> icmphdr_common res" where
  "get_icmphdr_common m i =
     rbind (ld8 m i) (\<lambda>t. rbind (ld8 m (i + 1)) (\<lambda>c. rbind (ld16 m (i + 2)) (\<lambda>s.
       Inr \<lparr>icmp_type = t, icmp_code = c, icmp_cksum = s\<rparr>)))"

definition parse_icmphdr_common :: "u8 list \<Rightarrow> nat \<Rightarrow> parse_result" where
  "parse_icmphdr_common m pos =
     (if past m pos 4 then Inr (- 1, pos, None)
      else rbind (get_icmphdr_common m pos) (\<lambda>h. Inr (int (unat (icmp_type h)), pos + 4, Some pos)))"

definition parse_udphdr :: "u8 list \<Rightarrow> nat \<Rightarrow> parse_result" where
  "parse_udphdr m pos =
     (if past m pos 8 then Inr (- 1, pos, None)
      else rbind (ld16 m (pos + 4)) (\<lambda>l.
        let len = int (unat (ntohs l)) - 8
        in if len < 0 then Inr (- 1, pos + 8, Some pos) else Inr (len, pos + 8, Some pos)))"

text \<open>\<open>doff\<close> is the high half of byte 12; \<open>sizeof(h)\<close> is the size of the pointer.\<close>

definition parse_tcphdr :: "u8 list \<Rightarrow> nat \<Rightarrow> parse_result" where
  "parse_tcphdr m pos =
     (if past m pos 20 then Inr (- 1, pos, None)
      else rbind (ld8 m (pos + 12)) (\<lambda>b.
        let len = unat (drop_bit 4 b) * 4
        in if len < sizeof_pointer then Inr (- 1, pos, None)
           else if past m pos len then Inr (- 1, pos, None)
           else Inr (int len, pos + len, Some pos)))"

section \<open>The interface of a parser\<close>

text \<open>What the caller of a parser relies on: it returns, reads nothing outside the packet, stores
  the place of a header exactly when that header is complete, and then moves the cursor forward
  inside the packet; without a header the result is -1 and the cursor stays.\<close>

locale header_parser =
  fixes parse :: "u8 list \<Rightarrow> nat \<Rightarrow> parse_result"
    and hlen :: nat
  assumes parse_total: "\<exists>r. parse m i = Inr r"
    and parse_header: "parse m i = Inr (ty, i', Some h) \<Longrightarrow> h = i \<and> in_buf m i hlen \<and> i < i' \<and> i' \<le> length m"
    and parse_none: "parse m i = Inr (ty, i', None) \<Longrightarrow> ty = - 1 \<and> i' = i"
begin

lemma parse_cases:
  obtains (none) "parse m i = Inr (- 1, i, None)"
  | (header) ty i' where "parse m i = Inr (ty, i', Some i)" "in_buf m i hlen" "i < i'" "i' \<le> length m"
proof -
  obtain ty i' h where r: "parse m i = Inr (ty, i', h)" using parse_total by (metis prod_cases3)
  show thesis
  proof (cases h)
    case None
    then show thesis using r parse_none none by metis
  next
    case (Some x)
    then show thesis using r parse_header header by metis
  qed
qed

lemma cursor_inside: "parse m i = Inr (ty, i', h) \<Longrightarrow> i \<le> length m \<Longrightarrow> i \<le> i' \<and> i' \<le> length m"
  by (cases m i rule: parse_cases) auto

lemma cursor_grows: "parse m i = Inr (ty, i', h) \<Longrightarrow> i \<le> i'"
  by (cases m i rule: parse_cases) auto

end

text \<open>A parser of a header of fixed size accepts every complete header and moves past it.\<close>

locale fixed_parser = header_parser +
  assumes parse_fixed: "in_buf m i hlen \<Longrightarrow> \<exists>ty. parse m i = Inr (ty, i + hlen, Some i)"
begin

lemma parse_iff: "(\<exists>ty i'. parse m i = Inr (ty, i', Some i)) \<longleftrightarrow> in_buf m i hlen"
  using parse_header parse_fixed by blast

end

text \<open>Two parsers one after the other, the second where the first moved the cursor.\<close>

locale parser_pair = a: header_parser p hp + b: header_parser q hq
  for p hp q hq
begin

lemma pair_total:
  "\<exists>ty i1 h. p m i = Inr (ty, i1, h) \<and> (h = None \<or> (i1 \<le> length m \<and> (\<exists>ty' i2 h'. q m i1 = Inr (ty', i2, h') \<and>
     i1 \<le> i2 \<and> i2 \<le> length m)))"
proof (cases m i rule: a.parse_cases)
  case (header ty i')
  obtain ty' i2 h' where "q m i' = Inr (ty', i2, h')" using b.parse_total by (metis prod_cases3)
  then show ?thesis using header b.cursor_inside by blast
qed auto

end

section \<open>Interpretations\<close>

lemma get_vlan_hdr_ok: "in_buf m i sizeof_vlan_hdr \<Longrightarrow> \<exists>v. get_vlan_hdr m i = Inr v"
  by (simp add: get_vlan_hdr_def ld16_def in_buf_def)

lemma vlan_loop_total:
  "\<exists>ty vlh' ids. vlan_loop m n i vlh h vlans = Inr (ty, vlh', ids) \<and> vlh \<le> vlh' \<and> (vlh \<le> length m \<longrightarrow> vlh' \<le> length m)"
proof (induction n arbitrary: i vlh h vlans)
  case (Suc n)
  show ?case
  proof (cases "proto_is_vlan h \<and> in_buf m vlh sizeof_vlan_hdr")
    case True
    then obtain v where v: "get_vlan_hdr m vlh = Inr v" using get_vlan_hdr_ok by blast
    have "vlh + 4 \<le> length m" using True by (simp add: in_buf_def)
    then show ?thesis using True v Suc.IH [of "i + 1" "vlh + 4"] by fastforce
  next
    case False
    then show ?thesis by auto
  qed
qed simp

lemma parse_ethhdr_vlan_cases:
  obtains (short) "\<not> in_buf m i sizeof_ethhdr" "parse_ethhdr_vlan m i vlans = Inr (- 1, i, None, vlans)"
  | (ok) w ty i' ids where "in_buf m i sizeof_ethhdr" "ld16 m (i + 12) = Inr w"
      "vlan_loop m VLAN_MAX_DEPTH 0 (i + sizeof_ethhdr) w vlans = Inr (ty, i', ids)"
      "parse_ethhdr_vlan m i vlans = Inr (int (unat ty), i', Some i, ids)"
      "i + sizeof_ethhdr \<le> i'" "i' \<le> length m"
proof (cases "in_buf m i sizeof_ethhdr")
  case False
  then show thesis by (intro short) (simp_all add: parse_ethhdr_vlan_def)
next
  case True
  then obtain w where w: "ld16 m (i + 12) = Inr w" by (simp add: ld16_def in_buf_def)
  obtain ty v ids where l: "vlan_loop m VLAN_MAX_DEPTH 0 (i + 14) w vlans = Inr (ty, v, ids)"
    "i + 14 \<le> v" "i + 14 \<le> length m \<longrightarrow> v \<le> length m"
    using vlan_loop_total by blast
  then show thesis using True w by (intro ok) (auto simp: parse_ethhdr_vlan_def in_buf_def)
qed

interpretation eth: header_parser parse_ethhdr sizeof_ethhdr
proof unfold_locales
  fix m i ty i' h
  show "\<exists>r. parse_ethhdr m i = Inr r"
    by (cases rule: parse_ethhdr_vlan_cases [of m i None]) (simp_all add: parse_ethhdr_def)
  show "h = i \<and> in_buf m i sizeof_ethhdr \<and> i < i' \<and> i' \<le> length m" if "parse_ethhdr m i = Inr (ty, i', Some h)"
    using that by (cases rule: parse_ethhdr_vlan_cases [of m i None]) (auto simp: parse_ethhdr_def)
  show "ty = - 1 \<and> i' = i" if "parse_ethhdr m i = Inr (ty, i', None)"
    using that by (cases rule: parse_ethhdr_vlan_cases [of m i None]) (auto simp: parse_ethhdr_def)
qed

lemmas parser_defs = parse_ip6hdr_def parse_iphdr_def parse_icmp6hdr_def parse_icmphdr_def
  parse_icmphdr_common_def get_icmphdr_common_def parse_udphdr_def parse_tcphdr_def

interpretation ip6: fixed_parser parse_ip6hdr 40
  by unfold_locales (auto simp: parser_defs ld8_def in_buf_def res_simps split: if_splits)

interpretation icmp6: fixed_parser parse_icmp6hdr 8
  by unfold_locales (auto simp: parser_defs ld8_def in_buf_def res_simps split: if_splits)

interpretation icmp: fixed_parser parse_icmphdr 8
  by unfold_locales (auto simp: parser_defs ld8_def in_buf_def res_simps split: if_splits)

interpretation icmp_any: fixed_parser parse_icmphdr_common 4
  by unfold_locales (auto simp: parser_defs ld8_def ld16_def in_buf_def res_simps split: if_splits)

interpretation udp: fixed_parser parse_udphdr 8
  by unfold_locales (auto simp: parser_defs Let_def ld16_def in_buf_def res_simps split: if_splits)

interpretation ip: header_parser parse_iphdr 20
  by unfold_locales (auto simp: parser_defs Let_def ld8_def in_buf_def res_simps split: if_splits)

interpretation tcp: header_parser parse_tcphdr 20
  by unfold_locales (auto simp: parser_defs Let_def ld8_def in_buf_def res_simps split: if_splits)

interpretation eth_ip: parser_pair parse_ethhdr sizeof_ethhdr parse_iphdr 20 ..
interpretation eth_ip6: parser_pair parse_ethhdr sizeof_ethhdr parse_ip6hdr 40 ..
interpretation ip_udp: parser_pair parse_iphdr 20 parse_udphdr 8 ..
interpretation ip_tcp: parser_pair parse_iphdr 20 parse_tcphdr 20 ..

section \<open>The VLAN tags of a packet\<close>

text \<open>The tags of the whole chain, outermost first: for each tag the VLAN identifier and the protocol
  it encapsulates. The parser reads the first two of them.\<close>

fun tag_chain :: "u16 \<Rightarrow> u8 list \<Rightarrow> (u16 \<times> u16) list" where
  "tag_chain h (b0 # b1 # b2 # b3 # bs) =
     (if proto_is_vlan h
      then (ntohs (le16 b0 b1) AND VLAN_VID_MASK, le16 b2 b3) # tag_chain (le16 b2 b3) bs else [])"
| "tag_chain h _ = []"

lemma tag_chain_short: "length bs < 4 \<Longrightarrow> tag_chain h bs = []"
  by (cases "(h, bs)" rule: tag_chain.cases) auto

lemma tag_chain_unfold:
  "tag_chain h (drop i m) =
     (if proto_is_vlan h \<and> in_buf m i 4
      then (ntohs (le16 (m ! i) (m ! (i + 1))) AND VLAN_VID_MASK, le16 (m ! (i + 2)) (m ! (i + 3))) #
           tag_chain (le16 (m ! (i + 2)) (m ! (i + 3))) (drop (i + 4) m) else [])"
proof (cases "in_buf m i 4")
  case True
  then have "drop i m = m ! i # m ! (i + 1) # m ! (i + 2) # m ! (i + 3) # drop (i + 4) m"
    by (simp add: in_buf_def Cons_nth_drop_Suc numeral_eq_Suc)
  then show ?thesis using True by simp
next
  case False
  then show ?thesis by (simp add: tag_chain_short in_buf_def)
qed

lemma vlan_loop_chain:
  assumes "\<And>ids. vlans = Some ids \<Longrightarrow> k + n \<le> length ids"
  shows "vlan_loop m n k vlh h vlans =
     (let tags = take n (tag_chain h (drop vlh m))
      in Inr (last (h # List.map snd tags), vlh + 4 * length tags,
              map_option (\<lambda>ids. take k ids @ List.map fst tags @ drop (k + length tags) ids) vlans))"
  using assms
proof (induction n arbitrary: k vlh h vlans)
  case 0
  then show ?case by (simp add: option.map_id0 [unfolded id_def])
next
  case (Suc n)
  show ?case
  proof (cases "proto_is_vlan h \<and> in_buf m vlh sizeof_vlan_hdr")
    case False
    then have "tag_chain h (drop vlh m) = []" by (subst tag_chain_unfold) auto
    then show ?thesis using False by (auto simp: option.map_id0 [unfolded id_def])
  next
    case True
    let ?v = "ntohs (le16 (m ! vlh) (m ! (vlh + 1))) AND VLAN_VID_MASK"
    let ?p = "le16 (m ! (vlh + 2)) (m ! (vlh + 3))"
    let ?vl = "map_option (\<lambda>ids. ids[k := ?v]) vlans"
    have "get_vlan_hdr m vlh = Inr \<lparr>h_vlan_TCI = le16 (m ! vlh) (m ! (vlh + 1)), h_vlan_encapsulated_proto = ?p\<rparr>"
      using True by (simp add: get_vlan_hdr_def ld16_def in_buf_def numeral_eq_Suc)
    then have step: "vlan_loop m (Suc n) k vlh h vlans = vlan_loop m n (k + 1) (vlh + 4) ?p ?vl"
      using True by simp
    have chain: "tag_chain h (drop vlh m) = (?v, ?p) # tag_chain ?p (drop (vlh + 4) m)"
      using True by (subst tag_chain_unfold) simp
    have upd: "take (k + 1) (ids[k := ?v]) @ X @ drop (k + 1 + j) (ids[k := ?v]) =
        take k ids @ ?v # X @ drop (k + Suc j) ids" if "k + Suc n \<le> length ids" for ids X j
      using that by (simp add: take_Suc_conv_app_nth)
    have IH: "vlan_loop m n (k + 1) (vlh + 4) ?p ?vl =
       (let tags = take n (tag_chain ?p (drop (vlh + 4) m))
        in Inr (last (?p # List.map snd tags), vlh + 4 + 4 * length tags,
              map_option (\<lambda>ids. take (k + 1) ids @ List.map fst tags @ drop (k + 1 + length tags) ids) ?vl))"
      by (rule Suc.IH) (use Suc.prems in auto)
    show ?thesis
      unfolding step IH chain using Suc.prems upd by (cases vlans) (simp_all add: Let_def)
  qed
qed

section \<open>Properties\<close>

text \<open>C39. What the Ethernet parser does with VLAN tags: with a complete Ethernet header it returns
  the protocol after the first two tags of the chain (in network order), moves the cursor behind
  them, and puts their identifiers, without priority bits, at the front of the caller's array.\<close>

theorem parse_ethhdr_vlan_spec:
  assumes "in_buf m i sizeof_ethhdr" "length ids = VLAN_MAX_DEPTH"
  shows "parse_ethhdr_vlan m i (Some ids) =
     (let h = le16 (m ! (i + 12)) (m ! (i + 13));
          tags = take VLAN_MAX_DEPTH (tag_chain h (drop (i + sizeof_ethhdr) m))
      in Inr (int (unat (last (h # List.map snd tags))), i + sizeof_ethhdr + sizeof_vlan_hdr * length tags, Some i,
              Some (List.map fst tags @ drop (length tags) ids)))"
proof -
  have "ld16 m (i + 12) = Inr (le16 (m ! (i + 12)) (m ! (i + 13)))"
    using assms(1) by (simp add: ld16_def in_buf_def add.commute)
  then have "parse_ethhdr_vlan m i (Some ids) =
      rbind (vlan_loop m VLAN_MAX_DEPTH 0 (i + 14) (le16 (m ! (i + 12)) (m ! (i + 13))) (Some ids))
        (\<lambda>(h, vlh, vlans). Inr (int (unat h), vlh, Some i, vlans))"
    using assms(1) by (simp add: parse_ethhdr_vlan_def)
  moreover have "0 + VLAN_MAX_DEPTH \<le> length ids" using assms(2) by simp
  ultimately show ?thesis
    by (subst (asm) vlan_loop_chain) (simp_all add: Let_def)
qed

text \<open>A frame with three VLAN tags, 5, 6 and 7.\<close>

definition triple_tagged :: "u8 list" where
  "triple_tagged = replicate 12 0 @ [0x81, 0x00] @ [0x20, 5, 0x88, 0xa8] @ [0, 6, 0x81, 0x00] @ [0, 7, 0x88, 0xb6]"

theorem parse_ethhdr_vlan_spec_witness:
  "parse_ethhdr_vlan triple_tagged 0 (Some [0, 0]) = Inr (0x0081, 22, Some 0, Some [5, 6])"
proof -
  have b: "in_buf triple_tagged 0 14" "length [0, 0 :: u16] = VLAN_MAX_DEPTH" by code_simp+
  have t: "(let h = le16 (triple_tagged ! (0 + 12)) (triple_tagged ! (0 + 13));
      tags = take VLAN_MAX_DEPTH (tag_chain h (drop (0 + 14) triple_tagged))
      in Inr (int (unat (last (h # List.map snd tags))), 0 + 14 + 4 * length tags, Some (0 :: nat),
              Some (List.map fst tags @ drop (length tags) [0, 0])))
     = (Inr (0x0081, 22, Some 0, Some [5, 6]) :: (int \<times> nat \<times> nat option \<times> u16 list option) res)"
    by code_simp
  show ?thesis using parse_ethhdr_vlan_spec [OF b] unfolding t .
qed

text \<open>The parsers of IPv4 and TCP headers compare the length in the header with the size of a
  pointer, 8, instead of the size of the header, 20: a header that claims 8 to 16 bytes is
  accepted, and the cursor stops inside the header.\<close>

theorem short_headers_accepted:
  assumes "in_buf m i 20" "n \<in> {2, 3, 4}"
  shows "(m ! i AND 0x0f = n \<longrightarrow>
            (\<exists>ty. parse_iphdr m i = Inr (ty, i + 4 * unat n, Some i)) \<and> i + 4 * unat n < i + 20) \<and>
         (drop_bit 4 (m ! (i + 12)) = n \<longrightarrow>
            (\<exists>ty. parse_tcphdr m i = Inr (ty, i + 4 * unat n, Some i)) \<and> i + 4 * unat n < i + 20)"
  using assms by (auto simp: parser_defs Let_def ld8_def in_buf_def)

theorem short_headers_accepted_witness:
  "(\<exists>ty. parse_iphdr (0x42 # replicate 19 0) 0 = Inr (ty, 8, Some 0)) \<and>
   (\<exists>ty. parse_tcphdr (replicate 12 0 @ 0x20 # replicate 7 0) 0 = Inr (ty, 8, Some 0))"
proof -
  have "in_buf (0x42 # replicate 19 0) 0 20" "in_buf (replicate 12 0 @ 0x20 # replicate 7 0) 0 20"
    "(0x42 # replicate 19 0 :: u8 list) ! 0 AND 0x0f = 2"
    "drop_bit 4 ((replicate 12 0 @ 0x20 # replicate 7 0 :: u8 list) ! (0 + 12)) = 2"
    by code_simp+
  from short_headers_accepted [OF this(1), of 2] short_headers_accepted [OF this(2), of 2] this(3,4)
  show ?thesis by simp
qed

end
