(* ===== verification/Xdp_Rewrite.thy ===== *)
theory Xdp_Rewrite
  imports Xdp_Parsing
begin

text \<open>
  The functions of \<open>xdp/common/rewrite_helpers.h\<close>, which change a packet in place: popping and
  pushing a VLAN tag, swapping addresses. \<open>bpf_xdp_adjust_head\<close> is the parameter \<open>adj\<close>: it takes
  the packet and the number of bytes to cut off in front (negative: to add) and returns a status
  and the packet.
\<close>

type_synonym adjust_head = "u8 list \<Rightarrow> int \<Rightarrow> int \<times> u8 list"

definition vlan_tag_pop :: "adjust_head \<Rightarrow> u8 list \<Rightarrow> nat \<Rightarrow> (int \<times> u8 list) res" where
  "vlan_tag_pop adj m eth =
     rbind (ld16 m (eth + 12)) (\<lambda>h_proto.
       if \<not> proto_is_vlan h_proto then Inr (- 1, m)
       else let vlh = eth + sizeof_ethhdr
            in if past m vlh sizeof_vlan_hdr then Inr (- 1, m)
               else rbind (get_vlan_hdr m vlh) (\<lambda>v.
                    rbind (ldn m eth sizeof_ethhdr) (\<lambda>eth_cpy.
                      case adj m (int sizeof_vlan_hdr) of (rc, m) \<Rightarrow>
                        if rc \<noteq> 0 then Inr (- 1, m)
                        else if past m 0 sizeof_ethhdr then Inr (- 1, m)
                        else rbind (stn m 0 eth_cpy) (\<lambda>m.
                             rbind (st16 m 12 (h_vlan_encapsulated_proto v)) (\<lambda>m.
                               Inr (int (unat (ntohs (h_vlan_TCI v))), m))))))"

definition vlan_tag_push :: "adjust_head \<Rightarrow> u8 list \<Rightarrow> nat \<Rightarrow> int \<Rightarrow> (int \<times> u8 list) res" where
  "vlan_tag_push adj m eth vlid =
     rbind (ldn m eth sizeof_ethhdr) (\<lambda>eth_cpy.
       case adj m (0 - int sizeof_vlan_hdr) of (rc, m) \<Rightarrow>
         if rc \<noteq> 0 then Inr (- 1, m)
         else if past m 0 sizeof_ethhdr then Inr (- 1, m)
         else rbind (stn m 0 eth_cpy) (\<lambda>m.
           if past m sizeof_ethhdr sizeof_vlan_hdr then Inr (- 1, m)
           else rbind (st16 m 14 (htons (word_of_int vlid))) (\<lambda>m.
                rbind (ld16 m 12) (\<lambda>h_proto.
                rbind (st16 m 16 h_proto) (\<lambda>m.
                rbind (st16 m 12 (htons ETH_P_8021Q)) (\<lambda>m.
                  Inr (0, m)))))))"

text \<open>Exchanging two blocks of \<open>n\<close> bytes through a temporary copy.\<close>

definition swap_blocks :: "u8 list \<Rightarrow> nat \<Rightarrow> nat \<Rightarrow> nat \<Rightarrow> u8 list res" where
  "swap_blocks m src dst n =
     rbind (ldn m src n) (\<lambda>tmp.
     rbind (ldn m dst n) (\<lambda>d.
     rbind (stn m src d) (\<lambda>m.
     stn m dst tmp)))"

definition swap_src_dst_mac :: "u8 list \<Rightarrow> nat \<Rightarrow> u8 list res" where
  "swap_src_dst_mac m eth = swap_blocks m (eth + 6) eth 6"

definition swap_src_dst_ipv6 :: "u8 list \<Rightarrow> nat \<Rightarrow> u8 list res" where
  "swap_src_dst_ipv6 m ipv6 = swap_blocks m (ipv6 + 8) (ipv6 + 24) 16"

definition swap_src_dst_ipv4 :: "u8 list \<Rightarrow> nat \<Rightarrow> u8 list res" where
  "swap_src_dst_ipv4 m iphdr = swap_blocks m (iphdr + 12) (iphdr + 16) 4"

section \<open>Lemmas\<close>

text \<open>What \<open>bpf_xdp_adjust_head\<close> does when it succeeds: it cuts bytes off the front of the packet, or
  adds bytes of unspecified content there.\<close>

definition adjust_spec :: "adjust_head \<Rightarrow> bool" where
  "adjust_spec adj \<longleftrightarrow>
     (\<forall>m n. fst (adj m n) = 0 \<longrightarrow>
        (0 \<le> n \<longrightarrow> snd (adj m n) = drop (nat n) m) \<and>
        (n < 0 \<longrightarrow> (\<exists>fill. length fill = nat (- n) \<and> snd (adj m n) = fill @ m)))"

text \<open>A packet is its Ethernet addresses, its protocol and the rest.\<close>

lemma eth_split:
  assumes "in_buf m 0 14"
  obtains macs p0 p1 rest where "m = macs @ [p0, p1] @ rest" "length macs = 12"
proof -
  have "drop 12 m = m ! 12 # m ! 13 # drop 14 m"
    using assms by (simp add: in_buf_def Cons_nth_drop_Suc numeral_eq_Suc)
  then have "m = take 12 m @ [m ! 12, m ! 13] @ drop 14 m"
    by (metis append_Cons append_Nil append_take_drop_id)
  then show thesis using that assms by (simp add: in_buf_def)
qed

lemma push_result:
  assumes "adjust_spec adj" "fst (adj m (- 4)) = 0" "m = macs @ [p0, p1] @ rest" "length macs = 12"
  shows "vlan_tag_push adj m 0 vlid =
     Inr (0, macs @ [0x81, 0x00] @ [hi8 (word_of_int vlid), lo8 (word_of_int vlid)] @ [p0, p1] @ rest)"
proof -
  obtain fill where fill: "length fill = 4" "snd (adj m (- 4)) = fill @ m"
    using assms(1,2) unfolding adjust_spec_def by (metis neg_numeral_less_zero nat_numeral minus_minus)
  then obtain a b c d where f: "fill = [a, b, c, d]"
    by (auto simp: numeral_eq_Suc length_Suc_conv)
  have adj: "adj m (- 4) = (0, fill @ m)" using fill(2) assms(2) by (metis prod.collapse)
  obtain x1 x2 x3 x4 x5 x6 x7 x8 x9 x10 x11 x12 where mac:
    "macs = [x1, x2, x3, x4, x5, x6, x7, x8, x9, x10, x11, x12]"
    using assms(4) by (auto simp: numeral_eq_Suc length_Suc_conv)
  have "hi8 (htons (word_of_int vlid)) = lo8 (word_of_int vlid)"
    "lo8 (htons (word_of_int vlid)) = hi8 (word_of_int vlid)"
    by (metis htons_def hi8_le16 lo8_le16 le16_lo_hi ntohs_le16)+
  moreover have "lo8 (htons ETH_P_8021Q) = 0x81" "hi8 (htons ETH_P_8021Q) = 0" by code_simp+
  ultimately show ?thesis
    unfolding vlan_tag_push_def assms(3) using adj
    by (simp add: mac f assms(3) ldn_def stn_def st16_def ld16_def in_buf_def numeral_eq_Suc)
qed

lemma pop_result:
  assumes "adjust_spec adj" "fst (adj m 4) = 0" "length macs = 12" "proto_is_vlan (le16 t0 t1)"
    and m: "m = macs @ [t0, t1] @ [v0, v1] @ [p0, p1] @ rest"
  shows "vlan_tag_pop adj m 0 = Inr (int (unat (ntohs (le16 v0 v1))), macs @ [p0, p1] @ rest)"
proof -
  have "snd (adj m 4) = drop 4 m"
    using assms(1,2) unfolding adjust_spec_def by (metis nat_numeral zero_le_numeral)
  then have adj: "adj m 4 = (0, drop 4 m)" using assms(2) by (metis prod.collapse)
  obtain x1 x2 x3 x4 x5 x6 x7 x8 x9 x10 x11 x12 where mac:
    "macs = [x1, x2, x3, x4, x5, x6, x7, x8, x9, x10, x11, x12]"
    using assms(3) by (auto simp: numeral_eq_Suc length_Suc_conv)
  show ?thesis
    unfolding vlan_tag_pop_def m using adj assms(4)
    by (simp add: mac m ldn_def stn_def st16_def ld16_def get_vlan_hdr_def in_buf_def numeral_eq_Suc)
qed

lemma swap_blocks_result:
  assumes "length a = n" "length b = n"
  shows "swap_blocks (pre @ a @ mid @ b @ post) (length pre) (length pre + n + length mid) n =
           Inr (pre @ b @ mid @ a @ post)"
    and "swap_blocks (pre @ a @ mid @ b @ post) (length pre + n + length mid) (length pre) n =
           Inr (pre @ b @ mid @ a @ post)"
  using assms by (simp_all add: swap_blocks_def ldn_def stn_def)

text \<open>A buffer with two blocks of \<open>n\<close> bytes that do not overlap.\<close>

lemma two_blocks:
  assumes "i + n \<le> j" "j + n \<le> length (m :: u8 list)"
  obtains pre a mid b post where "m = pre @ a @ mid @ b @ post" "length pre = i" "length a = n" "length b = n"
    "i + n + length mid = j"
proof
  show "m = take i m @ take n (drop i m) @ take (j - i - n) (drop (i + n) m) @ take n (drop j m) @ drop (j + n) m"
  proof -
    have cut: "drop k m = take n (drop k m) @ drop (k + n) m" for k
      using append_take_drop_id [of n "drop k m"] by (simp add: add.commute)
    have "drop i m = take n (drop i m) @ drop (i + n) m" by (rule cut)
    moreover have "drop (i + n) m = take (j - i - n) (drop (i + n) m) @ drop (j - i - n) (drop (i + n) m)"
      by (rule append_take_drop_id [symmetric])
    moreover have "drop (j - i - n) (drop (i + n) m) = drop j m" using assms by simp
    moreover have "drop j m = take n (drop j m) @ drop (j + n) m" by (rule cut)
    ultimately show ?thesis by (metis append_take_drop_id)
  qed
qed (use assms in auto)

section \<open>Properties\<close>

text \<open>Popping the tag that was pushed gives the packet back: on a packet with a complete Ethernet
  header, when the head adjustment succeeds as documented, a tag is inserted behind the addresses
  (protocol 802.1Q, the low 16 bits of the identifier, the old protocol), and popping it returns
  those 16 bits and the original packet, byte for byte.\<close>

theorem vlan_push_pop:
  assumes "adjust_spec adj" "\<And>p. fst (adj p (- 4)) = 0" "\<And>p. fst (adj p 4) = 0"
    and "in_buf m 0 sizeof_ethhdr"
  shows "\<exists>m'. vlan_tag_push adj m 0 vlid = Inr (0, m') \<and> length m' = length m + sizeof_vlan_hdr \<and>
           take 12 m' = take 12 m \<and>
           vlan_tag_pop adj m' 0 = Inr (int (unat (word_of_int vlid :: u16)), m)"
proof -
  obtain macs p0 p1 rest where m: "m = macs @ [p0, p1] @ rest" "length macs = 12"
    using eth_split [OF assms(4)] .
  let ?w = "word_of_int vlid :: u16"
  let ?m = "macs @ [0x81, 0x00] @ [hi8 ?w, lo8 ?w] @ [p0, p1] @ rest"
  have "proto_is_vlan (le16 0x81 0x00)" by code_simp
  then have "vlan_tag_pop adj ?m 0 = Inr (int (unat (ntohs (le16 (hi8 ?w) (lo8 ?w)))), m)"
    using pop_result [OF assms(1) assms(3) m(2)] m(1) by simp
  moreover have "ntohs (le16 (hi8 ?w) (lo8 ?w)) = ?w" by (simp add: ntohs_le16)
  ultimately show ?thesis
    using push_result [OF assms(1,2) m, of vlid] m by auto
qed

text \<open>Cutting and adding as the kernel does it, with zero bytes for the new space.\<close>

definition plain_adjust :: adjust_head where
  "plain_adjust m n = (0, if 0 \<le> n then drop (nat n) m else replicate (nat (- n)) 0 @ m)"

theorem vlan_push_pop_witness:
  "\<exists>m'. vlan_tag_push plain_adjust triple_tagged 0 42 = Inr (0, m') \<and> length m' = length triple_tagged + 4 \<and>
     take 12 m' = take 12 triple_tagged \<and>
     vlan_tag_pop plain_adjust m' 0 = Inr (int (unat (word_of_int 42 :: u16)), triple_tagged)"
  by (rule vlan_push_pop) (auto simp: adjust_spec_def plain_adjust_def in_buf_def triple_tagged_def)

text \<open>Swapping source and destination twice is the identity, for Ethernet, IPv4 and IPv6
  addresses, whenever the header is inside the packet.\<close>

theorem swap_twice:
  shows "(in_buf m e 14 \<longrightarrow> rbind (swap_src_dst_mac m e) (\<lambda>m. swap_src_dst_mac m e) = Inr m) \<and>
         (in_buf m e 20 \<longrightarrow> rbind (swap_src_dst_ipv4 m e) (\<lambda>m. swap_src_dst_ipv4 m e) = Inr m) \<and>
         (in_buf m e 40 \<longrightarrow> rbind (swap_src_dst_ipv6 m e) (\<lambda>m. swap_src_dst_ipv6 m e) = Inr m)"
proof -
  have twice: "rbind (swap_blocks m i j n) (\<lambda>m. swap_blocks m i j n) = Inr m"
    "rbind (swap_blocks m j i n) (\<lambda>m. swap_blocks m j i n) = Inr m"
    if le: "i + n \<le> j" "j + n \<le> length m" for i j n
  proof -
    obtain pre a mid b post where m: "m = pre @ a @ mid @ b @ post" "length pre = i" "length a = n"
      "length b = n" "i + n + length mid = j" using two_blocks [OF le] .
    show "rbind (swap_blocks m i j n) (\<lambda>m. swap_blocks m i j n) = Inr m"
      "rbind (swap_blocks m j i n) (\<lambda>m. swap_blocks m j i n) = Inr m"
      using swap_blocks_result [OF m(3,4), of pre mid post] swap_blocks_result [OF m(4,3), of pre mid post] m
      by auto
  qed
  show ?thesis
    using twice [of e 6 "e + 6"] twice [of "e + 12" 4 "e + 16"] twice [of "e + 8" 16 "e + 24"]
    by (simp add: swap_src_dst_mac_def swap_src_dst_ipv4_def swap_src_dst_ipv6_def in_buf_def)
qed

theorem swap_twice_witness:
  "rbind (swap_src_dst_mac triple_tagged 0) (\<lambda>m. swap_src_dst_mac m 0) = Inr triple_tagged"
proof -
  have "in_buf triple_tagged 0 14" by code_simp
  then show ?thesis using swap_twice [of triple_tagged 0] by simp
qed

end
