(* ===== verification/Jhash.thy ===== *)
theory Jhash
  imports Xdp_Base
begin

text \<open>
  The Jenkins hash of \<open>xdp/headers/jhash.h\<close>: the generic \<open>jhash\<close> over a byte sequence, \<open>jhash2\<close> over
  32-bit words, and the versions for one to three words. Words are loaded in little-endian order;
  a load outside the key is a fault. The loops count a 32-bit length down.
\<close>

type_synonym jstate = "u32 \<times> u32 \<times> u32"

definition rol32 :: "u32 \<Rightarrow> nat \<Rightarrow> u32" where
  "rol32 w shift = push_bit shift w OR drop_bit (nat ((- int shift) mod 32)) w"

definition jhash_mix :: "jstate \<Rightarrow> jstate" where
  "jhash_mix s = (case s of (a, b, c) \<Rightarrow>
     let a = a - c; a = a XOR rol32 c 4; c = c + b;
         b = b - a; b = b XOR rol32 a 6; a = a + c;
         c = c - b; c = c XOR rol32 b 8; b = b + a;
         a = a - c; a = a XOR rol32 c 16; c = c + b;
         b = b - a; b = b XOR rol32 a 19; a = a + c;
         c = c - b; c = c XOR rol32 b 4; b = b + a
     in (a, b, c))"

definition jhash_final :: "jstate \<Rightarrow> jstate" where
  "jhash_final s = (case s of (a, b, c) \<Rightarrow>
     let c = c XOR b; c = c - rol32 b 14;
         a = a XOR c; a = a - rol32 c 11;
         b = b XOR a; b = b - rol32 a 25;
         c = c XOR b; c = c - rol32 b 16;
         a = a XOR c; a = a - rol32 c 4;
         b = b XOR a; b = b - rol32 a 14;
         c = c XOR b; c = c - rol32 b 24
     in (a, b, c))"

definition JHASH_INITVAL :: u32 where "JHASH_INITVAL = 0xdeadbeef"

section \<open>Hashing bytes\<close>

function jhash_loop :: "u8 list \<Rightarrow> nat \<Rightarrow> u32 \<Rightarrow> jstate \<Rightarrow> (nat \<times> u32 \<times> jstate) res" where
  "jhash_loop m k len s =
     (if len > 12 then
        rbind (ld32 m k) (\<lambda>x. rbind (ld32 m (k + 4)) (\<lambda>y. rbind (ld32 m (k + 8)) (\<lambda>z.
          jhash_loop m (k + 12) (len - 12)
            (case s of (a, b, c) \<Rightarrow> jhash_mix (a + x, b + y, c + z)))))
      else Inr (k, len, s))"
  by pat_completeness auto

lemma unat_minus_less: "d < (len :: u32) \<Longrightarrow> 0 < d \<Longrightarrow> unat (len - d) < unat len"
  by (simp add: unat_sub word_less_nat_alt word_le_nat_alt)

termination jhash_loop
  by (relation "measure (\<lambda>(m, k, len, s). unat len)") (auto simp: unat_minus_less)

declare jhash_loop.simps [simp del]

text \<open>One case of the switch: byte \<open>i\<close> of the last block, shifted, when the block is longer.\<close>

definition tail_byte :: "u8 list \<Rightarrow> nat \<Rightarrow> u32 \<Rightarrow> nat \<Rightarrow> nat \<Rightarrow> u32 res" where
  "tail_byte m k len i sh =
     (if i < unat len then rbind (ld8 m (k + i)) (\<lambda>x. Inr (push_bit sh (ucast x))) else Inr 0)"

definition jhash_tail :: "u8 list \<Rightarrow> nat \<Rightarrow> u32 \<Rightarrow> jstate \<Rightarrow> u32 res" where
  "jhash_tail m k len s = (case s of (a, b, c) \<Rightarrow>
     rbind (tail_byte m k len 11 24) (\<lambda>c3. rbind (tail_byte m k len 10 16) (\<lambda>c2.
     rbind (tail_byte m k len 9 8) (\<lambda>c1. rbind (tail_byte m k len 8 0) (\<lambda>c0.
     rbind (tail_byte m k len 7 24) (\<lambda>b3. rbind (tail_byte m k len 6 16) (\<lambda>b2.
     rbind (tail_byte m k len 5 8) (\<lambda>b1. rbind (tail_byte m k len 4 0) (\<lambda>b0.
     rbind (tail_byte m k len 3 24) (\<lambda>a3. rbind (tail_byte m k len 2 16) (\<lambda>a2.
     rbind (tail_byte m k len 1 8) (\<lambda>a1. rbind (tail_byte m k len 0 0) (\<lambda>a0.
       let s = (a + a3 + a2 + a1 + a0, b + b3 + b2 + b1 + b0, c + c3 + c2 + c1 + c0);
           s = (if len = 0 then s else jhash_final s)
       in Inr (case s of (a, b, c) \<Rightarrow> c))))))))))))))"

definition jhash :: "u8 list \<Rightarrow> u32 \<Rightarrow> u32 \<Rightarrow> u32 res" where
  "jhash key len initval =
     (let i = JHASH_INITVAL + len + initval
      in rbind (jhash_loop key 0 len (i, i, i)) (\<lambda>(k, len, s). jhash_tail key k len s))"

section \<open>Hashing words\<close>

definition ldw :: "u32 list \<Rightarrow> nat \<Rightarrow> u32 res" where
  "ldw k i = (if i < length k then Inr (k ! i) else Inl OutOfBounds)"

function jhash2_loop :: "u32 list \<Rightarrow> nat \<Rightarrow> u32 \<Rightarrow> jstate \<Rightarrow> (nat \<times> u32 \<times> jstate) res" where
  "jhash2_loop key k len s =
     (if len > 3 then
        rbind (ldw key k) (\<lambda>x. rbind (ldw key (k + 1)) (\<lambda>y. rbind (ldw key (k + 2)) (\<lambda>z.
          jhash2_loop key (k + 3) (len - 3)
            (case s of (a, b, c) \<Rightarrow> jhash_mix (a + x, b + y, c + z)))))
      else Inr (k, len, s))"
  by pat_completeness auto

termination jhash2_loop
  by (relation "measure (\<lambda>(m, k, len, s). unat len)") (auto simp: unat_minus_less)

declare jhash2_loop.simps [simp del]

definition tail_word :: "u32 list \<Rightarrow> nat \<Rightarrow> u32 \<Rightarrow> nat \<Rightarrow> u32 res" where
  "tail_word key k len i = (if i < unat len then ldw key (k + i) else Inr 0)"

definition jhash2 :: "u32 list \<Rightarrow> u32 \<Rightarrow> u32 \<Rightarrow> u32 res" where
  "jhash2 key len initval =
     (let i = JHASH_INITVAL + push_bit 2 len + initval
      in rbind (jhash2_loop key 0 len (i, i, i)) (\<lambda>(k, len, s). case s of (a, b, c) \<Rightarrow>
           rbind (tail_word key k len 2) (\<lambda>z. rbind (tail_word key k len 1) (\<lambda>y.
           rbind (tail_word key k len 0) (\<lambda>x.
             let s = (a + x, b + y, c + z); s = (if len = 0 then s else jhash_final s)
             in Inr (case s of (a, b, c) \<Rightarrow> c))))))"

definition jhash_nwords :: "u32 \<Rightarrow> u32 \<Rightarrow> u32 \<Rightarrow> u32 \<Rightarrow> u32" where
  "jhash_nwords a b c initval =
     (case jhash_final (a + initval, b + initval, c + initval) of (a, b, c) \<Rightarrow> c)"

definition jhash_3words :: "u32 \<Rightarrow> u32 \<Rightarrow> u32 \<Rightarrow> u32 \<Rightarrow> u32" where
  "jhash_3words a b c initval = jhash_nwords a b c (initval + JHASH_INITVAL + push_bit 2 3)"

definition jhash_2words :: "u32 \<Rightarrow> u32 \<Rightarrow> u32 \<Rightarrow> u32" where
  "jhash_2words a b initval = jhash_nwords a b 0 (initval + JHASH_INITVAL + push_bit 2 2)"

definition jhash_1word :: "u32 \<Rightarrow> u32 \<Rightarrow> u32" where
  "jhash_1word a initval = jhash_nwords a 0 0 (initval + JHASH_INITVAL + push_bit 2 1)"

section \<open>Lemmas\<close>

lemma unat_of_nat_u32: "n < 2 ^ 32 \<Longrightarrow> unat (word_of_nat n :: u32) = n"
  by (simp add: unsigned_of_nat take_bit_nat_eq_self)

lemma of_nat_gt_u32:
  assumes "n < 2 ^ 32" "d < 2 ^ 32"
  shows "word_of_nat n > (word_of_nat d :: u32) \<longleftrightarrow> n > d"
  using assms by (simp add: word_less_nat_alt unat_of_nat_u32)

text \<open>The loops, one round and the end, for a length given as a natural number.\<close>

lemma jhash_loop_nat:
  assumes "n < 2 ^ 32"
  shows "jhash_loop m k (word_of_nat n) s =
     (if n > 12 then
        rbind (ld32 m k) (\<lambda>x. rbind (ld32 m (k + 4)) (\<lambda>y. rbind (ld32 m (k + 8)) (\<lambda>z.
          jhash_loop m (k + 12) (word_of_nat (n - 12)) (case s of (a, b, c) \<Rightarrow> jhash_mix (a + x, b + y, c + z)))))
      else Inr (k, word_of_nat n, s))"
  using of_nat_gt_u32 [OF assms, of 12] by (subst jhash_loop.simps) (simp add: of_nat_diff)

lemma jhash2_loop_nat:
  assumes "n < 2 ^ 32"
  shows "jhash2_loop m k (word_of_nat n) s =
     (if n > 3 then
        rbind (ldw m k) (\<lambda>x. rbind (ldw m (k + 1)) (\<lambda>y. rbind (ldw m (k + 2)) (\<lambda>z.
          jhash2_loop m (k + 3) (word_of_nat (n - 3)) (case s of (a, b, c) \<Rightarrow> jhash_mix (a + x, b + y, c + z)))))
      else Inr (k, word_of_nat n, s))"
  using of_nat_gt_u32 [OF assms, of 3] by (subst jhash2_loop.simps) (simp add: of_nat_diff)

lemma jhash_loop_ok:
  assumes "n < 2 ^ 32" "k + n \<le> length m"
  shows "\<exists>k' n' s'. jhash_loop m k (word_of_nat n) s = Inr (k', word_of_nat n', s') \<and> n' \<le> 12 \<and> k' + n' = k + n"
  using assms
proof (induction n arbitrary: k s rule: less_induct)
  case (less n)
  show ?case
  proof (cases "n > 12")
    case True
    obtain x y z where "ld32 m k = Inr x" "ld32 m (k + 4) = Inr y" "ld32 m (k + 8) = Inr z"
      using True less.prems ld32_ok by (fastforce simp: in_buf_def)
    moreover have "\<exists>k' n' s'. jhash_loop m (k + 12) (word_of_nat (n - 12)) t = Inr (k', word_of_nat n', s') \<and>
        n' \<le> 12 \<and> k' + n' = k + n" for t
      using less.IH [of "n - 12" "k + 12"] True less.prems by simp
    ultimately show ?thesis using True less.prems(1) by (simp add: jhash_loop_nat)
  next
    case False
    then show ?thesis using less.prems(1) by (cases s) (auto simp: jhash_loop_nat)
  qed
qed

lemma tail_byte_ok:
  assumes "k + n \<le> length m" "n < 2 ^ 32"
  shows "\<exists>x. tail_byte m k (word_of_nat n) i sh = Inr x"
  using assms by (simp add: tail_byte_def ld8_def unat_of_nat_u32)

lemma jhash_tail_ok:
  assumes "k + n \<le> length m" "n < 2 ^ 32"
  shows "\<exists>h. jhash_tail m k (word_of_nat n) s = Inr h"
proof -
  obtain B where "\<And>i sh. tail_byte m k (word_of_nat n) i sh = Inr (B i sh)"
    using tail_byte_ok [OF assms] by metis
  then show ?thesis by (simp add: jhash_tail_def Let_def split: prod.split)
qed

text \<open>The bytes of a word, added up at their positions, are the word.\<close>

lemma bytes_sum:
  "push_bit 24 (ucast (ucast (drop_bit 24 w) :: u8)) + push_bit 16 (ucast (ucast (drop_bit 16 w) :: u8)) +
   push_bit 8 (ucast (ucast (drop_bit 8 w) :: u8)) + ucast (ucast w :: u8) = (w :: u32)"
proof -
  let ?b = "\<lambda>i. ucast (ucast (drop_bit i w) :: u8) :: u32"
  have "push_bit 24 (?b 24) + push_bit 16 (?b 16) = push_bit 24 (?b 24) OR push_bit 16 (?b 16)"
    by (rule disjunctive_add) (auto simp: bit_simps)
  moreover have "(push_bit 24 (?b 24) OR push_bit 16 (?b 16)) + push_bit 8 (?b 8) =
      push_bit 24 (?b 24) OR push_bit 16 (?b 16) OR push_bit 8 (?b 8)"
    by (subst disjunctive_add) (auto simp: bit_simps or.assoc)
  moreover have "(push_bit 24 (?b 24) OR push_bit 16 (?b 16) OR push_bit 8 (?b 8)) + ?b 0 =
      push_bit 24 (?b 24) OR push_bit 16 (?b 16) OR push_bit 8 (?b 8) OR ?b 0"
    by (subst disjunctive_add) (auto simp: bit_simps or.assoc)
  ultimately show ?thesis
    using le32_bytes32 [of w] by (simp add: le32_def or.commute or.left_commute)
qed

text \<open>An array of words as the bytes of memory.\<close>

definition word_bytes :: "u32 list \<Rightarrow> u8 list" where
  "word_bytes ws = concat (List.map bytes32 ws)"

lemma length_word_bytes [simp]: "length (word_bytes ws) = 4 * length ws"
  by (induction ws) (simp_all add: word_bytes_def)

lemma drop_word_bytes: "drop (4 * k) (word_bytes ws) = word_bytes (drop k ws)"
proof (induction ws arbitrary: k)
  case (Cons w ws)
  then show ?case by (cases k) (simp_all add: word_bytes_def)
qed (simp add: word_bytes_def)

lemma word_bytes_nth:
  assumes "i < length ws" "j < 4"
  shows "word_bytes ws ! (4 * i + j) = bytes32 (ws ! i) ! j"
proof -
  have "word_bytes ws ! (4 * i + j) = drop (4 * i) (word_bytes ws) ! j"
    using assms(1) by (subst nth_drop) simp_all
  also have "\<dots> = word_bytes (drop i ws) ! j" by (simp add: drop_word_bytes)
  also have "\<dots> = bytes32 (ws ! i) ! j"
    using assms by (simp add: word_bytes_def nth_append flip: Cons_nth_drop_Suc)
  finally show ?thesis .
qed

lemma ld32_word_bytes:
  assumes "i < length ws"
  shows "ld32 (word_bytes ws) (4 * i) = Inr (ws ! i)"
proof -
  have "take 4 (drop (4 * i) (word_bytes ws)) = bytes32 (ws ! i)"
    unfolding drop_word_bytes Cons_nth_drop_Suc [OF assms, symmetric] by (simp add: word_bytes_def)
  then show ?thesis
    using assms by (simp add: ld32_def ldn_def bytes32_def byte_simps)
qed

text \<open>The two loops run in step, four bytes for a word.\<close>

lemma loops_in_step:
  assumes "n < 2 ^ 30" "k + n \<le> length ws"
  shows "\<exists>k' n' s'. jhash2_loop ws k (word_of_nat n) s = Inr (k', word_of_nat n', s') \<and>
           jhash_loop (word_bytes ws) (4 * k) (word_of_nat (4 * n)) s = Inr (4 * k', word_of_nat (4 * n'), s') \<and>
           n' \<le> 3 \<and> k' + n' = k + n"
  using assms
proof (induction n arbitrary: k s rule: less_induct)
  case (less n)
  have n: "n < 2 ^ 32" "4 * n < 2 ^ 32" using less.prems(1) by simp_all
  show ?case
  proof (cases "n > 3")
    case True
    let ?t = "case s of (a, b, c) \<Rightarrow> jhash_mix (a + ws ! k, b + ws ! (k + 1), c + ws ! (k + 2))"
    have "jhash2_loop ws k (word_of_nat n) s = jhash2_loop ws (k + 3) (word_of_nat (n - 3)) ?t"
      using True less.prems(2) by (simp add: jhash2_loop_nat [OF n(1)] ldw_def)
    moreover have "jhash_loop (word_bytes ws) (4 * k) (word_of_nat (4 * n)) s =
        jhash_loop (word_bytes ws) (4 * (k + 3)) (word_of_nat (4 * (n - 3))) ?t"
    proof -
      have "ld32 (word_bytes ws) (4 * k) = Inr (ws ! k)"
        "ld32 (word_bytes ws) (4 * k + 4) = Inr (ws ! (k + 1))"
        "ld32 (word_bytes ws) (4 * k + 8) = Inr (ws ! (k + 2))"
        using ld32_word_bytes [of k ws] ld32_word_bytes [of "k + 1" ws] ld32_word_bytes [of "k + 2" ws]
          True less.prems(2) by (simp_all add: algebra_simps)
      then show ?thesis
        using True by (subst jhash_loop_nat [OF n(2)]) (simp add: algebra_simps)
    qed
    ultimately show ?thesis
      using less.IH [of "n - 3" "k + 3" ?t] True less.prems by simp
  next
    case False
    then have "jhash2_loop ws k (word_of_nat n) s = Inr (k, word_of_nat n, s)"
      "jhash_loop (word_bytes ws) (4 * k) (word_of_nat (4 * n)) s = Inr (4 * k, word_of_nat (4 * n), s)"
      using jhash2_loop_nat [OF n(1), of ws k s] jhash_loop_nat [OF n(2), of "word_bytes ws" "4 * k" s] by simp_all
    then show ?thesis using False by (metis linorder_not_less)
  qed
qed

lemma tail_bytes_word:
  assumes "k + n \<le> length ws" "n \<le> 3" "j < n"
  shows "tail_byte (word_bytes ws) (4 * k) (word_of_nat (4 * n)) (4 * j) sh0 = Inr (push_bit sh0 (ucast (ucast (ws ! (k + j)) :: u8)))"
    "tail_byte (word_bytes ws) (4 * k) (word_of_nat (4 * n)) (4 * j + 1) sh1 = Inr (push_bit sh1 (ucast (ucast (drop_bit 8 (ws ! (k + j))) :: u8)))"
    "tail_byte (word_bytes ws) (4 * k) (word_of_nat (4 * n)) (4 * j + 2) sh2 = Inr (push_bit sh2 (ucast (ucast (drop_bit 16 (ws ! (k + j))) :: u8)))"
    "tail_byte (word_bytes ws) (4 * k) (word_of_nat (4 * n)) (4 * j + 3) sh3 = Inr (push_bit sh3 (ucast (ucast (drop_bit 24 (ws ! (k + j))) :: u8)))"
proof -
  have u: "unat (word_of_nat (4 * n) :: u32) = 4 * n" using assms(2) by (intro unat_of_nat_u32) simp
  have b: "ld8 (word_bytes ws) (4 * k + (4 * j + r)) = Inr (bytes32 (ws ! (k + j)) ! r)" if "r < 4" for r
  proof -
    have "4 * k + (4 * j + r) = 4 * (k + j) + r" by simp
    then show ?thesis
      using word_bytes_nth [of "k + j" ws r] that assms by (simp add: ld8_def add.assoc)
  qed
  show "tail_byte (word_bytes ws) (4 * k) (word_of_nat (4 * n)) (4 * j) sh0 = Inr (push_bit sh0 (ucast (ucast (ws ! (k + j)) :: u8)))"
    "tail_byte (word_bytes ws) (4 * k) (word_of_nat (4 * n)) (4 * j + 1) sh1 = Inr (push_bit sh1 (ucast (ucast (drop_bit 8 (ws ! (k + j))) :: u8)))"
    "tail_byte (word_bytes ws) (4 * k) (word_of_nat (4 * n)) (4 * j + 2) sh2 = Inr (push_bit sh2 (ucast (ucast (drop_bit 16 (ws ! (k + j))) :: u8)))"
    "tail_byte (word_bytes ws) (4 * k) (word_of_nat (4 * n)) (4 * j + 3) sh3 = Inr (push_bit sh3 (ucast (ucast (drop_bit 24 (ws ! (k + j))) :: u8)))"
    using b [of 0] b [of 1] b [of 2] b [of 3] assms(3) unfolding tail_byte_def u
    by (simp_all add: bytes32_def)
qed

text \<open>The sum of the four bytes of word \<open>j\<close> of the last block: the word, or nothing.\<close>

lemma tail_word_bytes:
  assumes "k + n \<le> length ws" "n \<le> 3" "j \<le> 2"
  obtains b0 b1 b2 b3 w where
    "tail_byte (word_bytes ws) (4 * k) (word_of_nat (4 * n)) (4 * j) 0 = Inr b0"
    "tail_byte (word_bytes ws) (4 * k) (word_of_nat (4 * n)) (4 * j + 1) 8 = Inr b1"
    "tail_byte (word_bytes ws) (4 * k) (word_of_nat (4 * n)) (4 * j + 2) 16 = Inr b2"
    "tail_byte (word_bytes ws) (4 * k) (word_of_nat (4 * n)) (4 * j + 3) 24 = Inr b3"
    "tail_word ws k (word_of_nat n) j = Inr w" "\<And>x. x + b3 + b2 + b1 + b0 = x + w"
proof (cases "j < n")
  case True
  have "x + push_bit 24 (ucast (ucast (drop_bit 24 w) :: u8)) + push_bit 16 (ucast (ucast (drop_bit 16 w) :: u8)) +
     push_bit 8 (ucast (ucast (drop_bit 8 w) :: u8)) + push_bit 0 (ucast (ucast w :: u8)) = x + (w :: u32)" for x w
    using bytes_sum [of w] by (simp add: add.assoc)
  moreover have "tail_word ws k (word_of_nat n) j = Inr (ws ! (k + j))"
    using True assms by (simp add: tail_word_def ldw_def unat_of_nat_u32)
  ultimately show thesis using that tail_bytes_word [OF assms(1,2) True] by blast
next
  case False
  have "unat (word_of_nat (4 * n) :: u32) = 4 * n" "unat (word_of_nat n :: u32) = n"
    using assms(2) by (simp_all add: unat_of_nat_u32 del: of_nat_mult)
  then have "tail_byte (word_bytes ws) (4 * k) (word_of_nat (4 * n)) (4 * j + r) sh = Inr 0"
    "tail_word ws k (word_of_nat n) j = Inr 0" for r sh
    using False by (simp_all add: tail_byte_def tail_word_def del: of_nat_mult)
  from this(1) [of 0 0] this(1) [of 1 8] this(1) [of 2 16] this(1) [of 3 24] this(2)
  show thesis using that [of 0 0 0 0 0] by simp
qed

section \<open>Properties\<close>

text \<open>Bounds of the byte hash: a key of \<open>n\<close> bytes inside the buffer is hashed without reading
  outside it, for every length of 32 bits.\<close>

theorem jhash_in_bounds:
  assumes "n < 2 ^ 32" "n \<le> length key"
  shows "\<exists>h. jhash key (word_of_nat n) initval = Inr h"
proof -
  let ?i = "JHASH_INITVAL + word_of_nat n + initval"
  obtain k' n' s' where "jhash_loop key 0 (word_of_nat n) (?i, ?i, ?i) = Inr (k', word_of_nat n', s')"
    "n' \<le> 12" "k' + n' = 0 + n"
    using jhash_loop_ok [OF assms(1), of 0 key "(?i, ?i, ?i)"] assms(2) by auto
  then show ?thesis
    using jhash_tail_ok [of k' n' key s'] assms(2) by (simp add: jhash_def)
qed

theorem jhash_in_bounds_witness: "\<exists>h. jhash (replicate 13 7) (word_of_nat 13) 0 = Inr h"
  by (rule jhash_in_bounds) simp_all

text \<open>C29. The word hash is the byte hash: on a little-endian machine \<open>jhash2\<close> of \<open>n\<close> words gives the
  same value as \<open>jhash\<close> of the \<open>4 n\<close> bytes they occupy.\<close>

theorem jhash2_is_jhash:
  assumes "n < 2 ^ 30" "n \<le> length ws"
  shows "jhash2 ws (word_of_nat n) initval = jhash (word_bytes ws) (word_of_nat (4 * n)) initval"
proof -
  let ?i = "JHASH_INITVAL + word_of_nat (4 * n) + initval"
  have i: "JHASH_INITVAL + push_bit 2 (word_of_nat n) + initval = ?i"
    by (simp add: push_bit_eq_mult mult.commute)
  obtain k' n' a b c where L: "jhash2_loop ws 0 (word_of_nat n) (?i, ?i, ?i) = Inr (k', word_of_nat n', (a, b, c))"
    "jhash_loop (word_bytes ws) 0 (word_of_nat (4 * n)) (?i, ?i, ?i) = Inr (4 * k', word_of_nat (4 * n'), (a, b, c))"
    "n' \<le> 3" "k' + n' = n"
    using loops_in_step [of n 0 ws "(?i, ?i, ?i)"] assms by (metis add_0 mult_0_right prod_cases3)
  have le: "k' + n' \<le> length ws" using L(4) assms(2) by simp
  have z: "word_of_nat (4 * n') = (0 :: u32) \<longleftrightarrow> n' = 0" "word_of_nat n' = (0 :: u32) \<longleftrightarrow> n' = 0"
    using unat_of_nat_u32 [of "4 * n'"] unat_of_nat_u32 [of n'] L(3) by (auto simp del: of_nat_mult)
  obtain a0 a1 a2 a3 x where A: "tail_byte (word_bytes ws) (4 * k') (word_of_nat (4 * n')) (4 * 0) 0 = Inr a0"
    "tail_byte (word_bytes ws) (4 * k') (word_of_nat (4 * n')) (4 * 0 + 1) 8 = Inr a1"
    "tail_byte (word_bytes ws) (4 * k') (word_of_nat (4 * n')) (4 * 0 + 2) 16 = Inr a2"
    "tail_byte (word_bytes ws) (4 * k') (word_of_nat (4 * n')) (4 * 0 + 3) 24 = Inr a3"
    "tail_word ws k' (word_of_nat n') 0 = Inr x" "\<And>y. y + a3 + a2 + a1 + a0 = y + x"
    using tail_word_bytes [OF le L(3), of 0] by blast
  obtain b0 b1 b2 b3 y where B: "tail_byte (word_bytes ws) (4 * k') (word_of_nat (4 * n')) (4 * 1) 0 = Inr b0"
    "tail_byte (word_bytes ws) (4 * k') (word_of_nat (4 * n')) (4 * 1 + 1) 8 = Inr b1"
    "tail_byte (word_bytes ws) (4 * k') (word_of_nat (4 * n')) (4 * 1 + 2) 16 = Inr b2"
    "tail_byte (word_bytes ws) (4 * k') (word_of_nat (4 * n')) (4 * 1 + 3) 24 = Inr b3"
    "tail_word ws k' (word_of_nat n') 1 = Inr y" "\<And>x. x + b3 + b2 + b1 + b0 = x + y"
    using tail_word_bytes [OF le L(3), of 1] by (metis one_le_numeral)
  obtain c0 c1 c2 c3 z' where C: "tail_byte (word_bytes ws) (4 * k') (word_of_nat (4 * n')) (4 * 2) 0 = Inr c0"
    "tail_byte (word_bytes ws) (4 * k') (word_of_nat (4 * n')) (4 * 2 + 1) 8 = Inr c1"
    "tail_byte (word_bytes ws) (4 * k') (word_of_nat (4 * n')) (4 * 2 + 2) 16 = Inr c2"
    "tail_byte (word_bytes ws) (4 * k') (word_of_nat (4 * n')) (4 * 2 + 3) 24 = Inr c3"
    "tail_word ws k' (word_of_nat n') 2 = Inr z'" "\<And>x. x + c3 + c2 + c1 + c0 = x + z'"
    using tail_word_bytes [OF le L(3), of 2] by blast
  have "jhash_tail (word_bytes ws) (4 * k') (word_of_nat (4 * n')) (a, b, c) =
      Inr (case (if n' = 0 then (a + x, b + y, c + z') else jhash_final (a + x, b + y, c + z')) of (a, b, c) \<Rightarrow> c)"
    using A B C z(1)
    by (cases "n' = 0") (simp_all add: jhash_tail_def numeral_2_eq_2 add.assoc del: of_nat_mult)
  moreover have "jhash2 ws (word_of_nat n) initval =
      Inr (case (if n' = 0 then (a + x, b + y, c + z') else jhash_final (a + x, b + y, c + z')) of (a, b, c) \<Rightarrow> c)"
    unfolding jhash2_def i Let_def using L(1) A(5) B(5) C(5) z(2) by (simp del: of_nat_mult)
  ultimately show ?thesis
    unfolding jhash_def Let_def using L(2) by (simp del: of_nat_mult)
qed

theorem jhash2_is_jhash_witness:
  "jhash2 [1, 2, 3, 4, 5] (word_of_nat 5) 9 = jhash (word_bytes [1, 2, 3, 4, 5]) (word_of_nat (4 * 5)) 9"
  by (rule jhash2_is_jhash) simp_all

text \<open>The versions for one, two and three words are \<open>jhash2\<close> of arrays of that length.\<close>

theorem jhash_words_are_jhash2:
  "jhash2 [a, b, c] 3 i = Inr (jhash_3words a b c i) \<and> jhash2 [a, b] 2 i = Inr (jhash_2words a b i) \<and>
   jhash2 [a] 1 i = Inr (jhash_1word a i)"
proof -
  have u: "unat (3 :: u32) = 3" "unat (2 :: u32) = 2" "unat (1 :: u32) = 1" by simp_all
  have z: "(3 :: u32) \<noteq> 0" "(2 :: u32) \<noteq> 0" "(1 :: u32) \<noteq> 0" by code_simp+
  have g: "\<not> (3 :: u32) > 3" "\<not> (2 :: u32) > 3" "\<not> (1 :: u32) > 3" by simp_all
  have l: "jhash2_loop key 0 3 s = Inr (0, 3, s)" "jhash2_loop key 0 2 s = Inr (0, 2, s)"
    "jhash2_loop key 0 1 s = Inr (0, 1, s)" for key s
    using g by (simp_all add: jhash2_loop.simps [of key 0 3] jhash2_loop.simps [of key 0 2] jhash2_loop.simps [of key 0 1])
  have c: "JHASH_INITVAL + x + i + y = y + (i + JHASH_INITVAL + x)" for x y by (simp add: ac_simps)
  have p: "(push_bit 2 3 :: u32) = 12" "(push_bit 2 2 :: u32) = 8" "(push_bit 2 1 :: u32) = 4" by simp_all
  have init: "JHASH_INITVAL + d + i = i + JHASH_INITVAL + d" for d by (simp add: ac_simps)
  show ?thesis
    unfolding jhash2_def l jhash_3words_def jhash_2words_def jhash_1word_def jhash_nwords_def p Let_def init
      rbind_Inr split tail_word_def u ldw_def
    using z by (simp add: add.commute)
qed

end
