(* ===== verification/C_String.thy ===== *)
theory C_String
  imports NewIP_Base
begin

text \<open>
  What the user-space programs use of the C library's strings. A character array is the list of its
  characters, the terminating NUL included; a string argument is a list without NUL. Reading a
  string out of an array that has no terminator is a fault.
\<close>

abbreviation NUL :: char where "NUL \<equiv> CHR 0x00"

definition c_string :: "string \<Rightarrow> bool" where
  "c_string s \<longleftrightarrow> NUL \<notin> set s"

text \<open>The string that starts at the front of an array.\<close>

fun cstr :: "string \<Rightarrow> string res" where
  "cstr [] = Inl OutOfBounds"
| "cstr (c # cs) = (if c = NUL then Inr [] else rbind (cstr cs) (\<lambda>s. Inr (c # s)))"

definition strlen :: "string \<Rightarrow> nat res" where
  "strlen buf = rbind (cstr buf) (\<lambda>s. Inr (length s))"

definition strncpy :: "string \<Rightarrow> string \<Rightarrow> nat \<Rightarrow> string res" where
  "strncpy dst src n =
     (if n \<le> length dst
      then Inr (take n src @ replicate (n - length src) NUL @ drop n dst)
      else Inl OutOfBounds)"

text \<open>\<open>snprintf\<close> into the first \<open>n\<close> characters of an array, at an offset: the text is cut off so
  that a NUL fits, and the result is the length the whole text has.\<close>

definition snprintf :: "string \<Rightarrow> nat \<Rightarrow> nat \<Rightarrow> string \<Rightarrow> (nat \<times> string) res" where
  "snprintf dst off n s =
     (if n = 0 then Inr (length s, dst)
      else let t = take (n - 1) s @ [NUL]
           in if off + length t \<le> length dst
              then Inr (length s, take off dst @ t @ drop (off + length t) dst)
              else Inl OutOfBounds)"

text \<open>\<open>%-ns\<close>: the text, filled up with spaces on the right.\<close>

definition pad_right :: "nat \<Rightarrow> string \<Rightarrow> string" where
  "pad_right n s = s @ replicate (n - length s) CHR 0x20"

fun skip_spaces :: "string \<Rightarrow> string" where
  "skip_spaces (c # cs) = (if c \<in> {CHR 0x20, CHR 0x09, CHR 0x0A, CHR 0x0B, CHR 0x0C, CHR 0x0D} then skip_spaces cs else c # cs)"
| "skip_spaces [] = []"

fun digits_value :: "int \<Rightarrow> string \<Rightarrow> int" where
  "digits_value a (c # cs) =
     (if 48 \<le> (of_char c :: int) \<and> (of_char c :: int) \<le> 57 then digits_value (10 * a + (of_char c - 48)) cs else a)"
| "digits_value a [] = a"

definition atoi :: "string \<Rightarrow> int" where
  "atoi s = (case skip_spaces s of
       [] \<Rightarrow> 0
     | c # cs \<Rightarrow> if c = CHR ''-'' then - digits_value 0 cs
                 else if c = CHR ''+'' then digits_value 0 cs
                 else digits_value 0 (c # cs))"

section \<open>Lemmas\<close>

lemma cstr_append [simp]: "c_string s \<Longrightarrow> cstr (s @ NUL # r) = Inr s"
  by (induction s) (auto simp: c_string_def)

lemma cstr_no_nul: "NUL \<notin> set buf \<Longrightarrow> cstr buf = Inl OutOfBounds"
  by (induction buf) auto

lemma cstr_ok_iff: "(\<exists>s. cstr buf = Inr s) \<longleftrightarrow> NUL \<in> set buf"
  by (induction buf) (auto simp: res_simps)

lemma cstr_string: "cstr buf = Inr s \<Longrightarrow> c_string s \<and> (\<exists>r. buf = s @ NUL # r)"
  by (induction buf arbitrary: s) (auto simp: res_simps c_string_def split: if_splits)

lemma strncpy_length: "strncpy dst src n = Inr d \<Longrightarrow> length d = length dst"
  by (auto simp: strncpy_def split: if_splits)

lemma strncpy_ok: "n \<le> length dst \<Longrightarrow> \<exists>d. strncpy dst src n = Inr d"
  by (simp add: strncpy_def)

text \<open>A copy that is shorter than the array is a terminated string; one that fills it is not.\<close>

lemma strncpy_terminated:
  assumes "strncpy dst src n = Inr d" "length src < n" "c_string src"
  shows "cstr d = Inr src"
proof -
  have "d = src @ NUL # replicate (n - Suc (length src)) NUL @ drop n dst"
    using assms(1,2) by (auto simp: strncpy_def Suc_diff_Suc[symmetric] replicate_Suc[symmetric] simp del: replicate_Suc split: if_splits)
  then show ?thesis using assms(3) by simp
qed

lemma strncpy_unterminated:
  assumes "strncpy dst src (length dst) = Inr d" "length dst \<le> length src" "c_string src"
  shows "cstr d = Inl OutOfBounds"
proof (rule cstr_no_nul)
  show "NUL \<notin> set d"
    using assms by (auto simp: strncpy_def c_string_def dest: in_set_takeD split: if_splits)
qed

end
