(* ===== verification/User_Params.thy ===== *)
theory User_Params
  imports C_String
begin

text \<open>
  The command line of the user-space programs: \<open>xdp/common/common_defines.h\<close> and
  \<open>common_params.c\<close>. \<open>getopt_long\<close> is a parameter: for the array of options that it is given, the
  list of what its calls return one after the other, an option value with its argument or the fault
  of reading behind the array. \<open>if_nametoindex\<close> is a parameter as well. \<open>exit\<close> is an exit code in the result.
  The text that goes to the standard output is a string.
\<close>

section \<open>The configuration\<close>

text \<open>A pointer field that is NULL or points to the buffer behind it is a truth value.\<close>

record config =
  xdp_flags :: u32
  cfg_ifindex :: int
  ifname :: bool
  ifname_buf :: string
  redirect_ifindex :: int
  redirect_ifname :: bool
  redirect_ifname_buf :: string
  do_unload :: bool
  reuse_maps :: bool
  pin_dir :: string
  filename :: string
  progsec :: string
  src_mac :: string
  dest_mac :: string
  xsk_bind_flags :: u16
  xsk_if_queue :: int
  xsk_poll_mode :: bool

abbreviation (input) IF_NAMESIZE :: nat where "IF_NAMESIZE \<equiv> 16"

definition EXIT_OK :: int where "EXIT_OK = 0"
definition EXIT_FAIL :: int where "EXIT_FAIL = 1"
definition EXIT_FAIL_OPTION :: int where "EXIT_FAIL_OPTION = 2"
definition EXIT_FAIL_XDP :: int where "EXIT_FAIL_XDP = 30"
definition EXIT_FAIL_BPF :: int where "EXIT_FAIL_BPF = 40"

lemmas exit_codes = EXIT_OK_def EXIT_FAIL_def EXIT_FAIL_OPTION_def EXIT_FAIL_XDP_def EXIT_FAIL_BPF_def

definition XDP_FLAGS_UPDATE_IF_NOEXIST :: u32 where "XDP_FLAGS_UPDATE_IF_NOEXIST = 1"
definition XDP_FLAGS_SKB_MODE :: u32 where "XDP_FLAGS_SKB_MODE = 2"
definition XDP_FLAGS_DRV_MODE :: u32 where "XDP_FLAGS_DRV_MODE = 4"
definition XDP_FLAGS_HW_MODE :: u32 where "XDP_FLAGS_HW_MODE = 8"
definition XDP_FLAGS_MODES :: u32 where
  "XDP_FLAGS_MODES = XDP_FLAGS_SKB_MODE OR XDP_FLAGS_DRV_MODE OR XDP_FLAGS_HW_MODE"

definition XDP_COPY :: u16 where "XDP_COPY = 2"
definition XDP_ZEROCOPY :: u16 where "XDP_ZEROCOPY = 4"

lemmas xdp_flag_defs = XDP_FLAGS_UPDATE_IF_NOEXIST_def XDP_FLAGS_SKB_MODE_def XDP_FLAGS_DRV_MODE_def
  XDP_FLAGS_HW_MODE_def XDP_FLAGS_MODES_def XDP_COPY_def XDP_ZEROCOPY_def

section \<open>The options and their table\<close>

record option_wrapper =
  opt_name :: "string option"
  opt_has_arg :: bool
  opt_val :: int
  opt_help :: string
  opt_metavar :: "string option"
  opt_required :: bool

abbreviation (input) BUFSIZE :: nat where "BUFSIZE \<equiv> 30"

text \<open>The line of one option. The remaining room for the second \<open>snprintf\<close> is the difference of two
  integers, converted to an unsigned size: behind the end of the buffer it is out of bounds.\<close>

definition option_line :: "string \<Rightarrow> option_wrapper \<Rightarrow> string res" where
  "option_line name w =
     rbind (snprintf (replicate BUFSIZE NUL) 0 BUFSIZE ('' --'' @ name)) (\<lambda>(pos, buf).
     rbind (case opt_metavar w of
              None \<Rightarrow> Inr buf
            | Some v \<Rightarrow>
                if BUFSIZE < pos then Inl OutOfBounds
                else rbind (snprintf buf pos (BUFSIZE - pos) ('' '' @ v)) (\<lambda>(_, buf). Inr buf)) (\<lambda>buf.
     rbind (cstr buf) (\<lambda>line.
       Inr ((if opt_val w > 64 then '' -'' @ [char_of (nat (opt_val w))] @ '','' else ''    '') @
            pad_right 22 line @ ''  '' @ opt_help w @ [CHR 0x0A]))))"

text \<open>The loops over the options run up to the entry without a name; an array without one is read
  past its end.\<close>

fun print_opts :: "option_wrapper list \<Rightarrow> bool \<Rightarrow> string res" where
  "print_opts [] required = Inl OutOfBounds"
| "print_opts (w # ws) required =
     (case opt_name w of
        None \<Rightarrow> Inr []
      | Some name \<Rightarrow>
          if opt_required w \<noteq> required then print_opts ws required
          else rbind (option_line name w) (\<lambda>l. rbind (print_opts ws required) (\<lambda>r. Inr (l @ r))))"

definition usage :: "string \<Rightarrow> string \<Rightarrow> option_wrapper list \<Rightarrow> bool \<Rightarrow> string res" where
  "usage prog_name doc long_options full_help =
     (let head = ''Usage: '' @ prog_name @ '' [options]'' @ [CHR 0x0A]
      in if \<not> full_help
         then Inr (head @ ''Use --help (or -h) to see full option list.'' @ [CHR 0x0A])
         else rbind (print_opts long_options True) (\<lambda>req.
              rbind (print_opts long_options False) (\<lambda>other.
                Inr (head @ [CHR 0x0A] @ ''DOCUMENTATION:'' @ [CHR 0x0A] @ '' '' @ doc @ [CHR 0x0A] @
                     ''Required options:'' @ [CHR 0x0A] @ req @ [CHR 0x0A] @
                     ''Other options:'' @ [CHR 0x0A] @ other @ [CHR 0x0A]))))"

text \<open>The array that goes to \<open>getopt_long\<close>: \<open>malloc\<close> answers NULL in the first case.\<close>

fun count_options :: "option_wrapper list \<Rightarrow> nat res" where
  "count_options [] = Inl OutOfBounds"
| "count_options (w # ws) =
     (case opt_name w of None \<Rightarrow> Inr 0 | Some _ \<Rightarrow> rbind (count_options ws) (\<lambda>n. Inr (n + 1)))"

definition option_wrappers_to_options ::
    "bool \<Rightarrow> option_wrapper list \<Rightarrow> (int \<times> option_wrapper list) res" where
  "option_wrappers_to_options malloc_ok wrapper =
     rbind (count_options wrapper) (\<lambda>num.
       if \<not> malloc_ok then Inr (- 1, []) else Inr (0, take num wrapper))"

section \<open>Parsing\<close>

text \<open>The result of an option: the program goes to the label \<open>error\<close>, or continues.\<close>

datatype 'a opt_result = Error bool | Continue 'a

definition set_interface :: "(string \<Rightarrow> int) \<Rightarrow> string \<Rightarrow> string \<Rightarrow> (string \<times> int) opt_result res" where
  "set_interface if_nametoindex buf optarg =
     (if IF_NAMESIZE \<le> length optarg then Inr (Error False)
      else rbind (strncpy buf optarg IF_NAMESIZE) (\<lambda>buf.
           rbind (cstr buf) (\<lambda>name.
             let i = if_nametoindex name
             in if i = 0 then Inr (Error False) else Inr (Continue (buf, i)))))"

abbreviation (input) opt :: "char \<Rightarrow> int" where "opt c \<equiv> of_char c"

definition bind_copy :: "config \<Rightarrow> config" where
  "bind_copy cfg = cfg\<lparr>xsk_bind_flags := (xsk_bind_flags cfg AND XDP_ZEROCOPY) OR XDP_COPY\<rparr>"

definition set_mode :: "u32 \<Rightarrow> config \<Rightarrow> config" where
  "set_mode m cfg = cfg\<lparr>xdp_flags := (xdp_flags cfg AND NOT XDP_FLAGS_MODES) OR m\<rparr>"

text \<open>One round of the loop. The state is the configuration and the global \<open>verbose\<close>.\<close>

definition opt_step ::
    "(string \<Rightarrow> int) \<Rightarrow> int \<Rightarrow> string \<Rightarrow> config \<times> bool \<Rightarrow> (config \<times> bool) opt_result res" where
  "opt_step nametoindex o1 optarg s = (case s of (cfg, verbose) \<Rightarrow>
     if o1 = opt CHR ''d'' then
       rbind (set_interface nametoindex (ifname_buf cfg) optarg) (\<lambda>r. (case r of
         Error h \<Rightarrow> Inr (Error h)
       | Continue (buf, i) \<Rightarrow> Inr (Continue (cfg\<lparr>ifname := True, ifname_buf := buf, cfg_ifindex := i\<rparr>, verbose))))
     else if o1 = opt CHR ''r'' then
       rbind (set_interface nametoindex (redirect_ifname_buf cfg) optarg) (\<lambda>r. (case r of
         Error h \<Rightarrow> Inr (Error h)
       | Continue (buf, i) \<Rightarrow> Inr (Continue
           (cfg\<lparr>redirect_ifname := True, redirect_ifname_buf := buf, redirect_ifindex := i\<rparr>, verbose))))
     else if o1 = opt CHR ''A'' then Inr (Continue (set_mode 0 cfg, verbose))
     else if o1 = opt CHR ''S'' then Inr (Continue (bind_copy (set_mode XDP_FLAGS_SKB_MODE cfg), verbose))
     else if o1 = opt CHR ''N'' then Inr (Continue (set_mode XDP_FLAGS_DRV_MODE cfg, verbose))
     else if o1 = 3 then Inr (Continue (set_mode XDP_FLAGS_HW_MODE cfg, verbose))
     else if o1 = opt CHR ''F'' then
       Inr (Continue (cfg\<lparr>xdp_flags := xdp_flags cfg AND NOT XDP_FLAGS_UPDATE_IF_NOEXIST\<rparr>, verbose))
     else if o1 = opt CHR ''M'' then Inr (Continue (cfg\<lparr>reuse_maps := True\<rparr>, verbose))
     else if o1 = opt CHR ''U'' then Inr (Continue (cfg\<lparr>do_unload := True\<rparr>, verbose))
     else if o1 = opt CHR ''p'' then Inr (Continue (cfg\<lparr>xsk_poll_mode := True\<rparr>, verbose))
     else if o1 = opt CHR ''q'' then Inr (Continue (cfg, False))
     else if o1 = opt CHR ''Q'' then Inr (Continue (cfg\<lparr>xsk_if_queue := atoi optarg\<rparr>, verbose))
     else if o1 = 1 then
       rbind (strncpy (filename cfg) optarg 512) (\<lambda>b. Inr (Continue (cfg\<lparr>filename := b\<rparr>, verbose)))
     else if o1 = 2 then
       rbind (strncpy (progsec cfg) optarg 32) (\<lambda>b. Inr (Continue (cfg\<lparr>progsec := b\<rparr>, verbose)))
     else if o1 = opt CHR ''L'' then
       rbind (strncpy (src_mac cfg) optarg 18) (\<lambda>b. Inr (Continue (cfg\<lparr>src_mac := b\<rparr>, verbose)))
     else if o1 = opt CHR ''R'' then
       rbind (strncpy (dest_mac cfg) optarg 18) (\<lambda>b. Inr (Continue (bind_copy (cfg\<lparr>dest_mac := b\<rparr>), verbose)))
     else if o1 = opt CHR ''c'' then Inr (Continue (bind_copy cfg, verbose))
     else if o1 = opt CHR ''z'' then
       Inr (Continue (cfg\<lparr>xsk_bind_flags := (xsk_bind_flags cfg AND XDP_COPY) OR XDP_ZEROCOPY\<rparr>, verbose))
     else if o1 = opt CHR ''h'' then Inr (Error True)
     else Inr (Error False))"

text \<open>The loop over what \<open>getopt_long\<close> returns. An exit gives the exit code and the usage text.\<close>

fun opt_loop ::
    "(string \<Rightarrow> int) \<Rightarrow> option_wrapper list \<Rightarrow> string \<Rightarrow> string \<Rightarrow> (int \<times> string) res list \<Rightarrow> config \<times> bool \<Rightarrow>
     (int \<times> string + config \<times> bool) res" where
  "opt_loop nametoindex wrappers doc prog [] s = Inr (Inr s)"
| "opt_loop nametoindex wrappers doc prog (r # rs) s =
     rbind r (\<lambda>(o1, optarg).
     rbind (opt_step nametoindex o1 optarg s) (\<lambda>r. (case r of
       Continue s \<Rightarrow> opt_loop nametoindex wrappers doc prog rs s
     | Error full_help \<Rightarrow> rbind (usage prog doc wrappers full_help) (\<lambda>t. Inr (Inl (EXIT_FAIL_OPTION, t))))))"

text \<open>\<open>getopt_long\<close> here has the command line and the string of short options already.\<close>

definition parse_cmdline_args ::
    "(string \<Rightarrow> int) \<Rightarrow> bool \<Rightarrow> option_wrapper list \<Rightarrow> string \<Rightarrow> string \<Rightarrow>
     (option_wrapper list \<Rightarrow> (int \<times> string) res list) \<Rightarrow> config \<times> bool \<Rightarrow>
     (int \<times> string + config \<times> bool) res" where
  "parse_cmdline_args nametoindex malloc_ok wrappers doc prog getopt_long s =
     rbind (option_wrappers_to_options malloc_ok wrappers) (\<lambda>(rc, long_options).
       if rc \<noteq> 0 then Inr (Inl (EXIT_FAIL_OPTION, ''Unable to malloc()'' @ [CHR 0x0A]))
       else opt_loop nametoindex wrappers doc prog (getopt_long long_options) s)"

section \<open>Lemmas\<close>

text \<open>What the parser keeps: the sizes of the character arrays, a terminator in the interface names
  that are set, and at most one XDP mode.\<close>

definition config_wf :: "config \<Rightarrow> bool" where
  "config_wf cfg \<longleftrightarrow>
     length (ifname_buf cfg) = IF_NAMESIZE \<and> length (redirect_ifname_buf cfg) = IF_NAMESIZE \<and>
     length (filename cfg) = 512 \<and> length (progsec cfg) = 32 \<and>
     length (src_mac cfg) = 18 \<and> length (dest_mac cfg) = 18 \<and>
     (ifname cfg \<longrightarrow> NUL \<in> set (ifname_buf cfg)) \<and>
     (redirect_ifname cfg \<longrightarrow> NUL \<in> set (redirect_ifname_buf cfg)) \<and>
     xdp_flags cfg AND XDP_FLAGS_MODES \<in> {0, XDP_FLAGS_SKB_MODE, XDP_FLAGS_DRV_MODE, XDP_FLAGS_HW_MODE}"

lemma set_interface_result:
  assumes "length buf = IF_NAMESIZE" "c_string optarg"
  shows "(\<exists>h. set_interface f buf optarg = Inr (Error h)) \<or>
         (\<exists>buf' i. set_interface f buf optarg = Inr (Continue (buf', i)) \<and> length buf' = IF_NAMESIZE \<and>
            cstr buf' = Inr optarg \<and> i = f optarg \<and> i \<noteq> 0)"
proof (cases "IF_NAMESIZE \<le> length optarg")
  case True
  then have "set_interface f buf optarg = Inr (Error False)" by (simp add: set_interface_def)
  then show ?thesis by blast
next
  case False
  obtain b where b: "strncpy buf optarg IF_NAMESIZE = Inr b" using strncpy_ok assms(1) by fastforce
  then have "cstr b = Inr optarg" "length b = 16"
    using strncpy_terminated [OF b _ assms(2)] strncpy_length [OF b] False assms(1) by simp_all
  then show ?thesis using b False by (auto simp: set_interface_def Let_def)
qed

lemma mode_bits:
  "XDP_FLAGS_MODES = 14" "NOT XDP_FLAGS_MODES AND XDP_FLAGS_MODES = 0"
  "NOT XDP_FLAGS_UPDATE_IF_NOEXIST AND XDP_FLAGS_MODES = XDP_FLAGS_MODES"
  by code_simp+

lemma set_mode_mode:
  assumes "m AND XDP_FLAGS_MODES = m"
  shows "xdp_flags (set_mode m cfg) AND XDP_FLAGS_MODES = m"
  using assms by (simp add: set_mode_def bit.conj_disj_distrib2 and.assoc mode_bits)

lemma set_mode_wf:
  assumes "config_wf cfg" "m \<in> {0, XDP_FLAGS_SKB_MODE, XDP_FLAGS_DRV_MODE, XDP_FLAGS_HW_MODE}"
  shows "config_wf (set_mode m cfg)"
proof -
  have "m AND XDP_FLAGS_MODES = m" using assms(2) by (auto simp: xdp_flag_defs)
  then have "xdp_flags (set_mode m cfg) AND XDP_FLAGS_MODES = m" by (rule set_mode_mode)
  then show ?thesis using assms by (simp add: config_wf_def) (simp add: set_mode_def)
qed

lemma bind_copy_wf [simp]: "config_wf (bind_copy cfg) = config_wf cfg"
  by (simp add: bind_copy_def config_wf_def)

lemma force_wf:
  assumes "config_wf cfg"
  shows "config_wf (cfg\<lparr>xdp_flags := xdp_flags cfg AND NOT XDP_FLAGS_UPDATE_IF_NOEXIST\<rparr>)"
proof -
  have "(xdp_flags cfg AND NOT XDP_FLAGS_UPDATE_IF_NOEXIST) AND XDP_FLAGS_MODES = xdp_flags cfg AND XDP_FLAGS_MODES"
    by (simp only: and.assoc mode_bits(3))
  then show ?thesis using assms by (simp add: config_wf_def)
qed

lemma opt_step_wf:
  assumes "config_wf cfg" "c_string optarg"
  shows "(\<exists>h. opt_step f o1 optarg (cfg, v) = Inr (Error h)) \<or>
         (\<exists>cfg' v'. opt_step f o1 optarg (cfg, v) = Inr (Continue (cfg', v')) \<and> config_wf cfg')"
proof -
  have copy: "\<exists>b. strncpy buf optarg (length buf) = Inr b \<and> length b = length buf" for buf
    using strncpy_ok [of "length buf" buf optarg] strncpy_length by fastforce
  have len: "length (filename cfg) = 512" "length (progsec cfg) = 32" "length (src_mac cfg) = 18"
    "length (dest_mac cfg) = 18" "length (ifname_buf cfg) = 16" "length (redirect_ifname_buf cfg) = 16"
    using assms(1) by (simp_all add: config_wf_def)
  have dev: "(\<exists>h. set_interface f buf optarg = Inr (Error h)) \<or>
         (\<exists>buf' i. set_interface f buf optarg = Inr (Continue (buf', i)) \<and> length buf' = 16 \<and> NUL \<in> set buf')"
    if "length buf = 16" for buf
    using set_interface_result [OF that assms(2), of f] cstr_ok_iff by metis
  note C = opt_step_def config_wf_def
  consider "o1 = opt CHR ''d''" | "o1 = opt CHR ''r''"
    | "o1 \<in> {opt CHR ''A'', opt CHR ''S'', opt CHR ''N'', 3, opt CHR ''F''}"
    | "o1 \<in> {1, 2, opt CHR ''L'', opt CHR ''R''}"
    | "o1 \<notin> {opt CHR ''d'', opt CHR ''r'', opt CHR ''A'', opt CHR ''S'', opt CHR ''N'', 3, opt CHR ''F'', 1, 2, opt CHR ''L'', opt CHR ''R''}"
    by blast
  then show ?thesis
  proof cases
    case 1
    then show ?thesis using dev [OF len(5)] assms(1) by (auto simp: C)
  next
    case 2
    then show ?thesis using dev [OF len(6)] assms(1) by (auto simp: C)
  next
    case 3
    have "config_wf (set_mode m cfg)" if "m \<in> {0, XDP_FLAGS_SKB_MODE, XDP_FLAGS_DRV_MODE, XDP_FLAGS_HW_MODE}" for m
      using set_mode_wf [OF assms(1) that] .
    then have wf: "config_wf (set_mode 0 cfg)" "config_wf (set_mode XDP_FLAGS_SKB_MODE cfg)"
      "config_wf (set_mode XDP_FLAGS_DRV_MODE cfg)" "config_wf (set_mode XDP_FLAGS_HW_MODE cfg)" by blast+
    show ?thesis
      using 3 by (elim insertE) (simp_all add: opt_step_def wf force_wf [OF assms(1)])
  next
    case 4
    have upd: "config_wf (cfg\<lparr>filename := b\<rparr>)" if "length b = 512" for b
      using assms(1) that by (simp add: config_wf_def)
    have upd': "config_wf (cfg\<lparr>progsec := b\<rparr>)" if "length b = 32" for b
      using assms(1) that by (simp add: config_wf_def)
    have upd'': "config_wf (cfg\<lparr>src_mac := b\<rparr>)" "config_wf (cfg\<lparr>dest_mac := b\<rparr>)" if "length b = 18" for b
      using assms(1) that by (simp_all add: config_wf_def)
    show ?thesis
      using 4 copy [of "filename cfg"] copy [of "progsec cfg"] copy [of "src_mac cfg"] copy [of "dest_mac cfg"]
        len upd upd' upd'' by (auto simp: opt_step_def)
  next
    case 5
    then show ?thesis using assms(1) by (auto simp: opt_step_def config_wf_def bind_copy_def)
  qed
qed

text \<open>A table of options that can be printed: it is terminated, and its names fit the line buffer.\<close>

fun options_ok :: "option_wrapper list \<Rightarrow> bool" where
  "options_ok [] = False"
| "options_ok (w # ws) =
     (case opt_name w of None \<Rightarrow> True | Some n \<Rightarrow> length n \<le> 27 \<and> options_ok ws)"

lemma option_line_ok:
  assumes "length name \<le> 27"
  shows "\<exists>l. option_line name w = Inr l"
proof -
  let ?s = "'' --'' @ name"
  let ?b = "(take 29 ?s @ [NUL]) @ drop (Suc (min (length ?s) 29)) (replicate BUFSIZE NUL)"
  have b: "snprintf (replicate BUFSIZE NUL) 0 BUFSIZE ?s = Inr (length ?s, ?b)" "length ?b = 30"
    by (auto simp: snprintf_def Let_def min_def)
  have "\<exists>c. (case opt_metavar w of None \<Rightarrow> Inr ?b
      | Some v \<Rightarrow> if BUFSIZE < length ?s then Inl OutOfBounds
                else rbind (snprintf ?b (length ?s) (BUFSIZE - length ?s) ('' '' @ v)) (\<lambda>(_, buf). Inr buf)) = Inr c
      \<and> NUL \<in> set c"
  proof (cases "opt_metavar w")
    case (Some v)
    show ?thesis
    proof (cases "length ?s = 30")
      case False
      then have "length ?s < 30" using assms by simp
      then show ?thesis using Some b(2) by (auto simp: snprintf_def Let_def)
    qed (use Some in \<open>simp add: snprintf_def\<close>)
  qed simp
  then obtain c where c: "(case opt_metavar w of None \<Rightarrow> Inr ?b
      | Some v \<Rightarrow> if BUFSIZE < length ?s then Inl OutOfBounds
                else rbind (snprintf ?b (length ?s) (BUFSIZE - length ?s) ('' '' @ v)) (\<lambda>(_, buf). Inr buf)) = Inr c"
      and "NUL \<in> set c" by blast
  then obtain l where l: "cstr c = Inr l" using cstr_ok_iff by blast
  show ?thesis by (simp only: option_line_def b(1) rbind_Inr prod.case c l) simp
qed

lemma print_opts_ok: "options_ok ws \<Longrightarrow> \<exists>t. print_opts ws r = Inr t"
proof (induction ws)
  case (Cons w ws)
  then show ?case using option_line_ok [of _ w] by (fastforce split: option.splits)
qed simp

lemma usage_ok: "options_ok ws \<Longrightarrow> \<exists>t. usage prog doc ws full_help = Inr t"
  using print_opts_ok [of ws True] print_opts_ok [of ws False] by (auto simp: usage_def Let_def)

lemma count_options_ok:
  "options_ok ws \<Longrightarrow> \<exists>n. count_options ws = Inr n \<and> n < length ws \<and> opt_name (ws ! n) = None \<and>
     (\<forall>w \<in> set (take n ws). opt_name w \<noteq> None)"
proof (induction ws)
  case (Cons w ws)
  show ?case
  proof (cases "opt_name w")
    case (Some n)
    then obtain k where "count_options ws = Inr k" "k < length ws" "opt_name (ws ! k) = None"
      "\<forall>w \<in> set (take k ws). opt_name w \<noteq> None" using Cons by auto
    then show ?thesis using Some by (intro exI [of _ "k + 1"]) auto
  qed simp
qed simp

lemma opt_loop_wf:
  assumes "config_wf cfg" "\<forall>o1 a. Inr (o1, a) \<in> set rs \<longrightarrow> c_string a" "options_ok ws"
  shows "(\<exists>t. opt_loop f ws doc prog rs (cfg, v) = Inr (Inl (EXIT_FAIL_OPTION, t))) \<or>
         (\<exists>cfg' v'. opt_loop f ws doc prog rs (cfg, v) = Inr (Inr (cfg', v')) \<and> config_wf cfg') \<or>
         (\<exists>e. Inl e \<in> set rs \<and> opt_loop f ws doc prog rs (cfg, v) = Inl e)"
  using assms
proof (induction rs arbitrary: cfg v)
  case (Cons r rs)
  show ?case
  proof (cases r)
    case (Inr oa)
    then obtain o1 a where oa: "r = Inr (o1, a)" by (cases oa) simp
    then have "c_string a" using Cons.prems(2) by simp
    from opt_step_wf [OF Cons.prems(1) this, of f o1 v] show ?thesis
    proof (elim disjE exE conjE)
      fix h assume "opt_step f o1 a (cfg, v) = Inr (Error h)"
      moreover obtain t where "usage prog doc ws h = Inr t" using usage_ok [OF Cons.prems(3)] by blast
      ultimately show ?thesis using oa by simp
    next
      fix cfg' v' assume step: "opt_step f o1 a (cfg, v) = Inr (Continue (cfg', v'))" "config_wf cfg'"
      have "\<forall>o1 a. Inr (o1, a) \<in> set rs \<longrightarrow> c_string a" using Cons.prems(2) by simp
      from Cons.IH [OF step(2) this Cons.prems(3), of v'] show ?thesis using step(1) oa by auto
    qed
  qed simp
qed simp

section \<open>Properties\<close>

text \<open>C30. Parsing the command line. Whatever \<open>getopt_long\<close> returns, the parser ends the program with
  the option error code, or returns a configuration whose arrays have their sizes, whose interface
  names are terminated and that selects at most one XDP mode, or stops at a fault of \<open>getopt_long\<close>
  itself, which is given the array that \<open>option_wrappers_to_options\<close> has built (without a
  terminating entry, so such a fault is possible). The parser adds no fault of its own.\<close>

theorem parse_cmdline_wf:
  assumes "config_wf cfg" "options_ok ws" "\<forall>os o1 a. Inr (o1, a) \<in> set (getopt_long os) \<longrightarrow> c_string a"
  shows "(\<exists>t. parse_cmdline_args f m ws doc prog getopt_long (cfg, v) = Inr (Inl (EXIT_FAIL_OPTION, t))) \<or>
         (\<exists>cfg' v'. parse_cmdline_args f m ws doc prog getopt_long (cfg, v) = Inr (Inr (cfg', v')) \<and>
            config_wf cfg') \<or>
         (\<exists>os e. option_wrappers_to_options m ws = Inr (0, os) \<and> Inl e \<in> set (getopt_long os) \<and>
            parse_cmdline_args f m ws doc prog getopt_long (cfg, v) = Inl e)"
proof -
  obtain n where n: "count_options ws = Inr n" using count_options_ok [OF assms(2)] by blast
  have "\<forall>o1 a. Inr (o1, a) \<in> set (getopt_long (take n ws)) \<longrightarrow> c_string a" using assms(3) by blast
  from opt_loop_wf [OF assms(1) this assms(2), of f doc prog v] show ?thesis
    using n by (auto simp: parse_cmdline_args_def option_wrappers_to_options_def)
qed

text \<open>A configuration and a table of options to run the parser on.\<close>

definition config_zero :: config where
  "config_zero = \<lparr>xdp_flags = 0, cfg_ifindex = 0, ifname = False, ifname_buf = replicate 16 NUL,
     redirect_ifindex = 0, redirect_ifname = False, redirect_ifname_buf = replicate 16 NUL,
     do_unload = False, reuse_maps = False, pin_dir = replicate 512 NUL, filename = replicate 512 NUL,
     progsec = replicate 32 NUL, src_mac = replicate 18 NUL, dest_mac = replicate 18 NUL,
     xsk_bind_flags = 0, xsk_if_queue = 0, xsk_poll_mode = False\<rparr>"

definition option_entry :: "string \<Rightarrow> bool \<Rightarrow> int \<Rightarrow> string \<Rightarrow> string option \<Rightarrow> bool \<Rightarrow> option_wrapper" where
  "option_entry name arg v help mv req = \<lparr>opt_name = Some name, opt_has_arg = arg, opt_val = v,
     opt_help = help, opt_metavar = mv, opt_required = req\<rparr>"

definition option_end :: option_wrapper where
  "option_end = \<lparr>opt_name = None, opt_has_arg = False, opt_val = 0, opt_help = [], opt_metavar = None,
     opt_required = False\<rparr>"

lemma config_zero_wf: "config_wf config_zero"
  by (simp add: config_wf_def config_zero_def)

definition sample_options :: "option_wrapper list" where
  "sample_options = [option_entry ''dev'' True (opt CHR ''d'') ''Operate on device'' (Some ''<ifname>'') True,
     option_entry ''force'' False (opt CHR ''F'') ''Force install'' None False, option_end]"

text \<open>Two short options, and a long one that is not in the array.\<close>

definition sample_getopt :: "option_wrapper list \<Rightarrow> (int \<times> string) res list" where
  "sample_getopt os = [Inr (opt CHR ''S'', []), Inr (opt CHR ''d'', ''eth0'')] @
     (if count_options os = Inl OutOfBounds then [Inl OutOfBounds] else [])"

theorem parse_cmdline_wf_witness:
  "parse_cmdline_args (\<lambda>n. 7) True sample_options [] ''xdp'' sample_getopt (config_zero, True) = Inl OutOfBounds \<or>
   (\<exists>r. parse_cmdline_args (\<lambda>n. 7) True sample_options [] ''xdp'' sample_getopt (config_zero, True) = Inr r)"
proof -
  have c: "\<forall>os o1 a. Inr (o1, a) \<in> set (sample_getopt os) \<longrightarrow> c_string a"
    by (auto simp: sample_getopt_def c_string_def split: if_splits)
  have f: "e = OutOfBounds" if "Inl e \<in> set (sample_getopt os)" for os e
    using that by (auto simp: sample_getopt_def split: if_splits)
  have "options_ok sample_options" by (simp add: sample_options_def option_entry_def option_end_def)
  from parse_cmdline_wf [OF config_zero_wf this c, of "\<lambda>n. 7" True "[]" "''xdp''" True] f
  show ?thesis by auto
qed

text \<open>The option \<open>--dest-mac\<close> falls through to the option \<open>-c\<close>: it forces copy mode. And copy mode
  and zero-copy mode are not exclusive: the flag of the other mode is kept where it should be
  cleared, and the other flags are cleared where they should be kept.\<close>

theorem bind_flags_not_exclusive:
  assumes "length (dest_mac cfg) = 18"
  shows "\<exists>cfg'. opt_step f (opt CHR ''R'') mac (cfg, v) = Inr (Continue (cfg', v)) \<and>
           xsk_bind_flags cfg' AND XDP_COPY = XDP_COPY \<and>
           xsk_bind_flags cfg' = (xsk_bind_flags cfg AND XDP_ZEROCOPY) OR XDP_COPY"
proof -
  obtain b where "strncpy (dest_mac cfg) mac 18 = Inr b" using strncpy_ok assms by fastforce
  then show ?thesis
    by (simp add: opt_step_def bind_copy_def bit.conj_disj_distrib2 and.assoc xdp_flag_defs)
qed

theorem bind_flags_not_exclusive_witness:
  "\<exists>cfg'. opt_step (\<lambda>n. 7) (opt CHR ''R'') ''aa:bb'' (config_zero\<lparr>xsk_bind_flags := XDP_ZEROCOPY\<rparr>, True) =
       Inr (Continue (cfg', True)) \<and>
     xsk_bind_flags cfg' = XDP_ZEROCOPY OR XDP_COPY"
  using bind_flags_not_exclusive [of "config_zero\<lparr>xsk_bind_flags := XDP_ZEROCOPY\<rparr>" "\<lambda>n. 7" "''aa:bb''" True]
  by (auto simp: config_zero_def)

text \<open>The option array for \<open>getopt_long\<close> has no terminating entry: every entry of it has a name,
  so the library, which stops at an entry without a name, reads past its end.\<close>

theorem option_array_unterminated:
  assumes "options_ok ws" "option_wrappers_to_options True ws = Inr (rc, os)"
  shows "rc = 0 \<and> (\<forall>w \<in> set os. opt_name w \<noteq> None) \<and> count_options os = Inl OutOfBounds"
proof -
  obtain n where n: "count_options ws = Inr n" "\<forall>w \<in> set (take n ws). opt_name w \<noteq> None"
    using count_options_ok [OF assms(1)] by blast
  have "count_options os = Inl OutOfBounds" if "\<forall>w \<in> set os. opt_name w \<noteq> None" for os
    using that by (induction os) auto
  then show ?thesis using assms(2) n by (auto simp: option_wrappers_to_options_def)
qed

theorem option_array_unterminated_witness:
  "count_options (take 2 sample_options) = Inl OutOfBounds"
proof -
  have ok: "options_ok sample_options" by (simp add: sample_options_def option_entry_def option_end_def)
  have "option_wrappers_to_options True sample_options = Inr (0, take 2 sample_options)" by code_simp
  from option_array_unterminated [OF ok this] show ?thesis by simp
qed

end
