(* ===== verification/User_Link.thy ===== *)
theory User_Link
  imports User_Params
begin

text \<open>
  Loading BPF objects and attaching XDP programs: \<open>xdp/common/common_user_bpf_xdp.c\<close>. The functions
  of libbpf and of the kernel are parameters: a record \<open>L\<close> of operations on a state \<open>'w\<close> that the
  model only passes on. Objects, programs and maps are numbers; NULL is \<open>None\<close>. Messages to the
  error stream are left out.
\<close>

record map_info =
  mi_type :: u32
  mi_id :: u32
  mi_key_size :: u32
  mi_value_size :: u32
  mi_max_entries :: u32

record 'w libbpf =
  set_link_xdp_fd :: "int \<Rightarrow> int \<Rightarrow> u32 \<Rightarrow> 'w \<Rightarrow> int \<times> 'w"
  get_link_xdp_id :: "int \<Rightarrow> u32 \<Rightarrow> 'w \<Rightarrow> int \<times> u32 \<times> 'w"
  prog_load_xattr :: "string \<Rightarrow> int \<Rightarrow> 'w \<Rightarrow> int \<times> nat \<times> 'w"
  object_open :: "string \<Rightarrow> 'w \<Rightarrow> nat option \<times> 'w"
  object_programs :: "nat \<Rightarrow> 'w \<Rightarrow> nat list"
  object_maps :: "nat \<Rightarrow> 'w \<Rightarrow> nat list"
  object_load :: "nat \<Rightarrow> 'w \<Rightarrow> int \<times> 'w"
  object_close :: "nat \<Rightarrow> 'w \<Rightarrow> 'w"
  object_pin_maps :: "nat \<Rightarrow> string \<Rightarrow> 'w \<Rightarrow> int \<times> 'w"
  object_unpin_maps :: "nat \<Rightarrow> string \<Rightarrow> 'w \<Rightarrow> int \<times> 'w"
  find_program :: "nat \<Rightarrow> string \<Rightarrow> 'w \<Rightarrow> nat option"
  program_set_type :: "nat \<Rightarrow> u32 \<Rightarrow> 'w \<Rightarrow> 'w"
  program_set_attach_type :: "nat \<Rightarrow> u32 \<Rightarrow> 'w \<Rightarrow> 'w"
  program_set_ifindex :: "nat \<Rightarrow> int \<Rightarrow> 'w \<Rightarrow> 'w"
  program_title :: "nat \<Rightarrow> 'w \<Rightarrow> string"
  program_fd :: "nat \<Rightarrow> 'w \<Rightarrow> int"
  map_name :: "nat \<Rightarrow> 'w \<Rightarrow> string"
  map_fd :: "nat \<Rightarrow> 'w \<Rightarrow> int"
  map_offload_neutral :: "nat \<Rightarrow> 'w \<Rightarrow> bool"
  map_set_ifindex :: "nat \<Rightarrow> int \<Rightarrow> 'w \<Rightarrow> 'w"
  map_reuse_fd :: "nat \<Rightarrow> int \<Rightarrow> 'w \<Rightarrow> int \<times> 'w"
  map_pin :: "nat \<Rightarrow> string \<Rightarrow> 'w \<Rightarrow> int \<times> 'w"
  obj_get :: "string \<Rightarrow> 'w \<Rightarrow> int \<times> 'w"
  obj_get_info :: "int \<Rightarrow> 'w \<Rightarrow> int \<times> map_info \<times> 'w"
  file_exists :: "string \<Rightarrow> 'w \<Rightarrow> bool"

text \<open>The result of a function that may call \<open>exit\<close>.\<close>

datatype 'a exits = Exit int | Value 'a

abbreviation (input) EEXIST :: int where "EEXIST \<equiv> 17"
abbreviation (input) ENOENT :: int where "ENOENT \<equiv> 2"
abbreviation (input) EINVAL :: int where "EINVAL \<equiv> 22"
abbreviation (input) ENAMETOOLONG :: int where "ENAMETOOLONG \<equiv> 36"
abbreviation (input) PATH_MAX :: nat where "PATH_MAX \<equiv> 4096"
abbreviation (input) BPF_PROG_TYPE_XDP :: u32 where "BPF_PROG_TYPE_XDP \<equiv> 6"

section \<open>Attaching and detaching\<close>

definition other_mode :: "u32 \<Rightarrow> u32" where
  "other_mode flags = (if flags AND XDP_FLAGS_SKB_MODE \<noteq> 0 then XDP_FLAGS_DRV_MODE else XDP_FLAGS_SKB_MODE)"

definition xdp_link_attach :: "'w libbpf \<Rightarrow> int \<Rightarrow> u32 \<Rightarrow> int \<Rightarrow> 'w \<Rightarrow> int \<times> 'w" where
  "xdp_link_attach L ifindex flags prog_fd w =
     (case set_link_xdp_fd L ifindex prog_fd flags w of (err, w) \<Rightarrow>
      case (if err = - EEXIST \<and> flags AND XDP_FLAGS_UPDATE_IF_NOEXIST = 0
            then (case set_link_xdp_fd L ifindex (- 1) ((flags AND NOT XDP_FLAGS_MODES) OR other_mode flags) w of
                    (err, w) \<Rightarrow>
                      if err = 0 then set_link_xdp_fd L ifindex prog_fd flags w else (err, w))
            else (err, w)) of (err, w) \<Rightarrow>
        if err < 0 then (EXIT_FAIL_XDP, w) else (EXIT_OK, w))"

definition xdp_link_detach :: "'w libbpf \<Rightarrow> int \<Rightarrow> u32 \<Rightarrow> u32 \<Rightarrow> 'w \<Rightarrow> int \<times> 'w" where
  "xdp_link_detach L ifindex flags expected_prog_id w =
     (case get_link_xdp_id L ifindex flags w of (err, curr_prog_id, w) \<Rightarrow>
        if err \<noteq> 0 then (EXIT_FAIL_XDP, w)
        else if curr_prog_id = 0 then (EXIT_OK, w)
        else if expected_prog_id \<noteq> 0 \<and> curr_prog_id \<noteq> expected_prog_id then (EXIT_FAIL, w)
        else (case set_link_xdp_fd L ifindex (- 1) flags w of (err, w) \<Rightarrow>
                if err < 0 then (EXIT_FAIL_XDP, w) else (EXIT_OK, w)))"

section \<open>Loading\<close>

definition load_bpf_object_file :: "'w libbpf \<Rightarrow> string \<Rightarrow> int \<Rightarrow> 'w \<Rightarrow> nat option \<times> 'w" where
  "load_bpf_object_file L file ifindex w =
     (case prog_load_xattr L file ifindex w of (err, obj, w) \<Rightarrow>
        if err \<noteq> 0 then (None, w) else (Some obj, w))"

definition open_bpf_object :: "'w libbpf \<Rightarrow> string \<Rightarrow> int \<Rightarrow> 'w \<Rightarrow> nat option \<times> 'w" where
  "open_bpf_object L file ifindex w =
     (case object_open L file w of
        (None, w) \<Rightarrow> (None, w)
      | (Some obj, w) \<Rightarrow>
          let progs = object_programs L obj w;
              w = fold (\<lambda>p w. program_set_ifindex L p ifindex (program_set_type L p BPF_PROG_TYPE_XDP w)) progs w;
              w = fold (\<lambda>m w. if map_offload_neutral L m w then w else map_set_ifindex L m ifindex w)
                    (object_maps L obj w) w
          in if progs = [] then (None, w) else (Some obj, w))"

fun reuse_maps_loop :: "'w libbpf \<Rightarrow> string \<Rightarrow> nat list \<Rightarrow> 'w \<Rightarrow> int \<times> 'w" where
  "reuse_maps_loop L path [] w = (0, w)"
| "reuse_maps_loop L path (m # ms) w =
     (let buf = path @ ''/'' @ map_name L m w
      in if PATH_MAX \<le> length buf then (- ENAMETOOLONG, w)
         else (case obj_get L buf w of (pinned_map_fd, w) \<Rightarrow>
           if pinned_map_fd < 0 then (pinned_map_fd, w)
           else (case map_reuse_fd L m pinned_map_fd w of (err, w) \<Rightarrow>
             if err \<noteq> 0 then (err, w) else reuse_maps_loop L path ms w)))"

definition reuse_maps_of :: "'w libbpf \<Rightarrow> nat option \<Rightarrow> string option \<Rightarrow> 'w \<Rightarrow> int \<times> 'w" where
  "reuse_maps_of L obj path w =
     (case obj of None \<Rightarrow> (- ENOENT, w)
      | Some obj \<Rightarrow> (case path of None \<Rightarrow> (- EINVAL, w)
                     | Some path \<Rightarrow> reuse_maps_loop L path (object_maps L obj w) w))"

definition load_bpf_object_file_reuse_maps ::
    "'w libbpf \<Rightarrow> string \<Rightarrow> int \<Rightarrow> string \<Rightarrow> 'w \<Rightarrow> nat option \<times> 'w" where
  "load_bpf_object_file_reuse_maps L file ifindex dir w =
     (case open_bpf_object L file ifindex w of
        (None, w) \<Rightarrow> (None, w)
      | (Some o1, w) \<Rightarrow>
          (case reuse_maps_of L (Some o1) (Some dir) w of (err, w) \<Rightarrow>
             if err \<noteq> 0 then (None, w)
             else (case object_load L o1 w of (err, w) \<Rightarrow>
                     if err \<noteq> 0 then (None, w) else (Some o1, w))))"

text \<open>After loading: choose the program, by section or the first one, and attach it.\<close>

definition attach_loaded ::
    "'w libbpf \<Rightarrow> config \<Rightarrow> nat \<Rightarrow> 'w \<Rightarrow> ((nat \<times> config) exits \<times> 'w) res" where
  "attach_loaded L cfg obj w =
     rbind (if progsec cfg ! 0 \<noteq> NUL
            then rbind (cstr (progsec cfg)) (\<lambda>sec. Inr (find_program L obj sec w))
            else Inr (case object_programs L obj w of [] \<Rightarrow> None | p # _ \<Rightarrow> Some p)) (\<lambda>prog.
     (case prog of None \<Rightarrow> Inr (Exit EXIT_FAIL_BPF, w)
      | Some p \<Rightarrow>
          rbind (strncpy (progsec cfg) (program_title L p w) 32) (\<lambda>sec.
            if program_fd L p w \<le> 0 then Inr (Exit EXIT_FAIL_BPF, w)
            else (case xdp_link_attach L (cfg_ifindex cfg) (xdp_flags cfg) (program_fd L p w) w of (err, w) \<Rightarrow>
                    if err \<noteq> 0 then Inr (Exit err, w) else Inr (Value (obj, cfg\<lparr>progsec := sec\<rparr>), w)))))"

definition load_bpf_and_xdp_attach ::
    "'w libbpf \<Rightarrow> config \<Rightarrow> 'w \<Rightarrow> ((nat \<times> config) exits \<times> 'w) res" where
  "load_bpf_and_xdp_attach L cfg w =
     (let offload_ifindex = (if xdp_flags cfg AND XDP_FLAGS_HW_MODE \<noteq> 0 then cfg_ifindex cfg else 0)
      in rbind (cstr (filename cfg)) (\<lambda>file.
         rbind (if reuse_maps cfg
                then rbind (cstr (pin_dir cfg)) (\<lambda>dir. Inr (load_bpf_object_file_reuse_maps L file offload_ifindex dir w))
                else Inr (load_bpf_object_file L file offload_ifindex w)) (\<lambda>(obj, w).
         (case obj of None \<Rightarrow> Inr (Exit EXIT_FAIL_BPF, w)
          | Some obj \<Rightarrow> attach_loaded L cfg obj w))))"

section \<open>Names of actions, map checks\<close>

definition XDP_UNKNOWN :: u32 where "XDP_UNKNOWN = 5"
definition XDP_ACTION_MAX_user :: u32 where "XDP_ACTION_MAX_user = XDP_UNKNOWN + 1"

definition xdp_action_names :: "string list" where
  "xdp_action_names = [''XDP_ABORTED'', ''XDP_DROP'', ''XDP_PASS'', ''XDP_TX'', ''XDP_REDIRECT'', ''XDP_UNKNOWN'']"

definition action2str :: "u32 \<Rightarrow> string option" where
  "action2str action = (if action < XDP_ACTION_MAX_user then Some (xdp_action_names ! unat action) else None)"

definition check_map_fd_info :: "map_info \<Rightarrow> map_info \<Rightarrow> int" where
  "check_map_fd_info info exp =
     (if mi_key_size exp \<noteq> 0 \<and> mi_key_size exp \<noteq> mi_key_size info then EXIT_FAIL
      else if mi_value_size exp \<noteq> 0 \<and> mi_value_size exp \<noteq> mi_value_size info then EXIT_FAIL
      else if mi_max_entries exp \<noteq> 0 \<and> mi_max_entries exp \<noteq> mi_max_entries info then EXIT_FAIL
      else if mi_type exp \<noteq> 0 \<and> mi_type exp \<noteq> mi_type info then EXIT_FAIL
      else 0)"

text \<open>The path is cut off at \<open>PATH_MAX - 1\<close> characters. The second component is the \<open>info\<close> argument
  after the call, when the caller passed one.\<close>

definition open_bpf_map_file ::
    "'w libbpf \<Rightarrow> string \<Rightarrow> string \<Rightarrow> map_info option \<Rightarrow> 'w \<Rightarrow> int \<times> map_info option \<times> 'w" where
  "open_bpf_map_file L dir mapname info w =
     (case obj_get L (take (PATH_MAX - 1) (dir @ ''/'' @ mapname)) w of (fd, w) \<Rightarrow>
        if fd < 0 then (fd, info, w)
        else (case info of None \<Rightarrow> (fd, None, w)
              | Some _ \<Rightarrow> (case obj_get_info L fd w of (err, i, w) \<Rightarrow>
                  if err \<noteq> 0 then (EXIT_FAIL_BPF, Some i, w) else (fd, Some i, w))))"

section \<open>The contract of the kernel\<close>

text \<open>The programs attached to an interface, by mode, as seen through an abstraction \<open>P\<close> of the state:
  a failing call changes nothing, a successful one sets or removes the program of the mode it names.
  Asking for the identifier changes nothing.\<close>

definition link_contract :: "'w libbpf \<Rightarrow> ('w \<Rightarrow> int \<Rightarrow> u32 \<Rightarrow> int option) \<Rightarrow> bool" where
  "link_contract L P \<longleftrightarrow>
     (\<forall>i fd flags w. case set_link_xdp_fd L i fd flags w of (err, w') \<Rightarrow>
        err \<le> 0 \<and> (err < 0 \<longrightarrow> P w' = P w) \<and>
        (err = 0 \<longrightarrow> P w' = (P w)(i := (P w i)(flags AND XDP_FLAGS_MODES := (if fd < 0 then None else Some fd))))) \<and>
     (\<forall>i flags w. case get_link_xdp_id L i flags w of (err, curr_id, w') \<Rightarrow> P w' = P w)"

lemma link_contractD:
  assumes "link_contract L P" "set_link_xdp_fd L i fd flags w = (err, w')"
  shows "err \<le> 0" "err < 0 \<Longrightarrow> P w' = P w"
    "err = 0 \<Longrightarrow> P w' = (P w)(i := (P w i)(flags AND XDP_FLAGS_MODES := (if fd < 0 then None else Some fd)))"
  using assms(1) [unfolded link_contract_def, THEN conjunct1, THEN spec [of _ i], THEN spec [of _ fd],
      THEN spec [of _ flags], THEN spec [of _ w]] assms(2) by simp_all

lemma link_contract_get:
  assumes "link_contract L P" "get_link_xdp_id L i flags w = (err, cid, w')"
  shows "P w' = P w"
  using assms(1) [unfolded link_contract_def, THEN conjunct2, THEN spec [of _ i], THEN spec [of _ flags],
      THEN spec [of _ w]] assms(2) by simp

lemma other_flags: "((flags AND NOT XDP_FLAGS_MODES) OR other_mode flags) AND XDP_FLAGS_MODES = other_mode flags"
proof -
  have "other_mode flags AND XDP_FLAGS_MODES = other_mode flags"
    by (simp add: other_mode_def xdp_flag_defs)
  then show ?thesis by (simp add: bit.conj_disj_distrib2 and.assoc mode_bits)
qed

text \<open>The three ways through \<open>xdp_link_attach\<close>: the first call decides; the program of the other mode
  cannot be removed; it is removed and the second attempt decides.\<close>

lemma attach_cases:
  assumes "xdp_link_attach L i flags fd w = (rc, w')"
  obtains (once) err where "set_link_xdp_fd L i fd flags w = (err, w')"
      "rc = (if err < 0 then EXIT_FAIL_XDP else EXIT_OK)"
  | (stuck) w1 err where "flags AND XDP_FLAGS_UPDATE_IF_NOEXIST = 0" "set_link_xdp_fd L i fd flags w = (- EEXIST, w1)"
      "set_link_xdp_fd L i (- 1) ((flags AND NOT XDP_FLAGS_MODES) OR other_mode flags) w1 = (err, w')" "err \<noteq> 0"
      "rc = (if err < 0 then EXIT_FAIL_XDP else EXIT_OK)"
  | (forced) w1 w2 err where "flags AND XDP_FLAGS_UPDATE_IF_NOEXIST = 0"
      "set_link_xdp_fd L i fd flags w = (- EEXIST, w1)"
      "set_link_xdp_fd L i (- 1) ((flags AND NOT XDP_FLAGS_MODES) OR other_mode flags) w1 = (0, w2)"
      "set_link_xdp_fd L i fd flags w2 = (err, w')" "rc = (if err < 0 then EXIT_FAIL_XDP else EXIT_OK)"
proof -
  obtain e1 w1 where s1: "set_link_xdp_fd L i fd flags w = (e1, w1)" by fastforce
  obtain e2 w2 where s2: "set_link_xdp_fd L i (- 1) ((flags AND NOT XDP_FLAGS_MODES) OR other_mode flags) w1 = (e2, w2)"
    by fastforce
  obtain e3 w3 where s3: "set_link_xdp_fd L i fd flags w2 = (e3, w3)" by fastforce
  show thesis
  proof (cases "e1 = - EEXIST \<and> flags AND XDP_FLAGS_UPDATE_IF_NOEXIST = 0")
    case False
    then show thesis using assms s1 once [of e1]
      by (auto simp: xdp_link_attach_def split: if_splits)
  next
    case True
    then have "xdp_link_attach L i flags fd w =
        (if e2 = 0 then (if e3 < 0 then (EXIT_FAIL_XDP, w3) else (EXIT_OK, w3))
         else (if e2 < 0 then (EXIT_FAIL_XDP, w2) else (EXIT_OK, w2)))"
      using s1 s2 s3 by (simp add: xdp_link_attach_def)
    then show thesis
      using assms s1 s2 s3 True stuck [of w1 e2] forced [of w1 w2 e3] by (cases "e2 = 0") (auto split: if_splits)
  qed
qed

lemma attach_installs:
  assumes "link_contract L P" "0 \<le> fd" "xdp_link_attach L i flags fd w = (rc, w')"
  shows "rc = EXIT_OK \<longrightarrow> P w' i (flags AND XDP_FLAGS_MODES) = Some fd"
  using assms(3)
proof (cases rule: attach_cases)
  case (once err)
  then show ?thesis using link_contractD [OF assms(1) once(1)] assms(2) by (cases "err = 0") (auto simp: exit_codes)
next
  case (stuck w1 err)
  then show ?thesis using link_contractD [OF assms(1) stuck(3)] by (auto simp: exit_codes)
next
  case (forced w1 w2 err)
  then show ?thesis using link_contractD [OF assms(1) forced(4)] assms(2) by (cases "err = 0") (auto simp: exit_codes)
qed

section \<open>Properties\<close>

text \<open>What attaching changes, for every kernel that keeps its contract: on success the program is
  the one attached in the requested mode; other interfaces are never touched; another mode of the
  interface loses its program only when the caller forces the replacement; and without force a
  failure changes nothing.\<close>

theorem attach_effect:
  assumes "link_contract L P" "0 \<le> fd" "xdp_link_attach L i flags fd w = (rc, w')"
  shows "(rc = EXIT_OK \<longrightarrow> P w' i (flags AND XDP_FLAGS_MODES) = Some fd) \<and>
     (\<forall>j. j \<noteq> i \<longrightarrow> P w' j = P w j) \<and>
     (\<forall>m. m \<noteq> flags AND XDP_FLAGS_MODES \<and> P w' i m \<noteq> P w i m \<longrightarrow>
        P w' i m = None \<and> flags AND XDP_FLAGS_UPDATE_IF_NOEXIST = 0) \<and>
     (rc \<noteq> EXIT_OK \<and> flags AND XDP_FLAGS_UPDATE_IF_NOEXIST \<noteq> 0 \<longrightarrow> P w' = P w)"
  using assms(3)
proof (cases rule: attach_cases)
  case (once err)
  note D = link_contractD [OF assms(1) once(1)]
  show ?thesis using D once(2) assms(2) by (cases "err = 0") (auto simp: exit_codes)
next
  case (stuck w1 err)
  note D1 = link_contractD [OF assms(1) stuck(2)] and D2 = link_contractD [OF assms(1) stuck(3)]
  have "P w' = P w" "err < 0" using D1 D2 stuck(4) by auto
  then show ?thesis using stuck(5) by (simp add: exit_codes)
next
  case (forced w1 w2 err)
  note D1 = link_contractD [OF assms(1) forced(2)] and D2 = link_contractD [OF assms(1) forced(3)]
    and D3 = link_contractD [OF assms(1) forced(4)]
  have P2: "P w2 = (P w)(i := (P w i)(other_mode flags := None))"
    using D1(2) D2(3) by (simp add: other_flags)
  show ?thesis
  proof (cases "err = 0")
    case True
    then show ?thesis using P2 D3(3) forced(1,5) assms(2) by (auto simp: exit_codes)
  next
    case False
    then have "P w' = P w2" "err < 0" using D3 by auto
    then show ?thesis using P2 forced(1,5) by (auto simp: exit_codes)
  qed
qed

text \<open>A kernel with one program slot per interface and mode, which refuses a program while another
  mode has one.\<close>

type_synonym slots = "int \<Rightarrow> u32 \<Rightarrow> int option"

definition slot_kernel :: "slots libbpf" where
  "slot_kernel = \<lparr>
     set_link_xdp_fd = (\<lambda>i fd flags w. let m = flags AND XDP_FLAGS_MODES in
       if 0 \<le> fd \<and> (\<exists>m' \<in> {0, 2, 4, 8}. m' \<noteq> m \<and> w i m' \<noteq> None) then (- EEXIST, w)
       else if 0 \<le> fd \<and> flags AND XDP_FLAGS_UPDATE_IF_NOEXIST \<noteq> 0 \<and> w i m \<noteq> None then (- 16, w)
       else (0, w(i := (w i)(m := if fd < 0 then None else Some fd)))),
     get_link_xdp_id = (\<lambda>i flags w. (0, case w i (flags AND XDP_FLAGS_MODES) of None \<Rightarrow> 0 | Some fd \<Rightarrow> word_of_int fd, w)),
     prog_load_xattr = (\<lambda>f i w. (0, 1, w)), object_open = (\<lambda>f w. (Some 1, w)),
     object_programs = (\<lambda>o1 w. [1]), object_maps = (\<lambda>o1 w. []), object_load = (\<lambda>o1 w. (0, w)),
     object_close = (\<lambda>o1 w. w), object_pin_maps = (\<lambda>o1 d w. (0, w)), object_unpin_maps = (\<lambda>o1 d w. (0, w)),
     find_program = (\<lambda>o1 t w. Some 1), program_set_type = (\<lambda>p t w. w), program_set_attach_type = (\<lambda>p t w. w),
     program_set_ifindex = (\<lambda>p i w. w), program_title = (\<lambda>p w. ''xdp_router''), program_fd = (\<lambda>p w. 5),
     map_name = (\<lambda>m w. ''map''), map_fd = (\<lambda>m w. 6), map_offload_neutral = (\<lambda>m w. True),
     map_set_ifindex = (\<lambda>m i w. w), map_reuse_fd = (\<lambda>m fd w. (0, w)), map_pin = (\<lambda>m p w. (0, w)),
     obj_get = (\<lambda>p w. (7, w)), obj_get_info = (\<lambda>fd w. (0, \<lparr>mi_type = 6, mi_id = 1, mi_key_size = 4,
       mi_value_size = 16, mi_max_entries = 5\<rparr>, w)), file_exists = (\<lambda>p w. False)\<rparr>"

lemma slot_kernel_contract: "link_contract slot_kernel (\<lambda>w. w)"
  by (auto simp: link_contract_def slot_kernel_def Let_def)

theorem attach_effect_witness:
  "\<exists>w'. xdp_link_attach slot_kernel 3 XDP_FLAGS_DRV_MODE 5 ((\<lambda>i m. None)(3 := [XDP_FLAGS_SKB_MODE \<mapsto> 9])) = (EXIT_OK, w') \<and>
     w' 3 XDP_FLAGS_DRV_MODE = Some 5"
proof -
  let ?w = "(\<lambda>i m. None)(3 := [XDP_FLAGS_SKB_MODE \<mapsto> 9]) :: slots"
  have ok: "fst (xdp_link_attach slot_kernel 3 XDP_FLAGS_DRV_MODE 5 ?w) = EXIT_OK" by code_simp
  obtain rc w' where r: "xdp_link_attach slot_kernel 3 XDP_FLAGS_DRV_MODE 5 ?w = (rc, w')" by fastforce
  have m: "XDP_FLAGS_DRV_MODE AND XDP_FLAGS_MODES = XDP_FLAGS_DRV_MODE" by code_simp
  have "rc = EXIT_OK" using r ok by simp
  moreover have "rc = EXIT_OK \<longrightarrow> w' 3 (XDP_FLAGS_DRV_MODE AND XDP_FLAGS_MODES) = Some 5"
    using attach_effect [OF slot_kernel_contract _ r] by (rule conjunct1) simp
  ultimately show ?thesis using r m by auto
qed

text \<open>Forcing a replacement can leave the interface without any program: when the program of the
  other mode has been removed and the second attempt fails, the function reports an error but the
  old program is gone.\<close>

theorem forced_attach_loses_program:
  assumes "link_contract L P" "0 \<le> fd" "flags AND XDP_FLAGS_UPDATE_IF_NOEXIST = 0"
    and "set_link_xdp_fd L i fd flags w = (- EEXIST, w1)"
    and "set_link_xdp_fd L i (- 1) ((flags AND NOT XDP_FLAGS_MODES) OR other_mode flags) w1 = (0, w2)"
    and "set_link_xdp_fd L i fd flags w2 = (err, w3)" "err < 0"
  shows "xdp_link_attach L i flags fd w = (EXIT_FAIL_XDP, w3) \<and>
     P w3 = (P w)(i := (P w i)(other_mode flags := None))"
  using assms(3-7) link_contractD [OF assms(1) assms(4)] link_contractD [OF assms(1) assms(5)]
    link_contractD [OF assms(1) assms(6)]
  by (simp add: xdp_link_attach_def other_flags)

text \<open>Detaching respects the expected program: when an identifier is given and another program is
  attached, nothing is removed and the result is an error; in any case at most the program of the
  given mode of the given interface is removed.\<close>

theorem detach_effect:
  assumes "link_contract L P" "xdp_link_detach L i flags expected w = (rc, w')"
  shows "(P w' = P w \<or> P w' = (P w)(i := (P w i)(flags AND XDP_FLAGS_MODES := None))) \<and>
     (rc \<noteq> EXIT_OK \<longrightarrow> P w' = P w) \<and>
     (\<forall>cid w1. get_link_xdp_id L i flags w = (0, cid, w1) \<and> expected \<noteq> 0 \<and> cid \<noteq> 0 \<and> cid \<noteq> expected \<longrightarrow>
        rc = EXIT_FAIL \<and> P w' = P w)"
proof -
  obtain err cid w1 where g: "get_link_xdp_id L i flags w = (err, cid, w1)" by (metis prod_cases3)
  then have P1: "P w1 = P w" by (rule link_contract_get [OF assms(1)])
  obtain e2 w2 where s: "set_link_xdp_fd L i (- 1) flags w1 = (e2, w2)" by fastforce
  note D = link_contractD [OF assms(1) s]
  show ?thesis
    using assms(2) g P1 s D by (cases "e2 = 0") (auto simp: xdp_link_detach_def exit_codes split: if_splits)
qed

theorem detach_effect_witness:
  "xdp_link_detach slot_kernel 3 XDP_FLAGS_DRV_MODE 8 ((\<lambda>i m. None)(3 := [XDP_FLAGS_DRV_MODE \<mapsto> 9])) =
     (EXIT_FAIL, (\<lambda>i m. None)(3 := [XDP_FLAGS_DRV_MODE \<mapsto> 9]))"
proof -
  let ?w = "(\<lambda>i m. None)(3 := [XDP_FLAGS_DRV_MODE \<mapsto> 9]) :: slots"
  obtain rc w' where r: "xdp_link_detach slot_kernel 3 XDP_FLAGS_DRV_MODE 8 ?w = (rc, w')" by fastforce
  have "get_link_xdp_id slot_kernel 3 XDP_FLAGS_DRV_MODE ?w = (0, 9, ?w)"
    by (simp add: slot_kernel_def xdp_flag_defs)
  then have "rc = EXIT_FAIL \<and> w' = ?w"
    using detach_effect [OF slot_kernel_contract r, THEN conjunct2, THEN conjunct2, THEN spec [of _ 9], THEN spec [of _ ?w]]
    by simp
  then show ?thesis using r by simp
qed

text \<open>The map check accepts exactly the maps whose sizes and type equal the expected ones wherever
  an expectation is given.\<close>

theorem check_map_fd_info_spec:
  "check_map_fd_info info exp = 0 \<longleftrightarrow>
     mi_key_size exp \<in> {0, mi_key_size info} \<and> mi_value_size exp \<in> {0, mi_value_size info} \<and>
     mi_max_entries exp \<in> {0, mi_max_entries info} \<and> mi_type exp \<in> {0, mi_type info}"
  by (auto simp: check_map_fd_info_def exit_codes)

end
