(* ===== verification/User_Loader.thy ===== *)
theory User_Loader
  imports User_Link
begin

text \<open>
  The program \<open>xdp/loader/xdp_loader.c\<close>, and the loading function with pinned maps of
  \<open>xdp/common/common_libbpf.c\<close>. The result of a program is its exit code and the state it leaves;
  a read outside an array is a fault.
\<close>

section \<open>Loading with pinned maps\<close>

record pinned_map =
  pm_name :: string
  pm_filename :: string
  pm_map_fd :: int

record load_attr_maps =
  la_file :: "string option"
  la_prog_type :: u32
  la_attach_type :: u32
  la_ifindex :: int
  la_pinned_maps :: "pinned_map list"

text \<open>The entries whose name is that of map \<open>m\<close>: open the pinned file, and use its descriptor.\<close>

fun reuse_pinned :: "'w libbpf \<Rightarrow> nat \<Rightarrow> string \<Rightarrow> pinned_map list \<Rightarrow> 'w \<Rightarrow> pinned_map list \<times> 'w" where
  "reuse_pinned L m mapname [] w = ([], w)"
| "reuse_pinned L m mapname (p # ps) w =
     (if mapname \<noteq> pm_name p
      then (case reuse_pinned L m mapname ps w of (ps, w) \<Rightarrow> (p # ps, w))
      else (case obj_get L (pm_filename p) w of (fd, w) \<Rightarrow>
              (case (if fd > 0 then (p\<lparr>pm_map_fd := fd\<rparr>, snd (map_reuse_fd L m fd w)) else (p, w)) of (p, w) \<Rightarrow>
               (case reuse_pinned L m mapname ps w of (ps, w) \<Rightarrow> (p # ps, w)))))"

fun pin_missing :: "'w libbpf \<Rightarrow> nat \<Rightarrow> string \<Rightarrow> pinned_map list \<Rightarrow> 'w \<Rightarrow> pinned_map list \<times> 'w" where
  "pin_missing L m mapname [] w = ([], w)"
| "pin_missing L m mapname (p # ps) w =
     (if mapname \<noteq> pm_name p \<or> pm_map_fd p \<noteq> - 1
      then (case pin_missing L m mapname ps w of (ps, w) \<Rightarrow> (p # ps, w))
      else (case map_pin L m (pm_filename p) w of (err, w) \<Rightarrow>
              (case pin_missing L m mapname ps w of (ps, w') \<Rightarrow>
                 ((if err \<noteq> 0 then p else p\<lparr>pm_map_fd := map_fd L m w\<rparr>) # ps, w'))))"

fun over_maps :: "(nat \<Rightarrow> pinned_map list \<Rightarrow> 'w \<Rightarrow> pinned_map list \<times> 'w) \<Rightarrow> nat list \<Rightarrow> pinned_map list \<Rightarrow> 'w \<Rightarrow>
    pinned_map list \<times> 'w" where
  "over_maps f [] ps w = (ps, w)"
| "over_maps f (m # ms) ps w = (case f m ps w of (ps, w) \<Rightarrow> over_maps f ms ps w)"

text \<open>\<open>attr\<close> is read for the initialisation of \<open>open_attr\<close> before it is compared with NULL.\<close>

definition bpf_prog_load_xattr_maps ::
    "'w libbpf \<Rightarrow> load_attr_maps option \<Rightarrow> 'w \<Rightarrow> (int \<times> (nat \<times> int) option \<times> pinned_map list \<times> 'w) res" where
  "bpf_prog_load_xattr_maps L attr w =
     (case attr of None \<Rightarrow> Inl NullDeref
      | Some attr \<Rightarrow>
          (case la_file attr of None \<Rightarrow> Inr (- EINVAL, None, la_pinned_maps attr, w)
           | Some file \<Rightarrow>
               (case object_open L file w of
                  (None, w) \<Rightarrow> Inr (- ENOENT, None, la_pinned_maps attr, w)
                | (Some obj, w) \<Rightarrow>
                    (let progs = object_programs L obj w;
                         w = fold (\<lambda>p w. program_set_attach_type L p (la_attach_type attr)
                               (program_set_type L p (la_prog_type attr) (program_set_ifindex L p (la_ifindex attr) w))) progs w;
                         ps = List.map (\<lambda>p. p\<lparr>pm_map_fd := - 1\<rparr>) (la_pinned_maps attr);
                         (ps, w) = over_maps (\<lambda>m ps w.
                           reuse_pinned L m (map_name L m w) ps
                             (if map_offload_neutral L m w then w else map_set_ifindex L m (la_ifindex attr) w))
                           (object_maps L obj w) ps w
                     in if progs = [] then Inr (- ENOENT, None, ps, object_close L obj w)
                        else (case object_load L obj w of (err, w) \<Rightarrow>
                          if err \<noteq> 0 then Inr (- EINVAL, None, ps, object_close L obj w)
                          else (case over_maps (\<lambda>m ps w. pin_missing L m (map_name L m w) ps w)
                                   (object_maps L obj w) ps w of (ps, w) \<Rightarrow>
                            Inr (0, Some (obj, program_fd L (hd progs) w), ps, w)))))))"

section \<open>The loader\<close>

definition loader_options :: "option_wrapper list" where
  "loader_options =
     [option_entry ''help'' False (opt CHR ''h'') ''Show help'' None False,
      option_entry ''dev'' True (opt CHR ''d'') ''Operate on device <ifname>'' (Some ''<ifname>'') True,
      option_entry ''skb-mode'' False (opt CHR ''S'') ''Install XDP program in SKB (AKA generic) mode'' None False,
      option_entry ''native-mode'' False (opt CHR ''N'') ''Install XDP program in native mode'' None False,
      option_entry ''auto-mode'' False (opt CHR ''A'') ''Auto-detect SKB or native mode'' None False,
      option_entry ''force'' False (opt CHR ''F'') ''Force install, replacing existing program on interface'' None False,
      option_entry ''unload'' False (opt CHR ''U'') ''Unload XDP program instead of loading'' None False,
      option_entry ''reuse-maps'' False (opt CHR ''M'') ''Reuse pinned maps'' None False,
      option_entry ''quiet'' False (opt CHR ''q'') ''Quiet mode (no output)'' None False,
      option_entry ''filename'' True 1 ''Load program from <file>'' (Some ''<file>'') False,
      option_entry ''progsec'' True 2 ''Load program in <section> of the ELF file'' (Some ''<section>'') False,
      option_end]"

definition pin_basedir :: string where "pin_basedir = ''/sys/fs/bpf''"
definition stats_map_name :: string where "stats_map_name = ''xdp_stats_map''"
definition default_filename :: string where "default_filename = ''xdp_prog_kern.o''"
definition loader_doc :: string where
  "loader_doc = ''XDP loader'' @ [CHR 0x0A] @
     '' - Allows selecting BPF section --progsec name to XDP-attach to --dev'' @ [CHR 0x0A]"

text \<open>The string behind the pointer \<open>ifname\<close>.\<close>

definition the_ifname :: "config \<Rightarrow> string res" where
  "the_ifname cfg = (if ifname cfg then cstr (ifname_buf cfg) else Inl NullDeref)"

definition pin_maps_in_bpf_object :: "'w libbpf \<Rightarrow> nat \<Rightarrow> config \<Rightarrow> 'w \<Rightarrow> (int \<times> 'w) res" where
  "pin_maps_in_bpf_object L obj cfg w =
     rbind (the_ifname cfg) (\<lambda>dev.
     rbind (cstr (pin_dir cfg)) (\<lambda>dir.
       let map_filename = take (PATH_MAX - 1) (pin_basedir @ ''/'' @ dev @ ''/'' @ stats_map_name)
       in (case (if file_exists L map_filename w then object_unpin_maps L obj dir w else (0, w)) of (err, w) \<Rightarrow>
             if err \<noteq> 0 then Inr (EXIT_FAIL_BPF, w)
             else (case object_pin_maps L obj dir w of (err, w) \<Rightarrow>
                     if err \<noteq> 0 then Inr (EXIT_FAIL_BPF, w) else Inr (0, w)))))"

text \<open>The part of \<open>main\<close> after the command line was parsed. Printing the names of the file and of the
  section reads them.\<close>

definition loader_run :: "'w libbpf \<Rightarrow> config \<Rightarrow> bool \<Rightarrow> 'w \<Rightarrow> (int \<times> 'w) res" where
  "loader_run L cfg verbose w =
     (if do_unload cfg then Inr (xdp_link_detach L (cfg_ifindex cfg) (xdp_flags cfg) 0 w)
      else
        rbind (the_ifname cfg) (\<lambda>dev.
        rbind (snprintf (pin_dir cfg) 0 PATH_MAX (pin_basedir @ ''/'' @ dev)) (\<lambda>(_, dir).
        rbind (load_bpf_and_xdp_attach L (cfg\<lparr>pin_dir := dir\<rparr>) w) (\<lambda>(r, w).
          (case r of
             Exit e \<Rightarrow> Inr (e, w)
           | Value (obj, cfg) \<Rightarrow>
               rbind (if verbose then rbind (cstr (filename cfg)) (\<lambda>_. rbind (cstr (progsec cfg)) (\<lambda>_. Inr ()))
                      else Inr ()) (\<lambda>_.
               if reuse_maps cfg then Inr (EXIT_OK, w)
               else rbind (pin_maps_in_bpf_object L obj cfg w) (\<lambda>(err, w).
                 if err \<noteq> 0 then Inr (err, w) else Inr (EXIT_OK, w))))))))"

definition loader_config :: "config res" where
  "loader_config =
     rbind (strncpy (filename config_zero) default_filename 512) (\<lambda>f.
       Inr (config_zero\<lparr>xdp_flags := XDP_FLAGS_UPDATE_IF_NOEXIST OR XDP_FLAGS_DRV_MODE,
              cfg_ifindex := - 1, filename := f\<rparr>))"

definition loader_main ::
    "'w libbpf \<Rightarrow> (string \<Rightarrow> int) \<Rightarrow> bool \<Rightarrow> string \<Rightarrow> nat \<Rightarrow> (option_wrapper list \<Rightarrow> (int \<times> string) res list) \<Rightarrow> 'w \<Rightarrow> (int \<times> 'w) res" where
  "loader_main L nametoindex malloc_ok prog argc getopt_long w =
     rbind loader_config (\<lambda>cfg.
     rbind (parse_cmdline_args nametoindex malloc_ok loader_options loader_doc prog getopt_long (cfg, True)) (\<lambda>r.
       (case r of
          Inl (code, _) \<Rightarrow> Inr (code, w)
        | Inr (cfg, verbose) \<Rightarrow>
            if cfg_ifindex cfg = - 1
            then rbind (usage prog loader_doc loader_options (argc = 1)) (\<lambda>_. Inr (EXIT_FAIL_OPTION, w))
            else loader_run L cfg verbose w)))"

section \<open>Lemmas\<close>

lemma attach_loaded_cases:
  assumes "attach_loaded L cfg obj w = Inr (r, w')"
  obtains (exit) e where "r = Exit e" "e \<noteq> 0"
  | (attached) p sec where "r = Value (obj, cfg\<lparr>progsec := sec\<rparr>)" "0 < program_fd L p w"
      "xdp_link_attach L (cfg_ifindex cfg) (xdp_flags cfg) (program_fd L p w) w = (0, w')"
proof -
  obtain prog where pr: "(case prog of None \<Rightarrow> Inr (Exit EXIT_FAIL_BPF, w)
      | Some p \<Rightarrow>
          rbind (strncpy (progsec cfg) (program_title L p w) 32) (\<lambda>sec.
            if program_fd L p w \<le> 0 then Inr (Exit EXIT_FAIL_BPF, w)
            else (case xdp_link_attach L (cfg_ifindex cfg) (xdp_flags cfg) (program_fd L p w) w of (err, w) \<Rightarrow>
                    if err \<noteq> 0 then Inr (Exit err, w) else Inr (Value (obj, cfg\<lparr>progsec := sec\<rparr>), w)))) = Inr (r, w')"
    using assms unfolding attach_loaded_def by (auto simp only: rbind_eq_Inr)
  show thesis
  proof (cases prog)
    case None
    then show thesis using pr exit by (auto simp: exit_codes)
  next
    case (Some p)
    then obtain sec where p: "(if program_fd L p w \<le> 0 then Inr (Exit EXIT_FAIL_BPF, w)
        else (case xdp_link_attach L (cfg_ifindex cfg) (xdp_flags cfg) (program_fd L p w) w of (err, w) \<Rightarrow>
                if err \<noteq> 0 then Inr (Exit err, w) else Inr (Value (obj, cfg\<lparr>progsec := sec\<rparr>), w))) =
        (Inr (r, w') :: ((nat \<times> config) exits \<times> _) res)"
      using pr by (auto simp only: option.case rbind_eq_Inr)
    obtain e w2 where a: "xdp_link_attach L (cfg_ifindex cfg) (xdp_flags cfg) (program_fd L p w) w = (e, w2)"
      by fastforce
    show thesis
    proof (cases "program_fd L p w \<le> 0")
      case True
      then show thesis using p exit by (auto simp: exit_codes)
    next
      case False
      then show thesis using p a exit attached [of sec p] by (cases "e = 0") auto
    qed
  qed
qed

lemma load_attach_cases:
  assumes "load_bpf_and_xdp_attach L cfg w = Inr (r, w')"
  obtains (exit) e where "r = Exit e" "e \<noteq> 0"
  | (attached) obj sec fd w1 where "r = Value (obj, cfg\<lparr>progsec := sec\<rparr>)" "0 < fd"
      "xdp_link_attach L (cfg_ifindex cfg) (xdp_flags cfg) fd w1 = (0, w')"
proof -
  obtain obj w1 where "(case obj of None \<Rightarrow> Inr (Exit EXIT_FAIL_BPF, w1) | Some obj \<Rightarrow> attach_loaded L cfg obj w1) = Inr (r, w')"
    using assms unfolding load_bpf_and_xdp_attach_def Let_def by (fastforce simp only: rbind_eq_Inr split_paired_Ex split)
  then show thesis
    using exit attached by (cases obj) (auto simp: exit_codes elim!: attach_loaded_cases)
qed

text \<open>Pinning maps does not touch the attached programs.\<close>

definition pin_inert :: "'w libbpf \<Rightarrow> ('w \<Rightarrow> int \<Rightarrow> u32 \<Rightarrow> int option) \<Rightarrow> bool" where
  "pin_inert L P \<longleftrightarrow> (\<forall>obj dir w. P (snd (object_pin_maps L obj dir w)) = P w \<and>
                              P (snd (object_unpin_maps L obj dir w)) = P w)"

lemma pin_maps_inert:
  assumes "pin_inert L P" "pin_maps_in_bpf_object L obj cfg w = Inr (rc, w')"
  shows "P w' = P w"
proof -
  have "P (snd (object_pin_maps L obj dir w)) = P w" "P (snd (object_unpin_maps L obj dir w)) = P w" for dir w
    using assms(1) by (simp_all add: pin_inert_def)
  note inert = this
  obtain dev dir where d: "the_ifname cfg = Inr dev" "cstr (pin_dir cfg) = Inr dir"
    using assms(2) by (auto simp: pin_maps_in_bpf_object_def res_simps)
  let ?f = "take (PATH_MAX - 1) (pin_basedir @ ''/'' @ dev @ ''/'' @ stats_map_name)"
  obtain e1 w1 where u: "(if file_exists L ?f w then object_unpin_maps L obj dir w else (0, w)) = (e1, w1)"
    by fastforce
  then have P1: "P w1 = P w" using inert(2) [of dir w] by (auto split: if_splits)
  obtain e2 w2 where pin: "object_pin_maps L obj dir w1 = (e2, w2)" by fastforce
  then have P2: "P w2 = P w1" using inert(1) [of dir w1] by simp
  have "w' = w1 \<or> w' = w2"
    using assms(2) unfolding pin_maps_in_bpf_object_def d Let_def rbind_Inr u by (auto simp: pin split: if_splits)
  then show ?thesis using P1 P2 by auto
qed

section \<open>Properties\<close>

text \<open>End to end: when the loader is not asked to unload and exits with success, a program is
  attached to the chosen interface in the chosen mode, for every kernel that keeps its contract.\<close>

theorem loader_attaches:
  assumes "link_contract L P" "pin_inert L P"
    and "loader_run L cfg verbose w = Inr (EXIT_OK, w')" "\<not> do_unload cfg"
  shows "\<exists>fd > 0. P w' (cfg_ifindex cfg) (xdp_flags cfg AND XDP_FLAGS_MODES) = Some fd"
proof -
  obtain d r w1 where load: "load_bpf_and_xdp_attach L (cfg\<lparr>pin_dir := d\<rparr>) w = Inr (r, w1)"
    and rest: "(case r of Exit e \<Rightarrow> Inr (e, w1)
           | Value (obj, cfg) \<Rightarrow>
               rbind (if verbose then rbind (cstr (filename cfg)) (\<lambda>_. rbind (cstr (progsec cfg)) (\<lambda>_. Inr ()))
                      else Inr ()) (\<lambda>_.
               if reuse_maps cfg then Inr (EXIT_OK, w1)
               else rbind (pin_maps_in_bpf_object L obj cfg w1) (\<lambda>(err, w).
                 if err \<noteq> 0 then Inr (err, w) else Inr (EXIT_OK, w)))) = Inr (EXIT_OK, w')"
    using assms(3,4) unfolding loader_run_def by (auto simp only: if_False rbind_eq_Inr split_paired_Ex split)
  from load show ?thesis
  proof (cases rule: load_attach_cases)
    case (exit e)
    then show ?thesis using rest by (simp add: exit_codes)
  next
    case (attached obj sec fd w2)
    have "rc = EXIT_OK \<longrightarrow> P w1 (cfg_ifindex cfg) (xdp_flags cfg AND XDP_FLAGS_MODES) = Some fd" if
      "xdp_link_attach L (cfg_ifindex cfg) (xdp_flags cfg) fd w2 = (rc, w1)" for rc
      using attach_installs [OF assms(1) _ that] attached(2) by simp
    then have "P w1 (cfg_ifindex cfg) (xdp_flags cfg AND XDP_FLAGS_MODES) = Some fd"
      using attached(3) by (simp add: exit_codes)
    moreover have "P w' = P w1"
      using rest attached(1) pin_maps_inert [OF assms(2)]
      by (auto simp: res_simps split: if_splits)
    ultimately show ?thesis using attached(2) by auto
  qed
qed

theorem loader_attaches_witness:
  "\<exists>w' fd. loader_run slot_kernel (config_zero\<lparr>cfg_ifindex := 3, ifname := True, xdp_flags := XDP_FLAGS_DRV_MODE\<rparr>) True (\<lambda>i m. None) =
       Inr (EXIT_OK, w') \<and> fd > 0 \<and> w' 3 (XDP_FLAGS_DRV_MODE AND XDP_FLAGS_MODES) = Some fd"
proof -
  let ?cfg = "config_zero\<lparr>cfg_ifindex := 3, ifname := True, xdp_flags := XDP_FLAGS_DRV_MODE\<rparr>"
  have "map_sum id fst (loader_run slot_kernel ?cfg True (\<lambda>i m. None)) = Inr EXIT_OK" by code_simp
  then obtain w' where run: "loader_run slot_kernel ?cfg True (\<lambda>i m. None) = Inr (EXIT_OK, w')"
    by (cases "loader_run slot_kernel ?cfg True (\<lambda>i m. None)") auto
  have "pin_inert slot_kernel (\<lambda>w. w)" by (simp add: pin_inert_def slot_kernel_def)
  from loader_attaches [OF slot_kernel_contract this run] run show ?thesis
    by (auto simp: config_zero_def)
qed

text \<open>A file name of 512 characters or more leaves the array \<open>filename\<close> without a terminator, and
  the loader reads past it.\<close>

theorem long_filename_overread:
  assumes "length (filename cfg) = 512" "512 \<le> length name" "c_string name"
    and "opt_step f 1 name (cfg, v) = Inr (Continue (cfg', v'))"
  shows "load_bpf_and_xdp_attach L cfg' w = Inl OutOfBounds"
proof -
  obtain b where b: "strncpy (filename cfg) name 512 = Inr b" "cfg' = cfg\<lparr>filename := b\<rparr>"
    using assms(4) by (auto simp: opt_step_def res_simps)
  have "cstr b = Inl OutOfBounds"
    using strncpy_unterminated [of "filename cfg" name b] b(1) assms(1-3) by simp
  then show ?thesis using b(2) by (simp add: load_bpf_and_xdp_attach_def Let_def)
qed

theorem long_filename_overread_witness:
  "\<exists>cfg' v'. opt_step (\<lambda>n. 7) 1 (replicate 512 CHR ''x'') (config_zero, True) = Inr (Continue (cfg', v')) \<and>
     load_bpf_and_xdp_attach slot_kernel cfg' (\<lambda>i m. None) = Inl OutOfBounds"
proof -
  obtain b where "strncpy (filename config_zero) (replicate 512 CHR ''x'') 512 = Inr b"
    using strncpy_ok by (fastforce simp: config_zero_def)
  then have step: "opt_step (\<lambda>n. 7) 1 (replicate 512 CHR ''x'') (config_zero, True) =
      Inr (Continue (config_zero\<lparr>filename := b\<rparr>, True))"
    by (simp add: opt_step_def)
  show ?thesis
    using long_filename_overread [OF _ _ _ step, of slot_kernel "\<lambda>i m. None"] step by (auto simp: config_zero_def c_string_def)
qed

end
