(* ===== verification/User_Table.thy ===== *)
theory User_Table
  imports User_Loader
begin

text \<open>
  The program \<open>xdp/newip_router/xdp_prog_user.c\<close>, which fills the table of 8-bit addresses of the XDP
  router from a string: for each entry a character for the address, a separator, five characters
  of an interface name and a separator. The array for the name is on the stack and not initialised;
  its last five characters are the parameter \<open>stale\<close>. The map update is the parameter \<open>upd\<close>.
\<close>

definition table_options :: "option_wrapper list" where
  "table_options =
     [option_entry ''help'' False (opt CHR ''h'') ''Show help'' None False,
      option_entry ''dev'' True (opt CHR ''d'') ''Operate on device <ifname>'' (Some ''<ifname>'') True,
      option_entry ''redirect-dev'' True (opt CHR ''r'') ''Redirect to device <ifname>'' (Some ''<ifname>'') True,
      option_entry ''src-mac'' True (opt CHR ''L'') ''Source MAC address of <dev>'' (Some ''<mac>'') True,
      option_entry ''dest-mac'' True (opt CHR ''R'') ''Destination MAC address of <redirect-dev>'' (Some ''<mac>'') True,
      option_entry ''filename'' True 1 ''Load program from <file>'' (Some ''<file>'') False,
      option_entry ''quiet'' False (opt CHR ''q'') ''Quiet mode (no output)'' None False,
      option_end]"

definition table_doc :: string where
  "table_doc = ''XDP redirect helper'' @ [CHR 0x0A] @
     '' - Allows to populate/query tx_port and redirect_params maps'' @ [CHR 0x0A]"

type_synonym 'w map_update = "u8 \<Rightarrow> u32 \<Rightarrow> 'w \<Rightarrow> int \<times> 'w"

definition static_redirect_non_ip :: "'w map_update \<Rightarrow> u8 \<Rightarrow> u32 \<Rightarrow> 'w \<Rightarrow> int \<times> 'w" where
  "static_redirect_non_ip upd dst ifindex w =
     (case upd dst ifindex w of (err, w) \<Rightarrow> if err < 0 then (- 1, w) else (0, w))"

text \<open>Reading a character of the array \<open>filename\<close>, and five characters of it.\<close>

definition char_at :: "string \<Rightarrow> nat \<Rightarrow> char res" where
  "char_at buf i = (if i < length buf then Inr (buf ! i) else Inl OutOfBounds)"

fun substr_loop :: "string \<Rightarrow> nat \<Rightarrow> nat \<Rightarrow> string res" where
  "substr_loop buf cur 0 = Inr []"
| "substr_loop buf cur (Suc n) =
     rbind (char_at buf cur) (\<lambda>c. rbind (substr_loop buf (cur + 1) n) (\<lambda>s. Inr (c # s)))"

text \<open>The loop of \<open>main\<close>; \<open>n\<close> is \<open>strlen (cfg.filename)\<close>.\<close>

function table_loop ::
    "(string \<Rightarrow> int) \<Rightarrow> 'w map_update \<Rightarrow> string \<Rightarrow> string \<Rightarrow> nat \<Rightarrow> nat \<Rightarrow> 'w \<Rightarrow> (int \<times> 'w) res" where
  "table_loop nametoindex upd stale buf n cur w =
     (if cur < n then
        rbind (char_at buf cur) (\<lambda>d.
        rbind (substr_loop buf (cur + 2) 5) (\<lambda>sub.
        rbind (cstr (sub @ stale)) (\<lambda>name.
          (case static_redirect_non_ip upd (of_char d - 48) (word_of_int (nametoindex name)) w of (err, w) \<Rightarrow>
             if err < 0 then Inr (1, w)
             else table_loop nametoindex upd stale buf n (cur + 8) w))))
      else Inr (EXIT_OK, w))"
  by pat_completeness auto
termination by (relation "measure (\<lambda>(f, u, s, b, n, cur, w). n - cur)") auto

declare table_loop.simps [simp del]

definition table_run ::
    "'w libbpf \<Rightarrow> (string \<Rightarrow> int) \<Rightarrow> 'w map_update \<Rightarrow> string \<Rightarrow> config \<Rightarrow> 'w \<Rightarrow> (int \<times> 'w) res" where
  "table_run L nametoindex upd stale cfg w =
     rbind (the_ifname cfg) (\<lambda>dev.
       (case open_bpf_map_file L (take (PATH_MAX - 1) (pin_basedir @ ''/'' @ dev)) ''static_redirect_8b'' None w of
          (fd, _, w) \<Rightarrow>
            if fd < 0 then Inr (EXIT_FAIL_BPF, w)
            else rbind (strlen (filename cfg)) (\<lambda>n.
                   table_loop nametoindex upd stale (filename cfg) n 0 w)))"

definition table_main ::
    "'w libbpf \<Rightarrow> (string \<Rightarrow> int) \<Rightarrow> bool \<Rightarrow> 'w map_update \<Rightarrow> string \<Rightarrow> string \<Rightarrow> (option_wrapper list \<Rightarrow> (int \<times> string) res list) \<Rightarrow> 'w \<Rightarrow> (int \<times> 'w) res" where
  "table_main L nametoindex malloc_ok upd stale prog getopt_long w =
     rbind (parse_cmdline_args nametoindex malloc_ok table_options table_doc prog getopt_long
              (config_zero\<lparr>cfg_ifindex := - 1, redirect_ifindex := - 1\<rparr>, True)) (\<lambda>r.
       (case r of Inl (code, _) \<Rightarrow> Inr (code, w)
        | Inr (cfg, _) \<Rightarrow> table_run L nametoindex upd stale cfg w))"

section \<open>The entries of a table string\<close>

text \<open>An entry of the string, and what it means: an address digit and a name of five characters.\<close>

type_synonym entry = "u8 \<times> string"

definition entry_wf :: "entry \<Rightarrow> bool" where
  "entry_wf e \<longleftrightarrow> fst e \<noteq> 208 \<and> length (snd e) = 5 \<and> c_string (snd e)"

definition render_entry :: "entry \<Rightarrow> string" where
  "render_entry e = [char_of (unat (fst e + 48)), CHR ''=''] @ snd e @ [CHR '' '']"

definition render :: "entry list \<Rightarrow> string" where
  "render es = concat (List.map render_entry es)"

text \<open>The updates the entries stand for, in order.\<close>

fun apply_entries :: "(string \<Rightarrow> int) \<Rightarrow> entry list \<Rightarrow> (u8 \<rightharpoonup> u32) \<Rightarrow> (u8 \<rightharpoonup> u32)" where
  "apply_entries f [] t = t"
| "apply_entries f ((d, name) # es) t = apply_entries f es (t(d \<mapsto> word_of_int (f name)))"

text \<open>A map that accepts every update.\<close>

definition table_update :: "(u8 \<rightharpoonup> u32) map_update" where
  "table_update d i t = (0, t(d \<mapsto> i))"

section \<open>Lemmas\<close>

definition map_contract :: "'w map_update \<Rightarrow> ('w \<Rightarrow> u8 \<rightharpoonup> u32) \<Rightarrow> bool" where
  "map_contract upd T \<longleftrightarrow> (\<forall>d i w. 0 \<le> fst (upd d i w) \<and> T (snd (upd d i w)) = (T w)(d \<mapsto> i))"

lemma substr_loop_append: "substr_loop (pre @ s @ post) (length pre) (length s) = Inr s"
proof (induction s arbitrary: pre)
  case (Cons c s)
  from Cons.IH [of "pre @ [c]"] show ?case by (simp add: char_at_def)
qed simp

lemma digit_char: "(of_char (char_of (unat (d + 48)) :: char) - 48 :: u8) = d"
proof -
  have "(of_char (char_of (unat (d + 48)) :: char) :: u8) = word_of_nat (of_char (char_of (unat (d + 48)) :: char))"
    by (simp add: of_char_def)
  also have "\<dots> = word_of_nat (unat (d + 48) mod 256)" by simp
  also have "\<dots> = d + 48" using unat_u8_lt [of "d + 48"] by simp
  finally show ?thesis by simp
qed

lemma table_loop_entry:
  assumes "entry_wf (d, name)" "cur = length pre" "cur < n" "buf = pre @ render_entry (d, name) @ post"
    and "c_string s" "stale = s @ NUL # r"
  shows "table_loop f upd stale buf n cur w =
     (case static_redirect_non_ip upd d (word_of_int (f (name @ s))) w of (err, w) \<Rightarrow>
        if err < 0 then Inr (1, w) else table_loop f upd stale buf n (cur + 8) w)"
proof -
  have name: "length name = 5" "c_string name" using assms(1) by (simp_all add: entry_wf_def)
  have d: "char_at buf cur = Inr (char_of (unat (d + 48)))"
    using assms(2,4) by (simp add: char_at_def render_entry_def)
  have buf: "buf = (pre @ [char_of (unat (d + 48)), CHR ''='']) @ name @ (CHR '' '' # post)"
    using assms(4) by (simp add: render_entry_def)
  have sub: "substr_loop buf (cur + 2) 5 = Inr name"
    using substr_loop_append [of "pre @ [char_of (unat (d + 48)), CHR ''='']" name "CHR '' '' # post"]
      assms(2) name(1) unfolding buf by simp
  have "c_string (name @ s)" using name(2) assms(5) by (simp add: c_string_def)
  then have nm: "cstr (name @ stale) = Inr (name @ s)" using cstr_append [of "name @ s" r] assms(6) by simp
  show ?thesis
    using assms(3) by (subst table_loop.simps) (simp add: d sub [unfolded add_2_eq_Suc'] nm digit_char)
qed

lemma length_render_entry [simp]: "entry_wf e \<Longrightarrow> length (render_entry e) = 8"
  by (simp add: render_entry_def entry_wf_def)

lemma table_loop_entries:
  assumes "map_contract upd T" "\<forall>e \<in> set es. entry_wf e" "cur = length pre" "n = cur + length (render es)"
    and "buf = pre @ render es @ post" "c_string s" "stale = s @ NUL # r"
  shows "\<exists>w'. table_loop f upd stale buf n cur w = Inr (EXIT_OK, w') \<and>
           T w' = apply_entries (\<lambda>name. f (name @ s)) es (T w)"
  using assms
proof (induction es arbitrary: pre cur w)
  case Nil
  then show ?case by (simp add: table_loop.simps render_def)
next
  case (Cons e es)
  obtain d name where e: "e = (d, name)" by fastforce
  have wf: "entry_wf (d, name)" using Cons.prems(2) e by simp
  have len: "length (render_entry (d, name)) = 8" using wf by simp
  have buf: "buf = pre @ render_entry (d, name) @ (render es @ post)"
    using Cons.prems(5) e by (simp add: render_def)
  have cur: "cur < n" using Cons.prems(4) len e by (simp add: render_def)
  obtain err w1 where up: "upd d (word_of_int (f (name @ s))) w = (err, w1)" by fastforce
  then have up': "0 \<le> err" "T w1 = (T w)(d \<mapsto> word_of_int (f (name @ s)))"
    using Cons.prems(1) unfolding map_contract_def by (metis fst_conv, metis snd_conv)
  have step: "table_loop f upd stale buf n cur w = table_loop f upd stale buf n (cur + 8) w1"
    using table_loop_entry [OF wf Cons.prems(3) cur buf Cons.prems(6,7), of f upd w] up up'(1)
    by (simp add: static_redirect_non_ip_def)
  have "\<exists>w'. table_loop f upd stale buf n (cur + 8) w1 = Inr (EXIT_OK, w') \<and>
      T w' = apply_entries (\<lambda>name. f (name @ s)) es (T w1)"
    by (rule Cons.IH [where pre = "pre @ render_entry (d, name)"])
      (use Cons.prems len buf e in \<open>auto simp: render_def\<close>)
  then show ?case using step up'(2) e by simp
qed

lemma c_string_render: "\<forall>e \<in> set es. entry_wf e \<Longrightarrow> c_string (render es)"
proof (induction es)
  case (Cons e es)
  have "char_of (unat (fst e + 48)) \<noteq> NUL" if "fst e \<noteq> 208"
  proof
    assume "char_of (unat (fst e + 48)) = NUL"
    then have "(of_char (char_of (unat (fst e + 48)) :: char) :: u8) - 48 = 0 - 48" by simp
    then have "fst e = - 48" by (simp only: digit_char) simp
    then show False using that by simp
  qed
  then show ?case using Cons by (auto simp: render_def render_entry_def c_string_def entry_wf_def)
qed (simp add: render_def c_string_def)

text \<open>The whole program, for any bytes behind the name on the stack.\<close>

lemma table_run_loop:
  assumes "\<forall>e \<in> set es. entry_wf e" "filename cfg = render es @ NUL # post" "the_ifname cfg = Inr dev"
    and "open_bpf_map_file L (take (PATH_MAX - 1) (pin_basedir @ ''/'' @ dev)) ''static_redirect_8b'' None w = (fd, None, w)"
    and "0 \<le> fd"
  shows "table_run L f upd stale cfg w =
     table_loop f upd stale (render es @ NUL # post) (length (render es)) 0 w"
proof -
  have "strlen (filename cfg) = Inr (length (render es))"
    using c_string_render [OF assms(1)] assms(2) by (simp add: strlen_def)
  then show ?thesis using assms by (simp add: table_run_def)
qed

lemma table_loop_render:
  assumes "map_contract upd T" "\<forall>e \<in> set es. entry_wf e" "c_string s"
  shows "\<exists>w'. table_loop f upd (s @ NUL # r) (render es @ NUL # post) (length (render es)) 0 w = Inr (EXIT_OK, w') \<and>
     T w' = apply_entries (\<lambda>name. f (name @ s)) es (T w)"
  by (rule table_loop_entries [OF assms(1,2), where pre = "[]"]) (use assms(3) in simp_all)

lemma table_loop_overread:
  assumes "\<forall>e \<in> set es. entry_wf e" "es \<noteq> []" "NUL \<notin> set stale"
  shows "table_loop f upd stale (render es @ NUL # post) (length (render es)) 0 w = Inl OutOfBounds"
proof -
  obtain d name es' where es: "es = (d, name) # es'" using assms(2) by (metis list.exhaust prod.exhaust)
  have wf: "length name = 5" "c_string name" using assms(1) es by (simp_all add: entry_wf_def)
  let ?buf = "render es @ NUL # post"
  have buf: "?buf = [char_of (unat (d + 48)), CHR ''=''] @ name @ (CHR '' '' # render es' @ NUL # post)"
    using es by (simp add: render_def render_entry_def)
  have len: "0 < length (render es)" using es by (simp add: render_def render_entry_def)
  have nm: "cstr (name @ stale) = Inl OutOfBounds"
    using wf(2) assms(3) by (intro cstr_no_nul) (auto simp: c_string_def)
  have "substr_loop ?buf (0 + 2) 5 = Inr name"
    using substr_loop_append [of "[char_of (unat (d + 48)), CHR ''='']" name "CHR '' '' # render es' @ NUL # post"]
      wf(1) unfolding buf by simp
  moreover have "char_at ?buf 0 = Inr (char_of (unat (d + 48)))" unfolding buf by (simp add: char_at_def)
  ultimately show "table_loop f upd stale ?buf (length (render es)) 0 w = Inl OutOfBounds"
    using len nm by (subst table_loop.simps) simp
qed

section \<open>Properties\<close>

text \<open>Round trip of the table string: when the string renders a list of entries with interface names
  of five characters, and the bytes behind the name on the stack happen to start with a NUL, the
  program exits with success and the map has exactly the entries of the list, applied in order.\<close>

theorem table_roundtrip:
  assumes "map_contract upd T" "\<forall>e \<in> set es. entry_wf e" "filename cfg = render es @ NUL # post"
    and "the_ifname cfg = Inr dev"
    and "open_bpf_map_file L (take (PATH_MAX - 1) (pin_basedir @ ''/'' @ dev)) ''static_redirect_8b'' None w = (fd, None, w)"
    and "0 \<le> fd"
  shows "\<exists>w'. table_run L f upd (NUL # junk) cfg w = Inr (EXIT_OK, w') \<and> T w' = apply_entries f es (T w)"
  using table_loop_render [OF assms(1,2), of "[]" f junk post w] table_run_loop [OF assms(2-6)]
  by (simp add: c_string_def)

text \<open>A configuration with a table string, and a library whose maps can be opened.\<close>

definition sample_entries :: "entry list" where
  "sample_entries = [(5, ''veth0''), (7, ''veth1'')]"

definition sample_index :: "string \<Rightarrow> int" where
  "sample_index n = (if n = ''veth0'' then 3 else if n = ''veth1'' then 4 else 0)"

definition table_config :: config where
  "table_config = config_zero\<lparr>ifname := True, ifname_buf := ''veth0'' @ replicate 11 NUL,
     filename := render sample_entries @ replicate 496 NUL\<rparr>"

definition table_library :: "(u8 \<rightharpoonup> u32) libbpf" where
  "table_library = \<lparr>
     set_link_xdp_fd = (\<lambda>i fd flags w. (0, w)), get_link_xdp_id = (\<lambda>i flags w. (0, 0, w)),
     prog_load_xattr = (\<lambda>f i w. (0, 1, w)), object_open = (\<lambda>f w. (Some 1, w)),
     object_programs = (\<lambda>o1 w. [1]), object_maps = (\<lambda>o1 w. []), object_load = (\<lambda>o1 w. (0, w)),
     object_close = (\<lambda>o1 w. w), object_pin_maps = (\<lambda>o1 d w. (0, w)), object_unpin_maps = (\<lambda>o1 d w. (0, w)),
     find_program = (\<lambda>o1 t w. Some 1), program_set_type = (\<lambda>p t w. w), program_set_attach_type = (\<lambda>p t w. w),
     program_set_ifindex = (\<lambda>p i w. w), program_title = (\<lambda>p w. ''xdp_router''), program_fd = (\<lambda>p w. 5),
     map_name = (\<lambda>m w. ''map''), map_fd = (\<lambda>m w. 6), map_offload_neutral = (\<lambda>m w. True),
     map_set_ifindex = (\<lambda>m i w. w), map_reuse_fd = (\<lambda>m fd w. (0, w)), map_pin = (\<lambda>m p w. (0, w)),
     obj_get = (\<lambda>p w. (7, w)), obj_get_info = (\<lambda>fd w. (0, \<lparr>mi_type = 1, mi_id = 1, mi_key_size = 1,
       mi_value_size = 4, mi_max_entries = 256\<rparr>, w)), file_exists = (\<lambda>p w. True)\<rparr>"

lemma table_update_contract: "map_contract table_update (\<lambda>t. t)"
  by (simp add: map_contract_def table_update_def)

theorem table_roundtrip_witness:
  "\<exists>t. table_run table_library sample_index table_update (NUL # ''abcd'') table_config Map.empty = Inr (EXIT_OK, t) \<and>
     t = [5 \<mapsto> 3, 7 \<mapsto> 4]"
proof -
  have wf: "\<forall>e \<in> set sample_entries. entry_wf e"
    by (simp add: sample_entries_def entry_wf_def c_string_def)
  have fname: "filename table_config = render sample_entries @ NUL # replicate 495 NUL"
    by (simp add: table_config_def) (simp add: numeral_eq_Suc)
  have dev: "the_ifname table_config = Inr ''veth0''" by code_simp
  have "\<exists>w'. table_run table_library sample_index table_update (NUL # ''abcd'') table_config Map.empty = Inr (EXIT_OK, w') \<and>
      w' = apply_entries sample_index sample_entries Map.empty"
    by (rule table_roundtrip [OF table_update_contract wf fname dev, of table_library Map.empty 7])
      (simp_all add: open_bpf_map_file_def table_library_def)
  then show ?thesis by (simp add: sample_entries_def sample_index_def)
qed

text \<open>The name array is never terminated by the program: when the five bytes behind the name on
  the stack hold no NUL, the first entry already makes the library read past the array; when they
  hold other characters before a NUL, every entry is registered for the wrong interface name.\<close>

theorem table_name_unterminated:
  assumes "map_contract upd T" "\<forall>e \<in> set es. entry_wf e" "es \<noteq> []"
  shows "(NUL \<notin> set stale \<longrightarrow>
            table_loop f upd stale (render es @ NUL # post) (length (render es)) 0 w = Inl OutOfBounds) \<and>
         (c_string s \<longrightarrow> (\<exists>w'. table_loop f upd (s @ NUL # r) (render es @ NUL # post) (length (render es)) 0 w = Inr (EXIT_OK, w') \<and>
            T w' = apply_entries (\<lambda>name. f (name @ s)) es (T w)))"
  using table_loop_overread [OF assms(2,3), of stale f upd post w] table_loop_render [OF assms(1,2), of s f r post w]
  by blast

theorem table_name_unterminated_witness:
  "table_loop sample_index table_update ''abcde'' (render sample_entries @ NUL # []) (length (render sample_entries)) 0 Map.empty =
     Inl OutOfBounds"
proof -
  have wf: "\<forall>e \<in> set sample_entries. entry_wf e" "sample_entries \<noteq> []"
    by (simp_all add: sample_entries_def entry_wf_def c_string_def)
  from table_name_unterminated [OF table_update_contract wf, of "''abcde''" sample_index "[]" Map.empty]
  show ?thesis by simp
qed

end
