(* ===== verification/User_Cpus.thy ===== *)
theory User_Cpus
  imports User_Link
begin

text \<open>
  How many processors there can be: the statistics program counts them with
  \<open>bpf_num_possible_cpus\<close> (\<open>xdp/headers/bpf_util.h\<close>) to size the buffer that the kernel fills with one value per
  processor, libbpf with \<open>libbpf_num_possible_cpus\<close> (\<open>xdp/libbpf/src/libbpf.c\<close>). Both read the same list of
  ranges. Numbers are not bounded by the width of \<open>int\<close>; reading a file and allocating memory are
  parameters.
\<close>

section \<open>Reading numbers\<close>

definition is_digit :: "char \<Rightarrow> bool" where
  "is_digit c \<longleftrightarrow> 48 \<le> (of_char c :: int) \<and> (of_char c :: int) \<le> 57"

text \<open>The conversion \<open>%d\<close>: the number and what is left, or nothing when no number is there.\<close>

fun scan_sign :: "string \<Rightarrow> bool \<times> string" where
  "scan_sign (c # cs) = (if c = CHR ''-'' then (True, cs) else if c = CHR ''+'' then (False, cs) else (False, c # cs))"
| "scan_sign [] = (False, [])"

definition scan_int :: "string \<Rightarrow> (int \<times> string) option" where
  "scan_int s =
     (case scan_sign (skip_spaces s) of (neg, t) \<Rightarrow>
        let ds = takeWhile is_digit t
        in if ds = [] then None
           else Some (if neg then - digits_value 0 ds else digits_value 0 ds, dropWhile is_digit t))"

text \<open>\<open>sscanf (s, "%d%n-%d%n", \<dots>)\<close>: the number of conversions, negative at the end of the string, with the
  two numbers and what is left.\<close>

definition scan_range :: "string \<Rightarrow> int \<times> int \<times> int \<times> string" where
  "scan_range s =
     (case scan_int s of
        None \<Rightarrow> (if skip_spaces s = [] then - 1 else 0, 0, 0, s)
      | Some (a, r) \<Rightarrow>
          (case r of
             c # r' \<Rightarrow>
               if c = CHR ''-'' then (case scan_int r' of Some (b, r'') \<Rightarrow> (2, a, b, r'') | None \<Rightarrow> (1, a, 0, r))
               else (1, a, 0, r)
           | [] \<Rightarrow> (1, a, 0, r)))"

section \<open>The count of the statistics program\<close>

text \<open>\<open>content\<close> is the file; \<open>junk\<close> is what the uninitialised variables \<open>start\<close> and \<open>end\<close> hold.\<close>

definition bpf_num_possible_cpus :: "string option \<Rightarrow> int \<times> int \<Rightarrow> u32 exits" where
  "bpf_num_possible_cpus content junk =
     (case content of
        None \<Rightarrow> Exit 1
      | Some text \<Rightarrow>
          if text = [] then Value 0
          else
            let buff = take 127 (takeWhile (\<lambda>c. c \<noteq> CHR 0x0A) text @
                  (if CHR 0x0A \<in> set text then [CHR 0x0A] else []));
                (n, a, b, _) = scan_range buff
            in if n = 0 then Exit 1
               else
                 let (start, end_cpu) = (if n = 1 then (a, a) else if n = 2 then (a, b) else junk)
                 in Value (if (word_of_int start :: u32) = 0 then word_of_int end_cpu + 1 else 0))"

section \<open>The count of libbpf\<close>

abbreviation (input) CPU_EINVAL :: int where "CPU_EINVAL \<equiv> 22"
abbreviation (input) CPU_ENOMEM :: int where "CPU_ENOMEM \<equiv> 12"
abbreviation (input) CPU_E2BIG :: int where "CPU_E2BIG \<equiv> 7"

lemma length_skip_spaces: "length (skip_spaces s) \<le> length s"
  by (induction s rule: skip_spaces.induct) auto

lemma scan_int_shorter: "scan_int s = Some (a, r) \<Longrightarrow> length r < length s"
proof -
  assume a: "scan_int s = Some (a, r)"
  then obtain neg t where t: "scan_sign (skip_spaces s) = (neg, t)" "r = dropWhile is_digit t" "takeWhile is_digit t \<noteq> []"
    by (auto simp: scan_int_def Let_def split: prod.splits if_splits)
  have sign: "length (snd (scan_sign u)) \<le> length u" for u by (cases u) auto
  have "length t \<le> length (skip_spaces s)" using sign [of "skip_spaces s"] t(1) by simp
  have "length t = length (takeWhile is_digit t) + length r"
    unfolding t(2) by (metis length_append takeWhile_dropWhile_id)
  moreover have "0 < length (takeWhile is_digit t)" using t(3) by simp
  ultimately show ?thesis using \<open>length t \<le> _\<close> length_skip_spaces [of s] by linarith
qed

lemma scan_range_shorter: "scan_range s = (n, a, b, r) \<Longrightarrow> 0 < n \<Longrightarrow> length r < length s"
  by (auto simp: scan_range_def split: option.splits list.splits if_splits dest!: scan_int_shorter)

text \<open>The mask is a list of flags. Setting the flags between the old end and the new range with a negative
  number of bytes writes outside of the array.\<close>

function parse_cpu_loop :: "(nat \<Rightarrow> bool) \<Rightarrow> string \<Rightarrow> bool list \<Rightarrow> (int \<times> bool list) res" where
  "parse_cpu_loop alloc s m =
     (case s of
        [] \<Rightarrow> if m = [] then Inr (- CPU_EINVAL, m) else Inr (0, m)
      | c # cs \<Rightarrow>
          if c = CHR '','' \<or> c = CHR 0x0A then parse_cpu_loop alloc cs m
          else (case scan_range s of (n, start, b, r) \<Rightarrow>
            if n \<le> 0 \<or> n > 2 then Inr (- CPU_EINVAL, [])
            else
              let end_cpu = (if n = 1 then start else b)
              in if start < 0 \<or> start > end_cpu then Inr (- CPU_EINVAL, [])
                 else if \<not> alloc (nat end_cpu + 1) then Inr (- CPU_ENOMEM, [])
                 else if nat start < length m then Inl OutOfBounds
                 else parse_cpu_loop alloc r
                        (m @ replicate (nat start - length m) False @ replicate (nat (end_cpu - start + 1)) True)))"
  by pat_completeness auto
termination
  by (relation "measure (\<lambda>(al, s, m). length s)") (auto dest: scan_range_shorter [OF sym])

declare parse_cpu_loop.simps [simp del]

definition parse_cpu_mask_str :: "(nat \<Rightarrow> bool) \<Rightarrow> string \<Rightarrow> (int \<times> bool list) res" where
  "parse_cpu_mask_str alloc s = parse_cpu_loop alloc s []"

text \<open>\<open>file_read\<close> is the result of opening and reading at most 128 bytes of the file: an error number, or
  the bytes.\<close>

definition parse_cpu_mask_file :: "(nat \<Rightarrow> bool) \<Rightarrow> int + string \<Rightarrow> (int \<times> bool list) res" where
  "parse_cpu_mask_file alloc file_read =
     (case file_read of
        Inl err \<Rightarrow> Inr (- err, [])
      | Inr text \<Rightarrow>
          if text = [] then Inr (- CPU_EINVAL, [])
          else if length text \<ge> 128 then Inr (- CPU_E2BIG, [])
          else rbind (cstr (text @ [NUL])) (parse_cpu_mask_str alloc))"

text \<open>The count is kept in a static variable.\<close>

definition libbpf_num_possible_cpus :: "(nat \<Rightarrow> bool) \<Rightarrow> int + string \<Rightarrow> int \<Rightarrow> (int \<times> int) res" where
  "libbpf_num_possible_cpus alloc file_read cpus =
     (if cpus > 0 then Inr (cpus, cpus)
      else rbind (parse_cpu_mask_file alloc file_read) (\<lambda>(err, m).
        if err \<noteq> 0 then Inr (err, cpus)
        else Inr (int (length (filter (\<lambda>b. b) m)), int (length (filter (\<lambda>b. b) m)))))"

section \<open>Lists of ranges as text\<close>

definition digit :: "nat \<Rightarrow> char" where "digit d = char_of (d + 48)"

fun dec :: "nat \<Rightarrow> string" where
  "dec n = (if n < 10 then [digit n] else dec (n div 10) @ [digit (n mod 10)])"

declare dec.simps [simp del]

lemma of_char_digit: "d < 10 \<Longrightarrow> (of_char (digit d) :: int) = int d + 48"
proof -
  assume "d < 10"
  then have "(of_char (digit d) :: nat) = d + 48" by (simp add: digit_def)
  then have "int (of_char (digit d)) = int d + 48" by linarith
  then show ?thesis by (simp only: of_nat_of_char)
qed

lemma is_digit_digit [simp]: "d < 10 \<Longrightarrow> is_digit (digit d)"
  by (simp add: is_digit_def of_char_digit)

lemma dec_digits: "\<forall>c \<in> set (dec n). is_digit c"
  by (induction n rule: dec.induct) (subst dec.simps, auto)

lemma dec_not_Nil [simp]: "dec n \<noteq> []"
  by (subst dec.simps) simp

lemma digits_value_snoc:
  "\<forall>c \<in> set xs. is_digit c \<Longrightarrow> is_digit c \<Longrightarrow> digits_value a (xs @ [c]) = 10 * digits_value a xs + (of_char c - 48)"
  by (induction a xs rule: digits_value.induct) (auto simp: is_digit_def)

lemma digits_value_dec: "digits_value 0 (dec n) = int n"
proof (induction n rule: dec.induct)
  case (1 n)
  show ?case
  proof (cases "n < 10")
    case True
    then show ?thesis by (subst dec.simps) (simp add: of_char_digit)
  next
    case False
    then have "digits_value 0 (dec n) = 10 * digits_value 0 (dec (n div 10)) + (of_char (digit (n mod 10)) - 48)"
      by (subst dec.simps) (simp add: digits_value_snoc dec_digits)
    also have "\<dots> = 10 * int (n div 10) + int (n mod 10)" using 1 False by (simp add: of_char_digit)
    also have "\<dots> = int n" using mult_div_mod_eq [of 10 n] by linarith
    finally show ?thesis .
  qed
qed

lemma not_digit: "\<not> is_digit CHR '',''" "\<not> is_digit CHR ''-''" "\<not> is_digit CHR 0x0A"
  "\<not> is_digit CHR ''+''" "\<not> is_digit CHR 0x20" "\<not> is_digit CHR 0x09" "\<not> is_digit CHR 0x0B"
  "\<not> is_digit CHR 0x0C" "\<not> is_digit CHR 0x0D"
  by (simp_all add: is_digit_def)

lemma skip_digit: "is_digit c \<Longrightarrow> skip_spaces (c # cs) = c # cs"
  using not_digit by auto

lemma sign_digit: "is_digit c \<Longrightarrow> scan_sign (c # cs) = (False, c # cs)"
  using not_digit by auto

definition no_digit :: "string \<Rightarrow> bool" where
  "no_digit r \<longleftrightarrow> (case r of [] \<Rightarrow> True | c # _ \<Rightarrow> \<not> is_digit c)"

lemma scan_int_dec:
  assumes "no_digit r"
  shows "scan_int (dec n @ r) = Some (int n, r)"
proof -
  obtain c cs where d: "dec n = c # cs" "is_digit c" using dec_digits [of n] by (cases "dec n") auto
  have tw: "takeWhile is_digit (dec n @ r) = dec n" "dropWhile is_digit (dec n @ r) = r"
    using dec_digits [of n] assms by (auto simp: no_digit_def takeWhile_append dropWhile_append split: list.splits)
  have "skip_spaces (dec n @ r) = dec n @ r" "scan_sign (dec n @ r) = (False, dec n @ r)"
    using d skip_digit [of c] sign_digit [of c] by simp_all
  then show ?thesis using tw digits_value_dec [of n] by (simp add: scan_int_def Let_def)
qed

definition render_range :: "nat \<times> nat \<Rightarrow> string" where
  "render_range r = (if fst r = snd r then dec (fst r) else dec (fst r) @ CHR ''-'' # dec (snd r))"

fun render_cpus :: "(nat \<times> nat) list \<Rightarrow> string" where
  "render_cpus [] = []"
| "render_cpus [r] = render_range r"
| "render_cpus (r # rs) = render_range r @ CHR '','' # render_cpus rs"

lemma scan_range_render:
  assumes "no_digit r" "\<And>cs. r \<noteq> CHR ''-'' # cs"
  shows "scan_range (render_range (a, b) @ r) = (if a = b then (1, int a, 0, r) else (2, int a, int b, r))"
proof (cases "a = b")
  case True
  then show ?thesis using assms by (auto simp: scan_range_def render_range_def scan_int_dec split: list.splits)
next
  case False
  have "no_digit (CHR ''-'' # dec b @ r)" using not_digit(2) by (simp add: no_digit_def)
  then show ?thesis using False assms by (simp add: scan_range_def render_range_def scan_int_dec)
qed

text \<open>Ranges in ascending order, and the flags they stand for.\<close>

fun ranges_ok :: "nat \<Rightarrow> (nat \<times> nat) list \<Rightarrow> bool" where
  "ranges_ok lo [] \<longleftrightarrow> True"
| "ranges_ok lo ((a, b) # rs) \<longleftrightarrow> lo \<le> a \<and> a \<le> b \<and> ranges_ok (Suc b) rs"

fun mask_of :: "bool list \<Rightarrow> (nat \<times> nat) list \<Rightarrow> bool list" where
  "mask_of m [] = m"
| "mask_of m ((a, b) # rs) = mask_of (m @ replicate (a - length m) False @ replicate (b - a + 1) True) rs"

lemma render_range_first: "\<exists>c cs. render_range r = c # cs \<and> is_digit c"
proof -
  obtain c cs where "dec (fst r) = c # cs" "is_digit c" using dec_digits [of "fst r"] by (cases "dec (fst r)") auto
  then show ?thesis by (auto simp: render_range_def)
qed

lemma parse_cpu_step:
  assumes "no_digit r" "\<And>cs. r \<noteq> CHR ''-'' # cs" "length m \<le> a" "a \<le> b" "\<And>n. alloc n"
  shows "parse_cpu_loop alloc (render_range (a, b) @ r) m =
    parse_cpu_loop alloc r (m @ replicate (a - length m) False @ replicate (b - a + 1) True)"
proof -
  obtain c cs where c: "render_range (a, b) = c # cs" "is_digit c" using render_range_first by blast
  have neq: "c \<noteq> CHR '',''" "c \<noteq> CHR 0x0A" using c(2) not_digit by auto
  have n: "nat (int b - int a + 1) = b - a + 1" using assms(4) by simp
  show ?thesis
    using scan_range_render [OF assms(1,2), of a b] c(1) neq assms(3-5) n
    by (subst parse_cpu_loop.simps) (auto simp: Let_def)
qed

lemma parse_cpu_render:
  assumes "ranges_ok (length m) rs" "rs \<noteq> [] \<or> m \<noteq> []" "\<And>n. alloc n"
  shows "parse_cpu_loop alloc (render_cpus rs) m = Inr (0, mask_of m rs)"
  using assms(1,2)
proof (induction rs arbitrary: m rule: render_cpus.induct)
  case 1
  then show ?case by (subst parse_cpu_loop.simps) simp
next
  case (2 r)
  obtain a b where r: "r = (a, b)" by fastforce
  have "parse_cpu_loop alloc (render_range (a, b) @ []) m =
      parse_cpu_loop alloc [] (m @ replicate (a - length m) False @ replicate (b - a + 1) True)"
    using 2 r assms(3) by (intro parse_cpu_step) (simp_all add: no_digit_def)
  also have "\<dots> = Inr (0, m @ replicate (a - length m) False @ replicate (b - a + 1) True)"
    by (subst parse_cpu_loop.simps) simp
  finally show ?case using r by simp
next
  case (3 r r2 rs)
  obtain a b where r: "r = (a, b)" by fastforce
  let ?m = "m @ replicate (a - length m) False @ replicate (b - a + 1) True"
  have l: "length m \<le> a" "a \<le> b" "length ?m = Suc b" using "3.prems" r by simp_all
  have "parse_cpu_loop alloc (render_range (a, b) @ CHR '','' # render_cpus (r2 # rs)) m =
      parse_cpu_loop alloc (CHR '','' # render_cpus (r2 # rs)) ?m"
    using l assms(3) not_digit(1) by (intro parse_cpu_step) (simp_all add: no_digit_def)
  also have "\<dots> = parse_cpu_loop alloc (render_cpus (r2 # rs)) ?m" by (subst parse_cpu_loop.simps) simp
  also have "\<dots> = Inr (0, mask_of ?m (r2 # rs))" using "3.prems" r l by (intro "3.IH") auto
  finally show ?case using r by simp
qed

lemma mask_of_count:
  "ranges_ok (length m) rs \<Longrightarrow> length (filter (\<lambda>b. b) (mask_of m rs)) =
    length (filter (\<lambda>b. b) m) + (\<Sum>(a, b) \<leftarrow> rs. b - a + 1)"
  by (induction m rs rule: mask_of.induct) (auto simp: filter_replicate)


section \<open>Properties\<close>

text \<open>Reading the list of the processors: the mask has one flag for each processor up to the last, and the
  count is the sum of the sizes of the ranges, for ranges in ascending order.\<close>

theorem cpu_list_counted:
  assumes "ranges_ok 0 rs" "rs \<noteq> []" "\<And>n. alloc n" "length (render_cpus rs) < 128"
  shows "parse_cpu_mask_file alloc (Inr (render_cpus rs)) = Inr (0, mask_of [] rs) \<and>
     libbpf_num_possible_cpus alloc (Inr (render_cpus rs)) 0 =
       Inr (int (\<Sum>(a, b) \<leftarrow> rs. b - a + 1), int (\<Sum>(a, b) \<leftarrow> rs. b - a + 1))"
proof -
  have no: "is_digit c \<or> c = CHR ''-'' \<or> c = CHR '',''" if "c \<in> set (render_cpus rs)" for c
    using that
  proof (induction rs rule: render_cpus.induct)
    case (2 r)
    then show ?case using dec_digits by (auto simp: render_range_def split: if_splits)
  next
    case (3 r r2 rs)
    then show ?case using dec_digits by (auto simp: render_range_def split: if_splits)
  qed simp
  have "\<not> is_digit NUL" by (simp add: is_digit_def)
  then have "c_string (render_cpus rs)" using no by (auto simp: c_string_def)
  then have "cstr (render_cpus rs @ [NUL]) = Inr (render_cpus rs)" by (rule cstr_append)
  moreover obtain r rs' where "rs = r # rs'" using assms(2) by (cases rs) auto
  then have "render_cpus rs \<noteq> []" using render_range_first [of r] by (cases rs') auto
  moreover have "parse_cpu_mask_str alloc (render_cpus rs) = Inr (0, mask_of [] rs)"
    using parse_cpu_render [of "[]" rs alloc] assms(1-3) by (simp add: parse_cpu_mask_str_def)
  ultimately have "parse_cpu_mask_file alloc (Inr (render_cpus rs)) = Inr (0, mask_of [] rs)"
    using assms(4) by (simp add: parse_cpu_mask_file_def)
  then show ?thesis using mask_of_count [of "[]" rs] assms(1) by (simp add: libbpf_num_possible_cpus_def)
qed

text \<open>The two ways to count agree when the processors are one range from 0 on.\<close>

theorem cpu_counts_agree:
  assumes "\<And>n. alloc n" "length (render_cpus [(0, b)]) < 128" "b < 4294967295"
  shows "bpf_num_possible_cpus (Some (render_cpus [(0, b)] @ [CHR 0x0A])) junk = Value (word_of_nat (Suc b)) \<and>
     libbpf_num_possible_cpus alloc (Inr (render_cpus [(0, b)])) 0 = Inr (int (Suc b), int (Suc b))"
proof -
  let ?t = "render_range (0, b)"
  have no: "c \<noteq> CHR 0x0A" if "c \<in> set ?t" for c
    using that dec_digits [of 0] dec_digits [of b] not_digit(3) by (auto simp: render_range_def split: if_splits)
  then have tw: "takeWhile (\<lambda>c. c \<noteq> CHR 0x0A) (?t @ [CHR 0x0A]) = ?t" by (simp add: takeWhile_append2)
  have sr: "scan_range (?t @ [CHR 0x0A]) = (if 0 = b then (1, int 0, 0, [CHR 0x0A]) else (2, int 0, int b, [CHR 0x0A]))"
    using not_digit(3) by (intro scan_range_render) (simp_all add: no_digit_def)
  have tk: "take 127 (?t @ [CHR 0x0A]) = ?t @ [CHR 0x0A] \<or> length ?t = 127" using assms(2) by auto
  show ?thesis
  proof (cases "length ?t = 127")
    case False
    then have "take 127 (?t @ [CHR 0x0A]) = ?t @ [CHR 0x0A]" using tk by blast
    then show ?thesis
      using tw sr cpu_list_counted [of "[(0, b)]" alloc] assms(1,2)
      by (auto simp: bpf_num_possible_cpus_def Let_def add.commute)
  next
    case True
    have sr': "scan_range (?t @ []) = (if 0 = b then (1, int 0, 0, []) else (2, int 0, int b, []))"
      by (intro scan_range_render) (simp_all add: no_digit_def)
    have "take 127 (?t @ [CHR 0x0A]) = ?t" using True by simp
    then show ?thesis
      using tw sr' cpu_list_counted [of "[(0, b)]" alloc] assms(1,2)
      by (auto simp: bpf_num_possible_cpus_def Let_def add.commute)
  qed
qed

text \<open>With a gap in the list the statistics program counts only the first range, and nothing when that
  does not begin with processor 0: its buffer is then too small for the values of the kernel.\<close>

theorem cpu_count_too_small:
  "bpf_num_possible_cpus (Some (''0-1,4-5'' @ [CHR 0x0A])) junk = Value 2 \<and>
   libbpf_num_possible_cpus (\<lambda>_. True) (Inr (''0-1,4-5'' @ [CHR 0x0A])) 0 = Inr (4, 4) \<and>
   bpf_num_possible_cpus (Some (''2-3'' @ [CHR 0x0A])) junk = Value 0"
  by code_simp

text \<open>A list whose ranges are not in ascending order makes libbpf clear a negative number of flags, behind the
  end of its array.\<close>

theorem unordered_ranges_overflow:
  "parse_cpu_mask_str (\<lambda>_. True) ''4-5,0-1'' = Inl OutOfBounds"
  by code_simp

section \<open>Concrete runs\<close>

theorem cpu_list_counted_witness:
  "parse_cpu_mask_file (\<lambda>_. True) (Inr (render_cpus [(0, 1), (4, 4)])) = Inr (0, [True, True, False, False, True])"
proof -
  have "length (render_cpus [(0, 1), (4, 4)]) < 128" by code_simp
  then show ?thesis using cpu_list_counted [of "[(0, 1), (4, 4)]" "\<lambda>_. True"] by (simp add: numeral_2_eq_2)
qed

theorem cpu_counts_agree_witness:
  "bpf_num_possible_cpus (Some (render_cpus [(0, 11)] @ [CHR 0x0A])) (0, 0) = Value 12"
proof -
  have "length (render_cpus [(0, 11)]) < 128" by code_simp
  then show ?thesis using cpu_counts_agree [of "\<lambda>_. True" 11 "(0, 0)"] by simp
qed

end
