(* ===== verification/User_Stats.thy ===== *)
theory User_Stats
  imports User_Loader User_Cpus Xdp_Forward
begin

text \<open>
  The program \<open>xdp/loader/xdp_stats.c\<close>: it reads the statistics map that the XDP program fills and
  prints the differences between two readings. The counters are 64-bit words that wrap around. The
  rates, which are computed with floating point numbers, are not modelled: a line of output is the
  action with its counters, the differences and the period. A failing clock and a list of processors
  that cannot be read make the program exit; a buffer that is too small for what the kernel copies to
  it is a fault. What the kernel answers is a parameter of each step.
\<close>

definition NANOSEC_PER_SEC :: u64 where "NANOSEC_PER_SEC = 1000000000"

definition gettime :: "int \<Rightarrow> int \<Rightarrow> int \<Rightarrow> u64 exits" where
  "gettime res tv_sec tv_nsec =
     (if res < 0 then Exit EXIT_FAIL
      else Value (word_of_int tv_sec * NANOSEC_PER_SEC + word_of_int tv_nsec))"

text \<open>What runs between a fault, a call of \<open>exit\<close> and a value.\<close>

definition xbind :: "'a exits res \<Rightarrow> ('a \<Rightarrow> 'b exits res) \<Rightarrow> 'b exits res" where
  "xbind m f = rbind m (\<lambda>r. case r of Exit c \<Rightarrow> Inr (Exit c) | Value x \<Rightarrow> f x)"

lemma xbind_simps [simp]:
  "xbind (Inl e) f = Inl e" "xbind (Inr (Exit c)) f = Inr (Exit c)" "xbind (Inr (Value x)) f = f x"
  by (simp_all add: xbind_def)

record stat_record =
  timestamp :: u64
  total :: datarec

section \<open>Reading the map\<close>

text \<open>A reading of the kernel: the clock, the file with the list of the possible processors (and what
  the two uninitialised variables of \<open>bpf_num_possible_cpus\<close> hold), and for every key the values that
  the kernel copies, one per processor, or a failing lookup. \<open>r_junk\<close> is the content of the local
  variable \<open>value\<close> of \<open>map_collect\<close>, and \<open>r_stack\<close> that of the array \<open>values\<close>; neither is initialised.\<close>

record reading =
  r_clock :: "int \<times> int \<times> int"
  r_possible :: "string option"
  r_scan :: "int \<times> int"
  r_lookup :: "u32 \<Rightarrow> datarec list option"
  r_junk :: datarec
  r_stack :: "nat \<Rightarrow> datarec"

definition map_get_value_array :: "datarec option \<Rightarrow> datarec \<Rightarrow> datarec" where
  "map_get_value_array lookup junk = (case lookup of None \<Rightarrow> junk | Some v \<Rightarrow> v)"

fun sum_values :: "datarec list \<Rightarrow> u64 \<Rightarrow> u64 \<Rightarrow> datarec" where
  "sum_values [] sum_pkts sum_bytes = \<lparr>rx_packets = sum_pkts, rx_bytes = sum_bytes\<rparr>"
| "sum_values (v # vs) sum_pkts sum_bytes = sum_values vs (sum_pkts + rx_packets v) (sum_bytes + rx_bytes v)"

text \<open>The array \<open>values\<close> has \<open>nr_cpus\<close> elements. The kernel does not know its size and copies a value
  for each processor it has; the loop adds the elements of the array.\<close>

definition map_get_value_percpu_array :: "reading \<Rightarrow> u32 \<Rightarrow> datarec exits res" where
  "map_get_value_percpu_array R key =
     xbind (Inr (bpf_num_possible_cpus (r_possible R) (r_scan R))) (\<lambda>nr_cpus.
       (case r_lookup R key of
          None \<Rightarrow> Inr (Value (r_junk R))
        | Some vs \<Rightarrow>
            if unat nr_cpus < length vs then Inl OutOfBounds
            else Inr (Value (sum_values (vs @ List.map (r_stack R) [length vs..<unat nr_cpus]) 0 0))))"

abbreviation (input) BPF_MAP_TYPE_ARRAY :: u32 where "BPF_MAP_TYPE_ARRAY \<equiv> 2"
abbreviation (input) BPF_MAP_TYPE_PERCPU_ARRAY :: u32 where "BPF_MAP_TYPE_PERCPU_ARRAY \<equiv> 6"

definition map_collect :: "reading \<Rightarrow> u32 \<Rightarrow> u32 \<Rightarrow> stat_record \<Rightarrow> (bool \<times> stat_record) exits res" where
  "map_collect R map_type key rec =
     (case r_clock R of (err, sec, nsec) \<Rightarrow> xbind (Inr (gettime err sec nsec)) (\<lambda>now.
        let rec = rec\<lparr>timestamp := now\<rparr>
        in if map_type = BPF_MAP_TYPE_ARRAY then
             Inr (Value (True, rec\<lparr>total := map_get_value_array (map_option hd (r_lookup R key)) (r_junk R)\<rparr>))
           else if map_type = BPF_MAP_TYPE_PERCPU_ARRAY then
             xbind (map_get_value_percpu_array R key) (\<lambda>v. Inr (Value (True, rec\<lparr>total := v\<rparr>)))
           else Inr (Value (False, rec))))"

text \<open>\<open>stats_record\<close> is the array of the records of the actions.\<close>

fun collect_loop :: "reading list \<Rightarrow> u32 \<Rightarrow> nat \<Rightarrow> stat_record list \<Rightarrow> stat_record list exits res" where
  "collect_loop (R # Rs) map_type key recs =
     (if key < unat XDP_ACTION_MAX
      then xbind (map_collect R map_type (word_of_nat key) (recs ! key)) (\<lambda>(_, rec).
             collect_loop Rs map_type (key + 1) (recs[key := rec]))
      else Inr (Value recs))"
| "collect_loop [] map_type key recs = Inr (Value recs)"

definition stats_collect :: "reading list \<Rightarrow> u32 \<Rightarrow> stat_record list \<Rightarrow> stat_record list exits res" where
  "stats_collect Rs map_type recs = collect_loop Rs map_type 0 recs"

section \<open>Printing\<close>

record stat_line =
  sl_action :: "string option"
  sl_packets :: u64
  sl_bytes :: u64
  sl_new_packets :: u64
  sl_new_bytes :: u64
  sl_period :: u64

definition calc_period :: "stat_record \<Rightarrow> stat_record \<Rightarrow> u64" where
  "calc_period r p = timestamp r - timestamp p"

text \<open>The loop over the actions; it returns at the first action whose period is zero.\<close>

fun print_loop :: "nat \<Rightarrow> stat_record list \<Rightarrow> stat_record list \<Rightarrow> stat_line list" where
  "print_loop i (r # rs) (p # ps) =
     (let period = calc_period r p
      in if period = 0 then []
         else \<lparr>sl_action = action2str (word_of_nat i), sl_packets = rx_packets (total r),
               sl_bytes = rx_bytes (total r),
               sl_new_packets = rx_packets (total r) - rx_packets (total p),
               sl_new_bytes = rx_bytes (total r) - rx_bytes (total p), sl_period = period\<rparr> #
              print_loop (i + 1) rs ps)"
| "print_loop i _ _ = []"

definition stats_print :: "stat_record list \<Rightarrow> stat_record list \<Rightarrow> stat_line list" where
  "stats_print stats_rec stats_prev = print_loop 0 stats_rec stats_prev"

section \<open>Polling\<close>

text \<open>One round of the endless loop: what opening the map gives (a descriptor and its identifier)
  and the readings for the actions. The result: the loop continues with the new records and the
  lines printed, or it ends with a return value.\<close>

record poll_round =
  pr_fd :: int
  pr_id :: u32
  pr_readings :: "reading list"

definition poll_step ::
    "u32 \<Rightarrow> u32 \<Rightarrow> poll_round \<Rightarrow> stat_record list \<Rightarrow> (int + (stat_record list \<times> stat_line list)) exits res" where
  "poll_step map_id map_type rd rec =
     (if pr_fd rd < 0 then Inr (Value (Inl EXIT_FAIL_BPF))
      else if map_id \<noteq> pr_id rd then Inr (Value (Inl 0))
      else xbind (stats_collect (pr_readings rd) map_type rec) (\<lambda>new.
             Inr (Value (Inr (new, stats_print new rec)))))"

text \<open>The loop over the rounds that are given: \<open>Inl\<close> when it returned, \<open>Inr\<close> when it still runs.\<close>

type_synonym polled = "(int \<times> poll_round list + stat_record list) exits res"

fun poll_loop ::
    "u32 \<Rightarrow> u32 \<Rightarrow> poll_round list \<Rightarrow> stat_record list \<Rightarrow> stat_line list list \<Rightarrow> polled \<times> stat_line list list" where
  "poll_loop map_id map_type [] rec out = (Inr (Value (Inr rec)), out)"
| "poll_loop map_id map_type (rd # rds) rec out =
     (case poll_step map_id map_type rd rec of
        Inl e \<Rightarrow> (Inl e, out)
      | Inr (Exit c) \<Rightarrow> (Inr (Exit c), out)
      | Inr (Value (Inl rc)) \<Rightarrow> (Inr (Value (Inl (rc, rds))), out)
      | Inr (Value (Inr (new, l))) \<Rightarrow> poll_loop map_id map_type rds new (out @ [l]))"

definition stats_zero :: "stat_record list" where
  "stats_zero = replicate (unat XDP_ACTION_MAX) \<lparr>timestamp = 0, total = \<lparr>rx_packets = 0, rx_bytes = 0\<rparr>\<rparr>"

definition stats_poll ::
    "u32 \<Rightarrow> u32 \<Rightarrow> reading list \<Rightarrow> poll_round list \<Rightarrow> polled \<times> stat_line list list" where
  "stats_poll map_id map_type first rds =
     (case stats_collect first map_type stats_zero of
        Inl e \<Rightarrow> (Inl e, [])
      | Inr (Exit c) \<Rightarrow> (Inr (Exit c), [])
      | Inr (Value record) \<Rightarrow> poll_loop map_id map_type rds record [])"

text \<open>The outer loop of \<open>main\<close> over the map files it finds: for each, the answer to opening it and
  the rounds of polling. \<open>None\<close> when it still runs.\<close>

record attempt =
  at_fd :: int
  at_info :: map_info
  at_first :: "reading list"
  at_rounds :: "poll_round list"

definition map_expect :: map_info where
  "map_expect = \<lparr>mi_type = 0, mi_id = 0, mi_key_size = 4, mi_value_size = 16, mi_max_entries = XDP_ACTION_MAX\<rparr>"

fun stats_loop :: "attempt list \<Rightarrow> int option res" where
  "stats_loop [] = Inr None"
| "stats_loop (a # as) =
     (if at_fd a < 0 then Inr (Some EXIT_FAIL_BPF)
      else let err = check_map_fd_info (at_info a) map_expect
           in if err \<noteq> 0 then Inr (Some err)
              else (case fst (stats_poll (mi_id (at_info a)) (mi_type (at_info a)) (at_first a) (at_rounds a)) of
                      Inl e \<Rightarrow> Inl e
                    | Inr (Exit c) \<Rightarrow> Inr (Some c)
                    | Inr (Value (Inr _)) \<Rightarrow> Inr None
                    | Inr (Value (Inl (err, _))) \<Rightarrow> if err < 0 then Inr (Some err) else stats_loop as))"

definition stats_options :: "option_wrapper list" where
  "stats_options =
     [option_entry ''help'' False (opt CHR ''h'') ''Show help'' None False,
      option_entry ''dev'' True (opt CHR ''d'') ''Operate on device <ifname>'' (Some ''<ifname>'') True,
      option_entry ''quiet'' False (opt CHR ''q'') ''Quiet mode (no output)'' None False,
      option_end]"

definition stats_doc :: string where
  "stats_doc = ''XDP stats program'' @ [CHR 0x0A] @ '' - Finding xdp_stats_map via --dev name info'' @ [CHR 0x0A]"

text \<open>\<open>None\<close>: the program still polls. The attempts depend on the directory of the interface.\<close>

definition stats_main ::
    "(string \<Rightarrow> int) \<Rightarrow> bool \<Rightarrow> string \<Rightarrow> nat \<Rightarrow> (option_wrapper list \<Rightarrow> (int \<times> string) res list) \<Rightarrow> (string \<Rightarrow> attempt list) \<Rightarrow> int option res" where
  "stats_main nametoindex malloc_ok prog argc getopt_long attempts =
     rbind (parse_cmdline_args nametoindex malloc_ok stats_options stats_doc prog getopt_long
              (config_zero\<lparr>cfg_ifindex := - 1\<rparr>, True)) (\<lambda>r.
       (case r of
          Inl (code, _) \<Rightarrow> Inr (Some code)
        | Inr (cfg, _) \<Rightarrow>
            if cfg_ifindex cfg = - 1
            then rbind (usage prog stats_doc stats_options (argc = 1)) (\<lambda>_. Inr (Some EXIT_FAIL_OPTION))
            else rbind (the_ifname cfg) (\<lambda>dev.
              stats_loop (attempts (take (PATH_MAX - 1) (pin_basedir @ ''/'' @ dev))))))"

section \<open>Lemmas\<close>

lemma sum_values_eq:
  "sum_values vs p b = \<lparr>rx_packets = p + sum_list (List.map rx_packets vs), rx_bytes = b + sum_list (List.map rx_bytes vs)\<rparr>"
  by (induction vs arbitrary: p b) (simp_all add: add.assoc)

lemma sum_list_update_word:
  fixes f :: "datarec \<Rightarrow> u64"
  assumes "i < length vs"
  shows "sum_list (List.map f (vs[i := v])) = sum_list (List.map f vs) - f (vs ! i) + f v"
  using assms
proof (induction vs arbitrary: i)
  case (Cons a vs)
  then show ?case by (cases i) (simp_all add: algebra_simps)
qed simp

lemma poll_loop_result:
  "fst (poll_loop map_id ty rds rec out) = Inr (Value (Inl (rc, rest))) \<Longrightarrow> rc = 0 \<or> rc = EXIT_FAIL_BPF"
proof (induction rds arbitrary: rec out)
  case (Cons rd rds)
  then show ?case
    by (cases "stats_collect (pr_readings rd) ty rec")
      (auto simp: poll_step_def xbind_def split: if_splits sum.splits exits.splits)
qed simp

lemma stats_poll_result:
  "fst (stats_poll map_id ty Rs rds) = Inr (Value (Inl (rc, rest))) \<Longrightarrow> rc = 0 \<or> rc = EXIT_FAIL_BPF"
  using poll_loop_result by (fastforce simp: stats_poll_def split: sum.splits exits.splits)

lemma XDP_ACTION_MAX_nat: "unat XDP_ACTION_MAX = 5"
  by code_simp

text \<open>A reading that gives a value for every action leaves each value in the record of its action.\<close>

lemma collect_loop_values:
  assumes "length recs = 5" "key + length Rs = 5"
    and "\<And>i. i < length Rs \<Longrightarrow> map_collect (Rs ! i) ty (word_of_nat (key + i)) (recs ! (key + i)) = Inr (Value (b i, x i))"
  shows "\<exists>new. collect_loop Rs ty key recs = Inr (Value new) \<and> length new = 5 \<and>
     (\<forall>j<5. new ! j = (if key \<le> j then x (j - key) else recs ! j))"
  using assms
proof (induction Rs arbitrary: key recs b x)
  case (Cons R Rs)
  let ?recs = "recs[key := x 0]"
  have head: "map_collect R ty (word_of_nat key) (recs ! key) = Inr (Value (b 0, x 0))"
    using Cons.prems(3) [of 0] by simp
  have "map_collect (Rs ! i) ty (word_of_nat (Suc key + i)) (?recs ! (Suc key + i)) = Inr (Value (b (Suc i), x (Suc i)))"
    if "i < length Rs" for i
    using Cons.prems(3) [of "Suc i"] that by simp
  then obtain new where new: "collect_loop Rs ty (Suc key) ?recs = Inr (Value new)" "length new = 5"
    "\<forall>j<5. new ! j = (if Suc key \<le> j then x (Suc (j - Suc key)) else ?recs ! j)"
    using Cons.IH [of ?recs "Suc key" "\<lambda>i. b (Suc i)" "\<lambda>i. x (Suc i)"] Cons.prems(1,2) by auto
  have "new ! j = (if key \<le> j then x (j - key) else recs ! j)" if "j < 5" for j
  proof (cases "key < j")
    case True
    then have "Suc (j - Suc key) = j - key" by simp
    then show ?thesis using True new(3) that by simp
  qed (use new(3) that Cons.prems(1) in \<open>auto simp: nth_list_update not_less\<close>)
  then show ?case using head new(1,2) Cons.prems(2) by (simp add: XDP_ACTION_MAX_nat)
qed simp

section \<open>Properties\<close>

text \<open>C33. A packet that the XDP program counts is seen by the statistics program: the XDP program
  counts action \<open>a\<close> on processor \<open>c\<close>; when the list of the possible processors that the statistics
  program reads gives as many processors as the kernel has values for, the total read for \<open>a\<close> after the
  packet is the total read before it plus one packet and the length of the packet, modulo 2 to the 64.
  The count is wrong for a list with a gap, and the reading is then a buffer overrun.\<close>

theorem counted_packet_visible:
  assumes "a < XDP_ACTION_MAX" "c < length vals" "xdp_stats_map maps a = Some (vals ! c)"
    and "xdp_stats_record_action ctx a maps = (a', maps')" "xdp_stats_map maps' a = Some v"
    and "r_lookup R a = Some vals" "r_lookup R' a = Some (vals[c := v])"
    and "bpf_num_possible_cpus (r_possible R) (r_scan R) = Value (word_of_nat (length vals))"
    and "r_possible R' = r_possible R" "r_scan R' = r_scan R" "length vals < 2 ^ 32"
  shows "a' = a \<and> (\<exists>t. map_get_value_percpu_array R a = Inr (Value t) \<and>
     map_get_value_percpu_array R' a = Inr (Value \<lparr>rx_packets = rx_packets t + 1,
       rx_bytes = rx_bytes t + word_of_nat (length (pkt ctx))\<rparr>))"
proof -
  have v: "a' = a" "v = (vals ! c)\<lparr>rx_packets := rx_packets (vals ! c) + 1,
      rx_bytes := rx_bytes (vals ! c) + word_of_nat (length (pkt ctx))\<rparr>"
    using assms(1,3-5) by (auto simp: xdp_stats_record_action_def linorder_not_le [symmetric] split: if_splits)
  then show ?thesis
    using assms(2,6-11)
    by (simp add: map_get_value_percpu_array_def sum_values_eq sum_list_update_word unat_of_nat)
qed

theorem counted_packet_visible_witness:
  "map_get_value_percpu_array \<lparr>r_clock = (0, 9, 0), r_possible = Some (''0-1'' @ [CHR 0x0A]), r_scan = (0, 0),
       r_lookup = \<lambda>_. Some [\<lparr>rx_packets = 8, rx_bytes = 73\<rparr>, \<lparr>rx_packets = 4, rx_bytes = 44\<rparr>],
       r_junk = \<lparr>rx_packets = 0, rx_bytes = 0\<rparr>, r_stack = \<lambda>_. \<lparr>rx_packets = 5, rx_bytes = 5\<rparr>\<rparr> XDP_PASS =
     Inr (Value \<lparr>rx_packets = 12, rx_bytes = 117\<rparr>)"
proof -
  let ?vals = "[\<lparr>rx_packets = 7, rx_bytes = 70\<rparr>, \<lparr>rx_packets = 4, rx_bytes = 44\<rparr>] :: datarec list"
  let ?maps = "\<lparr>static_redirect_8b = Map.empty, xdp_stats_map = [XDP_PASS \<mapsto> ?vals ! 0]\<rparr>"
  let ?ctx = "\<lparr>pkt = [1, 2, 3], meta_area = [], ingress_ifindex = 0\<rparr>"
  let ?v = "\<lparr>rx_packets = 8, rx_bytes = 73\<rparr> :: datarec"
  let ?R = "\<lambda>l. \<lparr>r_clock = (0, 9, 0), r_possible = Some (''0-1'' @ [CHR 0x0A]), r_scan = (0, 0), r_lookup = \<lambda>_. Some l,
       r_junk = \<lparr>rx_packets = 0, rx_bytes = 0\<rparr>, r_stack = \<lambda>_. \<lparr>rx_packets = 5, rx_bytes = 5\<rparr>\<rparr> :: reading"
  have max: "XDP_PASS < XDP_ACTION_MAX" by code_simp
  then have cnt: "xdp_stats_record_action ?ctx XDP_PASS ?maps = (XDP_PASS, ?maps\<lparr>xdp_stats_map := [XDP_PASS \<mapsto> ?v]\<rparr>)"
    by (simp add: xdp_stats_record_action_def linorder_not_le [symmetric])
  have cpus: "bpf_num_possible_cpus (Some (''0-1'' @ [CHR 0x0A])) (0, 0) = Value 2" by code_simp
  then have "map_get_value_percpu_array (?R ?vals) XDP_PASS = Inr (Value \<lparr>rx_packets = 11, rx_bytes = 114\<rparr>)"
    by (simp add: map_get_value_percpu_array_def)
  moreover have "\<exists>t. map_get_value_percpu_array (?R ?vals) XDP_PASS = Inr (Value t) \<and>
      map_get_value_percpu_array (?R (?vals[0 := ?v])) XDP_PASS =
        Inr (Value \<lparr>rx_packets = rx_packets t + 1, rx_bytes = rx_bytes t + word_of_nat (length (pkt ?ctx))\<rparr>)"
    using counted_packet_visible [of XDP_PASS 0 ?vals ?maps ?ctx XDP_PASS "?maps\<lparr>xdp_stats_map := [XDP_PASS \<mapsto> ?v]\<rparr>" ?v
        "?R ?vals" "?R (?vals[0 := ?v])"] max cnt cpus by simp
  ultimately show ?thesis by simp
qed

text \<open>When the list of the processors gives fewer processors than the kernel has, the kernel writes
  behind the array of the values.\<close>

theorem stats_buffer_overrun:
  assumes "bpf_num_possible_cpus (r_possible R) (r_scan R) = Value n" "r_lookup R key = Some vals" "unat n < length vals"
  shows "map_get_value_percpu_array R key = Inl OutOfBounds"
  using assms by (simp add: map_get_value_percpu_array_def)

theorem stats_buffer_overrun_witness:
  "map_get_value_percpu_array \<lparr>r_clock = (0, 9, 0), r_possible = Some (''0-1,4-5'' @ [CHR 0x0A]), r_scan = (0, 0),
       r_lookup = \<lambda>_. Some (replicate 4 \<lparr>rx_packets = 1, rx_bytes = 60\<rparr>),
       r_junk = \<lparr>rx_packets = 0, rx_bytes = 0\<rparr>, r_stack = \<lambda>_. \<lparr>rx_packets = 5, rx_bytes = 5\<rparr>\<rparr> 2 = Inl OutOfBounds"
proof -
  have "bpf_num_possible_cpus (Some (''0-1,4-5'' @ [CHR 0x0A])) (0, 0) = Value 2" by code_simp
  then show ?thesis
    by (intro stats_buffer_overrun [where n = 2 and vals = "replicate 4 \<lparr>rx_packets = 1, rx_bytes = 60\<rparr>"]) simp_all
qed

text \<open>A reading of the whole map: with one reading per action, a clock that answers, no failing
  lookup and as many values as the list of the processors counts, every record has the time of its
  reading and the sum over the processors of the counters of its action.\<close>

theorem stats_collect_sums:
  assumes "length recs = 5" "length Rs = 5"
    and "\<And>i. i < 5 \<Longrightarrow> case r_clock (Rs ! i) of (e, s, n) \<Rightarrow> gettime e s n = Value (now i)"
    and "\<And>i. i < 5 \<Longrightarrow> r_lookup (Rs ! i) (word_of_nat i) = Some (vals i)"
    and "\<And>i. i < 5 \<Longrightarrow> bpf_num_possible_cpus (r_possible (Rs ! i)) (r_scan (Rs ! i)) = Value (cpus i)"
    and "\<And>i. i < 5 \<Longrightarrow> unat (cpus i) = length (vals i)"
  shows "\<exists>new. stats_collect Rs BPF_MAP_TYPE_PERCPU_ARRAY recs = Inr (Value new) \<and>
     (\<forall>j<5. new ! j = \<lparr>timestamp = now j, total = \<lparr>rx_packets = sum_list (List.map rx_packets (vals j)),
        rx_bytes = sum_list (List.map rx_bytes (vals j))\<rparr>\<rparr>)"
proof -
  have clock: "\<exists>e s n. r_clock (Rs ! i) = (e, s, n) \<and> gettime e s n = Value (now i)" if "i < 5" for i
    using assms(3) [OF that] by (cases "r_clock (Rs ! i)") simp
  have one: "map_collect (Rs ! i) 6 (word_of_nat (0 + i)) (recs ! (0 + i)) = Inr (Value (True,
      (recs ! i)\<lparr>timestamp := now i, total := \<lparr>rx_packets = sum_list (List.map rx_packets (vals i)),
        rx_bytes = sum_list (List.map rx_bytes (vals i))\<rparr>\<rparr>))" if "i < length Rs" for i
    using that assms(2) clock [of i] assms(4-6) [of i]
    by (auto simp: map_collect_def map_get_value_percpu_array_def sum_values_eq Let_def)
  have "\<exists>new. collect_loop Rs 6 0 recs = Inr (Value new) \<and> length new = 5 \<and>
     (\<forall>j<5. new ! j = (if 0 \<le> j then (recs ! (j - 0))\<lparr>timestamp := now (j - 0),
        total := \<lparr>rx_packets = sum_list (List.map rx_packets (vals (j - 0))),
          rx_bytes = sum_list (List.map rx_bytes (vals (j - 0)))\<rparr>\<rparr> else recs ! j))"
    using collect_loop_values [OF assms(1) _ one] assms(2) by simp
  then show ?thesis by (auto simp: stats_collect_def)
qed

theorem stats_collect_sums_witness:
  "\<exists>new. stats_collect (replicate 5 \<lparr>r_clock = (0, 0, 9), r_possible = Some (''0-1'' @ [CHR 0x0A]), r_scan = (0, 0),
       r_lookup = \<lambda>k. Some [\<lparr>rx_packets = 1, rx_bytes = 60\<rparr>, \<lparr>rx_packets = 2, rx_bytes = 120\<rparr>],
       r_junk = \<lparr>rx_packets = 0, rx_bytes = 0\<rparr>, r_stack = \<lambda>_. \<lparr>rx_packets = 5, rx_bytes = 5\<rparr>\<rparr>) 6 stats_zero = Inr (Value new) \<and>
     (\<forall>j<5. new ! j = \<lparr>timestamp = 9, total = \<lparr>rx_packets = 3, rx_bytes = 180\<rparr>\<rparr>)"
proof -
  let ?vals = "[\<lparr>rx_packets = 1, rx_bytes = 60\<rparr>, \<lparr>rx_packets = 2, rx_bytes = 120\<rparr>] :: datarec list"
  have sums: "sum_list (List.map rx_packets ?vals) = 3" "sum_list (List.map rx_bytes ?vals) = 180"
    by code_simp+
  have "bpf_num_possible_cpus (Some (''0-1'' @ [CHR 0x0A])) (0, 0) = Value 2" by code_simp
  then show ?thesis
    using stats_collect_sums [of stats_zero "replicate 5 \<lparr>r_clock = (0, 0, 9), r_possible = Some (''0-1'' @ [CHR 0x0A]),
       r_scan = (0, 0), r_lookup = \<lambda>k. Some ?vals, r_junk = \<lparr>rx_packets = 0, rx_bytes = 0\<rparr>,
       r_stack = \<lambda>_. \<lparr>rx_packets = 5, rx_bytes = 5\<rparr>\<rparr>" "\<lambda>_. 9" "\<lambda>_. ?vals" "\<lambda>_. 2"]
    unfolding sums by (simp add: stats_zero_def XDP_ACTION_MAX_nat gettime_def)
qed

text \<open>A failing lookup is not noticed: the value of the action is what the uninitialised local
  variable holds, and the reading counts as a success.\<close>

theorem failed_lookup_reports_junk:
  assumes "r_clock R = (e, s, n)" "gettime e s n = Value now" "r_lookup R key = None"
    and "bpf_num_possible_cpus (r_possible R) (r_scan R) = Value cpus"
  shows "map_collect R BPF_MAP_TYPE_PERCPU_ARRAY key rec = Inr (Value (True, rec\<lparr>timestamp := now, total := r_junk R\<rparr>))"
  using assms by (simp add: map_collect_def map_get_value_percpu_array_def)

theorem failed_lookup_reports_junk_witness:
  "map_collect \<lparr>r_clock = (0, 0, 9), r_possible = Some (''0-1'' @ [CHR 0x0A]), r_scan = (0, 0), r_lookup = \<lambda>k. None,
       r_junk = \<lparr>rx_packets = 77, rx_bytes = 3\<rparr>, r_stack = \<lambda>_. \<lparr>rx_packets = 5, rx_bytes = 5\<rparr>\<rparr> 6 2
       \<lparr>timestamp = 0, total = \<lparr>rx_packets = 0, rx_bytes = 0\<rparr>\<rparr> =
     Inr (Value (True, \<lparr>timestamp = 9, total = \<lparr>rx_packets = 77, rx_bytes = 3\<rparr>\<rparr>))"
proof -
  have "bpf_num_possible_cpus (Some (''0-1'' @ [CHR 0x0A])) (0, 0) = Value 2" by code_simp
  then show ?thesis by (subst failed_lookup_reports_junk) (auto simp: gettime_def)
qed

text \<open>An error of the polling function never ends the program: it returns 0 or a positive exit
  code, and \<open>main\<close> only looks for a negative one, so it opens the map again.\<close>

theorem poll_errors_ignored:
  assumes "0 \<le> at_fd a" "check_map_fd_info (at_info a) map_expect = 0"
    and "fst (stats_poll (mi_id (at_info a)) (mi_type (at_info a)) (at_first a) (at_rounds a)) = Inr (Value (Inl (rc, rest)))"
  shows "stats_loop (a # as) = stats_loop as"
proof -
  have "\<not> rc < 0" using stats_poll_result [OF assms(3)] by (auto simp: exit_codes)
  then show ?thesis using assms by simp
qed

theorem poll_errors_ignored_witness:
  "stats_loop [\<lparr>at_fd = 3, at_info = \<lparr>mi_type = 6, mi_id = 1, mi_key_size = 4, mi_value_size = 16, mi_max_entries = 5\<rparr>,
      at_first = [], at_rounds = [\<lparr>pr_fd = - 1, pr_id = 0, pr_readings = []\<rparr>]\<rparr>] = Inr None"
  by (subst poll_errors_ignored)
    (simp_all add: check_map_fd_info_def map_expect_def xdp_actions stats_poll_def poll_step_def stats_collect_def)

end
