(* ===== verification/Libbpf_Hashmap.thy ===== *)
theory Libbpf_Hashmap
  imports C_String "HOL-Library.Multiset"
begin

text \<open>
  The hash map of libbpf (\<open>xdp/libbpf/src/hashmap.c\<close>, \<open>hashmap.h\<close>): chained buckets whose number
  is a power of two. A chain is the list of its entries, first entry first. \<open>size_t\<close> has 64 bits.
  Whether \<open>malloc\<close> and \<open>calloc\<close> find memory is a parameter of the operations; \<open>calloc\<close> fails when
  the size of the array does not fit into \<open>size_t\<close>. An access to a bucket outside the array, or
  while there is no array, is a fault. The contract of the two functions a client hands over is the
  locale \<open>hash_key\<close>, interpreted for the functions that libbpf uses.
\<close>

section \<open>Hashing\<close>

definition hash_bits :: "u64 \<Rightarrow> u64 \<Rightarrow> u64" where
  "hash_bits h bits =
     (if bits = 0 then 0 else drop_bit (64 - unat bits) (h * 11400714819323198485))"

text \<open>\<open>char\<close> is signed: a character above 127 is added as a negative number.\<close>

definition signed_char :: "char \<Rightarrow> u64" where
  "signed_char c = scast (of_char c :: u8)"

fun str_hash_loop :: "string \<Rightarrow> u64 \<Rightarrow> u64" where
  "str_hash_loop [] h = h"
| "str_hash_loop (c # s) h = str_hash_loop s (h * 31 + signed_char c)"

definition str_hash :: "string \<Rightarrow> u64" where
  "str_hash s = str_hash_loop s 0"

section \<open>The map\<close>

record ('k, 'v) hashmap_entry =
  he_key :: 'k
  he_value :: 'v

record ('k, 'v) hashmap =
  hash_fn :: "'k \<Rightarrow> u64"
  equal_fn :: "'k \<Rightarrow> 'k \<Rightarrow> bool"
  buckets :: "('k, 'v) hashmap_entry list list option"
  cap :: u64
  cap_bits :: u64
  sz :: u64

datatype hashmap_insert_strategy = HASHMAP_ADD | HASHMAP_SET | HASHMAP_UPDATE | HASHMAP_APPEND

abbreviation (input) HASHMAP_MIN_CAP_BITS :: u64 where "HASHMAP_MIN_CAP_BITS \<equiv> 2"
abbreviation (input) ENOMEM :: int where "ENOMEM \<equiv> 12"
abbreviation (input) EEXIST :: int where "EEXIST \<equiv> 17"
abbreviation (input) ENOENT :: int where "ENOENT \<equiv> 2"

definition hashmap_add_entry ::
    "('k, 'v) hashmap_entry list list \<Rightarrow> nat \<Rightarrow> ('k, 'v) hashmap_entry \<Rightarrow> ('k, 'v) hashmap_entry list list res" where
  "hashmap_add_entry bs h e = (if h < length bs then Inr (bs[h := e # bs ! h]) else Inl OutOfBounds)"

text \<open>Removing the entry at position \<open>i\<close> of a chain.\<close>

definition hashmap_del_entry :: "('k, 'v) hashmap_entry list \<Rightarrow> nat \<Rightarrow> ('k, 'v) hashmap_entry list" where
  "hashmap_del_entry es i = take i es @ drop (Suc i) es"

definition hashmap__init :: "('k \<Rightarrow> u64) \<Rightarrow> ('k \<Rightarrow> 'k \<Rightarrow> bool) \<Rightarrow> ('k, 'v) hashmap" where
  "hashmap__init hf eq = \<lparr>hash_fn = hf, equal_fn = eq, buckets = None, cap = 0, cap_bits = 0, sz = 0\<rparr>"

definition hashmap__new :: "bool \<Rightarrow> ('k \<Rightarrow> u64) \<Rightarrow> ('k \<Rightarrow> 'k \<Rightarrow> bool) \<Rightarrow> int + ('k, 'v) hashmap" where
  "hashmap__new malloc_ok hf eq = (if malloc_ok then Inr (hashmap__init hf eq) else Inl (- ENOMEM))"

text \<open>The loops over all entries, in the order in which they visit them.\<close>

definition hashmap__for_each_entry :: "('k, 'v) hashmap \<Rightarrow> ('k, 'v) hashmap_entry list res" where
  "hashmap__for_each_entry hm =
     (if cap hm = 0 then Inr []
      else (case buckets hm of
              None \<Rightarrow> Inl NullDeref
            | Some bs \<Rightarrow> if unat (cap hm) \<le> length bs then Inr (concat (take (unat (cap hm)) bs))
                         else Inl OutOfBounds))"

text \<open>Clearing gives the entries that are freed and the empty map.\<close>

definition hashmap__clear ::
    "('k, 'v) hashmap \<Rightarrow> (('k, 'v) hashmap_entry list \<times> ('k, 'v) hashmap) res" where
  "hashmap__clear hm =
     rbind (hashmap__for_each_entry hm) (\<lambda>es.
       Inr (es, hm\<lparr>buckets := None, cap := 0, cap_bits := 0, sz := 0\<rparr>))"

definition hashmap__free :: "('k, 'v) hashmap option \<Rightarrow> ('k, 'v) hashmap_entry list res" where
  "hashmap__free hm =
     (case hm of None \<Rightarrow> Inr [] | Some m \<Rightarrow> rbind (hashmap__clear m) (\<lambda>(es, _). Inr es))"

definition hashmap__size :: "('k, 'v) hashmap \<Rightarrow> u64" where "hashmap__size hm = sz hm"
definition hashmap__capacity :: "('k, 'v) hashmap \<Rightarrow> u64" where "hashmap__capacity hm = cap hm"

definition hashmap_needs_to_grow :: "('k, 'v) hashmap \<Rightarrow> bool" where
  "hashmap_needs_to_grow hm \<longleftrightarrow> cap hm = 0 \<or> (sz hm + 1) * 4 div 3 > cap hm"

fun rehash ::
    "('k \<Rightarrow> u64) \<Rightarrow> u64 \<Rightarrow> ('k, 'v) hashmap_entry list \<Rightarrow> ('k, 'v) hashmap_entry list list \<Rightarrow>
     ('k, 'v) hashmap_entry list list res" where
  "rehash hf bits [] nb = Inr nb"
| "rehash hf bits (e # es) nb =
     rbind (hashmap_add_entry nb (unat (hash_bits (hf (he_key e)) bits)) e) (rehash hf bits es)"

definition hashmap_grow :: "bool \<Rightarrow> ('k, 'v) hashmap \<Rightarrow> (int \<times> ('k, 'v) hashmap) res" where
  "hashmap_grow calloc_ok hm =
     (let new_cap_bits = cap_bits hm + 1;
          new_cap_bits = (if new_cap_bits < HASHMAP_MIN_CAP_BITS then HASHMAP_MIN_CAP_BITS else new_cap_bits);
          new_cap = push_bit (unat new_cap_bits) 1 :: u64
      in if \<not> calloc_ok \<or> 2 ^ 64 \<le> uint new_cap * 8 then Inr (- ENOMEM, hm)
         else
           rbind (hashmap__for_each_entry hm) (\<lambda>es.
           rbind (rehash (hash_fn hm) new_cap_bits es (replicate (unat new_cap) [])) (\<lambda>new_buckets.
             Inr (0, hm\<lparr>cap := new_cap, cap_bits := new_cap_bits, buckets := Some new_buckets\<rparr>))))"

fun find_pos :: "('k \<Rightarrow> 'k \<Rightarrow> bool) \<Rightarrow> 'k \<Rightarrow> ('k, 'v) hashmap_entry list \<Rightarrow> nat option" where
  "find_pos eq k [] = None"
| "find_pos eq k (e # es) = (if eq (he_key e) k then Some 0 else map_option Suc (find_pos eq k es))"

text \<open>The position in the chain of the bucket, and the entry.\<close>

definition hashmap_find_entry ::
    "('k, 'v) hashmap \<Rightarrow> 'k \<Rightarrow> u64 \<Rightarrow> (nat \<times> ('k, 'v) hashmap_entry) option res" where
  "hashmap_find_entry hm k hash =
     (case buckets hm of
        None \<Rightarrow> Inr None
      | Some bs \<Rightarrow>
          if unat hash < length bs
          then Inr (map_option (\<lambda>i. (i, bs ! unat hash ! i)) (find_pos (equal_fn hm) k (bs ! unat hash)))
          else Inl OutOfBounds)"

text \<open>Storing an entry or a whole chain into a bucket.\<close>

definition set_chain ::
    "('k, 'v) hashmap \<Rightarrow> u64 \<Rightarrow> (('k, 'v) hashmap_entry list \<Rightarrow> ('k, 'v) hashmap_entry list) \<Rightarrow> ('k, 'v) hashmap res" where
  "set_chain hm h f =
     (case buckets hm of
        None \<Rightarrow> Inl NullDeref
      | Some bs \<Rightarrow> if unat h < length bs then Inr (hm\<lparr>buckets := Some (bs[unat h := f (bs ! unat h)])\<rparr>)
                   else Inl OutOfBounds)"

text \<open>The result: the return value, the old key and value, and the map.\<close>

definition hashmap__insert ::
    "bool \<Rightarrow> bool \<Rightarrow> ('k, 'v) hashmap \<Rightarrow> 'k \<Rightarrow> 'v \<Rightarrow> hashmap_insert_strategy \<Rightarrow>
     (int \<times> ('k \<times> 'v) option \<times> ('k, 'v) hashmap) res" where
  "hashmap__insert calloc_ok malloc_ok hm k v strategy =
     (let h = hash_bits (hash_fn hm k) (cap_bits hm) in
      rbind (if strategy \<noteq> HASHMAP_APPEND then hashmap_find_entry hm k h else Inr None) (\<lambda>found.
      let old = map_option (\<lambda>(_, e). (he_key e, he_value e)) found in
      (case found of
         Some (i, e) \<Rightarrow>
           if strategy = HASHMAP_SET \<or> strategy = HASHMAP_UPDATE then
             rbind (set_chain hm h (\<lambda>es. es[i := \<lparr>he_key = k, he_value = v\<rparr>])) (\<lambda>hm. Inr (0, old, hm))
           else Inr (- EEXIST, old, hm)
       | None \<Rightarrow>
           if strategy = HASHMAP_UPDATE then Inr (- ENOENT, old, hm)
           else
             rbind (if hashmap_needs_to_grow hm
                    then rbind (hashmap_grow calloc_ok hm) (\<lambda>(err, hm).
                           Inr (err, hm, hash_bits (hash_fn hm k) (cap_bits hm)))
                    else Inr (0, hm, h)) (\<lambda>(err, hm, h).
               if err \<noteq> 0 then Inr (err, old, hm)
               else if \<not> malloc_ok then Inr (- ENOMEM, old, hm)
               else rbind (set_chain hm h (\<lambda>es. \<lparr>he_key = k, he_value = v\<rparr> # es)) (\<lambda>hm.
                      Inr (0, old, hm\<lparr>sz := sz hm + 1\<rparr>))))))"

definition hashmap__find :: "('k, 'v) hashmap \<Rightarrow> 'k \<Rightarrow> 'v option res" where
  "hashmap__find hm k =
     rbind (hashmap_find_entry hm k (hash_bits (hash_fn hm k) (cap_bits hm))) (\<lambda>found.
       Inr (map_option (\<lambda>(_, e). he_value e) found))"

definition hashmap__delete ::
    "('k, 'v) hashmap \<Rightarrow> 'k \<Rightarrow> (bool \<times> ('k \<times> 'v) option \<times> ('k, 'v) hashmap) res" where
  "hashmap__delete hm k =
     (let h = hash_bits (hash_fn hm k) (cap_bits hm) in
      rbind (hashmap_find_entry hm k h) (\<lambda>found.
        (case found of
           None \<Rightarrow> Inr (False, None, hm)
         | Some (i, e) \<Rightarrow>
             rbind (set_chain hm h (\<lambda>es. hashmap_del_entry es i)) (\<lambda>hm.
               Inr (True, Some (he_key e, he_value e), hm\<lparr>sz := sz hm - 1\<rparr>)))))"

definition hashmap__add where
  "hashmap__add c m hm k v = rbind (hashmap__insert c m hm k v HASHMAP_ADD) (\<lambda>(rc, _, hm). Inr (rc, hm))"
definition hashmap__set where "hashmap__set c m hm k v = hashmap__insert c m hm k v HASHMAP_SET"
definition hashmap__update where "hashmap__update c m hm k v = hashmap__insert c m hm k v HASHMAP_UPDATE"
definition hashmap__append where
  "hashmap__append c m hm k v = rbind (hashmap__insert c m hm k v HASHMAP_APPEND) (\<lambda>(rc, _, hm). Inr (rc, hm))"

text \<open>The loop over the entries of a key.\<close>

definition hashmap__for_each_key_entry :: "('k, 'v) hashmap \<Rightarrow> 'k \<Rightarrow> ('k, 'v) hashmap_entry list res" where
  "hashmap__for_each_key_entry hm k =
     (case buckets hm of
        None \<Rightarrow> Inr []
      | Some bs \<Rightarrow> let h = unat (hash_bits (hash_fn hm k) (cap_bits hm)) in
          if h < length bs then Inr (List.filter (\<lambda>e. equal_fn hm (he_key e) k) (bs ! h)) else Inl OutOfBounds)"

section \<open>The functions that libbpf hands over\<close>

definition str_equal_fn :: "string \<Rightarrow> string \<Rightarrow> bool" where "str_equal_fn a b \<longleftrightarrow> a = b"
definition btf_dedup_identity_hash_fn :: "u64 \<Rightarrow> u64" where "btf_dedup_identity_hash_fn k = k"
definition btf_dedup_collision_hash_fn :: "u64 \<Rightarrow> u64" where "btf_dedup_collision_hash_fn k = 0"
definition btf_dedup_equal_fn :: "u64 \<Rightarrow> u64 \<Rightarrow> bool" where "btf_dedup_equal_fn k1 k2 \<longleftrightarrow> k1 = k2"

section \<open>The contract of the client\<close>

text \<open>What the map needs from its two functions: the equality is an equivalence, and equal keys have
  the same hash.\<close>

locale hash_key =
  fixes hf :: "'k \<Rightarrow> u64" and eq :: "'k \<Rightarrow> 'k \<Rightarrow> bool"
  assumes eq_refl [simp]: "eq k k"
    and eq_sym: "eq k k' \<Longrightarrow> eq k' k"
    and eq_trans: "eq k k' \<Longrightarrow> eq k' k'' \<Longrightarrow> eq k k''"
    and eq_hash: "eq k k' \<Longrightarrow> hf k = hf k'"
begin

lemma eq_left: "eq a b \<Longrightarrow> eq a c = eq b c"
  using eq_sym eq_trans by blast

lemma eq_right: "eq a b \<Longrightarrow> eq c a = eq c b"
  using eq_sym eq_trans by blast

end

interpretation str_keys: hash_key str_hash str_equal_fn
  by unfold_locales (auto simp: str_equal_fn_def)

interpretation id_keys: hash_key btf_dedup_identity_hash_fn btf_dedup_equal_fn
  by unfold_locales (auto simp: btf_dedup_equal_fn_def)

interpretation collision_keys: hash_key btf_dedup_collision_hash_fn btf_dedup_equal_fn
  by unfold_locales (auto simp: btf_dedup_equal_fn_def btf_dedup_collision_hash_fn_def)

section \<open>Well-formed maps and their content\<close>

definition hash_index :: "('k, 'v) hashmap \<Rightarrow> 'k \<Rightarrow> nat" where
  "hash_index hm k = unat (hash_bits (hash_fn hm k) (cap_bits hm))"

definition entries :: "('k, 'v) hashmap \<Rightarrow> ('k, 'v) hashmap_entry list" where
  "entries hm = (case buckets hm of None \<Rightarrow> [] | Some bs \<Rightarrow> concat bs)"

text \<open>The array has \<open>cap = 2 ^ cap_bits\<close> buckets, every entry is in the bucket of its key, \<open>sz\<close>
  counts the entries, and the map is at most 75 percent full.\<close>

definition hm_wf :: "('k, 'v) hashmap \<Rightarrow> bool" where
  "hm_wf hm \<longleftrightarrow>
     unat (sz hm) = length (entries hm) \<and> 4 * unat (sz hm) div 3 \<le> unat (cap hm) \<and>
     (case buckets hm of
        None \<Rightarrow> cap hm = 0 \<and> cap_bits hm = 0
      | Some bs \<Rightarrow> 2 \<le> unat (cap_bits hm) \<and> unat (cap_bits hm) \<le> 60 \<and>
          unat (cap hm) = 2 ^ unat (cap_bits hm) \<and> length bs = unat (cap hm) \<and>
          (\<forall>i < length bs. \<forall>e \<in> set (bs ! i). hash_index hm (he_key e) = i))"

text \<open>No two entries for the same key.\<close>

definition unique_keys :: "('k \<Rightarrow> 'k \<Rightarrow> bool) \<Rightarrow> ('k, 'v) hashmap_entry list \<Rightarrow> bool" where
  "unique_keys eq es \<longleftrightarrow> distinct es \<and> (\<forall>e \<in> set es. \<forall>e' \<in> set es. eq (he_key e) (he_key e') \<longrightarrow> e = e')"

text \<open>The content as a finite map.\<close>

definition hm_map :: "('k, 'v) hashmap \<Rightarrow> 'k \<rightharpoonup> 'v" where
  "hm_map hm k = map_option he_value (List.find (\<lambda>e. equal_fn hm (he_key e) k) (entries hm))"

section \<open>Lemmas on chains\<close>

lemma hash_bits_lt: "2 \<le> unat bits \<Longrightarrow> unat bits \<le> 60 \<Longrightarrow> unat (hash_bits h bits) < 2 ^ unat bits"
proof -
  assume a: "2 \<le> unat bits" "unat bits \<le> 60"
  have "unat (drop_bit (64 - unat bits) (x :: u64)) < 2 ^ unat bits" for x
  proof -
    have "unat x < 2 ^ 64" using unsigned_less [of x] by simp
    also have "(2::nat) ^ 64 = 2 ^ unat bits * 2 ^ (64 - unat bits)"
      using a by (simp flip: power_add)
    finally show ?thesis
      unfolding unat_drop_bit_eq drop_bit_eq_div [where 'a = nat] by (rule less_mult_imp_div_less)
  qed
  then show ?thesis using a by (auto simp: hash_bits_def)
qed

lemma find_pos_eq:
  "find_pos eq k es = (if \<exists>e \<in> set es. eq (he_key e) k then Some (length (takeWhile (\<lambda>e. \<not> eq (he_key e) k) es)) else None)"
  by (induction es) auto

lemma find_takeWhile:
  "\<exists>e \<in> set es. P e \<Longrightarrow> List.find P es = Some (es ! length (takeWhile (\<lambda>e. \<not> P e) es))"
  by (induction es) auto

lemma find_pos_find: "map_option (\<lambda>i. es ! i) (find_pos eq k es) = List.find (\<lambda>e. eq (he_key e) k) es"
  using find_takeWhile [of es "\<lambda>e. eq (he_key e) k"]
  by (auto simp: find_pos_eq find_None_iff eq_commute [of None])

lemma find_pos_SomeD:
  "find_pos eq k es = Some i \<Longrightarrow> i < length es \<and> eq (he_key (es ! i)) k \<and> (\<forall>j < i. \<not> eq (he_key (es ! j)) k)"
proof -
  let ?P = "\<lambda>e. \<not> eq (he_key e) k"
  assume "find_pos eq k es = Some i"
  then have "i = length (takeWhile ?P es)" "\<exists>e \<in> set es. \<not> ?P e" by (auto simp: find_pos_eq split: if_splits)
  moreover from this(2) have "length (takeWhile ?P es) < length es" by (induction es) auto
  ultimately show ?thesis
    using nth_length_takeWhile [of ?P es] nth_mem takeWhile_nth [of _ ?P es] set_takeWhileD
    by (metis (no_types, lifting))
qed

lemma mset_concat_update:
  "h < length bs \<Longrightarrow> mset (concat (bs[h := b])) + mset (bs ! h) = mset (concat bs) + mset b"
proof (induction bs arbitrary: h)
  case (Cons a bs)
  show ?case
  proof (cases h)
    case (Suc j)
    then have "mset (concat (bs[j := b])) + mset (bs ! j) = mset (concat bs) + mset b" using Cons by simp
    then show ?thesis using Suc by (simp add: add.assoc)
  qed (simp add: add_ac)
qed simp

lemma find_concat:
  assumes "h < length bs" "\<And>i e. i < length bs \<Longrightarrow> e \<in> set (bs ! i) \<Longrightarrow> P e \<Longrightarrow> i = h"
  shows "List.find P (concat bs) = List.find P (bs ! h)"
proof -
  have app: "List.find P (xs @ ys) = (case List.find P xs of None \<Rightarrow> List.find P ys | r \<Rightarrow> r)" for xs ys
    by (induction xs) auto
  have none: "\<not> P e" if "i < length bs" "i \<noteq> h" "e \<in> set (bs ! i)" for i e
    using assms(2) that by blast
  have "\<not> P e" if "e \<in> set (concat (take h bs))" for e
  proof -
    from that obtain b where b: "b \<in> set (take h bs)" "e \<in> set b" by auto
    then obtain i where "i < length (take h bs)" "b = take h bs ! i" by (metis in_set_conv_nth)
    then show ?thesis using none [of i e] b(2) by simp
  qed
  then have "List.find P (concat (take h bs)) = None" unfolding find_None_iff by blast
  moreover have "\<not> P e" if "e \<in> set (concat (drop (Suc h) bs))" for e
  proof -
    from that obtain b where b: "b \<in> set (drop (Suc h) bs)" "e \<in> set b" by auto
    then obtain i where "i < length (drop (Suc h) bs)" "b = drop (Suc h) bs ! i" by (metis in_set_conv_nth)
    then show ?thesis using none [of "Suc h + i" e] b(2) by simp
  qed
  then have "List.find P (concat (drop (Suc h) bs)) = None" unfolding find_None_iff by blast
  moreover have "concat bs = concat (take h bs) @ bs ! h @ concat (drop (Suc h) bs)"
    using id_take_nth_drop [OF assms(1)] by (metis concat.simps(2) concat_append)
  ultimately show ?thesis by (auto simp: app split: option.splits)
qed

section \<open>Growing\<close>

lemma rehash_ok:
  assumes "\<forall>e \<in> set es. unat (hash_bits (hf (he_key e)) bits) < length nb"
    and "\<forall>i < length nb. \<forall>e \<in> set (nb ! i). unat (hash_bits (hf (he_key e)) bits) = i"
  shows "\<exists>nb'. rehash hf bits es nb = Inr nb' \<and> length nb' = length nb \<and>
     mset (concat nb') = mset (concat nb) + mset es \<and>
     (\<forall>i < length nb'. \<forall>e \<in> set (nb' ! i). unat (hash_bits (hf (he_key e)) bits) = i)"
  using assms
proof (induction es arbitrary: nb)
  case (Cons e es)
  let ?h = "unat (hash_bits (hf (he_key e)) bits)"
  let ?nb = "nb[?h := e # nb ! ?h]"
  have h: "?h < length nb" using Cons.prems by simp
  have "mset (concat ?nb) + mset (nb ! ?h) = mset (concat nb) + mset (e # nb ! ?h)"
    using mset_concat_update [OF h] .
  then have m: "mset (concat ?nb) = add_mset e (mset (concat nb))" by simp
  have "\<forall>i < length ?nb. \<forall>e \<in> set (?nb ! i). unat (hash_bits (hf (he_key e)) bits) = i"
    using Cons.prems by (auto simp: nth_list_update)
  moreover have "\<forall>e \<in> set es. unat (hash_bits (hf (he_key e)) bits) < length ?nb"
    using Cons.prems(1) by simp
  ultimately obtain nb' where nb': "rehash hf bits es ?nb = Inr nb'" "length nb' = length ?nb"
      "mset (concat nb') = mset (concat ?nb) + mset es"
      "\<forall>i < length nb'. \<forall>e \<in> set (nb' ! i). unat (hash_bits (hf (he_key e)) bits) = i"
    using Cons.IH [of ?nb] by blast
  have "rehash hf bits (e # es) nb = Inr nb'" using h nb'(1) by (simp add: hashmap_add_entry_def)
  moreover have "mset (concat nb') = mset (concat nb) + mset (e # es)"
    unfolding nb'(3) m by simp
  moreover have "length nb' = length nb" using nb'(2) by simp
  ultimately show ?case using nb'(4) by blast
qed simp

lemma hm_wf_entries: "hm_wf hm \<Longrightarrow> hashmap__for_each_entry hm = Inr (entries hm)"
  by (auto simp: hm_wf_def hashmap__for_each_entry_def entries_def split: option.splits)

lemma hm_wf_index:
  assumes "hm_wf hm" "buckets hm = Some bs"
  shows "hash_index hm k < length bs"
  using assms hash_bits_lt by (auto simp: hm_wf_def hash_index_def)

lemma unat_Suc_u64: "unat (x :: u64) < 2 ^ 64 - 1 \<Longrightarrow> unat (x + 1) = unat x + 1"
  using unat_word_ariths(1) [of x 1] by simp


definition new_bits :: "('k, 'v) hashmap \<Rightarrow> u64" where
  "new_bits hm = (if cap_bits hm + 1 < HASHMAP_MIN_CAP_BITS then HASHMAP_MIN_CAP_BITS else cap_bits hm + 1)"

lemma unat_shift_1: "n < 64 \<Longrightarrow> unat (push_bit n 1 :: u64) = 2 ^ n"
proof -
  assume "n < 64"
  then have "(2::nat) ^ n < 2 ^ 64" by (rule power_strict_increasing) simp
  moreover have "push_bit n 1 = (word_of_nat (2 ^ n) :: u64)" by simp
  ultimately show ?thesis by (simp only: unat_of_nat) simp
qed

lemma new_bits_wf:
  assumes "hm_wf hm"
  shows "2 \<le> unat (new_bits hm)" "unat (new_bits hm) \<le> 61"
    "4 * (unat (sz hm) + 1) div 3 \<le> 2 ^ unat (new_bits hm)"
proof -
  have "2 \<le> unat (new_bits hm) \<and> unat (new_bits hm) \<le> 61 \<and> 4 * (unat (sz hm) + 1) div 3 \<le> 2 ^ unat (new_bits hm)"
  proof (cases "buckets hm")
    case None
    then have "cap_bits hm = 0" "sz hm = 0" using assms by (auto simp: hm_wf_def entries_def unsigned_eq_0_iff)
    then have "new_bits hm = 2" by (simp add: new_bits_def)
    then show ?thesis using \<open>sz hm = 0\<close> by simp
  next
    case (Some bs)
    let ?n = "unat (cap_bits hm)"
    have n: "2 \<le> ?n" "?n \<le> 60" "unat (cap hm) = 2 ^ ?n" "4 * unat (sz hm) div 3 \<le> 2 ^ ?n"
      using assms Some by (auto simp: hm_wf_def)
    have s: "unat (cap_bits hm + 1) = ?n + 1" by (rule unat_Suc_u64) (use n in simp)
    then have b: "unat (new_bits hm) = ?n + 1" using n by (auto simp: new_bits_def word_less_nat_alt)
    have "(2::nat) ^ 2 \<le> 2 ^ ?n" using n(1) by (rule power_increasing) simp
    then show ?thesis using b n by simp
  qed
  then show "2 \<le> unat (new_bits hm)" "unat (new_bits hm) \<le> 61"
    "4 * (unat (sz hm) + 1) div 3 \<le> 2 ^ unat (new_bits hm)" by blast+
qed

lemma hashmap_grow_cases:
  assumes "hm_wf hm"
  shows "hashmap_grow c hm = Inr (- ENOMEM, hm) \<or>
    (\<exists>hm'. hashmap_grow c hm = Inr (0, hm') \<and> hm_wf hm' \<and> mset (entries hm') = mset (entries hm) \<and>
       hash_fn hm' = hash_fn hm \<and> equal_fn hm' = equal_fn hm \<and> sz hm' = sz hm \<and> buckets hm' \<noteq> None \<and>
       4 * (unat (sz hm) + 1) div 3 \<le> unat (cap hm'))"
proof -
  let ?b = "new_bits hm"
  let ?cap = "push_bit (unat ?b) 1 :: u64"
  let ?nb = "replicate (unat ?cap) [] :: ('a, 'b) hashmap_entry list list"
  note b = new_bits_wf [OF assms]
  have cap: "unat ?cap = 2 ^ unat ?b" using b(2) unat_shift_1 [of "unat ?b"] by simp
  show ?thesis
  proof (cases "\<not> c \<or> 2 ^ 64 \<le> uint ?cap * 8")
    case True
    then show ?thesis unfolding hashmap_grow_def Let_def new_bits_def [symmetric] by simp
  next
    case False
    have b60: "unat ?b \<le> 60"
    proof (rule ccontr)
      assume "\<not> ?thesis"
      then have "unat ?b = 61" using b by simp
      then have "uint ?cap = 2 ^ 61" using cap by (simp flip: uint_nat)
      then show False using False by simp
    qed
    have "\<forall>e \<in> set (entries hm). unat (hash_bits (hash_fn hm (he_key e)) ?b) < length ?nb"
      using hash_bits_lt b(1) b60 cap by auto
    moreover have "\<forall>i < length ?nb. \<forall>e \<in> set (?nb ! i). unat (hash_bits (hash_fn hm (he_key e)) ?b) = i"
      by simp
    ultimately obtain nb' where nb': "rehash (hash_fn hm) ?b (entries hm) ?nb = Inr nb'" "length nb' = length ?nb"
        "mset (concat nb') = mset (concat ?nb) + mset (entries hm)"
        "\<forall>i < length nb'. \<forall>e \<in> set (nb' ! i). unat (hash_bits (hash_fn hm (he_key e)) ?b) = i"
      using rehash_ok by blast
    let ?hm = "hm\<lparr>cap := ?cap, cap_bits := ?b, buckets := Some nb'\<rparr>"
    have ms: "mset (entries ?hm) = mset (entries hm)" using nb'(3) by (simp add: entries_def)
    then have "length (entries ?hm) = length (entries hm)" by (metis size_mset)
    then have "hm_wf ?hm"
      using assms b b60 cap nb'(2,4) by (auto simp: hm_wf_def hash_index_def)
    moreover have "hashmap_grow c hm = Inr (0, ?hm)"
      using False nb'(1) hm_wf_entries [OF assms]
      unfolding hashmap_grow_def Let_def new_bits_def [symmetric] by simp
    ultimately show ?thesis using ms b(3) cap by (intro disjI2 exI [of _ ?hm]) simp
  qed
qed


section \<open>Content up to the order\<close>

definition look :: "('k \<Rightarrow> 'k \<Rightarrow> bool) \<Rightarrow> ('k, 'v) hashmap_entry list \<Rightarrow> 'k \<rightharpoonup> 'v" where
  "look eq es k = map_option he_value (List.find (\<lambda>e. eq (he_key e) k) es)"

lemma look_Cons [simp]: "look eq (e # es) k = (if eq (he_key e) k then Some (he_value e) else look eq es k)"
  by (simp add: look_def)

lemma hm_map_look: "hm_map hm = look (equal_fn hm) (entries hm)"
  by (simp add: hm_map_def look_def fun_eq_iff)

lemma unique_mset: "mset es = mset es' \<Longrightarrow> unique_keys eq es = unique_keys eq es'"
  unfolding unique_keys_def by (metis mset_eq_setD mset_eq_imp_distinct_iff)

context hash_key begin

lemma unique_Cons: "unique_keys eq (n # es) \<longleftrightarrow> unique_keys eq es \<and> (\<forall>e \<in> set es. \<not> eq (he_key n) (he_key e))"
proof
  assume u: "unique_keys eq (n # es)"
  have "\<not> eq (he_key n) (he_key e)" if "e \<in> set es" for e
  proof
    assume "eq (he_key n) (he_key e)"
    then have "n = e" using u that unfolding unique_keys_def by (meson list.set_intros)
    then show False using u that unfolding unique_keys_def by simp
  qed
  then show "unique_keys eq es \<and> (\<forall>e \<in> set es. \<not> eq (he_key n) (he_key e))"
    using u unfolding unique_keys_def by simp
next
  assume "unique_keys eq es \<and> (\<forall>e \<in> set es. \<not> eq (he_key n) (he_key e))"
  then show "unique_keys eq (n # es)"
    unfolding unique_keys_def using eq_sym eq_refl by (metis distinct.simps(2) set_ConsD)
qed

lemma look_mset:
  fixes es es' :: "('k, 'v) hashmap_entry list"
  assumes "mset es = mset es'" "unique_keys eq es"
  shows "look eq es = look eq es'"
proof
  fix k
  have found: "List.find (\<lambda>e. eq (he_key e) k) xs = Some e \<longleftrightarrow> e \<in> set xs \<and> eq (he_key e) k"
    if "unique_keys eq xs" for xs :: "('k, 'v) hashmap_entry list" and e
    using that
  proof (induction xs)
    case (Cons x xs)
    then have IH: "List.find (\<lambda>e. eq (he_key e) k) xs = Some e \<longleftrightarrow> e \<in> set xs \<and> eq (he_key e) k"
      and x: "\<forall>e \<in> set xs. \<not> eq (he_key x) (he_key e)" using unique_Cons by blast+
    show ?case
    proof (cases "eq (he_key x) k")
      case True
      then have "\<not> eq (he_key e) k" if "e \<in> set xs" for e using x that eq_right eq_sym by blast
      then show ?thesis using True by auto
    next
      case False
      then show ?thesis using IH by auto
    qed
  qed simp
  have "unique_keys eq es'" using assms unique_mset by blast
  then have "List.find (\<lambda>e. eq (he_key e) k) es = List.find (\<lambda>e. eq (he_key e) k) es'"
    using found [OF assms(2)] found [of es'] mset_eq_setD [OF assms(1)] by (metis not_Some_eq)
  then show "look eq es k = look eq es' k" by (simp add: look_def)
qed

lemma replace_entry:
  assumes "mset es = mset (e # es0)" "mset es' = mset (n # es0)" "unique_keys eq es" "eq (he_key e) (he_key n)"
  shows "unique_keys eq es'" "look eq es' k = (if eq (he_key n) k then Some (he_value n) else look eq es k)"
proof -
  have u: "unique_keys eq (e # es0)" using assms(1,3) unique_mset by blast
  then have un: "unique_keys eq (n # es0)" using assms(4) eq_left unfolding unique_Cons by blast
  then show u': "unique_keys eq es'" using assms(2) unique_mset by blast
  have "look eq es' = look eq (n # es0)" "look eq es = look eq (e # es0)"
    using look_mset assms(1-3) u' by blast+
  then show "look eq es' k = (if eq (he_key n) k then Some (he_value n) else look eq es k)"
    using eq_left [OF assms(4)] by simp
qed

lemma add_entry:
  assumes "mset es' = mset (n # es)" "unique_keys eq es" "look eq es (he_key n) = None"
  shows "unique_keys eq es'" "look eq es' k = (if eq (he_key n) k then Some (he_value n) else look eq es k)"
proof -
  have "\<forall>e \<in> set es. \<not> eq (he_key n) (he_key e)"
    using assms(3) eq_sym by (auto simp: look_def find_None_iff)
  then show u: "unique_keys eq es'" using assms(1,2) unique_mset unique_Cons by blast
  then show "look eq es' k = (if eq (he_key n) k then Some (he_value n) else look eq es k)"
    using look_mset [OF assms(1)] by simp
qed

lemma remove_entry:
  assumes "mset es = mset (e # es')" "unique_keys eq es"
  shows "unique_keys eq es'" "look eq es' k = (if eq (he_key e) k then None else look eq es k)"
proof -
  have u: "unique_keys eq (e # es')" using assms unique_mset by blast
  then show "unique_keys eq es'" unfolding unique_Cons by blast
  have "look eq es = look eq (e # es')" using look_mset assms by blast
  moreover have "look eq es' k = None" if "eq (he_key e) k"
    using u that eq_right unfolding unique_Cons look_def by (auto simp: find_None_iff)
  ultimately show "look eq es' k = (if eq (he_key e) k then None else look eq es k)" by simp
qed

lemma find_in_chain:
  assumes "hm_wf hm" "hash_fn hm = hf" "equal_fn hm = eq" "buckets hm = Some bs"
  shows "List.find (\<lambda>e. eq (he_key e) k) (entries hm) = List.find (\<lambda>e. eq (he_key e) k) (bs ! hash_index hm k)"
proof -
  have "List.find (\<lambda>e. eq (he_key e) k) (concat bs) = List.find (\<lambda>e. eq (he_key e) k) (bs ! hash_index hm k)"
  proof (rule find_concat)
    show "hash_index hm k < length bs" by (rule hm_wf_index) (use assms in simp_all)
    fix i e assume "i < length bs" "e \<in> set (bs ! i)" "eq (he_key e) k"
    moreover from this(3) have "hash_index hm (he_key e) = hash_index hm k"
      using eq_hash assms(2) by (simp add: hash_index_def)
    ultimately show "i = hash_index hm k" using assms(1,4) by (auto simp: hm_wf_def)
  qed
  then show ?thesis using assms(4) by (simp add: entries_def)
qed

end


section \<open>The operations\<close>

lemma find_entry_wf:
  assumes "hm_wf hm"
  shows "hashmap_find_entry hm k (hash_bits (hash_fn hm k) (cap_bits hm)) = Inr (case buckets hm of
     None \<Rightarrow> None
   | Some bs \<Rightarrow> map_option (\<lambda>i. (i, bs ! hash_index hm k ! i)) (find_pos (equal_fn hm) k (bs ! hash_index hm k)))"
  using hm_wf_index [OF assms] by (auto simp: hashmap_find_entry_def hash_index_def split: option.splits)

lemma set_chain_wf:
  assumes "hm_wf hm" "buckets hm = Some bs" "\<forall>e \<in> set es. hash_index hm (he_key e) = hash_index hm k"
    and "hm' = hm\<lparr>buckets := Some (bs[hash_index hm k := es]), sz := n\<rparr>"
    and "unat n = length (entries hm')" "4 * unat n div 3 \<le> unat (cap hm)"
  shows "hm_wf hm'"
proof -
  have idx: "hash_index hm' = hash_index hm" using assms(4) by (simp add: hash_index_def fun_eq_iff)
  have "\<forall>i < length bs. \<forall>e \<in> set (bs[hash_index hm k := es] ! i). hash_index hm (he_key e) = i"
  proof (intro allI impI ballI)
    fix i e assume i: "i < length bs" "e \<in> set (bs[hash_index hm k := es] ! i)"
    show "hash_index hm (he_key e) = i"
    proof (cases "i = hash_index hm k")
      case True
      then show ?thesis using i assms(3) by simp
    next
      case False
      then show ?thesis using i assms(1,2) by (auto simp: hm_wf_def)
    qed
  qed
  then show ?thesis using assms(1,2,4-6) idx by (auto simp: hm_wf_def)
qed

lemma set_chain_mset:
  assumes "hm_wf hm" "buckets hm = Some bs"
    and "hm' = hm\<lparr>buckets := Some (bs[hash_index hm k := es]), sz := n\<rparr>"
  shows "mset (entries hm') + mset (bs ! hash_index hm k) = mset (entries hm) + mset es"
  using mset_concat_update [OF hm_wf_index [OF assms(1,2)]] assms(2,3) by (simp add: entries_def)

lemma chain_hash: "hm_wf hm \<Longrightarrow> buckets hm = Some bs \<Longrightarrow> e \<in> set (bs ! hash_index hm k) \<Longrightarrow>
    hash_index hm (he_key e) = hash_index hm k"
  using hm_wf_index [of hm bs k] by (auto simp: hm_wf_def)

lemma length_of_mset: "mset es = mset es' \<Longrightarrow> length es = length es'"
  by (metis size_mset)

text \<open>Adding an entry when there is room, replacing one, and removing one.\<close>

lemma add_to_chain:
  assumes "hm_wf hm" "buckets hm = Some bs" "4 * (unat (sz hm) + 1) div 3 \<le> unat (cap hm)" "he_key n = k"
    and "hm' = hm\<lparr>buckets := Some (bs[hash_index hm k := n # bs ! hash_index hm k]), sz := sz hm + 1\<rparr>"
  shows "hm_wf hm' \<and> mset (entries hm') = mset (n # entries hm)"
proof -
  have m: "mset (entries hm') = mset (n # entries hm)"
    using set_chain_mset [OF assms(1,2,5)] by simp
  have "(2::nat) ^ unat (cap_bits hm) \<le> 2 ^ 60"
    by (rule power_increasing) (use assms(1,2) in \<open>auto simp: hm_wf_def\<close>)
  then have "unat (cap hm) \<le> 2 ^ 60" using assms(1,2) by (auto simp: hm_wf_def)
  then have "unat (sz hm) < 2 ^ 64 - 1" using assms(3) by simp
  then have s: "unat (sz hm + 1) = unat (sz hm) + 1" by (rule unat_Suc_u64)
  have "hm_wf hm'"
  proof (rule set_chain_wf [OF assms(1,2) _ assms(5)])
    show "\<forall>e \<in> set (n # bs ! hash_index hm k). hash_index hm (he_key e) = hash_index hm k"
      using chain_hash [OF assms(1,2)] assms(4) by auto
    show "unat (sz hm + 1) = length (entries hm')"
      using length_of_mset [OF m] s assms(1) by (simp add: hm_wf_def)
    show "4 * unat (sz hm + 1) div 3 \<le> unat (cap hm)" using assms(3) s by simp
  qed
  then show ?thesis using m by blast
qed

lemma change_chain:
  assumes "hm_wf hm" "buckets hm = Some bs" "i < length (bs ! hash_index hm k)" "e = bs ! hash_index hm k ! i"
  shows "hash_index hm (he_key n) = hash_index hm k \<Longrightarrow>
      hm' = hm\<lparr>buckets := Some (bs[hash_index hm k := (bs ! hash_index hm k)[i := n]]), sz := sz hm\<rparr> \<Longrightarrow>
      hm_wf hm' \<and> (\<exists>es0. mset (entries hm) = mset (e # es0) \<and> mset (entries hm') = mset (n # es0))"
    and "hm' = hm\<lparr>buckets := Some (bs[hash_index hm k := hashmap_del_entry (bs ! hash_index hm k) i]),
           sz := sz hm - 1\<rparr> \<Longrightarrow>
      hm_wf hm' \<and> mset (entries hm) = mset (e # entries hm')"
proof -
  let ?h = "hash_index hm k"
  let ?c = "bs ! ?h"
  have e: "e \<in> set ?c" using assms(3,4) by simp
  have in_map: "e \<in># mset (entries hm)"
    using e hm_wf_index [OF assms(1,2), of k] assms(2) by (auto simp: entries_def)
  then obtain M where M: "mset (entries hm) = add_mset e M" by (meson mset_add)
  obtain es0 where es0: "mset es0 = M" using ex_mset by blast
  {
    assume n: "hash_index hm (he_key n) = ?h"
      and hm': "hm' = hm\<lparr>buckets := Some (bs[?h := ?c[i := n]]), sz := sz hm\<rparr>"
    have "mset (?c[i := n]) + {#e#} = mset ?c + {#n#}"
      using assms(3,4) e by (simp add: mset_update)
    then have "mset (entries hm') + mset ?c + {#e#} = mset (entries hm) + mset ?c + {#n#}"
      using set_chain_mset [OF assms(1,2) hm'] by (simp add: add_ac)
    then have m: "mset (entries hm') = mset (n # es0)" using M es0 by simp
    have "hm_wf hm'"
    proof (rule set_chain_wf [OF assms(1,2) _ hm'])
      show "\<forall>e \<in> set (?c[i := n]). hash_index hm (he_key e) = ?h"
        using chain_hash [OF assms(1,2)] n set_update_subset_insert by fastforce
      have "length (entries hm') = length (entries hm)"
        using length_of_mset [OF m] M es0 by (metis length_Cons size_add_mset size_mset)
      then show "unat (sz hm) = length (entries hm')" using assms(1) by (simp add: hm_wf_def)
      show "4 * unat (sz hm) div 3 \<le> unat (cap hm)" using assms(1) unfolding hm_wf_def by blast
    qed
    then show "hm_wf hm' \<and> (\<exists>es0. mset (entries hm) = mset (e # es0) \<and> mset (entries hm') = mset (n # es0))"
      using m M es0 by auto
  }
  {
    assume hm': "hm' = hm\<lparr>buckets := Some (bs[?h := hashmap_del_entry ?c i]), sz := sz hm - 1\<rparr>"
    have "mset ?c = add_mset e (mset (hashmap_del_entry ?c i))"
      using id_take_nth_drop [OF assms(3)] assms(4)
      unfolding hashmap_del_entry_def by (metis mset.simps(2) mset_append union_mset_add_mset_right)
    then have m: "mset (entries hm) = mset (e # entries hm')"
      using set_chain_mset [OF assms(1,2) hm'] by simp
    have len: "unat (sz hm) = Suc (length (entries hm'))"
      using length_of_mset [OF m] assms(1) by (simp add: hm_wf_def)
    then have "sz hm \<noteq> 0" by auto
    then have s: "unat (sz hm - 1) = unat (sz hm) - 1" by (rule unat_minus_one)
    have "hm_wf hm'"
    proof (rule set_chain_wf [OF assms(1,2) _ hm'])
      show "\<forall>e \<in> set (hashmap_del_entry ?c i). hash_index hm (he_key e) = ?h"
        using chain_hash [OF assms(1,2)] by (auto simp: hashmap_del_entry_def dest: in_set_takeD in_set_dropD)
      show "unat (sz hm - 1) = length (entries hm')" using s len by simp
      have "4 * unat (sz hm) div 3 \<le> unat (cap hm)" using assms(1) unfolding hm_wf_def by blast
      then show "4 * unat (sz hm - 1) div 3 \<le> unat (cap hm)" using s len by linarith
    qed
    then show "hm_wf hm' \<and> mset (entries hm) = mset (e # entries hm')" using m by blast
  }
qed


context hash_key begin

lemma find_refines:
  assumes "hm_wf hm" "hash_fn hm = hf" "equal_fn hm = eq"
  shows "hashmap__find hm k = Inr (hm_map hm k)"
proof (cases "buckets hm")
  case None
  then show ?thesis using find_entry_wf [OF assms(1)]
    by (simp add: hashmap__find_def hm_map_def entries_def)
next
  case (Some bs)
  have "hm_map hm k = map_option he_value (map_option (\<lambda>i. bs ! hash_index hm k ! i)
      (find_pos eq k (bs ! hash_index hm k)))"
    using find_in_chain [OF assms Some] assms(3) by (simp only: hm_map_def find_pos_find)
  then show ?thesis using find_entry_wf [OF assms(1)] Some assms(3)
    by (simp add: hashmap__find_def option.map_comp comp_def)
qed

text \<open>What looking up the entry gives: nothing when the content has no value for the key, otherwise
  a position in the chain with an entry for the key and its value.\<close>

lemma find_entry_cases:
  assumes "hm_wf hm" "hash_fn hm = hf" "equal_fn hm = eq"
  obtains "hashmap_find_entry hm k (hash_bits (hash_fn hm k) (cap_bits hm)) = Inr None" "hm_map hm k = None"
  | bs i where "hashmap_find_entry hm k (hash_bits (hash_fn hm k) (cap_bits hm)) =
        Inr (Some (i, bs ! hash_index hm k ! i))"
      "buckets hm = Some bs" "i < length (bs ! hash_index hm k)" "eq (he_key (bs ! hash_index hm k ! i)) k"
      "hm_map hm k = Some (he_value (bs ! hash_index hm k ! i))"
proof (cases "hm_map hm k")
  case None
  then have "hashmap_find_entry hm k (hash_bits (hash_fn hm k) (cap_bits hm)) = Inr None"
    using find_refines [OF assms, of k] by (auto simp: hashmap__find_def res_simps)
  then show ?thesis using None that(1) by blast
next
  case (Some v)
  then obtain i e where e: "hashmap_find_entry hm k (hash_bits (hash_fn hm k) (cap_bits hm)) = Inr (Some (i, e))"
      "he_value e = v"
    using find_refines [OF assms, of k] by (auto simp: hashmap__find_def res_simps)
  then obtain bs where bs: "buckets hm = Some bs" "find_pos eq k (bs ! hash_index hm k) = Some i"
      "e = bs ! hash_index hm k ! i"
    using find_entry_wf [OF assms(1)] assms(3) by (auto split: option.splits)
  then show ?thesis using find_pos_SomeD [OF bs(2)] e Some that(2) by blast
qed

lemma delete_refines:
  fixes hm :: "('k, 'v) hashmap"
  assumes "hm_wf hm" "unique_keys eq (entries hm)" "hash_fn hm = hf" "equal_fn hm = eq"
  shows "\<exists>old hm'. hashmap__delete hm k = Inr (hm_map hm k \<noteq> None, old, hm') \<and> map_option snd old = hm_map hm k \<and>
     hm_wf hm' \<and> unique_keys eq (entries hm') \<and> hash_fn hm' = hf \<and> equal_fn hm' = eq \<and>
     hm_map hm' = (\<lambda>k'. if eq k k' then None else hm_map hm k')"
proof (rule find_entry_cases [OF assms(1,3,4), of k])
  assume "hashmap_find_entry hm k (hash_bits (hash_fn hm k) (cap_bits hm)) = Inr None" "hm_map hm k = None"
  moreover from this(2) have "hm_map hm k' = None" if "eq k k'" for k'
    using eq_right [OF that] assms(4) by (auto simp: hm_map_def find_None_iff)
  ultimately show ?thesis using assms by (auto simp: hashmap__delete_def)
next
  fix bs :: "('k, 'v) hashmap_entry list list" and i
  let ?e = "bs ! hash_index hm k ! i"
  let ?hm = "hm\<lparr>buckets := Some (bs[hash_index hm k := hashmap_del_entry (bs ! hash_index hm k) i]), sz := sz hm - 1\<rparr>"
  assume f: "hashmap_find_entry hm k (hash_bits (hash_fn hm k) (cap_bits hm)) = Inr (Some (i, ?e))"
    and bs: "buckets hm = Some bs" and i: "i < length (bs ! hash_index hm k)"
    and e: "eq (he_key ?e) k" "hm_map hm k = Some (he_value ?e)"
  have d: "hashmap__delete hm k = Inr (True, Some (he_key ?e, he_value ?e), ?hm)"
    using f bs hm_wf_index [OF assms(1) bs]
    by (simp add: hashmap__delete_def set_chain_def hash_index_def Let_def)
  have w: "hm_wf ?hm" "mset (entries hm) = mset (?e # entries ?hm)"
    using change_chain(2) [OF assms(1) bs i refl refl] by blast+
  have u: "unique_keys eq (entries ?hm)" and l: "\<And>k'. look eq (entries ?hm) k' =
      (if eq (he_key ?e) k' then None else look eq (entries hm) k')"
    using remove_entry [OF w(2) assms(2)] by blast+
  have "hm_map ?hm = (\<lambda>k'. if eq k k' then None else hm_map hm k')"
    unfolding hm_map_look using l eq_left [OF e(1)] assms(4) by (intro ext) simp
  then show ?thesis using d w(1) u e(2) assms(3,4) by simp
qed

end


section \<open>The specification\<close>

text \<open>What each strategy means for the content.\<close>

definition map_insert ::
    "hashmap_insert_strategy \<Rightarrow> ('k \<Rightarrow> 'k \<Rightarrow> bool) \<Rightarrow> 'k \<Rightarrow> 'v \<Rightarrow> ('k \<rightharpoonup> 'v) \<Rightarrow> int \<times> ('k \<rightharpoonup> 'v)" where
  "map_insert strategy eq k v M =
     (let M' = (\<lambda>k'. if eq k k' then Some v else M k') in
      (case strategy of
         HASHMAP_ADD \<Rightarrow> if M k = None then (0, M') else (- EEXIST, M)
       | HASHMAP_SET \<Rightarrow> (0, M')
       | HASHMAP_UPDATE \<Rightarrow> if M k = None then (- ENOENT, M) else (0, M')
       | HASHMAP_APPEND \<Rightarrow> (0, M')))"

context hash_key begin

lemma add_step:
  fixes hm :: "('k, 'v) hashmap"
  assumes "hm_wf hm" "unique_keys eq (entries hm)" "hash_fn hm = hf" "equal_fn hm = eq" "hm_map hm k = None"
    and "buckets hm \<noteq> None" "4 * (unat (sz hm) + 1) div 3 \<le> unat (cap hm)"
  shows "\<exists>hm'. rbind (set_chain hm (hash_bits (hash_fn hm k) (cap_bits hm)) (\<lambda>es. \<lparr>he_key = k, he_value = v\<rparr> # es))
      (\<lambda>hm. Inr (0, old, hm\<lparr>sz := sz hm + 1\<rparr>)) = Inr (0, old, hm') \<and>
     hm_wf hm' \<and> unique_keys eq (entries hm') \<and> hash_fn hm' = hf \<and> equal_fn hm' = eq \<and>
     hm_map hm' = (\<lambda>k'. if eq k k' then Some v else hm_map hm k')"
proof -
  obtain bs where bs: "buckets hm = Some bs" using assms(6) by blast
  let ?n = "\<lparr>he_key = k, he_value = v\<rparr>"
  let ?hm = "hm\<lparr>buckets := Some (bs[hash_index hm k := ?n # bs ! hash_index hm k]), sz := sz hm + 1\<rparr>"
  have w: "hm_wf ?hm \<and> mset (entries ?hm) = mset (?n # entries hm)"
    by (rule add_to_chain [OF assms(1) bs assms(7) _ refl]) simp
  moreover have "look eq (entries hm) (he_key ?n) = None" using assms(4,5) by (simp add: hm_map_look)
  ultimately have u: "unique_keys eq (entries ?hm)" and l: "\<And>k'. look eq (entries ?hm) k' =
      (if eq k k' then Some v else look eq (entries hm) k')"
    using add_entry [OF _ assms(2), of "entries ?hm" ?n] by simp_all
  have "hm_map ?hm = (\<lambda>k'. if eq k k' then Some v else hm_map hm k')"
    unfolding hm_map_look using l assms(4) by (intro ext) simp
  moreover have "set_chain hm (hash_bits (hash_fn hm k) (cap_bits hm)) (\<lambda>es. ?n # es) =
      Inr (hm\<lparr>buckets := Some (bs[hash_index hm k := ?n # bs ! hash_index hm k])\<rparr>)"
    using hm_wf_index [OF assms(1) bs] bs by (simp add: set_chain_def hash_index_def)
  ultimately show ?thesis using w u assms(3,4) by simp
qed

lemma needs_to_grow_False:
  assumes "hm_wf hm" "\<not> hashmap_needs_to_grow hm"
  shows "buckets hm \<noteq> None \<and> 4 * (unat (sz hm) + 1) div 3 \<le> unat (cap hm)"
proof -
  have c: "cap hm \<noteq> 0" "(sz hm + 1) * 4 div 3 \<le> cap hm" using assms(2) by (auto simp: hashmap_needs_to_grow_def)
  then obtain bs where bs: "buckets hm = Some bs" using assms(1) by (auto simp: hm_wf_def split: option.splits)
  have "(2::nat) ^ unat (cap_bits hm) \<le> 2 ^ 60"
    by (rule power_increasing) (use assms(1) bs in \<open>auto simp: hm_wf_def\<close>)
  then have "4 * unat (sz hm) div 3 \<le> 2 ^ 60" using assms(1) bs by (auto simp: hm_wf_def)
  then have s: "unat (sz hm) \<le> 2 ^ 60" by simp
  then have "unat (sz hm + 1) = unat (sz hm) + 1" by (intro unat_Suc_u64) simp
  moreover have "unat ((sz hm + 1) * 4) = unat (sz hm + 1) * 4"
    using unat_word_ariths(2) [of "sz hm + 1" 4] calculation s by simp
  moreover have "unat (3 :: u64) = 3" by code_simp
  ultimately have "unat ((sz hm + 1) * 4 div 3) = 4 * (unat (sz hm) + 1) div 3"
    using unat_div [of "(sz hm + 1) * 4" 3] by (simp add: mult.commute)
  then show ?thesis using c(2) bs by (simp add: word_le_nat_alt)
qed

lemma insert_new:
  fixes hm :: "('k, 'v) hashmap"
  assumes "hm_wf hm" "unique_keys eq (entries hm)" "hash_fn hm = hf" "equal_fn hm = eq" "hm_map hm k = None"
    and "strategy \<noteq> HASHMAP_UPDATE"
  shows "\<exists>rc hm'. hashmap__insert c m hm k v strategy = Inr (rc, None, hm') \<and>
     hm_wf hm' \<and> unique_keys eq (entries hm') \<and> hash_fn hm' = hf \<and> equal_fn hm' = eq \<and>
     (rc = - ENOMEM \<and> hm_map hm' = hm_map hm \<or>
      rc = 0 \<and> hm_map hm' = (\<lambda>k'. if eq k k' then Some v else hm_map hm k'))"
proof -
  let ?h = "hash_bits (hash_fn hm k) (cap_bits hm)"
  let ?rest = "\<lambda>(err, hm, h). if err \<noteq> 0 then Inr (err, None, hm) else if \<not> m then Inr (- ENOMEM, None, hm)
      else rbind (set_chain hm h (\<lambda>es. \<lparr>he_key = k, he_value = v\<rparr> # es)) (\<lambda>hm. Inr (0, None, hm\<lparr>sz := sz hm + 1\<rparr>))
      :: (int \<times> ('k \<times> 'v) option \<times> ('k, 'v) hashmap) res"
  have found: "(if strategy \<noteq> HASHMAP_APPEND then hashmap_find_entry hm k ?h else Inr None) = Inr None"
    using find_refines [OF assms(1,3,4), of k] assms(5) by (auto simp: hashmap__find_def res_simps)
  have ins: "hashmap__insert c m hm k v strategy =
      rbind (if hashmap_needs_to_grow hm
             then rbind (hashmap_grow c hm) (\<lambda>(err, hm). Inr (err, hm, hash_bits (hash_fn hm k) (cap_bits hm)))
             else Inr (0, hm, ?h)) ?rest"
    unfolding hashmap__insert_def Let_def found rbind_Inr option.map(1) option.case(1) using assms(6) by simp
  show ?thesis
  proof (cases "hashmap_needs_to_grow hm")
    case False
    have add: "\<exists>hm'. ?rest (0, hm, ?h) = Inr (0, None, hm') \<and>
       hm_wf hm' \<and> unique_keys eq (entries hm') \<and> hash_fn hm' = hf \<and> equal_fn hm' = eq \<and>
       hm_map hm' = (\<lambda>k'. if eq k k' then Some v else hm_map hm k')" if m
      using add_step [OF assms(1-5), of v None] needs_to_grow_False [OF assms(1) False] that by simp
    show ?thesis using add assms(1-4) False unfolding ins by (cases m) auto
  next
    case True
    from hashmap_grow_cases [OF assms(1), of c] show ?thesis
    proof (elim disjE exE conjE)
      assume "hashmap_grow c hm = Inr (- ENOMEM, hm)"
      then show ?thesis using True assms(1-4) unfolding ins by simp
    next
      fix hm1 assume g: "hashmap_grow c hm = Inr (0, hm1)" "hm_wf hm1" "mset (entries hm1) = mset (entries hm)"
        "hash_fn hm1 = hash_fn hm" "equal_fn hm1 = equal_fn hm" "sz hm1 = sz hm" "buckets hm1 \<noteq> None"
        "4 * (unat (sz hm) + 1) div 3 \<le> unat (cap hm1)"
      have u: "unique_keys eq (entries hm1)" using unique_mset [OF g(3)] assms(2) by blast
      have l: "hm_map hm1 = hm_map hm"
        using look_mset [OF g(3) u] g(5) assms(4) by (simp add: hm_map_look)
      have fns: "hash_fn hm1 = hf" "equal_fn hm1 = eq" using g(4,5) assms(3,4) by simp_all
      have none: "hm_map hm1 k = None" using l assms(5) by simp
      have room: "4 * (unat (sz hm1) + 1) div 3 \<le> unat (cap hm1)" using g(6,8) by simp
      have add: "\<exists>hm'. ?rest (0, hm1, hash_bits (hash_fn hm1 k) (cap_bits hm1)) = Inr (0, None, hm') \<and>
         hm_wf hm' \<and> unique_keys eq (entries hm') \<and> hash_fn hm' = hf \<and> equal_fn hm' = eq \<and>
         hm_map hm' = (\<lambda>k'. if eq k k' then Some v else hm_map hm k')" if m
        using add_step [OF g(2) u fns none g(7) room, of v None, unfolded l] that by simp
      show ?thesis using add g l u assms(3,4) True unfolding ins by (cases m) auto
    qed
  qed
qed

end


context hash_key begin

lemma insert_found:
  fixes hm :: "('k, 'v) hashmap"
  assumes "hm_wf hm" "unique_keys eq (entries hm)" "hash_fn hm = hf" "equal_fn hm = eq" "hm_map hm k = Some v0"
    and "strategy \<noteq> HASHMAP_APPEND"
  shows "\<exists>rc old hm'. hashmap__insert c m hm k v strategy = Inr (rc, old, hm') \<and> map_option snd old = Some v0 \<and>
     hm_wf hm' \<and> unique_keys eq (entries hm') \<and> hash_fn hm' = hf \<and> equal_fn hm' = eq \<and>
     (if strategy = HASHMAP_ADD then rc = - EEXIST \<and> hm_map hm' = hm_map hm
      else rc = 0 \<and> hm_map hm' = (\<lambda>k'. if eq k k' then Some v else hm_map hm k'))"
proof (rule find_entry_cases [OF assms(1,3,4), of k])
  fix bs :: "('k, 'v) hashmap_entry list list" and i
  let ?h = "hash_bits (hash_fn hm k) (cap_bits hm)"
  let ?e = "bs ! hash_index hm k ! i"
  let ?n = "\<lparr>he_key = k, he_value = v\<rparr>"
  let ?hm = "hm\<lparr>buckets := Some (bs[hash_index hm k := (bs ! hash_index hm k)[i := ?n]]), sz := sz hm\<rparr>"
  assume f: "hashmap_find_entry hm k ?h = Inr (Some (i, ?e))"
    and bs: "buckets hm = Some bs" and i: "i < length (bs ! hash_index hm k)"
    and e: "eq (he_key ?e) k" "hm_map hm k = Some (he_value ?e)"
  have ins: "hashmap__insert c m hm k v strategy =
      (if strategy = HASHMAP_ADD then Inr (- EEXIST, Some (he_key ?e, he_value ?e), hm)
       else Inr (0, Some (he_key ?e, he_value ?e), ?hm))"
    using f assms(6) bs hm_wf_index [OF assms(1) bs, of k]
    by (cases strategy) (simp_all add: hashmap__insert_def Let_def set_chain_def hash_index_def)
  have w: "hm_wf ?hm" "\<exists>es0. mset (entries hm) = mset (?e # es0) \<and> mset (entries ?hm) = mset (?n # es0)"
    using change_chain(1) [OF assms(1) bs i refl _ refl, of ?n] by simp_all
  then obtain es0 where es0: "mset (entries hm) = mset (?e # es0)" "mset (entries ?hm) = mset (?n # es0)" by blast
  have "eq (he_key ?e) (he_key ?n)" using e(1) by simp
  from replace_entry [OF es0 assms(2) this]
  have u: "unique_keys eq (entries ?hm)" and l: "\<And>k'. look eq (entries ?hm) k' =
      (if eq k k' then Some v else look eq (entries hm) k')" by simp_all
  have "hm_map ?hm = (\<lambda>k'. if eq k k' then Some v else hm_map hm k')"
    unfolding hm_map_look using l assms(4) by (intro ext) simp
  then show ?thesis using ins w(1) u e(2) assms(1-5) by (cases "strategy = HASHMAP_ADD") simp_all
qed (use assms in simp)

lemma insert_refines:
  fixes hm :: "('k, 'v) hashmap"
  assumes "hm_wf hm" "unique_keys eq (entries hm)" "hash_fn hm = hf" "equal_fn hm = eq"
    and "strategy = HASHMAP_APPEND \<Longrightarrow> hm_map hm k = None"
  shows "\<exists>rc old hm'. hashmap__insert c m hm k v strategy = Inr (rc, old, hm') \<and> map_option snd old = hm_map hm k \<and>
     hm_wf hm' \<and> unique_keys eq (entries hm') \<and> hash_fn hm' = hf \<and> equal_fn hm' = eq \<and>
     (rc = - ENOMEM \<and> hm_map hm' = hm_map hm \<or> (rc, hm_map hm') = map_insert strategy eq k v (hm_map hm))"
proof (cases "hm_map hm k")
  case None
  show ?thesis
  proof (cases "strategy = HASHMAP_UPDATE")
    case True
    have "hashmap_find_entry hm k (hash_bits (hash_fn hm k) (cap_bits hm)) = Inr None"
      using find_refines [OF assms(1,3,4), of k] None by (auto simp: hashmap__find_def res_simps)
    then show ?thesis using True None assms(1-4) by (simp add: hashmap__insert_def Let_def map_insert_def)
  next
    case False
    from insert_new [OF assms(1-4) None False, of c m v] None False show ?thesis
      by (cases strategy) (auto simp: map_insert_def)
  qed
next
  case (Some v0)
  then have "strategy \<noteq> HASHMAP_APPEND" using assms(5) by auto
  from insert_found [OF assms(1-4) Some this, of c m v] Some this show ?thesis
    by (cases strategy) (auto simp: map_insert_def)
qed

end


section \<open>Properties\<close>

text \<open>C21. Insertion refines the finite map, for setting, updating and adding a key, and for appending a key that is not in the map:
  on a well-formed map with one entry per key it never leaves the bucket array, keeps the map well formed (so at most 75
  percent full) with one entry per key, returns the code and the old value that the strategy prescribes and changes the
  content as it prescribes; without memory it returns \<open>-ENOMEM\<close> and keeps the content. Looking up a key afterwards gives
  the new content. Appending a key that is in the map makes a second entry, whose order growing reverses.\<close>

theorem hashmap_insert_refines:
  fixes hm :: "('k, 'v) hashmap"
  assumes "hash_key (hash_fn hm) (equal_fn hm)" "hm_wf hm" "unique_keys (equal_fn hm) (entries hm)"
    and "strategy = HASHMAP_APPEND \<Longrightarrow> hm_map hm k = None"
  shows "\<exists>rc old hm'. hashmap__insert c m hm k v strategy = Inr (rc, old, hm') \<and> map_option snd old = hm_map hm k \<and>
     hm_wf hm' \<and> unique_keys (equal_fn hm') (entries hm') \<and>
     (rc = - ENOMEM \<and> hm_map hm' = hm_map hm \<or>
      (rc, hm_map hm') = map_insert strategy (equal_fn hm) k v (hm_map hm)) \<and>
     (\<forall>k'. hashmap__find hm' k' = Inr (hm_map hm' k'))"
proof -
  obtain rc old hm' where r: "hashmap__insert c m hm k v strategy = Inr (rc, old, hm')"
      "map_option snd old = hm_map hm k" "hm_wf hm'" "unique_keys (equal_fn hm) (entries hm')"
      "hash_fn hm' = hash_fn hm" "equal_fn hm' = equal_fn hm"
      "rc = - ENOMEM \<and> hm_map hm' = hm_map hm \<or>
       (rc, hm_map hm') = map_insert strategy (equal_fn hm) k v (hm_map hm)"
    using hash_key.insert_refines [OF assms(1-3) refl refl, where strategy = strategy and k = k and c = c and m = m and v = v]
      assms(4) by blast
  have "hashmap__find hm' k' = Inr (hm_map hm' k')" for k'
    by (rule hash_key.find_refines [OF assms(1) r(3,5,6)])
  then show ?thesis using r by auto
qed

definition sample_map :: "(string, u32) hashmap" where
  "sample_map = hashmap__init str_hash str_equal_fn"

lemma sample_map_wf:
  "hash_key (hash_fn sample_map) (equal_fn sample_map)" "hm_wf sample_map"
  "unique_keys (equal_fn sample_map) (entries sample_map)"
  using str_keys.hash_key_axioms
  by (simp_all add: sample_map_def hashmap__init_def hm_wf_def unique_keys_def entries_def)

theorem hashmap_insert_refines_witness:
  "\<exists>rc old hm'. hashmap__insert True True sample_map ''int'' 4 HASHMAP_ADD = Inr (rc, old, hm') \<and>
     (rc = - 12 \<or> rc = 0 \<and> hashmap__find hm' ''int'' = Inr (Some 4))"
proof -
  have "hm_map sample_map ''int'' = None"
    by (simp add: sample_map_def hashmap__init_def hm_map_def entries_def)
  then show ?thesis
    using hashmap_insert_refines [OF sample_map_wf, of HASHMAP_ADD "''int''" True True 4]
    by (auto simp: map_insert_def sample_map_def hashmap__init_def str_equal_fn_def)
qed

text \<open>C22. Deletion refines the finite map: it answers whether the key was there, hands back its value,
  removes it and nothing else, and keeps the map well formed.\<close>

theorem hashmap_delete_refines:
  fixes hm :: "('k, 'v) hashmap"
  assumes "hash_key (hash_fn hm) (equal_fn hm)" "hm_wf hm" "unique_keys (equal_fn hm) (entries hm)"
  shows "\<exists>old hm'. hashmap__delete hm k = Inr (hm_map hm k \<noteq> None, old, hm') \<and> map_option snd old = hm_map hm k \<and>
     hm_wf hm' \<and> unique_keys (equal_fn hm') (entries hm') \<and>
     (\<forall>k'. hashmap__find hm' k' = Inr (if equal_fn hm k k' then None else hm_map hm k'))"
proof -
  obtain old hm' where r: "hashmap__delete hm k = Inr (hm_map hm k \<noteq> None, old, hm')"
      "map_option snd old = hm_map hm k" "hm_wf hm'" "unique_keys (equal_fn hm) (entries hm')"
      "hash_fn hm' = hash_fn hm" "equal_fn hm' = equal_fn hm"
      "hm_map hm' = (\<lambda>k'. if equal_fn hm k k' then None else hm_map hm k')"
    using hash_key.delete_refines [OF assms refl refl, of k] by blast
  have "hashmap__find hm' k' = Inr (hm_map hm' k')" for k'
    by (rule hash_key.find_refines [OF assms(1) r(3,5,6)])
  then show ?thesis using r by auto
qed

theorem hashmap_delete_refines_witness:
  "\<exists>hm'. hashmap__delete sample_map ''int'' = Inr (False, None, hm')"
  using hashmap_delete_refines [OF sample_map_wf, of "''int''"]
  by (auto simp: sample_map_def hashmap__init_def hm_map_def entries_def)

definition id_map :: "(u64, u32) hashmap" where
  "id_map = hashmap__init btf_dedup_identity_hash_fn btf_dedup_equal_fn"

definition append_all :: "(u64 \<times> u32) list \<Rightarrow> (u64, u32) hashmap res" where
  "append_all kvs = fold (\<lambda>(k, v) r. rbind r (\<lambda>hm. rbind (hashmap__append True True hm k v) (\<lambda>(_, hm). Inr hm)))
     kvs (Inr id_map)"


text \<open>Growing reverses the order of the entries of a key: a lookup gives the value that was appended
  last, and after an insertion of another key that makes the map grow it gives the one appended
  first. The comment in the header promises the last one.\<close>

theorem append_order_lost:
  "rbind (append_all [(1, 10), (1, 20), (2, 30)]) (\<lambda>hm. hashmap__find hm 1) = Inr (Some 20) \<and>
   rbind (append_all [(1, 10), (1, 20), (2, 30), (3, 40)]) (\<lambda>hm. hashmap__find hm 1) = Inr (Some 10)"
  by code_simp

end
