(* ===== verification/Libbpf_Nlattr.thy ===== *)
theory Libbpf_Nlattr
  imports Xdp_Base
begin

text \<open>
  Netlink attributes (\<open>xdp/libbpf/src/nlattr.c\<close>, \<open>nlattr.h\<close>). An attribute is a position in the
  buffer of the message; every field is read from the buffer, and reading outside of it is a fault.
  The array \<open>tb\<close> of pointers is a list of optional positions.
\<close>

section \<open>Attributes\<close>

definition NLA_ALIGN :: "nat \<Rightarrow> nat" where "NLA_ALIGN n = (n + 3) div 4 * 4"
definition NLA_HDRLEN :: nat where "NLA_HDRLEN = NLA_ALIGN 4"
definition NLA_TYPE_MASK :: u16 where "NLA_TYPE_MASK = NOT (0x8000 OR 0x4000)"

definition nla_len :: "u8 list \<Rightarrow> nat \<Rightarrow> u16 res" where "nla_len m nla = ld16 m nla"

definition nla_type :: "u8 list \<Rightarrow> nat \<Rightarrow> nat res" where
  "nla_type m nla = rbind (ld16 m (nla + 2)) (\<lambda>t. Inr (unat (t AND NLA_TYPE_MASK)))"

definition nla_next :: "u8 list \<Rightarrow> nat \<Rightarrow> int \<Rightarrow> (nat \<times> int) res" where
  "nla_next m nla remaining =
     rbind (nla_len m nla) (\<lambda>l. let totlen = NLA_ALIGN (unat l) in Inr (nla + totlen, remaining - int totlen))"

text \<open>The first comparison is between an \<open>int\<close> and a \<open>size_t\<close>: a negative number of remaining bytes
  is a huge unsigned number.\<close>

definition nla_ok :: "u8 list \<Rightarrow> nat \<Rightarrow> int \<Rightarrow> bool res" where
  "nla_ok m nla remaining =
     (if (word_of_int remaining :: u64) < 4 then Inr False
      else rbind (nla_len m nla) (\<lambda>l. Inr (4 \<le> unat l \<and> int (unat l) \<le> remaining)))"

definition libbpf_nla_data :: "nat \<Rightarrow> nat" where "libbpf_nla_data nla = nla + NLA_HDRLEN"

definition libbpf_nla_len :: "u8 list \<Rightarrow> nat \<Rightarrow> int res" where
  "libbpf_nla_len m nla = rbind (nla_len m nla) (\<lambda>l. Inr (int (unat l) - int NLA_HDRLEN))"

definition libbpf_nla_getattr_u8 :: "u8 list \<Rightarrow> nat \<Rightarrow> u8 res" where
  "libbpf_nla_getattr_u8 m nla = ld8 m (libbpf_nla_data nla)"

definition libbpf_nla_getattr_u32 :: "u8 list \<Rightarrow> nat \<Rightarrow> u32 res" where
  "libbpf_nla_getattr_u32 m nla = ld32 m (libbpf_nla_data nla)"

section \<open>Validation\<close>

definition LIBBPF_NLA_UNSPEC :: u16 where "LIBBPF_NLA_UNSPEC = 0"
definition LIBBPF_NLA_U32 :: u16 where "LIBBPF_NLA_U32 = 3"
definition LIBBPF_NLA_STRING :: u16 where "LIBBPF_NLA_STRING = 5"
definition LIBBPF_NLA_TYPE_MAX :: u16 where "LIBBPF_NLA_TYPE_MAX = 8"

record libbpf_nla_policy =
  pol_type :: u16
  pol_minlen :: u16
  pol_maxlen :: u16

definition nla_attr_minlen :: "u16 list" where
  "nla_attr_minlen = [0, 1, 2, 4, 8, 1, 0, 0, 0]"

definition validate_nla :: "u8 list \<Rightarrow> nat \<Rightarrow> nat \<Rightarrow> libbpf_nla_policy list \<Rightarrow> int res" where
  "validate_nla m nla maxtype policy =
     rbind (nla_type m nla) (\<lambda>type.
     if type > maxtype then Inr 0
     else if type \<ge> length policy then Inl OutOfBounds
     else let pt = policy ! type in
       if pol_type pt > LIBBPF_NLA_TYPE_MAX then Inr 0
       else
         let minlen = (if pol_minlen pt \<noteq> 0 then pol_minlen pt
                       else if pol_type pt \<noteq> LIBBPF_NLA_UNSPEC then nla_attr_minlen ! unat (pol_type pt)
                       else 0)
         in rbind (libbpf_nla_len m nla) (\<lambda>len.
              if len < int (unat minlen) then Inr (- 1)
              else if pol_maxlen pt \<noteq> 0 \<and> len > int (unat (pol_maxlen pt)) then Inr (- 1)
              else if pol_type pt = LIBBPF_NLA_STRING
                   then rbind (ld8 m (nat (int (libbpf_nla_data nla) + len - 1))) (\<lambda>c. Inr (if c \<noteq> 0 then - 1 else 0))
              else Inr 0))"

section \<open>Parsing\<close>

lemma nla_ok_True:
  "nla_ok m nla remaining = Inr True \<longleftrightarrow>
     (\<exists>l. nla_len m nla = Inr l \<and> 4 \<le> unat l \<and> int (unat l) \<le> remaining \<and> 4 \<le> remaining \<and>
       \<not> (word_of_int remaining :: u64) < 4)"
proof -
  have "4 \<le> remaining" if "4 \<le> unat l" "int (unat l) \<le> remaining" for l :: u16 using that by linarith
  then show ?thesis by (auto simp: nla_ok_def res_simps)
qed

text \<open>The loop over the attributes, with the array as it is filled.\<close>

function nla_parse_loop ::
    "u8 list \<Rightarrow> nat \<Rightarrow> libbpf_nla_policy list option \<Rightarrow> nat \<Rightarrow> int \<Rightarrow> nat option list \<Rightarrow> (int \<times> nat option list) res" where
  "nla_parse_loop m maxtype policy nla rem tb =
     rbind (nla_ok m nla rem) (\<lambda>ok.
       if \<not> ok then Inr (0, tb)
       else
         rbind (nla_type m nla) (\<lambda>type.
         rbind (nla_next m nla rem) (\<lambda>(nla', rem').
           if type > maxtype then nla_parse_loop m maxtype policy nla' rem' tb
           else
             rbind (case policy of None \<Rightarrow> Inr 0 | Some p \<Rightarrow> validate_nla m nla maxtype p) (\<lambda>err.
               if err < 0 then Inr (err, tb)
               else nla_parse_loop m maxtype policy nla' rem' (tb[type := Some nla])))))"
  by pat_completeness auto
termination
  by (relation "measure (\<lambda>(m, t, p, nla, rem, tb). nat rem)")
    (auto simp: nla_ok_True nla_next_def res_simps NLA_ALIGN_def Let_def)

declare nla_parse_loop.simps [simp del]

definition libbpf_nla_parse ::
    "u8 list \<Rightarrow> nat \<Rightarrow> nat \<Rightarrow> int \<Rightarrow> libbpf_nla_policy list option \<Rightarrow> (int \<times> nat option list) res" where
  "libbpf_nla_parse m maxtype head len policy =
     nla_parse_loop m maxtype policy head len (replicate (maxtype + 1) None)"

definition libbpf_nla_parse_nested ::
    "u8 list \<Rightarrow> nat \<Rightarrow> nat \<Rightarrow> libbpf_nla_policy list option \<Rightarrow> (int \<times> nat option list) res" where
  "libbpf_nla_parse_nested m maxtype nla policy =
     rbind (libbpf_nla_len m nla) (\<lambda>len. libbpf_nla_parse m maxtype (libbpf_nla_data nla) len policy)"

section \<open>Extended error messages\<close>

abbreviation (input) NLMSG_HDRLEN :: nat where "NLMSG_HDRLEN \<equiv> 16"
abbreviation (input) NLM_F_CAPPED :: u16 where "NLM_F_CAPPED \<equiv> 0x100"
abbreviation (input) NLM_F_ACK_TLVS :: u16 where "NLM_F_ACK_TLVS \<equiv> 0x200"
abbreviation (input) NLMSGERR_ATTR_MSG :: nat where "NLMSGERR_ATTR_MSG \<equiv> 1"
abbreviation (input) NLMSGERR_ATTR_MAX :: nat where "NLMSGERR_ATTR_MAX \<equiv> 3"

definition nlmsg_len :: "u8 list \<Rightarrow> nat \<Rightarrow> int res" where
  "nlmsg_len m nlh = rbind (ld32 m nlh) (\<lambda>l. Inr (sint (l - 16)))"

definition extack_policy :: "libbpf_nla_policy list" where
  "extack_policy = (replicate 4 \<lparr>pol_type = LIBBPF_NLA_UNSPEC, pol_minlen = 0, pol_maxlen = 0\<rparr>)
     [1 := \<lparr>pol_type = LIBBPF_NLA_STRING, pol_minlen = 0, pol_maxlen = 0\<rparr>,
      2 := \<lparr>pol_type = LIBBPF_NLA_U32, pol_minlen = 0, pol_maxlen = 0\<rparr>]"

text \<open>The bytes of a string up to its terminator.\<close>

fun c_bytes :: "u8 list \<Rightarrow> u8 list res" where
  "c_bytes [] = Inl OutOfBounds"
| "c_bytes (b # bs) = (if b = 0 then Inr [] else rbind (c_bytes bs) (\<lambda>s. Inr (b # s)))"

text \<open>The result is always 0; the message that is printed is made part of it.\<close>

definition libbpf_nla_dump_errormsg :: "u8 list \<Rightarrow> nat \<Rightarrow> (int \<times> u8 list option) res" where
  "libbpf_nla_dump_errormsg m nlh =
     rbind (ld16 m (nlh + 6)) (\<lambda>flags.
     if flags AND NLM_F_ACK_TLVS = 0 then Inr (0, None)
     else
       let err = nlh + NLMSG_HDRLEN; hlen = 20 in
       rbind (if flags AND NLM_F_CAPPED = 0 then rbind (nlmsg_len m (err + 4)) (\<lambda>l. Inr (hlen + l)) else Inr hlen) (\<lambda>hlen.
       rbind (ld32 m nlh) (\<lambda>total.
       let attr = int err + hlen; alen = sint (total - word_of_int hlen) in
       if attr < 0 then Inl OutOfBounds
       else rbind (libbpf_nla_parse m NLMSGERR_ATTR_MAX (nat attr) alen (Some extack_policy)) (\<lambda>(rc, tb).
         if rc \<noteq> 0 then Inr (0, None)
         else (case tb ! NLMSGERR_ATTR_MSG of
                 None \<Rightarrow> Inr (0, None)
               | Some a \<Rightarrow> rbind (c_bytes (drop (libbpf_nla_data a) m)) (\<lambda>s. Inr (0, Some s)))))))"

section \<open>Streams of attributes\<close>

text \<open>The bytes of an attribute with a type and a payload, and what a stream means: for a type, the
  payload of the last attribute of that type.\<close>

type_synonym attr = "u16 \<times> u8 list"

definition attr_wf :: "attr \<Rightarrow> bool" where "attr_wf a \<longleftrightarrow> length (snd a) + 4 < 65536"

definition encode_attr :: "attr \<Rightarrow> u8 list" where
  "encode_attr a =
     (let l = length (snd a) + 4; w = word_of_nat l :: u16
      in [lo8 w, hi8 w, lo8 (fst a), hi8 (fst a)] @ snd a @ replicate (NLA_ALIGN l - l) 0)"

definition encode_attrs :: "attr list \<Rightarrow> u8 list" where
  "encode_attrs as = concat (map encode_attr as)"

definition attr_meaning :: "attr list \<Rightarrow> nat \<rightharpoonup> u8 list" where
  "attr_meaning as = map_of (rev (map (\<lambda>(t, d). (unat (t AND NLA_TYPE_MASK), d)) as))"

definition payload :: "u8 list \<Rightarrow> nat \<Rightarrow> u8 list" where
  "payload m nla = (case nla_len m nla of Inl _ \<Rightarrow> [] | Inr l \<Rightarrow> take (unat l - 4) (drop (nla + 4) m))"

lemma encode_attrs_simps [simp]:
  "encode_attrs [] = []" "encode_attrs (a # as) = encode_attr a @ encode_attrs as"
  "encode_attrs (as @ bs) = encode_attrs as @ encode_attrs bs"
  by (simp_all add: encode_attrs_def)

lemma NLA_ALIGN_ge: "n \<le> NLA_ALIGN n"
  unfolding NLA_ALIGN_def by presburger

lemma length_encode_attr: "length (encode_attr a) = NLA_ALIGN (length (snd a) + 4)"
  using NLA_ALIGN_ge [of "length (snd a) + 4"] by (simp add: encode_attr_def Let_def)

lemma unat_attr_len: "attr_wf a \<Longrightarrow> unat (word_of_nat (length (snd a) + 4) :: u16) = length (snd a) + 4"
  by (simp add: attr_wf_def unsigned_of_nat take_bit_nat_eq_self del: of_nat_add)

lemma encode_attr_fields:
  assumes "m = pre @ encode_attr a @ post" "attr_wf a"
  shows "nla_len m (length pre) = Inr (word_of_nat (length (snd a) + 4))"
    "nla_type m (length pre) = Inr (unat (fst a AND NLA_TYPE_MASK))"
    "payload m (length pre) = snd a"
proof -
  let ?w = "word_of_nat (length (snd a) + 4) :: u16"
  obtain p where p: "m = pre @ [lo8 ?w, hi8 ?w, lo8 (fst a), hi8 (fst a)] @ snd a @ p"
    using assms(1) by (auto simp: encode_attr_def Let_def)
  show l: "nla_len m (length pre) = Inr ?w"
    unfolding nla_len_def p by (simp add: ld16_def nth_append del: of_nat_add)
  show "nla_type m (length pre) = Inr (unat (fst a AND NLA_TYPE_MASK))"
    unfolding nla_type_def p by (simp add: ld16_def nth_append del: of_nat_add)
  have "drop (length pre + 4) m = snd a @ p" unfolding p by simp
  then show "payload m (length pre) = snd a"
    using l unat_attr_len [OF assms(2)] by (simp add: payload_def del: of_nat_add)
qed


section \<open>Parsing a stream\<close>

lemma size_t_of_pos: "0 \<le> r \<Longrightarrow> r < 2 ^ 63 \<Longrightarrow> (word_of_int r :: u64) < 4 \<longleftrightarrow> r < 4"
  by (simp add: word_less_def uint_word_of_int)

lemma attr_meaning_Cons:
  "attr_meaning (a # as) ty = (case attr_meaning as ty of
     Some d \<Rightarrow> Some d
   | None \<Rightarrow> if unat (fst a AND NLA_TYPE_MASK) = ty then Some (snd a) else None)"
  by (cases a) (auto simp: attr_meaning_def map_add_def split: option.splits)

lemma nla_parse_loop_attrs:
  assumes "m = pre @ encode_attrs as @ post" "\<forall>a \<in> set as. attr_wf a" "length (encode_attrs as) < 2 ^ 63"
    and "length tb = maxtype + 1"
  shows "\<exists>tb'. nla_parse_loop m maxtype None (length pre) (int (length (encode_attrs as))) tb = Inr (0, tb') \<and>
     length tb' = maxtype + 1 \<and>
     (\<forall>ty \<le> maxtype. map_option (payload m) (tb' ! ty) =
        (case attr_meaning as ty of Some d \<Rightarrow> Some d | None \<Rightarrow> map_option (payload m) (tb ! ty)))"
  using assms
proof (induction as arbitrary: pre tb)
  case Nil
  then show ?case by (subst nla_parse_loop.simps) (simp add: nla_ok_def attr_meaning_def)
next
  case (Cons a as)
  let ?r = "int (length (encode_attrs (a # as)))"
  let ?ty = "unat (fst a AND NLA_TYPE_MASK)"
  let ?n = "length (encode_attr a)"
  have a: "attr_wf a" using Cons.prems(2) by simp
  have m: "m = pre @ encode_attr a @ (encode_attrs as @ post)" using Cons.prems(1) by simp
  note f = encode_attr_fields [OF m a]
  have len: "unat (word_of_nat (length (snd a) + 4) :: u16) = length (snd a) + 4" using unat_attr_len [OF a] .
  have "uint (word_of_nat (length (snd a) + 4) :: u16) = int (unat (word_of_nat (length (snd a) + 4) :: u16))"
    by (rule uint_nat)
  then have ulen: "uint (word_of_nat (length (snd a) + 4) :: u16) = int (length (snd a) + 4)"
    unfolding len .
  have n: "?n = NLA_ALIGN (length (snd a) + 4)" by (rule length_encode_attr)
  have "4 \<le> ?n" using NLA_ALIGN_ge [of "length (snd a) + 4"] n by simp
  then have ok: "nla_ok m (length pre) ?r = Inr True"
    using f(1) len ulen n NLA_ALIGN_ge [of "length (snd a) + 4"] size_t_of_pos [of ?r] Cons.prems(3)
    by (simp add: nla_ok_True del: of_nat_add)
  have nx: "nla_next m (length pre) ?r = Inr (length pre + ?n, int (length (encode_attrs as)))"
    using f(1) len n by (simp add: nla_next_def Let_def del: of_nat_add)
  let ?tb = "if ?ty > maxtype then tb else tb[?ty := Some (length pre)]"
  have step: "nla_parse_loop m maxtype None (length pre) ?r tb =
      nla_parse_loop m maxtype None (length (pre @ encode_attr a)) (int (length (encode_attrs as))) ?tb"
    unfolding nla_parse_loop.simps [of m maxtype None "length pre" ?r tb] ok f(2) nx rbind_Inr by simp
  have "length ?tb = maxtype + 1" using Cons.prems(4) by simp
  moreover have "m = (pre @ encode_attr a) @ encode_attrs as @ post" using m by simp
  ultimately obtain tb' where tb': "nla_parse_loop m maxtype None (length (pre @ encode_attr a))
        (int (length (encode_attrs as))) ?tb = Inr (0, tb')" "length tb' = maxtype + 1"
      "\<forall>ty \<le> maxtype. map_option (payload m) (tb' ! ty) =
        (case attr_meaning as ty of Some d \<Rightarrow> Some d | None \<Rightarrow> map_option (payload m) (?tb ! ty))"
    using Cons.IH [of "pre @ encode_attr a" ?tb] Cons.prems(2,3) by auto
  have upd: "map_option (payload m) (?tb ! ty) =
      (if ?ty = ty then Some (snd a) else map_option (payload m) (tb ! ty))" if "ty \<le> maxtype" for ty
    using f(3) that Cons.prems(4) by auto
  have "map_option (payload m) (tb' ! ty) =
      (case attr_meaning (a # as) ty of Some d \<Rightarrow> Some d | None \<Rightarrow> map_option (payload m) (tb ! ty))"
    if "ty \<le> maxtype" for ty
    using tb'(3) [rule_format, OF that] unfolding attr_meaning_Cons upd [OF that] by (simp split: option.splits)
  then show ?case using tb'(1,2) step by auto
qed


section \<open>Any stream\<close>

text \<open>An attribute that lies in the buffer.\<close>

definition attr_in :: "u8 list \<Rightarrow> nat \<Rightarrow> bool" where
  "attr_in m nla \<longleftrightarrow> (\<exists>l. nla_len m nla = Inr l \<and> 4 \<le> unat l \<and> in_buf m nla (unat l))"

lemma attr_in_type: "attr_in m nla \<Longrightarrow> \<exists>ty. nla_type m nla = Inr ty"
  by (auto simp: attr_in_def nla_type_def in_buf_def ld16_def)

lemma NLA_ALIGN_le: "n \<le> r \<Longrightarrow> 4 dvd r \<Longrightarrow> NLA_ALIGN n \<le> r"
  unfolding NLA_ALIGN_def by presburger

lemma NLA_ALIGN_dvd: "4 dvd NLA_ALIGN n"
  by (simp add: NLA_ALIGN_def)

lemma validate_ok:
  assumes "attr_in m nla" "length p = maxtype + 1"
  shows "\<exists>err. validate_nla m nla maxtype p = Inr err"
proof -
  obtain l where l: "nla_len m nla = Inr l" "4 \<le> unat l" "nla + unat l \<le> length m"
    using assms(1) by (auto simp: attr_in_def in_buf_def)
  obtain ty where ty: "nla_type m nla = Inr ty" using attr_in_type [OF assms(1)] by blast
  have len: "libbpf_nla_len m nla = Inr (int (unat l) - 4)"
    using l(1) by (simp add: libbpf_nla_len_def NLA_HDRLEN_def NLA_ALIGN_def)
  have min1: "1 \<le> unat (if x \<noteq> 0 then x else 1 :: u16)" for x :: u16
    by (cases "x = 0") (auto simp: Suc_le_eq unat_gt_0)
  have c: "\<exists>c. ld8 m (nat (int (libbpf_nla_data nla) + (int (unat l) - 4) - 1)) = Inr c" if "5 \<le> unat l"
  proof -
    have "libbpf_nla_data nla = nla + 4" by (simp add: libbpf_nla_data_def NLA_HDRLEN_def NLA_ALIGN_def)
    moreover have "nat (int (nla + 4) + (int n - 4) - 1) = nla + n - 1" if "5 \<le> n" for n using that by simp
    ultimately have "nat (int (libbpf_nla_data nla) + (int (unat l) - 4) - 1) = nla + unat l - 1"
      using that by presburger
    then show ?thesis using that l(3) by (auto simp only: ld8_eq_Inr)
  qed
  consider "ty > maxtype" | "ty \<le> maxtype" "pol_type (p ! ty) = LIBBPF_NLA_STRING"
    | "ty \<le> maxtype" "pol_type (p ! ty) \<noteq> LIBBPF_NLA_STRING" by linarith
  then show ?thesis
  proof cases
    case 2
    let ?min = "if pol_minlen (p ! ty) \<noteq> 0 then pol_minlen (p ! ty) else 1"
    let ?ld = "ld8 m (nat (int (libbpf_nla_data nla) + (int (unat l) - 4) - 1))"
    have "nla_attr_minlen ! unat LIBBPF_NLA_STRING = 1" by (simp add: nla_attr_minlen_def LIBBPF_NLA_STRING_def)
    moreover have "\<not> LIBBPF_NLA_STRING > LIBBPF_NLA_TYPE_MAX" "LIBBPF_NLA_STRING \<noteq> LIBBPF_NLA_UNSPEC"
      by (simp_all add: LIBBPF_NLA_STRING_def LIBBPF_NLA_TYPE_MAX_def LIBBPF_NLA_UNSPEC_def)
    ultimately have v: "validate_nla m nla maxtype p =
        (if int (unat l) - 4 < int (unat ?min) then Inr (- 1)
         else if pol_maxlen (p ! ty) \<noteq> 0 \<and> int (unat l) - 4 > int (unat (pol_maxlen (p ! ty))) then Inr (- 1)
         else rbind ?ld (\<lambda>c. Inr (if c \<noteq> 0 then - 1 else 0)))"
      unfolding validate_nla_def ty len rbind_Inr Let_def using 2 assms(2) by (simp cong: if_cong split del: if_split)
    show ?thesis
    proof (cases "int (unat l) - 4 < int (unat ?min)")
      case False
      then have "5 \<le> unat l" using min1 [of "pol_minlen (p ! ty)"] by linarith
      then obtain c where "?ld = Inr c" using c by blast
      then show ?thesis unfolding v by simp
    qed (simp add: v)
  qed (use ty len assms(2) in \<open>auto simp: validate_nla_def Let_def\<close>)
qed


lemma nla_parse_loop_total:
  assumes "nla + nat rem \<le> length m" "0 \<le> rem" "4 dvd rem" "rem < 2 ^ 63" "length tb = maxtype + 1"
    and "\<forall>p. policy = Some p \<longrightarrow> length p = maxtype + 1"
    and "\<forall>a. Some a \<in> set tb \<longrightarrow> attr_in m a"
  shows "\<exists>err tb'. nla_parse_loop m maxtype policy nla rem tb = Inr (err, tb') \<and> length tb' = maxtype + 1 \<and>
     (\<forall>a. Some a \<in> set tb' \<longrightarrow> attr_in m a)"
  using assms
proof (induction "nat rem" arbitrary: nla rem tb rule: less_induct)
  case less
  show ?case
  proof (cases "4 \<le> rem")
    case False
    then have "nla_ok m nla rem = Inr False"
      using size_t_of_pos [OF less.prems(2,4)] by (simp add: nla_ok_def)
    then show ?thesis using less.prems by (subst nla_parse_loop.simps) simp
  next
    case True
    then obtain l where l: "nla_len m nla = Inr l" using less.prems(1) by (auto simp: nla_len_def ld16_eq_Inr in_buf_def)
    show ?thesis
    proof (cases "4 \<le> unat l \<and> int (unat l) \<le> rem")
      case False
      then have "nla_ok m nla rem = Inr False"
        using l True size_t_of_pos [OF less.prems(2,4)] by (simp add: nla_ok_def)
      then show ?thesis using less.prems by (subst nla_parse_loop.simps) simp
    next
      case in_rem: True
      have ok: "nla_ok m nla rem = Inr True"
        using l in_rem True size_t_of_pos [OF less.prems(2,4)] unfolding nla_ok_True by auto
      have "unat l \<le> nat rem" using in_rem by linarith
      then have a: "attr_in m nla" using l in_rem less.prems(1) by (auto simp: attr_in_def in_buf_def)
      obtain ty where ty: "nla_type m nla = Inr ty" using attr_in_type [OF a] by blast
      let ?n = "NLA_ALIGN (unat l)"
      have nx: "nla_next m nla rem = Inr (nla + ?n, rem - int ?n)" using l by (simp add: nla_next_def Let_def)
      have d: "4 dvd nat rem" using less.prems(2,3) by (metis int_nat_eq int_dvd_int_iff of_nat_numeral)
      have n: "?n \<le> nat rem" "0 < ?n"
        using NLA_ALIGN_le [OF \<open>unat l \<le> nat rem\<close> d] NLA_ALIGN_ge [of "unat l"] in_rem by linarith+
      have dv: "4 dvd rem - int ?n" using less.prems(3) NLA_ALIGN_dvd [of "unat l"] by (simp add: dvd_diff int_dvd_int_iff [symmetric] del: int_dvd_int_iff)
      have IH: "\<exists>err tb'. nla_parse_loop m maxtype policy (nla + ?n) (rem - int ?n) tb1 = Inr (err, tb') \<and>
          length tb' = maxtype + 1 \<and> (\<forall>a. Some a \<in> set tb' \<longrightarrow> attr_in m a)"
        if "length tb1 = maxtype + 1" "\<forall>a. Some a \<in> set tb1 \<longrightarrow> attr_in m a" for tb1
        by (rule less.hyps) (use n less.prems dv that in \<open>auto simp: nat_diff_distrib'\<close>)
      note step = nla_parse_loop.simps [of m maxtype policy nla rem tb, unfolded ok ty nx rbind_Inr]
      show ?thesis
      proof (cases "ty > maxtype")
        case True
        then show ?thesis using IH [OF less.prems(5,7)] step by simp
      next
        case False
        have "\<exists>err. (case policy of None \<Rightarrow> Inr 0 | Some p \<Rightarrow> validate_nla m nla maxtype p) = Inr err"
          using validate_ok [OF a] less.prems(6) by (auto split: option.splits)
        then obtain err where err: "(case policy of None \<Rightarrow> Inr 0 | Some p \<Rightarrow> validate_nla m nla maxtype p) = Inr err"
          by blast
        have "\<forall>b. Some b \<in> set (tb[ty := Some nla]) \<longrightarrow> attr_in m b"
          using less.prems(7) a set_update_subset_insert by fastforce
        then show ?thesis
          using IH [of "tb[ty := Some nla]"] less.prems(5,7) step False err by (cases "err < 0") auto
      qed
    qed
  qed
qed


lemma encode_attrs_dvd: "4 dvd length (encode_attrs as)"
  by (induction as) (simp_all add: length_encode_attr NLA_ALIGN_dvd)

lemma nla_parse_encoded:
  assumes "m = pre @ encode_attrs as @ post" "\<forall>a \<in> set as. attr_wf a" "length (encode_attrs as) < 2 ^ 63"
  shows "\<exists>tb. libbpf_nla_parse m maxtype (length pre) (int (length (encode_attrs as))) None = Inr (0, tb) \<and>
     length tb = maxtype + 1 \<and> (\<forall>ty \<le> maxtype. map_option (payload m) (tb ! ty) = attr_meaning as ty) \<and>
     (\<forall>a. Some a \<in> set tb \<longrightarrow> attr_in m a)"
proof -
  let ?n = "replicate (maxtype + 1) None :: nat option list"
  obtain tb where tb: "libbpf_nla_parse m maxtype (length pre) (int (length (encode_attrs as))) None = Inr (0, tb)"
      "length tb = maxtype + 1" "\<forall>ty \<le> maxtype. map_option (payload m) (tb ! ty) = (case attr_meaning as ty of
         Some d \<Rightarrow> Some d | None \<Rightarrow> map_option (payload m) (?n ! ty))"
    using nla_parse_loop_attrs [OF assms, of ?n maxtype] unfolding libbpf_nla_parse_def by auto
  have "?n ! ty = None" if "ty \<le> maxtype" for ty using that by (simp del: replicate_Suc)
  then have "\<forall>ty \<le> maxtype. map_option (payload m) (tb ! ty) = attr_meaning as ty"
    using tb(3) by (auto split: option.splits)
  moreover have "\<forall>a. Some a \<in> set tb \<longrightarrow> attr_in m a"
  proof -
    have "4 dvd int (length (encode_attrs as))" using encode_attrs_dvd [of as] by (metis int_dvd_int_iff of_nat_numeral)
    moreover have "length pre + nat (int (length (encode_attrs as))) \<le> length m" using assms(1) by simp
    ultimately show ?thesis
      using nla_parse_loop_total [of "length pre" "int (length (encode_attrs as))" m ?n maxtype None] assms(3) tb(1)
      unfolding libbpf_nla_parse_def by auto
  qed
  ultimately show ?thesis using tb(1,2) by blast
qed

lemma payload_split:
  assumes "attr_in m nla" "payload m nla = d"
  obtains pre post l where "m = pre @ d @ post" "length pre = nla + 4" "nla_len m nla = Inr l" "unat l = length d + 4"
proof -
  obtain l where l: "nla_len m nla = Inr l" "4 \<le> unat l" "nla + unat l \<le> length m"
    using assms(1) by (auto simp: attr_in_def in_buf_def)
  have d: "d = take (unat l - 4) (drop (nla + 4) m)" using assms(2) l(1) by (simp add: payload_def)
  have "m = take (nla + 4) m @ d @ drop (unat l - 4) (drop (nla + 4) m)" unfolding d
    by (simp only: append_take_drop_id)
  moreover have "length (take (nla + 4) m) = nla + 4" "unat l = length d + 4" using l(2,3) d by simp_all
  ultimately show ?thesis using l(1) that by blast
qed

lemma nla_parse_nested_encoded:
  assumes "attr_in m nla" "payload m nla = encode_attrs as" "\<forall>a \<in> set as. attr_wf a"
  shows "\<exists>tb. libbpf_nla_parse_nested m maxtype nla None = Inr (0, tb) \<and>
     length tb = maxtype + 1 \<and> (\<forall>ty \<le> maxtype. map_option (payload m) (tb ! ty) = attr_meaning as ty) \<and>
     (\<forall>a. Some a \<in> set tb \<longrightarrow> attr_in m a)"
proof -
  obtain pre post l where m: "m = pre @ encode_attrs as @ post" "length pre = nla + 4" "nla_len m nla = Inr l"
      "unat l = length (encode_attrs as) + 4" by (rule payload_split [OF assms(1,2)])
  have "length (encode_attrs as) < 65536" using unat_u16_lt [of l] m(4) by simp
  then have "length (encode_attrs as) < 2 ^ 63" by simp
  moreover have "libbpf_nla_len m nla = Inr (int (length (encode_attrs as)))"
    unfolding libbpf_nla_len_def m(3) rbind_Inr m(4) by (simp add: NLA_HDRLEN_def NLA_ALIGN_def)
  moreover have "libbpf_nla_data nla = length pre" using m(2) by (simp add: libbpf_nla_data_def NLA_HDRLEN_def NLA_ALIGN_def)
  ultimately show ?thesis
    using nla_parse_encoded [OF m(1) assms(3), of maxtype] unfolding libbpf_nla_parse_nested_def by simp
qed

lemma getattr_u32_payload: "attr_in m nla \<Longrightarrow> payload m nla = bytes32 v \<Longrightarrow> libbpf_nla_getattr_u32 m nla = Inr v"
proof -
  assume "attr_in m nla" "payload m nla = bytes32 v"
  then obtain pre post l where "m = pre @ bytes32 v @ post" "length pre = nla + 4" "nla_len m nla = Inr l"
      "unat l = length (bytes32 v) + 4" by (rule payload_split)
  then show ?thesis
    by (simp add: libbpf_nla_getattr_u32_def libbpf_nla_data_def NLA_HDRLEN_def NLA_ALIGN_def ld32_def ldn_def
        bytes32_def le32_bytes32)
qed

lemma getattr_u8_payload: "attr_in m nla \<Longrightarrow> payload m nla = [b] \<Longrightarrow> libbpf_nla_getattr_u8 m nla = Inr b"
proof -
  assume "attr_in m nla" "payload m nla = [b]"
  then obtain pre post l where "m = pre @ [b] @ post" "length pre = nla + 4" "nla_len m nla = Inr l"
      "unat l = length [b] + 4" by (rule payload_split)
  then show ?thesis
    by (simp add: libbpf_nla_getattr_u8_def libbpf_nla_data_def NLA_HDRLEN_def NLA_ALIGN_def ld8_def nth_append)
qed

section \<open>Properties\<close>

text \<open>C28. Parsing never leaves the buffer when the length of the stream is a multiple of four, whatever
  the bytes and the policy are: it returns, and every pointer it stores is an attribute that lies in
  the buffer with its payload.\<close>

theorem nla_parse_total:
  assumes "head + nat len \<le> length m" "0 \<le> len" "4 dvd len" "len < 2 ^ 63"
    and "\<forall>p. policy = Some p \<longrightarrow> length p = maxtype + 1"
  shows "\<exists>err tb. libbpf_nla_parse m maxtype head len policy = Inr (err, tb) \<and> length tb = maxtype + 1 \<and>
     (\<forall>a. Some a \<in> set tb \<longrightarrow> attr_in m a)"
  unfolding libbpf_nla_parse_def by (rule nla_parse_loop_total) (use assms in auto)

theorem nla_parse_total_witness:
  "\<exists>err tb. libbpf_nla_parse [7, 0, 1, 0, 97, 98, 0, 0, 200, 0, 2, 0] 3 0 12 (Some extack_policy) = Inr (err, tb)"
  using nla_parse_total [of 0 12 "[7, 0, 1, 0, 97, 98, 0, 0, 200, 0, 2, 0]" "Some extack_policy" 3]
  by (auto simp: extack_policy_def)

text \<open>Encoding and parsing: a stream of well-formed attributes, wherever it lies in the buffer, is
  parsed without an error, and the pointer stored for a type is an attribute with the payload of
  the last attribute of that type; for a type that does not occur it is NULL.\<close>

theorem nla_parse_attrs:
  assumes "m = pre @ encode_attrs as @ post" "\<forall>a \<in> set as. attr_wf a" "length (encode_attrs as) < 2 ^ 63"
  shows "\<exists>tb. libbpf_nla_parse m maxtype (length pre) (int (length (encode_attrs as))) None = Inr (0, tb) \<and>
     (\<forall>ty \<le> maxtype. map_option (payload m) (tb ! ty) = attr_meaning as ty)"
  using nla_parse_encoded [OF assms, of maxtype] by blast

definition sample_attrs :: "attr list" where
  "sample_attrs = [(3, [1, 2, 3, 4]), (1, [9]), (0x8003, [5, 6])]"

theorem nla_parse_attrs_witness:
  "\<exists>tb. libbpf_nla_parse (encode_attrs sample_attrs) 4 0 24 None = Inr (0, tb) \<and>
     map_option (payload (encode_attrs sample_attrs)) (tb ! 3) = Some [5, 6] \<and> tb ! 2 = None"
proof -
  have len: "length (encode_attrs sample_attrs) = 24" by code_simp
  have mean: "attr_meaning sample_attrs 3 = Some [5, 6]" "attr_meaning sample_attrs 2 = None" by code_simp+
  have "\<forall>a \<in> set sample_attrs. attr_wf a" by (simp add: sample_attrs_def attr_wf_def)
  then obtain tb where tb: "libbpf_nla_parse (encode_attrs sample_attrs) 4 0 24 None = Inr (0, tb)"
      "\<forall>ty \<le> 4. map_option (payload (encode_attrs sample_attrs)) (tb ! ty) = attr_meaning sample_attrs ty"
    using nla_parse_attrs [of "encode_attrs sample_attrs" "[]" sample_attrs "[]" 4] len by auto
  from tb(2) [rule_format, of 3] tb(2) [rule_format, of 2] mean tb(1) show ?thesis by auto
qed

text \<open>A last attribute that is not padded makes the parser read behind the end of the stream: the
  remaining length becomes negative, the unsigned comparison takes it for a huge number, and the
  length of one more attribute is read.\<close>

theorem nla_unpadded_overread:
  assumes "nla_len m nla = Inr l" "4 \<le> unat l" "unat l mod 4 \<noteq> 0" "nla + unat l = length m"
  shows "libbpf_nla_parse m maxtype nla (int (unat l)) None = Inl OutOfBounds"
proof -
  let ?n = "NLA_ALIGN (unat l)"
  have n: "unat l < ?n" "?n \<le> unat l + 3" using assms(3) unfolding NLA_ALIGN_def by presburger+
  have l: "unat l < 65536" by (rule unat_u16_lt)
  have ok: "nla_ok m nla (int (unat l)) = Inr True"
  proof -
    have "int (unat l) < int 65536" using l by (simp only: of_nat_less_iff)
    then have "int (unat l) < 2 ^ 63" by (rule order_less_trans) simp
    moreover have "0 \<le> int (unat l)" "4 \<le> int (unat l)" using assms(2) by linarith+
    ultimately have b: "0 \<le> int (unat l)" "4 \<le> int (unat l)" "int (unat l) < 2 ^ 63" by blast+
    then have "\<not> (word_of_int (int (unat l)) :: u64) < 4" using size_t_of_pos [OF b(1,3)] by linarith
    then show ?thesis unfolding nla_ok_True using assms(1,2) b(2) by blast
  qed
  have nx: "nla_next m nla (int (unat l)) = Inr (nla + ?n, int (unat l) - int ?n)"
    using assms(1) by (simp add: nla_next_def Let_def)
  have "attr_in m nla" using assms(1,2,4) by (auto simp: attr_in_def in_buf_def)
  then obtain ty where ty: "nla_type m nla = Inr ty" using attr_in_type by blast
  have "int a - int b \<in> {- 3, - 2, - 1}" if "a < b" "b \<le> a + 3" for a b :: nat using that by auto
  from this [OF n] have neg: "int (unat l) - int ?n \<in> {- 3, - 2, - 1}" .
  have "\<not> (word_of_int r :: u64) < 4" if "r \<in> {- 3, - 2, - 1}" for r
  proof -
    have "\<not> (word_of_int (- 3) :: u64) < 4" "\<not> (word_of_int (- 2) :: u64) < 4" "\<not> (word_of_int (- 1) :: u64) < 4"
      by code_simp+
    then show ?thesis using that by blast
  qed
  from this [OF neg] have "\<not> (word_of_int (int (unat l) - int ?n) :: u64) < 4" .
  then have "nla_ok m (nla + ?n) (int (unat l) - int ?n) = Inl OutOfBounds"
    using n(1) assms(4) by (simp add: nla_ok_def nla_len_def ld16_def)
  then have stop: "nla_parse_loop m maxtype None (nla + ?n) (int (unat l) - int ?n) tb = Inl OutOfBounds" for tb
    by (subst nla_parse_loop.simps) simp
  show ?thesis
    unfolding libbpf_nla_parse_def nla_parse_loop.simps [of m maxtype None nla "int (unat l)"] ok ty nx rbind_Inr
    by (simp only: stop prod.case option.case rbind_Inr simp_thms if_True if_False if_cancel less_irrefl)
qed

theorem nla_unpadded_overread_witness:
  "libbpf_nla_parse [5, 0, 1, 0, 9] 3 0 5 None = Inl OutOfBounds"
proof -
  have "nla_len [5, 0, 1, 0, 9] 0 = Inr 5" "unat (5 :: u16) = 5" by code_simp+
  then show ?thesis using nla_unpadded_overread [of "[5, 0, 1, 0, 9]" 0 5 3] by simp
qed

text \<open>The extended error message is searched in 16 bytes too many: the length of the attributes
  does not subtract the message header. A capped error message with the text \<open>a\<close> is printed with the
  text \<open>b\<close> when stale bytes behind the message in the receive buffer look like an attribute.\<close>

definition ext_error :: "u8 list" where
  "ext_error = [44, 0, 0, 0, 2, 0, 0, 3, 0, 0, 0, 0, 0, 0, 0, 0] @ [255, 255, 255, 255] @ replicate 16 0 @
     encode_attr (1, [97, 0])"

theorem errormsg_reads_behind:
  "length ext_error = 44 \<and> ld32 ext_error 0 = Inr 44 \<and>
   libbpf_nla_dump_errormsg (ext_error @ encode_attr (1, [98, 0]) @ replicate 8 0) 0 = Inr (0, Some [98]) \<and>
   libbpf_nla_dump_errormsg ext_error 0 = Inl OutOfBounds"
  by code_simp

end
