(* ===== verification/Libbpf_Netlink.thy ===== *)
theory Libbpf_Netlink
  imports Libbpf_Nlattr User_Link
begin

text \<open>
  The netlink client of libbpf (\<open>xdp/libbpf/src/netlink.c\<close>): the request that attaches an XDP
  program to an interface, the loop that receives the answers of the kernel, and the dump that
  finds the identifiers of the attached programs. A request is the buffer on the stack, filled by
  bounds-checked stores. What the socket calls return is a parameter; the receive buffer keeps the
  bytes of earlier messages behind the end of the current one.
\<close>

section \<open>Constants\<close>

definition XDP_FLAGS_REPLACE :: u32 where "XDP_FLAGS_REPLACE = 16"
definition XDP_FLAGS_MASK :: u32 where
  "XDP_FLAGS_MASK = XDP_FLAGS_UPDATE_IF_NOEXIST OR XDP_FLAGS_MODES OR XDP_FLAGS_REPLACE"

abbreviation (input) IFLA_XDP :: nat where "IFLA_XDP \<equiv> 43"
abbreviation (input) IFLA_MAX :: nat where "IFLA_MAX \<equiv> 54"
abbreviation (input) IFLA_XDP_FD :: u16 where "IFLA_XDP_FD \<equiv> 1"
abbreviation (input) IFLA_XDP_ATTACHED :: nat where "IFLA_XDP_ATTACHED \<equiv> 2"
abbreviation (input) IFLA_XDP_FLAGS :: u16 where "IFLA_XDP_FLAGS \<equiv> 3"
abbreviation (input) IFLA_XDP_PROG_ID :: nat where "IFLA_XDP_PROG_ID \<equiv> 4"
abbreviation (input) IFLA_XDP_DRV_PROG_ID :: nat where "IFLA_XDP_DRV_PROG_ID \<equiv> 5"
abbreviation (input) IFLA_XDP_SKB_PROG_ID :: nat where "IFLA_XDP_SKB_PROG_ID \<equiv> 6"
abbreviation (input) IFLA_XDP_HW_PROG_ID :: nat where "IFLA_XDP_HW_PROG_ID \<equiv> 7"
abbreviation (input) IFLA_XDP_EXPECTED_FD :: u16 where "IFLA_XDP_EXPECTED_FD \<equiv> 8"
abbreviation (input) IFLA_XDP_MAX :: nat where "IFLA_XDP_MAX \<equiv> 8"
abbreviation (input) NLA_F_NESTED :: u16 where "NLA_F_NESTED \<equiv> 0x8000"
abbreviation (input) NLM_F_MULTI :: u16 where "NLM_F_MULTI \<equiv> 2"
abbreviation (input) NLMSG_ERROR :: u16 where "NLMSG_ERROR \<equiv> 2"
abbreviation (input) NLMSG_DONE :: u16 where "NLMSG_DONE \<equiv> 3"
abbreviation (input) RTM_GETLINK :: u16 where "RTM_GETLINK \<equiv> 18"
abbreviation (input) RTM_SETLINK :: u16 where "RTM_SETLINK \<equiv> 19"
abbreviation (input) LIBBPF_ERRNO__INTERNAL :: int where "LIBBPF_ERRNO__INTERNAL \<equiv> 4004"
abbreviation (input) LIBBPF_ERRNO__WRNGPID :: int where "LIBBPF_ERRNO__WRNGPID \<equiv> 4011"
abbreviation (input) LIBBPF_ERRNO__INVSEQ :: int where "LIBBPF_ERRNO__INVSEQ \<equiv> 4012"
abbreviation (input) LIBBPF_ERRNO__NLPARSE :: int where "LIBBPF_ERRNO__NLPARSE \<equiv> 4013"
abbreviation (input) XDP_ATTACHED_NONE :: u8 where "XDP_ATTACHED_NONE \<equiv> 0"
abbreviation (input) XDP_ATTACHED_MULTI :: u8 where "XDP_ATTACHED_MULTI \<equiv> 4"

definition NLMSG_ALIGN :: "u32 \<Rightarrow> u32" where "NLMSG_ALIGN n = (n + 3) AND NOT 3"

section \<open>Opening a socket\<close>

text \<open>The results of \<open>socket\<close>, \<open>bind\<close> and \<open>getsockname\<close>, each with the error number.\<close>

record netlink_env =
  ne_sock :: int
  ne_sock_errno :: int
  ne_bind :: int
  ne_bind_errno :: int
  ne_name :: int
  ne_name_errno :: int
  ne_addrlen :: nat
  ne_pid :: u32

text \<open>The result: the socket or a negative error, the port, and the descriptors that are open.\<close>

definition libbpf_netlink_open :: "netlink_env \<Rightarrow> int set \<Rightarrow> int \<times> u32 \<times> int set" where
  "libbpf_netlink_open E fds =
     (if ne_sock E < 0 then (- ne_sock_errno E, 0, fds)
      else
        let fds = insert (ne_sock E) fds; cleanup = (\<lambda>ret. (ret, 0, fds - {ne_sock E})) in
        if ne_bind E < 0 then cleanup (- ne_bind_errno E)
        else if ne_name E < 0 then cleanup (- ne_name_errno E)
        else if ne_addrlen E \<noteq> 12 then cleanup (- LIBBPF_ERRNO__INTERNAL)
        else (ne_sock E, ne_pid E, fds))"

section \<open>The request that sets the program\<close>

text \<open>Adding an attribute with a 32-bit value behind the nested attribute at position 32 and
  growing the nested attribute.\<close>

definition add_xdp_attr :: "u8 list \<Rightarrow> u16 \<Rightarrow> u32 \<Rightarrow> u8 list res" where
  "add_xdp_attr m ty v =
     rbind (nla_len m 32) (\<lambda>l.
     let nla_xdp = 32 + unat l in
     rbind (st16 m (nla_xdp + 2) ty) (\<lambda>m.
     rbind (st16 m nla_xdp (word_of_nat (NLA_HDRLEN + 4))) (\<lambda>m.
     rbind (st32 m (nla_xdp + NLA_HDRLEN) v) (\<lambda>m.
     rbind (nla_len m nla_xdp) (\<lambda>xl.
     rbind (nla_len m 32) (\<lambda>l. st16 m 32 (l + xl)))))))"

definition setlink_header :: "u32 \<Rightarrow> u8 list res" where
  "setlink_header ifindex =
     rbind (st32 (replicate 96 0) 0 32) (\<lambda>m.
     rbind (st16 m 6 (1 OR 4)) (\<lambda>m.
     rbind (st16 m 4 RTM_SETLINK) (\<lambda>m.
     rbind (st32 m 12 0) (\<lambda>m.
     rbind (st32 m 8 1) (\<lambda>m.
     rbind (stn m 16 [0]) (\<lambda>m.
     st32 m 20 ifindex))))))"

definition setlink_request :: "u32 \<Rightarrow> u32 \<Rightarrow> u32 \<Rightarrow> u32 \<Rightarrow> u8 list res" where
  "setlink_request ifindex fd old_fd flags =
     rbind (setlink_header ifindex) (\<lambda>m.
     rbind (st16 m 34 (NLA_F_NESTED OR word_of_nat IFLA_XDP)) (\<lambda>m.
     rbind (st16 m 32 (word_of_nat NLA_HDRLEN)) (\<lambda>m.
     rbind (add_xdp_attr m IFLA_XDP_FD fd) (\<lambda>m.
     rbind (if flags \<noteq> 0 then add_xdp_attr m IFLA_XDP_FLAGS flags else Inr m) (\<lambda>m.
     rbind (if flags AND XDP_FLAGS_REPLACE \<noteq> 0 then add_xdp_attr m IFLA_XDP_EXPECTED_FD old_fd else Inr m) (\<lambda>m.
     rbind (nla_len m 32) (\<lambda>l.
     rbind (ld32 m 0) (\<lambda>total.
     rbind (st32 m 0 (total + word_of_nat (NLA_ALIGN (unat l)))) (\<lambda>m.
     rbind (ld32 m 0) (\<lambda>total. ldn m 0 (unat total)))))))))))"

section \<open>Receiving\<close>

datatype recv_result = Recv_Error int | Recv_Data "u8 list"

datatype 'st nl_step = Return int 'st | Next bool 'st

text \<open>The callback gets the receive buffer and the position of the message.\<close>

type_synonym 'st dump_fn = "u8 list \<Rightarrow> nat \<Rightarrow> 'st \<Rightarrow> (int \<times> 'st) res"

definition NLMSG_OK :: "u8 list \<Rightarrow> nat \<Rightarrow> int \<Rightarrow> bool res" where
  "NLMSG_OK buf nh len =
     (if len < 16 then Inr False
      else rbind (ld32 buf nh) (\<lambda>l. Inr (16 \<le> l \<and> l \<le> word_of_int len)))"

definition NLMSG_NEXT :: "u8 list \<Rightarrow> nat \<Rightarrow> int \<Rightarrow> (nat \<times> int) res" where
  "NLMSG_NEXT buf nh len =
     rbind (ld32 buf nh) (\<lambda>l. Inr (nh + unat (NLMSG_ALIGN l), sint (word_of_int len - NLMSG_ALIGN l)))"

definition nl_header :: "u8 list \<Rightarrow> nat \<Rightarrow> (u16 \<times> u16 \<times> u32 \<times> u32) res" where
  "nl_header buf nh =
     rbind (ld16 buf (nh + 4)) (\<lambda>ty. rbind (ld16 buf (nh + 6)) (\<lambda>fl.
     rbind (ld32 buf (nh + 8)) (\<lambda>sq. rbind (ld32 buf (nh + 12)) (\<lambda>pid. Inr (ty, fl, sq, pid)))))"

text \<open>The loop over the messages of one datagram. A datagram has at most 4096 bytes and a message at
  least 16, so \<open>fuel\<close> 257 is enough; without fuel the result is \<open>None\<close>.\<close>

fun nl_messages ::
    "nat \<Rightarrow> u32 \<Rightarrow> u32 \<Rightarrow> 'st dump_fn option \<Rightarrow> u8 list \<Rightarrow> nat \<Rightarrow> int \<Rightarrow> bool \<Rightarrow> 'st \<Rightarrow> 'st nl_step out" where
  "nl_messages 0 nl_pid sq f buf nh len multipart st = None"
| "nl_messages (Suc fuel) nl_pid sq f buf nh len multipart st =
     obind (Some (NLMSG_OK buf nh len)) (\<lambda>ok.
     if \<not> ok then Some (Inr (Next multipart st))
     else
       obind (Some (nl_header buf nh)) (\<lambda>(ty, fl, msq, pid).
       if pid \<noteq> nl_pid then Some (Inr (Return (- LIBBPF_ERRNO__WRNGPID) st))
       else if msq \<noteq> sq then Some (Inr (Return (- LIBBPF_ERRNO__INVSEQ) st))
       else
         let multipart = (multipart \<or> fl AND NLM_F_MULTI \<noteq> 0);
             continue = (\<lambda>st. obind (Some (NLMSG_NEXT buf nh len)) (\<lambda>(nh', len').
                          nl_messages fuel nl_pid sq f buf nh' len' multipart st))
         in if ty = NLMSG_ERROR then
              obind (Some (ld32 buf (nh + 16))) (\<lambda>error.
                if error = 0 then continue st
                else obind (Some (libbpf_nla_dump_errormsg buf nh)) (\<lambda>_. Some (Inr (Return (sint error) st))))
            else if ty = NLMSG_DONE then Some (Inr (Return 0 st))
            else (case f of
                    None \<Rightarrow> continue st
                  | Some fn \<Rightarrow> obind (Some (fn buf nh st)) (\<lambda>(ret, st).
                      if ret \<noteq> 0 then Some (Inr (Return ret st)) else continue st))))"

text \<open>The loop over the datagrams. \<open>None\<close> when it still waits for the next one.\<close>

fun bpf_netlink_recv ::
    "u32 \<Rightarrow> u32 \<Rightarrow> 'st dump_fn option \<Rightarrow> recv_result list \<Rightarrow> u8 list \<Rightarrow> 'st \<Rightarrow> (int \<times> 'st) out" where
  "bpf_netlink_recv nl_pid sq f [] buf st = None"
| "bpf_netlink_recv nl_pid sq f (Recv_Error e # rs) buf st = Some (Inr (- e, st))"
| "bpf_netlink_recv nl_pid sq f (Recv_Data d # rs) buf st =
     (let d = take (length buf) d; len = length d in
      if len = 0 then Some (Inr (0, st))
      else
        let buf = d @ drop len buf in
        obind (nl_messages 257 nl_pid sq f buf 0 (int len) False st) (\<lambda>step.
          (case step of
             Return ret st \<Rightarrow> Some (Inr (ret, st))
           | Next multipart st \<Rightarrow>
               if multipart then bpf_netlink_recv nl_pid sq f rs buf st else Some (Inr (0, st)))))"

text \<open>Setting the program: the descriptors that are open, what \<open>send\<close> returns for the request (0 or
  an error number), the answers, and the content of the receive buffer.\<close>

definition bpf_set_link_xdp_fd_replace ::
    "netlink_env \<Rightarrow> (u8 list \<Rightarrow> int) \<Rightarrow> recv_result list \<Rightarrow> u8 list \<Rightarrow> int set \<Rightarrow> u32 \<Rightarrow> u32 \<Rightarrow> u32 \<Rightarrow> u32 \<Rightarrow>
     (int \<times> int set) out" where
  "bpf_set_link_xdp_fd_replace E send rs junk fds ifindex fd old_fd flags =
     (case libbpf_netlink_open E fds of (sock, nl_pid, fds) \<Rightarrow>
        if sock < 0 then Some (Inr (sock, fds))
        else
          obind (Some (setlink_request ifindex fd old_fd flags)) (\<lambda>req.
          if send req \<noteq> 0 then Some (Inr (- send req, fds - {sock}))
          else obind (bpf_netlink_recv nl_pid 1 None rs junk ()) (\<lambda>(ret, _). Some (Inr (ret, fds - {sock})))))"

definition bpf_set_link_xdp_fd where
  "bpf_set_link_xdp_fd E send rs junk fds ifindex fd flags =
     bpf_set_link_xdp_fd_replace E send rs junk fds ifindex fd 0 flags"

text \<open>The options: \<open>None\<close> for NULL, otherwise whether they are valid and the old descriptor when they
  have one.\<close>

definition bpf_set_link_xdp_fd_opts where
  "bpf_set_link_xdp_fd_opts E send rs junk fds ifindex fd flags opts =
     (case opts of
        Some (False, _) \<Rightarrow> Some (Inr (- EINVAL, fds))
      | Some (True, Some old_fd) \<Rightarrow>
          bpf_set_link_xdp_fd_replace E send rs junk fds ifindex fd old_fd (flags OR XDP_FLAGS_REPLACE)
      | _ \<Rightarrow> bpf_set_link_xdp_fd_replace E send rs junk fds ifindex fd (- 1) flags)"

section \<open>The dump of the links\<close>

record xdp_link_info =
  prog_id :: u32
  drv_prog_id :: u32
  hw_prog_id :: u32
  skb_prog_id :: u32
  attach_mode :: u8

record xdp_id_md =
  md_ifindex :: u32
  md_flags :: u32
  md_info :: xdp_link_info

definition info_zero :: xdp_link_info where
  "info_zero = \<lparr>prog_id = 0, drv_prog_id = 0, hw_prog_id = 0, skb_prog_id = 0, attach_mode = 0\<rparr>"

definition dump_link_nlmsg :: "(u8 list \<Rightarrow> nat \<Rightarrow> nat option list \<Rightarrow> 'st \<Rightarrow> (int \<times> 'st) res) \<Rightarrow> 'st dump_fn" where
  "dump_link_nlmsg fn buf nlh st =
     rbind (ld32 buf nlh) (\<lambda>total.
     let ifi = nlh + 16; len = sint (total - 32); attr = ifi + 16 in
     rbind (libbpf_nla_parse buf IFLA_MAX attr len None) (\<lambda>(rc, tb).
       if rc \<noteq> 0 then Inr (- LIBBPF_ERRNO__NLPARSE, st) else fn buf ifi tb st))"

definition get_id :: "u8 list \<Rightarrow> nat option \<Rightarrow> u32 \<Rightarrow> u32 res" where
  "get_id buf a old = (case a of None \<Rightarrow> Inr old | Some nla \<Rightarrow> libbpf_nla_getattr_u32 buf nla)"

definition get_xdp_info :: "u8 list \<Rightarrow> nat \<Rightarrow> nat option list \<Rightarrow> xdp_id_md \<Rightarrow> (int \<times> xdp_id_md) res" where
  "get_xdp_info buf ifinfo tb md =
     rbind (ld32 buf (ifinfo + 4)) (\<lambda>ifi_index.
     if md_ifindex md \<noteq> 0 \<and> md_ifindex md \<noteq> ifi_index then Inr (0, md)
     else (case tb ! IFLA_XDP of
       None \<Rightarrow> Inr (0, md)
     | Some nla \<Rightarrow>
         rbind (libbpf_nla_parse_nested buf IFLA_XDP_MAX nla None) (\<lambda>(ret, xdp_tb).
         if ret \<noteq> 0 then Inr (ret, md)
         else (case xdp_tb ! IFLA_XDP_ATTACHED of
           None \<Rightarrow> Inr (0, md)
         | Some nla \<Rightarrow>
             rbind (libbpf_nla_getattr_u8 buf nla) (\<lambda>mode.
             let info = (md_info md)\<lparr>attach_mode := mode\<rparr> in
             if mode = XDP_ATTACHED_NONE then Inr (0, md\<lparr>md_info := info\<rparr>)
             else
               rbind (get_id buf (xdp_tb ! IFLA_XDP_PROG_ID) (prog_id info)) (\<lambda>i.
               rbind (get_id buf (xdp_tb ! IFLA_XDP_SKB_PROG_ID) (skb_prog_id info)) (\<lambda>s.
               rbind (get_id buf (xdp_tb ! IFLA_XDP_DRV_PROG_ID) (drv_prog_id info)) (\<lambda>d.
               rbind (get_id buf (xdp_tb ! IFLA_XDP_HW_PROG_ID) (hw_prog_id info)) (\<lambda>h.
                 Inr (0, md\<lparr>md_info := info\<lparr>prog_id := i, skb_prog_id := s, drv_prog_id := d, hw_prog_id := h\<rparr>\<rparr>))))))))))"

definition getlink_request :: "u32 \<Rightarrow> u8 list" where
  "getlink_request sq =
     bytes32 32 @ [lo8 RTM_GETLINK, hi8 RTM_GETLINK] @ [lo8 0x301, hi8 0x301] @ bytes32 sq @ bytes32 0 @
     [17] @ replicate 15 0"

definition libbpf_nl_get_link ::
    "(u8 list \<Rightarrow> int) \<Rightarrow> u32 \<Rightarrow> recv_result list \<Rightarrow> u8 list \<Rightarrow> u32 \<Rightarrow>
     (u8 list \<Rightarrow> nat \<Rightarrow> nat option list \<Rightarrow> 'st \<Rightarrow> (int \<times> 'st) res) \<Rightarrow> 'st \<Rightarrow> (int \<times> 'st) out" where
  "libbpf_nl_get_link send time rs junk nl_pid fn st =
     (let e = send (getlink_request time) in
      if e \<noteq> 0 then Some (Inr (- e, st))
      else bpf_netlink_recv nl_pid time (Some (dump_link_nlmsg fn)) rs junk st)"

text \<open>The bytes of the structure, and the structure of the bytes.\<close>

definition info_bytes :: "xdp_link_info \<Rightarrow> u8 list" where
  "info_bytes i = bytes32 (prog_id i) @ bytes32 (drv_prog_id i) @ bytes32 (hw_prog_id i) @
     bytes32 (skb_prog_id i) @ [attach_mode i, 0, 0, 0]"

definition info_of_bytes :: "u8 list \<Rightarrow> xdp_link_info res" where
  "info_of_bytes b =
     rbind (ld32 b 0) (\<lambda>p. rbind (ld32 b 4) (\<lambda>d. rbind (ld32 b 8) (\<lambda>h. rbind (ld32 b 12) (\<lambda>s.
     rbind (ld8 b 16) (\<lambda>a.
       Inr \<lparr>prog_id = p, drv_prog_id = d, hw_prog_id = h, skb_prog_id = s, attach_mode = a\<rparr>)))))"

definition bpf_get_link_xdp_info ::
    "netlink_env \<Rightarrow> (u8 list \<Rightarrow> int) \<Rightarrow> u32 \<Rightarrow> recv_result list \<Rightarrow> u8 list \<Rightarrow> int set \<Rightarrow> u32 \<Rightarrow> u8 list \<Rightarrow> u32 \<Rightarrow>
     (int \<times> u8 list \<times> int set) out" where
  "bpf_get_link_xdp_info E send time rs junk fds ifindex info flags =
     (if flags AND NOT XDP_FLAGS_MASK \<noteq> 0 \<or> length info = 0 then Some (Inr (- EINVAL, info, fds))
      else
        let flags = flags AND (XDP_FLAGS_SKB_MODE OR XDP_FLAGS_DRV_MODE OR XDP_FLAGS_HW_MODE); mask = flags - 1 in
        if flags \<noteq> 0 \<and> flags AND mask \<noteq> 0 then Some (Inr (- EINVAL, info, fds))
        else (case libbpf_netlink_open E fds of (sock, nl_pid, fds) \<Rightarrow>
          if sock < 0 then Some (Inr (sock, info, fds))
          else
            obind (libbpf_nl_get_link send time rs junk nl_pid get_xdp_info
                     \<lparr>md_ifindex = ifindex, md_flags = flags, md_info = info_zero\<rparr>) (\<lambda>(ret, md).
              let b = info_bytes (md_info md); sz = min (length info) (length b)
              in Some (Inr (ret, if ret = 0 then take sz b @ replicate (length info - sz) 0 else info, fds - {sock})))))"

definition get_xdp_id :: "xdp_link_info \<Rightarrow> u32 \<Rightarrow> u32" where
  "get_xdp_id info flags =
     (let flags = flags AND XDP_FLAGS_MODES in
      if attach_mode info \<noteq> XDP_ATTACHED_MULTI \<and> flags = 0 then prog_id info
      else if flags AND XDP_FLAGS_DRV_MODE \<noteq> 0 then drv_prog_id info
      else if flags AND XDP_FLAGS_HW_MODE \<noteq> 0 then hw_prog_id info
      else if flags AND XDP_FLAGS_SKB_MODE \<noteq> 0 then skb_prog_id info
      else 0)"

text \<open>The result: the return value, the identifier when it is written, and the open descriptors.\<close>

definition bpf_get_link_xdp_id ::
    "netlink_env \<Rightarrow> (u8 list \<Rightarrow> int) \<Rightarrow> u32 \<Rightarrow> recv_result list \<Rightarrow> u8 list \<Rightarrow> int set \<Rightarrow> u32 \<Rightarrow> u32 \<Rightarrow>
     (int \<times> u32 option \<times> int set) out" where
  "bpf_get_link_xdp_id E send time rs junk fds ifindex flags =
     obind (bpf_get_link_xdp_info E send time rs junk fds ifindex (replicate 20 0) flags) (\<lambda>(ret, info, fds).
       if ret \<noteq> 0 then Some (Inr (ret, None, fds))
       else obind (Some (info_of_bytes info)) (\<lambda>i. Some (Inr (0, Some (get_xdp_id i flags), fds))))"


section \<open>Stores into a structured buffer\<close>

lemma st16_at: "i = length pre \<Longrightarrow> st16 (pre @ x # y # post) i w = Inr (pre @ lo8 w # hi8 w # post)"
  by (simp add: st16_eq_Inr list_update_append)

lemma ld16_at: "i = length pre \<Longrightarrow> ld16 (pre @ lo8 w # hi8 w # post) i = Inr w"
  by (simp add: ld16_eq_Inr nth_append)

lemma st32_at: "i = length pre \<Longrightarrow> length xs = 4 \<Longrightarrow> st32 (pre @ xs @ post) i v = Inr (pre @ bytes32 v @ post)"
  by (simp add: st32_eq_Inr)

lemma ld32_at: "i = length pre \<Longrightarrow> ld32 (pre @ bytes32 v @ post) i = Inr v"
  by (simp add: ld32_def ldn_def bytes32_def le32_bytes32)

text \<open>The nested attribute grows by one attribute.\<close>

lemma encode_attr_u32: "encode_attr (ty, bytes32 v) = [lo8 8, hi8 8, lo8 ty, hi8 ty] @ bytes32 v"
  by (simp add: encode_attr_def NLA_ALIGN_def Let_def)

lemma add_xdp_attr_append:
  assumes "length pre = 32" "unat l = 4 + length body" "8 \<le> n" "unat l + 8 < 65536"
  shows "add_xdp_attr (pre @ lo8 l # hi8 l # a # b # body @ replicate n 0) ty v =
    Inr (pre @ lo8 (l + 8) # hi8 (l + 8) # a # b # body @ encode_attr (ty, bytes32 v) @ replicate (n - 8) 0)"
proof -
  obtain k where k: "n = 8 + k" using assms(3) le_Suc_ex by blast
  let ?m = "pre @ lo8 l # hi8 l # a # b # body @ replicate n 0"
  define q where "q = pre @ lo8 l # hi8 l # a # b # body"
  let ?tail = "replicate k (0::u8)"
  have "replicate n (0::u8) = [0, 0, 0, 0, 0, 0, 0, 0] @ ?tail"
    unfolding k replicate_add by (simp add: numeral_nat)
  then have m: "?m = q @ 0 # 0 # 0 # 0 # 0 # 0 # 0 # 0 # ?tail" by (simp add: q_def)
  have p: "32 + unat l = length q" using assms(1,2) by (simp add: q_def)
  have l: "nla_len ?m 32 = Inr l" unfolding nla_len_def by (rule ld16_at) (simp add: assms(1))
  have s1: "st16 ?m (length q + 2) ty = Inr (q @ 0 # 0 # lo8 ty # hi8 ty # 0 # 0 # 0 # 0 # ?tail)"
    unfolding m using st16_at [of "length q + 2" "q @ [0, 0]" 0 0 "0 # 0 # 0 # 0 # ?tail" ty] by simp
  have s2: "st16 (q @ 0 # 0 # lo8 ty # hi8 ty # 0 # 0 # 0 # 0 # ?tail) (length q) (word_of_nat (NLA_HDRLEN + 4)) =
      Inr (q @ lo8 8 # hi8 8 # lo8 ty # hi8 ty # 0 # 0 # 0 # 0 # ?tail)"
    using st16_at [of "length q" q 0 0 "lo8 ty # hi8 ty # 0 # 0 # 0 # 0 # ?tail" 8]
    by (simp add: NLA_HDRLEN_def NLA_ALIGN_def)
  let ?m3 = "q @ lo8 8 # hi8 8 # lo8 ty # hi8 ty # bytes32 v @ ?tail"
  have s3: "st32 (q @ lo8 8 # hi8 8 # lo8 ty # hi8 ty # 0 # 0 # 0 # 0 # ?tail) (length q + NLA_HDRLEN) v = Inr ?m3"
    using st32_at [of "length q + NLA_HDRLEN" "q @ [lo8 8, hi8 8, lo8 ty, hi8 ty]" "[0, 0, 0, 0]" ?tail v]
    by (simp add: NLA_HDRLEN_def NLA_ALIGN_def)
  have s4: "nla_len ?m3 (length q) = Inr 8"
    unfolding nla_len_def by (rule ld16_at) simp
  have s5: "nla_len ?m3 32 = Inr l"
    unfolding nla_len_def q_def using ld16_at [of 32 pre l] assms(1) by simp
  have s6: "st16 ?m3 32 (l + 8) =
      Inr (pre @ lo8 (l + 8) # hi8 (l + 8) # a # b # body @ lo8 8 # hi8 8 # lo8 ty # hi8 ty # bytes32 v @ ?tail)"
    unfolding q_def
    using st16_at [of 32 pre "lo8 l" "hi8 l" "a # b # body @ lo8 8 # hi8 8 # lo8 ty # hi8 ty # bytes32 v @ ?tail" "l + 8"]
      assms(1) by simp
  show ?thesis
    unfolding add_xdp_attr_def l rbind_Inr Let_def p s1 s2 s3 s4 s5 s6 encode_attr_u32 using k by simp
qed

text \<open>The nested attributes of a request.\<close>

definition xdp_attrs :: "u32 \<Rightarrow> u32 \<Rightarrow> u32 \<Rightarrow> attr list" where
  "xdp_attrs fd old_fd flags =
     (IFLA_XDP_FD, bytes32 fd) # (if flags \<noteq> 0 then [(IFLA_XDP_FLAGS, bytes32 flags)] else []) @
     (if flags AND XDP_FLAGS_REPLACE \<noteq> 0 then [(IFLA_XDP_EXPECTED_FD, bytes32 old_fd)] else [])"

definition setlink_bytes :: "u32 \<Rightarrow> u32 \<Rightarrow> u8 list" where
  "setlink_bytes n ifindex =
     bytes32 n @ [lo8 RTM_SETLINK, hi8 RTM_SETLINK, lo8 5, hi8 5] @ bytes32 1 @ bytes32 0 @
     [0, 0, 0, 0] @ bytes32 ifindex @ replicate 8 0"

lemma length_setlink_bytes: "length (setlink_bytes n ifindex) = 32"
  by (simp add: setlink_bytes_def)

lemma setlink_header_bytes: "setlink_header ifindex = Inr (setlink_bytes 32 ifindex @ replicate 64 0)"
  unfolding setlink_header_def setlink_bytes_def
  by (simp add: st32_def stn_def st16_def bytes32_def in_buf_def numeral_nat eval_nat_numeral)


abbreviation (input) xdp_type :: u16 where "xdp_type \<equiv> NLA_F_NESTED OR word_of_nat IFLA_XDP"

text \<open>The end of building the request.\<close>

lemma setlink_finish:
  assumes "unat l = 4 + length body" "length body \<le> 60" "4 dvd length body"
  shows "(let m = setlink_bytes 32 ifindex @ lo8 l # hi8 l # lo8 t # hi8 t # body @ replicate n 0 in
     rbind (nla_len m 32) (\<lambda>l.
     rbind (ld32 m 0) (\<lambda>total.
     rbind (st32 m 0 (total + word_of_nat (NLA_ALIGN (unat l)))) (\<lambda>m.
     rbind (ld32 m 0) (\<lambda>total. ldn m 0 (unat total)))))) =
   Inr (setlink_bytes (word_of_nat (36 + length body)) ifindex @ encode_attr (t, body))"
proof -
  let ?r = "lo8 l # hi8 l # lo8 t # hi8 t # body @ replicate n 0"
  let ?total = "word_of_nat (36 + length body) :: u32"
  obtain r where r: "setlink_bytes k ifindex = bytes32 k @ r" "length r = 28" for k
    by (simp add: setlink_bytes_def)
  have align: "NLA_ALIGN (4 + length body) = 4 + length body"
    using assms(3) by (auto simp: NLA_ALIGN_def elim!: dvdE)
  have s1: "nla_len (setlink_bytes 32 ifindex @ ?r) 32 = Inr l"
    unfolding nla_len_def by (rule ld16_at) (simp add: length_setlink_bytes)
  have s2: "ld32 (setlink_bytes 32 ifindex @ ?r) 0 = Inr 32"
    using ld32_at [of 0 "[]" 32 "r @ ?r"] r by simp
  have tot: "32 + word_of_nat (NLA_ALIGN (unat l)) = ?total"
    unfolding assms(1) align by simp
  have s3: "st32 (setlink_bytes 32 ifindex @ ?r) 0 ?total = Inr (setlink_bytes ?total ifindex @ ?r)"
    using st32_at [of 0 "[]" "bytes32 32" "r @ ?r" ?total] r by simp
  have s4: "ld32 (setlink_bytes ?total ifindex @ ?r) 0 = Inr ?total"
    using ld32_at [of 0 "[]" ?total "r @ ?r"] r by simp
  have u: "unat ?total = 36 + length body"
    using assms(2) by (simp add: unsigned_of_nat take_bit_nat_eq_self del: of_nat_add)
  have l: "l = word_of_nat (length body + 4)" using arg_cong [OF assms(1), of "word_of_nat :: nat \<Rightarrow> u16"] by (simp add: add.commute)
  have e: "encode_attr (t, body) = lo8 l # hi8 l # lo8 t # hi8 t # body"
    using align unfolding l by (simp add: encode_attr_def Let_def add.commute del: of_nat_add)
  have "ldn (setlink_bytes ?total ifindex @ ?r) 0 (36 + length body) =
      Inr (setlink_bytes ?total ifindex @ encode_attr (t, body))"
    unfolding e by (simp add: ldn_def length_setlink_bytes eval_nat_numeral)
  then show ?thesis unfolding Let_def s1 s2 rbind_Inr tot s3 s4 u .
qed

lemma length_xdp_attrs: "length (encode_attrs (xdp_attrs fd old_fd flags)) \<le> 24 \<and>
    4 dvd length (encode_attrs (xdp_attrs fd old_fd flags))"
  by (simp add: xdp_attrs_def encode_attr_u32)

lemma setlink_request_bytes:
  "setlink_request ifindex fd old_fd flags =
     Inr (setlink_bytes (word_of_nat (36 + length (encode_attrs (xdp_attrs fd old_fd flags)))) ifindex @
          encode_attr (xdp_type, encode_attrs (xdp_attrs fd old_fd flags)))"
proof -
  let ?pre = "setlink_bytes 32 ifindex"
  let ?t = xdp_type
  let ?m = "\<lambda>l body n. ?pre @ lo8 l # hi8 l # lo8 ?t # hi8 ?t # body @ replicate n 0"
  have z: "replicate 64 (0::u8) = 0 # 0 # 0 # 0 # replicate 60 0" by (simp add: numeral_nat)
  have s1: "st16 (?pre @ replicate 64 0) 34 ?t = Inr (?pre @ 0 # 0 # lo8 ?t # hi8 ?t # replicate 60 0)"
    unfolding z using st16_at [of 34 "?pre @ [0, 0]" 0 0 "replicate 60 0" ?t] by (simp add: length_setlink_bytes)
  have s2: "st16 (?pre @ 0 # 0 # lo8 ?t # hi8 ?t # replicate 60 0) 32 (word_of_nat NLA_HDRLEN) = Inr (?m 4 [] 60)"
    using st16_at [of 32 ?pre 0 0 "lo8 ?t # hi8 ?t # replicate 60 0" 4]
    by (simp add: length_setlink_bytes NLA_HDRLEN_def NLA_ALIGN_def)
  have add: "add_xdp_attr (?m l body n) ty v = Inr (?m (l + 8) (body @ encode_attr (ty, bytes32 v)) (n - 8))"
    if "unat l = 4 + length body" "8 \<le> n" "unat l + 8 < 65536" for l body n ty v
    using add_xdp_attr_append [of ?pre l body n, OF length_setlink_bytes that] by simp
  let ?a = "encode_attr (IFLA_XDP_FD, bytes32 fd)"
  let ?b = "encode_attr (IFLA_XDP_FLAGS, bytes32 flags)"
  let ?c = "encode_attr (IFLA_XDP_EXPECTED_FD, bytes32 old_fd)"
  have len [simp]: "length ?a = 8" "length ?b = 8" "length ?c = 8" by (simp_all add: encode_attr_u32)
  have a1: "add_xdp_attr (?m 4 [] 60) IFLA_XDP_FD fd = Inr (?m 12 ?a 52)"
    using add [of 4 "[]" 60 IFLA_XDP_FD fd] by simp
  have a2: "add_xdp_attr (?m 12 ?a 52) IFLA_XDP_FLAGS flags = Inr (?m 20 (?a @ ?b) 44)"
    using add [of 12 ?a 52 IFLA_XDP_FLAGS flags] by simp
  have a3: "add_xdp_attr (?m 20 (?a @ ?b) 44) IFLA_XDP_EXPECTED_FD old_fd = Inr (?m 28 (?a @ ?b @ ?c) 36)"
    using add [of 20 "?a @ ?b" 44 IFLA_XDP_EXPECTED_FD old_fd] by simp
  have start: "setlink_request ifindex fd old_fd flags =
     rbind (if flags \<noteq> 0 then add_xdp_attr (?m 12 ?a 52) IFLA_XDP_FLAGS flags else Inr (?m 12 ?a 52)) (\<lambda>m.
     rbind (if flags AND XDP_FLAGS_REPLACE \<noteq> 0 then add_xdp_attr m IFLA_XDP_EXPECTED_FD old_fd else Inr m) (\<lambda>m.
     rbind (nla_len m 32) (\<lambda>l.
     rbind (ld32 m 0) (\<lambda>total.
     rbind (st32 m 0 (total + word_of_nat (NLA_ALIGN (unat l)))) (\<lambda>m.
     rbind (ld32 m 0) (\<lambda>total. ldn m 0 (unat total)))))))"
    unfolding setlink_request_def setlink_header_bytes rbind_Inr s1 s2 a1 by (rule refl)
  consider "flags = 0" | "flags \<noteq> 0" "flags AND XDP_FLAGS_REPLACE = 0" | "flags AND XDP_FLAGS_REPLACE \<noteq> 0" by blast
  then show ?thesis
  proof cases
    case 1
    have x: "xdp_attrs fd old_fd flags = [(IFLA_XDP_FD, bytes32 fd)]" using 1 by (simp add: xdp_attrs_def)
    show ?thesis
      using setlink_finish [of 12 ?a ifindex ?t 52] 1 unfolding start x Let_def by simp
  next
    case 2
    have x: "xdp_attrs fd old_fd flags = [(IFLA_XDP_FD, bytes32 fd), (IFLA_XDP_FLAGS, bytes32 flags)]"
      using 2 by (simp add: xdp_attrs_def)
    show ?thesis
      using setlink_finish [of 20 "?a @ ?b" ifindex ?t 44] 2 unfolding start x a2 Let_def by simp
  next
    case 3
    then have "flags \<noteq> 0" by auto
    then have x: "xdp_attrs fd old_fd flags =
        [(IFLA_XDP_FD, bytes32 fd), (IFLA_XDP_FLAGS, bytes32 flags), (IFLA_XDP_EXPECTED_FD, bytes32 old_fd)]"
      using 3 by (simp add: xdp_attrs_def)
    show ?thesis
      using setlink_finish [of 28 "?a @ ?b @ ?c" ifindex ?t 36] 3 \<open>flags \<noteq> 0\<close> a3
      unfolding start x a2 Let_def by simp
  qed
qed


section \<open>Termination of the receive loop\<close>

lemma and_not_mask_word: "(x :: u32) AND NOT (mask n) = push_bit n (drop_bit n x)"
  by (rule bit_word_eqI) (auto simp: bit_simps)

lemma unat_NLMSG_ALIGN:
  assumes "unat l < 2 ^ 31"
  shows "unat (NLMSG_ALIGN l) = NLA_ALIGN (unat l)"
proof -
  have s: "unat (l + 3) = unat l + 3" using assms unat_word_ariths(1) [of l 3] by simp
  have "mask 2 = (3 :: u32)" by (simp add: mask_eq_exp_minus_1)
  then have "NLMSG_ALIGN l = push_bit 2 (drop_bit 2 (l + 3))"
    using and_not_mask_word [of "l + 3" 2] unfolding NLMSG_ALIGN_def by (simp only:)
  then have "NLMSG_ALIGN l = 4 * drop_bit 2 (l + 3)" by (simp add: push_bit_eq_mult)
  moreover have d: "unat (drop_bit 2 (l + 3)) = (unat l + 3) div 4"
    unfolding unat_drop_bit_eq s by (simp add: drop_bit_eq_div)
  moreover have "unat (4 * drop_bit 2 (l + 3)) = 4 * unat (drop_bit 2 (l + 3))"
    using unat_word_ariths(2) [of 4 "drop_bit 2 (l + 3)"] d assms by simp
  ultimately show ?thesis by (simp add: NLA_ALIGN_def)
qed

text \<open>One step to the next message.\<close>

lemma NLMSG_OK_D:
  assumes "NLMSG_OK buf nh len = Inr True" "len \<le> 4096"
  obtains l where "ld32 buf nh = Inr l" "16 \<le> unat l" "unat l \<le> nat len"
    "NLMSG_NEXT buf nh len = Inr (nh + NLA_ALIGN (unat l), len - int (NLA_ALIGN (unat l)))"
proof -
  have len: "16 \<le> len" using assms(1) by (auto simp: NLMSG_OK_def split: if_splits)
  then obtain l where l: "ld32 buf nh = Inr l" "16 \<le> l" "l \<le> word_of_int len"
    using assms(1) by (auto simp: NLMSG_OK_def res_simps)
  have u16: "unat (16 :: u32) = 16" by code_simp
  have ulen: "unat (word_of_int len :: u32) = nat len"
    using len assms(2) by (simp add: unsigned_of_int take_bit_int_eq_self)
  have b: "16 \<le> unat l" "unat l \<le> nat len" using l(2,3) u16 ulen by (simp_all add: word_le_nat_alt)
  have a: "unat (NLMSG_ALIGN l) = NLA_ALIGN (unat l)" by (rule unat_NLMSG_ALIGN) (use b assms(2) in simp)
  have "NLA_ALIGN (unat l) \<le> 4100" using b assms(2) unfolding NLA_ALIGN_def by linarith
  moreover from this have "NLMSG_ALIGN l = word_of_int (int (NLA_ALIGN (unat l)))"
  proof -
    have "word_of_int (int (unat w)) = w" for w :: u32 by simp
    from this [of "NLMSG_ALIGN l"] show ?thesis unfolding a by (rule sym)
  qed
  ultimately have e: "word_of_int len - NLMSG_ALIGN l = word_of_int (len - int (NLA_ALIGN (unat l)))"
    by (simp only: of_int_diff)
  have "sint (word_of_int x :: u32) = x" if "- 5000 \<le> x" "x \<le> 5000" for x
    using that by (simp add: int_word_sint)
  from this [of "len - int (NLA_ALIGN (unat l))"]
  have "sint (word_of_int len - NLMSG_ALIGN l) = len - int (NLA_ALIGN (unat l))"
    unfolding e using len assms(2) \<open>NLA_ALIGN (unat l) \<le> 4100\<close> by linarith
  then show ?thesis using l(1) b a that by (auto simp: NLMSG_NEXT_def)
qed


lemma nl_messages_enough:
  assumes "len \<le> 4096" "len < 16 * int fuel" "0 < fuel"
  shows "nl_messages fuel nl_pid sq f buf nh len multipart st \<noteq> None"
  using assms
proof (induction fuel arbitrary: nh len multipart st)
  case (Suc fuel)
  show ?case
  proof (cases "NLMSG_OK buf nh len = Inr True")
    case True
    obtain l where "ld32 buf nh = Inr l" and l: "16 \<le> unat l" "unat l \<le> nat len"
        "NLMSG_NEXT buf nh len = Inr (nh + NLA_ALIGN (unat l), len - int (NLA_ALIGN (unat l)))"
      by (rule NLMSG_OK_D [OF True Suc.prems(1)])
    have "16 \<le> NLA_ALIGN (unat l)" using NLA_ALIGN_ge [of "unat l"] l(1) by linarith
    moreover have "0 < fuel" using Suc.prems(2) l(1,2) by (cases fuel) auto
    ultimately have "nl_messages fuel nl_pid sq f buf nh' (len - int (NLA_ALIGN (unat l))) mp st' \<noteq> None" for nh' mp st'
      using Suc.IH [of "len - int (NLA_ALIGN (unat l))" nh' mp st'] Suc.prems by auto
    then show ?thesis
      using True l(3) by (auto simp: obind_def Let_def split: sum.splits option.splits)
  next
    case False
    then show ?thesis by (cases "NLMSG_OK buf nh len") auto
  qed
qed simp

text \<open>The datagrams after which the loop goes on waiting: data that is not empty.\<close>

lemma bpf_netlink_recv_None:
  assumes "length buf \<le> 4096"
  shows "bpf_netlink_recv nl_pid sq f rs buf st = None \<Longrightarrow> \<forall>r \<in> set rs. \<exists>d. r = Recv_Data d \<and> d \<noteq> []"
  using assms
proof (induction rs arbitrary: buf st)
  case (Cons r rs)
  from Cons.prems(1) obtain d where r: "r = Recv_Data d" by (cases r) auto
  let ?d = "take (length buf) d"
  let ?buf = "?d @ drop (length ?d) buf"
  have d: "?d \<noteq> []" using Cons.prems(1) unfolding r by auto
  have "nl_messages 257 nl_pid sq f ?buf 0 (int (length ?d)) False st \<noteq> None"
    by (rule nl_messages_enough) (use Cons.prems(2) in auto)
  then obtain mp st' where "nl_messages 257 nl_pid sq f ?buf 0 (int (length ?d)) False st = Some (Inr (Next mp st'))"
      "bpf_netlink_recv nl_pid sq f rs ?buf st' = None"
    using Cons.prems(1) d unfolding r
    by (auto simp: Let_def obind_def split: sum.splits nl_step.splits if_splits)
  then show ?case using Cons.IH [of ?buf st'] Cons.prems(2) d r by auto
qed simp


section \<open>The messages of a dump\<close>

text \<open>A link as the kernel reports it: the flags of the message, the fields of \<open>ifinfomsg\<close>, and the
  attributes, with the nested XDP attributes somewhere among them when there are any; the type of
  the attribute that holds them may carry the flag for nested attributes.\<close>

record link_report =
  lr_nlm_flags :: u16
  lr_family :: u8
  lr_type :: u16
  lr_index :: u32
  lr_flags :: u32
  lr_change :: u32
  lr_before :: "attr list"
  lr_nested :: bool
  lr_xdp :: "attr list option"
  lr_after :: "attr list"

definition link_attrs :: "link_report \<Rightarrow> attr list" where
  "link_attrs r = lr_before r @
     (case lr_xdp r of None \<Rightarrow> []
      | Some xs \<Rightarrow> [(if lr_nested r then NLA_F_NESTED OR word_of_nat IFLA_XDP else word_of_nat IFLA_XDP,
                     encode_attrs xs)]) @ lr_after r"

definition link_head :: "link_report \<Rightarrow> u8 list" where
  "link_head r = [lr_family r, 0, lo8 (lr_type r), hi8 (lr_type r)]"

definition encode_link :: "u32 \<Rightarrow> u32 \<Rightarrow> link_report \<Rightarrow> u8 list" where
  "encode_link pid sq r =
     bytes32 (word_of_nat (32 + length (encode_attrs (link_attrs r)))) @
     [lo8 16, hi8 16, lo8 (lr_nlm_flags r), hi8 (lr_nlm_flags r)] @ bytes32 sq @ bytes32 pid @
     link_head r @ bytes32 (lr_index r) @ bytes32 (lr_flags r) @ bytes32 (lr_change r) @
     encode_attrs (link_attrs r)"

definition encode_links :: "u32 \<Rightarrow> u32 \<Rightarrow> link_report list \<Rightarrow> u8 list" where
  "encode_links pid sq rs = concat (map (encode_link pid sq) rs)"

lemma encode_links_simps [simp]:
  "encode_links pid sq [] = []" "encode_links pid sq (r # rs) = encode_link pid sq r @ encode_links pid sq rs"
  by (simp_all add: encode_links_def)

lemma length_link_head [simp]: "length (link_head r) = 4"
  by (simp add: link_head_def)

definition encode_done :: "u32 \<Rightarrow> u32 \<Rightarrow> u8 list" where
  "encode_done pid sq = bytes32 20 @ [lo8 3, hi8 3, lo8 2, hi8 2] @ bytes32 sq @ bytes32 pid @ [0, 0, 0, 0]"

text \<open>Well-formed reports: the message is part of a dump, the attributes fit, the other attributes are
  not XDP attributes, and the XDP attributes have the sizes of their fields.\<close>

definition xdp_wf :: "attr list \<Rightarrow> bool" where
  "xdp_wf xs \<longleftrightarrow> (\<forall>a \<in> set xs. attr_wf a) \<and>
     (\<forall>d. attr_meaning xs IFLA_XDP_ATTACHED = Some d \<longrightarrow> length d = 1) \<and>
     (\<forall>ty \<in> {4, 5, 6, 7}. \<forall>d. attr_meaning xs ty = Some d \<longrightarrow> (\<exists>v. d = bytes32 v))"

definition report_wf :: "link_report \<Rightarrow> bool" where
  "report_wf r \<longleftrightarrow> lr_nlm_flags r AND NLM_F_MULTI \<noteq> 0 \<and> (\<forall>a \<in> set (link_attrs r). attr_wf a) \<and>
     attr_meaning (lr_before r) IFLA_XDP = None \<and> attr_meaning (lr_after r) IFLA_XDP = None \<and>
     (\<forall>xs. lr_xdp r = Some xs \<longrightarrow> xdp_wf xs)"

text \<open>What a report says about the programs.\<close>

definition the_id :: "attr list \<Rightarrow> nat \<Rightarrow> u32 \<Rightarrow> u32" where
  "the_id xs ty old = (case attr_meaning xs ty of None \<Rightarrow> old | Some d \<Rightarrow> le32 (d ! 0) (d ! 1) (d ! 2) (d ! 3))"

definition xdp_view :: "attr list \<Rightarrow> xdp_link_info \<Rightarrow> xdp_link_info" where
  "xdp_view xs info =
     (case attr_meaning xs IFLA_XDP_ATTACHED of
        None \<Rightarrow> info
      | Some d \<Rightarrow>
          if d ! 0 = XDP_ATTACHED_NONE then info\<lparr>attach_mode := 0\<rparr>
          else info\<lparr>attach_mode := d ! 0, prog_id := the_id xs IFLA_XDP_PROG_ID (prog_id info),
                 skb_prog_id := the_id xs IFLA_XDP_SKB_PROG_ID (skb_prog_id info),
                 drv_prog_id := the_id xs IFLA_XDP_DRV_PROG_ID (drv_prog_id info),
                 hw_prog_id := the_id xs IFLA_XDP_HW_PROG_ID (hw_prog_id info)\<rparr>)"

definition report_view :: "u32 \<Rightarrow> link_report \<Rightarrow> xdp_link_info \<Rightarrow> xdp_link_info" where
  "report_view ifindex r info =
     (if ifindex \<noteq> 0 \<and> ifindex \<noteq> lr_index r then info
      else (case lr_xdp r of None \<Rightarrow> info | Some xs \<Rightarrow> xdp_view xs info))"

lemma attr_meaning_app: "attr_meaning (xs @ ys) ty = (case attr_meaning ys ty of Some d \<Rightarrow> Some d | None \<Rightarrow> attr_meaning xs ty)"
  unfolding attr_meaning_def by (simp add: map_add_def)

lemma xdp_attr_type: "unat ((NLA_F_NESTED OR word_of_nat IFLA_XDP) AND NLA_TYPE_MASK :: u16) = IFLA_XDP"
  "unat (word_of_nat IFLA_XDP AND NLA_TYPE_MASK :: u16) = IFLA_XDP"
  unfolding NLA_TYPE_MASK_def by code_simp+

lemma link_attrs_xdp:
  "report_wf r \<Longrightarrow> attr_meaning (link_attrs r) IFLA_XDP = map_option encode_attrs (lr_xdp r)"
  using xdp_attr_type
  by (auto simp: report_wf_def link_attrs_def attr_meaning_app attr_meaning_def [of "[_]"] attr_meaning_def [of "[]"]
      split: option.splits)

lemma get_id_view:
  assumes "\<forall>ty \<le> IFLA_XDP_MAX. map_option (payload m) (tb ! ty) = attr_meaning xs ty"
    and "\<forall>a. Some a \<in> set tb \<longrightarrow> attr_in m a" "length tb = IFLA_XDP_MAX + 1" "xdp_wf xs" "ty \<in> {4, 5, 6, 7}"
  shows "get_id m (tb ! ty) old = Inr (the_id xs ty old)"
proof (cases "tb ! ty")
  case None
  have "ty \<le> IFLA_XDP_MAX" using assms(5) by auto
  then have "attr_meaning xs ty = None" using assms(1) [rule_format, of ty] None by simp
  then show ?thesis using None by (simp add: get_id_def the_id_def)
next
  case (Some a)
  have "ty < length tb" using assms(3,5) by auto
  then have a: "attr_in m a" using assms(2) Some nth_mem by metis
  have "ty \<le> IFLA_XDP_MAX" using assms(5) by auto
  then have p: "attr_meaning xs ty = Some (payload m a)" using assms(1) [rule_format, of ty] Some by simp
  then obtain v where v: "payload m a = bytes32 v" using assms(4,5) unfolding xdp_wf_def by blast
  have "the_id xs ty old = v"
    unfolding the_id_def p v by (simp add: bytes32_def le32_bytes32)
  then show ?thesis using getattr_u32_payload [OF a v] Some by (simp add: get_id_def)
qed

lemma get_xdp_info_view:
  assumes "report_wf r" "ld32 m (ifi + 4) = Inr (lr_index r)"
    and "\<forall>ty \<le> IFLA_MAX. map_option (payload m) (tb ! ty) = attr_meaning (link_attrs r) ty"
    and "\<forall>a. Some a \<in> set tb \<longrightarrow> attr_in m a" "length tb = IFLA_MAX + 1"
  shows "get_xdp_info m ifi tb md = Inr (0, md\<lparr>md_info := report_view (md_ifindex md) r (md_info md)\<rparr>)"
proof (cases "(md_ifindex md \<noteq> 0 \<and> md_ifindex md \<noteq> lr_index r) \<or> lr_xdp r = None")
  case True
  have "tb ! IFLA_XDP = None" if "lr_xdp r = None"
  proof -
    have "map_option (payload m) (tb ! IFLA_XDP) = None"
      using assms(3) link_attrs_xdp [OF assms(1)] that by simp
    then show ?thesis by simp
  qed
  then show ?thesis using True assms(2) by (auto simp: get_xdp_info_def report_view_def)
next
  case False
  then obtain xs where xs: "lr_xdp r = Some xs" by blast
  then have wf: "xdp_wf xs" using assms(1) by (simp add: report_wf_def)
  have "map_option (payload m) (tb ! IFLA_XDP) = Some (encode_attrs xs)"
    using assms(3) link_attrs_xdp [OF assms(1)] xs by simp
  then obtain nla where nla: "tb ! IFLA_XDP = Some nla" "payload m nla = encode_attrs xs" by blast
  have "IFLA_XDP < length tb" using assms(5) by simp
  then have "attr_in m nla" using assms(4) nla(1) nth_mem by metis
  then obtain xtb where xtb: "libbpf_nla_parse_nested m IFLA_XDP_MAX nla None = Inr (0, xtb)"
      "\<forall>ty \<le> IFLA_XDP_MAX. map_option (payload m) (xtb ! ty) = attr_meaning xs ty"
      "\<forall>a. Some a \<in> set xtb \<longrightarrow> attr_in m a" "length xtb = IFLA_XDP_MAX + 1"
    using nla_parse_nested_encoded [OF _ nla(2), of IFLA_XDP_MAX] wf unfolding xdp_wf_def by blast
  note id = get_id_view [OF xtb(2,3,4) wf]
  show ?thesis
  proof (cases "xtb ! IFLA_XDP_ATTACHED")
    case None
    then have "attr_meaning xs IFLA_XDP_ATTACHED = None" using xtb(2) by (auto dest: spec [of _ 2])
    then show ?thesis using False assms(2) nla(1) xtb(1) None xs
      by (simp add: get_xdp_info_def report_view_def xdp_view_def)
  next
    case (Some a)
    have "IFLA_XDP_ATTACHED < length xtb" using xtb(4) by simp
    then have a: "attr_in m a" using xtb(3) Some nth_mem by metis
    have p: "attr_meaning xs IFLA_XDP_ATTACHED = Some (payload m a)" using xtb(2) [rule_format, of 2] Some by simp
    then obtain b where b: "payload m a = [b]"
      using wf unfolding xdp_wf_def by (metis One_nat_def length_0_conv length_Suc_conv)
    have here: "\<not> (md_ifindex md \<noteq> 0 \<and> md_ifindex md \<noteq> lr_index r)" using False by blast
    show ?thesis
      unfolding get_xdp_info_def report_view_def assms(2) rbind_Inr if_not_P [OF here] nla(1) option.case xtb(1) prod.case
        xs Some xdp_view_def p b getattr_u8_payload [OF a b] Let_def
      using id by simp
  qed
qed


lemma length_encode_link: "length (encode_link pid sq r) = 32 + length (encode_attrs (link_attrs r))"
  by (simp add: encode_link_def)

lemma unat_u32_small: "n < 65536 \<Longrightarrow> unat (word_of_nat n :: u32) = n"
  by (simp add: unsigned_of_nat take_bit_nat_eq_self)

lemma nlmsg_header:
  assumes "m = pre @ bytes32 n @ [lo8 ty, hi8 ty, lo8 fl, hi8 fl] @ bytes32 sq @ bytes32 pid @ post"
  shows "ld32 m (length pre) = Inr n" "nl_header m (length pre) = Inr (ty, fl, sq, pid)"
proof -
  show "ld32 m (length pre) = Inr n" unfolding assms by (rule ld32_at) simp
  have a: "ld16 m (length pre + 4) = Inr ty"
    using ld16_at [of "length pre + 4" "pre @ bytes32 n" ty "[lo8 fl, hi8 fl] @ bytes32 sq @ bytes32 pid @ post"]
    unfolding assms by simp
  have b: "ld16 m (length pre + 6) = Inr fl"
    using ld16_at [of "length pre + 6" "pre @ bytes32 n @ [lo8 ty, hi8 ty]" fl "bytes32 sq @ bytes32 pid @ post"]
    unfolding assms by simp
  have c: "ld32 m (length pre + 8) = Inr sq"
    using ld32_at [of "length pre + 8" "pre @ bytes32 n @ [lo8 ty, hi8 ty, lo8 fl, hi8 fl]" sq "bytes32 pid @ post"]
    unfolding assms by simp
  have d: "ld32 m (length pre + 12) = Inr pid"
    using ld32_at [of "length pre + 12" "pre @ bytes32 n @ [lo8 ty, hi8 ty, lo8 fl, hi8 fl] @ bytes32 sq" pid post]
    unfolding assms by simp
  show "nl_header m (length pre) = Inr (ty, fl, sq, pid)" unfolding nl_header_def a b c d by simp
qed

lemma dump_link_view:
  assumes "m = pre @ encode_link pid sq r @ post" "report_wf r" "length (encode_link pid sq r) \<le> 4096"
  shows "dump_link_nlmsg get_xdp_info m (length pre) md =
     Inr (0, md\<lparr>md_info := report_view (md_ifindex md) r (md_info md)\<rparr>)"
proof -
  let ?as = "link_attrs r"
  let ?n = "32 + length (encode_attrs ?as)"
  let ?fl = "lr_nlm_flags r"
  let ?pre = "pre @ bytes32 (word_of_nat ?n) @ [lo8 16, hi8 16, lo8 ?fl, hi8 ?fl] @ bytes32 sq @ bytes32 pid @
    link_head r @ bytes32 (lr_index r) @ bytes32 (lr_flags r) @ bytes32 (lr_change r)"
  have m: "m = ?pre @ encode_attrs ?as @ post" unfolding assms(1) encode_link_def by simp
  have n: "?n \<le> 4096" using assms(3) by (simp add: length_encode_link)
  have t: "ld32 m (length pre) = Inr (word_of_nat ?n)"
    unfolding m using ld32_at [of "length pre" pre "word_of_nat ?n"] by simp
  have "sint (word_of_int x :: u32) = x" if "0 \<le> x" "x \<le> 5000" for x
    using that by (simp add: int_word_sint)
  from this [of "int (length (encode_attrs ?as))"]
  have len: "sint (word_of_nat ?n - 32 :: u32) = int (length (encode_attrs ?as))" using n by simp
  have head: "length pre + 16 + 16 = length ?pre" by simp
  obtain tb where tb: "libbpf_nla_parse m IFLA_MAX (length ?pre) (int (length (encode_attrs ?as))) None = Inr (0, tb)"
      "length tb = IFLA_MAX + 1" "\<forall>ty \<le> IFLA_MAX. map_option (payload m) (tb ! ty) = attr_meaning ?as ty"
      "\<forall>a. Some a \<in> set tb \<longrightarrow> attr_in m a"
    using nla_parse_encoded [OF m, of IFLA_MAX] assms(2) n unfolding report_wf_def by auto
  have idx: "ld32 m (length pre + 16 + 4) = Inr (lr_index r)"
    unfolding m using ld32_at [of "20 + length pre" "pre @ bytes32 (word_of_nat ?n) @ [lo8 16, hi8 16, lo8 ?fl, hi8 ?fl] @
      bytes32 sq @ bytes32 pid @ link_head r" "lr_index r"] by simp
  show ?thesis
    using get_xdp_info_view [OF assms(2) idx tb(3,4,2), of md]
    unfolding dump_link_nlmsg_def t rbind_Inr Let_def len head tb(1) by simp
qed

lemma NLMSG_at:
  assumes "ld32 m nh = Inr (word_of_nat n)" "16 \<le> n" "4 dvd n" "int n \<le> len" "len \<le> 4096"
  shows "NLMSG_OK m nh len = Inr True" "NLMSG_NEXT m nh len = Inr (nh + n, len - int n)"
proof -
  have n: "n \<le> 4096" using assms(4,5) by linarith
  then have u: "unat (word_of_nat n :: u32) = n" by (intro unat_u32_small) simp
  have u16: "unat (16 :: u32) = 16" by code_simp
  have ulen: "unat (word_of_int len :: u32) = nat len"
    using assms(2,4,5) by (simp add: unsigned_of_int take_bit_int_eq_self)
  show ok: "NLMSG_OK m nh len = Inr True"
    using assms u u16 ulen by (simp add: NLMSG_OK_def word_le_nat_alt)
  obtain l where l: "ld32 m nh = Inr l" "16 \<le> unat l" "unat l \<le> nat len"
    "NLMSG_NEXT m nh len = Inr (nh + NLA_ALIGN (unat l), len - int (NLA_ALIGN (unat l)))"
    by (rule NLMSG_OK_D [OF ok assms(5)])
  moreover have "NLA_ALIGN n = n" using assms(3) by (auto simp: NLA_ALIGN_def elim!: dvdE)
  ultimately show "NLMSG_NEXT m nh len = Inr (nh + n, len - int n)" using assms(1) u by simp
qed

text \<open>The loop passes over the reports of links in a datagram.\<close>

lemma nl_messages_link:
  assumes m: "m = pre @ encode_link pid sq r @ post" and wf: "report_wf r"
    and len: "len = int (length (encode_link pid sq r)) + k" "0 \<le> k" "len \<le> 4096"
  shows "nl_messages (Suc fuel) pid sq (Some (dump_link_nlmsg get_xdp_info)) m (length pre) len mp md =
     nl_messages fuel pid sq (Some (dump_link_nlmsg get_xdp_info)) m (length (pre @ encode_link pid sq r)) k True
       (md\<lparr>md_info := report_view (md_ifindex md) r (md_info md)\<rparr>)"
proof -
  let ?e = "encode_link pid sq r" and ?md = "md\<lparr>md_info := report_view (md_ifindex md) r (md_info md)\<rparr>"
  have e: "length ?e \<le> 4096" using len by linarith
  have h: "ld32 m (length pre) = Inr (word_of_nat (length ?e))"
      "nl_header m (length pre) = Inr (16, lr_nlm_flags r, sq, pid)"
    using nlmsg_header [of m pre "word_of_nat (length ?e)" 16 "lr_nlm_flags r" sq pid] m
    by (simp_all add: encode_link_def length_encode_link)
  have "4 dvd length ?e" "16 \<le> length ?e" "int (length ?e) \<le> len"
    using encode_attrs_dvd len by (simp_all add: length_encode_link)
  then have ok: "NLMSG_OK m (length pre) len = Inr True"
    and nx: "NLMSG_NEXT m (length pre) len = Inr (length pre + length ?e, len - int (length ?e))"
    using NLMSG_at [OF h(1) _ _ _ len(3)] by blast+
  have d: "dump_link_nlmsg get_xdp_info m (length pre) md = Inr (0, ?md)"
    using dump_link_view [OF m wf e] .
  have mp: "lr_nlm_flags r AND NLM_F_MULTI \<noteq> 0" using wf by (simp add: report_wf_def)
  have "len - int (length ?e) = k" using len by simp
  then show ?thesis using mp by (simp add: ok h(2) nx d Let_def)
qed

lemma nl_messages_links:
  assumes "m = pre @ encode_links pid sq rs @ post" "\<forall>r \<in> set rs. report_wf r"
    and "len = int (length (encode_links pid sq rs)) + k" "0 \<le> k" "len \<le> 4096"
  shows "nl_messages (length rs + fuel) pid sq (Some (dump_link_nlmsg get_xdp_info)) m (length pre) len mp md =
     nl_messages fuel pid sq (Some (dump_link_nlmsg get_xdp_info)) m (length (pre @ encode_links pid sq rs)) k
       (mp \<or> rs \<noteq> []) (md\<lparr>md_info := fold (report_view (md_ifindex md)) rs (md_info md)\<rparr>)"
  using assms
proof (induction rs arbitrary: pre len mp md)
  case (Cons r rs)
  let ?e = "encode_link pid sq r" and ?md = "md\<lparr>md_info := report_view (md_ifindex md) r (md_info md)\<rparr>"
  let ?len = "int (length (encode_links pid sq rs)) + k"
  have m: "m = pre @ ?e @ (encode_links pid sq rs @ post)" "m = (pre @ ?e) @ encode_links pid sq rs @ post"
    using Cons.prems(1) by simp_all
  have len: "len = int (length ?e) + ?len" "0 \<le> ?len" "?len \<le> 4096" using Cons.prems(3-5) by simp_all
  have "nl_messages (Suc (length rs + fuel)) pid sq (Some (dump_link_nlmsg get_xdp_info)) m (length pre) len mp md =
      nl_messages (length rs + fuel) pid sq (Some (dump_link_nlmsg get_xdp_info)) m (length (pre @ ?e)) ?len True ?md"
    by (rule nl_messages_link [OF m(1) _ len(1,2) Cons.prems(5)]) (use Cons.prems(2) in simp)
  also have "\<dots> = nl_messages fuel pid sq (Some (dump_link_nlmsg get_xdp_info)) m
      (length ((pre @ ?e) @ encode_links pid sq rs)) k (True \<or> rs \<noteq> [])
      (?md\<lparr>md_info := fold (report_view (md_ifindex ?md)) rs (md_info ?md)\<rparr>)"
    using Cons.IH [OF m(2) _ refl Cons.prems(4) len(3), of True ?md] Cons.prems(2) by simp
  finally show ?case by simp
qed simp

lemma links_count: "length rs * 32 \<le> length (encode_links pid sq rs)"
  by (induction rs) (simp_all add: length_encode_link)

text \<open>A datagram with reports only, and the one that ends the dump.\<close>

lemma datagram_links:
  assumes "\<forall>r \<in> set rs. report_wf r" "rs \<noteq> []" "length (encode_links pid sq rs) \<le> 4096"
  shows "nl_messages 257 pid sq (Some (dump_link_nlmsg get_xdp_info)) (encode_links pid sq rs @ post) 0
      (int (length (encode_links pid sq rs))) mp md =
    Some (Inr (Next True (md\<lparr>md_info := fold (report_view (md_ifindex md)) rs (md_info md)\<rparr>)))"
proof -
  have "length rs < 257" using links_count [of rs pid sq] assms(3) by linarith
  then obtain k where k: "257 = length rs + Suc k" by (metis less_imp_Suc_add add_Suc_right)
  have "NLMSG_OK m nh 0 = Inr False" for m nh by (simp add: NLMSG_OK_def)
  then have "nl_messages (Suc k) pid sq f m nh 0 mp' st = Some (Inr (Next mp' st))"
    for f :: "xdp_id_md dump_fn option" and m nh mp' st by simp
  then show ?thesis
    using nl_messages_links [of "encode_links pid sq rs @ post" "[]" pid sq rs post
        "int (length (encode_links pid sq rs))" 0 "Suc k" mp md] assms
    unfolding k by (simp del: nl_messages.simps)
qed

lemma datagram_done:
  assumes "\<forall>r \<in> set rs. report_wf r" "length (encode_links pid sq rs @ encode_done pid sq) \<le> 4096"
  shows "nl_messages 257 pid sq (Some (dump_link_nlmsg get_xdp_info)) ((encode_links pid sq rs @ encode_done pid sq) @ post) 0
      (int (length (encode_links pid sq rs @ encode_done pid sq))) mp md =
    Some (Inr (Return 0 (md\<lparr>md_info := fold (report_view (md_ifindex md)) rs (md_info md)\<rparr>)))"
proof -
  have "length rs < 257" using links_count [of rs pid sq] assms(2) by simp
  then obtain k where k: "257 = length rs + Suc k" by (metis less_imp_Suc_add add_Suc_right)
  let ?m = "(encode_links pid sq rs @ encode_done pid sq) @ post" and ?n = "length (encode_links pid sq rs)"
  have d20: "length (encode_done pid sq) = 20" by (simp add: encode_done_def)
  have "?m = encode_links pid sq rs @ bytes32 20 @ [lo8 3, hi8 3, lo8 2, hi8 2] @ bytes32 sq @ bytes32 pid @ [0, 0, 0, 0] @ post"
    by (simp add: encode_done_def)
  note h = nlmsg_header [OF this]
  have ok: "NLMSG_OK ?m ?n 20 = Inr True"
    using NLMSG_at(1) [of ?m ?n 20 20] h(1) by simp
  have "nl_messages (Suc k) pid sq f ?m ?n 20 mp' st = Some (Inr (Return 0 st))"
    for f :: "xdp_id_md dump_fn option" and mp' st by (simp add: ok h(2) Let_def del: append_assoc)
  then show ?thesis
    using nl_messages_links [of ?m "[]" pid sq rs "encode_done pid sq @ post" "int ?n + 20" 20 "Suc k" mp md]
      assms d20 unfolding k by (simp del: nl_messages.simps)
qed

text \<open>The receive loop over a dump that comes in several datagrams.\<close>

lemma recv_dump:
  assumes "\<forall>rs \<in> set dss. rs \<noteq> [] \<and> (\<forall>r \<in> set rs. report_wf r) \<and> length (encode_links pid sq rs) \<le> 4096"
    and "\<forall>r \<in> set rs. report_wf r" "length (encode_links pid sq rs @ encode_done pid sq) \<le> 4096"
    and "length buf = 4096"
  shows "bpf_netlink_recv pid sq (Some (dump_link_nlmsg get_xdp_info))
      (map (\<lambda>rs. Recv_Data (encode_links pid sq rs)) dss @
       Recv_Data (encode_links pid sq rs @ encode_done pid sq) # later) buf md =
    Some (Inr (0, md\<lparr>md_info := fold (report_view (md_ifindex md)) (concat dss @ rs) (md_info md)\<rparr>))"
  using assms(1,4)
proof (induction dss arbitrary: buf md)
  case Nil
  let ?d = "encode_links pid sq rs @ encode_done pid sq"
  have d: "take (length buf) ?d = ?d" "length ?d \<noteq> 0"
    using Nil.prems(2) assms(3) by (simp_all add: encode_done_def)
  have "bpf_netlink_recv pid sq (Some (dump_link_nlmsg get_xdp_info)) (Recv_Data ?d # later) buf md =
      Some (Inr (0, md\<lparr>md_info := fold (report_view (md_ifindex md)) rs (md_info md)\<rparr>))"
    unfolding bpf_netlink_recv.simps(3) d(1) Let_def if_not_P [OF d(2)]
      datagram_done [OF assms(2,3), of "drop (length ?d) buf" False md] by simp
  then show ?case by simp
next
  case (Cons ds dss)
  let ?d = "encode_links pid sq ds" and ?md = "md\<lparr>md_info := fold (report_view (md_ifindex md)) ds (md_info md)\<rparr>"
  have ds: "ds \<noteq> []" "\<forall>r \<in> set ds. report_wf r" "length ?d \<le> 4096" using Cons.prems(1) by simp_all
  let ?rest = "map (\<lambda>rs. Recv_Data (encode_links pid sq rs)) dss @
    Recv_Data (encode_links pid sq rs @ encode_done pid sq) # later"
  have d: "take (length buf) ?d = ?d" "length ?d \<noteq> 0" "length (?d @ drop (length ?d) buf) = 4096"
    using links_count [of ds pid sq] ds Cons.prems(2) by auto
  have "bpf_netlink_recv pid sq (Some (dump_link_nlmsg get_xdp_info)) (Recv_Data ?d # ?rest) buf md =
      bpf_netlink_recv pid sq (Some (dump_link_nlmsg get_xdp_info)) ?rest (?d @ drop (length ?d) buf) ?md"
    unfolding bpf_netlink_recv.simps(3) d(1) Let_def if_not_P [OF d(2)]
      datagram_links [OF ds(2,1,3), of "drop (length ?d) buf" False md] by simp
  then show ?case using Cons.IH [of "?d @ drop (length ?d) buf" ?md] Cons.prems(1) d(3) by simp
qed

section \<open>Properties\<close>

text \<open>C26. The request that attaches a program, read back with the parser: it fits into the buffer on the
  stack, its length field is its length, and the attributes behind the two headers hold one nested
  XDP attribute with the program, the flags when there are any, and the expected old program
  exactly when the flag asks for replacing.\<close>

theorem setlink_roundtrip:
  "\<exists>m tb nla xtb. setlink_request ifindex fd old_fd flags = Inr m \<and> length m \<le> 96 \<and>
     ld32 m 0 = Inr (word_of_nat (length m)) \<and> ld32 m 20 = Inr ifindex \<and>
     libbpf_nla_parse m IFLA_MAX 32 (int (length m) - 32) None = Inr (0, tb) \<and> tb ! IFLA_XDP = Some nla \<and>
     libbpf_nla_parse_nested m IFLA_XDP_MAX nla None = Inr (0, xtb) \<and>
     (\<forall>ty \<le> IFLA_XDP_MAX. map_option (payload m) (xtb ! ty) =
        (if ty = 1 then Some (bytes32 fd)
         else if ty = 3 \<and> flags \<noteq> 0 then Some (bytes32 flags)
         else if ty = 8 \<and> flags AND XDP_FLAGS_REPLACE \<noteq> 0 then Some (bytes32 old_fd) else None))"
proof -
  let ?xs = "xdp_attrs fd old_fd flags"
  let ?a = "(xdp_type, encode_attrs ?xs)"
  let ?n = "36 + length (encode_attrs ?xs)"
  define m where "m = setlink_bytes (word_of_nat ?n) ifindex @ encode_attr ?a"
  have x: "length (encode_attrs ?xs) \<le> 24" "4 dvd length (encode_attrs ?xs)" using length_xdp_attrs by blast+
  have align: "NLA_ALIGN (length (encode_attrs ?xs) + 4) = length (encode_attrs ?xs) + 4"
    using x(2) by (auto simp: NLA_ALIGN_def elim!: dvdE)
  then have len: "length m = ?n" by (simp add: m_def length_setlink_bytes length_encode_attr)
  have r: "setlink_request ifindex fd old_fd flags = Inr m" unfolding m_def by (rule setlink_request_bytes)
  have f1: "ld32 m 0 = Inr (word_of_nat (length m))"
    unfolding len unfolding m_def setlink_bytes_def using ld32_at [of 0 "[]" "word_of_nat ?n"] by simp
  have f2: "ld32 m 20 = Inr ifindex"
    unfolding m_def setlink_bytes_def
    using ld32_at [of 20 "bytes32 (word_of_nat ?n) @ [lo8 RTM_SETLINK, hi8 RTM_SETLINK, lo8 5, hi8 5] @ bytes32 1 @
      bytes32 0 @ [0, 0, 0, 0]" ifindex] by simp
  have m: "m = setlink_bytes (word_of_nat ?n) ifindex @ encode_attrs [?a] @ []" by (simp add: m_def)
  have wf: "\<forall>a \<in> set [?a]. attr_wf a" using x(1) by (simp add: attr_wf_def)
  have elen: "int (length (encode_attrs [?a])) = int (length m) - 32" unfolding m by (simp add: length_setlink_bytes)
  obtain tb where tb: "libbpf_nla_parse m IFLA_MAX 32 (int (length m) - 32) None = Inr (0, tb)" "length tb = IFLA_MAX + 1"
      "\<forall>ty \<le> IFLA_MAX. map_option (payload m) (tb ! ty) = attr_meaning [?a] ty" "\<forall>a. Some a \<in> set tb \<longrightarrow> attr_in m a"
    using nla_parse_encoded [OF m wf, of IFLA_MAX] x(1) align unfolding elen
    by (auto simp: length_setlink_bytes length_encode_attr)
  have "attr_meaning [?a] IFLA_XDP = Some (encode_attrs ?xs)"
    using xdp_attr_type by (simp add: attr_meaning_def)
  then obtain nla where nla: "tb ! IFLA_XDP = Some nla" "payload m nla = encode_attrs ?xs"
    using tb(3) [rule_format, of IFLA_XDP] by auto
  have "IFLA_XDP < length tb" using tb(2) by simp
  then have "attr_in m nla" using tb(4) nla(1) nth_mem by metis
  moreover have "\<forall>a \<in> set ?xs. attr_wf a" by (auto simp: xdp_attrs_def attr_wf_def)
  ultimately obtain xtb where xtb: "libbpf_nla_parse_nested m IFLA_XDP_MAX nla None = Inr (0, xtb)"
      "\<forall>ty \<le> IFLA_XDP_MAX. map_option (payload m) (xtb ! ty) = attr_meaning ?xs ty"
    using nla_parse_nested_encoded [OF _ nla(2)] by blast
  have "attr_meaning ?xs ty = (if ty = 1 then Some (bytes32 fd)
         else if ty = 3 \<and> flags \<noteq> 0 then Some (bytes32 flags)
         else if ty = 8 \<and> flags AND XDP_FLAGS_REPLACE \<noteq> 0 then Some (bytes32 old_fd) else None)" for ty
  proof -
    have mask: "unat (1 AND NLA_TYPE_MASK :: u16) = 1" "unat (3 AND NLA_TYPE_MASK :: u16) = 3"
      "unat (8 AND NLA_TYPE_MASK :: u16) = 8" unfolding NLA_TYPE_MASK_def by code_simp+
    show ?thesis unfolding xdp_attrs_def attr_meaning_def using mask by simp
  qed
  then show ?thesis using r f1 f2 tb(1) nla(1) xtb len x(1) by (intro exI conjI) auto
qed

theorem setlink_roundtrip_witness:
  "\<exists>m tb nla xtb. setlink_request 3 7 9 XDP_FLAGS_REPLACE = Inr m \<and> ld32 m 20 = Inr 3 \<and>
     libbpf_nla_parse m IFLA_MAX 32 (int (length m) - 32) None = Inr (0, tb) \<and> tb ! IFLA_XDP = Some nla \<and>
     libbpf_nla_parse_nested m IFLA_XDP_MAX nla None = Inr (0, xtb) \<and>
     map_option (payload m) (xtb ! 8) = Some (bytes32 9) \<and> map_option (payload m) (xtb ! 2) = None"
proof -
  have r: "XDP_FLAGS_REPLACE AND XDP_FLAGS_REPLACE \<noteq> 0" by (simp add: XDP_FLAGS_REPLACE_def)
  obtain m tb nla xtb where m: "setlink_request 3 7 9 XDP_FLAGS_REPLACE = Inr m" "ld32 m 20 = Inr 3"
      "libbpf_nla_parse m IFLA_MAX 32 (int (length m) - 32) None = Inr (0, tb)" "tb ! IFLA_XDP = Some nla"
      "libbpf_nla_parse_nested m IFLA_XDP_MAX nla None = Inr (0, xtb)"
    and x: "\<forall>ty \<le> IFLA_XDP_MAX. map_option (payload m) (xtb ! ty) =
        (if ty = 1 then Some (bytes32 7)
         else if ty = 3 \<and> XDP_FLAGS_REPLACE \<noteq> 0 then Some (bytes32 XDP_FLAGS_REPLACE)
         else if ty = 8 \<and> XDP_FLAGS_REPLACE AND XDP_FLAGS_REPLACE \<noteq> 0 then Some (bytes32 9) else None)"
    using setlink_roundtrip [of 3 7 9 XDP_FLAGS_REPLACE] by blast
  show ?thesis using m x [rule_format, of 8] x [rule_format, of 2] r
    by (intro exI [of _ m] exI [of _ tb] exI [of _ nla] exI [of _ xtb]) simp
qed

text \<open>The receive loop waits for more only after data: whatever the kernel sends, a socket error or an
  empty datagram among the answers ends it with a result, so every datagram is processed in a
  bounded number of steps.\<close>

theorem recv_terminates:
  assumes "length buf \<le> 4096" "r \<in> set rs" "\<forall>d. r = Recv_Data d \<longrightarrow> d = []"
  shows "\<exists>res. bpf_netlink_recv nl_pid sq f rs buf st = Some res"
proof (cases "bpf_netlink_recv nl_pid sq f rs buf st")
  case None
  then obtain d where "r = Recv_Data d" "d \<noteq> []" using bpf_netlink_recv_None [OF assms(1) None] assms(2) by blast
  then show ?thesis using assms(3) by blast
qed blast

theorem recv_terminates_witness:
  "\<exists>res. bpf_netlink_recv 7 1 (None :: unit dump_fn option) [Recv_Data [1, 2, 3], Recv_Error 4] (replicate 64 0) () = Some res"
  using recv_terminates [of "replicate 64 0" "Recv_Error 4" "[Recv_Data [1, 2, 3], Recv_Error 4]" 7 1 None "()"] by auto

text \<open>C25. Finding the attached program, end to end: the kernel answers with a dump in any number of
  datagrams of at most 4096 bytes, the size of the receive buffer; they hold reports of links, each
  with any fields and attributes, and the last one ends with the message that ends the dump. Then
  the function returns 0 and the identifier that the flags select from the reports of the
  interface, and the socket is closed.\<close>

theorem link_xdp_id_found:
  assumes "send (getlink_request sq) = 0" "libbpf_netlink_open E fds = (sock, pid, insert sock fds)" "0 \<le> sock" "sock \<notin> fds"
    and "\<forall>rs \<in> set dss. rs \<noteq> [] \<and> (\<forall>r \<in> set rs. report_wf r) \<and> length (encode_links pid sq rs) \<le> 4096"
    and "\<forall>r \<in> set rs. report_wf r" "length (encode_links pid sq rs @ encode_done pid sq) \<le> 4096"
    and "length buf = 4096" "flags \<in> {0, XDP_FLAGS_SKB_MODE, XDP_FLAGS_DRV_MODE, XDP_FLAGS_HW_MODE}"
  shows "bpf_get_link_xdp_id E send sq
       (map (\<lambda>rs. Recv_Data (encode_links pid sq rs)) dss @
        Recv_Data (encode_links pid sq rs @ encode_done pid sq) # later) buf fds ifindex flags =
     Some (Inr (0, Some (get_xdp_id (fold (report_view ifindex) (concat dss @ rs) info_zero) flags), fds))"
proof -
  let ?info = "fold (report_view ifindex) (concat dss @ rs) info_zero"
  let ?answers = "map (\<lambda>rs. Recv_Data (encode_links pid sq rs)) dss @
    Recv_Data (encode_links pid sq rs @ encode_done pid sq) # later"
  have recv: "bpf_netlink_recv pid sq (Some (dump_link_nlmsg get_xdp_info)) ?answers buf
      \<lparr>md_ifindex = ifindex, md_flags = fl, md_info = info_zero\<rparr> =
      Some (Inr (0, \<lparr>md_ifindex = ifindex, md_flags = fl, md_info = ?info\<rparr>))" for fl
    using recv_dump [OF assms(5-8)] by simp
  have fl: "flags AND NOT XDP_FLAGS_MASK = 0" "flags AND (XDP_FLAGS_SKB_MODE OR XDP_FLAGS_DRV_MODE OR XDP_FLAGS_HW_MODE) = flags"
    "\<not> (flags \<noteq> 0 \<and> flags AND (flags - 1) \<noteq> 0)"
    using assms(9) by (auto simp: XDP_FLAGS_MASK_def XDP_FLAGS_MODES_def XDP_FLAGS_REPLACE_def xdp_flag_defs)
  have "info_of_bytes (info_bytes i) = Inr i" for i
    by (cases i) (simp add: info_of_bytes_def info_bytes_def ld32_def ldn_def ld8_def bytes32_def le32_bytes32)
  then have ib: "info_of_bytes (take (min 20 20) (info_bytes ?info) @ replicate (20 - min 20 20) 0) = Inr ?info"
    by (simp add: info_bytes_def)
  have "bpf_get_link_xdp_info E send sq ?answers buf fds ifindex (replicate 20 0) flags =
      Some (Inr (0, take (min 20 20) (info_bytes ?info) @ replicate (20 - min 20 20) 0, fds))"
    using fl assms(1-4) recv
    by (simp add: bpf_get_link_xdp_info_def Let_def libbpf_nl_get_link_def info_bytes_def)
  then show ?thesis using ib by (simp add: bpf_get_link_xdp_id_def)
qed


definition sample_env :: netlink_env where
  "sample_env = \<lparr>ne_sock = 3, ne_sock_errno = 0, ne_bind = 0, ne_bind_errno = 0, ne_name = 0, ne_name_errno = 0,
     ne_addrlen = 12, ne_pid = 7\<rparr>"

text \<open>The loopback interface in the first datagram, an interface with a program in the second one,
  with an attribute behind the XDP attributes.\<close>

definition lo_report :: link_report where
  "lo_report = \<lparr>lr_nlm_flags = 2, lr_family = 0, lr_type = 772, lr_index = 1, lr_flags = 0x10049, lr_change = 0,
     lr_before = [(3, [108, 111, 0])], lr_nested = False, lr_xdp = Some [(2, [0])], lr_after = []\<rparr>"

definition sample_report :: link_report where
  "sample_report = \<lparr>lr_nlm_flags = 2, lr_family = 0, lr_type = 1, lr_index = 4, lr_flags = 0x11043, lr_change = 0,
     lr_before = [(3, [101, 0])], lr_nested = False, lr_xdp = Some [(2, [1]), (4, bytes32 77)],
     lr_after = [(6, [110, 0])]\<rparr>"

theorem link_xdp_id_found_witness:
  "bpf_get_link_xdp_id sample_env (\<lambda>req. 0) 1
     [Recv_Data (encode_links 7 1 [lo_report]), Recv_Data (encode_links 7 1 [sample_report] @ encode_done 7 1)]
     (replicate 4096 0) {} 4 0 = Some (Inr (0, Some 77, {}))"
proof -
  have mean: "attr_meaning [(2, [1]), (4, bytes32 77)] 2 = Some [1]"
    "attr_meaning [(2, [1]), (4, bytes32 77)] 4 = Some (bytes32 77)"
    "attr_meaning [(2, [1]), (4, bytes32 77)] 5 = None" "attr_meaning [(2, [1]), (4, bytes32 77)] 6 = None"
    "attr_meaning [(2, [1]), (4, bytes32 77)] 7 = None" "attr_meaning [(3, [101, 0])] 43 = None"
    "attr_meaning [(6, [110, 0])] 43 = None" "attr_meaning [] 43 = None" "attr_meaning [(3, [108, 111, 0])] 43 = None"
    "attr_meaning [(2, [0])] 2 = Some [0]" "\<forall>ty \<in> {4, 5, 6, 7}. attr_meaning [(2, [0])] ty = None"
    by code_simp+
  have len: "length (encode_links 7 1 [sample_report] @ encode_done 7 1) \<le> 4096"
    "length (encode_links 7 1 [lo_report]) \<le> 4096" by code_simp+
  have multi: "(2 :: u16) AND 2 \<noteq> 0" by simp
  have "xdp_wf [(2, [1]), (4, bytes32 77)]" "xdp_wf [(2, [0])]" using mean by (auto simp: xdp_wf_def attr_wf_def)
  moreover have "length (encode_attrs [(2, [1]), (4, bytes32 77)]) = 16" "length (encode_attrs [(2, [0])]) = 8"
    by code_simp+
  ultimately have wf: "report_wf sample_report" "report_wf lo_report"
    using mean multi by (simp_all add: report_wf_def sample_report_def lo_report_def link_attrs_def attr_wf_def)
  have "le32 77 0 0 0 = (77 :: u32)" "bytes32 77 = [77, 0, 0, 0]" by code_simp+
  then have "fold (report_view 4) [lo_report, sample_report] info_zero = info_zero\<lparr>attach_mode := 1, prog_id := 77\<rparr>"
    using mean by (simp add: report_view_def sample_report_def lo_report_def xdp_view_def the_id_def info_zero_def)
  moreover have "get_xdp_id (info_zero\<lparr>attach_mode := 1, prog_id := 77\<rparr>) 0 = 77"
    by (simp add: get_xdp_id_def info_zero_def)
  ultimately show ?thesis
    using link_xdp_id_found [of "\<lambda>req. 0" 1 sample_env "{}" 3 7 "[[lo_report]]" "[sample_report]" "replicate 4096 0" 0 "[]" 4]
      len wf
    by (simp add: libbpf_netlink_open_def sample_env_def)
qed

end
