(* ===== verification/Lbf_Tool.thy ===== *)
theory Lbf_Tool
  imports Lbf_System Libbpf_Nlattr
begin

text \<open>
  The extension of the tool \<open>tc\<close> for the queue discipline (\<open>lbf/src/iproute2/q_lbf.c\<close>): it parses the
  options of the command line into a netlink message and prints the options and the statistics that
  the kernel dumps. The functions of iproute2 (reading a number, adding attributes, parsing nested
  attributes, printing times) are parameters. How the tool and the kernel understand each
  other's messages is the locale \<open>tc_netlink\<close>. Error messages are left out.
\<close>

section \<open>The tool\<close>

record ('o, 'a) tc_lib =
  tc_get_unsigned :: "string \<Rightarrow> u32 option"
  tc_addattr_nest :: "'o \<Rightarrow> nat \<Rightarrow> nat \<Rightarrow> 'o"
  tc_addattr_l :: "'o \<Rightarrow> nat \<Rightarrow> nat \<Rightarrow> u8 list \<Rightarrow> 'o"
  tc_addattr_nest_end :: "'o \<Rightarrow> 'o"
  tc_parse_nested :: "nat \<Rightarrow> 'o \<Rightarrow> nat \<Rightarrow> 'a option"
  tc_payload :: "'a \<Rightarrow> nat"
  tc_get_u32 :: "'a \<Rightarrow> u32"

text \<open>A command line without the argument of an option ends the program.\<close>

datatype 'o opt_outcome = Incomplete | Parse_Error | Parsed 'o

fun lbf_parse_args :: "(string \<Rightarrow> u32 option) \<Rightarrow> string list \<Rightarrow> u32 \<Rightarrow> u32 opt_outcome" where
  "lbf_parse_args get_unsigned [] l = Parsed l"
| "lbf_parse_args get_unsigned (a # argv) l =
     (if a = ''limit'' then
        (case argv of
           [] \<Rightarrow> Incomplete
         | v # argv \<Rightarrow> (case get_unsigned v of None \<Rightarrow> Parse_Error
                         | Some l \<Rightarrow> lbf_parse_args get_unsigned argv l))
      else Parse_Error)"

text \<open>\<open>addattr_nest\<close> and \<open>addattr_l\<close> are given the most bytes that the message may have, and the type
  of the nest carries the flag for nested attributes. Their return values are ignored, as in the
  code.\<close>

definition NLA_F_NESTED :: nat where "NLA_F_NESTED = 0x8000"

definition lbf_parse_opt :: "('o, 'a) tc_lib \<Rightarrow> string list \<Rightarrow> 'o \<Rightarrow> 'o opt_outcome" where
  "lbf_parse_opt T argv n =
     (case lbf_parse_args (tc_get_unsigned T) argv 0 of
        Incomplete \<Rightarrow> Incomplete
      | Parse_Error \<Rightarrow> Parse_Error
      | Parsed l \<Rightarrow>
          let n = tc_addattr_nest T n 1024 (or TCA_OPTIONS NLA_F_NESTED);
              n = (if l \<noteq> 0 then tc_addattr_l T n 1024 TCA_LBF_LIMIT (bytes32 l) else n)
          in Parsed (tc_addattr_nest_end T n))"

text \<open>The limit that is printed, if any; the return value is always 0.\<close>

definition lbf_print_opt :: "('o, 'a) tc_lib \<Rightarrow> 'o option \<Rightarrow> u32 option" where
  "lbf_print_opt T opt =
     (case opt of
        None \<Rightarrow> None
      | Some opt \<Rightarrow>
          (case tc_parse_nested T TCA_LBF_MAX opt TCA_LBF_LIMIT of
             None \<Rightarrow> None
           | Some a \<Rightarrow> if tc_payload T a \<ge> 4 then Some (tc_get_u32 T a) else None))"

text \<open>The statistics that are printed, from the bytes of the attribute; a shorter structure of an older
  kernel is filled with zeros.\<close>

definition lbf_print_xstats :: "u8 list option \<Rightarrow> tc_lbf_xstats option res" where
  "lbf_print_xstats xstats =
     (case xstats of
        None \<Rightarrow> Inr None
      | Some b \<Rightarrow>
          let st = (if length b < 8 then b @ replicate (8 - length b) 0 else b) in
          rbind (ld32 st 0) (\<lambda>d. rbind (ld32 st 4) (\<lambda>ov.
            Inr (Some \<lparr>xstats_delay = d, xstats_overlimit = ov\<rparr>))))"

section \<open>The interface between the tool and the kernel\<close>

text \<open>What the kernel parses from the options that the tool built, and the tool from the options that
  the kernel wrote. \<open>room n\<close> is the condition under which \<open>addattr_nest\<close> and \<open>addattr_l\<close> find the
  place for the nest and the four bytes of the limit within the 1024 bytes; otherwise iproute2
  leaves the message as it is.\<close>

locale tc_netlink =
  fixes N :: "('o, 'b, 'o) netlink_ops" and T :: "('o, 'a) tc_lib" and room :: "'o \<Rightarrow> bool"
  assumes kernel_reads: "room n \<Longrightarrow> n_parse_nested N TCA_LBF_MAX
      (tc_addattr_nest_end T (tc_addattr_l T (tc_addattr_nest T n 1024 (or TCA_OPTIONS NLA_F_NESTED)) 1024
        TCA_LBF_LIMIT (bytes32 l))) = (err, tb) \<Longrightarrow>
      \<not> err < 0 \<and> (\<exists>a. tb TCA_LBF_LIMIT = Some a \<and> n_get_u32 N a = l)"
    and kernel_reads_empty: "room n \<Longrightarrow> n_parse_nested N TCA_LBF_MAX
      (tc_addattr_nest_end T (tc_addattr_nest T n 1024 (or TCA_OPTIONS NLA_F_NESTED))) = (err, tb) \<Longrightarrow>
      \<not> err < 0 \<and> tb TCA_LBF_LIMIT = None"
    and tool_reads: "n_nest_start N n TCA_OPTIONS = Some m1 \<Longrightarrow> n_put_u32 N m1 TCA_LBF_LIMIT l = Some m2 \<Longrightarrow>
      n_nest_end N m2 = (r, m3) \<Longrightarrow>
      \<exists>a. tc_parse_nested T TCA_LBF_MAX m3 TCA_LBF_LIMIT = Some a \<and> 4 \<le> tc_payload T a \<and> tc_get_u32 T a = l"
begin

lemma set_limit:
  assumes "lbf_parse_args (tc_get_unsigned T) argv 0 = Parsed l" "room n"
  shows "\<exists>opt. lbf_parse_opt T argv n = Parsed opt \<and>
     lbf_change N (Some opt) s = (0, if l = 0 then s else s\<lparr>sch := (sch s)\<lparr>limit := l\<rparr>\<rparr>)"
proof (cases "l = 0")
  case True
  let ?o = "tc_addattr_nest_end T (tc_addattr_nest T n 1024 (or TCA_OPTIONS NLA_F_NESTED))"
  obtain err tb where p: "n_parse_nested N TCA_LBF_MAX ?o = (err, tb)" by fastforce
  from kernel_reads_empty [OF assms(2) p] show ?thesis
    using p True assms by (simp add: lbf_parse_opt_def lbf_change_def Let_def)
next
  case False
  let ?o = "tc_addattr_nest_end T (tc_addattr_l T (tc_addattr_nest T n 1024 (or TCA_OPTIONS NLA_F_NESTED))
    1024 TCA_LBF_LIMIT (bytes32 l))"
  obtain err tb where p: "n_parse_nested N TCA_LBF_MAX ?o = (err, tb)" by fastforce
  from kernel_reads [OF assms(2) p] show ?thesis
    using p False assms by (auto simp: lbf_parse_opt_def lbf_change_def Let_def)
qed

lemma show_limit:
  assumes "lbf_dump N n s = (rc, m)" "n_nest_start N n TCA_OPTIONS = Some m1"
    and "n_put_u32 N m1 TCA_LBF_LIMIT (limit (sch s)) \<noteq> None"
  shows "lbf_print_opt T (Some m) = Some (limit (sch s))"
proof -
  obtain m2 where m2: "n_put_u32 N m1 TCA_LBF_LIMIT (limit (sch s)) = Some m2" using assms(3) by blast
  then have "n_nest_end N m2 = (rc, m)" using assms(1,2) by (simp add: lbf_dump_def)
  from tool_reads [OF assms(2) m2 this] show ?thesis by (auto simp: lbf_print_opt_def)
qed

end

text \<open>The interface on streams of attributes, with numbers read in decimal.\<close>

definition decimal :: "string \<Rightarrow> u32 option" where
  "decimal s = (if s \<noteq> [] \<and> list_all (\<lambda>c. c \<in> set ''0123456789'') s
     then Some (fold (\<lambda>c n. n * 10 + (of_char c - 48)) s 0) else None)"

definition get32 :: "u8 list \<Rightarrow> u32" where "get32 d = le32 (d ! 0) (d ! 1) (d ! 2) (d ! 3)"

definition attr_kernel :: "(attr list, u8 list, attr list) netlink_ops" where
  "attr_kernel = \<lparr>n_parse_nested = (\<lambda>m as. (0, \<lambda>ty. if ty \<le> m then attr_meaning as ty else None)), n_get_u32 = get32,
     n_nest_start = (\<lambda>m ty. Some []), n_put_u32 = (\<lambda>m ty v. Some (m @ [(word_of_nat ty, bytes32 v)])),
     n_nest_end = (\<lambda>m. (0, m)), n_nest_cancel = (\<lambda>m. [])\<rparr>"

definition attr_tool :: "(attr list, u8 list) tc_lib" where
  "attr_tool = \<lparr>tc_get_unsigned = decimal, tc_addattr_nest = (\<lambda>m mx ty. []),
     tc_addattr_l = (\<lambda>m mx ty d. m @ [(word_of_nat ty, d)]), tc_addattr_nest_end = (\<lambda>m. m),
     tc_parse_nested = (\<lambda>m as ty. if ty \<le> m then attr_meaning as ty else None), tc_payload = length, tc_get_u32 = get32\<rparr>"

lemma get32_bytes32: "get32 (bytes32 v) = v"
  by (simp add: get32_def bytes32_def le32_bytes32)

interpretation attr_tc: tc_netlink attr_kernel attr_tool "\<lambda>n. True"
proof -
  have mask: "unat (1 AND NLA_TYPE_MASK :: u16) = 1" unfolding NLA_TYPE_MASK_def by code_simp
  then have m: "attr_meaning [(1, bytes32 v)] 1 = Some (bytes32 v)" for v by (simp add: attr_meaning_def)
  show "tc_netlink attr_kernel attr_tool (\<lambda>n. True)"
    using m by unfold_locales (auto simp: attr_kernel_def attr_tool_def get32_bytes32 attr_meaning_def)
qed

section \<open>Properties\<close>

text \<open>Setting the limit from the command line to the queue and back, on the conditions of the
  interface: when the arguments are accepted with a limit \<open>l\<close> other than 0 and there is room in the
  message, the tool builds a message with which the kernel sets its limit to \<open>l\<close> and changes nothing
  else, and the dump of the kernel is printed with that limit.\<close>

theorem tool_limit_roundtrip:
  assumes "tc_netlink N T room" "room n" "lbf_parse_args (tc_get_unsigned T) argv 0 = Parsed l" "l \<noteq> 0"
    and "n_nest_start N msg TCA_OPTIONS = Some m1" "n_put_u32 N m1 TCA_LBF_LIMIT l \<noteq> None"
  shows "\<exists>opt s'. lbf_parse_opt T argv n = Parsed opt \<and> lbf_change N (Some opt) s = (0, s') \<and>
     s' = s\<lparr>sch := (sch s)\<lparr>limit := l\<rparr>\<rparr> \<and> lbf_print_opt T (Some (snd (lbf_dump N msg s'))) = Some l"
proof -
  let ?s = "s\<lparr>sch := (sch s)\<lparr>limit := l\<rparr>\<rparr>"
  obtain opt where "lbf_parse_opt T argv n = Parsed opt" "lbf_change N (Some opt) s = (0, ?s)"
    using tc_netlink.set_limit [OF assms(1,3,2), of s] assms(4) by auto
  moreover have "lbf_print_opt T (Some (snd (lbf_dump N msg ?s))) = Some l"
    using tc_netlink.show_limit [OF assms(1) _ assms(5), of ?s] assms(6) by (cases "lbf_dump N msg ?s") simp
  ultimately show ?thesis by blast
qed

text \<open>A limit of zero is accepted by the tool and then dropped: no attribute is sent, and the queue
  keeps the limit it has.\<close>

theorem zero_limit_dropped:
  assumes "tc_netlink N T room" "room n" "lbf_parse_args (tc_get_unsigned T) argv 0 = Parsed 0"
  shows "\<exists>opt. lbf_parse_opt T argv n = Parsed opt \<and> lbf_change N (Some opt) s = (0, s)"
  using tc_netlink.set_limit [OF assms(1,3,2), of s] by simp

text \<open>The statistics survive the way to the tool: what the kernel copies into the dump is printed as
  the same delay and the same number of dropped packets, and a dump that is cut is filled up with
  zeros and never read behind its end.\<close>

theorem xstats_roundtrip:
  assumes "lbf_dump_stats K (\<lambda>st d. (0, d @ bytes32 (xstats_delay st) @ bytes32 (xstats_overlimit st))) [] s = (rc, b)"
  shows "lbf_print_xstats (Some b) = Inr (Some \<lparr>xstats_delay = ucast (k_ticks2ns K (stats_delay (stats s)) div NSEC_PER_USEC),
       xstats_overlimit = stats_overlimit (stats s)\<rparr>) \<and>
     (\<exists>st. lbf_print_xstats (Some (take k b)) = Inr (Some st))"
proof -
  let ?d = "ucast (k_ticks2ns K (stats_delay (stats s)) div NSEC_PER_USEC) :: u32"
  have b: "b = bytes32 ?d @ bytes32 (stats_overlimit (stats s))"
    using assms by (auto simp: lbf_dump_stats_def)
  then have "lbf_print_xstats (Some b) = Inr (Some \<lparr>xstats_delay = ?d, xstats_overlimit = stats_overlimit (stats s)\<rparr>)"
    by (simp add: lbf_print_xstats_def ld32_def ldn_def bytes32_def le32_bytes32 Let_def)
  moreover have "\<exists>st. lbf_print_xstats (Some c) = Inr (Some st)" if "length c \<le> 8" for c
    using that by (simp add: lbf_print_xstats_def ld32_def ldn_def Let_def)
  moreover have "length (take k b) \<le> 8" by (simp add: b)
  ultimately show ?thesis by blast
qed


section \<open>Concrete runs\<close>

lemma sample_args: "lbf_parse_args (tc_get_unsigned attr_tool) [''limit'', ''250''] 0 = Parsed 250"
  "lbf_parse_args (tc_get_unsigned attr_tool) [''limit'', ''0''] 0 = Parsed 0"
  by code_simp+

theorem tool_limit_roundtrip_witness:
  "\<exists>opt s'. lbf_parse_opt attr_tool [''limit'', ''250''] [] = Parsed opt \<and>
     lbf_change attr_kernel (Some opt) sample_qdisc = (0, s') \<and> limit (sch s') = 250 \<and>
     lbf_print_opt attr_tool (Some (snd (lbf_dump attr_kernel [] s'))) = Some 250"
  using tool_limit_roundtrip [OF attr_tc.tc_netlink_axioms TrueI sample_args(1), of "[]" "[]" "[]" sample_qdisc]
  by (auto simp: attr_kernel_def)

theorem zero_limit_dropped_witness:
  "\<exists>opt. lbf_parse_opt attr_tool [''limit'', ''0''] [] = Parsed opt \<and>
     lbf_change attr_kernel (Some opt) sample_qdisc = (0, sample_qdisc)"
  by (rule zero_limit_dropped [OF attr_tc.tc_netlink_axioms TrueI sample_args(2)])

theorem xstats_roundtrip_witness:
  "lbf_print_xstats (Some (snd (lbf_dump_stats sample_kernel
     (\<lambda>st d. (0, d @ bytes32 (xstats_delay st) @ bytes32 (xstats_overlimit st))) [] sample_qdisc))) =
   Inr (Some \<lparr>xstats_delay = ucast (k_ticks2ns sample_kernel 0 div NSEC_PER_USEC), xstats_overlimit = 0\<rparr>)"
  using xstats_roundtrip [of sample_kernel sample_qdisc]
  by (auto simp: lbf_dump_stats_def sample_qdisc_eq blank_qdisc_def)

end
