(* ===== verification/Libbpf_Xsk_Ring.thy ===== *)
theory Libbpf_Xsk_Ring
  imports NewIP_Base
begin

text \<open>
  The rings of AF_XDP sockets (\<open>xdp/libbpf/src/xsk.h\<close>). A ring is an array in memory that the program
  shares with the kernel, with two counters that run modulo 2^32; the library works on private copies
  of them. A record of a ring holds the private copies and the shared words and entries behind
  its pointers. The program and the kernel take turns: \<open>tx_reach\<close> holds the states of a ring that
  the program fills, \<open>rx_reach\<close> those of a ring that it empties; the kernel, which is not part of the
  sources, may take any number of the entries that are there and add any number of entries that fit.
  Memory barriers have no effect in this model, in which every access is seen at once.
\<close>

section \<open>A ring and its entries\<close>

record xdp_desc =
  desc_addr :: u64
  desc_len :: u32
  desc_options :: u32

record 'd xsk_ring =
  cached_prod :: u32
  cached_cons :: u32
  ring_mask :: u32
  ring_size :: u32
  producer :: u32
  consumer :: u32
  entries :: "'d list"
  ring_flags :: u32

definition XDP_RING_NEED_WAKEUP :: u32 where "XDP_RING_NEED_WAKEUP = 1"

text \<open>The position of an entry in the array of the ring.\<close>

definition xsk_ring_prod__fill_addr :: "'d xsk_ring \<Rightarrow> u32 \<Rightarrow> nat" where
  "xsk_ring_prod__fill_addr r idx = unat (idx AND ring_mask r)"

definition xsk_ring_cons__comp_addr :: "'d xsk_ring \<Rightarrow> u32 \<Rightarrow> nat" where
  "xsk_ring_cons__comp_addr r idx = unat (idx AND ring_mask r)"

definition xsk_ring_prod__tx_desc :: "'d xsk_ring \<Rightarrow> u32 \<Rightarrow> nat" where
  "xsk_ring_prod__tx_desc r idx = unat (idx AND ring_mask r)"

definition xsk_ring_cons__rx_desc :: "'d xsk_ring \<Rightarrow> u32 \<Rightarrow> nat" where
  "xsk_ring_cons__rx_desc r idx = unat (idx AND ring_mask r)"

definition ring_load :: "'d xsk_ring \<Rightarrow> nat \<Rightarrow> 'd res" where
  "ring_load r i = (if i < length (entries r) then Inr (entries r ! i) else Inl OutOfBounds)"

definition ring_store :: "'d xsk_ring \<Rightarrow> nat \<Rightarrow> 'd \<Rightarrow> 'd xsk_ring res" where
  "ring_store r i d =
     (if i < length (entries r) then Inr (r\<lparr>entries := (entries r)[i := d]\<rparr>) else Inl OutOfBounds)"

definition xsk_ring_prod__needs_wakeup :: "'d xsk_ring \<Rightarrow> bool" where
  "xsk_ring_prod__needs_wakeup r \<longleftrightarrow> ring_flags r AND XDP_RING_NEED_WAKEUP \<noteq> 0"

section \<open>The operations of the producer\<close>

definition xsk_prod_nb_free :: "'d xsk_ring \<Rightarrow> u32 \<Rightarrow> u32 \<times> 'd xsk_ring" where
  "xsk_prod_nb_free r nb =
     (let free_entries = cached_cons r - cached_prod r in
      if free_entries \<ge> nb then (free_entries, r)
      else let r = r\<lparr>cached_cons := consumer r + ring_size r\<rparr> in (cached_cons r - cached_prod r, r))"

text \<open>The number of entries reserved, and the position that is written to \<open>*idx\<close>.\<close>

definition xsk_ring_prod__reserve :: "'d xsk_ring \<Rightarrow> u32 \<Rightarrow> (u32 \<times> u32 option) \<times> 'd xsk_ring" where
  "xsk_ring_prod__reserve r nb =
     (let (n, r) = xsk_prod_nb_free r nb in
      if n < nb then ((0, None), r)
      else ((nb, Some (cached_prod r)), r\<lparr>cached_prod := cached_prod r + nb\<rparr>))"

definition xsk_ring_prod__submit :: "'d xsk_ring \<Rightarrow> u32 \<Rightarrow> 'd xsk_ring" where
  "xsk_ring_prod__submit r nb = r\<lparr>producer := producer r + nb\<rparr>"

section \<open>The operations of the consumer\<close>

definition xsk_cons_nb_avail :: "'d xsk_ring \<Rightarrow> u32 \<Rightarrow> u32 \<times> 'd xsk_ring" where
  "xsk_cons_nb_avail r nb =
     (let n = cached_prod r - cached_cons r;
          (n, r) = (if n = 0 then let r = r\<lparr>cached_prod := producer r\<rparr> in (cached_prod r - cached_cons r, r)
                    else (n, r))
      in (if n > nb then nb else n, r))"

definition xsk_ring_cons__peek :: "'d xsk_ring \<Rightarrow> u32 \<Rightarrow> (u32 \<times> u32 option) \<times> 'd xsk_ring" where
  "xsk_ring_cons__peek r nb =
     (let (n, r) = xsk_cons_nb_avail r nb in
      if n > 0 then ((n, Some (cached_cons r)), r\<lparr>cached_cons := cached_cons r + n\<rparr>)
      else ((n, None), r))"

definition xsk_ring_cons__cancel :: "'d xsk_ring \<Rightarrow> u32 \<Rightarrow> 'd xsk_ring" where
  "xsk_ring_cons__cancel r nb = r\<lparr>cached_cons := cached_cons r - nb\<rparr>"

definition xsk_ring_cons__release :: "'d xsk_ring \<Rightarrow> u32 \<Rightarrow> 'd xsk_ring" where
  "xsk_ring_cons__release r nb = r\<lparr>consumer := consumer r + nb\<rparr>"

section \<open>Addresses in the packet memory\<close>

definition XSK_UNALIGNED_BUF_OFFSET_SHIFT :: nat where "XSK_UNALIGNED_BUF_OFFSET_SHIFT = 48"
definition XSK_UNALIGNED_BUF_ADDR_MASK :: u64 where
  "XSK_UNALIGNED_BUF_ADDR_MASK = push_bit XSK_UNALIGNED_BUF_OFFSET_SHIFT 1 - 1"

definition xsk_umem__get_data :: "u64 \<Rightarrow> u64 \<Rightarrow> u64" where
  "xsk_umem__get_data umem_area addr = umem_area + addr"

definition xsk_umem__extract_addr :: "u64 \<Rightarrow> u64" where
  "xsk_umem__extract_addr addr = addr AND XSK_UNALIGNED_BUF_ADDR_MASK"

definition xsk_umem__extract_offset :: "u64 \<Rightarrow> u64" where
  "xsk_umem__extract_offset addr = drop_bit XSK_UNALIGNED_BUF_OFFSET_SHIFT addr"

definition xsk_umem__add_offset_to_addr :: "u64 \<Rightarrow> u64" where
  "xsk_umem__add_offset_to_addr addr = xsk_umem__extract_addr addr + xsk_umem__extract_offset addr"

section \<open>Positions of a ring\<close>

definition ring_geometry :: "'d xsk_ring \<Rightarrow> bool" where
  "ring_geometry r \<longleftrightarrow> list_ex (\<lambda>k. ring_size r = 2 ^ k) [0..<32] \<and> ring_mask r = ring_size r - 1 \<and>
     length (entries r) = unat (ring_size r)"

text \<open>Four counters in their order around a ring, with at most \<open>n\<close> entries between the first and the last.\<close>

definition ring_chain :: "nat \<Rightarrow> u32 \<Rightarrow> u32 \<Rightarrow> u32 \<Rightarrow> u32 \<Rightarrow> bool" where
  "ring_chain n a b c d \<longleftrightarrow> unat (b - a) + unat (c - b) + unat (d - c) \<le> n"

text \<open>The \<open>n\<close> entries from a position on.\<close>

definition entry_at :: "'d xsk_ring \<Rightarrow> u32 \<Rightarrow> 'd" where
  "entry_at r idx = entries r ! unat (idx AND ring_mask r)"

definition entries_from :: "'d xsk_ring \<Rightarrow> u32 \<Rightarrow> nat \<Rightarrow> 'd list" where
  "entries_from r c n = map (\<lambda>i. entry_at r (c + of_nat i)) [0..<n]"

lemma unat_pow2:
  assumes "k < 32" shows "unat (2 ^ k :: u32) = 2 ^ k"
proof -
  have "(2::nat) ^ k < 2 ^ 32" using assms by (intro power_strict_increasing) auto
  then have "unat (of_nat (2 ^ k) :: u32) = 2 ^ k"
    by (simp only: unsigned_of_nat take_bit_nat_eq_self) (simp add: take_bit_nat_eq_self assms)
  then show ?thesis by simp
qed

lemma ring_size_pos: "ring_geometry r \<Longrightarrow> 0 < unat (ring_size r)"
  by (auto simp: ring_geometry_def list_ex_iff unat_gt_0)

lemma unat_and_mask:
  assumes "ring_geometry r"
  shows "unat (idx AND ring_mask r) = unat idx mod unat (ring_size r)"
proof -
  obtain k where k: "k < 32" "ring_size r = 2 ^ k" using assms by (auto simp: ring_geometry_def list_ex_iff)
  then have m: "ring_mask r = mask k" using assms by (simp add: ring_geometry_def mask_eq_exp_minus_1)
  have "unat (idx AND mask k) = take_bit k (unat idx)"
    unfolding take_bit_eq_mask [symmetric] by (rule unsigned_take_bit_eq)
  then show ?thesis using k m by (simp add: take_bit_eq_mod unat_pow2)
qed

lemma mod_ring_size:
  assumes "ring_geometry r"
  shows "x mod 4294967296 mod unat (ring_size r) = x mod unat (ring_size r)"
proof -
  obtain k where k: "k < 32" "ring_size r = 2 ^ k" using assms by (auto simp: ring_geometry_def list_ex_iff)
  then have "unat (ring_size r) = 2 ^ k" by (simp add: unat_pow2)
  moreover have "(2 ^ k :: nat) dvd 2 ^ 32" using k(1) by (intro le_imp_power_dvd) simp
  ultimately show ?thesis by (simp add: mod_mod_cancel)
qed

lemma ring_size_bound: "ring_geometry r \<Longrightarrow> unat (ring_size r) \<le> 2147483648"
proof -
  assume "ring_geometry r"
  then obtain k where k: "k < 32" "ring_size r = 2 ^ k" by (auto simp: ring_geometry_def list_ex_iff)
  then have "unat (ring_size r) = 2 ^ k" by (simp add: unat_pow2)
  moreover have "(2 ^ k :: nat) \<le> 2 ^ 31" using k(1) by (intro power_increasing) auto
  ultimately show ?thesis by simp
qed

lemma unat_add_of_nat: "unat (c + of_nat i :: u32) = (unat c + i) mod 4294967296"
  by (simp add: unat_word_ariths unsigned_of_nat take_bit_eq_mod mod_add_right_eq)

lemma pos_eq:
  "ring_geometry r \<Longrightarrow> unat ((c + of_nat i) AND ring_mask r) = (unat c + i) mod unat (ring_size r)"
  by (simp add: unat_and_mask unat_add_of_nat mod_ring_size)

lemma length_entries: "ring_geometry r \<Longrightarrow> length (entries r) = unat (ring_size r)"
  by (simp add: ring_geometry_def)

lemma pos_less: "ring_geometry r \<Longrightarrow> unat (idx AND ring_mask r) < length (entries r)"
  using ring_size_pos [of r] by (simp add: unat_and_mask length_entries)

lemma add_mod_less:
  fixes a i m :: nat
  assumes "i < m"
  shows "(a + i) mod m = (if a mod m + i < m then a mod m + i else a mod m + i - m)"
proof -
  have "(a + i) mod m = (a mod m + i) mod m" by (simp add: mod_add_left_eq)
  moreover have "a mod m + i - m < m"
    using mod_less_divisor [of m a] assms by linarith
  ultimately show ?thesis using assms by (simp add: le_mod_geq)
qed

text \<open>Two positions that are less than the size apart have different places in the array.\<close>

lemma pos_inject:
  assumes "ring_geometry r" "i < unat (ring_size r)" "j < unat (ring_size r)"
    and "unat ((c + of_nat i) AND ring_mask r) = unat ((c + of_nat j) AND ring_mask r)"
  shows "i = j"
proof -
  have "(unat c + i) mod unat (ring_size r) = (unat c + j) mod unat (ring_size r)"
    using assms(1,4) by (simp add: pos_eq)
  then show ?thesis using assms(2,3) by (auto simp: add_mod_less split: if_splits)
qed

lemma length_entries_from [simp]: "length (entries_from r c n) = n"
  by (simp add: entries_from_def)

lemma entries_from_0 [simp]: "entries_from r c 0 = []"
  by (simp add: entries_from_def)

lemma entries_from_add: "entries_from r c (m + n) = entries_from r c m @ entries_from r (c + of_nat m) n"
proof -
  have "[0..<m + n] = [0..<m] @ map (\<lambda>i. m + i) [0..<n]"
    by (rule nth_equalityI) (auto simp: nth_append)
  then show ?thesis by (simp add: entries_from_def ac_simps)
qed

lemma entries_from_nth: "i < n \<Longrightarrow> entries_from r c n ! i = entry_at r (c + of_nat i)"
  by (simp add: entries_from_def)


section \<open>A ring that the program fills\<close>

text \<open>The state of the system: the ring, and the entries that the program has submitted and that the
  kernel has taken.\<close>

record 'd xsk_sys =
  sys_ring :: "'d xsk_ring"
  sent :: "'d list"
  received :: "'d list"

text \<open>What is submitted but not taken.\<close>

definition pending :: "'d xsk_ring \<Rightarrow> 'd list" where
  "pending r = entries_from r (consumer r) (unat (producer r - consumer r))"

text \<open>The program writes only entries that it reserved and did not submit, and submits only what it
  reserved.\<close>

inductive tx_reach :: "'d xsk_ring \<Rightarrow> 'd xsk_sys \<Rightarrow> bool" for r0 where
  tx_start: "ring_geometry r0 \<Longrightarrow> cached_prod r0 = producer r0 \<Longrightarrow> producer r0 = consumer r0 \<Longrightarrow>
    cached_cons r0 = consumer r0 + ring_size r0 \<Longrightarrow> tx_reach r0 \<lparr>sys_ring = r0, sent = [], received = []\<rparr>"
| tx_reserve: "tx_reach r0 s \<Longrightarrow> xsk_ring_prod__reserve (sys_ring s) nb = (res, r) \<Longrightarrow>
    tx_reach r0 (s\<lparr>sys_ring := r\<rparr>)"
| tx_write: "tx_reach r0 s \<Longrightarrow> unat (idx - producer (sys_ring s)) < unat (cached_prod (sys_ring s) - producer (sys_ring s)) \<Longrightarrow>
    ring_store (sys_ring s) (xsk_ring_prod__tx_desc (sys_ring s) idx) d = Inr r \<Longrightarrow>
    tx_reach r0 (s\<lparr>sys_ring := r\<rparr>)"
| tx_submit: "tx_reach r0 s \<Longrightarrow> nb \<le> cached_prod (sys_ring s) - producer (sys_ring s) \<Longrightarrow>
    tx_reach r0 (s\<lparr>sys_ring := xsk_ring_prod__submit (sys_ring s) nb,
      sent := sent s @ entries_from (sys_ring s) (producer (sys_ring s)) (unat nb)\<rparr>)"
| tx_kernel: "tx_reach r0 s \<Longrightarrow> n \<le> producer (sys_ring s) - consumer (sys_ring s) \<Longrightarrow>
    tx_reach r0 (s\<lparr>sys_ring := (sys_ring s)\<lparr>consumer := consumer (sys_ring s) + n, ring_flags := fl\<rparr>,
      received := received s @ entries_from (sys_ring s) (consumer (sys_ring s)) (unat n)\<rparr>)"

definition tx_inv :: "'d xsk_sys \<Rightarrow> bool" where
  "tx_inv s \<longleftrightarrow> (let r = sys_ring s in ring_geometry r \<and>
     ring_chain (unat (ring_size r)) (consumer r) (producer r) (cached_prod r) (cached_cons r) \<and>
     received s @ pending r = sent s)"

lemma unat_add_small: "unat x + unat y < 4294967296 \<Longrightarrow> unat (x + y :: u32) = unat x + unat y"
  by (simp add: unat_word_ariths)

lemma unat_diff_small: "y \<le> x \<Longrightarrow> unat (x - y :: u32) = unat x - unat y"
  by (simp add: unat_sub)

text \<open>Distances along a chain of counters.\<close>

lemma unat_dist_add:
  fixes a b c :: u32
  assumes "unat (b - a) + unat (c - b) < 4294967296"
  shows "unat (c - a) = unat (b - a) + unat (c - b)"
  using unat_add_small [OF assms] by simp

lemma entries_from_cong:
  "entries r = entries r' \<Longrightarrow> ring_mask r = ring_mask r' \<Longrightarrow> entries_from r c n = entries_from r' c n"
  by (simp add: entries_from_def entry_at_def)

lemma entries_from_store_other:
  assumes "ring_geometry r" "n \<le> i" "i < unat (ring_size r)"
    and "ring_store r (unat ((c + of_nat i) AND ring_mask r)) d = Inr r'"
  shows "entries_from r' c n = entries_from r c n"
proof (rule nth_equalityI)
  fix j assume "j < length (entries_from r' c n)"
  then have j: "j < n" by simp
  then have "unat ((c + of_nat i) AND ring_mask r) \<noteq> unat ((c + of_nat j) AND ring_mask r)"
    using pos_inject [OF assms(1), of i j c] assms(2,3) by auto
  then show "entries_from r' c n ! j = entries_from r c n ! j"
    using assms(4) j by (auto simp: entries_from_nth entry_at_def ring_store_def split: if_splits)
qed simp

lemma entries_from_store_same:
  assumes "ring_geometry r" "ring_store r (unat (idx AND ring_mask r)) d = Inr r'"
  shows "entry_at r' idx = d"
  using assms pos_less [OF assms(1)] by (auto simp: entry_at_def ring_store_def)


lemma dist_forward:
  fixes b c nb :: u32
  assumes "unat (c - b) + unat nb < 4294967296"
  shows "unat (c + nb - b) = unat (c - b) + unat nb"
proof -
  have eq: "c + nb - b = (c - b) + nb" by simp
  show ?thesis unfolding eq using assms by (rule unat_add_small)
qed

lemma dist_backward:
  fixes c d nb :: u32
  assumes "nb \<le> d - c"
  shows "unat (d - (c + nb)) = unat (d - c) - unat nb" "unat nb \<le> unat (d - c)"
proof -
  have eq: "d - (c + nb) = (d - c) - nb" by simp
  show "unat (d - (c + nb)) = unat (d - c) - unat nb" unfolding eq using assms by (rule unat_diff_small)
  show "unat nb \<le> unat (d - c)" using assms by (simp add: word_le_nat_alt)
qed

lemma chain_grow_mid:
  fixes a b c d nb :: u32
  assumes "ring_chain n a b c d" "n < 4294967296" "nb \<le> d - c"
  shows "ring_chain n a b (c + nb) d"
  using assms(1,2) dist_forward [of c b nb] dist_backward [OF assms(3)] by (simp add: ring_chain_def)

lemma chain_refresh:
  fixes a b c d sz :: u32
  assumes "ring_chain (unat sz) a b c d"
  shows "ring_chain (unat sz) a b c (a + sz)" "unat (a + sz - c) = unat sz - unat (c - a)" "unat (c - a) \<le> unat sz"
proof -
  have sz: "unat sz < 4294967296" by (rule less_le_trans [OF unsigned_less]) simp
  then have ca: "unat (c - a) = unat (b - a) + unat (c - b)"
    using assms by (intro unat_dist_add) (simp add: ring_chain_def)
  then have le: "c - a \<le> sz" using assms by (simp add: ring_chain_def word_le_nat_alt)
  have e: "a + sz - c = sz - (c - a)" by simp
  show eq: "unat (a + sz - c) = unat sz - unat (c - a)" unfolding e by (rule unat_diff_small [OF le])
  show "unat (c - a) \<le> unat sz" using le by (simp add: word_le_nat_alt)
  then show "ring_chain (unat sz) a b c (a + sz)" using eq ca assms by (simp add: ring_chain_def)
qed

text \<open>Reserving changes only the private counters.\<close>

lemma reserve_frame:
  assumes "xsk_ring_prod__reserve r nb = (res, r')"
  shows "entries r' = entries r" "ring_mask r' = ring_mask r" "ring_size r' = ring_size r"
    "producer r' = producer r" "consumer r' = consumer r"
  using assms by (auto simp: xsk_ring_prod__reserve_def xsk_prod_nb_free_def Let_def split: if_splits)

lemma nb_free_spec:
  assumes "ring_chain (unat (ring_size r)) (consumer r) b (cached_prod r) (cached_cons r)"
    and "xsk_prod_nb_free r nb = (n, r')"
  shows "ring_chain (unat (ring_size r)) (consumer r) b (cached_prod r) (cached_cons r')"
    "n = cached_cons r' - cached_prod r" "cached_prod r' = cached_prod r"
    "nb \<le> n \<longleftrightarrow> unat nb \<le> unat (ring_size r) - unat (cached_prod r - consumer r)"
proof -
  let ?c = "ring_chain (unat (ring_size r)) (consumer r) b (cached_prod r)"
  note refresh = chain_refresh [OF assms(1)]
  have free: "unat (cached_cons r - cached_prod r) \<le> unat (ring_size r) - unat (cached_prod r - consumer r)"
  proof -
    have "unat (ring_size r) < 4294967296" by (rule less_le_trans [OF unsigned_less]) simp
    then have "unat (cached_prod r - consumer r) = unat (b - consumer r) + unat (cached_prod r - b)"
      using assms(1) by (intro unat_dist_add) (simp add: ring_chain_def)
    then show ?thesis using assms(1) by (simp add: ring_chain_def)
  qed
  have "?c (cached_cons r') \<and> n = cached_cons r' - cached_prod r \<and> cached_prod r' = cached_prod r \<and>
     (nb \<le> n \<longleftrightarrow> unat nb \<le> unat (ring_size r) - unat (cached_prod r - consumer r))"
  proof (cases "nb \<le> cached_cons r - cached_prod r")
    case True
    then have "unat nb \<le> unat (cached_cons r - cached_prod r)" by (simp add: word_le_nat_alt)
    then show ?thesis using True assms free by (auto simp: xsk_prod_nb_free_def)
  next
    case False
    then show ?thesis using assms refresh by (auto simp: xsk_prod_nb_free_def word_le_nat_alt)
  qed
  then show "?c (cached_cons r')" "n = cached_cons r' - cached_prod r" "cached_prod r' = cached_prod r"
    "nb \<le> n \<longleftrightarrow> unat nb \<le> unat (ring_size r) - unat (cached_prod r - consumer r)" by blast+
qed

lemma reserve_spec:
  assumes "ring_chain (unat (ring_size r)) (consumer r) b (cached_prod r) (cached_cons r)"
    and "xsk_ring_prod__reserve r nb = ((n, idx), r')"
  shows "ring_chain (unat (ring_size r)) (consumer r) b (cached_prod r') (cached_cons r')"
    "if unat nb \<le> unat (ring_size r) - unat (cached_prod r - consumer r)
     then n = nb \<and> idx = Some (cached_prod r) \<and> cached_prod r' = cached_prod r + nb
     else n = 0 \<and> idx = None \<and> cached_prod r' = cached_prod r"
proof -
  obtain m r1 where m: "xsk_prod_nb_free r nb = (m, r1)" by fastforce
  note nf = nb_free_spec [OF assms(1) m]
  have lt: "unat (ring_size r) < 4294967296" by (rule less_le_trans [OF unsigned_less]) simp
  have "ring_chain (unat (ring_size r)) (consumer r) b (cached_prod r') (cached_cons r') \<and>
    (if nb \<le> m then n = nb \<and> idx = Some (cached_prod r) \<and> cached_prod r' = cached_prod r + nb
     else n = 0 \<and> idx = None \<and> cached_prod r' = cached_prod r)"
    using assms(2) nf(1-3) chain_grow_mid [OF nf(1) lt]
    by (auto simp: xsk_ring_prod__reserve_def m split: if_splits)
  then show "ring_chain (unat (ring_size r)) (consumer r) b (cached_prod r') (cached_cons r')"
    "if unat nb \<le> unat (ring_size r) - unat (cached_prod r - consumer r)
     then n = nb \<and> idx = Some (cached_prod r) \<and> cached_prod r' = cached_prod r + nb
     else n = 0 \<and> idx = None \<and> cached_prod r' = cached_prod r"
    using nf(4) by auto
qed

text \<open>Moving one of the inner counters forward keeps the chain.\<close>

lemma chain_step_b:
  fixes a b c d nb :: u32
  assumes "ring_chain n a b c d" "n < 4294967296" "nb \<le> c - b"
  shows "ring_chain n a (b + nb) c d" "unat (b + nb - a) = unat (b - a) + unat nb"
  using assms(1,2) dist_forward [of b a nb] dist_backward [OF assms(3)] by (simp_all add: ring_chain_def)

lemma chain_step_a:
  fixes a b c d nb :: u32
  assumes "ring_chain n a b c d" "nb \<le> b - a"
  shows "ring_chain n (a + nb) b c d" "unat (b - (a + nb)) = unat (b - a) - unat nb" "unat nb \<le> unat (b - a)"
  using assms(1) dist_backward [OF assms(2)] by (simp_all add: ring_chain_def)

lemma tx_inv_facts:
  assumes "tx_inv s"
  shows "ring_geometry (sys_ring s)"
    "ring_chain (unat (ring_size (sys_ring s))) (consumer (sys_ring s)) (producer (sys_ring s))
       (cached_prod (sys_ring s)) (cached_cons (sys_ring s))"
    "received s @ pending (sys_ring s) = sent s"
    "unat (ring_size (sys_ring s)) < 4294967296"
  using assms ring_size_bound [of "sys_ring s"] by (simp_all add: tx_inv_def Let_def)

lemma geometry_frame:
  "ring_size r' = ring_size r \<Longrightarrow> ring_mask r' = ring_mask r \<Longrightarrow> length (entries r') = length (entries r) \<Longrightarrow>
   ring_geometry r' = ring_geometry r"
  by (simp add: ring_geometry_def)

lemma store_frame:
  assumes "ring_store r i d = Inr r'"
  shows "ring_size r' = ring_size r" "ring_mask r' = ring_mask r" "length (entries r') = length (entries r)"
    "producer r' = producer r" "consumer r' = consumer r" "cached_prod r' = cached_prod r" "cached_cons r' = cached_cons r"
  using assms by (auto simp: ring_store_def split: if_splits)

lemma add_of_unat [simp]: "c + of_nat (unat (w :: u32)) = c + w"
  by simp

lemma tx_inv_start:
  assumes "ring_geometry r" "cached_prod r = producer r" "producer r = consumer r"
    "cached_cons r = consumer r + ring_size r"
  shows "tx_inv \<lparr>sys_ring = r, sent = [], received = []\<rparr>"
  using assms by (simp add: tx_inv_def Let_def ring_chain_def pending_def)

lemma tx_inv_reserve:
  assumes "tx_inv s" "xsk_ring_prod__reserve (sys_ring s) nb = (res, r)"
  shows "tx_inv (s\<lparr>sys_ring := r\<rparr>)"
proof -
  obtain n idx where res: "res = (n, idx)" by fastforce
  note inv = tx_inv_facts [OF assms(1)]
  note fr = reserve_frame [OF assms(2)]
  note spec = reserve_spec [OF inv(2) assms(2) [unfolded res]]
  have "pending r = pending (sys_ring s)" using fr by (simp add: pending_def entries_from_cong [of r "sys_ring s"])
  then show ?thesis
    using inv(1,3) spec(1) fr geometry_frame [of r "sys_ring s"] by (simp add: tx_inv_def Let_def)
qed

lemma tx_inv_write:
  assumes "tx_inv s" "unat (idx - producer (sys_ring s)) < unat (cached_prod (sys_ring s) - producer (sys_ring s))"
    and "ring_store (sys_ring s) (xsk_ring_prod__tx_desc (sys_ring s) idx) d = Inr r"
  shows "tx_inv (s\<lparr>sys_ring := r\<rparr>)"
proof -
  let ?r = "sys_ring s"
  let ?i = "unat (producer ?r - consumer ?r) + unat (idx - producer ?r)"
  note inv = tx_inv_facts [OF assms(1)]
  note fr = store_frame [OF assms(3)]
  have i: "?i < unat (ring_size ?r)" using inv(2) assms(2) by (simp add: ring_chain_def)
  have "consumer ?r + of_nat ?i = idx" by simp
  then have "entries_from r (consumer ?r) (unat (producer ?r - consumer ?r)) =
      entries_from ?r (consumer ?r) (unat (producer ?r - consumer ?r))"
    using entries_from_store_other [OF inv(1) _ i, of _ "consumer ?r" d r] assms(3)
    by (simp add: xsk_ring_prod__tx_desc_def)
  then have "pending r = pending ?r" using fr by (simp add: pending_def)
  then show ?thesis using inv(1-3) fr geometry_frame [of r ?r] by (simp add: tx_inv_def Let_def)
qed

lemma tx_inv_submit:
  assumes "tx_inv s" "nb \<le> cached_prod (sys_ring s) - producer (sys_ring s)"
  shows "tx_inv (s\<lparr>sys_ring := xsk_ring_prod__submit (sys_ring s) nb,
      sent := sent s @ entries_from (sys_ring s) (producer (sys_ring s)) (unat nb)\<rparr>)"
proof -
  let ?r = "sys_ring s" let ?r' = "xsk_ring_prod__submit ?r nb"
  note inv = tx_inv_facts [OF assms(1)]
  note ch = chain_step_b [OF inv(2,4) assms(2)]
  have "pending ?r' = entries_from ?r (consumer ?r) (unat (producer ?r - consumer ?r) + unat nb)"
    using ch(2) entries_from_cong [of ?r' ?r] by (simp add: pending_def xsk_ring_prod__submit_def)
  also have "\<dots> = pending ?r @ entries_from ?r (producer ?r) (unat nb)"
    by (simp add: entries_from_add pending_def)
  finally have pend: "pending ?r' = pending ?r @ entries_from ?r (producer ?r) (unat nb)" .
  have "ring_geometry ?r'" using inv(1) by (simp add: ring_geometry_def xsk_ring_prod__submit_def)
  moreover have "received s @ pending ?r' = sent s @ entries_from ?r (producer ?r) (unat nb)"
    using inv(3) pend by (metis append_assoc)
  ultimately show ?thesis
    using ch(1) by (simp add: tx_inv_def Let_def) (simp add: xsk_ring_prod__submit_def)
qed

lemma tx_inv_kernel:
  assumes "tx_inv s" "n \<le> producer (sys_ring s) - consumer (sys_ring s)"
  shows "tx_inv (s\<lparr>sys_ring := (sys_ring s)\<lparr>consumer := consumer (sys_ring s) + n, ring_flags := fl\<rparr>,
      received := received s @ entries_from (sys_ring s) (consumer (sys_ring s)) (unat n)\<rparr>)"
proof -
  let ?r = "sys_ring s" let ?r' = "?r\<lparr>consumer := consumer ?r + n, ring_flags := fl\<rparr>"
  note inv = tx_inv_facts [OF assms(1)]
  note ch = chain_step_a [OF inv(2) assms(2)]
  have "pending ?r = entries_from ?r (consumer ?r) (unat n + unat (producer ?r - (consumer ?r + n)))"
    using ch(2,3) by (simp add: pending_def)
  also have "\<dots> = entries_from ?r (consumer ?r) (unat n) @ pending ?r'"
    using entries_from_cong [of ?r' ?r] by (simp add: entries_from_add pending_def)
  finally have pend: "pending ?r = entries_from ?r (consumer ?r) (unat n) @ pending ?r'" .
  have "ring_geometry ?r'" using inv(1) by (simp add: ring_geometry_def)
  then show ?thesis
    using inv(3) pend ch(1) by (simp add: tx_inv_def Let_def)
qed

lemma tx_reach_inv: "tx_reach r0 s \<Longrightarrow> tx_inv s"
  by (induction rule: tx_reach.induct)
    (blast intro: tx_inv_start tx_inv_reserve tx_inv_write tx_inv_submit tx_inv_kernel)+


section \<open>A ring that the program empties\<close>

text \<open>The kernel may change the entries that are not submitted as it likes, and submits any number
  of entries that fit. The program gives back or puts back only entries that it holds.\<close>

definition kernel_fill :: "'d list \<Rightarrow> u32 \<Rightarrow> u32 \<Rightarrow> 'd xsk_ring \<Rightarrow> 'd xsk_ring" where
  "kernel_fill es n fl r = r\<lparr>entries := es, producer := producer r + n, ring_flags := fl\<rparr>"

inductive rx_reach :: "'d xsk_ring \<Rightarrow> 'd xsk_sys \<Rightarrow> bool" for r0 where
  rx_start: "ring_geometry r0 \<Longrightarrow> cached_prod r0 = producer r0 \<Longrightarrow> cached_cons r0 = consumer r0 \<Longrightarrow>
    producer r0 = consumer r0 \<Longrightarrow> rx_reach r0 \<lparr>sys_ring = r0, sent = [], received = []\<rparr>"
| rx_peek: "rx_reach r0 s \<Longrightarrow> xsk_ring_cons__peek (sys_ring s) nb = (res, r) \<Longrightarrow>
    rx_reach r0 (s\<lparr>sys_ring := r\<rparr>)"
| rx_cancel: "rx_reach r0 s \<Longrightarrow> nb \<le> cached_cons (sys_ring s) - consumer (sys_ring s) \<Longrightarrow>
    rx_reach r0 (s\<lparr>sys_ring := xsk_ring_cons__cancel (sys_ring s) nb\<rparr>)"
| rx_release: "rx_reach r0 s \<Longrightarrow> nb \<le> cached_cons (sys_ring s) - consumer (sys_ring s) \<Longrightarrow>
    rx_reach r0 (s\<lparr>sys_ring := xsk_ring_cons__release (sys_ring s) nb,
      received := received s @ entries_from (sys_ring s) (consumer (sys_ring s)) (unat nb)\<rparr>)"
| rx_kernel: "rx_reach r0 s \<Longrightarrow> length es = length (entries (sys_ring s)) \<Longrightarrow>
    entries_from (sys_ring s\<lparr>entries := es\<rparr>) (consumer (sys_ring s)) (unat (producer (sys_ring s) - consumer (sys_ring s))) =
      pending (sys_ring s) \<Longrightarrow>
    unat n \<le> unat (ring_size (sys_ring s)) - unat (producer (sys_ring s) - consumer (sys_ring s)) \<Longrightarrow>
    rx_reach r0 (s\<lparr>sys_ring := kernel_fill es n fl (sys_ring s),
      sent := sent s @ entries_from (sys_ring s\<lparr>entries := es\<rparr>) (producer (sys_ring s)) (unat n)\<rparr>)"

definition rx_inv :: "'d xsk_sys \<Rightarrow> bool" where
  "rx_inv s \<longleftrightarrow> (let r = sys_ring s in ring_geometry r \<and>
     ring_chain (unat (ring_size r)) (consumer r) (cached_cons r) (cached_prod r) (producer r) \<and>
     received s @ pending r = sent s)"

lemma rx_inv_facts:
  assumes "rx_inv s"
  shows "ring_geometry (sys_ring s)"
    "ring_chain (unat (ring_size (sys_ring s))) (consumer (sys_ring s)) (cached_cons (sys_ring s))
       (cached_prod (sys_ring s)) (producer (sys_ring s))"
    "received s @ pending (sys_ring s) = sent s"
    "unat (ring_size (sys_ring s)) < 4294967296"
  using assms ring_size_bound [of "sys_ring s"] by (simp_all add: rx_inv_def Let_def)

lemma chain_total:
  assumes "ring_chain n a b c d" "n < 4294967296"
  shows "unat (d - a) = unat (b - a) + unat (c - b) + unat (d - c)" "unat (c - a) = unat (b - a) + unat (c - b)"
    "unat (d - b) = unat (c - b) + unat (d - c)" "unat (d - a) \<le> n"
proof -
  show ca: "unat (c - a) = unat (b - a) + unat (c - b)"
    using assms by (intro unat_dist_add) (simp add: ring_chain_def)
  show "unat (d - b) = unat (c - b) + unat (d - c)"
    using assms by (intro unat_dist_add) (simp add: ring_chain_def)
  show "unat (d - a) = unat (b - a) + unat (c - b) + unat (d - c)"
    using assms ca unat_dist_add [of c a d] by (simp add: ring_chain_def)
  then show "unat (d - a) \<le> n" using assms by (simp add: ring_chain_def)
qed

text \<open>Refreshing the copy of the producer counter.\<close>

lemma avail_spec:
  assumes "ring_chain n (consumer r) (cached_cons r) (cached_prod r) (producer r)" "n < 4294967296"
    and "xsk_cons_nb_avail r nb = (m, r')"
  shows "ring_chain n (consumer r) (cached_cons r) (cached_prod r') (producer r)"
    "r' = r\<lparr>cached_prod := cached_prod r'\<rparr>" "m \<le> nb" "m \<le> cached_prod r' - cached_cons r"
    "m = 0 \<longleftrightarrow> nb = 0 \<or> producer r = cached_cons r"
proof -
  note tot = chain_total [OF assms(1,2)]
  have all: "ring_chain n (consumer r) (cached_cons r) (cached_prod r') (producer r) \<and>
     r' = r\<lparr>cached_prod := cached_prod r'\<rparr> \<and> m = min nb (cached_prod r' - cached_cons r) \<and>
     (cached_prod r' = cached_cons r \<longleftrightarrow> producer r = cached_cons r)"
  proof (cases "cached_prod r = cached_cons r")
    case True
    then show ?thesis using assms by (auto simp: xsk_cons_nb_avail_def Let_def ring_chain_def min_def)
  next
    case False
    then have "unat (cached_prod r - cached_cons r) \<noteq> 0" by (simp add: unat_eq_0)
    then have "unat (producer r - cached_cons r) \<noteq> 0" using tot(3) by simp
    then have "producer r \<noteq> cached_cons r" by auto
    then show ?thesis using assms False by (auto simp: xsk_cons_nb_avail_def Let_def min_def)
  qed
  then show "ring_chain n (consumer r) (cached_cons r) (cached_prod r') (producer r)"
    "r' = r\<lparr>cached_prod := cached_prod r'\<rparr>" "m \<le> nb" "m \<le> cached_prod r' - cached_cons r" by auto
  show "m = 0 \<longleftrightarrow> nb = 0 \<or> producer r = cached_cons r"
    using all by (auto simp: min_def)
qed

text \<open>Peeking changes only the private counters: it takes as many entries as there are, but no more
  than asked for, and some if there are any.\<close>

lemma peek_spec:
  assumes "ring_chain k (consumer r) (cached_cons r) (cached_prod r) (producer r)" "k < 4294967296"
    and "xsk_ring_cons__peek r nb = ((n, idx), r')"
  shows "ring_chain k (consumer r) (cached_cons r') (cached_prod r') (producer r)"
    "r' = r\<lparr>cached_prod := cached_prod r', cached_cons := cached_cons r + n\<rparr>"
    "n \<le> nb" "n = 0 \<longleftrightarrow> nb = 0 \<or> producer r = cached_cons r"
    "idx = (if n = 0 then None else Some (cached_cons r))" "n \<le> producer r - cached_cons r"
proof -
  obtain m r1 where m: "xsk_cons_nb_avail r nb = (m, r1)" by fastforce
  note av = avail_spec [OF assms(1,2) m]
  have n: "n = m" and r': "r' = r1\<lparr>cached_cons := cached_cons r + n\<rparr>"
    and i: "idx = (if n = 0 then None else Some (cached_cons r))"
    using assms(3) av(2) by (auto simp: xsk_ring_cons__peek_def m word_gt_0 split: if_splits)
      (metis xsk_ring.select_convs(2) xsk_ring.surjective xsk_ring.update_convs(1,2))+
  show "ring_chain k (consumer r) (cached_cons r') (cached_prod r') (producer r)"
    using chain_step_b [OF av(1) assms(2) av(4)] r' n by simp
  show "r' = r\<lparr>cached_prod := cached_prod r', cached_cons := cached_cons r + n\<rparr>"
    using r' av(2) by (metis xsk_ring.select_convs xsk_ring.surjective xsk_ring.update_convs(1,2))
  show "n \<le> nb" "n = 0 \<longleftrightarrow> nb = 0 \<or> producer r = cached_cons r" using av(3,5) n by auto
  show "idx = (if n = 0 then None else Some (cached_cons r))" by (rule i)
  show "n \<le> producer r - cached_cons r"
    using av(4) chain_total(3) [OF av(1) assms(2)] n by (simp add: word_le_nat_alt)
qed


lemma rx_inv_peek:
  assumes "rx_inv s" "xsk_ring_cons__peek (sys_ring s) nb = (res, r)"
  shows "rx_inv (s\<lparr>sys_ring := r\<rparr>)"
proof -
  obtain n idx where res: "res = (n, idx)" by fastforce
  note inv = rx_inv_facts [OF assms(1)]
  note pk = peek_spec [OF inv(2,4) assms(2) [unfolded res]]
  obtain cp cc where r: "r = (sys_ring s)\<lparr>cached_prod := cp, cached_cons := cc\<rparr>" using pk(2) by blast
  have "pending r = pending (sys_ring s)" using r entries_from_cong [of r "sys_ring s"] by (simp add: pending_def)
  moreover have "ring_geometry r" using inv(1) r by (simp add: ring_geometry_def)
  ultimately show ?thesis using inv(3) pk(1) r by (simp add: rx_inv_def Let_def)
qed

lemma chain_cancel:
  fixes a b c d nb :: u32
  assumes "ring_chain n a b c d" "n < 4294967296" "nb \<le> b - a"
  shows "ring_chain n a (b - nb) c d"
proof -
  have e1: "b - nb - a = (b - a) - nb" and e2: "c - (b - nb) = (c - b) + nb" by simp_all
  have nb: "unat nb \<le> unat (b - a)" using assms(3) by (simp add: word_le_nat_alt)
  have "unat (b - nb - a) = unat (b - a) - unat nb" unfolding e1 by (rule unat_diff_small [OF assms(3)])
  moreover have "unat (c - (b - nb)) = unat (c - b) + unat nb" unfolding e2
    using assms(1,2) nb by (intro unat_add_small) (simp add: ring_chain_def)
  ultimately show ?thesis using assms(1) nb by (simp add: ring_chain_def)
qed

lemma rx_inv_cancel:
  assumes "rx_inv s" "nb \<le> cached_cons (sys_ring s) - consumer (sys_ring s)"
  shows "rx_inv (s\<lparr>sys_ring := xsk_ring_cons__cancel (sys_ring s) nb\<rparr>)"
proof -
  let ?r = "sys_ring s" let ?r' = "xsk_ring_cons__cancel ?r nb"
  note inv = rx_inv_facts [OF assms(1)]
  have "pending ?r' = pending ?r" using entries_from_cong [of ?r' ?r] by (simp add: pending_def xsk_ring_cons__cancel_def)
  moreover have "ring_geometry ?r'" using inv(1) by (simp add: ring_geometry_def xsk_ring_cons__cancel_def)
  ultimately show ?thesis using inv(3) chain_cancel [OF inv(2,4) assms(2)]
    by (simp add: rx_inv_def Let_def) (simp add: xsk_ring_cons__cancel_def)
qed

lemma rx_inv_release:
  assumes "rx_inv s" "nb \<le> cached_cons (sys_ring s) - consumer (sys_ring s)"
  shows "rx_inv (s\<lparr>sys_ring := xsk_ring_cons__release (sys_ring s) nb,
      received := received s @ entries_from (sys_ring s) (consumer (sys_ring s)) (unat nb)\<rparr>)"
proof -
  let ?r = "sys_ring s" let ?r' = "xsk_ring_cons__release ?r nb"
  note inv = rx_inv_facts [OF assms(1)]
  note tot = chain_total [OF inv(2,4)]
  have "nb \<le> producer ?r - consumer ?r" using assms(2) tot(1) by (simp add: word_le_nat_alt)
  note d = dist_backward [OF this]
  have "pending ?r = entries_from ?r (consumer ?r) (unat nb + unat (producer ?r - (consumer ?r + nb)))"
    using d by (simp add: pending_def)
  also have "\<dots> = entries_from ?r (consumer ?r) (unat nb) @ pending ?r'"
    using entries_from_cong [of ?r' ?r] by (simp add: entries_from_add pending_def xsk_ring_cons__release_def)
  finally have pend: "pending ?r = entries_from ?r (consumer ?r) (unat nb) @ pending ?r'" .
  have "ring_geometry ?r'" using inv(1) by (simp add: ring_geometry_def xsk_ring_cons__release_def)
  then show ?thesis
    using inv(3) pend chain_step_a(1) [OF inv(2) assms(2)]
    by (simp add: rx_inv_def Let_def) (simp add: xsk_ring_cons__release_def)
qed

lemma rx_inv_kernel:
  assumes "rx_inv s" "length es = length (entries (sys_ring s))"
    and "entries_from (sys_ring s\<lparr>entries := es\<rparr>) (consumer (sys_ring s)) (unat (producer (sys_ring s) - consumer (sys_ring s))) =
      pending (sys_ring s)"
    and "unat n \<le> unat (ring_size (sys_ring s)) - unat (producer (sys_ring s) - consumer (sys_ring s))"
  shows "rx_inv (s\<lparr>sys_ring := kernel_fill es n fl (sys_ring s),
      sent := sent s @ entries_from (sys_ring s\<lparr>entries := es\<rparr>) (producer (sys_ring s)) (unat n)\<rparr>)"
proof -
  let ?r = "sys_ring s" let ?r' = "kernel_fill es n fl ?r" let ?e = "?r\<lparr>entries := es\<rparr>"
  note inv = rx_inv_facts [OF assms(1)]
  note tot = chain_total [OF inv(2,4)]
  have sum: "unat (producer ?r - consumer ?r) + unat n \<le> unat (ring_size ?r)" using assms(4) tot(4) by linarith
  have "unat (producer ?r + n - consumer ?r) = unat (producer ?r - consumer ?r) + unat n"
    using sum inv(4) by (intro dist_forward) linarith
  then have "pending ?r' = entries_from ?e (consumer ?r) (unat (producer ?r - consumer ?r) + unat n)"
    using entries_from_cong [of ?r' ?e] by (simp add: pending_def kernel_fill_def)
  also have "\<dots> = pending ?r @ entries_from ?e (producer ?r) (unat n)"
    using assms(3) by (simp add: entries_from_add)
  finally have "received s @ pending ?r' = sent s @ entries_from ?e (producer ?r) (unat n)"
    using inv(3) by (metis append_assoc)
  moreover have "ring_geometry ?r'" using inv(1) assms(2) by (simp add: ring_geometry_def kernel_fill_def)
  moreover have "unat (producer ?r + n - cached_prod ?r) = unat (producer ?r - cached_prod ?r) + unat n"
    using sum tot inv(4) by (intro dist_forward) linarith
  then have "ring_chain (unat (ring_size ?r)) (consumer ?r) (cached_cons ?r) (cached_prod ?r) (producer ?r + n)"
    using sum tot(1) by (simp add: ring_chain_def)
  ultimately show ?thesis by (simp add: rx_inv_def Let_def) (simp add: kernel_fill_def)
qed

lemma rx_inv_start:
  assumes "ring_geometry r" "cached_prod r = producer r" "cached_cons r = consumer r" "producer r = consumer r"
  shows "rx_inv \<lparr>sys_ring = r, sent = [], received = []\<rparr>"
  using assms by (simp add: rx_inv_def Let_def ring_chain_def pending_def)

lemma rx_reach_inv: "rx_reach r0 s \<Longrightarrow> rx_inv s"
proof (induction rule: rx_reach.induct)
  case (rx_kernel s es n fl)
  then show ?case using rx_inv_kernel by blast
qed (blast intro: rx_inv_start rx_inv_peek rx_inv_cancel rx_inv_release)+

section \<open>What a user of a ring relies on\<close>

text \<open>Whoever fills a ring and whoever empties it, what left the ring is a beginning of what entered it,
  and an empty ring has delivered everything.\<close>

locale ring_queue =
  fixes reach :: "'d xsk_sys \<Rightarrow> bool"
  assumes fifo: "reach s \<Longrightarrow> received s @ pending (sys_ring s) = sent s"
begin

lemma received_prefix: "reach s \<Longrightarrow> received s = take (length (received s)) (sent s)"
  by (metis fifo append_eq_conv_conj)

lemma empty_delivered: "reach s \<Longrightarrow> producer (sys_ring s) = consumer (sys_ring s) \<Longrightarrow> received s = sent s"
  using fifo [of s] by (simp add: pending_def)

lemma count: "reach s \<Longrightarrow>
    length (sent s) = length (received s) + unat (producer (sys_ring s) - consumer (sys_ring s))"
  using fifo [of s] by (metis length_append length_entries_from pending_def)

end

interpretation tx: ring_queue "tx_reach r0"
  by unfold_locales (rule tx_inv_facts(3) [OF tx_reach_inv])


section \<open>Properties\<close>

text \<open>C23. A ring that the program fills is a queue: in every reachable state the entries that the kernel
  has taken, followed by those that wait in the array, are the entries that the program has submitted, in
  their order. So no entry is lost, repeated or overwritten, whatever the program reserves and
  writes meanwhile and however far the counters have wrapped around.\<close>

theorem tx_ring_fifo:
  assumes "tx_reach r0 s"
  shows "received s @ entries_from (sys_ring s) (consumer (sys_ring s)) (unat (producer (sys_ring s) - consumer (sys_ring s))) = sent s \<and>
     unat (cached_prod (sys_ring s) - consumer (sys_ring s)) \<le> unat (ring_size (sys_ring s))"
  using tx.fifo [OF assms] chain_refresh(3) [OF tx_inv_facts(2) [OF tx_reach_inv [OF assms]]]
  by (simp add: pending_def)

text \<open>Reserving is exact: it gives the number of entries asked for when that many are free, taking
  what the kernel has given back into account, and otherwise nothing at all. The entries reserved are
  none of those that wait for the kernel or are reserved already.\<close>

theorem tx_reserve_exact:
  assumes "tx_reach r0 s" "xsk_ring_prod__reserve (sys_ring s) nb = ((n, idx), r)"
  shows "(if unat nb \<le> unat (ring_size (sys_ring s)) - unat (cached_prod (sys_ring s) - consumer (sys_ring s))
      then n = nb \<and> idx = Some (cached_prod (sys_ring s)) else n = 0 \<and> idx = None) \<and>
     (\<forall>i < unat n. \<forall>j < unat (cached_prod (sys_ring s) - consumer (sys_ring s)).
        xsk_ring_prod__tx_desc r (cached_prod (sys_ring s) + of_nat i) \<noteq>
        xsk_ring_prod__tx_desc r (consumer (sys_ring s) + of_nat j))"
proof -
  let ?r = "sys_ring s" let ?k = "unat (cached_prod ?r - consumer ?r)"
  note inv = tx_inv_facts [OF tx_reach_inv [OF assms(1)]]
  note spec = reserve_spec [OF inv(2) assms(2)]
  note fr = reserve_frame [OF assms(2)]
  have n: "unat n \<le> unat (ring_size ?r) - ?k" using spec(2) by (auto split: if_splits)
  have "xsk_ring_prod__tx_desc r (cached_prod ?r + of_nat i) \<noteq> xsk_ring_prod__tx_desc r (consumer ?r + of_nat j)"
    if "i < unat n" "j < ?k" for i j
  proof -
    have "cached_prod ?r + of_nat i = consumer ?r + of_nat (?k + i)" by simp
    moreover have "?k + i < unat (ring_size ?r)" using n that(1) by linarith
    ultimately show ?thesis
      using pos_inject [OF inv(1), of "?k + i" j "consumer ?r"] that(2) fr
      by (auto simp: xsk_ring_prod__tx_desc_def)
  qed
  then show ?thesis using spec(2) by (auto split: if_splits)
qed



text \<open>Peeking hands over the entries in the order in which the kernel submitted them: as many as were
  asked for at most, and none only when nothing was asked for or every submitted entry is already held. The
  \<open>k\<close>-th of them is the entry number \<open>k\<close> behind those that the program released or holds.\<close>

theorem rx_peek_in_order:
  assumes "rx_reach r0 s" "xsk_ring_cons__peek (sys_ring s) nb = ((n, idx), r)"
  shows "n \<le> nb \<and> (n = 0 \<longleftrightarrow> nb = 0 \<or> producer (sys_ring s) = cached_cons (sys_ring s)) \<and>
     idx = (if n = 0 then None else Some (cached_cons (sys_ring s))) \<and>
     (\<forall>k < unat n. ring_load r (xsk_ring_cons__rx_desc r (cached_cons (sys_ring s) + of_nat k)) =
        Inr (sent s ! (length (received s) + unat (cached_cons (sys_ring s) - consumer (sys_ring s)) + k)))"
proof -
  let ?r = "sys_ring s" let ?h = "unat (cached_cons ?r - consumer ?r)"
  note inv = rx_inv_facts [OF rx_reach_inv [OF assms(1)]]
  note pk = peek_spec [OF inv(2,4) assms(2)]
  note tot = chain_total [OF inv(2,4)]
  have same: "entries r = entries ?r" "ring_mask r = ring_mask ?r" by (subst pk(2), simp)+
  have "ring_load r (xsk_ring_cons__rx_desc r (cached_cons ?r + of_nat k)) = Inr (sent s ! (length (received s) + ?h + k))"
    if k: "k < unat n" for k
  proof -
    have "unat n \<le> unat (producer ?r - cached_cons ?r)" using pk(6) by (simp add: word_le_nat_alt)
    then have lt: "?h + k < unat (producer ?r - consumer ?r)" using k tot by linarith
    have "sent s ! (length (received s) + (?h + k)) = pending ?r ! (?h + k)"
      by (simp only: inv(3) [symmetric] nth_append_length_plus)
    also have "\<dots> = entry_at ?r (consumer ?r + of_nat (?h + k))" unfolding pending_def by (rule entries_from_nth [OF lt])
    also have "consumer ?r + of_nat (?h + k) = cached_cons ?r + of_nat k" by simp
    finally have "sent s ! (length (received s) + (?h + k)) = entry_at ?r (cached_cons ?r + of_nat k)" .
    then show ?thesis
      using pos_less [OF inv(1)] same by (simp add: ring_load_def xsk_ring_cons__rx_desc_def entry_at_def add.assoc)
  qed
  then show ?thesis using pk(3-5) by blast
qed




section \<open>A run\<close>

text \<open>A ring of two entries whose counters are about to wrap around: two entries are reserved, written and
  submitted, and the kernel takes the first.\<close>

definition sample_ring :: "u64 xsk_ring" where
  "sample_ring = \<lparr>cached_prod = 4294967295, cached_cons = 1, ring_mask = 1, ring_size = 2,
     producer = 4294967295, consumer = 4294967295, entries = [0, 0], ring_flags = 0\<rparr>"

definition sample_tx :: "u64 xsk_sys" where
  "sample_tx = \<lparr>sys_ring = sample_ring\<lparr>cached_prod := 1, producer := 1, consumer := 0, entries := [200, 100]\<rparr>,
     sent = [100, 200], received = [100]\<rparr>"

lemma sample_tx_reach: "tx_reach sample_ring sample_tx"
proof -
  let ?r = sample_ring
  let ?s0 = "\<lparr>sys_ring = ?r, sent = [], received = []\<rparr>"
  have "ring_geometry ?r" by code_simp
  then have 0: "tx_reach ?r ?s0" by (rule tx_start) (simp_all add: sample_ring_def)
  let ?r1 = "?r\<lparr>cached_prod := 1\<rparr>"
  have "xsk_ring_prod__reserve ?r 2 = ((2, Some 4294967295), ?r1)" by code_simp
  then have 1: "tx_reach ?r (?s0\<lparr>sys_ring := ?r1\<rparr>)" using tx_reserve [OF 0] by simp
  let ?r2 = "?r1\<lparr>entries := [0, 100]\<rparr>"
  have "ring_store ?r1 (xsk_ring_prod__tx_desc ?r1 4294967295) 100 = Inr ?r2"
    "unat (4294967295 - producer ?r1) < unat (cached_prod ?r1 - producer ?r1)" by code_simp+
  then have 2: "tx_reach ?r (?s0\<lparr>sys_ring := ?r2\<rparr>)" using tx_write [OF 1, of 4294967295 100 ?r2] by simp
  let ?r3 = "?r1\<lparr>entries := [200, 100]\<rparr>"
  have "ring_store ?r2 (xsk_ring_prod__tx_desc ?r2 0) 200 = Inr ?r3"
    "unat (0 - producer ?r2) < unat (cached_prod ?r2 - producer ?r2)" by code_simp+
  then have 3: "tx_reach ?r (?s0\<lparr>sys_ring := ?r3\<rparr>)" using tx_write [OF 2, of 0 200 ?r3] by simp
  have "2 \<le> cached_prod ?r3 - producer ?r3" "entries_from ?r3 (producer ?r3) (unat (2 :: u32)) = [100, 200]" by code_simp+
  then have 4: "tx_reach ?r (?s0\<lparr>sys_ring := xsk_ring_prod__submit ?r3 2, sent := [100, 200]\<rparr>)"
    using tx_submit [OF 3, of 2] by simp
  let ?r4 = "xsk_ring_prod__submit ?r3 2"
  have "1 \<le> producer ?r4 - consumer ?r4" "entries_from ?r4 (consumer ?r4) (unat (1 :: u32)) = [100]" by code_simp+
  then have "tx_reach ?r (?s0\<lparr>sys_ring := ?r4\<lparr>consumer := consumer ?r4 + 1, ring_flags := 0\<rparr>,
      sent := [100, 200], received := [100]\<rparr>)"
    using tx_kernel [OF 4, of 1 0] by simp
  moreover have "?s0\<lparr>sys_ring := ?r4\<lparr>consumer := consumer ?r4 + 1, ring_flags := 0\<rparr>,
      sent := [100, 200], received := [100]\<rparr> = sample_tx" by code_simp
  ultimately show ?thesis by simp
qed

theorem tx_ring_fifo_witness:
  "received sample_tx @ entries_from (sys_ring sample_tx) (consumer (sys_ring sample_tx)) 1 = [100, 200]"
proof -
  have "unat (producer (sys_ring sample_tx) - consumer (sys_ring sample_tx)) = 1" by code_simp
  then show ?thesis using tx_ring_fifo [OF sample_tx_reach] by (simp add: sample_tx_def)
qed

theorem tx_reserve_exact_witness:
  "fst (fst (xsk_ring_prod__reserve (sys_ring sample_tx) 1)) = 1 \<and>
   fst (fst (xsk_ring_prod__reserve (sys_ring sample_tx) 2)) = 0"
proof -
  have f: "unat (ring_size (sys_ring sample_tx)) - unat (cached_prod (sys_ring sample_tx) - consumer (sys_ring sample_tx)) = 1"
    by code_simp
  obtain n i r where p: "xsk_ring_prod__reserve (sys_ring sample_tx) 1 = ((n, i), r)" by (metis surj_pair)
  obtain m j r' where q: "xsk_ring_prod__reserve (sys_ring sample_tx) 2 = ((m, j), r')" by (metis surj_pair)
  show ?thesis using tx_reserve_exact [OF sample_tx_reach p] tx_reserve_exact [OF sample_tx_reach q] p q f by simp
qed

text \<open>The kernel submits two entries to the same ring, and the program holds the first.\<close>

definition sample_rx_ring :: "u64 xsk_ring" where
  "sample_rx_ring = sample_ring\<lparr>cached_cons := 4294967295\<rparr>"

definition sample_rx :: "u64 xsk_sys" where
  "sample_rx = \<lparr>sys_ring = kernel_fill [200, 100] 2 0 sample_rx_ring, sent = [100, 200], received = []\<rparr>"

lemma sample_rx_reach: "rx_reach sample_rx_ring sample_rx"
proof -
  let ?r = sample_rx_ring
  let ?s0 = "\<lparr>sys_ring = ?r, sent = [], received = []\<rparr>"
  have "ring_geometry ?r" by code_simp
  then have 0: "rx_reach ?r ?s0" by (rule rx_start) (simp_all add: sample_rx_ring_def sample_ring_def)
  have "length [200, 100] = length (entries ?r)"
    "entries_from (?r\<lparr>entries := [200, 100]\<rparr>) (consumer ?r) (unat (producer ?r - consumer ?r)) = pending ?r"
    "unat (2 :: u32) \<le> unat (ring_size ?r) - unat (producer ?r - consumer ?r)"
    "entries_from (?r\<lparr>entries := [200, 100]\<rparr>) (producer ?r) (unat (2 :: u32)) = [100, 200]" by code_simp+
  then show ?thesis using rx_kernel [OF 0, of "[200, 100]" 2 0] by (simp add: sample_rx_def)
qed

theorem rx_peek_in_order_witness:
  "(case xsk_ring_cons__peek (sys_ring sample_rx) 1 of ((n, idx), r) \<Rightarrow> n \<le> 1 \<and> n \<noteq> 0)"
proof -
  obtain n i r where p: "xsk_ring_cons__peek (sys_ring sample_rx) 1 = ((n, i), r)" by (metis surj_pair)
  have "producer (sys_ring sample_rx) \<noteq> cached_cons (sys_ring sample_rx)" by code_simp
  then show ?thesis using rx_peek_in_order [OF sample_rx_reach p] p by simp
qed


end
