(* ===== verification/Libbpf_Linfo.thy ===== *)
theory Libbpf_Linfo
  imports Xdp_Base
begin

text \<open>
  The line information of a loaded BPF program (\<open>xdp/libbpf/src/bpf_prog_linfo.c\<close>): the table that
  the kernel hands out is copied, the records of the compiled code are divided among the functions
  of the program, and a record is looked up by instruction or by address. The table is the
  bytes of the copy, with the size of a record as the kernel gives it; a load outside is a fault. The arrays
  that are written from the front are lists that grow; memory allocation is a parameter.
\<close>

section \<open>The structures\<close>

record bpf_prog_info =
  nr_line_info :: u32
  line_info_rec_size :: u32
  line_info :: "u8 list"
  nr_jited_ksyms :: u32
  jited_line_info :: "u8 list option"
  nr_jited_line_info :: u32
  jited_line_info_rec_size :: u32
  nr_jited_func_lens :: u32
  jited_ksyms :: "u64 list option"
  jited_func_lens :: "u32 list option"

record bpf_prog_linfo =
  raw_linfo :: "u8 list"
  raw_jited_linfo :: "u8 list option"
  nr_jited_linfo_per_func :: "u32 list option"
  jited_linfo_func_idx :: "u32 list option"
  nr_linfo :: u32
  nr_jited_func :: u32
  rec_size :: u32
  jited_rec_size :: u32

lemma unat_Suc_less:
  fixes i n :: u32
  assumes "i < n"
  shows "unat (i + 1) = Suc (unat i)"
proof -
  have "unat i < unat n" using assms by (simp add: word_less_nat_alt)
  moreover have "unat n < 4294967296" by (rule less_le_trans [OF unsigned_less]) simp
  ultimately show ?thesis by (simp add: unat_word_ariths)
qed

section \<open>Dividing the records among the functions\<close>

text \<open>The loop: \<open>pos\<close> is the place of the current record, \<open>idx\<close> and \<open>per\<close> are the arrays written so
  far. \<open>None\<close> is the jump to the error.\<close>

function dissect_loop ::
  "u8 list \<Rightarrow> nat \<Rightarrow> u64 list \<Rightarrow> u32 list \<Rightarrow> u32 \<Rightarrow> u32 \<Rightarrow> nat \<Rightarrow> u32 \<Rightarrow> u32 \<Rightarrow> u32 \<Rightarrow> u32 list \<Rightarrow> u32 list \<Rightarrow>
     (u32 \<times> u32 \<times> u32 list \<times> u32 list) option res" where
  "dissect_loop R rs ksym_func ksym_len n m pos prev_i i f idx per =
     (if i < n \<and> f < m then
        rbind (ld64 R pos) (\<lambda>last_jited. rbind (ld64 R (pos + rs)) (\<lambda>jited.
        rbind (get_elem ksym_func (unat f)) (\<lambda>kf.
          if kf = jited then
            rbind (get_elem ksym_func (unat (f - 1))) (\<lambda>kp. rbind (get_elem ksym_len (unat (f - 1))) (\<lambda>kl.
              if last_jited - kp + 1 > ucast kl then Inr None
              else dissect_loop R rs ksym_func ksym_len n m (pos + rs) i (i + 1) (f + 1) (idx @ [i]) (per @ [i - prev_i])))
          else if jited \<le> last_jited then Inr None
          else dissect_loop R rs ksym_func ksym_len n m (pos + rs) prev_i (i + 1) f idx per)))
      else Inr (Some (f, prev_i, idx, per)))"
  by pat_completeness auto

termination
  by (relation "measure (\<lambda>(R, rs, kf, kl, n, m, pos, p, i, f, idx, per). unat n - unat i)")
    (auto simp: unat_Suc_less word_less_nat_alt)

declare dissect_loop.simps [simp del]

definition dissect_jited_func ::
  "u8 list \<Rightarrow> u32 \<Rightarrow> u32 \<Rightarrow> u32 \<Rightarrow> u64 list \<Rightarrow> u32 list \<Rightarrow> (u32 list \<times> u32 list) option res" where
  "dissect_jited_func R rs n m ksym_func ksym_len =
     rbind (get_elem ksym_func 0) (\<lambda>k0. rbind (ld64 R 0) (\<lambda>a0.
       if k0 \<noteq> a0 then Inr None
       else rbind (dissect_loop R (unat rs) ksym_func ksym_len n m 0 0 1 1 [0] []) (\<lambda>r.
              (case r of
                 None \<Rightarrow> Inr None
               | Some (f, prev_i, idx, per) \<Rightarrow>
                   if f \<noteq> m then Inr None else Inr (Some (idx, per @ [n - prev_i]))))))"

section \<open>Copying the tables\<close>

text \<open>The results of the five allocations, in their order. The result is NULL in the cases of
  an error.\<close>

record linfo_mem =
  m_linfo :: bool
  m_raw :: bool
  m_jited :: bool
  m_per_func :: bool
  m_func_idx :: bool

definition linfo_jited :: "linfo_mem \<Rightarrow> bpf_prog_info \<Rightarrow> bpf_prog_linfo \<Rightarrow> bpf_prog_linfo option res" where
  "linfo_jited M info L =
     (case (jited_line_info info, jited_ksyms info, jited_func_lens info) of
        (Some jli, Some ks, Some kl) \<Rightarrow>
          if nr_jited_ksyms info = 0 \<or> nr_jited_line_info info \<noteq> nr_linfo L \<or>
             jited_line_info_rec_size info < 8 \<or> nr_jited_func_lens info \<noteq> nr_jited_ksyms info
          then Inr (Some L)
          else if \<not> m_jited M then Inr None
          else rbind (ldn jli 0 (unat (nr_linfo L) * unat (jited_line_info_rec_size info))) (\<lambda>raw.
            if \<not> m_per_func M \<or> \<not> m_func_idx M then Inr None
            else rbind (dissect_jited_func raw (jited_line_info_rec_size info) (nr_linfo L) (nr_jited_ksyms info) ks kl) (\<lambda>r.
              (case r of
                 None \<Rightarrow> Inr None
               | Some (idx, per) \<Rightarrow>
                   Inr (Some (L\<lparr>nr_jited_func := nr_jited_ksyms info, jited_rec_size := jited_line_info_rec_size info,
                     raw_jited_linfo := Some raw, nr_jited_linfo_per_func := Some per, jited_linfo_func_idx := Some idx\<rparr>)))))
      | _ \<Rightarrow> Inr (Some L))"

definition bpf_prog_linfo__new :: "linfo_mem \<Rightarrow> bpf_prog_info \<Rightarrow> bpf_prog_linfo option res" where
  "bpf_prog_linfo__new M info =
     (if nr_line_info info = 0 \<or> line_info_rec_size info < 4 \<or> \<not> m_linfo M \<or> \<not> m_raw M then Inr None
      else rbind (ldn (line_info info) 0 (unat (nr_line_info info) * unat (line_info_rec_size info))) (\<lambda>raw.
        linfo_jited M info
          \<lparr>raw_linfo = raw, raw_jited_linfo = None, nr_jited_linfo_per_func = None, jited_linfo_func_idx = None,
           nr_linfo = nr_line_info info, nr_jited_func = 0, rec_size = line_info_rec_size info, jited_rec_size = 0\<rparr>))"

section \<open>Looking records up\<close>

text \<open>The loop of both lookups, at the \<open>i\<close>-th record with \<open>r\<close> records left: it stops at the first record
  that lies behind what is looked for.\<close>

fun lfind_loop :: "(nat \<Rightarrow> bool res) \<Rightarrow> nat \<Rightarrow> nat \<Rightarrow> nat res" where
  "lfind_loop behind i 0 = Inr i"
| "lfind_loop behind i (Suc r) = rbind (behind i) (\<lambda>b. if b then Inr i else lfind_loop behind (Suc i) r)"

text \<open>The result is the place of the record in the copied table.\<close>

definition bpf_prog_linfo__lfind :: "bpf_prog_linfo \<Rightarrow> u32 \<Rightarrow> u32 \<Rightarrow> nat option res" where
  "bpf_prog_linfo__lfind L insn_off nr_skip =
     (if nr_skip \<ge> nr_linfo L then Inr None
      else
        let raw = unat (nr_skip * rec_size L);
            at = (\<lambda>i. rbind (ld32 (raw_linfo L) (raw + i * unat (rec_size L))) (\<lambda>off. Inr (insn_off < off)))
        in rbind (at 0) (\<lambda>b.
             if b then Inr None
             else rbind (lfind_loop at 0 (unat (nr_linfo L - nr_skip))) (\<lambda>i.
                    Inr (Some (raw + i * unat (rec_size L) - unat (rec_size L))))))"

definition bpf_prog_linfo__lfind_addr_func :: "bpf_prog_linfo \<Rightarrow> u64 \<Rightarrow> u32 \<Rightarrow> u32 \<Rightarrow> nat option res" where
  "bpf_prog_linfo__lfind_addr_func L addr func_idx nr_skip =
     (if func_idx \<ge> nr_jited_func L then Inr None
      else (case (nr_jited_linfo_per_func L, jited_linfo_func_idx L, raw_jited_linfo L) of
        (Some per, Some idx, Some jited) \<Rightarrow>
          rbind (get_elem per (unat func_idx)) (\<lambda>nr.
            if nr_skip \<ge> nr then Inr None
            else rbind (get_elem idx (unat func_idx)) (\<lambda>i0.
              let start = i0 + nr_skip;
                  raw_jited = unat (start * jited_rec_size L);
                  raw = unat (start * rec_size L);
                  at = (\<lambda>i. rbind (ld64 jited (raw_jited + i * unat (jited_rec_size L))) (\<lambda>a. Inr (addr < a)))
              in rbind (at 0) (\<lambda>b.
                   if b then Inr None
                   else rbind (lfind_loop at 0 (unat (nr - nr_skip))) (\<lambda>i.
                          Inr (Some (raw + i * unat (rec_size L) - unat (rec_size L)))))))
      | _ \<Rightarrow> Inl NullDeref))"

text \<open>What is freed, in its order.\<close>

datatype linfo_part = Raw_Linfo | Raw_Jited_Linfo | Per_Func | Func_Idx | Prog_Linfo

definition bpf_prog_linfo__free :: "bpf_prog_linfo option \<Rightarrow> linfo_part list" where
  "bpf_prog_linfo__free L =
     (case L of
        None \<Rightarrow> []
      | Some L \<Rightarrow>
          [Raw_Linfo] @ (if raw_jited_linfo L \<noteq> None then [Raw_Jited_Linfo] else []) @
          (if nr_jited_linfo_per_func L \<noteq> None then [Per_Func] else []) @
          (if jited_linfo_func_idx L \<noteq> None then [Func_Idx] else []) @ [Prog_Linfo])"

section \<open>The loops\<close>

lemma lfind_loop_eq:
  assumes "\<And>k. i \<le> k \<Longrightarrow> k < i + r \<Longrightarrow> behind k = Inr (b k)"
  shows "lfind_loop behind i r = Inr (i + length (takeWhile (\<lambda>k. \<not> b k) [i..<i + r]))"
  using assms
proof (induction r arbitrary: i)
  case (Suc r)
  have "[i..<i + Suc r] = i # [Suc i..<Suc i + r]" by (simp add: upt_rec)
  moreover have "lfind_loop behind (Suc i) r = Inr (Suc i + length (takeWhile (\<lambda>k. \<not> b k) [Suc i..<Suc i + r]))"
    using Suc.prems by (intro Suc.IH) simp
  ultimately show ?case using Suc.prems [of i] by simp
qed simp


lemma lfind_loop_stop:
  assumes "\<And>k. k < r \<Longrightarrow> behind k = Inr (b k)"
  obtains i where "lfind_loop behind 0 r = Inr i" "i \<le> r" "\<And>k. k < i \<Longrightarrow> \<not> b k" "i < r \<Longrightarrow> b i"
proof
  let ?i = "length (takeWhile (\<lambda>k. \<not> b k) [0..<r])"
  show "lfind_loop behind 0 r = Inr ?i" using lfind_loop_eq [of 0 r behind b] assms by simp
  show le: "?i \<le> r" by (metis length_takeWhile_le length_upt diff_zero)
  show "\<not> b k" if "k < ?i" for k
    using nth_mem [OF that] takeWhile_nth [OF that] that le by (auto dest: set_takeWhileD)
  show "b ?i" if "?i < r" using nth_length_takeWhile [of "\<lambda>k. \<not> b k" "[0..<r]"] that by simp
qed

text \<open>The result of the division up to the record \<open>i\<close>.\<close>

definition part :: "u64 list \<Rightarrow> u64 list \<Rightarrow> u32 list \<Rightarrow> nat \<Rightarrow> u32 list \<Rightarrow> u32 list \<Rightarrow> bool" where
  "part A ksym len i idx per \<longleftrightarrow>
     length idx = Suc (length per) \<and> idx ! 0 = 0 \<and> sorted_wrt (<) idx \<and>
     (\<forall>x \<in> set idx. unat x < i) \<and>
     (\<forall>f < length idx. f < length ksym \<and> A ! unat (idx ! f) = ksym ! f) \<and>
     (\<forall>f < length per. per ! f = idx ! Suc f - idx ! f \<and>
        f < length len \<and> A ! (unat (idx ! Suc f) - 1) - ksym ! f + 1 \<le> ucast (len ! f)) \<and>
     (\<forall>k. 0 < k \<and> k < i \<and> word_of_nat k \<notin> set idx \<longrightarrow> A ! (k - 1) < A ! k)"

lemma part_start: "0 < length ksym \<Longrightarrow> A ! 0 = ksym ! 0 \<Longrightarrow> part A ksym len 1 [0] []"
  unfolding part_def by auto

lemma part_next:
  assumes "part A ksym len (unat i) idx per" "A ! (unat i - 1) < A ! unat i"
  shows "part A ksym len (Suc (unat i)) idx per"
  using assms by (auto simp: part_def less_Suc_eq)

lemma part_found:
  assumes P: "part A ksym len (unat i) idx per" and len: "length idx < length ksym" "length per < length len"
    and A: "A ! unat i = ksym ! length idx" "A ! (unat i - 1) - ksym ! (length idx - 1) + 1 \<le> ucast (len ! (length idx - 1))"
  shows "part A ksym len (Suc (unat i)) (idx @ [i]) (per @ [i - last idx])"
proof -
  have l: "length idx = Suc (length per)" "idx \<noteq> []" using P by (auto simp: part_def)
  have "sorted_wrt (<) (idx @ [i])" using P by (auto simp: part_def sorted_wrt_append word_less_nat_alt)
  moreover have "last idx = idx ! length per" using l by (simp add: last_conv_nth)
  ultimately show ?thesis
    using P len A l unfolding part_def
    by (auto simp: nth_append less_Suc_eq)
qed


text \<open>The addresses of the records.\<close>

definition addrs :: "u8 list \<Rightarrow> nat \<Rightarrow> nat \<Rightarrow> u64 list" where
  "addrs R rs n = map (\<lambda>k. case ld64 R (k * rs) of Inl _ \<Rightarrow> 0 | Inr a \<Rightarrow> a) [0..<n]"

lemma ld64_in:
  "i + 8 \<le> length m \<Longrightarrow> \<exists>a. ld64 m i = Inr a"
  by (simp add: ld64_def ld32_def ldn_def)

lemma addrs_ld:
  assumes "n * rs \<le> length R" "8 \<le> rs" "k < n"
  shows "ld64 R (k * rs) = Inr (addrs R rs n ! k)"
proof -
  have "Suc k * rs \<le> n * rs" using assms(3) by (intro mult_le_mono1) simp
  then obtain a where "ld64 R (k * rs) = Inr a" using ld64_in [of "k * rs" R] assms(1,2) by auto
  then show ?thesis using assms(3) by (simp add: addrs_def)
qed

definition loop_ok :: "u64 list \<Rightarrow> u64 list \<Rightarrow> u32 list \<Rightarrow> u32 \<Rightarrow> u32 \<Rightarrow> (u32 \<times> u32 \<times> u32 list \<times> u32 list) option res \<Rightarrow> bool" where
  "loop_ok A ksym len n m r \<longleftrightarrow>
     (case r of
        Inl e \<Rightarrow> False
      | Inr None \<Rightarrow> True
      | Inr (Some (f, p, idx, per)) \<Rightarrow>
          (\<exists>i \<le> n. part A ksym len (unat i) idx per \<and> unat f = length idx \<and> p = last idx \<and>
             (unat f < unat m \<longrightarrow> i = n)))"

lemma dissect_loop_part:
  assumes "unat n * rs \<le> length R" "8 \<le> rs" "A = addrs R rs (unat n)"
    and "unat m \<le> length ksym" "unat m \<le> length len"
  shows "\<lbrakk>part A ksym len (unat i) idx per; unat f = length idx; prev_i = last idx; pos = (unat i - 1) * rs;
      0 < i; i \<le> n\<rbrakk> \<Longrightarrow>
    loop_ok A ksym len n m (dissect_loop R rs ksym len n m pos prev_i i f idx per)"
proof (induction "unat n - unat i" arbitrary: pos prev_i i f idx per rule: less_induct)
  case less
  note P = less.prems
  let ?i = "unat i"
  show ?case
  proof (cases "i < n \<and> f < m")
    case False
    then have "unat f < unat m \<longrightarrow> i = n" using P(6) by (auto simp: word_less_nat_alt [symmetric])
    then show ?thesis using False P
      by (subst dissect_loop.simps) (simp add: loop_ok_def, blast)
  next
    case True
    have i: "0 < ?i" "?i < unat n" "unat f < unat m" using P(5) True
      by (auto simp: word_less_nat_alt unat_gt_0)
    have pos: "pos + rs = ?i * rs" using P(4) i(1) by (cases ?i) simp_all
    have l1: "ld64 R pos = Inr (A ! (?i - 1))" and l2: "ld64 R (pos + rs) = Inr (A ! ?i)"
      using addrs_ld [OF assms(1,2)] i assms(3) P(4) pos by auto
    have idx: "length idx = Suc (length per)" using P(1) by (simp add: part_def)
    have f1: "unat (f - 1) = length per" using P(2) idx
      by (simp add: unat_sub word_le_nat_alt)
    have g: "get_elem ksym (unat f) = Inr (ksym ! length idx)"
      "get_elem ksym (unat (f - 1)) = Inr (ksym ! length per)" "get_elem len (unat (f - 1)) = Inr (len ! length per)"
      using P(2) assms(4,5) f1 idx i(3) by (simp_all add: get_elem_def)
    have i1: "unat (i + 1) = Suc ?i" "unat (f + 1) = Suc (unat f)" "0 < i + 1" "i + 1 \<le> n"
      using unat_Suc_less [of i n] unat_Suc_less [of f m] True i by (auto simp: word_less_nat_alt word_le_nat_alt unat_gt_0)
    have dec: "unat n - unat (i + 1) < unat n - ?i" using i i1 by simp
    let ?found = "dissect_loop R rs ksym len n m (pos + rs) i (i + 1) (f + 1) (idx @ [i]) (per @ [i - prev_i])"
    let ?next = "dissect_loop R rs ksym len n m (pos + rs) prev_i (i + 1) f idx per"
    have step: "dissect_loop R rs ksym len n m pos prev_i i f idx per =
        (if ksym ! length idx = A ! ?i then
           if A ! (?i - 1) - ksym ! length per + 1 > ucast (len ! length per) then Inr None else ?found
         else if A ! ?i \<le> A ! (?i - 1) then Inr None else ?next)"
      using True l1 l2 g by (subst dissect_loop.simps) simp
    have "loop_ok A ksym len n m ?found"
      if "ksym ! length idx = A ! ?i" "\<not> A ! (?i - 1) - ksym ! length per + 1 > ucast (len ! length per)"
    proof (rule less.hyps [OF dec])
      show "part A ksym len (unat (i + 1)) (idx @ [i]) (per @ [i - prev_i])"
        using part_found [OF P(1)] that idx P(2,3) i assms(4,5) i1(1) by (simp add: not_less)
    qed (use i1 P(2) pos in simp_all)
    moreover have "loop_ok A ksym len n m ?next" if "\<not> A ! ?i \<le> A ! (?i - 1)"
    proof (rule less.hyps [OF dec])
      show "part A ksym len (unat (i + 1)) idx per" using part_next [OF P(1)] that i1(1) by simp
    qed (use i1 P(2,3) pos in simp_all)
    ultimately show ?thesis unfolding step by (simp add: loop_ok_def)
  qed
qed

text \<open>What holds of the copied tables.\<close>

definition linfo_wf :: "bpf_prog_linfo \<Rightarrow> bool" where
  "linfo_wf L \<longleftrightarrow> 4 \<le> rec_size L \<and> length (raw_linfo L) = unat (nr_linfo L) * unat (rec_size L) \<and>
     (nr_jited_func L \<noteq> 0 \<longrightarrow>
       (case (raw_jited_linfo L, jited_linfo_func_idx L, nr_jited_linfo_per_func L) of
          (Some R, Some idx, Some per) \<Rightarrow>
            8 \<le> jited_rec_size L \<and> length R = unat (nr_linfo L) * unat (jited_rec_size L) \<and>
            length idx = unat (nr_jited_func L) \<and> length per = unat (nr_jited_func L) \<and>
            (\<forall>f < unat (nr_jited_func L). unat (idx ! f) + unat (per ! f) \<le> unat (nr_linfo L))
        | _ \<Rightarrow> False))"

text \<open>What the kernel promises about the tables that it hands out.\<close>

definition info_ok :: "bpf_prog_info \<Rightarrow> bool" where
  "info_ok info \<longleftrightarrow>
     length (line_info info) = unat (nr_line_info info) * unat (line_info_rec_size info) \<and>
     (\<forall>t \<in> set_option (jited_line_info info).
        length t = unat (nr_jited_line_info info) * unat (jited_line_info_rec_size info)) \<and>
     (\<forall>k \<in> set_option (jited_ksyms info). length k = unat (nr_jited_ksyms info)) \<and>
     (\<forall>l \<in> set_option (jited_func_lens info). length l = unat (nr_jited_func_lens info))"

lemma dissect_spec:
  assumes R: "unat n * unat rs \<le> length R" "8 \<le> rs" and A: "A = addrs R (unat rs) (unat n)"
    and m: "unat m \<le> length ksym" "unat m \<le> length len" "0 < m" and n: "0 < n"
  shows "\<exists>r. dissect_jited_func R rs n m ksym len = Inr r \<and>
    (\<forall>idx per. r = Some (idx, per) \<longrightarrow>
      (\<exists>i per' p. i \<le> unat n \<and> per = per' @ [n - last idx] \<and> part A ksym len i idx per' \<and> length idx = unat m))"
proof -
  have rs: "8 \<le> unat rs" using R(2) by (simp add: word_le_nat_alt)
  have pos: "0 < unat n" "0 < unat m" "1 \<le> n" using n m(3) by (simp_all add: word_less_nat_alt word_le_nat_alt)
  have k0: "get_elem ksym 0 = Inr (ksym ! 0)" using m(1) pos(2) by (auto simp: get_elem_def)
  have a0: "ld64 R 0 = Inr (A ! 0)" using addrs_ld [OF R(1) rs pos(1)] A by simp
  show ?thesis
  proof (cases "ksym ! 0 = A ! 0")
    case False
    then show ?thesis using k0 a0 by (simp add: dissect_jited_func_def)
  next
    case True
    have "0 < length ksym" using m(1) pos(2) by linarith
    then have "part A ksym len (unat (1 :: u32)) [0] []" using part_start [of ksym A len] True by simp
    then have "loop_ok A ksym len n m (dissect_loop R (unat rs) ksym len n m 0 0 1 1 [0] [])"
      using dissect_loop_part [OF R(1) rs A m(1,2), of 1 "[0]" "[]" 1 0 0] pos(3) by simp
    then show ?thesis using k0 a0 True
      by (auto simp: dissect_jited_func_def loop_ok_def word_le_nat_alt split: sum.splits option.splits)
  qed
qed

lemma part_counts:
  assumes P: "part A ksym len i idx per" and n: "i \<le> unat n" and f: "f < length idx"
  shows "unat (idx ! f) + unat ((per @ [n - last idx]) ! f) =
    (if Suc f < length idx then unat (idx ! Suc f) else unat n)"
proof -
  have l: "length idx = Suc (length per)" "idx \<noteq> []" using P by (auto simp: part_def)
  show ?thesis
  proof (cases "Suc f < length idx")
    case True
    then have "idx ! f < idx ! Suc f" using P by (auto simp: part_def intro: sorted_wrt_nth_less)
    then have "unat (idx ! Suc f - idx ! f) = unat (idx ! Suc f) - unat (idx ! f)" "unat (idx ! f) \<le> unat (idx ! Suc f)"
      by (auto simp: unat_sub word_less_nat_alt word_le_nat_alt)
    then show ?thesis using P True l by (simp add: part_def nth_append)
  next
    case False
    then have f: "f = length per" using f l by simp
    then have "last idx = idx ! f" using l by (simp add: last_conv_nth)
    moreover have "unat (idx ! f) < i" using P f l by (auto simp: part_def)
    then have "unat (n - idx ! f) = unat n - unat (idx ! f)" using n by (simp add: unat_sub word_le_nat_alt)
    ultimately show ?thesis using f l n \<open>unat (idx ! f) < i\<close> by (simp add: nth_append)
  qed
qed

lemma part_le:
  assumes "part A ksym len i idx per" "i \<le> unat n" "f < length idx"
  shows "unat (idx ! f) + unat ((per @ [n - last idx]) ! f) \<le> unat n"
proof (cases "Suc f < length idx")
  case True
  then have "unat (idx ! Suc f) < i" using assms(1) by (simp add: part_def)
  then show ?thesis using part_counts [OF assms] assms(2) True by simp
qed (use part_counts [OF assms] in simp)

lemma unat_pos: "w \<noteq> 0 \<Longrightarrow> 0 < (w :: u32)"
  by (simp add: word_gt_0)

lemma linfo_jited_wf:
  assumes I: "info_ok info" and L: "4 \<le> rec_size L" "length (raw_linfo L) = unat (nr_linfo L) * unat (rec_size L)"
    "nr_jited_func L = 0" "nr_linfo L \<noteq> 0"
  shows "\<exists>r. linfo_jited M info L = Inr r \<and> (\<forall>L'. r = Some L' \<longrightarrow>
    linfo_wf L' \<and> raw_linfo L' = raw_linfo L \<and> nr_linfo L' = nr_linfo L \<and> rec_size L' = rec_size L)"
proof (cases "\<exists>R ks kl. jited_line_info info = Some R \<and> jited_ksyms info = Some ks \<and> jited_func_lens info = Some kl \<and>
    \<not> (nr_jited_ksyms info = 0 \<or> nr_jited_line_info info \<noteq> nr_linfo L \<or>
       jited_line_info_rec_size info < 8 \<or> nr_jited_func_lens info \<noteq> nr_jited_ksyms info)")
  case False
  moreover have "linfo_wf L" using L by (simp add: linfo_wf_def)
  ultimately show ?thesis using L(3) by (auto simp: linfo_jited_def split: option.splits)
next
  case True
  then obtain R ks kl where o: "jited_line_info info = Some R" "jited_ksyms info = Some ks" "jited_func_lens info = Some kl"
    and c: "nr_jited_ksyms info \<noteq> 0" "nr_jited_line_info info = nr_linfo L" "8 \<le> jited_line_info_rec_size info"
      "nr_jited_func_lens info = nr_jited_ksyms info" by (auto simp: not_less)
  let ?m = "nr_jited_ksyms info" let ?rs = "jited_line_info_rec_size info"
  have len: "length R = unat (nr_linfo L) * unat ?rs" "length ks = unat ?m" "length kl = unat ?m"
    using I o c by (auto simp: info_ok_def)
  obtain r where r: "dissect_jited_func R ?rs (nr_linfo L) ?m ks kl = Inr r"
    and rr: "\<And>idx per. r = Some (idx, per) \<Longrightarrow> \<exists>i per' p. i \<le> unat (nr_linfo L) \<and> per = per' @ [nr_linfo L - last idx] \<and>
        part (addrs R (unat ?rs) (unat (nr_linfo L))) ks kl i idx per' \<and> length idx = unat ?m"
    using dissect_spec [of "nr_linfo L" ?rs R _ ?m ks kl] len c(1,3) L(4) by (metis order_refl unat_pos)
  have wf: "linfo_wf (L\<lparr>nr_jited_func := ?m, jited_rec_size := ?rs, raw_jited_linfo := Some R,
      nr_jited_linfo_per_func := Some per, jited_linfo_func_idx := Some idx\<rparr>)" if s: "r = Some (idx, per)" for idx per
  proof -
    obtain i per' where d: "i \<le> unat (nr_linfo L)" "per = per' @ [nr_linfo L - last idx]"
      "part (addrs R (unat ?rs) (unat (nr_linfo L))) ks kl i idx per'" "length idx = unat ?m" using rr [OF s] by blast
    have "length per = unat ?m" using d by (simp add: part_def)
    moreover have "unat (idx ! f) + unat (per ! f) \<le> unat (nr_linfo L)" if "f < unat ?m" for f
      using part_le [OF d(3,1), of f] that d(2,4) by simp
    ultimately show ?thesis using L len c(3) d(4) by (simp add: linfo_wf_def)
  qed
  have "linfo_jited M info L = (if \<not> m_jited M \<or> \<not> m_per_func M \<or> \<not> m_func_idx M then Inr None
    else case r of None \<Rightarrow> Inr None
      | Some (idx, per) \<Rightarrow> Inr (Some (L\<lparr>nr_jited_func := ?m, jited_rec_size := ?rs, raw_jited_linfo := Some R,
          nr_jited_linfo_per_func := Some per, jited_linfo_func_idx := Some idx\<rparr>)))"
    using o c r len by (simp add: linfo_jited_def ldn_def not_less [symmetric])
  then show ?thesis using wf by (auto split: option.splits)
qed

lemma linfo_new_wf:
  assumes "info_ok info"
  shows "\<exists>r. bpf_prog_linfo__new M info = Inr r \<and> (\<forall>L. r = Some L \<longrightarrow> linfo_wf L)"
proof (cases "nr_line_info info = 0 \<or> line_info_rec_size info < 4 \<or> \<not> m_linfo M \<or> \<not> m_raw M")
  case True
  then show ?thesis by (simp add: bpf_prog_linfo__new_def)
next
  case False
  let ?L = "\<lparr>raw_linfo = line_info info, raw_jited_linfo = None, nr_jited_linfo_per_func = None, jited_linfo_func_idx = None,
     nr_linfo = nr_line_info info, nr_jited_func = 0, rec_size = line_info_rec_size info, jited_rec_size = 0\<rparr>"
  have "length (line_info info) = unat (nr_line_info info) * unat (line_info_rec_size info)"
    using assms by (simp add: info_ok_def)
  then show ?thesis using False linfo_jited_wf [OF assms, of ?L M]
    by (auto simp: bpf_prog_linfo__new_def ldn_def not_less)
qed


section \<open>Properties\<close>

text \<open>The two parts of a lookup: \<open>k\<close> is the last of \<open>r\<close> records that is not behind, up to the first one that is.\<close>

definition last_upto :: "(nat \<Rightarrow> bool) \<Rightarrow> nat \<Rightarrow> nat \<Rightarrow> bool" where
  "last_upto behind r k \<longleftrightarrow> k < r \<and> (\<forall>j \<le> k. \<not> behind j) \<and> (Suc k < r \<longrightarrow> behind (Suc k))"

lemma lookup_spec:
  assumes at: "\<And>k. k < r \<Longrightarrow> at k = Inr (b k)" and r: "0 < r"
  shows "(b 0 \<and> rbind (at 0) (\<lambda>x. if x then Inr None else rbind (lfind_loop at 0 r) (\<lambda>i. Inr (Some (raw + i * rs - rs)))) = Inr None) \<or>
    (\<exists>k. last_upto b r k \<and>
       rbind (at 0) (\<lambda>x. if x then Inr None else rbind (lfind_loop at 0 r) (\<lambda>i. Inr (Some (raw + i * rs - rs)))) =
         Inr (Some (raw + k * rs)))"
proof (cases "b 0")
  case False
  obtain i where i: "lfind_loop at 0 r = Inr i" "i \<le> r" "\<And>k. k < i \<Longrightarrow> \<not> b k" "i < r \<Longrightarrow> b i"
    using lfind_loop_stop [of r at b] at by blast
  obtain k where k: "i = Suc k" using i(4) r False by (cases i) auto
  have "last_upto b r k" using i k by (auto simp: last_upto_def less_Suc_eq_le)
  then show ?thesis using at [OF r] False i(1) k by auto
qed (use at [OF r] in simp)

lemma unat_mult_small: "unat a * unat b < 4294967296 \<Longrightarrow> unat (a * b :: u32) = unat a * unat b"
  by (simp add: unat_word_ariths)

definition insn_off :: "bpf_prog_linfo \<Rightarrow> nat \<Rightarrow> u32" where
  "insn_off L k = (case ld32 (raw_linfo L) (k * unat (rec_size L)) of Inl _ \<Rightarrow> 0 | Inr w \<Rightarrow> w)"

definition jited_addr :: "bpf_prog_linfo \<Rightarrow> nat \<Rightarrow> u64" where
  "jited_addr L k = (case raw_jited_linfo L of None \<Rightarrow> 0
     | Some R \<Rightarrow> (case ld64 R (k * unat (jited_rec_size L)) of Inl _ \<Rightarrow> 0 | Inr a \<Rightarrow> a))"

lemma ld32_in: "i + 4 \<le> length m \<Longrightarrow> \<exists>w. ld32 m i = Inr w"
  by (simp add: ld32_def ldn_def)

text \<open>Looking a record up by instruction never reads outside of the copied table, and gives the last
  record, from the number \<open>nr_skip\<close> on, that is not behind the instruction, or NULL when there is none:
  the records in between are not behind it, and the next one is. This holds for tables of less
  than 4 GiB.\<close>

theorem lfind_last:
  assumes "linfo_wf L" "length (raw_linfo L) < 4294967296"
  shows "if nr_linfo L \<le> nr_skip \<or> off < insn_off L (unat nr_skip)
     then bpf_prog_linfo__lfind L off nr_skip = Inr None
     else \<exists>k. last_upto (\<lambda>j. off < insn_off L (unat nr_skip + j)) (unat (nr_linfo L) - unat nr_skip) k \<and>
       bpf_prog_linfo__lfind L off nr_skip = Inr (Some ((unat nr_skip + k) * unat (rec_size L)))"
proof (cases "nr_linfo L \<le> nr_skip")
  case True
  then show ?thesis by (simp add: bpf_prog_linfo__lfind_def)
next
  case False
  let ?n = "unat (nr_linfo L)" let ?s = "unat nr_skip" let ?rs = "unat (rec_size L)"
  let ?b = "\<lambda>j. off < insn_off L (?s + j)"
  let ?at = "\<lambda>i. rbind (ld32 (raw_linfo L) (?s * ?rs + i * ?rs)) (\<lambda>w. Inr (off < w))"
  have sn: "?s < ?n" using False by (simp add: word_less_nat_alt word_le_nat_alt not_le)
  have wf: "length (raw_linfo L) = ?n * ?rs" "4 \<le> ?rs" using assms(1) by (simp_all add: linfo_wf_def word_le_nat_alt)
  have "?s * ?rs \<le> ?n * ?rs" using sn by (intro mult_le_mono1) simp
  then have "?s * ?rs < 4294967296" using assms(2) wf(1) by linarith
  then have raw: "unat (nr_skip * rec_size L) = ?s * ?rs" by (rule unat_mult_small)
  have r: "unat (nr_linfo L - nr_skip) = ?n - ?s" "0 < ?n - ?s" using sn by (simp_all add: unat_sub word_le_nat_alt)
  have at: "?at j = Inr (?b j)" if "j < ?n - ?s" for j
  proof -
    have "Suc (?s + j) * ?rs \<le> ?n * ?rs" using that by (intro mult_le_mono1) simp
    then have "(?s + j) * ?rs + 4 \<le> length (raw_linfo L)" using wf by simp
    then obtain w where "ld32 (raw_linfo L) ((?s + j) * ?rs) = Inr w" using ld32_in by blast
    then show ?thesis by (simp add: insn_off_def add_mult_distrib)
  qed
  have eq: "bpf_prog_linfo__lfind L off nr_skip =
    rbind (?at 0) (\<lambda>x. if x then Inr None else rbind (lfind_loop ?at 0 (?n - ?s)) (\<lambda>i. Inr (Some (?s * ?rs + i * ?rs - ?rs))))"
    using False raw r(1) by (simp add: bpf_prog_linfo__lfind_def Let_def cong: if_cong split del: if_split)
  show ?thesis
    using lookup_spec [of "?n - ?s" ?at ?b "?s * ?rs" ?rs, OF at r(2)] False
    unfolding eq by (auto simp: add_mult_distrib last_upto_def)
qed

text \<open>Looking a record up by address never reads outside of the tables, and gives the last record of the
  function, from the number \<open>nr_skip\<close> on, whose address is not greater, or NULL when there is none.\<close>

theorem lfind_addr_last:
  assumes "linfo_wf L" "length (raw_linfo L) < 4294967296"
    "unat (nr_linfo L) * unat (jited_rec_size L) < 4294967296" "func_idx < nr_jited_func L"
  shows "\<exists>start nr. start + nr \<le> unat (nr_linfo L) \<and>
     jited_linfo_func_idx L \<noteq> None \<and> start = unat (the (jited_linfo_func_idx L) ! unat func_idx) \<and>
     nr = unat (the (nr_jited_linfo_per_func L) ! unat func_idx) \<and>
     (if nr \<le> unat nr_skip \<or> addr < jited_addr L (start + unat nr_skip)
      then bpf_prog_linfo__lfind_addr_func L addr func_idx nr_skip = Inr None
      else \<exists>k. last_upto (\<lambda>j. addr < jited_addr L (start + unat nr_skip + j)) (nr - unat nr_skip) k \<and>
        bpf_prog_linfo__lfind_addr_func L addr func_idx nr_skip =
          Inr (Some ((start + unat nr_skip + k) * unat (rec_size L))))"
proof -
  let ?f = "unat func_idx" let ?n = "unat (nr_linfo L)" let ?s = "unat nr_skip"
  let ?rs = "unat (rec_size L)" let ?js = "unat (jited_rec_size L)"
  have "nr_jited_func L \<noteq> 0" using assms(4) by auto
  then obtain R idx per where o: "raw_jited_linfo L = Some R" "jited_linfo_func_idx L = Some idx"
      "nr_jited_linfo_per_func L = Some per"
    and wf: "8 \<le> ?js" "length R = ?n * ?js" "length idx = unat (nr_jited_func L)" "length per = unat (nr_jited_func L)"
      "\<forall>f < unat (nr_jited_func L). unat (idx ! f) + unat (per ! f) \<le> ?n"
      "length (raw_linfo L) = ?n * ?rs"
    using assms(1) by (auto simp: linfo_wf_def word_le_nat_alt split: option.splits)
  have f: "?f < length idx" "?f < length per" using assms(4) wf by (simp_all add: word_less_nat_alt)
  let ?st = "unat (idx ! ?f)" let ?nr = "unat (per ! ?f)"
  have sum: "?st + ?nr \<le> ?n" using wf(3,5) f(1) by simp
  have g: "get_elem per ?f = Inr (per ! ?f)" "get_elem idx ?f = Inr (idx ! ?f)" using f by (simp_all add: get_elem_def)
  show ?thesis
  proof (cases "per ! ?f \<le> nr_skip")
    case True
    then show ?thesis using o g sum assms(4)
      by (auto simp: bpf_prog_linfo__lfind_addr_func_def not_le [symmetric] word_le_nat_alt)
  next
    case False
    then have sn: "?s < ?nr" by (simp add: word_le_nat_alt not_le)
    let ?b = "\<lambda>j. addr < jited_addr L (?st + ?s + j)"
    let ?at = "\<lambda>i. rbind (ld64 R ((?st + ?s) * ?js + i * ?js)) (\<lambda>a. Inr (addr < a))"
    have "?n < 4294967296" by (rule less_le_trans [OF unsigned_less]) simp
    then have st: "unat (idx ! ?f + nr_skip) = ?st + ?s" using sum sn by (simp add: unat_word_ariths)
    have le: "(?st + ?s) * ?js \<le> ?n * ?js" "(?st + ?s) * ?rs \<le> ?n * ?rs" using sum sn by (auto intro: mult_le_mono1)
    have raw: "unat ((idx ! ?f + nr_skip) * jited_rec_size L) = (?st + ?s) * ?js"
      "unat ((idx ! ?f + nr_skip) * rec_size L) = (?st + ?s) * ?rs"
      by (subst unat_mult_small; use le assms(2,3) wf(6) in \<open>unfold st, linarith | simp add: st\<close>)+
    have r: "unat (per ! ?f - nr_skip) = ?nr - ?s" "0 < ?nr - ?s" using sn by (simp_all add: unat_sub word_le_nat_alt)
    have at: "?at j = Inr (?b j)" if "j < ?nr - ?s" for j
    proof -
      have "Suc (?st + ?s + j) * ?js \<le> ?n * ?js" using that sum by (intro mult_le_mono1) simp
      then have "(?st + ?s + j) * ?js + 8 \<le> length R" using wf by simp
      then obtain a where "ld64 R ((?st + ?s + j) * ?js) = Inr a" using ld64_in by blast
      then show ?thesis using o by (simp add: jited_addr_def add_mult_distrib)
    qed
    have eq: "bpf_prog_linfo__lfind_addr_func L addr func_idx nr_skip =
      rbind (?at 0) (\<lambda>x. if x then Inr None else rbind (lfind_loop ?at 0 (?nr - ?s)) (\<lambda>i. Inr (Some ((?st + ?s) * ?rs + i * ?rs - ?rs))))"
      using o g False assms(4) [folded not_le] raw r(1)
      by (simp add: bpf_prog_linfo__lfind_addr_func_def Let_def cong: if_cong split del: if_split del: not_le)
    show ?thesis
      using lookup_spec [of "?nr - ?s" ?at ?b "(?st + ?s) * ?rs" ?rs, OF at r(2)] sn o sum
      unfolding eq by (auto simp: last_upto_def add_mult_distrib)
  qed
qed



text \<open>The tables that \<open>bpf_prog_linfo__new\<close> returns are well formed, and it reads nothing outside of the tables
  of the kernel; each function has a range of records inside the table.\<close>

theorem linfo_new_safe:
  assumes "info_ok info"
  shows "\<exists>r. bpf_prog_linfo__new M info = Inr r \<and> (r = None \<or> linfo_wf (the r))"
  using linfo_new_wf [OF assms, of M] by (metis option.collapse)

text \<open>Dividing the records: when it succeeds, every function begins at the record with its address, the
  ranges of the functions follow each other without gaps from the first record to the last, and inside the
  range of a function that is not the last the addresses increase and stay below its length.\<close>

theorem dissect_divides:
  assumes "unat n * unat rs \<le> length R" "8 \<le> rs" "unat m \<le> length ksym" "unat m \<le> length len" "0 < m" "0 < n"
    and "dissect_jited_func R rs n m ksym len = Inr (Some (idx, per))"
  shows "length idx = unat m \<and> length per = unat m \<and> idx ! 0 = 0 \<and>
    (\<forall>f < unat m. addrs R (unat rs) (unat n) ! unat (idx ! f) = ksym ! f \<and>
       unat (idx ! f) + unat (per ! f) = (if Suc f < unat m then unat (idx ! Suc f) else unat n)) \<and>
    (\<forall>f. Suc f < unat m \<longrightarrow>
       addrs R (unat rs) (unat n) ! (unat (idx ! Suc f) - 1) - ksym ! f + 1 \<le> ucast (len ! f)) \<and>
    (\<forall>k. 0 < k \<and> k < unat (last idx) \<and> word_of_nat k \<notin> set idx \<longrightarrow>
       addrs R (unat rs) (unat n) ! (k - 1) < addrs R (unat rs) (unat n) ! k)"
proof -
  let ?A = "addrs R (unat rs) (unat n)"
  obtain i per' where d: "i \<le> unat n" "per = per' @ [n - last idx]" "part ?A ksym len i idx per'" "length idx = unat m"
    using dissect_spec [OF assms(1,2) refl assms(3-6)] assms(7) by auto
  have l: "length idx = Suc (length per')" "idx \<noteq> []" using d(3) by (auto simp: part_def)
  have "unat (idx ! f) + unat (per ! f) = (if Suc f < unat m then unat (idx ! Suc f) else unat n)" if "f < unat m" for f
    using part_counts [OF d(3,1), of f] that d(2,4) by simp
  moreover have "\<forall>k. 0 < k \<and> k < unat (last idx) \<and> word_of_nat k \<notin> set idx \<longrightarrow> ?A ! (k - 1) < ?A ! k"
  proof -
    have "unat (last idx) < i" using d(3) l by (simp add: part_def)
    then show ?thesis using d(3) unfolding part_def by (meson less_trans)
  qed
  ultimately show ?thesis using d l by (auto simp: part_def)
qed

text \<open>The check that the addresses increase inside a function stops when the last function is found: for a
  program with a single function any order of its addresses is accepted.\<close>

theorem last_function_unchecked:
  assumes "ld64 R 0 = Inr (ksym ! 0)" "ksym \<noteq> []"
  shows "dissect_jited_func R rs n 1 ksym len = Inr (Some ([0], [n]))"
  using assms by (simp add: dissect_jited_func_def get_elem_def dissect_loop.simps)

section \<open>Concrete runs\<close>

text \<open>A program of two functions with three records each: of eight bytes in the table of the
  instructions, and of eight in the table of the addresses.\<close>

definition bytes64 :: "u64 \<Rightarrow> u8 list" where
  "bytes64 w = bytes32 (ucast w) @ bytes32 (ucast (drop_bit 32 w))"

definition sample_info :: bpf_prog_info where
  "sample_info = \<lparr>nr_line_info = 4, line_info_rec_size = 8,
     line_info = concat (map (\<lambda>w. bytes32 w @ bytes32 0) [0, 3, 5, 9]),
     nr_jited_ksyms = 2, jited_line_info = Some (concat (map bytes64 [100, 108, 200, 220])),
     nr_jited_line_info = 4, jited_line_info_rec_size = 8, nr_jited_func_lens = 2,
     jited_ksyms = Some [100, 200], jited_func_lens = Some [20, 40]\<rparr>"

definition enough_memory :: linfo_mem where
  "enough_memory = \<lparr>m_linfo = True, m_raw = True, m_jited = True, m_per_func = True, m_func_idx = True\<rparr>"

definition sample_linfo :: bpf_prog_linfo where
  "sample_linfo = \<lparr>raw_linfo = line_info sample_info, raw_jited_linfo = jited_line_info sample_info,
     nr_jited_linfo_per_func = Some [2, 2], jited_linfo_func_idx = Some [0, 2], nr_linfo = 4, nr_jited_func = 2,
     rec_size = 8, jited_rec_size = 8\<rparr>"

lemma sample_new: "bpf_prog_linfo__new enough_memory sample_info = Inr (Some sample_linfo)"
  by code_simp

lemma sample_info_ok: "info_ok sample_info"
  by code_simp

lemma sample_linfo_wf: "linfo_wf sample_linfo"
  using linfo_new_wf [OF sample_info_ok, of enough_memory] by (simp add: sample_new)

theorem linfo_new_safe_witness:
  "bpf_prog_linfo__new enough_memory sample_info = Inr (Some sample_linfo) \<and> linfo_wf sample_linfo"
  using linfo_new_safe [OF sample_info_ok, of enough_memory] by (simp add: sample_new)

theorem lfind_last_witness:
  "\<exists>k. last_upto (\<lambda>j. 4 < insn_off sample_linfo (unat (0 :: u32) + j)) (unat (nr_linfo sample_linfo) - unat (0 :: u32)) k \<and>
     bpf_prog_linfo__lfind sample_linfo 4 0 = Inr (Some ((unat (0 :: u32) + k) * unat (rec_size sample_linfo)))"
proof -
  have "length (raw_linfo sample_linfo) < 4294967296" "\<not> (nr_linfo sample_linfo \<le> 0 \<or> 4 < insn_off sample_linfo (unat (0 :: u32)))"
    by (simp add: sample_linfo_def sample_info_def bytes32_def, code_simp)
  then show ?thesis using lfind_last [OF sample_linfo_wf, where nr_skip = 0 and off = 4] by (simp only: if_False)
qed

theorem lfind_addr_last_witness:
  "\<exists>k. last_upto (\<lambda>j. 230 < jited_addr sample_linfo (2 + unat (0 :: u32) + j)) (2 - unat (0 :: u32)) k \<and>
     bpf_prog_linfo__lfind_addr_func sample_linfo 230 1 0 =
       Inr (Some ((2 + unat (0 :: u32) + k) * unat (rec_size sample_linfo)))"
proof -
  have a: "length (raw_linfo sample_linfo) < 4294967296"
    "unat (nr_linfo sample_linfo) * unat (jited_rec_size sample_linfo) < 4294967296" "1 < nr_jited_func sample_linfo"
    by (simp_all add: sample_linfo_def sample_info_def bytes32_def)
  have s: "unat (the (jited_linfo_func_idx sample_linfo) ! unat (1 :: u32)) = 2"
    "unat (the (nr_jited_linfo_per_func sample_linfo) ! unat (1 :: u32)) = 2"
    "\<not> (2 \<le> unat (0 :: u32) \<or> 230 < jited_addr sample_linfo (2 + unat (0 :: u32)))"
    by (simp add: sample_linfo_def, simp add: sample_linfo_def, code_simp)
  show ?thesis
    using lfind_addr_last [OF sample_linfo_wf a, where addr = 230 and nr_skip = 0] s by auto
qed

theorem dissect_divides_witness:
  "\<forall>f < 2. unat ([0, 2] ! f :: u32) + unat ([2, 2] ! f :: u32) = (if Suc f < 2 then unat ([0, 2] ! Suc f :: u32) else 4)"
proof -
  have "dissect_jited_func (concat (map bytes64 [100, 108, 200, 220])) 8 4 2 [100, 200] [20, 40] = Inr (Some ([0, 2], [2, 2]))"
    by code_simp
  then show ?thesis
    using dissect_divides [of 4 8 "concat (map bytes64 [100, 108, 200, 220])" 2 "[100, 200]" "[20, 40]" "[0, 2]" "[2, 2]"]
    by (simp add: bytes64_def bytes32_def)
qed

theorem last_function_unchecked_witness:
  "dissect_jited_func (concat (map bytes64 [100, 300, 200])) 8 3 1 [100] [20] = Inr (Some ([0], [3]))"
proof -
  have "ld64 (concat (map bytes64 [100, 300, 200])) 0 = Inr ([100] ! 0)" by code_simp
  then show ?thesis by (intro last_function_unchecked) simp_all
qed


end
