(* ===== verification/Libbpf_Ringbuf.thy ===== *)
theory Libbpf_Ringbuf
  imports Xdp_Base "HOL-Library.Multiset"
begin

text \<open>
  The consumer of BPF ring buffers (\<open>xdp/libbpf/src/ringbuf.c\<close>). The data area, mapped twice in a row,
  and the position of the producer are memory that the kernel changes while the program
  runs: what the \<open>t\<close>-th load of a call sees is a parameter. The callback of the user is a function
  on the state of the user; it is given the bytes of the sample. The position of the consumer is
  stored after each record, so it is the local position of the loop. The calls of the kernel in
  the set-up are parameters, and a ledger holds the memory that is mapped.
\<close>

section \<open>Constants and structures\<close>

definition BPF_RINGBUF_BUSY_BIT :: u32 where "BPF_RINGBUF_BUSY_BIT = push_bit 31 1"
definition BPF_RINGBUF_DISCARD_BIT :: u32 where "BPF_RINGBUF_DISCARD_BIT = push_bit 30 1"
definition BPF_RINGBUF_HDR_SZ :: u32 where "BPF_RINGBUF_HDR_SZ = 8"

type_synonym 's sample_fn = "'s \<Rightarrow> u8 list \<Rightarrow> int \<times> 's"

record rb_memory =
  rm_prod :: "nat \<Rightarrow> u64"
  rm_data :: "nat \<Rightarrow> u8 list"

record 's ring =
  sample_cb :: "'s sample_fn"
  consumer_map :: u64
  producer_map :: u64
  consumer_pos :: u64
  ring_mask :: u64
  map_fd :: int

record 's ring_buffer =
  rings :: "'s ring list"
  page_size :: u64
  epoll_fd :: int

section \<open>Processing the records of a ring\<close>

definition roundup_len :: "u32 \<Rightarrow> u32" where
  "roundup_len l =
     (let l = push_bit 2 l;
          l = drop_bit 2 l;
          l = l + BPF_RINGBUF_HDR_SZ
      in (l + 7) div 8 * 8)"

text \<open>How the inner loop ends: no record is left, a record is not committed yet, or the callback failed.\<close>

datatype drain_end = Drained | Busy | Failed int

text \<open>The inner loop, at the \<open>t\<close>-th load: the position of the consumer, whether new data was found, and
  the number of samples handed over.\<close>

partial_function (option) ring_inner ::
  "rb_memory \<Rightarrow> 's sample_fn \<Rightarrow> u64 \<Rightarrow> u64 \<Rightarrow> nat \<Rightarrow> u64 \<Rightarrow> bool \<Rightarrow> int \<Rightarrow> 's \<Rightarrow>
     (drain_end \<times> nat \<times> u64 \<times> bool \<times> int \<times> 's) out" where
  "ring_inner K cb msk prod_pos t cons_pos got_new_data cnt s =
     (if cons_pos < prod_pos then
        (case ld32 (rm_data K t) (unat (cons_pos AND msk)) of
           Inl e \<Rightarrow> Some (Inl e)
         | Inr l \<Rightarrow>
             if l AND BPF_RINGBUF_BUSY_BIT \<noteq> 0 then Some (Inr (Busy, t + 1, cons_pos, got_new_data, cnt, s))
             else if l AND BPF_RINGBUF_DISCARD_BIT = 0 then
               (case ldn (rm_data K (t + 1)) (unat (cons_pos AND msk) + 8) (unat l) of
                  Inl e \<Rightarrow> Some (Inl e)
                | Inr smp \<Rightarrow>
                    if fst (cb s smp) \<noteq> 0
                    then Some (Inr (Failed (fst (cb s smp)), t + 2, cons_pos + scast (roundup_len l), True, cnt, snd (cb s smp)))
                    else ring_inner K cb msk prod_pos (t + 2) (cons_pos + scast (roundup_len l)) True (cnt + 1) (snd (cb s smp)))
             else ring_inner K cb msk prod_pos (t + 1) (cons_pos + scast (roundup_len l)) True cnt s)
      else Some (Inr (Drained, t, cons_pos, got_new_data, cnt, s)))"

partial_function (option) ring_outer ::
  "rb_memory \<Rightarrow> 's sample_fn \<Rightarrow> u64 \<Rightarrow> nat \<Rightarrow> u64 \<Rightarrow> int \<Rightarrow> 's \<Rightarrow> (int \<times> u64 \<times> 's) out" where
  "ring_outer K cb msk t cons_pos cnt s =
     (case ring_inner K cb msk (rm_prod K t) (t + 1) cons_pos False cnt s of
        None \<Rightarrow> None
      | Some (Inl e) \<Rightarrow> Some (Inl e)
      | Some (Inr (e, t, cons_pos, got_new_data, cnt, s)) \<Rightarrow>
          (case e of
             Failed err \<Rightarrow> Some (Inr (err, cons_pos, s))
           | Busy \<Rightarrow> Some (Inr (cnt, cons_pos, s))
           | Drained \<Rightarrow> if got_new_data then ring_outer K cb msk t cons_pos cnt s
                        else Some (Inr (cnt, cons_pos, s))))"

declare ring_inner.simps [code] ring_outer.simps [code]

definition ringbuf_process_ring :: "rb_memory \<Rightarrow> 's ring \<Rightarrow> 's \<Rightarrow> (int \<times> 's ring \<times> 's) out" where
  "ringbuf_process_ring K r s =
     obind (ring_outer K (sample_cb r) (ring_mask r) 0 (consumer_pos r) 0 s) (\<lambda>(res, pos, s).
       Some (Inr (res, r\<lparr>consumer_pos := pos\<rparr>, s)))"

text \<open>All rings in their order; the memory of the \<open>i\<close>-th ring is \<open>K i\<close>.\<close>

fun rb_consume_loop ::
  "(nat \<Rightarrow> rb_memory) \<Rightarrow> nat \<Rightarrow> 's ring list \<Rightarrow> int \<Rightarrow> 's \<Rightarrow> (int \<times> 's ring list \<times> 's) out" where
  "rb_consume_loop K i [] res s = Some (Inr (res, [], s))"
| "rb_consume_loop K i (r # rs) res s =
     obind (ringbuf_process_ring (K i) r s) (\<lambda>(err, r, s).
       if err < 0 then Some (Inr (err, r # rs, s))
       else obind (rb_consume_loop K (i + 1) rs (res + err) s) (\<lambda>(res, rs, s). Some (Inr (res, r # rs, s))))"

definition ring_buffer__consume ::
  "(nat \<Rightarrow> rb_memory) \<Rightarrow> 's ring_buffer \<Rightarrow> 's \<Rightarrow> (int \<times> 's ring_buffer \<times> 's) out" where
  "ring_buffer__consume K rb s =
     obind (rb_consume_loop K 0 (rings rb) 0 s) (\<lambda>(res, rs, s). Some (Inr (res, rb\<lparr>rings := rs\<rparr>, s)))"

text \<open>The rings that \<open>epoll_wait\<close> reports, by their numbers.\<close>

fun rb_poll_loop ::
  "(nat \<Rightarrow> rb_memory) \<Rightarrow> nat \<Rightarrow> nat list \<Rightarrow> 's ring list \<Rightarrow> int \<Rightarrow> 's \<Rightarrow> (int \<times> 's ring list \<times> 's) out" where
  "rb_poll_loop K i [] rs res s = Some (Inr (res, rs, s))"
| "rb_poll_loop K i (j # ids) rs res s =
     (if j < length rs then
        obind (ringbuf_process_ring (K i) (rs ! j) s) (\<lambda>(err, r, s).
          if err < 0 then Some (Inr (err, rs[j := r], s))
          else rb_poll_loop K (i + 1) ids (rs[j := r]) (res + err) s)
      else Some (Inl OutOfBounds))"

definition ring_buffer__poll ::
  "(nat \<Rightarrow> rb_memory) \<Rightarrow> int + nat list \<Rightarrow> 's ring_buffer \<Rightarrow> 's \<Rightarrow> (int \<times> 's ring_buffer \<times> 's) out" where
  "ring_buffer__poll K wait rb s =
     (case wait of
        Inl errno \<Rightarrow> Some (Inr (- errno, rb, s))
      | Inr ids \<Rightarrow> obind (rb_poll_loop K 0 ids (rings rb) 0 s) (\<lambda>(res, rs, s). Some (Inr (res, rb\<lparr>rings := rs\<rparr>, s))))"

definition ring_buffer__epoll_fd :: "'s ring_buffer \<Rightarrow> int" where
  "ring_buffer__epoll_fd rb = epoll_fd rb"

section \<open>Setting up and taking down\<close>

text \<open>The ledger: the regions that are mapped, with their lengths, and the open descriptors.\<close>

record ledger =
  mapped :: "(u64 \<times> u64) list"
  open_fds :: "int list"

definition munmap :: "u64 \<Rightarrow> u64 \<Rightarrow> ledger \<Rightarrow> ledger" where
  "munmap a n w = w\<lparr>mapped := remove1 (a, n) (mapped w)\<rparr>"

text \<open>The results of the calls of one set-up: a call that fails gives its error number.\<close>

record add_env =
  a_info :: "int + u32 \<times> u32"
  a_rings :: bool
  a_events :: bool
  a_mmap_cons :: "int + u64"
  a_cons_word :: u64
  a_mmap_prod :: "int + u64"
  a_epoll :: "int option"

definition BPF_MAP_TYPE_RINGBUF :: u32 where "BPF_MAP_TYPE_RINGBUF = 27"

abbreviation (input) RB_EINVAL :: int where "RB_EINVAL \<equiv> 22"
abbreviation (input) RB_ENOMEM :: int where "RB_ENOMEM \<equiv> 12"

definition ringbuf_unmap_ring :: "'s ring_buffer \<Rightarrow> 's ring \<Rightarrow> ledger \<Rightarrow> 's ring \<times> ledger" where
  "ringbuf_unmap_ring rb r w =
     (let (r, w) = (if consumer_map r \<noteq> 0
                    then (r\<lparr>consumer_map := 0\<rparr>, munmap (consumer_map r) (page_size rb) w) else (r, w))
      in if producer_map r \<noteq> 0
         then (r\<lparr>producer_map := 0\<rparr>, munmap (producer_map r) (page_size rb + 2 * (ring_mask r + 1)) w) else (r, w))"

text \<open>The size of the mapping of the data: \<open>rb->page_size + 2 * info.max_entries\<close>, whose product has 32
  bits.\<close>

definition data_map_size :: "'s ring_buffer \<Rightarrow> u32 \<Rightarrow> u64" where
  "data_map_size rb max_entries = page_size rb + ucast (2 * max_entries)"

definition ring_buffer__add ::
  "add_env \<Rightarrow> 's ring_buffer \<Rightarrow> int \<Rightarrow> 's sample_fn \<Rightarrow> ledger \<Rightarrow> int \<times> 's ring_buffer \<times> ledger" where
  "ring_buffer__add E rb fd cb w =
     (case a_info E of
        Inl errno \<Rightarrow> (- errno, rb, w)
      | Inr (ty, max_entries) \<Rightarrow>
          if ty \<noteq> BPF_MAP_TYPE_RINGBUF then (- RB_EINVAL, rb, w)
          else if \<not> a_rings E \<or> \<not> a_events E then (- RB_ENOMEM, rb, w)
          else
            let r = \<lparr>sample_cb = cb, consumer_map = 0, producer_map = 0, consumer_pos = a_cons_word E,
                     ring_mask = ucast (max_entries - 1), map_fd = fd\<rparr>
            in (case a_mmap_cons E of
                  Inl errno \<Rightarrow> (- errno, rb, w)
                | Inr a \<Rightarrow>
                    let w = w\<lparr>mapped := (a, page_size rb) # mapped w\<rparr>; r = r\<lparr>consumer_map := a\<rparr>
                    in (case a_mmap_prod E of
                          Inl errno \<Rightarrow> (- errno, rb, snd (ringbuf_unmap_ring rb r w))
                        | Inr b \<Rightarrow>
                            let w = w\<lparr>mapped := (b, data_map_size rb max_entries) # mapped w\<rparr>; r = r\<lparr>producer_map := b\<rparr>
                            in (case a_epoll E of
                                  Some errno \<Rightarrow> (- errno, rb, snd (ringbuf_unmap_ring rb r w))
                                | None \<Rightarrow> (0, rb\<lparr>rings := rings rb @ [r]\<rparr>, w)))))"

definition ring_buffer__free :: "'s ring_buffer option \<Rightarrow> ledger \<Rightarrow> ledger" where
  "ring_buffer__free rb w =
     (case rb of
        None \<Rightarrow> w
      | Some rb \<Rightarrow>
          let w = fold (\<lambda>r w. snd (ringbuf_unmap_ring rb r w)) (rings rb) w
          in if epoll_fd rb \<ge> 0 then w\<lparr>open_fds := remove1 (epoll_fd rb) (open_fds w)\<rparr> else w)"

text \<open>The check of an options structure: bytes behind the part that the library knows must be zero.\<close>

fun zero_bytes :: "u8 list \<Rightarrow> nat \<Rightarrow> nat \<Rightarrow> bool res" where
  "zero_bytes opts i 0 = Inr True"
| "zero_bytes opts i (Suc n) = rbind (ld8 opts i) (\<lambda>b. if b \<noteq> 0 then Inr False else zero_bytes opts (i + 1) n)"

definition libbpf_validate_opts :: "u8 list \<Rightarrow> nat \<Rightarrow> nat \<Rightarrow> bool res" where
  "libbpf_validate_opts opts opts_sz user_sz =
     (if user_sz < 8 then Inr False
      else if user_sz > opts_sz then zero_bytes opts opts_sz (user_sz - opts_sz) else Inr True)"

definition opts_valid :: "u8 list option \<Rightarrow> bool res" where
  "opts_valid opts =
     (case opts of None \<Rightarrow> Inr True | Some b \<Rightarrow> rbind (ld64 b 0) (\<lambda>sz. libbpf_validate_opts b 8 (unat sz)))"

text \<open>\<open>calloc_ok\<close> and \<open>epoll\<close> are the results of the allocation and of \<open>epoll_create1\<close>.\<close>

definition ring_buffer__new ::
  "u8 list option \<Rightarrow> bool \<Rightarrow> u64 \<Rightarrow> int + int \<Rightarrow> add_env \<Rightarrow> int \<Rightarrow> 's sample_fn \<Rightarrow> ledger \<Rightarrow>
     ('s ring_buffer option \<times> ledger) res" where
  "ring_buffer__new opts calloc_ok pagesize epoll E fd cb w =
     rbind (opts_valid opts) (\<lambda>ok.
       Inr (if \<not> ok \<or> \<not> calloc_ok then (None, w)
            else (case epoll of
                    Inl errno \<Rightarrow> (None, ring_buffer__free (Some (\<lparr>rings = [], page_size = pagesize, epoll_fd = - 1\<rparr> :: 's ring_buffer)) w)
                  | Inr efd \<Rightarrow>
                      let rb = \<lparr>rings = [], page_size = pagesize, epoll_fd = efd\<rparr>;
                          w = w\<lparr>open_fds := efd # open_fds w\<rparr>;
                          (err, rb, w) = ring_buffer__add E rb fd cb w
                      in if err \<noteq> 0 then (None, ring_buffer__free (Some rb) w) else (Some rb, w))))"

section \<open>The length of a record\<close>

lemma drop_push_2: "drop_bit 2 (push_bit 2 l) = take_bit 30 (l :: u32)"
  by (rule bit_word_eqI) (auto simp: bit_simps)

definition rec_bytes :: "nat \<Rightarrow> nat" where
  "rec_bytes n = (n + 15) div 8 * 8"

lemma unat_roundup_len:
  assumes "unat (take_bit 30 l) = n"
  shows "unat (roundup_len l) = rec_bytes n"
proof -
  have "unat (take_bit 30 l) < 2 ^ 30" by (simp only: unsigned_take_bit_eq take_bit_nat_less_exp)
  then have n: "n < 1073741824" using assms by simp
  let ?w = "take_bit 30 l + 8 :: u32"
  have w: "unat ?w = n + 8" using n assms by (simp add: unat_word_ariths)
  then have "unat (?w + 7) = n + 15" using n assms by (simp add: unat_word_ariths)
  then have "unat ((?w + 7) div 8) = (n + 15) div 8" by (simp add: unat_div)
  then have "unat ((?w + 7) div 8 * 8) = (n + 15) div 8 * 8" using n by (simp add: unat_word_ariths)
  then show ?thesis by (simp add: roundup_len_def Let_def drop_push_2 BPF_RINGBUF_HDR_SZ_def rec_bytes_def)
qed

lemma rec_bytes_bounds: "n + 8 \<le> rec_bytes n" "rec_bytes n \<le> n + 15"
proof -
  have "(n + 15) div 8 * 8 + (n + 15) mod 8 = n + 15" by (rule div_mult_mod_eq)
  moreover have "(n + 15) mod 8 < 8" by simp
  ultimately show "n + 8 \<le> rec_bytes n" "rec_bytes n \<le> n + 15" unfolding rec_bytes_def by linarith+
qed

lemma unat_scast_small:
  assumes "unat (w :: u32) < 2147483648"
  shows "unat (scast w :: u64) = unat w"
proof -
  have "int (unat w) < int 2147483648" using assms by (simp only: of_nat_less_iff)
  then have "uint w < 2 ^ 31" by simp
  moreover have "- (2 ^ 31) \<le> uint w" by (rule order_trans [of _ 0]) simp_all
  ultimately have "signed_take_bit 31 (uint w) = uint w" by (intro signed_take_bit_int_eq_self)
  then have "sint w = uint w" by (simp add: sint_uint)
  then have "(scast w :: u64) = ucast w" unfolding scast_eq ucast_eq by (rule arg_cong)
  moreover have "unat (ucast w :: u64) = unat w" using assms by (simp add: unsigned_ucast_eq take_bit_nat_eq_self)
  ultimately show ?thesis by simp
qed


section \<open>Records in the data area\<close>

text \<open>A record is a sample with its header; a discarded one has a bit set in its length.\<close>

type_synonym rb_rec = "bool \<times> u8 list"

definition rec_header :: "rb_rec \<Rightarrow> u32" where
  "rec_header r = word_of_nat (length (snd r)) OR (if fst r then BPF_RINGBUF_DISCARD_BIT else 0)"

text \<open>The records from one position to another, each in one piece: the data area is mapped twice.\<close>

fun laid_out :: "u8 list \<Rightarrow> u64 \<Rightarrow> u64 \<Rightarrow> rb_rec list \<Rightarrow> u64 \<Rightarrow> bool" where
  "laid_out D msk pos [] stop \<longleftrightarrow> pos = stop"
| "laid_out D msk pos (r # rs) stop \<longleftrightarrow>
     int (length (snd r)) < 1073741824 \<and> unat pos + rec_bytes (length (snd r)) \<le> unat stop \<and>
     ld32 D (unat (pos AND msk)) = Inr (rec_header r) \<and>
     ldn D (unat (pos AND msk) + 8) (length (snd r)) = Inr (snd r) \<and>
     laid_out D msk (pos + word_of_nat (rec_bytes (length (snd r)))) rs stop"

text \<open>What the callback makes of the records: the number of samples it took, its error, the place where
  it stopped and the state.\<close>

fun deliver :: "'s sample_fn \<Rightarrow> u64 \<Rightarrow> rb_rec list \<Rightarrow> int \<Rightarrow> 's \<Rightarrow> int option \<times> int \<times> u64 \<times> 's" where
  "deliver cb pos [] cnt s = (None, cnt, pos, s)"
| "deliver cb pos (r # rs) cnt s =
     (let pos = pos + word_of_nat (rec_bytes (length (snd r))) in
      if fst r then deliver cb pos rs cnt s
      else if fst (cb s (snd r)) \<noteq> 0 then (Some (fst (cb s (snd r))), cnt, pos, snd (cb s (snd r)))
      else deliver cb pos rs (cnt + 1) (snd (cb s (snd r))))"

definition quiet :: "rb_memory \<Rightarrow> u8 list \<Rightarrow> u64 \<Rightarrow> bool" where
  "quiet K D prod_pos \<longleftrightarrow> (\<forall>t. rm_data K t = D \<and> rm_prod K t = prod_pos)"

lemma quietD: "quiet K D p \<Longrightarrow> rm_data K t = D" "quiet K D p \<Longrightarrow> rm_prod K t = p"
  by (simp_all add: quiet_def)

lemma bit_flags:
  "bit BPF_RINGBUF_BUSY_BIT k \<longleftrightarrow> k = 31" "bit BPF_RINGBUF_DISCARD_BIT k \<longleftrightarrow> k = 30"
  unfolding BPF_RINGBUF_BUSY_BIT_def BPF_RINGBUF_DISCARD_BIT_def
  by (simp_all only: bit_push_bit_iff bit_1_iff) auto

lemma header_bits:
  assumes "length (snd r) < 1073741824"
  shows "rec_header r AND BPF_RINGBUF_BUSY_BIT = 0"
    "rec_header r AND BPF_RINGBUF_DISCARD_BIT = 0 \<longleftrightarrow> \<not> fst r"
    "unat (take_bit 30 (rec_header r)) = length (snd r)"
    "\<not> fst r \<Longrightarrow> unat (rec_header r) = length (snd r)"
proof -
  let ?n = "word_of_nat (length (snd r)) :: u32"
  have n: "unat ?n = length (snd r)" using assms by (simp add: unsigned_of_nat take_bit_nat_eq_self)
  have "take_bit 30 ?n = ?n"
  proof (rule unsigned_word_eqI)
    show "unat (take_bit 30 ?n) = unat ?n" using assms n by (simp add: unsigned_take_bit_eq take_bit_nat_eq_self)
  qed
  then have b: "\<not> bit ?n k" if "30 \<le> k" for k using that by (metis bit_take_bit_iff not_le)
  show "rec_header r AND BPF_RINGBUF_BUSY_BIT = 0"
    using b [of 31] unfolding rec_header_def
    by (intro bit_word_eqI) (auto simp: bit_and_iff bit_or_iff bit_flags)
  have "bit (rec_header r AND BPF_RINGBUF_DISCARD_BIT) 30" if "fst r"
    using that unfolding rec_header_def by (auto simp: bit_and_iff bit_or_iff bit_flags)
  moreover have "rec_header r AND BPF_RINGBUF_DISCARD_BIT = 0" if "\<not> fst r"
    using that b [of 30] unfolding rec_header_def
    by (intro bit_word_eqI) (auto simp: bit_and_iff bit_or_iff bit_flags)
  ultimately show "rec_header r AND BPF_RINGBUF_DISCARD_BIT = 0 \<longleftrightarrow> \<not> fst r" by (metis bit_0_eq bot_apply bot_bool_def)
  have "take_bit 30 (rec_header r) = ?n"
    using b [OF leI] unfolding rec_header_def
    by (intro bit_word_eqI) (auto simp: bit_take_bit_iff bit_or_iff bit_flags not_le)
  then show "unat (take_bit 30 (rec_header r)) = length (snd r)" using n by simp
  show "\<not> fst r \<Longrightarrow> unat (rec_header r) = length (snd r)" using n by (simp add: rec_header_def)
qed


lemma step_pos:
  assumes "length (snd r) < 1073741824"
  shows "pos + scast (roundup_len (rec_header r)) = pos + (word_of_nat (rec_bytes (length (snd r))) :: u64)"
proof -
  have u: "unat (roundup_len (rec_header r)) = rec_bytes (length (snd r))"
    by (rule unat_roundup_len [OF header_bits(3) [OF assms]])
  then have "unat (scast (roundup_len (rec_header r)) :: u64) = rec_bytes (length (snd r))"
    using rec_bytes_bounds(2) [of "length (snd r)"] assms by (subst unat_scast_small) auto
  then have "(word_of_nat (unat (scast (roundup_len (rec_header r)) :: u64)) :: u64) = word_of_nat (rec_bytes (length (snd r)))"
    by simp
  then show ?thesis by simp
qed

text \<open>The inner loop over records that lie in front of the producer, up to one that is not committed or to
  the producer itself.\<close>

lemma ring_inner_laid:
  assumes "quiet K D pp" "laid_out D msk pos rs stop" "unat stop \<le> unat pp"
    and "stop \<noteq> pp \<Longrightarrow> \<exists>h. ld32 D (unat (stop AND msk)) = Inr h \<and> h AND BPF_RINGBUF_BUSY_BIT \<noteq> 0"
  shows "\<exists>t'. ring_inner K cb msk pp t pos got cnt s =
    Some (Inr (case deliver cb pos rs cnt s of
      (Some err, c, p, s') \<Rightarrow> (Failed err, t', p, True, c, s')
    | (None, c, p, s') \<Rightarrow> (if stop = pp then Drained else Busy, t', stop, got \<or> rs \<noteq> [], c, s')))"
  using assms(2)
proof (induction rs arbitrary: t pos got cnt s)
  case Nil
  then have "stop \<noteq> pp \<Longrightarrow> unat stop < unat pp" using assms(3) by (simp add: word_unat_eq_iff)
  then show ?case using assms(1,4) Nil
    by (subst ring_inner.simps) (auto simp: quietD word_less_nat_alt)
next
  case (Cons r rs)
  have L: "length (snd r) < 1073741824 \<and> unat pos + rec_bytes (length (snd r)) \<le> unat stop \<and>
     ld32 D (unat (pos AND msk)) = Inr (rec_header r) \<and>
     ldn D (unat (pos AND msk) + 8) (length (snd r)) = Inr (snd r) \<and>
     laid_out D msk (pos + word_of_nat (rec_bytes (length (snd r)))) rs stop"
    using Cons.prems by simp
  note hb = header_bits [OF L [THEN conjunct1]]
  let ?pos = "pos + word_of_nat (rec_bytes (length (snd r))) :: u64"
  have "unat pos < unat pp" using L assms(3) rec_bytes_bounds(1) [of "length (snd r)"] by linarith
  then have lt: "pos < pp" by (simp add: word_less_nat_alt)
  have lay: "laid_out D msk ?pos rs stop" using L by simp
  have ld: "ld32 (rm_data K t) (unat (pos AND msk)) = Inr (rec_header r)" for t using L assms(1) by (simp add: quietD)
  have smp: "\<not> fst r \<Longrightarrow> ldn (rm_data K t) (unat (pos AND msk) + 8) (unat (rec_header r)) = Inr (snd r)" for t
    using L assms(1) hb(4) by (simp add: quietD)
  have step: "pos + scast (roundup_len (rec_header r)) = ?pos" using step_pos L by blast
  show ?case
  proof (cases "fst r")
    case True
    then show ?thesis using Cons.IH [OF lay, of "t + 1" True cnt s] lt ld hb step
      by (subst ring_inner.simps) (auto split: prod.splits option.splits)
  next
    case False
    then show ?thesis using Cons.IH [OF lay, of "t + 2" True "cnt + 1" "snd (cb s (snd r))"] lt ld hb step smp
      by (subst ring_inner.simps) (auto split: prod.splits option.splits)
  qed
qed


section \<open>Properties\<close>

text \<open>Processing a ring while the kernel adds nothing returns, and hands the committed samples to the callback in
  their order: up to the producer, up to the first record that is not committed, or up to the sample for
  which the callback reports an error. Discarded records are skipped; the result is the number of
  samples or the error, and the consumer stands behind the last record that was taken.\<close>

theorem process_delivers:
  assumes "quiet K D pp" "laid_out D (ring_mask r) (consumer_pos r) rs stop" "unat stop \<le> unat pp"
    and "stop \<noteq> pp \<Longrightarrow> \<exists>h. ld32 D (unat (stop AND ring_mask r)) = Inr h \<and> h AND BPF_RINGBUF_BUSY_BIT \<noteq> 0"
  shows "ringbuf_process_ring K r s = Some (Inr (case deliver (sample_cb r) (consumer_pos r) rs 0 s of
      (Some err, c, p, s') \<Rightarrow> (err, r\<lparr>consumer_pos := p\<rparr>, s')
    | (None, c, p, s') \<Rightarrow> (c, r\<lparr>consumer_pos := stop\<rparr>, s')))"
proof -
  let ?cb = "sample_cb r" let ?m = "ring_mask r"
  have pp: "rm_prod K t = pp" for t using assms(1) by (rule quietD)
  note inner = ring_inner_laid [OF assms(1-4), of ?cb]
  have again: "\<exists>t'. ring_inner K ?cb ?m pp t stop False c s' =
      Some (Inr (if stop = pp then Drained else Busy, t', stop, False, c, s'))" for t c s'
    using ring_inner_laid [OF assms(1) _ assms(3,4), of stop "[]" ?cb t False c s'] by simp
  obtain e c p s' where d: "deliver ?cb (consumer_pos r) rs 0 s = (e, c, p, s')" by (metis surj_pair)
  obtain t1 where t1: "ring_inner K ?cb ?m pp 1 (consumer_pos r) False 0 s =
      Some (Inr (case (e, c, p, s') of (Some err, c, p, s') \<Rightarrow> (Failed err, t1, p, True, c, s')
        | (None, c, p, s') \<Rightarrow> (if stop = pp then Drained else Busy, t1, stop, False \<or> rs \<noteq> [], c, s')))"
    using inner [of 1 False 0 s] d by auto
  obtain t2 where t2: "ring_inner K ?cb ?m pp (t1 + 1) stop False c s' =
      Some (Inr (if stop = pp then Drained else Busy, t2, stop, False, c, s'))" using again by blast
  have "ring_outer K ?cb ?m 0 (consumer_pos r) 0 s =
      Some (Inr (case e of Some err \<Rightarrow> (err, p, s') | None \<Rightarrow> (c, stop, s')))"
  proof (cases e)
    case (Some err)
    then show ?thesis using t1 by (subst ring_outer.simps) (simp add: pp)
  next
    case None
    have "ring_outer K ?cb ?m t1 stop c s' = Some (Inr (c, stop, s'))"
      using t2 by (subst ring_outer.simps) (simp add: pp)
    then show ?thesis using None t1 by (subst ring_outer.simps) (cases "stop = pp"; simp add: pp)
  qed
  then show ?thesis using d by (simp add: ringbuf_process_ring_def split: option.splits)
qed



text \<open>Each record takes its header of eight bytes, its sample and less than eight bytes of padding: the step to
  the next record is the length rounded up to a multiple of eight, whatever the flags in the header.\<close>

theorem roundup_len_exact:
  "unat (roundup_len l) mod 8 = 0 \<and> unat (take_bit 30 l) + 8 \<le> unat (roundup_len l) \<and>
   unat (roundup_len l) < unat (take_bit 30 l) + 16"
  using rec_bytes_bounds [of "unat (take_bit 30 l)"] unfolding unat_roundup_len [OF refl] by (simp add: rec_bytes_def)

text \<open>What a set of rings has mapped.\<close>

definition ring_maps :: "'s ring_buffer \<Rightarrow> (u64 \<times> u64) list" where
  "ring_maps rb = concat (map (\<lambda>r. [(consumer_map r, page_size rb),
     (producer_map r, page_size rb + 2 * (ring_mask r + 1))]) (rings rb))"

definition rb_wf :: "'s ring_buffer \<Rightarrow> (u64 \<times> u64) list \<Rightarrow> ledger \<Rightarrow> bool" where
  "rb_wf rb M w \<longleftrightarrow> mset (mapped w) = mset (ring_maps rb @ M) \<and>
     (\<forall>r \<in> set (rings rb). consumer_map r \<noteq> 0 \<and> producer_map r \<noteq> 0)"

lemma data_map_size_eq:
  assumes "0 < max_entries" "max_entries < 2147483648"
  shows "page_size rb + 2 * (ucast (max_entries - 1) + 1) = data_map_size rb max_entries"
proof -
  have m: "0 < unat max_entries" "unat max_entries < 2147483648"
    using assms by (simp_all add: word_less_nat_alt unat_gt_0)
  have "unat (2 * (ucast (max_entries - 1) + 1) :: u64) = unat (ucast (2 * max_entries) :: u64)"
    using m by (simp add: unat_word_ariths unsigned_ucast_eq take_bit_nat_eq_self unat_sub word_le_nat_alt)
  then have "2 * (ucast (max_entries - 1) + 1) = (ucast (2 * max_entries) :: u64)" by (rule unsigned_word_eqI)
  then show ?thesis by (simp only: data_map_size_def)
qed


text \<open>What the kernel promises of a set-up: mappings are not at address 0, and the size of the ring is a
  positive number below 2 GiB.\<close>

definition add_ok :: "add_env \<Rightarrow> bool" where
  "add_ok E \<longleftrightarrow> a_mmap_cons E \<noteq> Inr 0 \<and> a_mmap_prod E \<noteq> Inr 0 \<and>
     (case a_info E of Inl e \<Rightarrow> e \<noteq> 0 | Inr (ty, n) \<Rightarrow> 0 < n \<and> n < 2147483648) \<and>
     a_mmap_cons E \<noteq> Inl 0 \<and> a_mmap_prod E \<noteq> Inl 0 \<and> a_epoll E \<noteq> Some 0"

lemma add_wf:
  assumes "rb_wf rb M w" "add_ok E" "ring_buffer__add E rb fd cb w = (err, rb', w')"
  shows "rb_wf rb' M w' \<and> epoll_fd rb' = epoll_fd rb \<and> page_size rb' = page_size rb \<and> open_fds w' = open_fds w \<and>
    (if err = 0 then length (rings rb') = Suc (length (rings rb)) else rb' = rb)"
proof (cases "a_info E")
  case (Inr i)
  obtain ty n where i: "i = (ty, n)" by fastforce
  have size: "page_size rb + 2 * (ucast (n - 1) + 1) = data_map_size rb n"
    using assms(2) Inr i by (intro data_map_size_eq) (auto simp: add_ok_def)
  show ?thesis
    using assms Inr i size
    by (auto simp: ring_buffer__add_def rb_wf_def ring_maps_def ringbuf_unmap_ring_def munmap_def add_ok_def Let_def
        split: if_splits sum.splits option.splits)
qed (use assms in \<open>auto simp: ring_buffer__add_def add_ok_def\<close>)

lemma unmap_rings:
  assumes "\<forall>r \<in> set rs. consumer_map r \<noteq> 0 \<and> producer_map r \<noteq> 0"
    and "mset (mapped w) = mset (concat (map (\<lambda>r. [(consumer_map r, page_size rb),
      (producer_map r, page_size rb + 2 * (ring_mask r + 1))]) rs) @ M)"
  shows "mset (mapped (fold (\<lambda>r w. snd (ringbuf_unmap_ring rb r w)) rs w)) = mset M \<and>
    open_fds (fold (\<lambda>r w. snd (ringbuf_unmap_ring rb r w)) rs w) = open_fds w"
  using assms
proof (induction rs arbitrary: w)
  case (Cons r rs)
  let ?w = "snd (ringbuf_unmap_ring rb r w)"
  have w: "mapped ?w = remove1 (producer_map r, page_size rb + 2 * (ring_mask r + 1)) (remove1 (consumer_map r, page_size rb) (mapped w))"
    "open_fds ?w = open_fds w"
    using Cons.prems(1) by (auto simp: ringbuf_unmap_ring_def munmap_def)
  then have "mset (mapped ?w) = mset (concat (map (\<lambda>r. [(consumer_map r, page_size rb),
      (producer_map r, page_size rb + 2 * (ring_mask r + 1))]) rs) @ M)"
    using Cons.prems(2) by (simp add: w)
  then show ?case using Cons.IH [of ?w] Cons.prems(1) w by simp
qed simp


text \<open>A ring buffer manager after \<open>ring_buffer__new\<close> and any number of additions, successful or not; \<open>M\<close> and \<open>F\<close>
  are what was mapped and open before.\<close>

inductive rb_reach :: "(u64 \<times> u64) list \<Rightarrow> int list \<Rightarrow> 's ring_buffer \<Rightarrow> ledger \<Rightarrow> bool" for M F where
  rb_new: "ring_buffer__new opts ok psz (Inr efd) E fd cb \<lparr>mapped = M, open_fds = F\<rparr> = Inr (Some rb, w) \<Longrightarrow>
    0 \<le> efd \<Longrightarrow> add_ok E \<Longrightarrow> rb_reach M F rb w"
| rb_add: "rb_reach M F rb w \<Longrightarrow> add_ok E \<Longrightarrow> ring_buffer__add E rb fd cb w = (err, rb', w') \<Longrightarrow> rb_reach M F rb' w'"

lemma rb_reach_wf:
  assumes "rb_reach M F rb w"
  shows "rb_wf rb M w \<and> 0 \<le> epoll_fd rb \<and> open_fds w = epoll_fd rb # F"
  using assms
proof (induction rule: rb_reach.induct)
  case (rb_new opts ok psz efd E fd cb rb w)
  let ?rb = "\<lparr>rings = [], page_size = psz, epoll_fd = efd\<rparr>" let ?w = "\<lparr>mapped = M, open_fds = efd # F\<rparr>"
  obtain err rb' w' where a: "ring_buffer__add E ?rb fd cb ?w = (err, rb', w')" by (metis surj_pair)
  have "rb_wf ?rb M ?w" by (simp add: rb_wf_def ring_maps_def)
  from add_wf [OF this rb_new(3) a] show ?case
    using rb_new(1,2) a by (auto simp: ring_buffer__new_def rbind_eq_Inr split: if_splits)
next
  case (rb_add rb w E fd cb err rb' w')
  then show ?case using add_wf [of rb M w E fd cb err rb' w'] by auto
qed

text \<open>Freeing a ring buffer manager gives back exactly what was taken: after any sequence of additions,
  whichever of them failed, the mappings and descriptors that remain are those from before
  \<open>ring_buffer__new\<close>, so nothing leaks and nothing else is unmapped. This holds for rings below 2 GiB.\<close>

theorem rb_free_balanced:
  assumes "rb_reach M F rb w"
  shows "mset (mapped (ring_buffer__free (Some rb) w)) = mset M \<and> open_fds (ring_buffer__free (Some rb) w) = F"
proof -
  note wf = rb_reach_wf [OF assms]
  then have "mset (mapped (fold (\<lambda>r w. snd (ringbuf_unmap_ring rb r w)) (rings rb) w)) = mset M \<and>
    open_fds (fold (\<lambda>r w. snd (ringbuf_unmap_ring rb r w)) (rings rb) w) = open_fds w"
    by (intro unmap_rings) (auto simp: rb_wf_def ring_maps_def)
  then show ?thesis using wf by (simp add: ring_buffer__free_def Let_def)
qed

text \<open>A ring of 2 GiB is mapped without its data: the size of the mapping is computed with 32 bits and
  wraps around, while the size that is unmapped later is not cut.\<close>

theorem ring_data_truncated:
  "data_map_size rb 2147483648 = page_size rb \<and>
   page_size rb + 2 * (ucast (2147483648 - 1 :: u32) + 1) \<noteq> data_map_size rb 2147483648"
  by (simp add: data_map_size_def)

section \<open>Concrete runs\<close>

text \<open>A ring of 64 bytes: a sample, a discarded record, a sample and a record that is not committed.\<close>

definition sample_data :: "u8 list" where
  "sample_data =
     (let D = bytes32 3 @ replicate 4 0 @ [1, 2, 3] @ replicate 5 0 @
              bytes32 (2 OR BPF_RINGBUF_DISCARD_BIT) @ replicate 4 0 @ [9, 9] @ replicate 6 0 @
              bytes32 1 @ replicate 4 0 @ [4] @ replicate 7 0 @
              bytes32 (1 OR BPF_RINGBUF_BUSY_BIT) @ replicate 12 0
      in D @ D)"

definition collect :: "u8 list list sample_fn" where
  "collect s smp = (0, s @ [smp])"

definition sample_rb_ring :: "u8 list list ring" where
  "sample_rb_ring = \<lparr>sample_cb = collect, consumer_map = 4096, producer_map = 8192, consumer_pos = 0,
     ring_mask = 63, map_fd = 5\<rparr>"

definition still :: rb_memory where
  "still = \<lparr>rm_prod = (\<lambda>t. 64), rm_data = (\<lambda>t. sample_data)\<rparr>"

theorem process_delivers_witness:
  "ringbuf_process_ring still sample_rb_ring [] =
     Some (Inr (2, sample_rb_ring\<lparr>consumer_pos := 48\<rparr>, [[1, 2, 3], [4]]))"
proof -
  let ?rs = "[(False, [1, 2, 3]), (True, [9, 9]), (False, [4])]"
  have "quiet still sample_data 64" by (simp add: quiet_def still_def)
  moreover have "laid_out sample_data (ring_mask sample_rb_ring) (consumer_pos sample_rb_ring) ?rs 48" by code_simp
  moreover have "unat (48 :: u64) \<le> unat (64 :: u64)" by simp
  moreover have "ld32 sample_data (unat (48 AND ring_mask sample_rb_ring)) = Inr (1 OR BPF_RINGBUF_BUSY_BIT)"
    "(1 OR BPF_RINGBUF_BUSY_BIT) AND BPF_RINGBUF_BUSY_BIT \<noteq> 0" by code_simp+
  moreover have "deliver (sample_cb sample_rb_ring) (consumer_pos sample_rb_ring) ?rs 0 [] = (None, 2, 48, [[1, 2, 3], [4]])"
    by code_simp
  ultimately show ?thesis using process_delivers [of still sample_data 64 sample_rb_ring ?rs 48 "[]"] by auto
qed

definition good_add :: add_env where
  "good_add = \<lparr>a_info = Inr (27, 64), a_rings = True, a_events = True, a_mmap_cons = Inr 4096, a_cons_word = 0,
     a_mmap_prod = Inr 8192, a_epoll = None\<rparr>"

definition bad_add :: add_env where
  "bad_add = good_add\<lparr>a_mmap_cons := Inr 65536, a_mmap_prod := Inr 131072, a_epoll := Some 28\<rparr>"

theorem rb_free_balanced_witness:
  "\<exists>rb w. rb_reach [(7, 7)] [1] (rb :: u8 list list ring_buffer) w \<and> length (rings rb) = 1 \<and> length (mapped w) = 3 \<and>
     mset (mapped (ring_buffer__free (Some rb) w)) = {#(7, 7)#} \<and> open_fds (ring_buffer__free (Some rb) w) = [1]"
proof -
  let ?rb = "\<lparr>rings = [sample_rb_ring], page_size = 4096, epoll_fd = 3\<rparr>"
  let ?w = "\<lparr>mapped = [(8192, 4224), (4096, 4096), (7, 7)], open_fds = [3, 1]\<rparr>"
  have n: "ring_buffer__new None True 4096 (Inr 3) good_add 5 collect \<lparr>mapped = [(7, 7)], open_fds = [1]\<rparr> = Inr (Some ?rb, ?w)"
    by (simp add: ring_buffer__new_def opts_valid_def ring_buffer__add_def good_add_def BPF_MAP_TYPE_RINGBUF_def
        data_map_size_def sample_rb_ring_def)
  have ok: "add_ok good_add" "add_ok bad_add" by (simp_all add: add_ok_def good_add_def bad_add_def)
  have "(0 :: int) \<le> 3" by simp
  from rb_new [OF n this ok(1)] have r: "rb_reach [(7, 7)] [1] ?rb ?w" .
  have "ring_buffer__add bad_add ?rb 6 collect ?w = (- 28, ?rb, ?w)"
    by (simp add: ring_buffer__add_def good_add_def bad_add_def BPF_MAP_TYPE_RINGBUF_def data_map_size_def
        ringbuf_unmap_ring_def munmap_def)
  from rb_add [OF r ok(2) this] have "rb_reach [(7, 7)] [1] ?rb ?w" .
  from rb_free_balanced [OF this] this show ?thesis by (intro exI [of _ ?rb] exI [of _ ?w]) simp
qed


end
