(* ===== verification/Libbpf_Errno.thy ===== *)
theory Libbpf_Errno
  imports C_String
begin

text \<open>
  Error numbers of libbpf as text (\<open>xdp/libbpf/src/libbpf_errno.c\<close>, \<open>xdp/libbpf/src/str_error.c\<close>). The buffer of the
  caller is a list of characters; \<open>strerror_r\<close> is a parameter, which is given the number, the
  buffer and its size. Printing a NULL pointer as a string is a fault.
\<close>

abbreviation (input) LIBBPF_ERRNO__START :: int where "LIBBPF_ERRNO__START \<equiv> 4000"
abbreviation (input) LIBBPF_ERRNO__END :: int where "LIBBPF_ERRNO__END \<equiv> 4014"

definition libbpf_strerror_table :: "string option list" where
  "libbpf_strerror_table =
     [Some ''Something wrong in libelf'',
      Some ''BPF object format invalid'',
      Some (CHR 0x27 # ''version'' @ CHR 0x27 # '' section incorrect or lost''),
      Some ''Endian mismatch'',
      Some ''Internal error in libbpf'',
      Some ''Relocation failed'',
      None,
      Some ''Kernel verifier blocks program loading'',
      Some ''Program too big'',
      Some ''Incorrect kernel version'',
      Some (''Kernel doesn'' @ CHR 0x27 # ''t support this program type''),
      Some ''Wrong pid in netlink message'',
      Some ''Invalid netlink sequence'',
      Some ''Incorrect netlink message parsing'']"

text \<open>Writing the last character of the buffer.\<close>

definition terminate :: "nat \<Rightarrow> string \<Rightarrow> string res" where
  "terminate sz buf = (if sz - 1 < length buf then Inr (buf[sz - 1 := NUL]) else Inl OutOfBounds)"

text \<open>\<open>show_int\<close> is the conversion \<open>%d\<close> of \<open>snprintf\<close>.\<close>

definition libbpf_strerror ::
  "(int \<Rightarrow> string \<Rightarrow> nat \<Rightarrow> int \<times> string) \<Rightarrow> (int \<Rightarrow> string) \<Rightarrow> int \<Rightarrow> string option \<Rightarrow> nat \<Rightarrow> (int \<times> string option) res" where
  "libbpf_strerror strerror_r show_int err buf sz =
     (case buf of
        None \<Rightarrow> Inr (- 1, None)
      | Some b \<Rightarrow>
          if sz = 0 then Inr (- 1, buf)
          else
            let err = (if err > 0 then err else - err)
            in if err < LIBBPF_ERRNO__START then
                 (let (ret, b) = strerror_r err b sz in rbind (terminate sz b) (\<lambda>b. Inr (ret, Some b)))
               else if err < LIBBPF_ERRNO__END then
                 (case libbpf_strerror_table ! nat (err - LIBBPF_ERRNO__START) of
                    None \<Rightarrow> Inl NullDeref
                  | Some msg \<Rightarrow>
                      rbind (snprintf b 0 sz msg) (\<lambda>(_, b).
                      rbind (terminate sz b) (\<lambda>b. Inr (0, Some b))))
               else
                 rbind (snprintf b 0 sz (''Unknown libbpf error '' @ show_int err)) (\<lambda>(_, b).
                 rbind (terminate sz b) (\<lambda>b. Inr (- 1, Some b))))"

definition libbpf_strerror_r ::
  "(int \<Rightarrow> string \<Rightarrow> nat \<Rightarrow> int \<times> string) \<Rightarrow> (int \<Rightarrow> string) \<Rightarrow> int \<Rightarrow> string \<Rightarrow> nat \<Rightarrow> string res" where
  "libbpf_strerror_r strerror_r show_int err dst len =
     (let (ret, dst) = strerror_r (if err < 0 then - err else err) dst len
      in if ret \<noteq> 0
         then rbind (snprintf dst 0 len (''ERROR: strerror_r('' @ show_int err @ '')='' @ show_int ret)) (\<lambda>(_, d). Inr d)
         else Inr dst)"

section \<open>Lemmas\<close>

lemma snprintf_whole:
  assumes "0 < n" "n \<le> length b"
  shows "\<exists>m b'. snprintf b 0 n s = Inr (m, b') \<and> length b' = length b \<and> (\<exists>r. b' = take (n - 1) s @ NUL # r)"
proof -
  let ?t = "take (n - 1) s @ [NUL]"
  have l: "length ?t \<le> length b" using assms by simp
  have "snprintf b 0 n s = Inr (length s, ?t @ drop (length ?t) b)"
    using assms l by (simp add: snprintf_def Let_def)
  then show ?thesis using l by (intro exI [of _ "length s"] exI [of _ "?t @ drop (length ?t) b"]) auto
qed

lemma table_gap:
  assumes "4000 \<le> e" "e < 4014" "libbpf_strerror_table ! nat (e - 4000) = None"
  shows "e = 4006"
proof -
  have "\<forall>i < 14. libbpf_strerror_table ! i = None \<longrightarrow> i = 6"
    by (simp add: libbpf_strerror_table_def less_Suc_eq numeral_eq_Suc)
  moreover have "nat (e - 4000) < 14" using assms by linarith
  ultimately have "nat (e - 4000) = 6" using assms(3) by blast
  then show ?thesis by linarith
qed

section \<open>Properties\<close>

text \<open>A buffer that is given with its size always holds a text with its terminator afterwards, and nothing is written
  outside of it, for every error number but the one without an entry in the table, for which NULL is
  printed; the text of a number of libbpf is its entry, cut to the size.\<close>

theorem strerror_in_buffer:
  assumes "0 < n" "n \<le> length b" "\<And>e. length (snd (strerror_r e b n)) = length b"
  shows "(if abs err = 4006 then libbpf_strerror strerror_r show_int err (Some b) n = Inl NullDeref
     else \<exists>ret b'. libbpf_strerror strerror_r show_int err (Some b) n = Inr (ret, Some b') \<and>
       length b' = length b \<and> b' ! (n - 1) = NUL \<and>
       (\<forall>msg. 4000 \<le> abs err \<and> abs err < 4014 \<and> libbpf_strerror_table ! nat (abs err - 4000) = Some msg \<and> NUL \<notin> set msg \<longrightarrow>
          ret = 0 \<and> cstr b' = Inr (take (n - 1) msg)))"
proof -
  have err: "(if err > 0 then err else - err) = abs err" by simp
  have last_nul: "\<exists>b''. terminate n b' = Inr b'' \<and> length b'' = length b \<and> b'' ! (n - 1) = NUL \<and>
      (\<forall>r s. b' = take (n - 1) s @ NUL # r \<and> NUL \<notin> set s \<longrightarrow> cstr b'' = Inr (take (n - 1) s))"
    if "length b' = length b" for b'
  proof -
    have lt: "n - 1 < length b'" using assms that by simp
    have "cstr (b'[n - 1 := NUL]) = Inr (take (n - 1) s)" if "b' = take (n - 1) s @ NUL # r" "NUL \<notin> set s" for r s
    proof -
      have "c_string (take (n - 1) s)" using that(2) by (auto simp: c_string_def dest: in_set_takeD)
      moreover have "\<exists>r'. b'[n - 1 := NUL] = take (n - 1) s @ NUL # r'"
        using that(1) by (cases "n - 1 - length s") (auto simp: list_update_append min_def)
      ultimately show ?thesis using cstr_append by metis
    qed
    then show ?thesis using lt that by (auto simp: terminate_def)
  qed
  consider "abs err < 4000" | "4000 \<le> abs err" "abs err < 4014" | "4014 \<le> abs err" by linarith
  then show ?thesis
  proof cases
    case 1
    obtain ret b' where sr: "strerror_r (abs err) b n = (ret, b')" by fastforce
    then have "length b' = length b" using assms(3) [of "abs err"] by simp
    then obtain b'' where "terminate n b' = Inr b''" "length b'' = length b" "b'' ! (n - 1) = NUL"
      using last_nul by blast
    then show ?thesis using 1 sr assms(1) by (simp add: libbpf_strerror_def err Let_def)
  next
    case 2
    show ?thesis
    proof (cases "libbpf_strerror_table ! nat (abs err - 4000)")
      case None
      then have "abs err = 4006" using 2 table_gap by blast
      then show ?thesis using None assms(1) by (simp add: libbpf_strerror_def err Let_def)
    next
      case (Some msg)
      then have "abs err \<noteq> 4006" by (auto simp: libbpf_strerror_table_def)
      obtain m b' r where b': "snprintf b 0 n msg = Inr (m, b')" "length b' = length b" "b' = take (n - 1) msg @ NUL # r"
        using snprintf_whole [OF assms(1,2)] by blast
      then obtain b'' where "terminate n b' = Inr b''" "length b'' = length b" "b'' ! (n - 1) = NUL"
          "NUL \<notin> set msg \<Longrightarrow> cstr b'' = Inr (take (n - 1) msg)"
        using last_nul by blast
      then show ?thesis using 2 Some b'(1) \<open>abs err \<noteq> 4006\<close> assms(1)
        by (simp add: libbpf_strerror_def err Let_def)
    qed
  next
    case 3
    obtain m b' where b': "snprintf b 0 n (''Unknown libbpf error '' @ show_int (abs err)) = Inr (m, b')" "length b' = length b"
      using snprintf_whole [OF assms(1,2)] by blast
    then obtain b'' where "terminate n b' = Inr b''" "length b'' = length b" "b'' ! (n - 1) = NUL"
      using last_nul by blast
    then show ?thesis using 3 b'(1) assms(1) by (simp add: libbpf_strerror_def err Let_def)
  qed
qed

section \<open>Concrete runs\<close>

theorem strerror_in_buffer_witness:
  "(\<exists>ret b'. libbpf_strerror (\<lambda>e b n. (0, b)) (\<lambda>_. ''1'') (- 4005) (Some ''12345678'') 8 = Inr (ret, Some b') \<and>
      cstr b' = Inr ''Relocat'') \<and>
   libbpf_strerror (\<lambda>e b n. (0, b)) (\<lambda>_. ''1'') 4006 (Some ''12345678'') 8 = Inl NullDeref"
proof -
  have t: "libbpf_strerror_table ! 5 = Some ''Relocation failed''" by (simp add: libbpf_strerror_table_def)
  have n: "NUL \<notin> set ''Relocation failed''" by code_simp
  have k: "take 7 ''Relocation failed'' = ''Relocat''" by code_simp
  show ?thesis
    using strerror_in_buffer [where n = 8 and b = "''12345678''" and strerror_r = "\<lambda>e b n. (0, b)" and show_int = "\<lambda>_. ''1''" and err = "- 4005"]
      strerror_in_buffer [where n = 8 and b = "''12345678''" and strerror_r = "\<lambda>e b n. (0, b)" and show_int = "\<lambda>_. ''1''" and err = 4006] t n k by auto
qed

end
