(* ===== verification/Newip_System.thy ===== *)
theory Newip_System
  imports Tc_Router User_Table
begin

text \<open>
  The programs together: the table that \<open>xdp_prog_user.c\<close> fills from a string is the map that
  \<open>xdp_prog_kern.c\<close> reads, and the interface found there travels in the metadata to \<open>tc_prog_kern.c\<close>.
\<close>

section \<open>What a table string says of an address\<close>




section \<open>Properties\<close>



end
