(* ===== verification/Libbpf_Btf.thy ===== *)
theory Libbpf_Btf
  imports Xdp_Base
begin

text \<open>
  Type information of BPF objects (\<open>xdp/libbpf/src/btf.c\<close>, \<open>btf.h\<close>): a header, a section with the types one
  after the other, and a section with strings. An object is the list of its layers: the first is the
  object itself, the rest is the object it is based on, and the empty list is NULL. A pointer into a section
  is the memory from there on, so a load behind the end of the block is a fault. Whether memory is
  found is a parameter. The host is little-endian with pointers of 8 bytes.
\<close>

section \<open>The wire format\<close>

definition BTF_MAGIC :: u16 where "BTF_MAGIC = 0xeB9F"

record btf_header =
  h_magic :: u16
  h_version :: u8
  h_flags :: u8
  h_hdr_len :: u32
  h_type_off :: u32
  h_type_len :: u32
  h_str_off :: u32
  h_str_len :: u32

abbreviation (input) sizeof_btf_header :: nat where "sizeof_btf_header \<equiv> 24"
abbreviation (input) sizeof_btf_type :: nat where "sizeof_btf_type \<equiv> 12"

definition get_btf_header :: "u8 list \<Rightarrow> btf_header res" where
  "get_btf_header m =
     rbind (ld16 m 0) (\<lambda>mg. rbind (ld8 m 2) (\<lambda>v. rbind (ld8 m 3) (\<lambda>fl.
     rbind (ld32 m 4) (\<lambda>hl. rbind (ld32 m 8) (\<lambda>toff. rbind (ld32 m 12) (\<lambda>tlen.
     rbind (ld32 m 16) (\<lambda>soff. rbind (ld32 m 20) (\<lambda>slen.
       Inr \<lparr>h_magic = mg, h_version = v, h_flags = fl, h_hdr_len = hl, h_type_off = toff, h_type_len = tlen,
            h_str_off = soff, h_str_len = slen\<rparr>))))))))"

definition put_btf_header :: "btf_header \<Rightarrow> u8 list" where
  "put_btf_header h =
     [lo8 (h_magic h), hi8 (h_magic h), h_version h, h_flags h] @ bytes32 (h_hdr_len h) @ bytes32 (h_type_off h) @
     bytes32 (h_type_len h) @ bytes32 (h_str_off h) @ bytes32 (h_str_len h)"

definition BTF_INFO_KIND :: "u32 \<Rightarrow> u32" where "BTF_INFO_KIND info = drop_bit 24 info AND 0x0f"
definition BTF_INFO_VLEN :: "u32 \<Rightarrow> u32" where "BTF_INFO_VLEN info = info AND 0xffff"
definition BTF_INFO_KFLAG :: "u32 \<Rightarrow> u32" where "BTF_INFO_KFLAG info = drop_bit 31 info"

abbreviation (input) BTF_KIND_UNKN :: u32 where "BTF_KIND_UNKN \<equiv> 0"
abbreviation (input) BTF_KIND_INT :: u32 where "BTF_KIND_INT \<equiv> 1"
abbreviation (input) BTF_KIND_PTR :: u32 where "BTF_KIND_PTR \<equiv> 2"
abbreviation (input) BTF_KIND_ARRAY :: u32 where "BTF_KIND_ARRAY \<equiv> 3"
abbreviation (input) BTF_KIND_STRUCT :: u32 where "BTF_KIND_STRUCT \<equiv> 4"
abbreviation (input) BTF_KIND_UNION :: u32 where "BTF_KIND_UNION \<equiv> 5"
abbreviation (input) BTF_KIND_ENUM :: u32 where "BTF_KIND_ENUM \<equiv> 6"
abbreviation (input) BTF_KIND_FWD :: u32 where "BTF_KIND_FWD \<equiv> 7"
abbreviation (input) BTF_KIND_TYPEDEF :: u32 where "BTF_KIND_TYPEDEF \<equiv> 8"
abbreviation (input) BTF_KIND_VOLATILE :: u32 where "BTF_KIND_VOLATILE \<equiv> 9"
abbreviation (input) BTF_KIND_CONST :: u32 where "BTF_KIND_CONST \<equiv> 10"
abbreviation (input) BTF_KIND_RESTRICT :: u32 where "BTF_KIND_RESTRICT \<equiv> 11"
abbreviation (input) BTF_KIND_FUNC :: u32 where "BTF_KIND_FUNC \<equiv> 12"
abbreviation (input) BTF_KIND_FUNC_PROTO :: u32 where "BTF_KIND_FUNC_PROTO \<equiv> 13"
abbreviation (input) BTF_KIND_VAR :: u32 where "BTF_KIND_VAR \<equiv> 14"
abbreviation (input) BTF_KIND_DATASEC :: u32 where "BTF_KIND_DATASEC \<equiv> 15"

text \<open>The fields of a \<open>struct btf_type\<close> at the front of the memory.\<close>

definition t_name_off :: "u8 list \<Rightarrow> u32 res" where "t_name_off t = ld32 t 0"
definition t_info :: "u8 list \<Rightarrow> u32 res" where "t_info t = ld32 t 4"
definition t_type :: "u8 list \<Rightarrow> u32 res" where "t_type t = ld32 t 8"

definition btf_kind :: "u8 list \<Rightarrow> u32 res" where
  "btf_kind t = rbind (t_info t) (\<lambda>info. Inr (BTF_INFO_KIND info))"

definition btf_vlen :: "u8 list \<Rightarrow> nat res" where
  "btf_vlen t = rbind (t_info t) (\<lambda>info. Inr (unat (BTF_INFO_VLEN info)))"

definition btf_kflag :: "u8 list \<Rightarrow> bool res" where
  "btf_kflag t = rbind (t_info t) (\<lambda>info. Inr (BTF_INFO_KFLAG info \<noteq> 0))"

definition btf_is_mod :: "u8 list \<Rightarrow> bool res" where
  "btf_is_mod t = rbind (btf_kind t) (\<lambda>k. Inr (k = BTF_KIND_VOLATILE \<or> k = BTF_KIND_CONST \<or> k = BTF_KIND_RESTRICT))"

text \<open>What stands behind the structure: the three words of an array; member \<open>i\<close> of a structure.\<close>

definition array_type :: "u8 list \<Rightarrow> u32 res" where "array_type t = ld32 t 12"
definition array_nelems :: "u8 list \<Rightarrow> u32 res" where "array_nelems t = ld32 t 20"
definition member_type :: "u8 list \<Rightarrow> nat \<Rightarrow> u32 res" where "member_type t i = ld32 t (12 + 12 * i + 4)"
definition member_offset :: "u8 list \<Rightarrow> nat \<Rightarrow> u32 res" where "member_offset t i = ld32 t (12 + 12 * i + 8)"

definition btf_member_bit_offset :: "u8 list \<Rightarrow> nat \<Rightarrow> u32 res" where
  "btf_member_bit_offset t i =
     rbind (btf_kflag t) (\<lambda>kflag. rbind (member_offset t i) (\<lambda>off. Inr (if kflag then off AND 0xffffff else off)))"

definition btf_member_bitfield_size :: "u8 list \<Rightarrow> nat \<Rightarrow> u32 res" where
  "btf_member_bitfield_size t i =
     rbind (btf_kflag t) (\<lambda>kflag. if kflag then rbind (member_offset t i) (\<lambda>off. Inr (drop_bit 24 off)) else Inr 0)"

definition btf_int_encoding :: "u8 list \<Rightarrow> u32 res" where
  "btf_int_encoding t = rbind (ld32 t 12) (\<lambda>v. Inr (drop_bit 24 (v AND 0x0f000000)))"
definition btf_int_offset :: "u8 list \<Rightarrow> u32 res" where
  "btf_int_offset t = rbind (ld32 t 12) (\<lambda>v. Inr (drop_bit 16 (v AND 0x00ff0000)))"
definition btf_int_bits :: "u8 list \<Rightarrow> u32 res" where
  "btf_int_bits t = rbind (ld32 t 12) (\<lambda>v. Inr (v AND 0x000000ff))"

section \<open>Changing the byte order\<close>

definition bswap_16 :: "u16 \<Rightarrow> u16" where "bswap_16 = ntohs"

definition bswap_32 :: "u32 \<Rightarrow> u32" where
  "bswap_32 w = le32 (ucast (drop_bit 24 w)) (ucast (drop_bit 16 w)) (ucast (drop_bit 8 w)) (ucast w)"

text \<open>Replacing \<open>n\<close> words in place.\<close>

fun swap_words :: "u8 list \<Rightarrow> nat \<Rightarrow> nat \<Rightarrow> u8 list res" where
  "swap_words m i 0 = Inr m"
| "swap_words m i (Suc n) = rbind (ld32 m i) (\<lambda>w. rbind (st32 m i (bswap_32 w)) (\<lambda>m. swap_words m (i + 4) n))"

definition btf_bswap_hdr :: "u8 list \<Rightarrow> u8 list res" where
  "btf_bswap_hdr m = rbind (ld16 m 0) (\<lambda>mg. rbind (st16 m 0 (bswap_16 mg)) (\<lambda>m. swap_words m 4 5))"

definition btf_bswap_type_base :: "u8 list \<Rightarrow> nat \<Rightarrow> u8 list res" where
  "btf_bswap_type_base m p = swap_words m p 3"

definition btf_bswap_type_rest :: "u8 list \<Rightarrow> nat \<Rightarrow> (int \<times> u8 list) res" where
  "btf_bswap_type_rest m p =
     rbind (btf_vlen (drop p m)) (\<lambda>vlen. rbind (btf_kind (drop p m)) (\<lambda>k.
       let words = (\<lambda>n. rbind (swap_words m (p + 12) n) (\<lambda>m. Inr (0, m)))
       in if k \<in> {BTF_KIND_FWD, BTF_KIND_CONST, BTF_KIND_VOLATILE, BTF_KIND_RESTRICT, BTF_KIND_PTR,
                  BTF_KIND_TYPEDEF, BTF_KIND_FUNC} then Inr (0, m)
          else if k = BTF_KIND_INT then words 1
          else if k = BTF_KIND_ENUM then words (2 * vlen)
          else if k = BTF_KIND_ARRAY then words 3
          else if k = BTF_KIND_STRUCT \<or> k = BTF_KIND_UNION then words (3 * vlen)
          else if k = BTF_KIND_FUNC_PROTO then words (2 * vlen)
          else if k = BTF_KIND_VAR then words 1
          else if k = BTF_KIND_DATASEC then words (3 * vlen)
          else Inr (- 22, m)))"

section \<open>Parsing\<close>

text \<open>The size of a type; \<open>- 22\<close> is \<open>- EINVAL\<close>.\<close>

definition btf_type_size :: "u8 list \<Rightarrow> int res" where
  "btf_type_size t =
     rbind (btf_vlen t) (\<lambda>vlen. rbind (btf_kind t) (\<lambda>k.
       Inr (if k \<in> {BTF_KIND_FWD, BTF_KIND_CONST, BTF_KIND_VOLATILE, BTF_KIND_RESTRICT, BTF_KIND_PTR,
                    BTF_KIND_TYPEDEF, BTF_KIND_FUNC} then 12
            else if k = BTF_KIND_INT then 12 + 4
            else if k = BTF_KIND_ENUM then 12 + int vlen * 8
            else if k = BTF_KIND_ARRAY then 12 + 12
            else if k = BTF_KIND_STRUCT \<or> k = BTF_KIND_UNION then 12 + int vlen * 12
            else if k = BTF_KIND_FUNC_PROTO then 12 + int vlen * 8
            else if k = BTF_KIND_VAR then 12 + 4
            else if k = BTF_KIND_DATASEC then 12 + int vlen * 12
            else - 22)))"

text \<open>Growing an array of \<open>elem_sz\<close> bytes for each element, whose length is its capacity: a quarter more,
  at least 16, at most \<open>max_cnt\<close>, and enough.\<close>

definition btf_add_mem :: "(nat \<Rightarrow> bool) \<Rightarrow> 'a \<Rightarrow> 'a list \<Rightarrow> nat \<Rightarrow> nat \<Rightarrow> int \<Rightarrow> nat \<Rightarrow> 'a list option" where
  "btf_add_mem alloc zero data elem_sz cur_cnt max_cnt add_cnt =
     (let cap_cnt = length data in
      if cur_cnt + add_cnt \<le> cap_cnt then Some data
      else if int (cur_cnt + add_cnt) > max_cnt then None
      else
        let new_cnt = cap_cnt + cap_cnt div 4;
            new_cnt = (if new_cnt < 16 then 16 else new_cnt);
            new_cnt = (if int new_cnt > max_cnt then nat max_cnt else new_cnt);
            new_cnt = (if new_cnt < cur_cnt + add_cnt then cur_cnt + add_cnt else new_cnt)
        in if alloc (new_cnt * elem_sz) then Some (data @ replicate (new_cnt - cap_cnt) zero) else None)"

definition btf_ensure_mem :: "(nat \<Rightarrow> bool) \<Rightarrow> 'a \<Rightarrow> 'a list \<Rightarrow> nat \<Rightarrow> nat \<Rightarrow> int \<times> 'a list" where
  "btf_ensure_mem alloc zero data elem_sz need_cnt =
     (if need_cnt \<le> length data then (0, data)
      else (case btf_add_mem alloc zero data elem_sz (length data) (2 ^ 64 - 1) (need_cnt - length data) of
              None \<Rightarrow> (- 12, data) | Some data \<Rightarrow> (0, data)))"

definition btf_add_type_idx_entry :: "(nat \<Rightarrow> bool) \<Rightarrow> u32 list \<Rightarrow> u32 \<Rightarrow> u32 \<Rightarrow> u32 list option" where
  "btf_add_type_idx_entry alloc offs nr type_off =
     (case btf_add_mem alloc 0 offs 4 (unat nr) 0x7fffffff 1 of
        None \<Rightarrow> None | Some offs \<Rightarrow> Some (offs[unat nr := type_off]))"

lemma btf_type_size_cases: "btf_type_size t = Inr s \<Longrightarrow> s = - 22 \<or> 12 \<le> s"
  by (auto simp: btf_type_size_def res_simps Let_def split: if_splits)

text \<open>The loop over the types: \<open>sw\<close> is \<open>swapped_endian\<close>, \<open>fin\<close> the end of the section, \<open>next\<close> the
  current position in it.\<close>

function parse_types ::
  "(nat \<Rightarrow> bool) \<Rightarrow> bool \<Rightarrow> nat \<Rightarrow> u8 list \<Rightarrow> nat \<Rightarrow> u32 list \<Rightarrow> u32 \<Rightarrow> (int \<times> u8 list \<times> u32 list \<times> u32) res" where
  "parse_types alloc sw fin m pos offs nr =
     (if pos + sizeof_btf_type \<le> fin then
        rbind (if sw then btf_bswap_type_base m pos else Inr m) (\<lambda>m.
        rbind (btf_type_size (drop pos m)) (\<lambda>type_size.
          if type_size < 0 then Inr (type_size, m, offs, nr)
          else if pos + nat type_size > fin then Inr (- 22, m, offs, nr)
          else
            rbind (if sw then btf_bswap_type_rest m pos else Inr (0, m)) (\<lambda>(err, m).
              if err \<noteq> 0 then Inr (- 22, m, offs, nr)
              else (case btf_add_type_idx_entry alloc offs nr (word_of_nat pos) of
                      None \<Rightarrow> Inr (- 12, m, offs, nr)
                    | Some offs \<Rightarrow> parse_types alloc sw fin m (pos + nat type_size) offs (nr + 1)))))
      else if pos \<noteq> fin then Inr (- 22, m, offs, nr)
      else Inr (0, m, offs, nr))"
  by pat_completeness auto
termination
  by (relation "measure (\<lambda>(al, sw, fin, m, pos, offs, nr). fin - pos)") (auto dest: btf_type_size_cases)

declare parse_types.simps [simp del]

text \<open>\<open>hdr_rest\<close> is the memory behind the header structure.\<close>

record btf =
  raw_data :: "u8 list option"
  raw_data_swapped :: "u8 list option"
  raw_size :: u32
  swapped_endian :: bool
  hdr :: btf_header
  hdr_rest :: "u8 list"
  types_data :: "u8 list"
  type_offs :: "u32 list"
  nr_types :: u32
  start_id :: u32
  start_str_off :: u32
  strs_data :: "u8 list"
  btf_fd :: int
  ptr_sz :: int

definition btf__get_nr_types :: "btf \<Rightarrow> u32" where
  "btf__get_nr_types b = start_id b + nr_types b - 1"

text \<open>The header is changed in place in the raw data. The result is the error with the raw data and the flag.\<close>

definition btf_parse_hdr :: "u8 list \<Rightarrow> (int \<times> u8 list \<times> bool) res" where
  "btf_parse_hdr raw =
     (if length raw < sizeof_btf_header then Inr (- 22, raw, False)
      else
        rbind (get_btf_header raw) (\<lambda>h.
        rbind (if h_magic h = bswap_16 BTF_MAGIC then
                 (if bswap_32 (h_hdr_len h) \<noteq> 24 then Inr (- 95, raw, True)
                  else rbind (btf_bswap_hdr raw) (\<lambda>raw. Inr (0, raw, True)))
               else if h_magic h \<noteq> BTF_MAGIC then Inr (- 22, raw, False)
               else Inr (0, raw, False)) (\<lambda>(err, raw, sw).
          if err \<noteq> 0 then Inr (err, raw, sw)
          else
            rbind (get_btf_header raw) (\<lambda>h.
              Inr (if word_of_nat (length raw - sizeof_btf_header) < h_str_off h + h_str_len h then - 22
                   else if h_type_off h + h_type_len h > h_str_off h then - 22
                   else if h_type_off h mod 4 \<noteq> 0 then - 22
                   else 0, raw, sw)))))"

definition btf_parse_str_sec :: "btf list \<Rightarrow> u32 \<Rightarrow> u8 list \<Rightarrow> int res" where
  "btf_parse_str_sec base str_len strs =
     (if base \<noteq> [] \<and> str_len = 0 then Inr 0
      else if str_len = 0 \<or> str_len - 1 > 0x7fffffff then Inr (- 22)
      else rbind (ld8 strs (unat str_len - 1)) (\<lambda>last.
        if last \<noteq> 0 then Inr (- 22)
        else if base = [] then rbind (ld8 strs 0) (\<lambda>first. Inr (if first \<noteq> 0 then - 22 else 0))
        else Inr 0))"

text \<open>\<open>callocs\<close> and \<open>mallocs\<close> say whether the structure and the copy of the data are allocated. The result
  is a negative error number or the object.\<close>

definition btf_new :: "(nat \<Rightarrow> bool) \<Rightarrow> bool \<Rightarrow> bool \<Rightarrow> u8 list \<Rightarrow> btf list \<Rightarrow> (int + btf list) res" where
  "btf_new alloc callocs mallocs data base =
     (if \<not> callocs \<or> \<not> mallocs then Inr (Inl (- 12))
      else
        rbind (btf_parse_hdr data) (\<lambda>(err, raw, sw).
          if err \<noteq> 0 then Inr (Inl err)
          else
            rbind (get_btf_header raw) (\<lambda>h.
              let strs = drop (unat (h_hdr_len h) + unat (h_str_off h)) raw;
                  tpos = unat (h_hdr_len h) + unat (h_type_off h);
                  types = drop tpos raw
              in rbind (btf_parse_str_sec base (h_str_len h) strs) (\<lambda>err.
                   if err \<noteq> 0 then Inr (Inl err)
                   else
                     rbind (parse_types alloc sw (unat (h_type_len h)) types 0 [] 0) (\<lambda>(err, types, offs, nr).
                       if err \<noteq> 0 then Inr (Inl err)
                       else
                         Inr (Inr (\<lparr>raw_data = Some (take tpos raw @ types), raw_data_swapped = None,
                           raw_size = word_of_nat (length data), swapped_endian = sw, hdr = h,
                           hdr_rest = drop sizeof_btf_header (take tpos raw @ types), types_data = types, type_offs = offs,
                           nr_types = nr,
                           start_id = (case base of [] \<Rightarrow> 1 | b # _ \<Rightarrow> btf__get_nr_types b + 1),
                           start_str_off = (case base of [] \<Rightarrow> 0 | b # _ \<Rightarrow> h_str_len (hdr b)),
                           strs_data = drop (unat (h_hdr_len h) + unat (h_str_off h)) (take tpos raw @ types),
                           btf_fd = - 1, ptr_sz = 0\<rparr> # base)))))))"

section \<open>Empty objects, and the data as one block\<close>

definition btf_new_empty :: "bool \<Rightarrow> bool \<Rightarrow> btf list \<Rightarrow> int + btf list" where
  "btf_new_empty callocs raw_ok base =
     (if \<not> callocs \<or> \<not> raw_ok then Inl (- 12)
      else
        let len = (case base of [] \<Rightarrow> 1 | _ \<Rightarrow> 0);
            h = \<lparr>h_magic = BTF_MAGIC, h_version = 1, h_flags = 0, h_hdr_len = 24, h_type_off = 0, h_type_len = 0,
                 h_str_off = 0, h_str_len = word_of_nat len\<rparr>
        in Inr (\<lparr>raw_data = Some (put_btf_header h @ replicate len 0), raw_data_swapped = None,
             raw_size = 24 + word_of_nat len, swapped_endian = False, hdr = h, hdr_rest = replicate len 0,
             types_data = replicate len 0, type_offs = [], nr_types = 0,
             start_id = (case base of [] \<Rightarrow> 1 | b # _ \<Rightarrow> btf__get_nr_types b + 1),
             start_str_off = (case base of [] \<Rightarrow> 0 | b # _ \<Rightarrow> h_str_len (hdr b)),
             strs_data = replicate len 0, btf_fd = - 1, ptr_sz = 8\<rparr> # base))"

text \<open>The types in the other byte order: \<open>p\<close> is the place of the section in the block. \<open>None\<close> is an unknown
  type.\<close>

fun swap_types :: "u32 list \<Rightarrow> nat \<Rightarrow> nat \<Rightarrow> nat \<Rightarrow> u8 list \<Rightarrow> u8 list option res" where
  "swap_types offs p i 0 m = Inr (Some m)"
| "swap_types offs p i (Suc n) m =
     rbind (get_elem offs i) (\<lambda>off.
     rbind (btf_bswap_type_rest m (p + unat off)) (\<lambda>(err, m).
       if err \<noteq> 0 then Inr None
       else rbind (btf_bswap_type_base m (p + unat off)) (swap_types offs p (i + 1) n)))"

definition btf_get_raw_data :: "(nat \<Rightarrow> bool) \<Rightarrow> btf \<Rightarrow> bool \<Rightarrow> (u8 list \<times> u32) option res" where
  "btf_get_raw_data alloc b swap_endian =
     (case (if swap_endian then raw_data_swapped b else raw_data b) of
        Some d \<Rightarrow> Inr (Some (d, raw_size b))
      | None \<Rightarrow>
          let hl = h_hdr_len (hdr b); tl = h_type_len (hdr b); sl = h_str_len (hdr b); data_sz = hl + tl + sl
          in if \<not> alloc (unat data_sz) then Inr None
             else
               rbind (ldn (put_btf_header (hdr b) @ hdr_rest b) 0 (unat hl)) (\<lambda>hd.
               rbind (stn (replicate (unat data_sz) 0) 0 hd) (\<lambda>m.
               rbind (if swap_endian then btf_bswap_hdr m else Inr m) (\<lambda>m.
               rbind (ldn (types_data b) 0 (unat tl)) (\<lambda>ts.
               rbind (stn m (unat hl) ts) (\<lambda>m.
               rbind (if swap_endian then swap_types (type_offs b) (unat hl) 0 (unat (nr_types b)) m else Inr (Some m)) (\<lambda>r.
                 case r of
                   None \<Rightarrow> Inr None
                 | Some m \<Rightarrow>
                     rbind (ldn (strs_data b) 0 (unat sl)) (\<lambda>ss.
                     rbind (stn m (unat hl + unat tl) ss) (\<lambda>m. Inr (Some (m, data_sz)))))))))))"

definition btf__get_raw_data :: "(nat \<Rightarrow> bool) \<Rightarrow> btf \<Rightarrow> ((u8 list \<times> u32) option \<times> btf) res" where
  "btf__get_raw_data alloc b =
     rbind (btf_get_raw_data alloc b (swapped_endian b)) (\<lambda>r.
       case r of
         None \<Rightarrow> Inr (None, b)
       | Some (d, data_sz) \<Rightarrow>
           Inr (Some (d, data_sz),
             if swapped_endian b then b\<lparr>raw_size := data_sz, raw_data_swapped := Some d\<rparr>
             else b\<lparr>raw_size := data_sz, raw_data := Some d\<rparr>))"

datatype btf_endianness = BTF_LITTLE_ENDIAN | BTF_BIG_ENDIAN

definition btf__endianness :: "btf \<Rightarrow> btf_endianness" where
  "btf__endianness b = (if swapped_endian b then BTF_BIG_ENDIAN else BTF_LITTLE_ENDIAN)"

definition btf__set_endianness :: "btf \<Rightarrow> btf_endianness \<Rightarrow> btf" where
  "btf__set_endianness b endian =
     (let b = b\<lparr>swapped_endian := endian = BTF_BIG_ENDIAN\<rparr>
      in if \<not> swapped_endian b then b\<lparr>raw_data_swapped := None\<rparr> else b)"

section \<open>Finding types\<close>

text \<open>A pointer to a type: the type \<open>void\<close>, which has a structure of its own with zeros, or a type of a
  section.\<close>

datatype btf_ptr = Btf_Void | Btf_Type "u8 list"

fun btf_mem :: "btf_ptr \<Rightarrow> u8 list" where
  "btf_mem Btf_Void = replicate 12 0"
| "btf_mem (Btf_Type m) = m"

fun btf_type_by_id :: "btf list \<Rightarrow> u32 \<Rightarrow> btf_ptr res" where
  "btf_type_by_id [] type_id = (if type_id = 0 then Inr Btf_Void else Inl NullDeref)"
| "btf_type_by_id (b # base) type_id =
     (if type_id = 0 then Inr Btf_Void
      else if type_id < start_id b then btf_type_by_id base type_id
      else rbind (get_elem (type_offs b) (unat (type_id - start_id b))) (\<lambda>off.
             Inr (Btf_Type (drop (unat off) (types_data b)))))"

definition btf__type_by_id :: "btf list \<Rightarrow> u32 \<Rightarrow> btf_ptr option res" where
  "btf__type_by_id bs type_id =
     (case bs of
        [] \<Rightarrow> Inl NullDeref
      | b # _ \<Rightarrow> if type_id \<ge> start_id b + nr_types b then Inr None
                  else rbind (btf_type_by_id bs type_id) (\<lambda>t. Inr (Some t)))"

fun btf__str_by_offset :: "btf list \<Rightarrow> u32 \<Rightarrow> u8 list option res" where
  "btf__str_by_offset [] off = Inl NullDeref"
| "btf__str_by_offset (b # base) off =
     (if off < start_str_off b then btf__str_by_offset base off
      else if off - start_str_off b < h_str_len (hdr b)
      then Inr (Some (drop (unat (off - start_str_off b)) (strs_data b)))
      else Inr None)"

definition btf__name_by_offset :: "btf list \<Rightarrow> u32 \<Rightarrow> u8 list option res" where
  "btf__name_by_offset bs off = btf__str_by_offset bs off"

text \<open>The string at a pointer, without its terminator.\<close>

fun bstr :: "u8 list \<Rightarrow> u8 list res" where
  "bstr [] = Inl OutOfBounds"
| "bstr (c # cs) = (if c = 0 then Inr [] else rbind (bstr cs) (\<lambda>s. Inr (c # s)))"

definition ascii :: "string \<Rightarrow> u8 list" where "ascii s = List.map of_char s"

text \<open>A type must not be NULL where its fields are read.\<close>

definition tderef :: "btf_ptr option \<Rightarrow> u8 list res" where
  "tderef t = (case t of None \<Rightarrow> Inl NullDeref | Some p \<Rightarrow> Inr (btf_mem p))"

definition btf__find_by_name_kind_at :: "btf list \<Rightarrow> u8 list \<Rightarrow> u32 option \<Rightarrow> u32 \<Rightarrow> bool res" where
  "btf__find_by_name_kind_at bs type_name kind i =
     rbind (btf__type_by_id bs i) (\<lambda>t. rbind (tderef t) (\<lambda>m.
     rbind (case kind of None \<Rightarrow> Inr True | Some k \<Rightarrow> rbind (btf_kind m) (\<lambda>k'. Inr (k' = k))) (\<lambda>ok.
       if \<not> ok then Inr False
       else rbind (t_name_off m) (\<lambda>off. rbind (btf__name_by_offset bs off) (\<lambda>name.
              case name of None \<Rightarrow> Inr False | Some s \<Rightarrow> rbind (bstr s) (\<lambda>s. Inr (s = type_name)))))))"

text \<open>The loop over the identifiers, \<open>n\<close> of them, from \<open>i\<close> on.\<close>

fun find_loop :: "btf list \<Rightarrow> u8 list \<Rightarrow> u32 option \<Rightarrow> u32 \<Rightarrow> nat \<Rightarrow> int res" where
  "find_loop bs type_name kind i 0 = Inr (- 2)"
| "find_loop bs type_name kind i (Suc n) =
     rbind (btf__find_by_name_kind_at bs type_name kind i) (\<lambda>found.
       if found then Inr (sint i) else find_loop bs type_name kind (i + 1) n)"

definition btf__find_by_name :: "btf list \<Rightarrow> u8 list \<Rightarrow> int res" where
  "btf__find_by_name bs type_name =
     (case bs of
        [] \<Rightarrow> Inl NullDeref
      | b # _ \<Rightarrow> if type_name = ascii ''void'' then Inr 0
                  else find_loop bs type_name None 1 (unat (btf__get_nr_types b)))"

definition btf__find_by_name_kind :: "btf list \<Rightarrow> u8 list \<Rightarrow> u32 \<Rightarrow> int res" where
  "btf__find_by_name_kind bs type_name kind =
     (case bs of
        [] \<Rightarrow> Inl NullDeref
      | b # _ \<Rightarrow> if kind = BTF_KIND_UNKN \<or> type_name = ascii ''void'' then Inr 0
                  else find_loop bs type_name (Some kind) 1 (unat (btf__get_nr_types b)))"

section \<open>Sizes and alignments\<close>

fun ptr_size_loop :: "btf list \<Rightarrow> u32 \<Rightarrow> nat \<Rightarrow> int res" where
  "ptr_size_loop bs i 0 = Inr (- 1)"
| "ptr_size_loop bs i (Suc n) =
     rbind (btf__type_by_id bs i) (\<lambda>t. rbind (tderef t) (\<lambda>m. rbind (btf_kind m) (\<lambda>k.
       if k \<noteq> BTF_KIND_INT then ptr_size_loop bs (i + 1) n
       else rbind (t_name_off m) (\<lambda>off. rbind (btf__name_by_offset bs off) (\<lambda>name.
         case name of
           None \<Rightarrow> ptr_size_loop bs (i + 1) n
         | Some s \<Rightarrow> rbind (bstr s) (\<lambda>s. rbind (t_type m) (\<lambda>sz.
             if (s = ascii ''long int'' \<or> s = ascii ''long unsigned int'') \<and> (sz = 4 \<or> sz = 8)
             then Inr (sint sz) else ptr_size_loop bs (i + 1) n)))))))"

definition determine_ptr_size :: "btf list \<Rightarrow> int res" where
  "determine_ptr_size bs =
     (case bs of
        [] \<Rightarrow> Inl NullDeref
      | b # base \<Rightarrow>
          (case base of
             b0 # _ \<Rightarrow> if ptr_sz b0 > 0 then Inr (ptr_sz b0) else ptr_size_loop bs 1 (unat (btf__get_nr_types b))
           | [] \<Rightarrow> ptr_size_loop bs 1 (unat (btf__get_nr_types b))))"

text \<open>The size is kept in the object once it is known.\<close>

definition known_ptr_sz :: "btf list \<Rightarrow> (int \<times> btf list) res" where
  "known_ptr_sz bs =
     (case bs of
        [] \<Rightarrow> Inl NullDeref
      | b # base \<Rightarrow> if ptr_sz b = 0 then rbind (determine_ptr_size bs) (\<lambda>s. Inr (s, b\<lparr>ptr_sz := s\<rparr> # base))
                     else Inr (ptr_sz b, bs))"

definition btf_ptr_sz :: "btf list \<Rightarrow> (int \<times> btf list) res" where
  "btf_ptr_sz bs = rbind (known_ptr_sz bs) (\<lambda>(s, bs). Inr (if s < 0 then 8 else s, bs))"

definition btf__pointer_size :: "btf list \<Rightarrow> (int \<times> btf list) res" where
  "btf__pointer_size bs = rbind (known_ptr_sz bs) (\<lambda>(s, bs). Inr (if s < 0 then 0 else s, bs))"

definition btf__set_pointer_size :: "btf \<Rightarrow> nat \<Rightarrow> int \<times> btf" where
  "btf__set_pointer_size b sz = (if sz \<noteq> 4 \<and> sz \<noteq> 8 then (- 22, b) else (0, b\<lparr>ptr_sz := int sz\<rparr>))"

text \<open>\<open>t == &btf_void || btf_is_fwd (t)\<close>, or no type at all.\<close>

definition btf_type_is_void_or_null :: "btf_ptr option \<Rightarrow> bool res" where
  "btf_type_is_void_or_null t =
     (case t of
        None \<Rightarrow> Inr True
      | Some Btf_Void \<Rightarrow> Inr True
      | Some (Btf_Type m) \<Rightarrow> rbind (btf_kind m) (\<lambda>k. Inr (k = BTF_KIND_FWD)))"

text \<open>The end of \<open>btf__resolve_size\<close>, from the label \<open>done\<close>; \<open>- 7\<close> is \<open>- E2BIG\<close>.\<close>

definition resolve_done :: "u32 \<Rightarrow> int \<Rightarrow> int" where
  "resolve_done nelems sz =
     (if sz < 0 then - 22
      else if nelems \<noteq> 0 \<and> sz > uint ((- 1 :: u32) div nelems) then - 7
      else uint nelems * sz)"

text \<open>The loop of \<open>btf__resolve_size\<close>: \<open>n\<close> is what is left of the depth.\<close>

fun resolve_loop :: "nat \<Rightarrow> btf list \<Rightarrow> btf_ptr option \<Rightarrow> u32 \<Rightarrow> (int \<times> btf list) res" where
  "resolve_loop 0 bs t nelems = Inr (resolve_done nelems (- 1), bs)"
| "resolve_loop (Suc n) bs t nelems =
     rbind (btf_type_is_void_or_null t) (\<lambda>stop.
       if stop then Inr (resolve_done nelems (- 1), bs)
       else
         rbind (tderef t) (\<lambda>m. rbind (btf_kind m) (\<lambda>k.
           if k \<in> {BTF_KIND_INT, BTF_KIND_STRUCT, BTF_KIND_UNION, BTF_KIND_ENUM, BTF_KIND_DATASEC} then
             rbind (t_type m) (\<lambda>sz. Inr (resolve_done nelems (uint sz), bs))
           else if k = BTF_KIND_PTR then
             rbind (btf_ptr_sz bs) (\<lambda>(sz, bs). Inr (resolve_done nelems sz, bs))
           else if k \<in> {BTF_KIND_TYPEDEF, BTF_KIND_VOLATILE, BTF_KIND_CONST, BTF_KIND_RESTRICT, BTF_KIND_VAR} then
             rbind (t_type m) (\<lambda>tid. rbind (btf__type_by_id bs tid) (\<lambda>t. resolve_loop n bs t nelems))
           else if k = BTF_KIND_ARRAY then
             rbind (array_nelems m) (\<lambda>an.
               if nelems \<noteq> 0 \<and> an > (- 1) div nelems then Inr (- 7, bs)
               else rbind (array_type m) (\<lambda>tid. rbind (btf__type_by_id bs tid) (\<lambda>t. resolve_loop n bs t (nelems * an))))
           else Inr (- 22, bs))))"

definition btf__resolve_size :: "btf list \<Rightarrow> u32 \<Rightarrow> (int \<times> btf list) res" where
  "btf__resolve_size bs type_id = rbind (btf__type_by_id bs type_id) (\<lambda>t. resolve_loop 32 bs t 1)"

text \<open>The result is the last identifier, the type, and the depth that is left.\<close>

fun resolve_type_loop :: "nat \<Rightarrow> btf list \<Rightarrow> u32 \<Rightarrow> btf_ptr option \<Rightarrow> (u32 \<times> btf_ptr option \<times> nat) res" where
  "resolve_type_loop 0 bs tid t = Inr (tid, t, 0)"
| "resolve_type_loop (Suc n) bs tid t =
     rbind (btf_type_is_void_or_null t) (\<lambda>stop.
       if stop then Inr (tid, t, Suc n)
       else
         rbind (tderef t) (\<lambda>m. rbind (btf_is_mod m) (\<lambda>md. rbind (btf_kind m) (\<lambda>k.
           if md \<or> k = BTF_KIND_TYPEDEF \<or> k = BTF_KIND_VAR then
             rbind (t_type m) (\<lambda>tid. rbind (btf__type_by_id bs tid) (resolve_type_loop n bs tid))
           else Inr (tid, t, Suc n)))))"

definition btf__resolve_type :: "btf list \<Rightarrow> u32 \<Rightarrow> int res" where
  "btf__resolve_type bs type_id =
     rbind (btf__type_by_id bs type_id) (\<lambda>t.
     rbind (resolve_type_loop 32 bs type_id t) (\<lambda>(tid, t, left).
       if left = 0 then Inr (- 22)
       else rbind (btf_type_is_void_or_null t) (\<lambda>stop. Inr (if stop then - 22 else sint tid))))"

text \<open>\<open>btf__align_of\<close> calls itself without a bound; the first argument is the depth of the stack, and \<open>None\<close> that
  it does not suffice.\<close>

fun btf__align_of :: "nat \<Rightarrow> btf list \<Rightarrow> u32 \<Rightarrow> (int \<times> btf list) out"
and align_members :: "nat \<Rightarrow> btf list \<Rightarrow> u8 list \<Rightarrow> nat \<Rightarrow> nat \<Rightarrow> int \<Rightarrow> (int \<times> btf list) out" where
  "btf__align_of 0 bs tid = None"
| "btf__align_of (Suc d) bs tid =
     obind (Some (rbind (btf__type_by_id bs tid) tderef)) (\<lambda>m.
     obind (Some (btf_kind m)) (\<lambda>k.
       if k = BTF_KIND_INT \<or> k = BTF_KIND_ENUM then
         Some (rbind (btf_ptr_sz bs) (\<lambda>(p, bs). rbind (t_type m) (\<lambda>sz. Inr (min p (uint sz), bs))))
       else if k = BTF_KIND_PTR then Some (btf_ptr_sz bs)
       else if k \<in> {BTF_KIND_TYPEDEF, BTF_KIND_VOLATILE, BTF_KIND_CONST, BTF_KIND_RESTRICT} then
         obind (Some (t_type m)) (\<lambda>tid. btf__align_of d bs tid)
       else if k = BTF_KIND_ARRAY then obind (Some (array_type m)) (\<lambda>tid. btf__align_of d bs tid)
       else if k = BTF_KIND_STRUCT \<or> k = BTF_KIND_UNION then
         obind (Some (btf_vlen m)) (\<lambda>vlen. align_members d bs m 0 vlen 1)
       else Some (Inr (0, bs))))"
| "align_members d bs m i 0 max_align = Some (Inr (max_align, bs))"
| "align_members 0 bs m i (Suc n) max_align = None"
| "align_members (Suc d) bs m i (Suc n) max_align =
     obind (Some (member_type m i)) (\<lambda>tid.
     obind (btf__align_of (Suc d) bs tid) (\<lambda>(align, bs).
       if align \<le> 0 then Some (Inr (align, bs)) else align_members (Suc d) bs m (i + 1) n (max max_align align)))"

end
