(* ===== verification/Libbpf_Btf_Spec.thy ===== *)
theory Libbpf_Btf_Spec
  imports Libbpf_Btf
begin

text \<open>
  What the type information of a BPF object promises: a parsed object is well formed, its types and
  strings are found without leaving the memory, the size of a type is computed as with unbounded
  numbers, and the data in the other byte order gives the same object again.
\<close>

section \<open>Types in memory\<close>

definition info_size :: "u32 \<Rightarrow> int" where
  "info_size info =
     (let k = BTF_INFO_KIND info; vlen = unat (BTF_INFO_VLEN info)
      in if k \<in> {BTF_KIND_FWD, BTF_KIND_CONST, BTF_KIND_VOLATILE, BTF_KIND_RESTRICT, BTF_KIND_PTR,
                    BTF_KIND_TYPEDEF, BTF_KIND_FUNC} then 12
            else if k = BTF_KIND_INT then 12 + 4
            else if k = BTF_KIND_ENUM then 12 + int vlen * 8
            else if k = BTF_KIND_ARRAY then 12 + 12
            else if k = BTF_KIND_STRUCT \<or> k = BTF_KIND_UNION then 12 + int vlen * 12
            else if k = BTF_KIND_FUNC_PROTO then 12 + int vlen * 8
            else if k = BTF_KIND_VAR then 12 + 4
            else if k = BTF_KIND_DATASEC then 12 + int vlen * 12
            else - 22)"

lemma btf_type_size_info: "btf_type_size t = rbind (t_info t) (\<lambda>info. Inr (info_size info))"
  by (cases "t_info t") (simp_all add: btf_type_size_def btf_vlen_def btf_kind_def info_size_def Let_def)

text \<open>A whole type is at the front of the memory.\<close>

definition type_ok :: "u8 list \<Rightarrow> bool" where
  "type_ok m \<longleftrightarrow> (\<exists>s. btf_type_size m = Inr s \<and> 12 \<le> s \<and> nat s \<le> length m)"

text \<open>The types tile the memory from a position to another one.\<close>

fun tiles :: "u8 list \<Rightarrow> u32 list \<Rightarrow> nat \<Rightarrow> nat \<Rightarrow> bool" where
  "tiles m [] pos fin \<longleftrightarrow> pos = fin"
| "tiles m (off # offs) pos fin \<longleftrightarrow>
     unat off = pos \<and> pos + 12 \<le> fin \<and>
     (\<exists>s. btf_type_size (drop pos m) = Inr s \<and> 12 \<le> s \<and> pos + nat s \<le> fin \<and> tiles m offs (pos + nat s) fin)"

lemma tiles_nth:
  "tiles m offs pos fin \<Longrightarrow> fin \<le> length m \<Longrightarrow> i < length offs \<Longrightarrow> type_ok (drop (unat (offs ! i)) m)"
proof (induction offs arbitrary: pos i)
  case (Cons off offs)
  then show ?case by (cases i) (auto simp: type_ok_def)
qed simp

lemma tiles_length: "tiles m offs pos fin \<Longrightarrow> pos + 12 * length offs \<le> fin"
proof (induction offs arbitrary: pos)
  case (Cons off offs)
  then obtain s where s: "12 \<le> s" "tiles m offs (pos + nat s) fin" by auto
  have "12 \<le> nat s" using s(1) by simp
  then show ?case using Cons.IH [OF s(2)] by simp
qed simp

lemma ld32_drop: "ld32 (drop p m) i = (if p \<le> length m then ld32 m (p + i) else ld32 [] i)"
  by (auto simp: ld32_def ldn_def add.commute add.left_commute)

lemma ld32_Nil [simp]: "ld32 [] i = Inl OutOfBounds"
  by (simp add: ld32_def ldn_def)

lemma ld32_exists: "i + 4 \<le> length m \<Longrightarrow> \<exists>w. ld32 m i = Inr w"
  by (rule ld32_ok) (simp add: in_buf_def)

lemma type_okE:
  assumes "type_ok m"
  obtains info nm ty where "t_info m = Inr info" "t_name_off m = Inr nm" "t_type m = Inr ty"
    "12 \<le> info_size info" "nat (info_size info) \<le> length m" "12 \<le> length m"
proof -
  obtain s where s: "btf_type_size m = Inr s" "12 \<le> s" "nat s \<le> length m" using assms by (auto simp: type_ok_def)
  then obtain info where info: "t_info m = Inr info" "s = info_size info"
    by (auto simp: btf_type_size_info res_simps)
  have "12 \<le> nat s" using s(2) by simp
  then have l: "12 \<le> length m" using s(3) by linarith
  then obtain nm ty where "t_name_off m = Inr nm" "t_type m = Inr ty"
    unfolding t_name_off_def t_type_def using ld32_exists [of 0 m] ld32_exists [of 8 m] by auto
  then show thesis using that [of info nm ty] info s l by simp
qed

section \<open>Well-formed objects\<close>

definition layer_wf :: "btf \<Rightarrow> bool" where
  "layer_wf b \<longleftrightarrow>
     tiles (types_data b) (take (unat (nr_types b)) (type_offs b)) 0 (unat (h_type_len (hdr b))) \<and>
     unat (h_type_len (hdr b)) \<le> length (types_data b) \<and> unat (nr_types b) \<le> length (type_offs b) \<and>
     unat (h_str_len (hdr b)) \<le> length (strs_data b) \<and>
     (h_str_len (hdr b) \<noteq> 0 \<longrightarrow> strs_data b ! (unat (h_str_len (hdr b)) - 1) = 0) \<and>
     1 \<le> unat (start_id b) \<and> unat (start_id b) + unat (nr_types b) < 2 ^ 32 \<and>
     ptr_sz b \<in> {- 1, 0, 4, 8}"

fun btf_wf :: "btf list \<Rightarrow> bool" where
  "btf_wf [] \<longleftrightarrow> False"
| "btf_wf [b] \<longleftrightarrow> layer_wf b \<and> start_id b = 1 \<and> start_str_off b = 0"
| "btf_wf (b # b' # bs) \<longleftrightarrow>
     layer_wf b \<and> start_id b = start_id b' + nr_types b' \<and> start_str_off b = h_str_len (hdr b') \<and> btf_wf (b' # bs)"

lemma btf_wf_layer: "btf_wf (b # bs) \<Longrightarrow> layer_wf b"
  by (cases bs) auto

definition last_id :: "btf \<Rightarrow> nat" where
  "last_id b = unat (start_id b) + unat (nr_types b) - 1"

lemma unat_ids: "layer_wf b \<Longrightarrow> unat (start_id b + nr_types b) = last_id b + 1"
  by (simp add: layer_wf_def last_id_def unat_word_ariths)

lemma unat_get_nr_types: "layer_wf b \<Longrightarrow> unat (btf__get_nr_types b) = last_id b"
proof -
  assume b: "layer_wf b"
  then have "0 < unat (start_id b + nr_types b)" using unat_ids [OF b] by simp
  then have "unat (start_id b + nr_types b - 1) = unat (start_id b + nr_types b) - 1"
    by (metis unat_minus_one unat_0 less_irrefl)
  then show ?thesis using unat_ids [OF b] by (simp add: btf__get_nr_types_def)
qed

text \<open>The pointers that the lookup of types gives.\<close>

definition ptr_ok :: "btf_ptr \<Rightarrow> bool" where
  "ptr_ok t \<longleftrightarrow> (case t of Btf_Void \<Rightarrow> True | Btf_Type m \<Rightarrow> type_ok m)"

lemma type_in_layer:
  assumes "layer_wf b" "start_id b \<le> tid" "unat tid \<le> last_id b"
  shows "\<exists>m. rbind (get_elem (type_offs b) (unat (tid - start_id b))) (\<lambda>off. Inr (Btf_Type (drop (unat off) (types_data b)))) =
    Inr (Btf_Type m) \<and> type_ok m"
proof -
  let ?i = "unat (tid - start_id b)"
  have i: "?i = unat tid - unat (start_id b)" using assms(2) by (simp add: unat_sub word_le_nat_alt)
  have "unat (start_id b) \<le> unat tid" "1 \<le> unat (start_id b)"
    using assms(1,2) by (simp_all add: word_le_nat_alt layer_wf_def)
  then have "?i < unat (nr_types b)" using i assms(3) unfolding last_id_def by linarith
  then have lt: "?i < length (type_offs b)" "?i < length (take (unat (nr_types b)) (type_offs b))"
    using assms(1) by (auto simp: layer_wf_def)
  have "type_ok (drop (unat (take (unat (nr_types b)) (type_offs b) ! ?i)) (types_data b))"
    using assms(1) lt(2) tiles_nth unfolding layer_wf_def by blast
  then show ?thesis using lt \<open>?i < unat (nr_types b)\<close> by (simp add: get_elem_def)
qed

lemma type_by_id_ok:
  assumes "btf_wf bs" "unat tid \<le> last_id (hd bs)"
  shows "\<exists>t. btf_type_by_id bs tid = Inr t \<and> ptr_ok t \<and> (t = Btf_Void \<longleftrightarrow> tid = 0)"
  using assms
proof (induction bs arbitrary: tid rule: btf_wf.induct)
  case (2 b)
  have "tid < 1 \<longleftrightarrow> tid = 0" by (simp add: word_less_1)
  moreover have "1 \<le> tid" if "tid \<noteq> 0" using that unat_gt_0 [of tid] by (simp add: word_le_nat_alt)
  moreover have "start_id b \<le> tid \<Longrightarrow> ?case"
    using 2 type_in_layer [of b tid] by (fastforce simp: ptr_ok_def)
  ultimately show ?case using 2 by (cases "tid = 0") (auto simp: ptr_ok_def not_less)
next
  case (3 b b' bs)
  show ?case
  proof (cases "tid < start_id b")
    case True
    have "layer_wf b'" using 3(2) btf_wf_layer [of b' bs] by simp
    then have "unat tid \<le> last_id b'" using True 3 unat_ids [of b'] by (simp add: word_less_nat_alt)
    then obtain t where "btf_type_by_id (b' # bs) tid = Inr t" "ptr_ok t" "t = Btf_Void \<longleftrightarrow> tid = 0"
      using "3.IH" [of tid] "3.prems"(1) by auto
    moreover have "btf_type_by_id (b # b' # bs) tid = (if tid = 0 then Inr Btf_Void else btf_type_by_id (b' # bs) tid)"
      using True by simp
    ultimately show ?thesis by (cases "tid = 0") (simp_all only: if_True if_False, auto simp: ptr_ok_def)
  next
    case False
    then show ?thesis using 3 type_in_layer [of b tid] by (fastforce simp: ptr_ok_def not_less)
  qed
qed simp

lemma btf__type_by_id_ok:
  assumes "btf_wf bs"
  shows "\<exists>t. btf__type_by_id bs tid = Inr t \<and> (t = None \<longleftrightarrow> last_id (hd bs) < unat tid) \<and>
    (\<forall>p. t = Some p \<longrightarrow> ptr_ok p \<and> (p = Btf_Void \<longleftrightarrow> tid = 0))"
proof -
  obtain b base where bs: "bs = b # base" using assms by (cases bs) auto
  have wf: "layer_wf b" using assms bs btf_wf_layer by blast
  have "start_id b + nr_types b \<le> tid \<longleftrightarrow> last_id b < unat tid"
    using unat_ids [OF wf] by (simp add: word_le_nat_alt) linarith
  then show ?thesis
    using type_by_id_ok [OF assms, of tid] bs
    by (cases "start_id b + nr_types b \<le> tid") (auto simp: btf__type_by_id_def not_less simp del: btf_type_by_id.simps)
qed

section \<open>Strings\<close>

lemma bstr_ok: "0 \<in> set s \<Longrightarrow> \<exists>r. bstr s = Inr r"
  by (induction s) auto

lemma bstr_append: "0 \<notin> set s \<Longrightarrow> bstr (s @ 0 # r) = Inr s"
  by (induction s) auto

lemma str_in_layer:
  assumes "layer_wf b" "k < h_str_len (hdr b)"
  shows "\<exists>t. bstr (drop (unat k) (strs_data b)) = Inr t"
proof -
  let ?n = "unat (h_str_len (hdr b))"
  have k: "unat k < ?n" using assms(2) by (simp add: word_less_nat_alt)
  have n: "?n \<le> length (strs_data b)" "strs_data b ! (?n - 1) = 0"
    using assms k by (auto simp: layer_wf_def)
  have "drop (unat k) (strs_data b) ! (?n - 1 - unat k) = strs_data b ! (?n - 1)" using k n by simp
  moreover have "?n - 1 - unat k < length (drop (unat k) (strs_data b))" using k n by simp
  ultimately have "0 \<in> set (drop (unat k) (strs_data b))" using n(2) by (metis nth_mem)
  then show ?thesis by (rule bstr_ok)
qed

lemma str_by_offset_ok:
  assumes "btf_wf bs"
  shows "\<exists>r. btf__str_by_offset bs off = Inr r \<and> (\<forall>s. r = Some s \<longrightarrow> (\<exists>t. bstr s = Inr t))"
  using assms
proof (induction bs arbitrary: off rule: btf_wf.induct)
  case (2 b)
  then show ?case using str_in_layer [of b] by auto
next
  case (3 b b' bs)
  then show ?case using str_in_layer [of b] by auto
qed simp

lemma ptr_okE:
  assumes "ptr_ok p"
  obtains info nm ty where "t_info (btf_mem p) = Inr info" "t_name_off (btf_mem p) = Inr nm" "t_type (btf_mem p) = Inr ty"
proof (cases p)
  case Btf_Void
  have "\<exists>w. ld32 (replicate 12 (0 :: u8)) 0 = Inr w" "\<exists>w. ld32 (replicate 12 (0 :: u8)) 4 = Inr w"
    "\<exists>w. ld32 (replicate 12 (0 :: u8)) 8 = Inr w" by (rule ld32_exists, simp)+
  then show thesis using Btf_Void that by (auto simp: t_info_def t_name_off_def t_type_def simp del: replicate.simps)
next
  case (Btf_Type m)
  then have "type_ok m" using assms by (simp add: ptr_ok_def)
  then show thesis using that Btf_Type by (auto elim: type_okE)
qed

lemma lookup_ok:
  assumes "btf_wf bs" "unat tid \<le> last_id (hd bs)"
  obtains p where "btf__type_by_id bs tid = Inr (Some p)" "ptr_ok p"
proof -
  obtain t where t: "btf__type_by_id bs tid = Inr t" "t = None \<longleftrightarrow> last_id (hd bs) < unat tid" "\<And>p. t = Some p \<Longrightarrow> ptr_ok p"
    using btf__type_by_id_ok [OF assms(1)] by blast
  then show thesis using that assms(2) by (cases t) auto
qed

lemma name_ok:
  assumes "btf_wf bs"
  obtains r where "btf__name_by_offset bs off = Inr r" "\<And>s. r = Some s \<Longrightarrow> \<exists>t. bstr s = Inr t"
  using str_by_offset_ok [OF assms, of off] unfolding btf__name_by_offset_def by blast

section \<open>The size of pointers\<close>

lemma find_at_ok:
  assumes "btf_wf bs" "unat i \<le> last_id (hd bs)"
  shows "\<exists>r. btf__find_by_name_kind_at bs nm kind i = Inr r"
proof -
  obtain p where p: "btf__type_by_id bs i = Inr (Some p)" "ptr_ok p" using lookup_ok [OF assms] .
  obtain info off ty where m: "t_info (btf_mem p) = Inr info" "t_name_off (btf_mem p) = Inr off" "t_type (btf_mem p) = Inr ty"
    using ptr_okE [OF p(2)] .
  obtain r where r: "btf__name_by_offset bs off = Inr r" "\<And>s. r = Some s \<Longrightarrow> \<exists>t. bstr s = Inr t"
    using name_ok [OF assms(1)] by blast
  have "\<exists>x. (case r of None \<Rightarrow> Inr False | Some s \<Rightarrow> rbind (bstr s) (\<lambda>s. Inr (s = nm))) = (Inr x :: bool res)"
    using r(2) by (cases r) fastforce+
  then show ?thesis
    using p m r(1) by (cases kind) (auto simp: btf__find_by_name_kind_at_def tderef_def btf_kind_def)
qed

lemma ptr_size_loop_ok:
  assumes "btf_wf bs" "0 < n \<Longrightarrow> unat i + n \<le> last_id (hd bs) + 1" "last_id (hd bs) + 1 < 2 ^ 32"
  shows "\<exists>r. ptr_size_loop bs i n = Inr r \<and> r \<in> {- 1, 4, 8}"
  using assms(2)
proof (induction n arbitrary: i)
  case (Suc n)
  have i: "unat i \<le> last_id (hd bs)" using Suc.prems by simp
  have step: "unat (i + 1) = unat i + 1" if "0 < n" using Suc.prems assms(3) by (simp add: unat_word_ariths)
  obtain x where next_ok: "ptr_size_loop bs (i + 1) n = Inr x" "x \<in> {- 1, 4, 8}"
    using Suc.IH [of "i + 1"] step Suc.prems by auto
  obtain p where p: "btf__type_by_id bs i = Inr (Some p)" "ptr_ok p" using lookup_ok [OF assms(1) i] .
  obtain info off ty where m: "t_info (btf_mem p) = Inr info" "t_name_off (btf_mem p) = Inr off" "t_type (btf_mem p) = Inr ty"
    using ptr_okE [OF p(2)] .
  obtain r where r: "btf__name_by_offset bs off = Inr r" "\<And>s. r = Some s \<Longrightarrow> \<exists>t. bstr s = Inr t"
    using name_ok [OF assms(1)] by blast
  show ?case
  proof (cases r)
    case None
    then show ?thesis using p m r(1) next_ok by (auto simp: tderef_def btf_kind_def)
  next
    case (Some s)
    then obtain t where "bstr s = Inr t" using r(2) by blast
    then show ?thesis using p m r(1) next_ok Some by (auto simp: tderef_def btf_kind_def)
  qed
qed simp

text \<open>Only the size of pointers that an object remembers may change.\<close>

definition same_btf :: "btf list \<Rightarrow> btf list \<Rightarrow> bool" where
  "same_btf bs bs' \<longleftrightarrow> (\<exists>b base p. bs = b # base \<and> bs' = b\<lparr>ptr_sz := p\<rparr> # base \<and> p \<in> {- 1, 0, 4, 8})"

lemma same_btf_refl: "btf_wf bs \<Longrightarrow> same_btf bs bs"
proof -
  assume wf: "btf_wf bs"
  then obtain b base where bs: "bs = b # base" by (cases bs) auto
  have "ptr_sz b \<in> {- 1, 0, 4, 8}" using wf bs btf_wf_layer layer_wf_def by blast
  then show ?thesis using bs unfolding same_btf_def by (intro exI [of _ b] exI [of _ base] exI [of _ "ptr_sz b"]) simp
qed

lemma same_btf_wf: "same_btf bs bs' \<Longrightarrow> btf_wf bs \<Longrightarrow> btf_wf bs'"
proof -
  assume s: "same_btf bs bs'" and wf: "btf_wf bs"
  obtain b base p where bs: "bs = b # base" "bs' = b\<lparr>ptr_sz := p\<rparr> # base" "p \<in> {- 1, 0, 4, 8}"
    using s by (auto simp: same_btf_def)
  have "layer_wf (b\<lparr>ptr_sz := p\<rparr>)" using btf_wf_layer [of b base] wf bs unfolding layer_wf_def by simp
  then show ?thesis using wf bs by (cases base) simp_all
qed

lemma btf_ptr_sz_ok:
  assumes "btf_wf bs"
  shows "\<exists>s bs'. btf_ptr_sz bs = Inr (s, bs') \<and> (s = 4 \<or> s = 8) \<and> same_btf bs bs'"
proof -
  obtain b base where bs: "bs = b # base" using assms by (cases bs) auto
  have wf: "layer_wf b" using assms bs btf_wf_layer by blast
  have lt: "last_id b + 1 < 2 ^ 32" using wf by (simp add: layer_wf_def last_id_def)
  have loop: "\<exists>r. ptr_size_loop bs 1 (unat (btf__get_nr_types b)) = Inr r \<and> r \<in> {- 1, 4, 8}"
    using ptr_size_loop_ok [OF assms, of "unat (btf__get_nr_types b)" 1] bs lt unat_get_nr_types [OF wf] by simp
  have "\<exists>r. determine_ptr_size bs = Inr r \<and> r \<in> {- 1, 4, 8}"
  proof (cases base)
    case Nil
    then show ?thesis using loop bs by (simp add: determine_ptr_size_def)
  next
    case (Cons b0 bs0)
    then have "layer_wf b0" using assms bs btf_wf_layer [of b0 bs0] by simp
    then show ?thesis using loop bs Cons by (auto simp: determine_ptr_size_def layer_wf_def)
  qed
  then obtain r where r: "determine_ptr_size bs = Inr r" "r \<in> {- 1, 4, 8}" by blast
  show ?thesis
  proof (cases "ptr_sz b = 0")
    case True
    then show ?thesis using r bs by (auto simp: btf_ptr_sz_def known_ptr_sz_def same_btf_def)
  next
    case False
    then show ?thesis using wf bs same_btf_refl [OF assms]
      by (auto simp: btf_ptr_sz_def known_ptr_sz_def layer_wf_def)
  qed
qed

section \<open>The size of a type\<close>

lemma type_ok_array:
  assumes "type_ok m" "btf_kind m = Inr BTF_KIND_ARRAY"
  obtains c t where "array_nelems m = Inr c" "array_type m = Inr t"
proof -
  obtain info where "t_info m = Inr info" "nat (info_size info) \<le> length m" using type_okE [OF assms(1)] .
  then have "24 \<le> length m" using assms(2) by (simp add: btf_kind_def info_size_def)
  then show thesis using that ld32_exists [of 12 m] ld32_exists [of 20 m]
    by (auto simp: array_nelems_def array_type_def)
qed

lemma uint_max_div: "uint ((- 1 :: u32) div x) = 4294967295 div uint x"
  by (simp add: uint_div unsigned_minus_1_eq_mask mask_eq_exp_minus_1)

lemma unat_u32_le: "unat (x :: u32) \<le> 4294967295"
proof -
  have "unat x < 2 ^ LENGTH(32)" by (rule unsigned_less)
  then show ?thesis by simp
qed

lemma resolve_done_cases:
  "resolve_done nelems sz = - 22 \<or> resolve_done nelems sz = - 7 \<or> 0 \<le> resolve_done nelems sz \<and> resolve_done nelems sz \<le> 4294967295"
proof (cases "nelems = 0 \<or> sz < 0 \<or> sz > 4294967295 div uint nelems")
  case True
  then show ?thesis by (auto simp: resolve_done_def uint_max_div)
next
  case False
  have "sz * uint nelems \<le> 4294967295 div uint nelems * uint nelems"
    using False by (intro mult_right_mono) auto
  also have "\<dots> \<le> 4294967295" by (metis mult.commute mult_div_mod_eq le_add_same_cancel1 uint_ge_0 pos_mod_sign div_mult_mod_eq mod_by_0 order_le_less zero_le_numeral)
  finally show ?thesis using False by (auto simp: resolve_done_def uint_max_div mult.commute)
qed

lemma resolve_loop_ok:
  assumes "btf_wf bs" "\<And>p. t = Some p \<Longrightarrow> ptr_ok p"
  shows "\<exists>r bs'. resolve_loop d bs t nelems = Inr (r, bs') \<and> same_btf bs bs' \<and> (r = - 22 \<or> r = - 7 \<or> 0 \<le> r \<and> r \<le> 4294967295)"
  using assms(2)
proof (induction d arbitrary: t nelems)
  case 0
  then show ?case using resolve_done_cases same_btf_refl [OF assms(1)] by simp
next
  case (Suc d)
  consider "t = None \<or> t = Some Btf_Void" | m where "t = Some (Btf_Type m)" "type_ok m"
    using Suc.prems by (cases t; cases "the t") (auto simp: ptr_ok_def)
  then show ?case
  proof cases
    case 1
    then show ?thesis using resolve_done_cases same_btf_refl [OF assms(1)] by (auto simp: btf_type_is_void_or_null_def)
  next
    case (2 m)
    obtain info nm ty where m: "t_info m = Inr info" "t_type m = Inr ty" using type_okE [OF 2(2)] .
    have k: "btf_kind m = Inr (BTF_INFO_KIND info)" using m by (simp add: btf_kind_def)
    have rec: "\<exists>r bs'. rbind (btf__type_by_id bs x) (\<lambda>t. resolve_loop d bs t ne) = Inr (r, bs') \<and> same_btf bs bs' \<and>
        (r = - 22 \<or> r = - 7 \<or> 0 \<le> r \<and> r \<le> 4294967295)" for x ne
    proof -
      obtain t' where t': "btf__type_by_id bs x = Inr t'" "\<And>p. t' = Some p \<Longrightarrow> ptr_ok p"
        using btf__type_by_id_ok [OF assms(1), of x] by blast
      then show ?thesis using Suc.IH [of t' ne] by simp
    qed
    obtain s bs' where p: "btf_ptr_sz bs = Inr (s, bs')" "same_btf bs bs'" using btf_ptr_sz_ok [OF assms(1)] by blast
    show ?thesis
    proof (cases "BTF_INFO_KIND info = 3")
      case True
      obtain c ty' where a: "array_nelems m = Inr c" "array_type m = Inr ty'"
        using type_ok_array [OF 2(2)] k True by auto
      then show ?thesis using 2 k m True rec same_btf_refl [OF assms(1)]
        by (simp add: btf_type_is_void_or_null_def tderef_def)
    next
      case False
      then show ?thesis using 2 k m rec p resolve_done_cases same_btf_refl [OF assms(1)]
        by (simp add: btf_type_is_void_or_null_def tderef_def)
    qed
  qed
qed

text \<open>The size as it is meant: the dimensions of the arrays on the way, outermost first, the size of what is
  found at the end, and the number of steps.\<close>

inductive sized :: "btf list \<Rightarrow> u32 \<Rightarrow> u32 list \<Rightarrow> nat \<Rightarrow> nat \<Rightarrow> bool" for bs where
  whole: "btf__type_by_id bs tid = Inr (Some (Btf_Type m)) \<Longrightarrow> btf_kind m = Inr k \<Longrightarrow>
    k \<in> {BTF_KIND_INT, BTF_KIND_STRUCT, BTF_KIND_UNION, BTF_KIND_ENUM, BTF_KIND_DATASEC} \<Longrightarrow> t_type m = Inr sz \<Longrightarrow>
    sized bs tid [] (unat sz) 0"
| pointer: "btf__type_by_id bs tid = Inr (Some (Btf_Type m)) \<Longrightarrow> btf_kind m = Inr BTF_KIND_PTR \<Longrightarrow>
    btf_ptr_sz bs = Inr (p, bs') \<Longrightarrow> sized bs tid [] (nat p) 0"
| named: "btf__type_by_id bs tid = Inr (Some (Btf_Type m)) \<Longrightarrow> btf_kind m = Inr k \<Longrightarrow>
    k \<in> {BTF_KIND_TYPEDEF, BTF_KIND_VOLATILE, BTF_KIND_CONST, BTF_KIND_RESTRICT, BTF_KIND_VAR} \<Longrightarrow>
    t_type m = Inr tid' \<Longrightarrow> sized bs tid' ds s n \<Longrightarrow> sized bs tid ds s (Suc n)"
| array: "btf__type_by_id bs tid = Inr (Some (Btf_Type m)) \<Longrightarrow> btf_kind m = Inr BTF_KIND_ARRAY \<Longrightarrow>
    array_nelems m = Inr c \<Longrightarrow> array_type m = Inr tid' \<Longrightarrow> sized bs tid' ds s n \<Longrightarrow> sized bs tid (c # ds) s (Suc n)"

text \<open>The result for \<open>p\<close> elements of the arrays seen so far, the dimensions \<open>ds\<close> that follow and the
  size \<open>s\<close> of an element: the product in unbounded arithmetic, if it and the number of elements of
  every outer part of the array fit into 32 bits.\<close>

definition size_result :: "nat \<Rightarrow> u32 list \<Rightarrow> nat \<Rightarrow> int" where
  "size_result p ds s =
     (if (\<forall>k \<le> length ds. p * prod_list (List.map unat (take k ds)) \<le> 4294967295) \<and>
         p * prod_list (List.map unat ds) * s \<le> 4294967295
      then int (p * prod_list (List.map unat ds) * s) else - 7)"

lemma all_le_Suc: "(\<forall>k \<le> Suc n. P k) \<longleftrightarrow> P 0 \<and> (\<forall>k \<le> n. P (Suc k))"
  by (metis Suc_le_mono le0 not0_implies_Suc)

lemma size_result_Cons:
  "p \<le> 4294967295 \<Longrightarrow> size_result p (c # ds) s =
     (if p * unat c \<le> 4294967295 then size_result (p * unat c) ds s else - 7)"
  by (auto simp: size_result_def all_le_Suc mult.assoc dest: spec [of _ 0])

lemma resolve_done_result: "resolve_done nelems (int s) = size_result (unat nelems) [] s"
proof (cases "nelems = 0")
  case False
  have "int s > 4294967295 div uint nelems \<longleftrightarrow> \<not> unat nelems * s \<le> 4294967295"
  proof -
    have "4294967295 div uint nelems = int (4294967295 div unat nelems)" by (simp add: zdiv_int)
    moreover have "4294967295 div unat nelems < s \<longleftrightarrow> 4294967295 < s * unat nelems"
      using False by (simp add: div_less_iff_less_mult unat_gt_0)
    ultimately show ?thesis by (simp add: mult.commute) linarith
  qed
  then show ?thesis using False unat_u32_le [of nelems]
    by (simp add: resolve_done_def size_result_def uint_max_div)
qed (simp add: resolve_done_def size_result_def)

lemma dimension_too_big:
  "nelems \<noteq> 0 \<and> c > (- 1) div nelems \<longleftrightarrow> 4294967295 < unat nelems * unat (c :: u32)"
proof (cases "nelems = 0")
  case False
  have "c > (- 1) div nelems \<longleftrightarrow> 4294967295 div unat nelems < unat c"
    by (simp add: word_less_nat_alt unat_div unsigned_minus_1_eq_mask mask_eq_exp_minus_1)
  then show ?thesis using False by (simp add: div_less_iff_less_mult mult.commute unat_gt_0)
qed simp

lemma unat_u32_mult: "\<not> 4294967295 < unat x * unat y \<Longrightarrow> unat (x * y :: u32) = unat x * unat y"
  by (simp add: unat_word_ariths)

lemma resolve_loop_sized:
  assumes "sized bs tid ds s n" "btf_wf bs" "n < d"
  shows "\<exists>bs'. rbind (btf__type_by_id bs tid) (\<lambda>t. resolve_loop d bs t nelems) =
    Inr (size_result (unat nelems) ds s, bs')"
  using assms
proof (induction arbitrary: d nelems rule: sized.induct)
  case (whole tid m k sz)
  then obtain d' where "d = Suc d'" by (cases d) auto
  then show ?case using whole resolve_done_result [of nelems "unat sz"]
    by (auto simp: btf_type_is_void_or_null_def tderef_def)
next
  case (pointer tid m p bs')
  then obtain d' where "d = Suc d'" by (cases d) auto
  moreover have "int (nat p) = p" using pointer(3) btf_ptr_sz_ok [OF pointer(4)] by auto
  ultimately show ?case using pointer resolve_done_result [of nelems "nat p"]
    by (simp add: btf_type_is_void_or_null_def tderef_def)
next
  case (named tid m k tid' ds s n)
  then obtain d' where d: "d = Suc d'" by (cases d) auto
  then show ?case using named(1-4) named.IH [of d' nelems] named.prems
    by (auto simp: btf_type_is_void_or_null_def tderef_def)
next
  case (array tid m c tid' ds s n)
  then obtain d' where d: "d = Suc d'" by (cases d) auto
  note cons = size_result_Cons [OF unat_u32_le [of nelems], of c ds s]
  show ?case
  proof (cases "4294967295 < unat nelems * unat c")
    case True
    then show ?thesis using dimension_too_big [of nelems c] d array(1-4) cons
      by (simp add: btf_type_is_void_or_null_def tderef_def)
  next
    case False
    then show ?thesis
      using dimension_too_big [of nelems c] d array(1-4) array.IH [of d' "nelems * c"] array.prems
        unat_u32_mult [OF False] cons
      by (auto simp: btf_type_is_void_or_null_def tderef_def)
  qed
qed

text \<open>A chain that is too long is refused.\<close>

lemma resolve_loop_deep:
  assumes "sized bs tid ds s n" "d \<le> n"
  shows "\<exists>r bs'. rbind (btf__type_by_id bs tid) (\<lambda>t. resolve_loop d bs t nelems) = Inr (r, bs') \<and>
    (r = - 22 \<or> r = - 7)"
  using assms
proof (induction arbitrary: d nelems rule: sized.induct)
  case (named tid m k tid' ds s n)
  show ?case
  proof (cases d)
    case 0
    then show ?thesis using named(1) by (simp add: resolve_done_def)
  next
    case (Suc d')
    then show ?thesis using named(1-4) named.IH [of d' nelems] named.prems
      by (auto simp: btf_type_is_void_or_null_def tderef_def)
  qed
next
  case (array tid m c tid' ds s n)
  show ?case
  proof (cases d)
    case 0
    then show ?thesis using array(1) by (simp add: resolve_done_def)
  next
    case (Suc d')
    then show ?thesis using array(1-4) array.IH [of d' "nelems * c"] array.prems
      by (auto simp: btf_type_is_void_or_null_def tderef_def)
  qed
qed (simp_all add: resolve_done_def)

text \<open>Only such a chain gives a size.\<close>

lemma resolve_loop_only_sized:
  assumes "btf__type_by_id bs tid = Inr t" "resolve_loop d bs t nelems = Inr (r, bs')" "0 \<le> r"
  shows "\<exists>ds s n. sized bs tid ds s n \<and> n < d"
  using assms
proof (induction d arbitrary: tid t nelems)
  case 0
  then show ?case by (simp add: resolve_done_def)
next
  case (Suc d)
  from Suc.prems(2,3) obtain m where m: "t = Some (Btf_Type m)"
    by (cases t; cases "the t") (auto simp: btf_type_is_void_or_null_def resolve_done_def)
  then have td: "tderef t = Inr m" by (simp add: tderef_def)
  obtain b where "btf_type_is_void_or_null t = Inr b" using Suc.prems(2) by (auto simp: res_simps)
  with Suc.prems(2,3) have stop: "btf_type_is_void_or_null t = Inr False" "tderef t = Inr m"
    using td by (auto simp: resolve_done_def split: if_splits)
  note t = Suc.prems(1) [unfolded m]
  obtain k where k: "btf_kind m = Inr k" using Suc.prems(2) stop by (auto simp: res_simps)
  consider (whole) "k \<in> {BTF_KIND_INT, BTF_KIND_STRUCT, BTF_KIND_UNION, BTF_KIND_ENUM, BTF_KIND_DATASEC}"
    | (ptr) "k = BTF_KIND_PTR"
    | (named) "k \<in> {BTF_KIND_TYPEDEF, BTF_KIND_VOLATILE, BTF_KIND_CONST, BTF_KIND_RESTRICT, BTF_KIND_VAR}"
    | (array) "k = BTF_KIND_ARRAY"
    using Suc.prems(2,3) stop k by (auto simp: res_simps split: if_splits)
  then show ?case
  proof cases
    case whole
    then obtain sz where "t_type m = Inr sz" using Suc.prems(2) stop k by (auto simp: res_simps)
    then show ?thesis using sized.whole [OF t k whole] by blast
  next
    case ptr
    then obtain p b where "btf_ptr_sz bs = Inr (p, b)" using Suc.prems(2) stop k by (auto simp: res_simps)
    then show ?thesis using sized.pointer [OF t] k ptr by blast
  next
    case named
    then obtain tid' t' where n: "t_type m = Inr tid'" "btf__type_by_id bs tid' = Inr t'"
      "resolve_loop d bs t' nelems = Inr (r, bs')"
      using Suc.prems(2) stop k by (auto simp: res_simps)
    then obtain ds s n where "sized bs tid' ds s n" "n < d" using Suc.IH [OF n(2,3) Suc.prems(3)] by blast
    then show ?thesis using sized.named [OF t k named n(1)] by (meson Suc_mono)
  next
    case array
    then obtain c tid' t' where n: "array_nelems m = Inr c" "array_type m = Inr tid'" "btf__type_by_id bs tid' = Inr t'"
      "resolve_loop d bs t' (nelems * c) = Inr (r, bs')"
      using Suc.prems(2,3) stop k by (auto simp: res_simps split: if_splits)
    then obtain ds s n where "sized bs tid' ds s n" "n < d" using Suc.IH [OF n(3,4) Suc.prems(3)] by blast
    then show ?thesis using sized.array [OF t] k array n(1,2) by (meson Suc_mono)
  qed
qed

section \<open>Finding a type by its name\<close>

definition has_name :: "btf list \<Rightarrow> u8 list \<Rightarrow> u32 option \<Rightarrow> u32 \<Rightarrow> bool" where
  "has_name bs nm kind i \<longleftrightarrow>
     (\<exists>p off s. btf__type_by_id bs i = Inr (Some p) \<and> (\<forall>k. kind = Some k \<longrightarrow> btf_kind (btf_mem p) = Inr k) \<and>
        t_name_off (btf_mem p) = Inr off \<and> btf__name_by_offset bs off = Inr (Some s) \<and> bstr s = Inr nm)"

lemma find_at_name:
  assumes "btf_wf bs" "unat i \<le> last_id (hd bs)"
  shows "btf__find_by_name_kind_at bs nm kind i = Inr (has_name bs nm kind i)"
proof -
  obtain r where r: "btf__find_by_name_kind_at bs nm kind i = Inr r" using find_at_ok [OF assms] by blast
  moreover have "r \<longleftrightarrow> has_name bs nm kind i"
    using r by (cases kind) (auto simp: btf__find_by_name_kind_at_def has_name_def tderef_def res_simps btf_kind_def
      split: option.splits if_splits)
  ultimately show ?thesis by simp
qed

lemma sint_small:
  assumes "unat (i :: u32) < 2 ^ 31"
  shows "sint i = uint i"
proof -
  have "int (unat i) < int (2 ^ 31)" using assms by (simp only: of_nat_less_iff)
  then have "uint i < 2 ^ 31" by simp
  moreover have "- (2 ^ 31) \<le> uint i" by (rule order_trans [of _ 0]) simp_all
  ultimately have "signed_take_bit 31 (uint i) = uint i" by (intro signed_take_bit_int_eq_self)
  then show ?thesis by (simp add: sint_uint)
qed

lemma find_loop_first:
  assumes "btf_wf bs" "0 < n \<Longrightarrow> unat i + n \<le> last_id (hd bs) + 1" "last_id (hd bs) < 2 ^ 31"
  shows "\<exists>r. find_loop bs nm kind i n = Inr r \<and>
    (r = - 2 \<and> (\<forall>k < n. \<not> has_name bs nm kind (i + of_nat k)) \<or>
     (\<exists>j < n. r = uint (i + of_nat j) \<and> has_name bs nm kind (i + of_nat j) \<and> (\<forall>k < j. \<not> has_name bs nm kind (i + of_nat k))))"
  using assms(2)
proof (induction n arbitrary: i)
  case (Suc n)
  have le: "unat i \<le> last_id (hd bs)" using Suc.prems by simp
  show ?case
  proof (cases "has_name bs nm kind i")
    case True
    have "sint i = uint i" using le assms(3) by (intro sint_small) simp
    then show ?thesis using True find_at_name [OF assms(1) le] by fastforce
  next
    case False
    have "0 < n \<Longrightarrow> unat (i + 1) = unat i + 1" using Suc.prems assms(3) by (simp add: unat_word_ariths)
    then obtain r where r: "find_loop bs nm kind (i + 1) n = Inr r"
      "r = - 2 \<and> (\<forall>k < n. \<not> has_name bs nm kind (i + 1 + of_nat k)) \<or>
       (\<exists>j < n. r = uint (i + 1 + of_nat j) \<and> has_name bs nm kind (i + 1 + of_nat j) \<and>
          (\<forall>k < j. \<not> has_name bs nm kind (i + 1 + of_nat k)))"
      using Suc.IH [of "i + 1"] Suc.prems by auto
    have all: "(\<forall>k < Suc q. \<not> has_name bs nm kind (i + of_nat k)) \<longleftrightarrow> (\<forall>k < q. \<not> has_name bs nm kind (i + 1 + of_nat k))" for q
      using False by (auto simp: less_Suc_eq_0_disj add.assoc)
    have run: "find_loop bs nm kind i (Suc n) = Inr r" using r(1) False find_at_name [OF assms(1) le] by simp
    from r(2) show ?thesis
    proof
      assume "r = - 2 \<and> (\<forall>k < n. \<not> has_name bs nm kind (i + 1 + of_nat k))"
      then show ?thesis using run all [of n] by blast
    next
      assume "\<exists>j < n. r = uint (i + 1 + of_nat j) \<and> has_name bs nm kind (i + 1 + of_nat j) \<and>
          (\<forall>k < j. \<not> has_name bs nm kind (i + 1 + of_nat k))"
      then obtain j where j: "j < n" "r = uint (i + of_nat (Suc j))" "has_name bs nm kind (i + of_nat (Suc j))"
          "\<forall>k < j. \<not> has_name bs nm kind (i + 1 + of_nat k)" by (auto simp: add.assoc)
      moreover have "Suc j < Suc n" using j(1) by simp
      ultimately have "\<exists>q < Suc n. r = uint (i + of_nat q) \<and> has_name bs nm kind (i + of_nat q) \<and>
          (\<forall>k < q. \<not> has_name bs nm kind (i + of_nat k))" using all [of j] by blast
      then show ?thesis using run by blast
    qed
  qed
qed simp

section \<open>Following references\<close>

lemma same_btf_lookup: "same_btf bs bs' \<Longrightarrow> btf__type_by_id bs' = btf__type_by_id bs"
  by (rule ext) (auto simp: same_btf_def btf__type_by_id_def)

text \<open>The types that the alignment of a type depends on.\<close>

definition refers :: "btf list \<Rightarrow> u32 \<Rightarrow> u32 \<Rightarrow> bool" where
  "refers bs tid tid' \<longleftrightarrow>
     (\<exists>m k. btf__type_by_id bs tid = Inr (Some (Btf_Type m)) \<and> btf_kind m = Inr k \<and>
       (k \<in> {BTF_KIND_TYPEDEF, BTF_KIND_VOLATILE, BTF_KIND_CONST, BTF_KIND_RESTRICT} \<and> t_type m = Inr tid' \<or>
        k = BTF_KIND_ARRAY \<and> array_type m = Inr tid' \<or>
        k \<in> {BTF_KIND_STRUCT, BTF_KIND_UNION} \<and> (\<exists>i n. btf_vlen m = Inr n \<and> i < n \<and> member_type m i = Inr tid')))"

lemma type_ok_member:
  assumes "type_ok m" "btf_kind m = Inr k" "k = BTF_KIND_STRUCT \<or> k = BTF_KIND_UNION" "btf_vlen m = Inr n" "i < n"
  shows "\<exists>t. member_type m i = Inr t"
proof -
  obtain info where info: "t_info m = Inr info" "nat (info_size info) \<le> length m" using type_okE [OF assms(1)] .
  then have "k = BTF_INFO_KIND info" "n = unat (BTF_INFO_VLEN info)" using assms(2,4) by (simp_all add: btf_kind_def btf_vlen_def)
  then have "info_size info = 12 + int n * 12" using assms(3) by (auto simp: info_size_def)
  then have "12 + 12 * n \<le> length m" using info(2) by simp
  then show ?thesis using assms(5) unfolding member_type_def by (intro ld32_exists) simp
qed

lemma align_members_ok:
  assumes "\<And>bs i. same_btf bs0 bs \<Longrightarrow> i < k + n \<Longrightarrow> k \<le> i \<Longrightarrow>
      \<exists>r bs' x. member_type m i = Inr x \<and> btf__align_of (Suc d) bs x = Some (Inr (r, bs')) \<and> same_btf bs0 bs'"
    and "same_btf bs0 bs"
  shows "\<exists>r bs'. align_members (Suc d) bs m k n a = Some (Inr (r, bs')) \<and> same_btf bs0 bs'"
  using assms
proof (induction n arbitrary: k bs a)
  case (Suc n)
  obtain r bs' x where x: "member_type m k = Inr x" "btf__align_of (Suc d) bs x = Some (Inr (r, bs'))" "same_btf bs0 bs'"
    using Suc.prems(1) [of bs k] Suc.prems(2) by auto
  have "\<exists>r' bs''. align_members (Suc d) bs' m (k + 1) n (max a r) = Some (Inr (r', bs'')) \<and> same_btf bs0 bs''"
    using Suc.prems(1) x(3) by (intro Suc.IH) auto
  then show ?case using x by (auto simp del: btf__align_of.simps)
qed simp

lemma same_btf_trans: "same_btf bs bs' \<Longrightarrow> same_btf bs' bs'' \<Longrightarrow> same_btf bs bs''"
  by (auto simp: same_btf_def)

lemma align_of_ok:
  assumes "btf_wf bs0" "\<And>x y. refers bs0 x y \<Longrightarrow> f y < f x \<and> unat y \<le> last_id (hd bs0)"
  shows "same_btf bs0 bs \<Longrightarrow> unat tid \<le> last_id (hd bs0) \<Longrightarrow> f tid < d \<Longrightarrow>
    \<exists>r bs'. btf__align_of d bs tid = Some (Inr (r, bs')) \<and> same_btf bs0 bs'"
proof (induction d arbitrary: tid bs)
  case (Suc d)
  have wf: "btf_wf bs" using same_btf_wf Suc.prems(1) assms(1) by blast
  have look: "btf__type_by_id bs = btf__type_by_id bs0" by (rule same_btf_lookup [OF Suc.prems(1)])
  obtain p where p: "btf__type_by_id bs tid = Inr (Some p)" "ptr_ok p"
    using lookup_ok [OF assms(1) Suc.prems(2)] look by auto
  obtain s bs1 where ps: "btf_ptr_sz bs = Inr (s, bs1)" "same_btf bs0 bs1"
    using btf_ptr_sz_ok [OF wf] same_btf_trans Suc.prems(1) by blast
  have rec: "\<exists>r bs''. btf__align_of d bs' y = Some (Inr (r, bs'')) \<and> same_btf bs0 bs''"
    if "refers bs0 tid y" "same_btf bs0 bs'" for y bs'
    using Suc.IH [of bs' y] assms(2) [OF that(1)] that(2) Suc.prems(3) by auto
  show ?case
  proof (cases p)
    case Btf_Void
    have "ld32 (replicate 12 0) 4 = Inr 0" by code_simp
    then have "btf_kind (replicate 12 0) = Inr 0" by (simp add: btf_kind_def t_info_def BTF_INFO_KIND_def)
    then show ?thesis using p Btf_Void Suc.prems(1) by (simp add: tderef_def)
  next
    case (Btf_Type m)
    then have m: "type_ok m" "btf__type_by_id bs0 tid = Inr (Some (Btf_Type m))" using p look by (simp_all add: ptr_ok_def)
    obtain info ty where i: "t_info m = Inr info" "t_type m = Inr ty" using type_okE [OF m(1)] .
    define k where "k = BTF_INFO_KIND info"
    have k: "btf_kind m = Inr k" "btf_vlen m = Inr (unat (BTF_INFO_VLEN info))" using i by (simp_all add: btf_kind_def btf_vlen_def k_def)
    consider (num) "k = 1 \<or> k = 6" | (ptr) "k = 2" | (ref) "k \<in> {8, 9, 10, 11}" | (arr) "k = 3" | (comp) "k = 4 \<or> k = 5"
      | (other) "k \<notin> {1, 2, 3, 4, 5, 6, 8, 9, 10, 11}" by auto
    then show ?thesis
    proof cases
      case num
      then show ?thesis using p Btf_Type k ps i by (auto simp: tderef_def)
    next
      case ptr
      then show ?thesis using p Btf_Type k ps by (auto simp: tderef_def)
    next
      case ref
      then have "refers bs0 tid ty" using m k i unfolding refers_def by auto
      then show ?thesis using ref p Btf_Type k i rec [OF _ Suc.prems(1)] by (auto simp: tderef_def)
    next
      case arr
      obtain c ty' where a: "array_type m = Inr ty'" using type_ok_array [OF m(1)] k(1) arr by auto
      then have "refers bs0 tid ty'" using m k arr unfolding refers_def by auto
      then show ?thesis using arr a p Btf_Type k rec [OF _ Suc.prems(1)] by (auto simp: tderef_def)
    next
      case comp
      let ?n = "unat (BTF_INFO_VLEN info)"
      have "\<exists>r bs'. align_members d bs m 0 ?n 1 = Some (Inr (r, bs')) \<and> same_btf bs0 bs'"
      proof (cases "?n = 0")
        case True
        then show ?thesis using Suc.prems(1) by simp
      next
        case False
        have mem: "\<exists>x. member_type m j = Inr x \<and> refers bs0 tid x" if lt: "j < ?n" for j
        proof -
          obtain x where "member_type m j = Inr x" using type_ok_member [OF m(1) k(1) comp k(2) lt] by blast
          then show ?thesis using m(2) k comp lt unfolding refers_def by blast
        qed
        have "0 < d"
          using mem [of 0] False assms(2) [of tid] Suc.prems(3) by (metis gr0I less_Suc0 not_less0)
        then obtain d' where d: "d = Suc d'" by (cases d) auto
        show ?thesis unfolding d
        proof (rule align_members_ok [OF _ Suc.prems(1)])
          fix bs j
          assume j: "same_btf bs0 bs" "j < 0 + ?n"
          obtain x where "member_type m j = Inr x" "refers bs0 tid x" using mem j(2) by auto
          then show "\<exists>r bs' x. member_type m j = Inr x \<and> btf__align_of (Suc d') bs x = Some (Inr (r, bs')) \<and> same_btf bs0 bs'"
            using rec [OF _ j(1)] d by blast
        qed
      qed
      then show ?thesis using comp p Btf_Type k by (auto simp: tderef_def)
    next
      case other
      then show ?thesis using p Btf_Type k Suc.prems(1) by (auto simp: tderef_def)
    qed
  qed
qed simp

section \<open>Properties of the queries\<close>

text \<open>C27. The size of a type of a well-formed object, whatever the types refer to. The function
  returns after at most 32 steps, never leaves the memory and changes at most the remembered size of
  pointers. A result that is not negative is given only for a type from which a chain of fewer than
  32 names and arrays leads to a size. For such a chain the result is the product of the dimensions
  and the size in unbounded arithmetic, if it fits into 32 bits and so does the number of elements
  of every outer part of the array, and \<open>E2BIG\<close> otherwise: also when a later dimension or the size
  of an element is zero. For a longer chain the result is \<open>EINVAL\<close> or \<open>E2BIG\<close>.\<close>

theorem resolve_size_exact:
  assumes "btf_wf bs"
  shows "\<exists>r bs'. btf__resolve_size bs tid = Inr (r, bs') \<and> same_btf bs bs' \<and>
    (r = - 22 \<or> r = - 7 \<or> 0 \<le> r \<and> r \<le> 4294967295) \<and>
    (0 \<le> r \<longrightarrow> (\<exists>ds s n. sized bs tid ds s n \<and> n < 32)) \<and>
    (\<forall>ds s n. sized bs tid ds s n \<longrightarrow>
       (n < 32 \<longrightarrow> r = size_result 1 ds s) \<and> (32 \<le> n \<longrightarrow> r = - 22 \<or> r = - 7))"
proof -
  obtain t where t: "btf__type_by_id bs tid = Inr t" "\<And>p. t = Some p \<Longrightarrow> ptr_ok p"
    using btf__type_by_id_ok [OF assms] by blast
  then obtain r bs' where r: "btf__resolve_size bs tid = Inr (r, bs')" "same_btf bs bs'"
      "r = - 22 \<or> r = - 7 \<or> 0 \<le> r \<and> r \<le> 4294967295"
    using resolve_loop_ok [OF assms, of t 32 1] by (auto simp: btf__resolve_size_def)
  moreover have "\<exists>ds s n. sized bs tid ds s n \<and> n < 32" if "0 \<le> r"
    using resolve_loop_only_sized [OF t(1) _ that] r(1) t(1) by (auto simp: btf__resolve_size_def)
  moreover have "r = size_result 1 ds s" if "sized bs tid ds s n" "n < 32" for ds s n
    using resolve_loop_sized [OF that(1) assms that(2), of 1] r(1) by (simp add: btf__resolve_size_def)
  moreover have "r = - 22 \<or> r = - 7" if "sized bs tid ds s n" "32 \<le> n" for ds s n
    using resolve_loop_deep [OF that, of 1] r(1) by (auto simp: btf__resolve_size_def)
  ultimately show ?thesis by blast
qed

text \<open>Finding a type by name, and by kind, in a well-formed object: the function returns without leaving the memory,
  and the result is the smallest identifier of a type with that name, or the error \<open>ENOENT\<close> when there is none.\<close>

theorem find_by_name_first:
  assumes "btf_wf bs" "last_id (hd bs) < 2 ^ 31" "nm \<noteq> ascii ''void''" "kind \<noteq> BTF_KIND_UNKN"
  shows "\<exists>r. btf__find_by_name_kind bs nm kind = Inr r \<and>
    (r = - 2 \<and> (\<forall>k < last_id (hd bs). \<not> has_name bs nm (Some kind) (1 + of_nat k)) \<or>
     (\<exists>j < last_id (hd bs). r = uint (1 + of_nat j :: u32) \<and> has_name bs nm (Some kind) (1 + of_nat j) \<and>
        (\<forall>k < j. \<not> has_name bs nm (Some kind) (1 + of_nat k))))"
proof -
  obtain b base where bs: "bs = b # base" using assms(1) by (cases bs) auto
  have "unat (btf__get_nr_types b) = last_id b" using unat_get_nr_types btf_wf_layer assms(1) bs by blast
  then show ?thesis
    using find_loop_first [OF assms(1) _ assms(2), of "last_id b" 1 nm "Some kind"] assms(3,4) bs
    by (simp add: btf__find_by_name_kind_def)
qed

text \<open>The alignment of a type: when the references between types go down in a rank, the function returns
  within a stack that is as deep as the rank and never leaves the memory.\<close>

theorem align_of_returns:
  assumes "btf_wf bs" "\<And>x y. refers bs x y \<Longrightarrow> rank y < rank x \<and> unat y \<le> last_id (hd bs)" "unat tid \<le> last_id (hd bs)"
  shows "\<exists>r bs'. btf__align_of (Suc (rank tid)) bs tid = Some (Inr (r, bs')) \<and> same_btf bs bs'"
  using align_of_ok [of bs rank bs tid "Suc (rank tid)"] same_btf_refl [OF assms(1)] assms by blast

text \<open>A type definition or a modifier that refers to itself, which the parser accepts, lets
  \<open>btf__align_of\<close> run out of every stack, while \<open>btf__resolve_size\<close> and \<open>btf__resolve_type\<close> give up with an
  error.\<close>

theorem align_of_diverges:
  assumes "btf__type_by_id bs tid = Inr (Some (Btf_Type m))" "btf_kind m = Inr k"
    and "k \<in> {BTF_KIND_TYPEDEF, BTF_KIND_VOLATILE, BTF_KIND_CONST, BTF_KIND_RESTRICT}" "t_type m = Inr tid"
  shows "btf__align_of d bs tid = None \<and> btf__resolve_size bs tid = Inr (- 22, bs) \<and> btf__resolve_type bs tid = Inr (- 22)"
proof -
  have v: "btf_type_is_void_or_null (Some (Btf_Type m)) = Inr False"
    using assms(2,3) by (auto simp: btf_type_is_void_or_null_def)
  have al: "btf__align_of d bs tid = None"
    using assms by (induction d) (auto simp: tderef_def)
  have rs: "resolve_loop n bs (Some (Btf_Type m)) 1 = Inr (- 22, bs)" for n
    using assms v by (induction n) (auto simp: tderef_def resolve_done_def)
  have rt: "resolve_type_loop n bs tid (Some (Btf_Type m)) = Inr (tid, Some (Btf_Type m), 0)" for n
    using assms v by (induction n) (auto simp: tderef_def btf_is_mod_def)
  show ?thesis using al rs [of 32] rt [of 32] assms(1)
    by (simp add: btf__resolve_size_def btf__resolve_type_def)
qed

end
