(* ===== verification/Libbpf_Btf_Load.thy ===== *)
theory Libbpf_Btf_Load
  imports Libbpf_Btf_Spec
begin

text \<open>
  Reading type information from bytes: parsing stays inside of the data and gives a well-formed object when
  the header can be trusted, it does not when the sums in the header wrap around, and the data that
  is written in the other byte order is read back as the same object.
\<close>

section \<open>Swapping words\<close>

fun swap4 :: "u8 list \<Rightarrow> u8 list" where
  "swap4 (a # b # c # d # r) = d # c # b # a # swap4 r"
| "swap4 r = r"

lemma length_swap4 [simp]: "length (swap4 xs) = length xs"
  by (induction xs rule: swap4.induct) simp_all

lemma swap4_swap4 [simp]: "swap4 (swap4 xs) = xs"
  by (induction xs rule: swap4.induct) simp_all

lemma swap4_append: "4 dvd length xs \<Longrightarrow> swap4 (xs @ ys) = swap4 xs @ swap4 ys"
proof (induction xs rule: swap4.induct)
  case (1 a b c d r)
  have "length (a # b # c # d # r) = length r + 4" by simp
  then have "4 dvd length r" using 1(2) by (metis dvd_add_triv_right_iff)
  then show ?case using 1 by simp
qed (simp_all add: dvd_eq_mod_eq_0)

lemma drop4: "drop (4 + n) (a # b # c # d # r) = drop n r"
  by (simp add: numeral_eq_Suc)

lemma take4: "take (4 + n) (a # b # c # d # r) = a # b # c # d # take n r"
  by (simp add: numeral_eq_Suc)

lemma bytes32_bswap: "bytes32 (bswap_32 (le32 a b c d)) = [d, c, b, a]"
proof -
  have "ucast (le32 a b c d) = a" "ucast (drop_bit 8 (le32 a b c d)) = b" "ucast (drop_bit 16 (le32 a b c d)) = c"
    "ucast (drop_bit 24 (le32 a b c d)) = d" for a b c d :: u8
    unfolding le32_def by (rule bit_word_eqI, auto simp: bit_simps)+
  then show ?thesis by (simp add: bytes32_def bswap_32_def)
qed

lemma four_bytes: "4 \<le> length xs \<Longrightarrow> \<exists>a b c d r. xs = a # b # c # d # r"
  by (cases xs; cases "tl xs"; cases "tl (tl xs)"; cases "tl (tl (tl xs))") auto

lemma swap_words_ok:
  "i + 4 * n \<le> length m \<Longrightarrow> swap_words m i n = Inr (take i m @ swap4 (take (4 * n) (drop i m)) @ drop (i + 4 * n) m)"
proof (induction n arbitrary: m i)
  case (Suc n)
  then have "4 \<le> length (drop i m)" by simp
  then obtain a b c d r where x: "drop i m = a # b # c # d # r" using four_bytes by blast
  then have m: "m = take i m @ a # b # c # d # r" by (metis append_take_drop_id)
  have i: "length (take i m) = i" using Suc.prems by simp
  define p where "p = take i m"
  have m': "m = p @ a # b # c # d # r" "length p = i" using m i by (simp_all add: p_def)
  have "ld32 m i = Inr (le32 a b c d)" using m' by (simp add: ld32_def ldn_def numeral_eq_Suc)
  moreover have "st32 m i (bswap_32 (le32 a b c d)) = Inr (p @ [d, c, b, a] @ r)"
    using m' by (simp add: st32_def stn_def bytes32_bswap)
  moreover have "swap_words (p @ [d, c, b, a] @ r) (i + 4) n =
      Inr (p @ [d, c, b, a] @ swap4 (take (4 * n) r) @ drop (4 * n) r)"
    using Suc.IH [of "i + 4" "p @ [d, c, b, a] @ r"] Suc.prems m' by (simp add: drop4)
  ultimately show ?case using m' by (simp add: drop4 take4)
qed simp

section \<open>Swapping a type\<close>

text \<open>The bytes from a position on, with a range of them swapped.\<close>

definition swap_range :: "u8 list \<Rightarrow> nat \<Rightarrow> nat \<Rightarrow> u8 list" where
  "swap_range m i n = take i m @ swap4 (take n (drop i m)) @ drop (i + n) m"

lemma length_swap_range [simp]: "i + n \<le> length m \<Longrightarrow> length (swap_range m i n) = length m"
  by (simp add: swap_range_def)

lemma drop_swap_range: "i + n \<le> f \<Longrightarrow> i + n \<le> length m \<Longrightarrow> drop f (swap_range m i n) = drop f m"
  by (simp add: swap_range_def)

lemma take_swap_range: "f \<le> i \<Longrightarrow> i + n \<le> length m \<Longrightarrow> take f (swap_range m i n) = take f m"
  by (simp add: swap_range_def)

lemma swap_range_join:
  assumes "i + n + k \<le> length m" "4 dvd n"
  shows "swap_range (swap_range m i n) (i + n) k = swap_range m i (n + k)"
    "swap_range (swap_range m (i + n) k) i n = swap_range m i (n + k)"
proof -
  define a where "a = take i m"
  define b where "b = take n (drop i m)"
  define c where "c = take k (drop (i + n) m)"
  define d where "d = drop (i + n + k) m"
  have m: "m = a @ b @ c @ d"
    unfolding a_def b_def c_def d_def by (metis append_take_drop_id drop_drop add.commute)
  have l: "length a = i" "length b = n" "length c = k"
    using assms(1) by (simp_all add: a_def b_def c_def)
  have s: "swap4 (b @ c) = swap4 b @ swap4 c" using assms(2) l by (intro swap4_append) simp
  show "swap_range (swap_range m i n) (i + n) k = swap_range m i (n + k)"
    unfolding m using l s by (simp add: swap_range_def)
  show "swap_range (swap_range m (i + n) k) i n = swap_range m i (n + k)"
    unfolding m using l s by (simp add: swap_range_def)
qed

lemma swap_range_swap_range: "i + n \<le> length m \<Longrightarrow> swap_range (swap_range m i n) i n = m"
  by (simp add: swap_range_def) (metis append_take_drop_id drop_drop add.commute)

lemma swap_words_range: "i + 4 * n \<le> length m \<Longrightarrow> swap_words m i n = Inr (swap_range m i (4 * n))"
  using swap_words_ok by (simp add: swap_range_def)

lemma info_size_words: "12 \<le> info_size info \<Longrightarrow> 4 dvd nat (info_size info)"
  by (auto simp: info_size_def Let_def nat_add_distrib nat_mult_distrib split: if_splits)

lemma swap_base: "p + 12 \<le> length m \<Longrightarrow> btf_bswap_type_base m p = Inr (swap_range m p 12)"
  using swap_words_range [of p 3 m] by (simp add: btf_bswap_type_base_def)

lemma swap_range_0 [simp]: "swap_range m i 0 = m"
  by (simp add: swap_range_def)

lemma swap_rest:
  assumes "t_info (drop p m) = Inr info" "12 \<le> info_size info" "p + nat (info_size info) \<le> length m"
  shows "btf_bswap_type_rest m p = Inr (0, swap_range m (p + 12) (nat (info_size info) - 12))"
proof -
  let ?k = "BTF_INFO_KIND info" and ?v = "unat (BTF_INFO_VLEN info)"
  have kv: "btf_vlen (drop p m) = Inr ?v" "btf_kind (drop p m) = Inr ?k"
    using assms(1) by (simp_all add: btf_vlen_def btf_kind_def)
  have run: "rbind (swap_words m (p + 12) n) (\<lambda>m. Inr (0 :: int, m)) = Inr (0, swap_range m (p + 12) (4 * n))"
    if "nat (info_size info) = 12 + 4 * n" for n
    using swap_words_range [of "p + 12" n m] that assms(3) by simp
  consider "?k \<in> {7, 10, 9, 11, 2, 8, 12}" | "?k = 1 \<or> ?k = 14" | "?k = 6 \<or> ?k = 13" | "?k = 3"
    | "?k = 4 \<or> ?k = 5 \<or> ?k = 15"
    using assms(2) by (auto simp: info_size_def Let_def split: if_splits)
  then show ?thesis
  proof cases
    case 1
    then have "info_size info = 12" by (simp add: info_size_def)
    then show ?thesis using 1 kv by (auto simp: btf_bswap_type_rest_def)
  next
    case 2
    then have s: "nat (info_size info) = 12 + 4 * 1" by (auto simp: info_size_def)
    show ?thesis using 2 kv run [OF s] s by (auto simp: btf_bswap_type_rest_def)
  next
    case 3
    then have s: "nat (info_size info) = 12 + 4 * (2 * ?v)" by (auto simp: info_size_def nat_add_distrib nat_mult_distrib)
    show ?thesis using 3 kv run [OF s] s by (auto simp: btf_bswap_type_rest_def)
  next
    case 4
    then have s: "nat (info_size info) = 12 + 4 * 3" by (auto simp: info_size_def)
    show ?thesis using 4 kv run [OF s] s by (auto simp: btf_bswap_type_rest_def)
  next
    case 5
    then have s: "nat (info_size info) = 12 + 4 * (3 * ?v)" by (auto simp: info_size_def nat_add_distrib nat_mult_distrib)
    show ?thesis using 5 kv run [OF s] s by (auto simp: btf_bswap_type_rest_def)
  qed
qed

section \<open>The loop over the types\<close>

lemma nth_take_eq: "take n m = take n m' \<Longrightarrow> i < n \<Longrightarrow> m ! i = m' ! i"
  by (metis nth_take)

lemma ld32_take_cong:
  assumes "take n m = take n m'" "i + 4 \<le> n" "n \<le> length m" "n \<le> length m'"
  shows "ld32 m i = ld32 m' i"
  using ld32_take [OF assms(2,3), of "[]"] ld32_take [OF assms(2,4), of "[]"] assms(1) by simp

lemma type_size_cong:
  assumes "take n m = take n m'" "pos + 12 \<le> n" "n \<le> length m" "n \<le> length m'"
  shows "btf_type_size (drop pos m) = btf_type_size (drop pos m')"
  using ld32_take_cong [of n m m' "pos + 4"] assms by (simp add: btf_type_size_info t_info_def ld32_drop)

lemma tiles_cong:
  "take fin m = take fin m' \<Longrightarrow> fin \<le> length m \<Longrightarrow> fin \<le> length m' \<Longrightarrow> tiles m offs pos fin = tiles m' offs pos fin"
proof (induction offs arbitrary: pos)
  case (Cons off offs)
  have "pos + 12 \<le> fin \<Longrightarrow> btf_type_size (drop pos m) = btf_type_size (drop pos m')"
    using Cons.prems by (intro type_size_cong) auto
  then show ?case using Cons.IH [OF Cons.prems] by (cases "pos + 12 \<le> fin") simp_all
qed simp

lemma tiles_snoc:
  "tiles m offs a pos \<Longrightarrow> unat off = pos \<Longrightarrow> btf_type_size (drop pos m) = Inr s \<Longrightarrow> 12 \<le> s \<Longrightarrow>
    tiles m (offs @ [off]) a (pos + nat s)"
proof (induction offs arbitrary: a)
  case Nil
  then have "12 \<le> nat s" by simp
  then show ?case using Nil by auto
next
  case (Cons off' offs)
  then show ?case by fastforce
qed

lemma idx_entry_Some:
  assumes "btf_add_type_idx_entry alloc offs nr off = Some offs'" "unat nr \<le> length offs"
  shows "unat nr < length offs'" "take (unat nr) offs' = take (unat nr) offs" "offs' ! unat nr = off"
proof -
  obtain z where z: "btf_add_mem alloc 0 offs 4 (unat nr) 0x7fffffff 1 = Some z" "offs' = z[unat nr := off]"
    using assms(1) by (auto simp: btf_add_type_idx_entry_def split: option.splits)
  have "\<exists>e. z = offs @ e \<and> unat nr < length z"
    using z(1) by (auto simp: btf_add_mem_def Let_def split: if_splits)
  then show "unat nr < length offs'" "take (unat nr) offs' = take (unat nr) offs" "offs' ! unat nr = off"
    using z(2) assms(2) by auto
qed

lemma parse_types_ok:
  assumes "pos \<le> fin" "fin \<le> length m" "fin < 2 ^ 32" "unat nr \<le> length offs" "tiles m (take (unat nr) offs) 0 pos"
  shows "\<exists>err m' offs' nr'. parse_types alloc sw fin m pos offs nr = Inr (err, m', offs', nr') \<and> length m' = length m \<and>
    drop fin m' = drop fin m \<and> (err = 0 \<longrightarrow> tiles m' (take (unat nr') offs') 0 fin \<and> unat nr' \<le> length offs')"
  using assms
proof (induction alloc sw fin m pos offs nr rule: parse_types.induct)
  case (1 alloc sw fin m pos offs nr)
  show ?case
  proof (cases "pos + 12 \<le> fin")
    case False
    then show ?thesis using "1.prems" by (subst parse_types.simps) auto
  next
    case True
    define m1 where "m1 = (if sw then swap_range m pos 12 else m)"
    have base: "(if sw then btf_bswap_type_base m pos else Inr m) = Inr m1"
      using True "1.prems"(2) swap_base [of pos m] by (simp add: m1_def)
    have l1: "length m1 = length m" "take pos m1 = take pos m" "drop fin m1 = drop fin m"
      using True "1.prems"(2) by (auto simp: m1_def swap_range_def)
    obtain info where info: "t_info (drop pos m1) = Inr info"
      unfolding t_info_def ld32_drop using ld32_exists [of "pos + 4" m1] True "1.prems"(2) l1 by auto
    then have size: "btf_type_size (drop pos m1) = Inr (info_size info)" by (simp add: btf_type_size_info)
    show ?thesis
    proof (cases "info_size info < 0 \<or> pos + nat (info_size info) > fin")
      case True
      then show ?thesis using \<open>pos + 12 \<le> fin\<close> base size l1 by (subst parse_types.simps) auto
    next
      case False
      let ?s = "nat (info_size info)"
      have s: "12 \<le> info_size info" using False btf_type_size_cases [OF size] by auto
      define m2 where "m2 = (if sw then swap_range m1 (pos + 12) (?s - 12) else m1)"
      have "12 \<le> ?s" using s by simp
      then have rest: "(if sw then btf_bswap_type_rest m1 pos else Inr (0, m1)) = Inr (0, m2)"
        using swap_rest [OF info s] False "1.prems"(2) l1 by (simp add: m2_def)
      have l2: "length m2 = length m" "take (pos + 12) m2 = take (pos + 12) m1" "take pos m2 = take pos m"
        "drop fin m2 = drop fin m"
      proof -
        have "pos + 12 + (?s - 12) \<le> length m1" using False "1.prems"(2) l1 \<open>12 \<le> ?s\<close> by simp
        moreover have "pos + 12 + (?s - 12) \<le> fin" using False \<open>12 \<le> ?s\<close> by simp
        ultimately show "length m2 = length m" "take (pos + 12) m2 = take (pos + 12) m1" "drop fin m2 = drop fin m"
          using l1 by (auto simp: m2_def drop_swap_range take_swap_range)
        then show "take pos m2 = take pos m" using l1(2) by (metis le_add1 min.absorb1 take_take)
      qed
      have size2: "btf_type_size (drop pos m2) = Inr (info_size info)"
        using size type_size_cong [OF l2(2)] True "1.prems"(2) l1 l2 by simp
      show ?thesis
      proof (cases "btf_add_type_idx_entry alloc offs nr (word_of_nat pos)")
        case None
        then show ?thesis using True False base size rest l2 by (subst parse_types.simps) auto
      next
        case (Some offs')
        note o = idx_entry_Some [OF Some "1.prems"(4)]
        have posw: "unat (word_of_nat pos :: u32) = pos" using True "1.prems"(3) by (simp add: unsigned_of_nat take_bit_nat_eq_self)
        have n12: "12 * unat nr \<le> pos" using tiles_length [OF "1.prems"(5)] "1.prems"(4) by simp
        then have nr: "unat (nr + 1) = unat nr + 1" using True "1.prems"(3) by (simp add: unat_word_ariths)
        have "tiles m2 (take (unat nr) offs) 0 pos"
          using tiles_cong [OF l2(3)] "1.prems" l2(1) True by simp
        then have "tiles m2 (take (unat nr) offs @ [word_of_nat pos]) 0 (pos + ?s)"
          using tiles_snoc posw size2 s by blast
        moreover have "take (unat nr) offs @ [word_of_nat pos] = take (unat (nr + 1)) offs'"
          using o nr by (simp add: take_Suc_conv_app_nth)
        ultimately have t: "tiles m2 (take (unat (nr + 1)) offs') 0 (pos + ?s)" by simp
        have "\<exists>err m' offs'' nr'. parse_types alloc sw fin m2 (pos + ?s) offs' (nr + 1) = Inr (err, m', offs'', nr') \<and>
            length m' = length m2 \<and> drop fin m' = drop fin m2 \<and> (err = 0 \<longrightarrow> tiles m' (take (unat nr') offs'') 0 fin \<and> unat nr' \<le> length offs'')"
          using False "1.prems" l2 o(1) nr t
          by (intro "1.IH" [OF True base size _ _ rest]) (auto simp: Some)
        then show ?thesis using True False base size rest l2 Some by (subst parse_types.simps) auto
      qed
    qed
  qed
qed

section \<open>The header\<close>

lemma get_header_ok: "24 \<le> length m \<Longrightarrow> \<exists>h. get_btf_header m = Inr h"
proof -
  assume l: "24 \<le> length m"
  have "\<exists>w. ld32 m 4 = Inr w" "\<exists>w. ld32 m 8 = Inr w" "\<exists>w. ld32 m 12 = Inr w" "\<exists>w. ld32 m 16 = Inr w" "\<exists>w. ld32 m 20 = Inr w"
    by (rule ld32_exists, use l in simp)+
  then show ?thesis using l by (auto simp: get_btf_header_def ld16_def ld8_def)
qed

lemma bswap_hdr_ok:
  assumes "24 \<le> length m"
  shows "btf_bswap_hdr m = Inr (swap_range (m[0 := m ! 1, 1 := m ! 0]) 4 20)"
proof -
  have "lo8 (bswap_16 (le16 a b)) = b" "hi8 (bswap_16 (le16 a b)) = a" for a b
    by (simp_all add: bswap_16_def ntohs_le16)
  then show ?thesis using assms swap_words_range [of 4 5 "m[0 := m ! 1, 1 := m ! 0]"]
    by (simp add: btf_bswap_hdr_def ld16_def st16_def)
qed

lemma parse_hdr_ok:
  "\<exists>err raw sw. btf_parse_hdr data = Inr (err, raw, sw) \<and> length raw = length data \<and>
    (err = 0 \<longrightarrow> 24 \<le> length raw \<and> (\<exists>h. get_btf_header raw = Inr h \<and>
       h_str_off h + h_str_len h \<le> word_of_nat (length raw - 24) \<and> h_type_off h + h_type_len h \<le> h_str_off h))"
proof (cases "length data < 24")
  case True
  then show ?thesis by (auto simp: btf_parse_hdr_def)
next
  case False
  then obtain h where h: "get_btf_header data = Inr h" using get_header_ok [of data] by auto
  obtain raw where raw: "btf_bswap_hdr data = Inr raw" "length raw = length data"
    using bswap_hdr_ok [of data] False by auto
  obtain h' where h': "get_btf_header raw = Inr h'" using get_header_ok [of raw] raw False by auto
  show ?thesis using False h raw h' by (auto simp: btf_parse_hdr_def not_less)
qed

section \<open>Properties\<close>

text \<open>The header of the data, as it is read on this machine, has the only length that exists, and its two
  sums do not wrap around.\<close>

definition header_sane :: "u8 list \<Rightarrow> bool" where
  "header_sane data \<longleftrightarrow>
     (\<forall>raw sw h. btf_parse_hdr data = Inr (0, raw, sw) \<longrightarrow> get_btf_header raw = Inr h \<longrightarrow>
        h_hdr_len h = 24 \<and> unat (h_str_off h) + unat (h_str_len h) < 2 ^ 32 \<and>
        unat (h_type_off h) + unat (h_type_len h) < 2 ^ 32)"

lemma btf_new_ok:
  assumes "length data < 2 ^ 32" "header_sane data" "base = [] \<or> btf_wf base"
    and "base \<noteq> [] \<Longrightarrow> last_id (hd base) + length data + 1 < 2 ^ 32"
  shows "\<exists>r. btf_new alloc callocs mallocs data base = Inr r \<and> (\<forall>bs. r = Inr bs \<longrightarrow> btf_wf bs \<and> tl bs = base)"
proof (cases "callocs \<and> mallocs")
  case False
  then show ?thesis by (auto simp: btf_new_def)
next
  case True
  obtain err raw sw where ph: "btf_parse_hdr data = Inr (err, raw, sw)" "length raw = length data"
    "err = 0 \<Longrightarrow> 24 \<le> length raw \<and> (\<exists>h. get_btf_header raw = Inr h \<and>
       h_str_off h + h_str_len h \<le> word_of_nat (length raw - 24) \<and> h_type_off h + h_type_len h \<le> h_str_off h)"
    using parse_hdr_ok [of data] by blast
  show ?thesis
  proof (cases "err = 0")
    case False
    then show ?thesis using True ph(1) by (auto simp: btf_new_def)
  next
    case err0: True
    then obtain h where h: "get_btf_header raw = Inr h" "h_str_off h + h_str_len h \<le> word_of_nat (length raw - 24)"
      "h_type_off h + h_type_len h \<le> h_str_off h" "24 \<le> length raw" using ph(3) by blast
    have sane: "h_hdr_len h = 24" "unat (h_str_off h) + unat (h_str_len h) < 2 ^ 32"
      "unat (h_type_off h) + unat (h_type_len h) < 2 ^ 32"
      using assms(2) ph(1) h(1) err0 unfolding header_sane_def by blast+
    have so: "unat (h_str_off h) + unat (h_str_len h) \<le> length raw - 24"
    proof -
      have "unat (h_str_off h + h_str_len h) \<le> unat (word_of_nat (length raw - 24) :: u32)"
        using h(2) by (simp add: word_le_nat_alt)
      moreover have "unat (word_of_nat (length raw - 24) :: u32) = length raw - 24"
        using assms(1) ph(2) by (simp add: unsigned_of_nat take_bit_nat_eq_self)
      ultimately show ?thesis using sane(2) by (simp add: unat_word_ariths)
    qed
    have ty: "unat (h_type_off h) + unat (h_type_len h) \<le> unat (h_str_off h)"
      using h(3) sane(3) by (simp add: word_le_nat_alt unat_word_ariths)
    let ?tp = "24 + unat (h_type_off h)" and ?sp = "24 + unat (h_str_off h)" and ?tl = "unat (h_type_len h)"
      and ?sl = "unat (h_str_len h)"
    have hl: "unat (h_hdr_len h) = 24" using sane(1) by simp
    let ?T = "drop ?tp raw" and ?S = "drop ?sp raw"
    have "\<exists>e. btf_parse_str_sec base (h_str_len h) ?S = Inr e \<and>
        (e = 0 \<longrightarrow> (h_str_len h \<noteq> 0 \<longrightarrow> ?S ! (?sl - 1) = 0))"
    proof (cases "h_str_len h = 0")
      case True
      then show ?thesis by (auto simp: btf_parse_str_sec_def)
    next
      case False
      then have "0 < ?sl" by (simp add: unat_gt_0)
      then have "?sl - 1 < length ?S" "0 < length ?S" using so by auto
      then show ?thesis using False by (auto simp: btf_parse_str_sec_def ld8_def)
    qed
    then obtain e where e: "btf_parse_str_sec base (h_str_len h) ?S = Inr e"
      "e = 0 \<Longrightarrow> h_str_len h \<noteq> 0 \<Longrightarrow> ?S ! (?sl - 1) = 0" by blast
    have "?tl \<le> length ?T" using ty so by simp
    moreover have "?tl < 2 ^ 32" using sane(3) by simp
    ultimately obtain err' T' offs nr where p: "parse_types alloc sw ?tl ?T 0 [] 0 = Inr (err', T', offs, nr)"
      "length T' = length ?T" "drop ?tl T' = drop ?tl ?T" "err' = 0 \<Longrightarrow> tiles T' (take (unat nr) offs) 0 ?tl \<and> unat nr \<le> length offs"
      using parse_types_ok [of 0 ?tl ?T 0 "[]" alloc sw] by auto
    show ?thesis
    proof (cases "e = 0 \<and> err' = 0")
      case False
      then show ?thesis using True ph(1) err0 h(1) hl e(1) p(1) by (cases "e = 0") (auto simp: btf_new_def Let_def)
    next
      case ok: True
      let ?raw = "take ?tp raw @ T'"
      have tp: "?tp \<le> length raw" "?tp + ?tl \<le> ?sp" "?sp \<le> length raw" using ty so h(4) by simp_all
      have strs: "drop ?sp ?raw = ?S"
      proof -
        have "drop ?sp ?raw = drop (?sp - ?tp - ?tl) (drop ?tl T')" using tp by simp
        also have "\<dots> = ?S" using tp by (simp add: p(3) add.commute)
        finally show ?thesis .
      qed
      define b where "b = \<lparr>raw_data = Some ?raw, raw_data_swapped = None, raw_size = word_of_nat (length data),
        swapped_endian = sw, hdr = h, hdr_rest = drop 24 ?raw, types_data = T', type_offs = offs, nr_types = nr,
        start_id = (case base of [] \<Rightarrow> 1 | b # _ \<Rightarrow> btf__get_nr_types b + 1),
        start_str_off = (case base of [] \<Rightarrow> 0 | b # _ \<Rightarrow> h_str_len (hdr b)), strs_data = drop ?sp ?raw,
        btf_fd = - 1, ptr_sz = 0\<rparr>"
      have run: "btf_new alloc callocs mallocs data base = Inr (Inr (b # base))"
        using True ph(1) err0 h(1) hl e(1) p(1) ok by (simp add: btf_new_def Let_def b_def)
      have nr: "12 * unat nr \<le> length data" "12 * unat nr < 2 ^ 32"
        using p(4) ok tiles_length [of T' "take (unat nr) offs" 0 ?tl] tp ph(2) sane(3) by auto
      have start: "1 \<le> unat (start_id b)" "unat (start_id b) + unat nr < 2 ^ 32"
      proof -
        have "unat (start_id b) = (if base = [] then 1 else last_id (hd base) + 1)"
        proof (cases base)
          case (Cons b0 bs0)
          then have wf: "layer_wf b0" using assms(3) btf_wf_layer by blast
          have "btf__get_nr_types b0 + 1 = start_id b0 + nr_types b0" by (simp add: btf__get_nr_types_def)
          then show ?thesis using Cons unat_ids [OF wf] by (simp add: b_def)
        qed (simp add: b_def)
        then show "1 \<le> unat (start_id b)" "unat (start_id b) + unat nr < 2 ^ 32" using nr assms(4) by auto
      qed
      have fields: "types_data b = T'" "type_offs b = offs" "nr_types b = nr" "hdr b = h" "strs_data b = ?S" "ptr_sz b = 0"
        unfolding b_def btf.select_convs using strs by simp_all
      have "?tl \<le> length T'" "?sl \<le> length ?S" using p(2) so tp by simp_all
      moreover have "h_str_len h \<noteq> 0 \<longrightarrow> ?S ! (?sl - 1) = 0" using e(2) ok by blast
      ultimately have "layer_wf b" unfolding layer_wf_def fields using p(4) ok start by blast
      then have "btf_wf (b # base)" using assms(3) by (cases base) (simp_all add: b_def btf__get_nr_types_def)
      then show ?thesis using run by simp
    qed
  qed
qed

text \<open>C38. Reading type information, of either byte order and on top of another object or not, from any bytes whose
  header is sane never leaves the data; an object that it gives is well formed and keeps its base.\<close>

theorem btf_new_safe:
  assumes "length data < 2 ^ 32" "header_sane data" "base = [] \<or> btf_wf base"
    and "base \<noteq> [] \<Longrightarrow> last_id (hd base) + length data + 1 < 2 ^ 32"
  shows "\<exists>r. btf_new alloc callocs mallocs data base = Inr r \<and> (\<forall>bs. r = Inr bs \<longrightarrow> btf_wf bs \<and> tl bs = base)"
  using assms by (rule btf_new_ok)

text \<open>The length in the header is not checked in native byte order, and the sum of offset and length of the strings
  may wrap around: whenever the strings end behind the data, the check of their last character
  reads outside of the data.\<close>

theorem header_not_checked:
  assumes "btf_parse_hdr data = Inr (0, raw, sw)" "get_btf_header raw = Inr h" "length raw = length data"
    and "0 < h_str_len h" "h_str_len h - 1 \<le> 0x7fffffff"
    and "length data < unat (h_hdr_len h) + unat (h_str_off h) + unat (h_str_len h)"
  shows "btf_new alloc True True data base = Inl OutOfBounds"
proof -
  have "0 < unat (h_str_len h)" using assms(4) by (simp add: word_less_nat_alt)
  then have "length (drop (unat (h_hdr_len h) + unat (h_str_off h)) raw) \<le> unat (h_str_len h) - 1"
    using assms(3,6) by simp
  then have "btf_parse_str_sec base (h_str_len h) (drop (unat (h_hdr_len h) + unat (h_str_off h)) raw) = Inl OutOfBounds"
    using assms(4,5) by (auto simp: btf_parse_str_sec_def ld8_def not_less)
  then show ?thesis using assms(1,2) by (simp add: btf_new_def Let_def)
qed

text \<open>An object on top of an object that has a base itself counts its strings from the end of the strings of the
  middle object only: a name of the middle object whose offset is not below that is found through the middle object,
  and is lost through the new one.\<close>

theorem split_of_split_names:
  assumes "btf_new_empty True True (b # base) = Inr bs" "base \<noteq> []"
    and "start_str_off b \<le> off" "off - start_str_off b < h_str_len (hdr b)" "h_str_len (hdr b) \<le> off"
  shows "btf__str_by_offset (b # base) off = Inr (Some (drop (unat (off - start_str_off b)) (strs_data b))) \<and>
    btf__str_by_offset bs off = Inr None"
  using assms by (auto simp: btf_new_empty_def Let_def not_less not_le)

section \<open>The other byte order\<close>

lemma tiles_drop_cong:
  "drop pos m = drop pos m' \<Longrightarrow> tiles m offs pos fin = tiles m' offs pos fin"
proof (induction offs arbitrary: pos)
  case (Cons off offs)
  have "drop (pos + k) m = drop (pos + k) m'" for k
    using Cons.prems by (metis add.commute drop_drop)
  then show ?case using Cons by simp
qed simp

lemma swap_types_tiles:
  "tiles (drop p D) offs' pos fin \<Longrightarrow> p + fin \<le> length D \<Longrightarrow>
    swap_types (pre @ offs') p (length pre) (length offs') D = Inr (Some (swap_range D (p + pos) (fin - pos)))"
proof (induction offs' arbitrary: pos D pre)
  case (Cons off offs')
  obtain s where s: "unat off = pos" "pos + 12 \<le> fin" "btf_type_size (drop pos (drop p D)) = Inr s" "12 \<le> s"
      "pos + nat s \<le> fin" "tiles (drop p D) offs' (pos + nat s) fin"
    using Cons.prems(1) by auto
  obtain info where info: "t_info (drop (p + pos) D) = Inr info" "s = info_size info"
    using s(3) by (auto simp: btf_type_size_info res_simps add.commute)
  let ?n = "nat s"
  have n: "12 \<le> ?n" "4 dvd ?n" using s(4) info_size_words [of info] info(2) by simp_all
  let ?D = "swap_range D (p + pos + 12) (?n - 12)" and ?E = "swap_range D (p + pos) ?n"
  have rest: "btf_bswap_type_rest D (p + pos) = Inr (0, ?D)"
    using swap_rest [OF info(1)] s info(2) Cons.prems(2) by simp
  have base: "btf_bswap_type_base ?D (p + pos) = Inr ?E"
  proof -
    have "btf_bswap_type_base ?D (p + pos) = Inr (swap_range ?D (p + pos) 12)"
      using s n Cons.prems(2) by (intro swap_base) simp
    also have "swap_range ?D (p + pos) 12 = ?E"
      using swap_range_join(2) [of "p + pos" 12 "?n - 12" D] s n Cons.prems(2) by simp
    finally show ?thesis .
  qed
  have "drop (p + (pos + ?n)) ?E = drop (p + (pos + ?n)) D"
    using s Cons.prems(2) by (intro drop_swap_range) simp_all
  then have "tiles (drop p ?E) offs' (pos + ?n) fin"
    using tiles_drop_cong [of "pos + ?n" "drop p ?E" "drop p D"] s(6) by (simp add: add.commute)
  then have "swap_types ((pre @ [off]) @ offs') p (length (pre @ [off])) (length offs') ?E =
      Inr (Some (swap_range ?E (p + (pos + ?n)) (fin - (pos + ?n))))"
    using s Cons.prems(2) by (intro Cons.IH) simp_all
  also have "swap_range ?E (p + (pos + ?n)) (fin - (pos + ?n)) = swap_range D (p + pos) (fin - pos)"
    using swap_range_join(1) [of "p + pos" ?n "fin - (pos + ?n)" D] s n Cons.prems(2) by (simp add: add.assoc)
  finally show ?case using rest base s(1) by (simp add: get_elem_def)
qed simp

lemma idx_entry_total:
  assumes "unat nr \<le> length offs" "unat nr < 0x7fffffff"
  shows "\<exists>offs'. btf_add_type_idx_entry (\<lambda>_. True) offs nr off = Some offs'"
proof -
  have "\<not> int (unat nr + 1) > 0x7fffffff" using assms(2) by linarith
  then show ?thesis unfolding btf_add_type_idx_entry_def btf_add_mem_def Let_def by (auto simp del: of_nat_add split: option.splits)
qed

lemma parse_swapped:
  "tiles M offs' pos fin \<Longrightarrow> fin \<le> length M \<Longrightarrow> fin < 2 ^ 32 \<Longrightarrow> unat nr \<le> length offs \<Longrightarrow>
    unat nr + length offs' < 0x7fffffff \<Longrightarrow>
    \<exists>offs1. parse_types (\<lambda>_. True) True fin (swap_range M pos (fin - pos)) pos offs nr =
        Inr (0, M, offs1, nr + of_nat (length offs')) \<and>
      take (unat nr + length offs') offs1 = take (unat nr) offs @ offs' \<and> unat nr + length offs' \<le> length offs1"
proof (induction offs' arbitrary: pos offs nr)
  case Nil
  then show ?case by (subst parse_types.simps) simp
next
  case (Cons off offs')
  obtain s where s: "unat off = pos" "pos + 12 \<le> fin" "btf_type_size (drop pos M) = Inr s" "12 \<le> s"
      "pos + nat s \<le> fin" "tiles M offs' (pos + nat s) fin"
    using Cons.prems(1) by auto
  obtain info where info: "t_info (drop pos M) = Inr info" "s = info_size info"
    using s(3) by (auto simp: btf_type_size_info res_simps)
  let ?n = "nat s"
  have n: "12 \<le> ?n" "4 dvd ?n" using s(4) info_size_words [of info] info(2) by simp_all
  let ?m = "swap_range M pos (fin - pos)" and ?m1 = "swap_range M (pos + 12) (fin - (pos + 12))"
    and ?m2 = "swap_range M (pos + ?n) (fin - (pos + ?n))"
  have j1: "?m = swap_range ?m1 pos 12"
    using swap_range_join(2) [of pos 12 "fin - (pos + 12)" M] s Cons.prems(2) by simp
  have base: "btf_bswap_type_base ?m pos = Inr ?m1"
    unfolding j1 using swap_base [of pos "swap_range ?m1 pos 12"] s Cons.prems(2) by (simp add: swap_range_swap_range)
  have same: "take (pos + 12) ?m1 = take (pos + 12) M" using s Cons.prems(2) by (intro take_swap_range) simp_all
  have i1: "t_info (drop pos ?m1) = Inr info"
    using ld32_take_cong [OF same, of "pos + 4"] info(1) s Cons.prems(2) by (simp add: t_info_def ld32_drop)
  have size: "btf_type_size (drop pos ?m1) = Inr s" using i1 info(2) by (simp add: btf_type_size_info)
  have j2: "?m1 = swap_range ?m2 (pos + 12) (?n - 12)"
    using swap_range_join(2) [of "pos + 12" "?n - 12" "fin - (pos + ?n)" M] s n Cons.prems(2) by (simp add: add.commute)
  have rest: "btf_bswap_type_rest ?m1 pos = Inr (0, ?m2)"
    using swap_rest [OF i1] s n info(2) Cons.prems(2) j2 by (simp add: swap_range_swap_range)
  have posw: "(word_of_nat pos :: u32) = off" using s(1) [symmetric] by simp
  obtain o2 where o: "btf_add_type_idx_entry (\<lambda>_. True) offs nr off = Some o2"
    using idx_entry_total Cons.prems(4,5) by fastforce
  note od = idx_entry_Some [OF o Cons.prems(4)]
  have nr: "unat (nr + 1) = unat nr + 1" using Cons.prems(5) by (simp add: unat_word_ariths)
  obtain o1 where o1: "parse_types (\<lambda>_. True) True fin ?m2 (pos + ?n) o2 (nr + 1) = Inr (0, M, o1, nr + 1 + of_nat (length offs'))"
      "take (unat (nr + 1) + length offs') o1 = take (unat (nr + 1)) o2 @ offs'" "unat (nr + 1) + length offs' \<le> length o1"
    using Cons.IH [OF s(6) Cons.prems(2,3), of "nr + 1" o2] od(1) nr Cons.prems(5) by auto
  have "take (unat (nr + 1)) o2 = take (unat nr) offs @ [off]" using od nr by (simp add: take_Suc_conv_app_nth)
  then have "take (unat nr + length (off # offs')) o1 = take (unat nr) offs @ off # offs'"
    using o1(2) nr by simp
  moreover have "parse_types (\<lambda>_. True) True fin ?m pos offs nr = parse_types (\<lambda>_. True) True fin ?m2 (pos + ?n) o2 (nr + 1)"
    using s(2,4,5) base size rest posw o by (subst parse_types.simps) simp
  ultimately show ?case using o1(1,3) nr by (simp add: add.assoc add.commute)
qed

section \<open>The header in the other byte order\<close>

lemma length_put_header [simp]: "length (put_btf_header h) = 24"
  by (simp add: put_btf_header_def)

lemma ld32_bytes32: "ld32 (bytes32 w @ r) 0 = Inr w"
  by (simp add: ld32_def ldn_def bytes32_def byte_simps)

lemma ld32_skip: "length p = i \<Longrightarrow> ld32 (p @ m) (i + k) = ld32 m k"
  by (simp add: ld32_def ldn_def)

lemma get_put_header: "get_btf_header (put_btf_header h @ r) = Inr h"
proof -
  let ?f = "[lo8 (h_magic h), hi8 (h_magic h), h_version h, h_flags h]"
  have "ld32 (put_btf_header h @ r) 4 = Inr (h_hdr_len h)" "ld32 (put_btf_header h @ r) 8 = Inr (h_type_off h)"
    "ld32 (put_btf_header h @ r) 12 = Inr (h_type_len h)" "ld32 (put_btf_header h @ r) 16 = Inr (h_str_off h)"
    "ld32 (put_btf_header h @ r) 20 = Inr (h_str_len h)"
    using ld32_skip [of ?f 4 _ 0] ld32_skip [of "?f @ bytes32 (h_hdr_len h)" 8 _ 0]
      ld32_skip [of "?f @ bytes32 (h_hdr_len h) @ bytes32 (h_type_off h)" 12 _ 0]
      ld32_skip [of "?f @ bytes32 (h_hdr_len h) @ bytes32 (h_type_off h) @ bytes32 (h_type_len h)" 16 _ 0]
      ld32_skip [of "?f @ bytes32 (h_hdr_len h) @ bytes32 (h_type_off h) @ bytes32 (h_type_len h) @ bytes32 (h_str_off h)" 20 _ 0]
    by (simp_all add: put_btf_header_def ld32_bytes32)
  then show ?thesis by (simp add: get_btf_header_def put_btf_header_def ld16_def ld8_def)
qed

definition swapped_header :: "btf_header \<Rightarrow> btf_header" where
  "swapped_header h = h\<lparr>h_magic := bswap_16 (h_magic h), h_hdr_len := bswap_32 (h_hdr_len h),
     h_type_off := bswap_32 (h_type_off h), h_type_len := bswap_32 (h_type_len h), h_str_off := bswap_32 (h_str_off h),
     h_str_len := bswap_32 (h_str_len h)\<rparr>"

lemma bswap_32_bytes: "bytes32 (bswap_32 w) = rev (bytes32 w)"
  using bytes32_bswap [of "ucast w" "ucast (drop_bit 8 w)" "ucast (drop_bit 16 w)" "ucast (drop_bit 24 w)"]
  by (simp add: le32_bytes32 bytes32_def)

lemma bswap_32_bswap_32 [simp]: "bswap_32 (bswap_32 w) = w"
proof -
  have "bytes32 (bswap_32 (bswap_32 w)) = bytes32 w" by (simp add: bswap_32_bytes)
  then show ?thesis by (metis Inr_inject ld32_bytes32)
qed

lemma swapped_swapped [simp]: "swapped_header (swapped_header h) = h"
  by (simp add: swapped_header_def bswap_16_def)

lemma bswap_put_header: "btf_bswap_hdr (put_btf_header h @ r) = Inr (put_btf_header (swapped_header h) @ r)"
proof -
  have r: "bytes32 (bswap_32 w) = [ucast (drop_bit 24 w), ucast (drop_bit 16 w), ucast (drop_bit 8 w), ucast w]" for w
    by (simp add: bswap_32_bytes) (simp add: bytes32_def)
  have m: "lo8 (bswap_16 w) = hi8 w" "hi8 (bswap_16 w) = lo8 w" for w
    unfolding bswap_16_def ntohs_def lo8_def hi8_def by (rule bit_word_eqI, auto simp: bit_simps)+
  have "swap_range ((put_btf_header h @ r)[0 := (put_btf_header h @ r) ! 1, 1 := (put_btf_header h @ r) ! 0]) 4 20 =
      put_btf_header (swapped_header h) @ r"
    unfolding swap_range_def put_btf_header_def swapped_header_def
    by (simp add: r m) (simp add: bytes32_def numeral_eq_Suc)
  then show ?thesis using bswap_hdr_ok [of "put_btf_header h @ r"] by simp
qed

text \<open>The block that is written in the other byte order.\<close>

lemma raw_data_swapped_ok:
  assumes "layer_wf b" "raw_data_swapped b = None"
    and "h_hdr_len (hdr b) = 24" "24 + unat (h_type_len (hdr b)) + unat (h_str_len (hdr b)) < 2 ^ 32"
  shows "btf_get_raw_data (\<lambda>_. True) b True =
    Inr (Some (put_btf_header (swapped_header (hdr b)) @ swap4 (take (unat (h_type_len (hdr b))) (types_data b)) @
       take (unat (h_str_len (hdr b))) (strs_data b), 24 + h_type_len (hdr b) + h_str_len (hdr b)))"
proof -
  let ?h = "hdr b" and ?tl = "unat (h_type_len (hdr b))" and ?sl = "unat (h_str_len (hdr b))"
  let ?T = "take ?tl (types_data b)" and ?S = "take ?sl (strs_data b)" and ?H = "put_btf_header (swapped_header (hdr b))"
  have sz: "unat (24 + h_type_len ?h + h_str_len ?h) = 24 + ?tl + ?sl" using assms(4) by (simp add: unat_word_ariths)
  have l: "length ?T = ?tl" "length ?S = ?sl" using assms(1) by (simp_all add: layer_wf_def)
  let ?offs = "take (unat (nr_types b)) (type_offs b)"
  have n: "length ?offs = unat (nr_types b)" "?tl \<le> length (types_data b)" using assms(1) by (simp_all add: layer_wf_def)
  have tiles: "tiles (types_data b) ?offs 0 ?tl" using assms(1) by (simp add: layer_wf_def)
  have hd: "ldn (put_btf_header ?h @ hdr_rest b) 0 24 = Inr (put_btf_header ?h)" by (simp add: ldn_def)
  have m1: "stn (replicate (24 + ?tl + ?sl) 0) 0 (put_btf_header ?h) = Inr (put_btf_header ?h @ replicate (?tl + ?sl) 0)"
    by (simp add: stn_def)
  have m2: "stn (?H @ replicate (?tl + ?sl) 0) 24 ?T = Inr (?H @ ?T @ replicate ?sl 0)"
    using l by (simp add: stn_def)
  have sw: "swap_types (type_offs b) 24 0 (unat (nr_types b)) (?H @ ?T @ replicate ?sl 0) =
      Inr (Some (?H @ swap4 ?T @ replicate ?sl 0))"
  proof -
    let ?D = "?H @ ?T @ replicate ?sl 0"
    have "tiles (drop 24 ?D) ?offs 0 ?tl"
      using tiles_cong [of ?tl "?T @ replicate ?sl 0" "types_data b" ?offs 0] tiles n(2) l(1) by simp
    then have "swap_types ?offs 24 0 (unat (nr_types b)) ?D = Inr (Some (swap_range ?D 24 ?tl))"
      using swap_types_tiles [of 24 ?D ?offs 0 ?tl "[]"] n l by simp
    moreover have "swap_range ?D 24 ?tl = ?H @ swap4 ?T @ replicate ?sl 0" using l by (simp add: swap_range_def)
    moreover have "swap_types (type_offs b) 24 i k m = swap_types ?offs 24 i k m" if "i + k \<le> unat (nr_types b)" for i k m
      using that
    proof (induction k arbitrary: i m)
      case (Suc k)
      then have "get_elem (type_offs b) i = get_elem ?offs i" using n(1) by (simp add: get_elem_def)
      then show ?case using Suc by (auto simp: rbind_def split: sum.splits prod.splits)
    qed simp
    ultimately show ?thesis by simp
  qed
  have m3: "stn (?H @ swap4 ?T @ replicate ?sl 0) (24 + ?tl) ?S = Inr (?H @ swap4 ?T @ ?S)"
    using l by (simp add: stn_def)
  have ts: "ldn (types_data b) 0 ?tl = Inr ?T" "ldn (strs_data b) 0 ?sl = Inr ?S"
    using assms(1) by (simp_all add: ldn_def layer_wf_def)
  have hl: "unat (24 :: u32) = 24" by simp
  show ?thesis
    unfolding btf_get_raw_data_def Let_def using assms(2) hd m1 m2 sw m3 ts
    by (simp add: assms(3) sz bswap_put_header hl)
qed

text \<open>Round trip over the byte order: the data of a well-formed object, written in the other byte order, is read back as an
  object with the same header, the same types at the same places and the same strings, and it is marked as
  swapped; the sections must follow each other without a gap, as in every object that the
  library builds.\<close>

theorem swapped_roundtrip:
  assumes "btf_wf [b]" "raw_data_swapped b = None"
    and "h_magic (hdr b) = BTF_MAGIC" "h_hdr_len (hdr b) = 24" "h_type_off (hdr b) = 0" "h_str_off (hdr b) = h_type_len (hdr b)"
    and "24 + unat (h_type_len (hdr b)) + unat (h_str_len (hdr b)) < 2 ^ 32"
    and "0 < h_str_len (hdr b)" "h_str_len (hdr b) - 1 \<le> 0x7fffffff" "strs_data b ! 0 = 0"
  shows "\<exists>data sz b'. btf_get_raw_data (\<lambda>_. True) b True = Inr (Some (data, sz)) \<and> unat sz = length data \<and>
     btf_new (\<lambda>_. True) True True data [] = Inr (Inr [b']) \<and>
     swapped_endian b' \<and> hdr b' = hdr b \<and> nr_types b' = nr_types b \<and>
     take (unat (nr_types b)) (type_offs b') = take (unat (nr_types b)) (type_offs b) \<and>
     take (unat (h_type_len (hdr b))) (types_data b') = take (unat (h_type_len (hdr b))) (types_data b) \<and>
     take (unat (h_str_len (hdr b))) (strs_data b') = take (unat (h_str_len (hdr b))) (strs_data b)"
proof -
  let ?h = "hdr b" and ?tl = "unat (h_type_len (hdr b))" and ?sl = "unat (h_str_len (hdr b))" and ?n = "unat (nr_types b)"
  let ?T = "take ?tl (types_data b)" and ?S = "take ?sl (strs_data b)" and ?H = "put_btf_header (swapped_header (hdr b))"
  let ?D = "?H @ swap4 ?T @ ?S"
  have wf: "layer_wf b" using assms(1) by simp
  then have l: "length ?T = ?tl" "length ?S = ?sl" by (simp_all add: layer_wf_def)
  have sl: "0 < ?sl" using assms(8) by (simp add: word_less_nat_alt)
  have raw: "btf_get_raw_data (\<lambda>_. True) b True = Inr (Some (?D, 24 + h_type_len ?h + h_str_len ?h))"
    using raw_data_swapped_ok [OF wf assms(2,4,7)] .
  have sz: "unat (24 + h_type_len ?h + h_str_len ?h) = length ?D" using assms(7) l by (simp add: unat_word_ariths)
  have ml: "(word_of_nat (length ?D - 24) :: u32) = h_str_off ?h + h_str_len ?h"
    using assms(6) l by simp
  have ph: "btf_parse_hdr ?D = Inr (0, put_btf_header ?h @ swap4 ?T @ ?S, True)"
    using ml assms(3-6) l
    by (simp add: btf_parse_hdr_def get_put_header bswap_put_header) (simp add: swapped_header_def)
  have str0: "?S ! (?sl - 1) = 0" "?S ! 0 = 0"
    using wf assms(8,10) sl by (simp_all add: layer_wf_def)
  have ss: "btf_parse_str_sec [] (h_str_len ?h) ?S = Inr 0"
    using str0 assms(8,9) sl l by (auto simp: btf_parse_str_sec_def ld8_def not_less)
  let ?offs = "take ?n (type_offs b)"
  have n: "length ?offs = ?n" using wf by (simp add: layer_wf_def)
  have tiles: "tiles (?T @ ?S) ?offs 0 ?tl"
    using tiles_cong [of ?tl "?T @ ?S" "types_data b" ?offs 0] wf l by (simp add: layer_wf_def)
  have "12 * ?n \<le> ?tl" using tiles_length [OF tiles] n by simp
  then have few: "unat (0 :: u32) + length ?offs < 0x7fffffff" using assms(7) n by simp
  obtain offs1 where p: "parse_types (\<lambda>_. True) True ?tl (swap_range (?T @ ?S) 0 ?tl) 0 [] 0 = Inr (0, ?T @ ?S, offs1, of_nat ?n)"
      "take ?n offs1 = ?offs"
    using parse_swapped [OF tiles _ _ _ few, of "[]"] l assms(7) n by auto
  have sr: "swap_range (?T @ ?S) 0 ?tl = swap4 ?T @ ?S" using l by (simp add: swap_range_def)
  have nr: "(of_nat ?n :: u32) = nr_types b" by simp
  have pos: "unat (24 :: u32) = 24" by simp
  have "\<exists>b'. btf_new (\<lambda>_. True) True True ?D [] = Inr (Inr [b']) \<and> swapped_endian b' \<and> hdr b' = ?h \<and> nr_types b' = nr_types b \<and>
     type_offs b' = offs1 \<and> types_data b' = ?T @ ?S \<and> strs_data b' = ?S"
    using ph ss p(1) sr l nr assms(4-6) by (simp add: btf_new_def get_put_header pos Let_def)
  then show ?thesis using raw sz p(2) l by auto
qed

section \<open>Concrete runs\<close>

text \<open>Three types (an \<open>int\<close>, an array of three of them, a structure with the array as its member), and an object with a type
  definition of itself.\<close>

definition word_bytes_of :: "u32 list \<Rightarrow> u8 list" where "word_bytes_of ws = concat (List.map bytes32 ws)"

definition btf_section :: "u8 list" where
  "btf_section = word_bytes_of [1, 0x01000000, 4, 32,  0, 0x03000000, 0, 1, 1, 3,  0, 0x04000001, 12, 0, 2, 0]"

definition btf_strings :: "u8 list" where "btf_strings = 0 # ascii ''int'' @ [0]"

definition btf_hdr_sample :: btf_header where
  "btf_hdr_sample = \<lparr>h_magic = BTF_MAGIC, h_version = 1, h_flags = 0, h_hdr_len = 24, h_type_off = 0, h_type_len = 64,
     h_str_off = 64, h_str_len = 5\<rparr>"

definition btf_bytes :: "u8 list" where
  "btf_bytes = put_btf_header btf_hdr_sample @ btf_section @ btf_strings"

definition sample_btf :: btf where
  "sample_btf = \<lparr>raw_data = Some btf_bytes, raw_data_swapped = None, raw_size = 93, swapped_endian = False,
     hdr = btf_hdr_sample, hdr_rest = btf_section @ btf_strings, types_data = btf_section @ btf_strings,
     type_offs = [0, 16, 40] @ replicate 13 0, nr_types = 3, start_id = 1, start_str_off = 0,
     strs_data = btf_strings, btf_fd = - 1, ptr_sz = 0\<rparr>"

lemma btf_bytes_parsed: "btf_parse_hdr btf_bytes = Inr (0, btf_bytes, False)"
  by code_simp

lemma btf_hdr_read: "get_btf_header btf_bytes = Inr btf_hdr_sample"
  unfolding btf_bytes_def by (rule get_put_header)

lemma btf_bytes_sane: "header_sane btf_bytes"
  unfolding header_sane_def using btf_bytes_parsed btf_hdr_read by (auto simp: btf_hdr_sample_def)

lemma btf_bytes_new: "btf_new (\<lambda>_. True) True True btf_bytes [] = Inr (Inr [sample_btf])"
  by code_simp

lemma sample_btf_wf: "btf_wf [sample_btf]"
proof -
  have "length btf_bytes < 2 ^ 32" by (simp add: btf_bytes_def btf_section_def word_bytes_of_def btf_strings_def ascii_def)
  then show ?thesis
    using btf_new_ok [of btf_bytes "[]" "\<lambda>_. True" True True] btf_bytes_sane btf_bytes_new by auto
qed

theorem btf_new_safe_witness:
  "btf_new (\<lambda>_. True) True True btf_bytes [] = Inr (Inr [sample_btf]) \<and> btf_wf [sample_btf]"
proof -
  have "length btf_bytes < 2 ^ 32" by (simp add: btf_bytes_def btf_section_def word_bytes_of_def btf_strings_def ascii_def)
  then show ?thesis
    using btf_new_safe [of btf_bytes "[]" "\<lambda>_. True" True True] btf_bytes_sane btf_bytes_new by auto
qed

theorem header_not_checked_witness:
  "btf_new (\<lambda>_. True) True True (put_btf_header (btf_hdr_sample\<lparr>h_hdr_len := 1000\<rparr>) @ btf_section @ btf_strings) [] =
     Inl OutOfBounds"
proof -
  let ?d = "put_btf_header (btf_hdr_sample\<lparr>h_hdr_len := 1000\<rparr>) @ btf_section @ btf_strings"
  have "btf_parse_hdr ?d = Inr (0, ?d, False)" by code_simp
  moreover have "get_btf_header ?d = Inr (btf_hdr_sample\<lparr>h_hdr_len := 1000\<rparr>)" by (rule get_put_header)
  moreover have "length ?d < 1000" by (simp add: btf_section_def word_bytes_of_def btf_strings_def ascii_def)
  ultimately show ?thesis
    using header_not_checked [of ?d ?d False "btf_hdr_sample\<lparr>h_hdr_len := 1000\<rparr>" "\<lambda>_. True" "[]"]
    by (simp add: btf_hdr_sample_def)
qed

text \<open>An object without types and with two bytes of strings on top of the sample.\<close>

definition btf_split :: btf where
  "btf_split = sample_btf\<lparr>hdr := btf_hdr_sample\<lparr>h_type_len := 0, h_str_off := 0, h_str_len := 2\<rparr>, nr_types := 0,
     start_id := 4, start_str_off := 5, strs_data := ascii ''b'' @ [0]\<rparr>"

theorem split_of_split_names_witness:
  "btf_wf [btf_split, sample_btf] \<and> btf__str_by_offset [btf_split, sample_btf] 5 = Inr (Some (ascii ''b'' @ [0])) \<and>
   (\<exists>bs. btf_new_empty True True [btf_split, sample_btf] = Inr bs \<and> btf__str_by_offset bs 5 = Inr None)"
proof -
  have wf: "btf_wf [btf_split, sample_btf]"
    using sample_btf_wf by (simp add: layer_wf_def) (simp add: btf_split_def sample_btf_def btf_hdr_sample_def ascii_def)
  obtain bs where bs: "btf_new_empty True True [btf_split, sample_btf] = Inr bs" by (simp add: btf_new_empty_def Let_def)
  show ?thesis
    using wf bs split_of_split_names [OF bs, of 5] by (simp add: btf_split_def sample_btf_def btf_hdr_sample_def ascii_def)
qed

theorem swapped_roundtrip_witness:
  "\<exists>data sz b'. btf_get_raw_data (\<lambda>_. True) sample_btf True = Inr (Some (data, sz)) \<and>
     btf_new (\<lambda>_. True) True True data [] = Inr (Inr [b']) \<and> swapped_endian b' \<and>
     take 64 (types_data b') = btf_section"
proof -
  have f: "raw_data_swapped sample_btf = None" "hdr sample_btf = btf_hdr_sample" "strs_data sample_btf = btf_strings"
    "types_data sample_btf = btf_section @ btf_strings" "length btf_section = 64"
    by (simp_all add: sample_btf_def btf_section_def word_bytes_of_def)
  have "take 64 (types_data sample_btf) = btf_section" using f by simp
  moreover have "btf_strings ! 0 = 0" by (simp add: btf_strings_def)
  ultimately show ?thesis
    using swapped_roundtrip [of sample_btf] sample_btf_wf f by (auto simp: btf_hdr_sample_def)
qed

lemma btf_types_found:
  "btf__type_by_id [sample_btf] 1 = Inr (Some (Btf_Type (btf_section @ btf_strings)))"
  "btf__type_by_id [sample_btf] 2 = Inr (Some (Btf_Type (drop 16 (btf_section @ btf_strings))))"
  "btf__type_by_id [sample_btf] 3 = Inr (Some (Btf_Type (drop 40 (btf_section @ btf_strings))))"
  by code_simp+

theorem resolve_size_exact_witness:
  "\<exists>bs'. btf__resolve_size [sample_btf] 2 = Inr (12, bs')"
proof -
  have m: "btf_kind (btf_section @ btf_strings) = Inr 1" "t_type (btf_section @ btf_strings) = Inr 4"
    "btf_kind (drop 16 (btf_section @ btf_strings)) = Inr 3" "array_nelems (drop 16 (btf_section @ btf_strings)) = Inr 3"
    "array_type (drop 16 (btf_section @ btf_strings)) = Inr 1" by code_simp+
  have "sized [sample_btf] 1 [] (unat (4 :: u32)) 0" using sized.whole [OF btf_types_found(1) m(1) _ m(2)] by simp
  then have "sized [sample_btf] 2 [3] (unat (4 :: u32)) (Suc 0)" by (rule sized.array [OF btf_types_found(2) m(3-5)])
  then have sized: "sized [sample_btf] 2 [3] 4 (Suc 0)" by simp
  obtain r bs' where r: "btf__resolve_size [sample_btf] 2 = Inr (r, bs')"
    and all: "\<forall>ds s n. sized [sample_btf] 2 ds s n \<longrightarrow>
      (n < 32 \<longrightarrow> r = size_result 1 ds s) \<and> (32 \<le> n \<longrightarrow> r = - 22 \<or> r = - 7)"
    using resolve_size_exact [OF sample_btf_wf, of 2] by blast
  have "r = size_result 1 [3] 4" using all [rule_format, OF sized] by simp
  moreover have "size_result 1 [3] 4 = 12" by (simp add: size_result_Cons) (simp add: size_result_def)
  ultimately show ?thesis using r by auto
qed

theorem find_by_name_first_witness:
  "btf__find_by_name_kind [sample_btf] (ascii ''int'') 1 = Inr 1"
proof -
  have n: "last_id (hd [sample_btf]) = 3" by (simp add: last_id_def sample_btf_def)
  have "btf__find_by_name_kind_at [sample_btf] (ascii ''int'') (Some 1) 1 = Inr True" by code_simp
  then have h: "has_name [sample_btf] (ascii ''int'') (Some 1) (1 + of_nat 0)"
    using find_at_name [OF sample_btf_wf, of 1 "ascii ''int''" "Some 1"] n by simp
  moreover have "ascii ''int'' \<noteq> ascii ''void''" by (simp add: ascii_def)
  moreover have "(3 :: nat) < 2 ^ 31" by simp
  ultimately obtain r where r: "btf__find_by_name_kind [sample_btf] (ascii ''int'') 1 = Inr r"
      "(r = - 2 \<and> \<not> has_name [sample_btf] (ascii ''int'') (Some 1) (1 + of_nat 0)) \<or>
       (\<exists>j. r = uint (1 + of_nat j :: u32) \<and> (\<forall>k < j. \<not> has_name [sample_btf] (ascii ''int'') (Some 1) (1 + of_nat k)))"
    using find_by_name_first [OF sample_btf_wf, of "ascii ''int''" 1, unfolded n] zero_less_numeral zero_neq_one by metis
  then obtain j where j: "r = uint (1 + of_nat j :: u32)" "\<forall>k < j. \<not> has_name [sample_btf] (ascii ''int'') (Some 1) (1 + of_nat k)"
    using h by blast
  then have "j = 0" using h by (metis neq0_conv)
  then show ?thesis using r(1) j(1) by simp
qed

theorem align_of_returns_witness:
  "\<exists>r bs'. btf__align_of 3 [sample_btf] 3 = Some (Inr (r, bs'))"
proof -
  define rank :: "u32 \<Rightarrow> nat" where "rank t = (if t = 3 then 2 else if t = 2 then 1 else 0)" for t
  have n: "last_id (hd [sample_btf]) = 3" by (simp add: last_id_def sample_btf_def)
  have m: "btf_kind (btf_section @ btf_strings) = Inr 1" "btf_kind (drop 16 (btf_section @ btf_strings)) = Inr 3"
    "array_type (drop 16 (btf_section @ btf_strings)) = Inr 1" "btf_kind (drop 40 (btf_section @ btf_strings)) = Inr 4"
    "btf_vlen (drop 40 (btf_section @ btf_strings)) = Inr 1" "member_type (drop 40 (btf_section @ btf_strings)) 0 = Inr 2"
    by code_simp+
  have "rank y < rank x \<and> unat y \<le> last_id (hd [sample_btf])" if r: "refers [sample_btf] x y" for x y
  proof -
    obtain m' where "btf__type_by_id [sample_btf] x = Inr (Some (Btf_Type m'))" using r by (auto simp: refers_def)
    then have "x \<noteq> 0" "\<not> 3 < unat x"
      using btf__type_by_id_ok [OF sample_btf_wf, of x] n by auto
    then have "0 < unat x" "unat x \<le> 3" by (simp_all add: unat_gt_0)
    then have "unat x = 1 \<or> unat x = 2 \<or> unat x = 3" by linarith
    then have "unat x = unat (1 :: u32) \<or> unat x = unat (2 :: u32) \<or> unat x = unat (3 :: u32)" by simp
    then have "x = 1 \<or> x = 2 \<or> x = 3" by (simp only: word_unat_eq_iff)
    then show ?thesis using r m btf_types_found n by (auto simp: refers_def rank_def)
  qed
  moreover have "unat (3 :: u32) \<le> last_id (hd [sample_btf])" using n by simp
  ultimately show ?thesis
    using align_of_returns [OF sample_btf_wf, of rank 3] by (simp add: rank_def numeral_eq_Suc) blast
qed

text \<open>A type definition of itself.\<close>

definition btf_loop :: btf where
  "btf_loop = sample_btf\<lparr>hdr := btf_hdr_sample\<lparr>h_type_len := 12, h_str_off := 12\<rparr>, nr_types := 1,
     types_data := word_bytes_of [1, 0x08000000, 1]\<rparr>"

theorem align_of_diverges_witness:
  "btf_wf [btf_loop] \<and> (\<forall>d. btf__align_of d [btf_loop] 1 = None) \<and>
   btf__resolve_size [btf_loop] 1 = Inr (- 22, [btf_loop])"
proof -
  have size: "btf_type_size (word_bytes_of [1, 0x08000000, 1]) = Inr 12" by code_simp
  have wf: "btf_wf [btf_loop]"
    using sample_btf_wf size
    by (simp add: layer_wf_def) (simp add: btf_loop_def sample_btf_def btf_hdr_sample_def word_bytes_of_def)
  have m: "btf__type_by_id [btf_loop] 1 = Inr (Some (Btf_Type (word_bytes_of [1, 0x08000000, 1])))"
    "btf_kind (word_bytes_of [1, 0x08000000, 1]) = Inr 8" "t_type (word_bytes_of [1, 0x08000000, 1]) = Inr 1" by code_simp+
  show ?thesis using wf align_of_diverges [OF m(1,2) _ m(3)] by simp
qed

end
