(* ===== verification/Libbpf_Btf_Write.thy ===== *)
theory Libbpf_Btf_Write
  imports Libbpf_Btf_Load Libbpf_Hashmap
begin

text \<open>
  Building type information (\<open>xdp/libbpf/src/btf.c\<close>, from \<open>strs_hash_fn\<close> to \<open>btf__add_datasec_var_info\<close>): an object
  is taken apart into a header, the types and the strings, each in memory of its own; strings are added once,
  over the hash map whose keys are the offsets of the strings; types are appended. The capacity of the
  memory of a section is its length. Names are the bytes of a C string without the terminator, \<open>None\<close> is NULL.
  As in \<open>Libbpf_Btf\<close> an object is the list of its layers. Which requests for memory succeed is a record
  of parameters.
\<close>

section \<open>Objects that can be changed\<close>

text \<open>\<open>mb_split\<close> says that the header is not part of \<open>raw_data\<close>.\<close>

record mbtf =
  mb :: btf
  mb_split :: bool
  strs_hash :: "(nat, nat) hashmap option"
  strs_deduped :: bool

definition mb_wrap :: "btf \<Rightarrow> mbtf" where
  "mb_wrap b = \<lparr>mb = b, mb_split = False, strs_hash = None, strs_deduped = False\<rparr>"

text \<open>Requests: of memory of a size, of the three blocks, of the hash map, and of its array and an entry when it has
  so many entries.\<close>

record memory =
  mem_size :: "nat \<Rightarrow> bool"
  mem_blocks :: bool
  mem_map :: bool
  mem_array :: "u64 \<Rightarrow> bool"
  mem_entry :: "u64 \<Rightarrow> bool"

definition btf_is_modifiable :: "mbtf \<Rightarrow> bool" where
  "btf_is_modifiable w = mb_split w"

section \<open>Strings\<close>

definition str_at :: "u8 list \<Rightarrow> nat \<Rightarrow> u8 list" where
  "str_at strs off = takeWhile (\<lambda>c. c \<noteq> 0) (drop off strs)"

definition strs_hash_fn :: "u8 list \<Rightarrow> nat \<Rightarrow> u64" where
  "strs_hash_fn strs k = str_hash (List.map (\<lambda>c. char_of (unat c)) (str_at strs k))"

definition strs_hash_equal_fn :: "u8 list \<Rightarrow> nat \<Rightarrow> nat \<Rightarrow> bool" where
  "strs_hash_equal_fn strs k1 k2 \<longleftrightarrow> str_at strs k1 = str_at strs k2"

text \<open>The functions of the map read the strings of the object through \<open>strs_data_ptr\<close>.\<close>

definition over :: "u8 list \<Rightarrow> (nat, nat) hashmap \<Rightarrow> (nat, nat) hashmap" where
  "over strs hm = hm\<lparr>hash_fn := strs_hash_fn strs, equal_fn := strs_hash_equal_fn strs\<rparr>"

definition btf_invalidate_raw_data :: "btf \<Rightarrow> btf" where
  "btf_invalidate_raw_data b = b\<lparr>raw_data := None, raw_data_swapped := None\<rparr>"

text \<open>The loop that indexes the strings from an offset on.\<close>

lemma bstr_length: "bstr m = Inr s \<Longrightarrow> length s < length m"
proof (induction m arbitrary: s)
  case (Cons c m)
  then show ?case by (auto simp: res_simps split: if_splits)
qed simp

function index_strings :: "memory \<Rightarrow> u8 list \<Rightarrow> nat \<Rightarrow> (nat, nat) hashmap \<Rightarrow> (int \<times> (nat, nat) hashmap) res" where
  "index_strings M strs off hm =
     (if off < length strs then
        rbind (bstr (drop off strs)) (\<lambda>s.
        rbind (hashmap__add (mem_array M (sz hm)) (mem_entry M (sz hm)) (over strs hm) off off) (\<lambda>(err, hm).
          if err = - EEXIST \<or> err = 0 then index_strings M strs (off + length s + 1) hm
          else Inr (err, hm)))
      else Inr (0, hm))"
  by pat_completeness auto
termination
  by (relation "measure (\<lambda>(M, strs, off, hm). length strs - off)") auto

declare index_strings.simps [simp del]

text \<open>\<open>root\<close> says that there is no object below. The fields of the header are read from the new block, which has
  \<open>hdr_len\<close> bytes.\<close>

definition btf_ensure_modifiable :: "memory \<Rightarrow> bool \<Rightarrow> mbtf \<Rightarrow> (int \<times> mbtf) res" where
  "btf_ensure_modifiable M root w =
     (let b = mb w; h = hdr b in
      if btf_is_modifiable w then Inr (0, w\<lparr>mb := btf_invalidate_raw_data b\<rparr>)
      else if \<not> mem_blocks M then Inr (- 12, w)
      else
        rbind (ldn (put_btf_header h @ hdr_rest b) 0 (unat (h_hdr_len h))) (\<lambda>hd.
        rbind (ldn (types_data b) 0 (unat (h_type_len h))) (\<lambda>types.
        rbind (ldn (strs_data b) 0 (unat (h_str_len h))) (\<lambda>strs.
          if \<not> mem_map M then Inr (- 12, w)
          else
            rbind (index_strings M strs 0 (hashmap__init (strs_hash_fn strs) (strs_hash_equal_fn strs))) (\<lambda>(err, hm).
              if err \<noteq> 0 then Inr (- 12, w)
              else if length hd < sizeof_btf_header then Inl OutOfBounds
              else
                Inr (0, w\<lparr>mb := btf_invalidate_raw_data
                            (b\<lparr>hdr_rest := drop sizeof_btf_header hd, types_data := types, strs_data := strs\<rparr>),
                          mb_split := True, strs_hash := Some hm,
                          strs_deduped := strs_deduped w \<or> h_str_len h = 0 \<or> root \<and> h_str_len h = 1\<rparr>))))))"

definition btf_add_str_mem :: "memory \<Rightarrow> btf \<Rightarrow> nat \<Rightarrow> btf option" where
  "btf_add_str_mem M b add_sz =
     map_option (\<lambda>m. b\<lparr>strs_data := m\<rparr>)
       (btf_add_mem (mem_size M) 0 (strs_data b) 1 (unat (h_str_len (hdr b))) 0x7fffffff add_sz)"

text \<open>Both searches write the string behind the strings, where the map can be asked for its offset.\<close>

definition append_probe :: "memory \<Rightarrow> bool \<Rightarrow> u8 list \<Rightarrow> mbtf \<Rightarrow> (int \<times> mbtf) res" where
  "append_probe M root s w =
     rbind (btf_ensure_modifiable M root w) (\<lambda>(err, w).
       if err \<noteq> 0 then Inr (- 12, w)
       else (case btf_add_str_mem M (mb w) (length s + 1) of
               None \<Rightarrow> Inr (- 12, w)
             | Some b \<Rightarrow> rbind (stn (strs_data b) (unat (h_str_len (hdr b))) (s @ [0])) (\<lambda>m.
                           Inr (0, w\<lparr>mb := b\<lparr>strs_data := m\<rparr>\<rparr>))))"

definition str_result :: "btf \<Rightarrow> nat \<Rightarrow> int" where
  "str_result b off = sint (start_str_off b + word_of_nat off)"

definition the_hash :: "mbtf \<Rightarrow> (nat, nat) hashmap res" where
  "the_hash w = (case strs_hash w of None \<Rightarrow> Inl NullDeref | Some hm \<Rightarrow> Inr (over (strs_data (mb w)) hm))"

fun btf__find_str :: "memory \<Rightarrow> mbtf list \<Rightarrow> u8 list \<Rightarrow> (int \<times> mbtf list) res" where
  "btf__find_str M [] s = Inl NullDeref"
| "btf__find_str M (w # base) s =
     rbind (if base \<noteq> [] then btf__find_str M base s else Inr (- 2, base)) (\<lambda>(ret, base).
       if ret \<noteq> - 2 then Inr (ret, w # base)
       else
         rbind (append_probe M (base = []) s w) (\<lambda>(err, w).
           if err \<noteq> 0 then Inr (err, w # base)
           else
             rbind (the_hash w) (\<lambda>hm.
             rbind (hashmap__find hm (unat (h_str_len (hdr (mb w))))) (\<lambda>old.
               case old of
                 Some old_off \<Rightarrow> Inr (str_result (mb w) old_off, w # base)
               | None \<Rightarrow> Inr (- 2, w # base)))))"

definition add_str_here :: "memory \<Rightarrow> bool \<Rightarrow> u8 list \<Rightarrow> mbtf \<Rightarrow> (int \<times> mbtf) res" where
  "add_str_here M root s w =
     rbind (append_probe M root s w) (\<lambda>(err, w).
       if err \<noteq> 0 then Inr (err, w)
       else
         let new_off = unat (h_str_len (hdr (mb w))) in
         rbind (the_hash w) (\<lambda>hm.
         rbind (hashmap__insert (mem_array M (sz hm)) (mem_entry M (sz hm)) hm new_off new_off HASHMAP_ADD) (\<lambda>(err, old, hm).
           let w = w\<lparr>strs_hash := Some hm\<rparr> in
           if err = - EEXIST then (case old of None \<Rightarrow> Inl NullDeref | Some (old_off, _) \<Rightarrow> Inr (str_result (mb w) old_off, w))
           else if err \<noteq> 0 then Inr (err, w)
           else
             let b = mb w; b = b\<lparr>hdr := (hdr b)\<lparr>h_str_len := h_str_len (hdr b) + word_of_nat (length s + 1)\<rparr>\<rparr>
             in Inr (str_result b new_off, w\<lparr>mb := b\<rparr>))))"

definition btf__add_str :: "memory \<Rightarrow> mbtf list \<Rightarrow> u8 list \<Rightarrow> (int \<times> mbtf list) res" where
  "btf__add_str M ws s =
     (case ws of
        [] \<Rightarrow> Inl NullDeref
      | w # base \<Rightarrow>
          rbind (if base \<noteq> [] then btf__find_str M base s else Inr (- 2, base)) (\<lambda>(ret, base).
            if ret \<noteq> - 2 then Inr (ret, w # base)
            else rbind (add_str_here M (base = []) s w) (\<lambda>(ret, w). Inr (ret, w # base))))"


section \<open>Types\<close>

definition btf_add_type_mem :: "memory \<Rightarrow> btf \<Rightarrow> nat \<Rightarrow> btf option" where
  "btf_add_type_mem M b add_sz =
     map_option (\<lambda>m. b\<lparr>types_data := m\<rparr>)
       (btf_add_mem (mem_size M) 0 (types_data b) 1 (unat (h_type_len (hdr b))) 0xffffffff add_sz)"

definition btf_type_info :: "u32 \<Rightarrow> u32 \<Rightarrow> u32 \<Rightarrow> u32" where
  "btf_type_info kind vlen kflag = push_bit 31 kflag OR push_bit 24 kind OR vlen"

fun st_words :: "u8 list \<Rightarrow> nat \<Rightarrow> u32 list \<Rightarrow> u8 list res" where
  "st_words m pos [] = Inr m"
| "st_words m pos (x # xs) = rbind (st32 m pos x) (\<lambda>m. st_words m (pos + 4) xs)"

definition btf_grow :: "btf \<Rightarrow> nat \<Rightarrow> btf" where
  "btf_grow b n = b\<lparr>hdr := (hdr b)\<lparr>h_type_len := h_type_len (hdr b) + word_of_nat n,
                                   h_str_off := h_str_off (hdr b) + word_of_nat n\<rparr>\<rparr>"

definition btf_commit_type :: "memory \<Rightarrow> nat \<Rightarrow> mbtf \<Rightarrow> int \<times> mbtf" where
  "btf_commit_type M data_sz w =
     (let b = mb w in
      case btf_add_type_idx_entry (mem_size M) (type_offs b) (nr_types b) (h_type_len (hdr b)) of
        None \<Rightarrow> (- 12, w)
      | Some offs \<Rightarrow>
          let b = (btf_grow b data_sz)\<lparr>type_offs := offs, nr_types := nr_types b + 1\<rparr>
          in (sint (start_id b + nr_types b - 1), w\<lparr>mb := b\<rparr>))"

definition validate_type_id :: "int \<Rightarrow> bool" where
  "validate_type_id i \<longleftrightarrow> \<not> (i < 0 \<or> i > 0x7fffffff)"

text \<open>What the functions that add types have in common: the object is made modifiable and gets room for \<open>n\<close> bytes; a name
  that is given is added; the words are written behind the types.\<close>

definition open_type :: "memory \<Rightarrow> nat \<Rightarrow> mbtf list \<Rightarrow> (int \<times> mbtf list) res" where
  "open_type M n ws =
     (case ws of
        [] \<Rightarrow> Inl NullDeref
      | w # base \<Rightarrow>
          rbind (btf_ensure_modifiable M (base = []) w) (\<lambda>(err, w).
            if err \<noteq> 0 then Inr (- 12, w # base)
            else (case btf_add_type_mem M (mb w) n of
                    None \<Rightarrow> Inr (- 12, w # base)
                  | Some b \<Rightarrow> Inr (0, w\<lparr>mb := b\<rparr> # base))))"

definition no_name :: "u8 list option \<Rightarrow> bool" where
  "no_name name \<longleftrightarrow> name = None \<or> name = Some []"

definition add_name :: "memory \<Rightarrow> u8 list option \<Rightarrow> mbtf list \<Rightarrow> (int \<times> mbtf list) res" where
  "add_name M name ws =
     (case name of
        None \<Rightarrow> Inr (0, ws)
      | Some s \<Rightarrow> if s = [] then Inr (0, ws) else btf__add_str M ws s)"

definition on_top :: "(mbtf \<Rightarrow> (int \<times> mbtf) res) \<Rightarrow> mbtf list \<Rightarrow> (int \<times> mbtf list) res" where
  "on_top f ws = (case ws of [] \<Rightarrow> Inl NullDeref | w # base \<Rightarrow> rbind (f w) (\<lambda>(r, w). Inr (r, w # base)))"

definition with_room ::
  "memory \<Rightarrow> nat \<Rightarrow> u8 list option \<Rightarrow> (u32 \<Rightarrow> mbtf \<Rightarrow> (int \<times> mbtf) res) \<Rightarrow> mbtf list \<Rightarrow> (int \<times> mbtf list) res" where
  "with_room M n name fill ws =
     rbind (open_type M n ws) (\<lambda>(err, ws).
       if err \<noteq> 0 then Inr (err, ws)
       else rbind (add_name M name ws) (\<lambda>(name_off, ws).
              if name_off < 0 then Inr (name_off, ws) else on_top (fill (word_of_int name_off)) ws))"

definition put_words :: "u32 list \<Rightarrow> mbtf \<Rightarrow> mbtf res" where
  "put_words xs w =
     rbind (st_words (types_data (mb w)) (unat (h_type_len (hdr (mb w)))) xs) (\<lambda>m. Inr (w\<lparr>mb := (mb w)\<lparr>types_data := m\<rparr>\<rparr>))"

definition new_type ::
  "memory \<Rightarrow> u8 list option \<Rightarrow> u32 \<Rightarrow> u32 \<Rightarrow> u32 list \<Rightarrow> mbtf list \<Rightarrow> (int \<times> mbtf list) res" where
  "new_type M name info size_or_type extra ws =
     (let n = 12 + 4 * length extra in
      with_room M n name (\<lambda>name_off w.
        rbind (put_words (name_off # info # size_or_type # extra) w) (\<lambda>w. Inr (btf_commit_type M n w))) ws)"

definition btf__add_int :: "memory \<Rightarrow> mbtf list \<Rightarrow> u8 list option \<Rightarrow> u64 \<Rightarrow> u32 \<Rightarrow> (int \<times> mbtf list) res" where
  "btf__add_int M ws name byte_sz encoding =
     (if no_name name then Inr (- 22, ws)
      else if byte_sz = 0 \<or> byte_sz AND (byte_sz - 1) \<noteq> 0 \<or> byte_sz > 16 then Inr (- 22, ws)
      else if encoding AND NOT 7 \<noteq> 0 then Inr (- 22, ws)
      else new_type M name (btf_type_info BTF_KIND_INT 0 0) (ucast byte_sz)
             [push_bit 24 encoding OR ucast (byte_sz * 8)] ws)"

definition btf_add_ref_kind :: "memory \<Rightarrow> mbtf list \<Rightarrow> u32 \<Rightarrow> u8 list option \<Rightarrow> int \<Rightarrow> (int \<times> mbtf list) res" where
  "btf_add_ref_kind M ws kind name ref_type_id =
     (if \<not> validate_type_id ref_type_id then Inr (- 22, ws)
      else new_type M name (btf_type_info kind 0 0) (word_of_int ref_type_id) [] ws)"

definition btf__add_ptr where "btf__add_ptr M ws ref = btf_add_ref_kind M ws BTF_KIND_PTR None ref"
definition btf__add_volatile where "btf__add_volatile M ws ref = btf_add_ref_kind M ws BTF_KIND_VOLATILE None ref"
definition btf__add_const where "btf__add_const M ws ref = btf_add_ref_kind M ws BTF_KIND_CONST None ref"
definition btf__add_restrict where "btf__add_restrict M ws ref = btf_add_ref_kind M ws BTF_KIND_RESTRICT None ref"

definition btf__add_typedef :: "memory \<Rightarrow> mbtf list \<Rightarrow> u8 list option \<Rightarrow> int \<Rightarrow> (int \<times> mbtf list) res" where
  "btf__add_typedef M ws name ref =
     (if no_name name then Inr (- 22, ws) else btf_add_ref_kind M ws BTF_KIND_TYPEDEF name ref)"

definition btf__add_array :: "memory \<Rightarrow> mbtf list \<Rightarrow> int \<Rightarrow> int \<Rightarrow> u32 \<Rightarrow> (int \<times> mbtf list) res" where
  "btf__add_array M ws index_type_id elem_type_id nr_elems =
     (if \<not> validate_type_id index_type_id \<or> \<not> validate_type_id elem_type_id then Inr (- 22, ws)
      else new_type M None (btf_type_info BTF_KIND_ARRAY 0 0) 0
             [word_of_int elem_type_id, word_of_int index_type_id, nr_elems] ws)"

definition btf_add_composite :: "memory \<Rightarrow> mbtf list \<Rightarrow> u32 \<Rightarrow> u8 list option \<Rightarrow> u32 \<Rightarrow> (int \<times> mbtf list) res" where
  "btf_add_composite M ws kind name bytes_sz = new_type M name (btf_type_info kind 0 0) bytes_sz [] ws"

definition btf__add_struct where "btf__add_struct M ws name byte_sz = btf_add_composite M ws BTF_KIND_STRUCT name byte_sz"
definition btf__add_union where "btf__add_union M ws name byte_sz = btf_add_composite M ws BTF_KIND_UNION name byte_sz"

definition btf__add_enum :: "memory \<Rightarrow> mbtf list \<Rightarrow> u8 list option \<Rightarrow> u32 \<Rightarrow> (int \<times> mbtf list) res" where
  "btf__add_enum M ws name byte_sz =
     (if byte_sz = 0 \<or> byte_sz AND (byte_sz - 1) \<noteq> 0 \<or> byte_sz > 8 then Inr (- 22, ws)
      else new_type M name (btf_type_info BTF_KIND_ENUM 0 0) byte_sz [] ws)"

definition btf__add_func_proto :: "memory \<Rightarrow> mbtf list \<Rightarrow> int \<Rightarrow> (int \<times> mbtf list) res" where
  "btf__add_func_proto M ws ret_type_id =
     (if \<not> validate_type_id ret_type_id then Inr (- 22, ws)
      else new_type M None (btf_type_info BTF_KIND_FUNC_PROTO 0 0) (word_of_int ret_type_id) [] ws)"

definition btf__add_var :: "memory \<Rightarrow> mbtf list \<Rightarrow> u8 list option \<Rightarrow> int \<Rightarrow> int \<Rightarrow> (int \<times> mbtf list) res" where
  "btf__add_var M ws name linkage type_id =
     (if no_name name then Inr (- 22, ws)
      else if linkage \<notin> {0, 1, 2} then Inr (- 22, ws)
      else if \<not> validate_type_id type_id then Inr (- 22, ws)
      else new_type M name (btf_type_info BTF_KIND_VAR 0 0) (word_of_int type_id) [word_of_int linkage] ws)"

definition btf__add_datasec :: "memory \<Rightarrow> mbtf list \<Rightarrow> u8 list option \<Rightarrow> u32 \<Rightarrow> (int \<times> mbtf list) res" where
  "btf__add_datasec M ws name byte_sz =
     (if no_name name then Inr (- 22, ws) else new_type M name (btf_type_info BTF_KIND_DATASEC 0 0) byte_sz [] ws)"

section \<open>Changing the last type\<close>

text \<open>The position of a type of the topmost layer, and writing the word with its kind.\<close>

definition type_pos :: "btf \<Rightarrow> u32 \<Rightarrow> nat res" where
  "type_pos b i = rbind (get_elem (type_offs b) (unat (i - start_id b))) (\<lambda>off. Inr (unat off))"

definition btf_last_type :: "btf \<Rightarrow> nat res" where
  "btf_last_type b = type_pos b (btf__get_nr_types b)"

definition set_info :: "nat \<Rightarrow> u32 \<Rightarrow> mbtf \<Rightarrow> mbtf res" where
  "set_info pos info w = rbind (st32 (types_data (mb w)) (pos + 4) info) (\<lambda>m. Inr (w\<lparr>mb := (mb w)\<lparr>types_data := m\<rparr>\<rparr>))"

definition last_kind :: "btf \<Rightarrow> u32 res" where
  "last_kind b = rbind (btf_last_type b) (\<lambda>pos. btf_kind (drop pos (types_data b)))"

definition btf_type_inc_vlen :: "bool \<Rightarrow> nat \<Rightarrow> mbtf \<Rightarrow> mbtf res" where
  "btf_type_inc_vlen bitfield pos w =
     (let t = drop pos (types_data (mb w)) in
      rbind (btf_kind t) (\<lambda>k. rbind (btf_vlen t) (\<lambda>vlen. rbind (btf_kflag t) (\<lambda>kflag.
        set_info pos (btf_type_info k (word_of_nat (vlen + 1)) (if bitfield \<or> kflag then 1 else 0)) w))))"

definition new_member ::
  "memory \<Rightarrow> u8 list option \<Rightarrow> nat \<Rightarrow> (u32 \<Rightarrow> u32 list) \<Rightarrow> bool \<Rightarrow> mbtf list \<Rightarrow> (int \<times> mbtf list) res" where
  "new_member M name n mk bitfield ws =
     with_room M n name (\<lambda>name_off w.
       rbind (put_words (mk name_off) w) (\<lambda>w.
       rbind (btf_last_type (mb w)) (\<lambda>pos.
       rbind (btf_type_inc_vlen bitfield pos w) (\<lambda>w. Inr (0, w\<lparr>mb := btf_grow (mb w) n\<rparr>))))) ws"

text \<open>The check of the last type, which comes first.\<close>

definition last_is :: "u32 set \<Rightarrow> mbtf list \<Rightarrow> bool res" where
  "last_is kinds ws =
     (case ws of
        [] \<Rightarrow> Inl NullDeref
      | w # _ \<Rightarrow> if nr_types (mb w) = 0 then Inr False else rbind (last_kind (mb w)) (\<lambda>k. Inr (k \<in> kinds)))"

definition btf__add_field :: "memory \<Rightarrow> mbtf list \<Rightarrow> u8 list option \<Rightarrow> int \<Rightarrow> u32 \<Rightarrow> u32 \<Rightarrow> (int \<times> mbtf list) res" where
  "btf__add_field M ws name type_id bit_offset bit_size =
     rbind (last_is {BTF_KIND_STRUCT, BTF_KIND_UNION} ws) (\<lambda>ok. rbind (last_is {BTF_KIND_UNION} ws) (\<lambda>union.
       let is_bitfield = bit_size \<noteq> 0 \<or> bit_offset mod 8 \<noteq> 0 in
       if \<not> ok then Inr (- 22, ws)
       else if \<not> validate_type_id type_id then Inr (- 22, ws)
       else if is_bitfield \<and> (bit_size = 0 \<or> bit_size > 255 \<or> bit_offset > 0xffffff) then Inr (- 22, ws)
       else if union \<and> bit_offset \<noteq> 0 then Inr (- 22, ws)
       else new_member M name 12
              (\<lambda>name_off. [name_off, word_of_int type_id, bit_offset OR push_bit 24 bit_size]) is_bitfield ws))"

definition btf__add_enum_value :: "memory \<Rightarrow> mbtf list \<Rightarrow> u8 list option \<Rightarrow> int \<Rightarrow> (int \<times> mbtf list) res" where
  "btf__add_enum_value M ws name value =
     rbind (last_is {BTF_KIND_ENUM} ws) (\<lambda>ok.
       if \<not> ok then Inr (- 22, ws)
       else if no_name name then Inr (- 22, ws)
       else if value < - 0x80000000 \<or> value > 0xffffffff then Inr (- 7, ws)
       else new_member M name 8 (\<lambda>name_off. [name_off, word_of_int value]) False ws)"

definition btf__add_func_param :: "memory \<Rightarrow> mbtf list \<Rightarrow> u8 list option \<Rightarrow> int \<Rightarrow> (int \<times> mbtf list) res" where
  "btf__add_func_param M ws name type_id =
     (if \<not> validate_type_id type_id then Inr (- 22, ws)
      else
        rbind (last_is {BTF_KIND_FUNC_PROTO} ws) (\<lambda>ok.
          if \<not> ok then Inr (- 22, ws)
          else new_member M name 8 (\<lambda>name_off. [name_off, word_of_int type_id]) False ws))"

definition btf__add_datasec_var_info :: "memory \<Rightarrow> mbtf list \<Rightarrow> int \<Rightarrow> u32 \<Rightarrow> u32 \<Rightarrow> (int \<times> mbtf list) res" where
  "btf__add_datasec_var_info M ws var_type_id offset byte_sz =
     rbind (last_is {BTF_KIND_DATASEC} ws) (\<lambda>ok.
       if \<not> ok then Inr (- 22, ws)
       else if \<not> validate_type_id var_type_id then Inr (- 22, ws)
       else new_member M None 12 (\<lambda>_. [word_of_int var_type_id, offset, byte_sz]) False ws)"

text \<open>A type whose information is overwritten after it was added.\<close>

definition set_new_info :: "u32 \<Rightarrow> int \<times> mbtf list \<Rightarrow> (int \<times> mbtf list) res" where
  "set_new_info info = (\<lambda>(i, ws).
     if i \<le> 0 then Inr (i, ws)
     else on_top (\<lambda>w. rbind (type_pos (mb w) (word_of_int i)) (\<lambda>pos. rbind (set_info pos info w) (\<lambda>w. Inr (i, w)))) ws)"

definition btf__add_fwd :: "memory \<Rightarrow> mbtf list \<Rightarrow> u8 list option \<Rightarrow> nat \<Rightarrow> (int \<times> mbtf list) res" where
  "btf__add_fwd M ws name fwd_kind =
     (if no_name name then Inr (- 22, ws)
      else if fwd_kind = 0 \<or> fwd_kind = 1 then
        rbind (btf_add_ref_kind M ws BTF_KIND_FWD name 0)
          (set_new_info (btf_type_info BTF_KIND_FWD 0 (if fwd_kind = 1 then 1 else 0)))
      else if fwd_kind = 2 then btf__add_enum M ws name 4
      else Inr (- 22, ws))"

definition btf__add_func :: "memory \<Rightarrow> mbtf list \<Rightarrow> u8 list option \<Rightarrow> nat \<Rightarrow> int \<Rightarrow> (int \<times> mbtf list) res" where
  "btf__add_func M ws name linkage proto_type_id =
     (if no_name name then Inr (- 22, ws)
      else if linkage \<notin> {0, 1, 2} then Inr (- 22, ws)
      else rbind (btf_add_ref_kind M ws BTF_KIND_FUNC name proto_type_id)
             (set_new_info (btf_type_info BTF_KIND_FUNC (word_of_nat linkage) 0)))"

end
