(* ===== verification/Libbpf_Btf_Strings.thy ===== *)
theory Libbpf_Btf_Strings
  imports Libbpf_Btf_Write
begin

text \<open>
  The strings of an object that is built: the index of the strings is right, a string that was added is found under its offset,
  and adding one keeps the layers well formed, whatever memory is found.
\<close>

section \<open>Strings in a section\<close>

text \<open>A section of \<open>n\<close> bytes that ends in a zero, at the front of the memory.\<close>

definition ends_zero :: "u8 list \<Rightarrow> nat \<Rightarrow> bool" where
  "ends_zero strs n \<longleftrightarrow> n \<le> length strs \<and> (n \<noteq> 0 \<longrightarrow> strs ! (n - 1) = 0)"

lemma takeWhile_hit:
  assumes "0 \<in> set xs"
  shows "takeWhile (\<lambda>c. c \<noteq> 0) (xs @ ys) = takeWhile (\<lambda>c. c \<noteq> (0 :: u8)) xs"
    and "length (takeWhile (\<lambda>c. c \<noteq> (0 :: u8)) xs) < length xs"
  using assms by (induction xs) auto

lemma zero_behind: "ends_zero strs n \<Longrightarrow> off < n \<Longrightarrow> 0 \<in> set (take (n - off) (drop off strs))"
proof -
  assume a: "ends_zero strs n" "off < n"
  then have "take (n - off) (drop off strs) ! (n - off - 1) = 0" "n - off - 1 < length (take (n - off) (drop off strs))"
    by (auto simp: ends_zero_def)
  then show ?thesis by (metis nth_mem)
qed

lemma str_at_take:
  assumes "ends_zero strs n" "off < n"
  shows "str_at strs off = takeWhile (\<lambda>c. c \<noteq> 0) (take (n - off) (drop off strs))"
    and "length (str_at strs off) < n - off"
proof -
  have h: "0 \<in> set (take (n - off) (drop off strs))" using assms by (rule zero_behind)
  show eq: "str_at strs off = takeWhile (\<lambda>c. c \<noteq> 0) (take (n - off) (drop off strs))"
    using takeWhile_hit(1)[OF h, of "drop (n - off) (drop off strs)"] by (simp only: str_at_def append_take_drop_id)
  show "length (str_at strs off) < n - off"
    using takeWhile_hit(2)[OF h] unfolding eq by (simp add: min_def split: if_splits)
qed

lemma str_at_cong:
  assumes "ends_zero strs n" "ends_zero strs' n" "take n strs' = take n strs" "off < n"
  shows "str_at strs' off = str_at strs off"
proof -
  have "take (n - off) (drop off strs') = take (n - off) (drop off strs)"
    using arg_cong[OF assms(3), of "drop off"] by (simp add: drop_take)
  then show ?thesis using str_at_take(1) assms by simp
qed

lemma ends_zero_cong: "ends_zero strs n \<Longrightarrow> n \<le> length strs' \<Longrightarrow> take n strs' = take n strs \<Longrightarrow> ends_zero strs' n"
  unfolding ends_zero_def by (metis diff_less nth_take_eq zero_less_one neq0_conv)

lemma bstr_str_at:
  assumes "0 \<in> set (drop off strs)"
  shows "bstr (drop off strs) = Inr (str_at strs off)"
proof -
  have "0 \<in> set m \<Longrightarrow> bstr m = Inr (takeWhile (\<lambda>c. c \<noteq> 0) m)" for m by (induction m) auto
  then show ?thesis using assms by (simp add: str_at_def)
qed

lemma bstr_in_section: "ends_zero strs n \<Longrightarrow> off < n \<Longrightarrow> bstr (drop off strs) = Inr (str_at strs off)"
  using bstr_str_at zero_behind by (meson in_set_takeD)

lemma str_at_put:
  assumes "0 \<notin> set s" "off + length s < length strs" "take (length s + 1) (drop off strs) = s @ [0]"
  shows "str_at strs off = s"
proof -
  have "drop off strs = (s @ [0]) @ drop (length s + 1) (drop off strs)" using assms(3) by (metis append_take_drop_id)
  then have "str_at strs off = takeWhile (\<lambda>c. c \<noteq> 0) (s @ [0] @ drop (length s + 1) (drop off strs))"
    unfolding str_at_def by simp
  also have "\<dots> = s" using assms(1) by (subst takeWhile_append2) auto
  finally show ?thesis .
qed

section \<open>The index of the strings\<close>

interpretation strs_keys: hash_key "strs_hash_fn strs" "strs_hash_equal_fn strs" for strs
  by unfold_locales (auto simp: strs_hash_fn_def strs_hash_equal_fn_def)

text \<open>Each entry maps the offset of a string below \<open>n\<close> to itself, and there is one entry for each content.\<close>

definition index_ok :: "u8 list \<Rightarrow> nat \<Rightarrow> (nat, nat) hashmap \<Rightarrow> bool" where
  "index_ok strs n hm \<longleftrightarrow>
     hm_wf (over strs hm) \<and> unique_keys (strs_hash_equal_fn strs) (entries hm) \<and>
     (\<forall>e \<in> set (entries hm). he_key e < n \<and> he_value e = he_key e)"

lemma over_simps [simp]:
  "hash_fn (over strs hm) = strs_hash_fn strs" "equal_fn (over strs hm) = strs_hash_equal_fn strs"
  "buckets (over strs hm) = buckets hm" "cap (over strs hm) = cap hm" "cap_bits (over strs hm) = cap_bits hm"
  "sz (over strs hm) = sz hm" "entries (over strs hm) = entries hm" "over strs (over strs' hm) = over strs hm"
  by (simp_all add: over_def entries_def)

lemma over_same: "hash_fn hm = strs_hash_fn strs \<Longrightarrow> equal_fn hm = strs_hash_equal_fn strs \<Longrightarrow> over strs hm = hm"
  by (simp add: over_def)


lemma grow_entries:
  assumes "hm_wf hm" "hashmap_grow c hm = Inr (rc, hm')"
  shows "set (entries hm') = set (entries hm)"
  using hashmap_grow_cases[OF assms(1), of c] assms(2) by (auto dest: mset_eq_setD)

lemma set_chain_entries:
  assumes "set_chain hm h (\<lambda>es. e # es) = Inr hm'"
  shows "set (entries (hm'\<lparr>sz := n\<rparr>)) \<subseteq> insert e (set (entries hm))"
proof -
  obtain bs where bs: "buckets hm = Some bs" "unat h < length bs" "hm' = hm\<lparr>buckets := Some (bs[unat h := e # bs ! unat h])\<rparr>"
    using assms by (auto simp: set_chain_def split: option.splits if_splits)
  then have "bs ! unat h \<in> set bs" by simp
  then show ?thesis using bs set_update_subset_insert[of bs "unat h" "e # bs ! unat h"]
    by (fastforce simp: entries_def)
qed

text \<open>Adding keeps the entries, but for the new one; the old entry it reports is one of them.\<close>

lemma insert_add_entries:
  assumes "hm_wf hm" "hashmap__insert c m hm k v HASHMAP_ADD = Inr (rc, old, hm')"
  shows "set (entries hm') \<subseteq> (if rc = 0 then insert \<lparr>he_key = k, he_value = v\<rparr> (set (entries hm)) else set (entries hm))"
    and "old = Some p \<Longrightarrow> \<exists>e \<in> set (entries hm). p = (he_key e, he_value e) \<and> equal_fn hm (he_key e) k"
proof -
  let ?h = "hash_bits (hash_fn hm k) (cap_bits hm)"
  obtain found where f: "hashmap_find_entry hm k ?h = Inr found" "old = map_option (\<lambda>(_, e). (he_key e, he_value e)) found"
    using assms(2) by (fastforce simp: hashmap__insert_def Let_def res_simps split: option.splits prod.splits if_splits)
  show "\<exists>e \<in> set (entries hm). p = (he_key e, he_value e) \<and> equal_fn hm (he_key e) k" if o: "old = Some p"
  proof -
    obtain i e where e: "found = Some (i, e)" "p = (he_key e, he_value e)" using o f(2) by auto
    obtain bs where bs: "buckets hm = Some bs" "unat ?h < length bs" "find_pos (equal_fn hm) k (bs ! unat ?h) = Some i"
        "e = bs ! unat ?h ! i"
      using f(1) e(1) by (auto simp: hashmap_find_entry_def split: option.splits if_splits)
    from find_pos_SomeD[OF bs(3)] have "i < length (bs ! unat ?h)" "equal_fn hm (he_key e) k" using bs(4) by auto
    moreover from this have "e \<in> set (concat bs)" using bs nth_mem by fastforce
    ultimately show ?thesis using bs(1) e(2) by (auto simp: entries_def)
  qed
  show "set (entries hm') \<subseteq> (if rc = 0 then insert \<lparr>he_key = k, he_value = v\<rparr> (set (entries hm)) else set (entries hm))"
  proof (cases found)
    case (Some a)
    then show ?thesis using assms(2) f(1) by (cases a) (auto simp: hashmap__insert_def Let_def)
  next
    case None
    let ?room = "if hashmap_needs_to_grow hm
        then rbind (hashmap_grow c hm) (\<lambda>(err, hm). Inr (err, hm, hash_bits (hash_fn hm k) (cap_bits hm))) else Inr (0, hm, ?h)"
    have nf: "(if HASHMAP_ADD \<noteq> HASHMAP_APPEND then hashmap_find_entry hm k ?h else Inr None) = Inr None" using f(1) None by simp
    let ?rest = "\<lambda>(err, hm, h). if err \<noteq> 0 then Inr (err, None, hm) else if \<not> m then Inr (- ENOMEM, None, hm)
        else rbind (set_chain hm h (\<lambda>es. \<lparr>he_key = k, he_value = v\<rparr> # es)) (\<lambda>hm. Inr (0, None, hm\<lparr>sz := sz hm + 1\<rparr>))
        :: (int \<times> ('a \<times> 'b) option \<times> ('a, 'b) hashmap) res"
    have "hashmap__insert c m hm k v HASHMAP_ADD = rbind ?room ?rest"
      unfolding hashmap__insert_def Let_def nf rbind_Inr option.map(1) option.case(1) by simp
    then have "rbind ?room ?rest = Inr (rc, old, hm')" using assms(2) by simp
    then obtain x where x: "?room = Inr x" "?rest x = Inr (rc, old, hm')" unfolding rbind_eq_Inr by blast
    obtain err hm1 h1 where e: "x = (err, hm1, h1)" by (cases x)
    note g = x(1)[unfolded e] and rest = x(2)[unfolded e prod.case]
    have "set (entries hm1) = set (entries hm)"
      using g grow_entries[OF assms(1), of c] by (auto simp: res_simps split: if_splits)
    moreover have "set (entries hm') \<subseteq> (if rc = 0 then insert \<lparr>he_key = k, he_value = v\<rparr> (set (entries hm1)) else set (entries hm1))"
      using rest set_chain_entries[of hm1 h1] by (auto simp: rbind_eq_Inr split: if_splits)
    ultimately show ?thesis by (cases "rc = 0") simp_all
  qed
qed


lemma index_cong:
  assumes ok: "index_ok strs n hm" and z: "ends_zero strs n" "ends_zero strs' n" and same: "take n strs' = take n strs"
  shows "index_ok strs' n hm"
proof -
  have key: "str_at strs' (he_key e) = str_at strs (he_key e)" if "e \<in> set (entries hm)" for e
    using ok z same that by (intro str_at_cong) (auto simp: index_ok_def)
  have "e \<in> set (entries hm)" if "buckets hm = Some bs" "i < length bs" "e \<in> set (bs ! i)" for bs i e
    using that nth_mem by (fastforce simp: entries_def)
  then have "hm_wf (over strs' hm)"
    using ok key by (auto simp: index_ok_def hm_wf_def hash_index_def strs_hash_fn_def split: option.splits)
  moreover have "unique_keys (strs_hash_equal_fn strs') (entries hm)"
    using ok key by (auto simp: index_ok_def unique_keys_def strs_hash_equal_fn_def)
  ultimately show ?thesis using ok by (simp add: index_ok_def)
qed

lemma index_mono: "index_ok strs n hm \<Longrightarrow> n \<le> n' \<Longrightarrow> index_ok strs n' hm"
  by (fastforce simp: index_ok_def)

lemma find_index:
  assumes "index_ok strs n hm"
  obtains r where "hashmap__find (over strs hm) k = Inr r" "\<And>v. r = Some v \<Longrightarrow> v < n \<and> str_at strs v = str_at strs k"
proof (rule that)
  show "hashmap__find (over strs hm) k = Inr (hm_map (over strs hm) k)"
    using assms by (intro strs_keys.find_refines) (auto simp: index_ok_def)
  show "v < n \<and> str_at strs v = str_at strs k" if "hm_map (over strs hm) k = Some v" for v
    using that assms by (auto simp: hm_map_def index_ok_def find_Some_iff strs_hash_equal_fn_def)
qed

lemma add_index:
  assumes ok: "index_ok strs n hm" and k: "k < n'" "n \<le> n'"
  obtains rc old hm' where "hashmap__insert c m (over strs hm) k k HASHMAP_ADD = Inr (rc, old, hm')"
    "rc \<in> {0, - 17, - 12}" "rc = 0 \<Longrightarrow> index_ok strs n' hm'" "rc \<noteq> 0 \<Longrightarrow> index_ok strs n hm'"
    "rc = - 17 \<Longrightarrow> \<exists>j < n. old = Some (j, j) \<and> str_at strs j = str_at strs k"
proof -
  have wf: "hm_wf (over strs hm)" "unique_keys (strs_hash_equal_fn strs) (entries (over strs hm))"
    using ok by (simp_all add: index_ok_def)
  obtain rc old hm' where r: "hashmap__insert c m (over strs hm) k k HASHMAP_ADD = Inr (rc, old, hm')"
      "map_option snd old = hm_map (over strs hm) k" "hm_wf hm'" "unique_keys (strs_hash_equal_fn strs) (entries hm')"
      "hash_fn hm' = strs_hash_fn strs" "equal_fn hm' = strs_hash_equal_fn strs"
      "rc = - ENOMEM \<and> hm_map hm' = hm_map (over strs hm) \<or>
       (rc, hm_map hm') = map_insert HASHMAP_ADD (strs_hash_equal_fn strs) k k (hm_map (over strs hm))"
    using strs_keys.insert_refines[OF wf, where strategy = HASHMAP_ADD and k = k and v = k and c = c and m = m] by auto
  note e = insert_add_entries[OF wf(1) r(1)]
  have same: "over strs hm' = hm'" using r(5,6) by (rule over_same)
  show thesis
  proof (rule that[OF r(1)])
    show "rc \<in> {0, - 17, - 12}" using r(7) by (auto simp: map_insert_def split: if_splits)
    show "index_ok strs n' hm'" if "rc = 0"
      unfolding index_ok_def same using r(3,4) e(1) that ok k by (fastforce simp: index_ok_def)
    show "index_ok strs n hm'" if "rc \<noteq> 0"
      unfolding index_ok_def same using r(3,4) e(1) that ok by (auto simp: index_ok_def)
    show "\<exists>j < n. old = Some (j, j) \<and> str_at strs j = str_at strs k" if rc: "rc = - 17"
    proof -
      have "hm_map (over strs hm) k \<noteq> None" using r(7) rc by (auto simp: map_insert_def split: if_splits)
      then obtain p where "old = Some p" using r(2) by (cases old) auto
      from e(2)[OF this] this ok show ?thesis by (auto simp: index_ok_def strs_hash_equal_fn_def)
    qed
  qed
qed

lemma index_empty: "index_ok strs n (hashmap__init f g)"
  by (simp add: index_ok_def hm_wf_def over_def hashmap__init_def entries_def unique_keys_def)

text \<open>The loop that builds the index.\<close>

lemma index_strings_ok:
  assumes "index_ok strs (length strs) hm" "ends_zero strs (length strs)"
  obtains err hm' where "index_strings M strs off hm = Inr (err, hm')" "err = 0 \<Longrightarrow> index_ok strs (length strs) hm'"
  using assms
proof (induction M strs off hm arbitrary: thesis rule: index_strings.induct)
  case (1 M strs off hm)
  show ?case
  proof (cases "off < length strs")
    case False
    then show ?thesis using "1.prems" by (auto simp: index_strings.simps[of M strs off hm])
  next
    case True
    have s: "bstr (drop off strs) = Inr (str_at strs off)" by (rule bstr_in_section[OF "1.prems"(3) True])
    obtain rc old hm1 where i: "hashmap__insert (mem_array M (sz hm)) (mem_entry M (sz hm)) (over strs hm) off off HASHMAP_ADD = Inr (rc, old, hm1)"
        "rc = 0 \<Longrightarrow> index_ok strs (length strs) hm1" "rc \<noteq> 0 \<Longrightarrow> index_ok strs (length strs) hm1"
      using add_index[OF "1.prems"(2) True order_refl] by blast
    have add: "hashmap__add (mem_array M (sz hm)) (mem_entry M (sz hm)) (over strs hm) off off = Inr (rc, hm1)"
      using i(1) by (simp add: hashmap__add_def)
    have ok1: "index_ok strs (length strs) hm1" using i(2,3) by blast
    show ?thesis
    proof (cases "rc = - EEXIST \<or> rc = 0")
      case False
      then show ?thesis using True s add "1.prems"(1) by (auto simp: index_strings.simps[of M strs off hm])
    next
      case cont: True
      obtain err hm' where "index_strings M strs (off + length (str_at strs off) + 1) hm1 = Inr (err, hm')"
          "err = 0 \<Longrightarrow> index_ok strs (length strs) hm'"
        using "1.IH"[OF True s add refl cont] ok1 "1.prems"(3) by blast
      then show ?thesis using True s add cont "1.prems"(1) by (auto simp: index_strings.simps[of M strs off hm])
    qed
  qed
qed

section \<open>The invariant of a layer\<close>

lemma unat_u32_lt: "unat (w :: u32) < 4294967296"
  using unsigned_less [of w] by simp

text \<open>What no operation takes away: the types and strings that are there. \<open>same_view\<close>: nor is anything added.\<close>

definition extends :: "btf \<Rightarrow> btf \<Rightarrow> bool" where
  "extends b b' \<longleftrightarrow>
     h_str_len (hdr b) \<le> h_str_len (hdr b') \<and> hdr b' = (hdr b)\<lparr>h_str_len := h_str_len (hdr b')\<rparr> \<and>
     type_offs b' = type_offs b \<and> nr_types b' = nr_types b \<and> start_id b' = start_id b \<and> start_str_off b' = start_str_off b \<and>
     ptr_sz b' = ptr_sz b \<and> swapped_endian b' = swapped_endian b \<and>
     (raw_data_swapped b = None \<longrightarrow> raw_data_swapped b' = None) \<and>
     unat (h_type_len (hdr b)) \<le> length (types_data b') \<and>
     take (unat (h_type_len (hdr b))) (types_data b') = take (unat (h_type_len (hdr b))) (types_data b) \<and>
     take (unat (h_str_len (hdr b))) (strs_data b') = take (unat (h_str_len (hdr b))) (strs_data b)"

definition same_view :: "btf \<Rightarrow> btf \<Rightarrow> bool" where
  "same_view b b' \<longleftrightarrow> extends b b' \<and> h_str_len (hdr b') = h_str_len (hdr b)"

lemma extends_refl: "layer_wf b \<Longrightarrow> extends b b"
  by (simp add: extends_def layer_wf_def)

lemma same_view_refl: "layer_wf b \<Longrightarrow> same_view b b"
  by (simp add: same_view_def extends_refl)

lemma take_take_le: "take n xs = take n ys \<Longrightarrow> m \<le> n \<Longrightarrow> take m xs = take m ys"
  by (metis min.absorb1 take_take)

lemma extends_hdr:
  assumes "extends b b'"
  shows "h_type_len (hdr b') = h_type_len (hdr b)" "h_hdr_len (hdr b') = h_hdr_len (hdr b)" "h_type_off (hdr b') = h_type_off (hdr b)"
    "h_str_off (hdr b') = h_str_off (hdr b)" "h_magic (hdr b') = h_magic (hdr b)"
proof -
  have h: "hdr b' = (hdr b)\<lparr>h_str_len := h_str_len (hdr b')\<rparr>" using assms by (simp add: extends_def)
  show "h_type_len (hdr b') = h_type_len (hdr b)" "h_hdr_len (hdr b') = h_hdr_len (hdr b)" "h_type_off (hdr b') = h_type_off (hdr b)"
    "h_str_off (hdr b') = h_str_off (hdr b)" "h_magic (hdr b') = h_magic (hdr b)"
    by (subst h, simp)+
qed

lemma extends_trans:
  assumes "extends a b" "extends b c"
  shows "extends a c"
proof -
  have "hdr c = (hdr a)\<lparr>h_str_len := h_str_len (hdr c)\<rparr>"
    using assms unfolding extends_def by (metis btf_header.surjective btf_header.update_convs(8))
  moreover have "take (unat (h_str_len (hdr a))) (strs_data c) = take (unat (h_str_len (hdr a))) (strs_data a)"
    using assms take_take_le[of "unat (h_str_len (hdr b))" "strs_data c" "strs_data b" "unat (h_str_len (hdr a))"]
    by (simp add: extends_def word_le_nat_alt)
  ultimately show ?thesis using assms extends_hdr[OF assms(1)] unfolding extends_def by (metis order_trans)
qed

lemma same_view_trans: "same_view a b \<Longrightarrow> same_view b c \<Longrightarrow> same_view a c"
  using extends_trans by (auto simp: same_view_def)

lemma extends_wf:
  assumes "layer_wf b" "extends b b'" "ends_zero (strs_data b') (unat (h_str_len (hdr b')))"
  shows "layer_wf b'"
  using assms tiles_cong[of "unat (h_type_len (hdr b))" "types_data b'" "types_data b"] extends_hdr[OF assms(2)]
  by (simp add: layer_wf_def extends_def ends_zero_def unat_eq_zero)

text \<open>A layer is well formed, its numbers are small, its header is complete, and when it can be changed its strings are indexed.\<close>

definition mb_ok :: "mbtf \<Rightarrow> bool" where
  "mb_ok w \<longleftrightarrow>
     (let b = mb w; h = hdr b in
      layer_wf b \<and> unat (h_str_len h) \<le> 2 ^ 31 \<and> unat (start_str_off b) \<le> 2 ^ 31 \<and> unat (start_id b) \<le> 2 ^ 31 \<and>
      24 \<le> unat (h_hdr_len h) \<and> unat (h_hdr_len h) \<le> 24 + length (hdr_rest b) \<and> length (type_offs b) \<le> 0x7fffffff \<and>
      (mb_split w \<longrightarrow> length (strs_data b) \<le> 2 ^ 31 \<and> length (types_data b) < 2 ^ 32 \<and>
         (\<exists>hm. strs_hash w = Some hm \<and> index_ok (strs_data b) (unat (h_str_len h)) hm)))"

lemma mb_ok_zero: "mb_ok w \<Longrightarrow> ends_zero (strs_data (mb w)) (unat (h_str_len (hdr (mb w))))"
  by (auto simp: mb_ok_def Let_def layer_wf_def ends_zero_def unat_eq_zero)

lemma ends_zero_take: "ends_zero strs n \<Longrightarrow> ends_zero (take n strs) n"
  by (auto simp: ends_zero_def)

lemma ensure_modifiable_ok:
  assumes ok: "mb_ok w"
  obtains err w' where "btf_ensure_modifiable M root w = Inr (err, w')" "mb_ok w'" "same_view (mb w) (mb w')"
    "err = 0 \<Longrightarrow> mb_split w'"
proof -
  let ?b = "mb w" and ?h = "hdr (mb w)"
  have wf: "layer_wf ?b" using ok by (simp add: mb_ok_def Let_def)
  show thesis
  proof (cases "mb_split w \<or> \<not> mem_blocks M")
    case True
    show thesis
    proof (cases "mb_split w")
      case True
      have "mb_ok (w\<lparr>mb := btf_invalidate_raw_data ?b\<rparr>)" "same_view ?b (btf_invalidate_raw_data ?b)"
        using ok wf by (simp_all add: mb_ok_def Let_def btf_invalidate_raw_data_def layer_wf_def same_view_def extends_def)
      then show thesis using True
        by (intro that[of 0 "w\<lparr>mb := btf_invalidate_raw_data ?b\<rparr>"]) (simp_all add: btf_ensure_modifiable_def btf_is_modifiable_def Let_def)
    next
      case False
      then show thesis using True ok same_view_refl[OF wf]
        by (intro that[of "- 12" w]) (simp_all add: btf_ensure_modifiable_def btf_is_modifiable_def Let_def)
    qed
  next
    case False
    let ?hd = "take (unat (h_hdr_len ?h)) (put_btf_header ?h @ hdr_rest ?b)"
    let ?ts = "take (unat (h_type_len ?h)) (types_data ?b)" and ?ss = "take (unat (h_str_len ?h)) (strs_data ?b)"
    have hl: "24 \<le> unat (h_hdr_len ?h)" "unat (h_hdr_len ?h) \<le> 24 + length (hdr_rest ?b)" using ok by (simp_all add: mb_ok_def Let_def)
    have ld: "ldn (put_btf_header ?h @ hdr_rest ?b) 0 (unat (h_hdr_len ?h)) = Inr ?hd"
      "ldn (types_data ?b) 0 (unat (h_type_len ?h)) = Inr ?ts" "ldn (strs_data ?b) 0 (unat (h_str_len ?h)) = Inr ?ss"
      using hl wf by (simp_all add: ldn_def layer_wf_def)
    have l: "length ?ts = unat (h_type_len ?h)" "length ?ss = unat (h_str_len ?h)" using wf by (simp_all add: layer_wf_def)
    have z: "ends_zero ?ss (length ?ss)" using ends_zero_take[OF mb_ok_zero[OF ok]] l(2) by simp
    obtain err hm where i: "index_strings M ?ss 0 (hashmap__init (strs_hash_fn ?ss) (strs_hash_equal_fn ?ss)) = Inr (err, hm)"
        "err = 0 \<Longrightarrow> index_ok ?ss (length ?ss) hm"
      using index_strings_ok[OF index_empty z, of M 0 "strs_hash_fn ?ss" "strs_hash_equal_fn ?ss"] by blast
    define b' where "b' = btf_invalidate_raw_data (?b\<lparr>hdr_rest := drop sizeof_btf_header ?hd, types_data := ?ts, strs_data := ?ss\<rparr>)"
    define w' where "w' = w\<lparr>mb := b', mb_split := True, strs_hash := Some hm,
      strs_deduped := strs_deduped w \<or> h_str_len ?h = 0 \<or> root \<and> h_str_len ?h = 1\<rparr>"
    have step: "btf_ensure_modifiable M root w = (if \<not> mem_map M then Inr (- 12, w) else if err \<noteq> 0 then Inr (- 12, w) else Inr (0, w'))"
      unfolding btf_ensure_modifiable_def Let_def ld rbind_Inr i(1) using False hl
      by (simp add: w'_def b'_def btf_is_modifiable_def)
    have v: "same_view ?b b'" using wf by (simp add: same_view_def extends_def b'_def btf_invalidate_raw_data_def layer_wf_def)
    have "layer_wf b'" using v z l(2) by (intro extends_wf[OF wf]) (auto simp: same_view_def b'_def btf_invalidate_raw_data_def)
    moreover have "unat (h_type_len ?h) < 2 ^ 32" using unat_u32_lt[of "h_type_len ?h"] by simp
    moreover have "unat (h_hdr_len ?h) \<le> 24 + min (length (hdr_rest ?b)) (unat (h_hdr_len ?h) - 24)"
      using hl by (simp add: min_def)
    ultimately have "mb_ok w'" if "err = 0"
      using ok i(2)[OF that] l by (simp add: mb_ok_def Let_def w'_def b'_def btf_invalidate_raw_data_def)
    moreover have "mb w' = b'" "mb_split w'" by (simp_all add: w'_def)
    ultimately show thesis using step v ok same_view_refl[OF wf] that[of 0 w'] that[of "- 12" w]
      by (cases "mem_map M \<and> err = 0") auto
  qed
qed


lemma add_mem_Some:
  assumes "btf_add_mem al z data k cur mx add = Some data'"
  obtains e where "data' = data @ replicate e z" "cur + add \<le> length data'"
    "e \<noteq> 0 \<Longrightarrow> int (length data') \<le> mx"
proof (cases "cur + add \<le> length data")
  case True
  then show thesis using assms by (intro that[of 0]) (simp_all add: btf_add_mem_def)
next
  case False
  then show thesis using assms
    by (intro that[of "length data' - length data"]) (auto simp: btf_add_mem_def Let_def split: if_splits)
qed

lemma append_probe_ok:
  assumes ok: "mb_ok w" and s: "0 \<notin> set s"
  obtains err w' where "append_probe M root s w = Inr (err, w')" "mb_ok w'" "same_view (mb w) (mb w')"
    "err = 0 \<Longrightarrow> mb_split w' \<and> unat (h_str_len (hdr (mb w'))) + length s + 1 \<le> length (strs_data (mb w')) \<and>
       str_at (strs_data (mb w')) (unat (h_str_len (hdr (mb w')))) = s \<and>
       strs_data (mb w') ! (unat (h_str_len (hdr (mb w'))) + length s) = 0"
proof -
  obtain err w1 where w1: "btf_ensure_modifiable M root w = Inr (err, w1)" "mb_ok w1" "same_view (mb w) (mb w1)" "err = 0 \<Longrightarrow> mb_split w1"
    using ensure_modifiable_ok[OF ok, of M root] by blast
  let ?n = "unat (h_str_len (hdr (mb w1)))"
  show thesis
  proof (cases "err \<noteq> 0 \<or> btf_add_mem (mem_size M) 0 (strs_data (mb w1)) 1 ?n 0x7fffffff (length s + 1) = None")
    case True
    have "append_probe M root s w = Inr (- 12, w1)" using w1(1) True by (auto simp: append_probe_def btf_add_str_mem_def)
    then show thesis using w1(2,3) by (intro that[of "- 12" w1]) auto
  next
    case False
    then obtain data where d: "btf_add_mem (mem_size M) 0 (strs_data (mb w1)) 1 ?n 0x7fffffff (length s + 1) = Some data" by auto
    obtain e where e: "data = strs_data (mb w1) @ replicate e 0" "?n + (length s + 1) \<le> length data"
      "e \<noteq> 0 \<Longrightarrow> int (length data) \<le> 0x7fffffff" using add_mem_Some[OF d] by auto
    define m where "m = take ?n data @ (s @ [0]) @ drop (?n + length s + 1) data"
    define w' where "w' = w1\<lparr>mb := (mb w1)\<lparr>strs_data := m\<rparr>\<rparr>"
    have st: "stn data ?n (s @ [0]) = Inr m" using e(2) by (simp add: stn_def m_def)
    have step: "append_probe M root s w = Inr (0, w')"
      using w1(1) False d st by (simp add: append_probe_def btf_add_str_mem_def w'_def)
    have lm: "length m = length data" using e(2) by (simp add: m_def)
    have tk: "take ?n m = take ?n (strs_data (mb w1))" using w1(2) e(2) by (simp add: m_def e(1) mb_ok_def Let_def layer_wf_def)
    have v: "same_view (mb w1) (mb w')"
      using tk w1(2) by (simp add: same_view_def extends_def w'_def mb_ok_def Let_def layer_wf_def)
    have z: "ends_zero m ?n" using mb_ok_zero[OF w1(2)] tk lm e(2) by (auto intro: ends_zero_cong)
    obtain hm where hm: "strs_hash w1 = Some hm" "index_ok (strs_data (mb w1)) ?n hm"
      using w1(2,4) False by (auto simp: mb_ok_def Let_def)
    have ix: "index_ok m ?n hm" by (rule index_cong[OF hm(2) mb_ok_zero[OF w1(2)] z tk])
    have l31: "length data \<le> 2 ^ 31"
    proof (cases "e = 0")
      case True
      then show ?thesis using e(1) w1(2,4) False by (simp add: mb_ok_def Let_def)
    next
      case False
      then show ?thesis using e(3) by simp
    qed
    have "layer_wf (mb w')" using z by (intro extends_wf[OF _ v[unfolded same_view_def, THEN conjunct1]])
        (use w1(2) in \<open>auto simp: mb_ok_def Let_def w'_def\<close>)
    then have ok': "mb_ok w'" using w1(2) hm(1) ix l31 lm by (simp add: mb_ok_def Let_def w'_def)
    have "take (length s + 1) (drop ?n m) = s @ [0]" using e(2) by (simp add: m_def)
    moreover have "?n + length s < length m" using e(2) lm by simp
    ultimately have "str_at m ?n = s" by (intro str_at_put[OF s]) simp_all
    moreover have "m ! (?n + length s) = 0" using e(2) by (simp add: m_def nth_append min_def)
    ultimately show thesis using step ok' same_view_trans[OF w1(3) v] w1(4) False e(2) lm
      by (intro that[of 0 w']) (simp_all add: w'_def)
  qed
qed

section \<open>Adding strings\<close>

text \<open>A result that is an offset is that of the string in this layer.\<close>

definition str_found :: "u8 list \<Rightarrow> btf \<Rightarrow> int \<Rightarrow> bool" where
  "str_found s b r \<longleftrightarrow> (\<exists>k. k < unat (h_str_len (hdr b)) \<and> r = str_result b k \<and> str_at (strs_data b) k = s)"

lemma str_found_I: "k < unat (h_str_len (hdr b)) \<Longrightarrow> str_at (strs_data b) k = s \<Longrightarrow> str_found s b (str_result b k)"
  unfolding str_found_def by blast

lemma add_str_here_ok:
  assumes ok: "mb_ok w" and s: "0 \<notin> set s"
  obtains r w' where "add_str_here M root s w = Inr (r, w')" "mb_ok w'" "extends (mb w) (mb w')"
    "0 \<le> r \<Longrightarrow> str_found s (mb w') r"
proof -
  obtain err w1 where w1: "append_probe M root s w = Inr (err, w1)" "mb_ok w1" "same_view (mb w) (mb w1)"
    and probe: "err = 0 \<Longrightarrow> mb_split w1 \<and> unat (h_str_len (hdr (mb w1))) + length s + 1 \<le> length (strs_data (mb w1)) \<and>
       str_at (strs_data (mb w1)) (unat (h_str_len (hdr (mb w1)))) = s \<and>
       strs_data (mb w1) ! (unat (h_str_len (hdr (mb w1))) + length s) = 0"
    using append_probe_ok[OF ok s, of M root] by blast
  have e1: "extends (mb w) (mb w1)" using w1(3) by (simp add: same_view_def)
  have err_neg: "err = 0 \<or> err = - 12"
    using w1(1) by (auto simp: append_probe_def btf_add_str_mem_def res_simps split: if_splits option.splits)
  show thesis
  proof (cases "err = 0")
    case False
    then show thesis using w1(1,2) e1 err_neg by (intro that[of err w1]) (auto simp: add_str_here_def)
  next
    case True
    let ?b = "mb w1" and ?n = "unat (h_str_len (hdr (mb w1)))" and ?d = "strs_data (mb w1)"
    note p = probe[OF True]
    obtain hm where hm: "strs_hash w1 = Some hm" "index_ok ?d ?n hm" using w1(2) p by (auto simp: mb_ok_def Let_def)
    have len: "?n + length s + 1 \<le> 2 ^ 31" using w1(2) p by (simp add: mb_ok_def Let_def)
    have lt: "?n < ?n + length s + 1" "?n \<le> ?n + length s + 1" by simp_all
    obtain rc old hm' where i: "hashmap__insert (mem_array M (sz hm)) (mem_entry M (sz hm)) (over ?d hm) ?n ?n HASHMAP_ADD = Inr (rc, old, hm')"
        "rc \<in> {0, - 17, - 12}" "rc = 0 \<Longrightarrow> index_ok ?d (?n + length s + 1) hm'" "rc \<noteq> 0 \<Longrightarrow> index_ok ?d ?n hm'"
        "rc = - 17 \<Longrightarrow> \<exists>j < ?n. old = Some (j, j) \<and> str_at ?d j = str_at ?d ?n"
      using add_index[OF hm(2) lt, where c = "mem_array M (sz hm)" and m = "mem_entry M (sz hm)"] by blast
    let ?w = "w1\<lparr>strs_hash := Some hm'\<rparr>"
    have th: "the_hash w1 = Inr (over ?d hm)" using hm(1) by (simp add: the_hash_def)
    show thesis
    proof (cases "rc = 0")
      case False
      have okw: "mb_ok ?w" using w1(2) i(4)[OF False] by (simp add: mb_ok_def Let_def)
      show thesis
      proof (cases "rc = - 17")
        case dup: True
        obtain j where j: "j < ?n" "old = Some (j, j)" "str_at ?d j = str_at ?d ?n" using i(5)[OF dup] by blast
        have "add_str_here M root s w = Inr (str_result ?b j, ?w)"
          using w1(1) True th i(1) dup j(2) by (simp add: add_str_here_def Let_def)
        then show thesis using okw e1 j p by (intro that[of "str_result ?b j" ?w]) (auto intro: str_found_I)
      next
        case nomem: False
        then have "rc = - 12" using i(2) False by simp
        then have "add_str_here M root s w = Inr (rc, ?w)" using w1(1) True th i(1) by (simp add: add_str_here_def Let_def)
        then show thesis using okw e1 \<open>rc = - 12\<close> by (intro that[of rc ?w]) auto
      qed
    next
      case new: True
      define b' where "b' = ?b\<lparr>hdr := (hdr ?b)\<lparr>h_str_len := h_str_len (hdr ?b) + word_of_nat (length s + 1)\<rparr>\<rparr>"
      let ?w' = "w1\<lparr>strs_hash := Some hm', mb := b'\<rparr>"
      have step: "add_str_here M root s w = Inr (str_result b' ?n, ?w')"
        using w1(1) True th i(1) new by (simp add: add_str_here_def Let_def b'_def)
      have n': "unat (h_str_len (hdr b')) = ?n + length s + 1"
        using len by (simp add: b'_def unat_word_ariths unsigned_of_nat take_bit_nat_eq_self)
      have ext: "extends ?b b'"
        using w1(2) n' by (simp add: extends_def b'_def mb_ok_def Let_def layer_wf_def word_le_nat_alt)
      have z: "ends_zero (strs_data b') (unat (h_str_len (hdr b')))" using n' p by (simp add: ends_zero_def b'_def)
      have "layer_wf ?b" using w1(2) by (simp add: mb_ok_def Let_def)
      then have "layer_wf b'" by (rule extends_wf[OF _ ext z])
      moreover have "hdr_rest b' = hdr_rest ?b" "h_hdr_len (hdr b') = h_hdr_len (hdr ?b)" "type_offs b' = type_offs ?b"
          "start_str_off b' = start_str_off ?b" "start_id b' = start_id ?b" "strs_data b' = ?d" "types_data b' = types_data ?b"
        by (simp_all add: b'_def)
      ultimately have ok': "mb_ok ?w'" using w1(2) i(3)[OF new] n' len by (simp add: mb_ok_def Let_def)
      have "str_found s b' (str_result b' ?n)" using p n' by (intro str_found_I) (simp_all add: b'_def)
      then show thesis using step ok' extends_trans[OF e1 ext] by (intro that[of "str_result b' ?n" ?w']) simp_all
    qed
  qed
qed

text \<open>Searching in an object that is not based on another one.\<close>

lemma find_here_ok:
  assumes ok: "mb_ok w" and s: "0 \<notin> set s"
  obtains r w' where "btf__find_str M [w] s = Inr (r, [w'])" "mb_ok w'" "same_view (mb w) (mb w')"
    "0 \<le> r \<Longrightarrow> str_found s (mb w') r"
proof -
  obtain err w1 where w1: "append_probe M True s w = Inr (err, w1)" "mb_ok w1" "same_view (mb w) (mb w1)"
    and probe: "err = 0 \<Longrightarrow> mb_split w1 \<and> unat (h_str_len (hdr (mb w1))) + length s + 1 \<le> length (strs_data (mb w1)) \<and>
       str_at (strs_data (mb w1)) (unat (h_str_len (hdr (mb w1)))) = s \<and>
       strs_data (mb w1) ! (unat (h_str_len (hdr (mb w1))) + length s) = 0"
    using append_probe_ok[OF ok s, of M True] by blast
  have err_neg: "err = 0 \<or> err = - 12"
    using w1(1) by (auto simp: append_probe_def btf_add_str_mem_def res_simps split: if_splits option.splits)
  show thesis
  proof (cases "err = 0")
    case False
    then show thesis using w1 err_neg by (intro that[of err w1]) auto
  next
    case True
    let ?b = "mb w1" and ?n = "unat (h_str_len (hdr (mb w1)))" and ?d = "strs_data (mb w1)"
    note p = probe[OF True]
    obtain hm where hm: "strs_hash w1 = Some hm" "index_ok ?d ?n hm" using w1(2) p by (auto simp: mb_ok_def Let_def)
    obtain r where r: "hashmap__find (over ?d hm) ?n = Inr r" "\<And>v. r = Some v \<Longrightarrow> v < ?n \<and> str_at ?d v = str_at ?d ?n"
      using find_index[OF hm(2), of ?n] by blast
    have th: "the_hash w1 = Inr (over ?d hm)" using hm(1) by (simp add: the_hash_def)
    show thesis
    proof (cases r)
      case None
      then show thesis using w1 True th r(1) by (intro that[of "- 2" w1]) simp_all
    next
      case (Some v)
      then show thesis using w1 True th r p by (intro that[of "str_result ?b v" w1]) (auto intro: str_found_I)
    qed
  qed
qed

section \<open>Objects with at most one object below\<close>

definition ws_ok :: "mbtf list \<Rightarrow> bool" where
  "ws_ok ws \<longleftrightarrow> btf_wf (List.map mb ws) \<and> (\<forall>w \<in> set ws. mb_ok w) \<and> length ws \<le> 2"

lemma ws_ok_cases:
  assumes "ws_ok ws"
  obtains w where "ws = [w]" "mb_ok w" "start_id (mb w) = 1" "start_str_off (mb w) = 0"
  | w v where "ws = [w, v]" "mb_ok w" "mb_ok v" "start_id (mb v) = 1" "start_str_off (mb v) = 0"
      "start_id (mb w) = start_id (mb v) + nr_types (mb v)" "start_str_off (mb w) = h_str_len (hdr (mb v))"
proof (cases ws)
  case (Cons w vs)
  then show thesis using assms that by (cases vs) (auto simp: ws_ok_def)
qed (use assms in \<open>simp add: ws_ok_def\<close>)

lemma ws_ok_1: "mb_ok w \<Longrightarrow> start_id (mb w) = 1 \<Longrightarrow> start_str_off (mb w) = 0 \<Longrightarrow> ws_ok [w]"
  by (simp add: ws_ok_def mb_ok_def Let_def)

lemma ws_ok_2: "mb_ok w \<Longrightarrow> mb_ok v \<Longrightarrow> start_id (mb v) = 1 \<Longrightarrow> start_str_off (mb v) = 0 \<Longrightarrow>
    start_id (mb w) = start_id (mb v) + nr_types (mb v) \<Longrightarrow> start_str_off (mb w) = h_str_len (hdr (mb v)) \<Longrightarrow> ws_ok [w, v]"
  by (simp add: ws_ok_def mb_ok_def Let_def)

text \<open>The string at a result, seen from the object.\<close>

lemma str_found_top:
  assumes "mb_ok w" "str_found s (mb w) r" "0 \<notin> set s"
  shows "\<exists>m. btf__str_by_offset (mb w # bs) (word_of_int r) = Inr (Some m) \<and> bstr m = Inr s"
proof -
  let ?b = "mb w"
  obtain k where k: "k < unat (h_str_len (hdr ?b))" "r = str_result ?b k" "str_at (strs_data ?b) k = s"
    using assms(2) by (auto simp: str_found_def)
  have b: "unat (h_str_len (hdr ?b)) \<le> 2 ^ 31" "unat (start_str_off ?b) \<le> 2 ^ 31" using assms(1) by (simp_all add: mb_ok_def Let_def)
  have off: "(word_of_int r :: u32) = start_str_off ?b + word_of_nat k" using k(2) by (simp add: str_result_def)
  have kw: "unat (word_of_nat k :: u32) = k" using k(1) b(1) by (simp add: unsigned_of_nat take_bit_nat_eq_self)
  have sum: "unat (start_str_off ?b + word_of_nat k) = unat (start_str_off ?b) + k"
    using kw k(1) b by (simp add: unat_word_ariths)
  have "\<not> start_str_off ?b + word_of_nat k < start_str_off ?b" using sum by (simp add: word_less_nat_alt)
  moreover have "(word_of_nat k :: u32) < h_str_len (hdr ?b)" using kw k(1) by (simp add: word_less_nat_alt)
  moreover have "bstr (drop k (strs_data ?b)) = Inr s"
    using bstr_in_section[OF mb_ok_zero[OF assms(1)] k(1)] k(3) by simp
  ultimately show ?thesis using kw by (simp add: off)
qed

lemma str_found_below:
  assumes "mb_ok v" "str_found s (mb v) r" "0 \<notin> set s" "start_str_off (mb v) = 0" "start_str_off b = h_str_len (hdr (mb v))"
  shows "\<exists>m. btf__str_by_offset [b, mb v] (word_of_int r) = Inr (Some m) \<and> bstr m = Inr s"
proof -
  obtain k where k: "k < unat (h_str_len (hdr (mb v)))" "r = str_result (mb v) k" using assms(2) by (auto simp: str_found_def)
  have "unat (h_str_len (hdr (mb v))) \<le> 2 ^ 31" using assms(1) by (simp add: mb_ok_def Let_def)
  then have kw: "unat (word_of_nat k :: u32) = k" using k(1) by (simp add: unsigned_of_nat take_bit_nat_eq_self)
  have "(word_of_int r :: u32) = word_of_nat k" using k(2) assms(4) by (simp add: str_result_def)
  moreover have "(word_of_nat k :: u32) < start_str_off b" using kw k(1) assms(5) by (simp add: word_less_nat_alt)
  ultimately show ?thesis using str_found_top[OF assms(1-3), of "[]"] by simp
qed

text \<open>The layers before and after.\<close>

definition grown :: "mbtf list \<Rightarrow> mbtf list \<Rightarrow> bool" where
  "grown ws ws' \<longleftrightarrow>
     ws \<noteq> [] \<and> list_all2 (\<lambda>w w'. same_view (mb w) (mb w')) (tl ws) (tl ws') \<and> ws' \<noteq> [] \<and> extends (mb (hd ws)) (mb (hd ws'))"

lemma add_str_ok:
  assumes ok: "ws_ok ws" and s: "0 \<notin> set s"
  obtains r ws' where "btf__add_str M ws s = Inr (r, ws')" "ws_ok ws'" "grown ws ws'"
    "0 \<le> r \<Longrightarrow> \<exists>m. btf__str_by_offset (List.map mb ws') (word_of_int r) = Inr (Some m) \<and> bstr m = Inr s"
  using ok
proof (cases rule: ws_ok_cases)
  case (1 w)
  obtain r w' where a: "add_str_here M True s w = Inr (r, w')" "mb_ok w'" "extends (mb w) (mb w')" "0 \<le> r \<Longrightarrow> str_found s (mb w') r"
    using add_str_here_ok[OF 1(2) s, of M True] by blast
  then have "ws_ok [w']" using 1 by (intro ws_ok_1) (auto simp: extends_def)
  then show thesis using 1 a str_found_top[OF a(2) _ s, of r "[]"]
    by (intro that[of r "[w']"]) (auto simp: btf__add_str_def grown_def)
next
  case (2 w v)
  obtain r v' where f: "btf__find_str M [v] s = Inr (r, [v'])" "mb_ok v'" "same_view (mb v) (mb v')" "0 \<le> r \<Longrightarrow> str_found s (mb v') r"
    using find_here_ok[OF 2(3) s, of M] by blast
  have v': "start_id (mb v') = 1" "start_str_off (mb v') = 0" "nr_types (mb v') = nr_types (mb v)"
      "h_str_len (hdr (mb v')) = h_str_len (hdr (mb v))"
    using f(3) 2 by (auto simp: same_view_def extends_def)
  show thesis
  proof (cases "r = - 2")
    case False
    have "ws_ok [w, v']" using 2 f(2) v' by (intro ws_ok_2) auto
    moreover have "layer_wf (mb w)" using 2(2) by (simp add: mb_ok_def Let_def)
    ultimately show thesis using 2 f v' False str_found_below[OF f(2) _ s, of r "mb w"]
      by (intro that[of r "[w, v']"]) (auto simp: btf__add_str_def grown_def extends_refl)
  next
    case True
    obtain r w' where a: "add_str_here M False s w = Inr (r, w')" "mb_ok w'" "extends (mb w) (mb w')" "0 \<le> r \<Longrightarrow> str_found s (mb w') r"
      using add_str_here_ok[OF 2(2) s, of M False] by blast
    have "ws_ok [w', v']" using 2 a(2,3) f(2) v' by (intro ws_ok_2) (auto simp: extends_def)
    then show thesis using 2 a f True str_found_top[OF a(2) _ s, of r "[mb v']"]
      by (intro that[of r "[w', v']"]) (auto simp: btf__add_str_def grown_def)
  qed
qed

end
