(* ===== verification/Libbpf_Btf_Build.thy ===== *)
theory Libbpf_Btf_Build
  imports Libbpf_Btf_Strings
begin

text \<open>
  Adding types and members: each of the functions of \<open>Libbpf_Btf_Write\<close> returns and keeps the layers well formed, and what
  it does to the memory of the types is said exactly (\<open>type_added\<close>, \<open>member_added\<close>).
\<close>

section \<open>The word with the kind\<close>

lemma bit_below:
  assumes "unat (w :: u32) < 2 ^ k" "bit w n"
  shows "n < k"
proof -
  have "bit (take_bit k (unat w)) n" using assms by (simp add: take_bit_nat_eq_self bit_unsigned_iff)
  then show ?thesis by (simp add: bit_simps)
qed

lemma info_fields:
  assumes "k < 16" "f < 2" "v < 65536"
  shows "BTF_INFO_KIND (btf_type_info k v f) = k" "BTF_INFO_VLEN (btf_type_info k v f) = v" "BTF_INFO_KFLAG (btf_type_info k v f) = f"
proof -
  have k: "n < 4" if "bit k n" for n using bit_below[of k 4 n] assms(1) that by (simp add: word_less_nat_alt)
  have f: "n < 1" if "bit f n" for n using bit_below[of f 1 n] assms(2) that by (simp add: word_less_nat_alt)
  have v: "n < 16" if "bit v n" for n using bit_below[of v 16 n] assms(3) that by (simp add: word_less_nat_alt)
  have m4: "bit (0xf :: int) n \<longleftrightarrow> n < 4" for n
    using bit_mask_iff[of 4 n, where ?'a = int] by (auto simp: mask_eq_exp_minus_1)
  have m16: "bit (0xffff :: int) n \<longleftrightarrow> n < 16" for n
    using bit_mask_iff[of 16 n, where ?'a = int] by (auto simp: mask_eq_exp_minus_1)
  show "BTF_INFO_KIND (btf_type_info k v f) = k"
    by (rule bit_word_eqI) (auto simp: BTF_INFO_KIND_def btf_type_info_def bit_simps m4 dest: k f v)
  show "BTF_INFO_VLEN (btf_type_info k v f) = v"
    by (rule bit_word_eqI) (auto simp: BTF_INFO_VLEN_def btf_type_info_def bit_simps m16 dest: k f v)
  show "BTF_INFO_KFLAG (btf_type_info k v f) = f"
    by (rule bit_word_eqI) (auto simp: BTF_INFO_KFLAG_def btf_type_info_def bit_simps dest: k f v)
qed


section \<open>Writing words\<close>

lemma word_bytes_simps [simp]: "word_bytes_of [] = []" "word_bytes_of (x # xs) = bytes32 x @ word_bytes_of xs"
  by (simp_all add: word_bytes_of_def)

lemma length_word_bytes_of [simp]: "length (word_bytes_of xs) = 4 * length xs"
  by (induction xs) simp_all

lemma st_words_ok:
  "pos + 4 * length xs \<le> length m \<Longrightarrow> st_words m pos xs = Inr (take pos m @ word_bytes_of xs @ drop (pos + 4 * length xs) m)"
proof (induction xs arbitrary: m pos)
  case (Cons x xs)
  let ?m = "take pos m @ bytes32 x @ drop (pos + 4) m"
  have "st32 m pos x = Inr ?m" using Cons.prems by (simp add: st32_def stn_def)
  moreover have "st_words ?m (pos + 4) xs = Inr (take (pos + 4) ?m @ word_bytes_of xs @ drop (pos + 4 + 4 * length xs) ?m)"
    using Cons.prems by (intro Cons.IH) simp
  moreover have "take (pos + 4) ?m = take pos m @ bytes32 x" "drop (pos + 4 + 4 * length xs) ?m = drop (pos + 4 + 4 * length xs) m"
    using Cons.prems by (simp_all add: add.commute add.left_commute)
  moreover have e: "pos + 4 * length (x # xs) = pos + 4 + 4 * length xs" by simp
  ultimately show ?case unfolding e by simp
qed simp

lemma ld32_words: "i < length xs \<Longrightarrow> ld32 (word_bytes_of xs @ r) (4 * i) = Inr (xs ! i)"
proof (induction xs arbitrary: i)
  case (Cons x xs)
  show ?case
  proof (cases i)
    case 0
    then show ?thesis by (simp add: ld32_bytes32)
  next
    case (Suc j)
    then have "ld32 (bytes32 x @ word_bytes_of xs @ r) (4 + 4 * j) = ld32 (word_bytes_of xs @ r) (4 * j)"
      by (intro ld32_skip) simp
    then show ?thesis using Suc Cons by simp
  qed
qed simp

lemma size_of_words: "3 \<le> length xs \<Longrightarrow> btf_type_size (word_bytes_of xs @ r) = Inr (info_size (xs ! 1))"
  using ld32_words[of 1 xs r] by (simp add: btf_type_size_info t_info_def)

section \<open>Adding types\<close>

text \<open>The object with one more type, given by its words.\<close>

definition type_added :: "u32 list \<Rightarrow> btf \<Rightarrow> btf \<Rightarrow> bool" where
  "type_added xs b b' \<longleftrightarrow>
     (let tl = unat (h_type_len (hdr b)); n = 4 * length xs in
      hdr b' = hdr (btf_grow b n) \<and> unat (h_type_len (hdr b')) = tl + n \<and>
      unat (nr_types b') = unat (nr_types b) + 1 \<and> unat (nr_types b) < length (type_offs b') \<and>
      take (unat (nr_types b)) (type_offs b') = take (unat (nr_types b)) (type_offs b) \<and>
      type_offs b' ! unat (nr_types b) = h_type_len (hdr b) \<and>
      start_id b' = start_id b \<and> start_str_off b' = start_str_off b \<and> ptr_sz b' = ptr_sz b \<and>
      swapped_endian b' = swapped_endian b \<and> (raw_data_swapped b = None \<longrightarrow> raw_data_swapped b' = None) \<and>
      strs_data b' = strs_data b \<and> tl + n \<le> length (types_data b') \<and>
      take (tl + n) (types_data b') = take tl (types_data b) @ word_bytes_of xs)"

lemma type_added_wf:
  assumes wf: "layer_wf b" and add: "type_added xs b b'" and xs: "3 \<le> length xs" "info_size (xs ! 1) = 4 * int (length xs)"
    and ids: "unat (start_id b) \<le> 2 ^ 31" "length (type_offs b') \<le> 0x7fffffff"
  shows "layer_wf b'"
proof -
  let ?tl = "unat (h_type_len (hdr b))" and ?n = "4 * length xs" and ?k = "unat (nr_types b)"
  note a = add[unfolded type_added_def Let_def]
  let ?m = "take ?tl (types_data b) @ word_bytes_of xs"
  have l: "length (take ?tl (types_data b)) = ?tl" using wf by (simp add: layer_wf_def)
  have "tiles ?m (take ?k (type_offs b)) 0 ?tl"
    using wf tiles_cong[of ?tl ?m "types_data b"] l by (simp add: layer_wf_def)
  then have "tiles ?m (take ?k (type_offs b) @ [h_type_len (hdr b)]) 0 (?tl + nat (info_size (xs ! 1)))"
    using xs l size_of_words[of xs "[]"] by (intro tiles_snoc) simp_all
  then have "tiles ?m (take (Suc ?k) (type_offs b')) 0 (?tl + ?n)"
    using a xs(2) by (simp add: take_Suc_conv_app_nth nat_mult_distrib)
  then have "tiles (types_data b') (take (Suc ?k) (type_offs b')) 0 (?tl + ?n)"
    using tiles_cong[of "?tl + ?n" "types_data b'" ?m] a l by simp
  moreover have "h_str_len (hdr b') = h_str_len (hdr b)" using a by (simp add: btf_grow_def)
  moreover have "unat (start_id b) + unat (nr_types b') < 2 ^ 32" using a ids by simp
  moreover have "unat (h_type_len (hdr b')) = ?tl + ?n" "unat (nr_types b') = Suc ?k" "?k < length (type_offs b')"
      "start_id b' = start_id b" "ptr_sz b' = ptr_sz b" "strs_data b' = strs_data b" "?tl + ?n \<le> length (types_data b')"
    using a unfolding Suc_eq_plus1 by blast+
  ultimately show ?thesis using wf by (simp add: layer_wf_def)
qed


definition new_id :: "btf \<Rightarrow> int" where "new_id b = sint (start_id b + nr_types b - 1)"

lemma commit_ok:
  assumes ok: "mb_ok w" and sp: "mb_split w" and xs: "3 \<le> length xs" "info_size (xs ! 1) = 4 * int (length xs)"
    and room: "unat (h_type_len (hdr (mb w))) + 4 * length xs \<le> length (types_data (mb w))"
  obtains r w' where "rbind (put_words xs w) (\<lambda>w. Inr (btf_commit_type M (4 * length xs) w)) = Inr (r, w')" "mb_ok w'" "mb_split w'"
    "r = - 12 \<and> same_view (mb w) (mb w') \<and> strs_data (mb w') = strs_data (mb w) \<or> r = new_id (mb w') \<and> type_added xs (mb w) (mb w')"
proof -
  let ?b = "mb w" and ?n = "4 * length xs" and ?k = "unat (nr_types (mb w))"
  let ?tl = "unat (h_type_len (hdr (mb w)))"
  have wf: "layer_wf ?b" using ok by (simp add: mb_ok_def Let_def)
  define m where "m = take ?tl (types_data ?b) @ word_bytes_of xs @ drop (?tl + ?n) (types_data ?b)"
  define w1 where "w1 = w\<lparr>mb := ?b\<lparr>types_data := m\<rparr>\<rparr>"
  have put: "put_words xs w = Inr w1" using room by (simp add: put_words_def st_words_ok w1_def m_def)
  have lm: "length m = length (types_data ?b)" "take ?tl m = take ?tl (types_data ?b)" using room by (simp_all add: m_def)
  have v1: "same_view ?b (mb w1)" using wf lm by (simp add: same_view_def extends_def w1_def layer_wf_def)
  have wf1: "layer_wf (mb w1)" using v1 mb_ok_zero[OF ok] by (intro extends_wf[OF wf]) (auto simp: same_view_def w1_def)
  have ok1: "mb_ok w1" using ok wf1 lm(1) by (simp add: mb_ok_def Let_def w1_def)
  show thesis
  proof (cases "btf_add_type_idx_entry (mem_size M) (type_offs ?b) (nr_types ?b) (h_type_len (hdr ?b))")
    case None
    have "rbind (put_words xs w) (\<lambda>w. Inr (btf_commit_type M ?n w)) = Inr (- 12, w1)"
      using None by (simp add: put btf_commit_type_def) (simp add: w1_def Let_def)
    then show thesis using ok1 v1 sp by (intro that[of "- 12" w1]) (simp_all add: w1_def)
  next
    case (Some offs)
    define b' where "b' = (btf_grow (mb w1) ?n)\<lparr>type_offs := offs, nr_types := nr_types ?b + 1\<rparr>"
    have kl: "?k \<le> length (type_offs ?b)" "length (type_offs ?b) \<le> 0x7fffffff" using ok by (simp_all add: mb_ok_def Let_def layer_wf_def)
    note o = idx_entry_Some[OF Some kl(1)]
    have ol: "length offs \<le> 0x7fffffff"
    proof -
      obtain z where z: "btf_add_mem (mem_size M) 0 (type_offs ?b) 4 ?k 0x7fffffff 1 = Some z" "length offs = length z"
        using Some by (auto simp: btf_add_type_idx_entry_def split: option.splits)
      obtain e where "z = type_offs ?b @ replicate e 0" "e \<noteq> 0 \<Longrightarrow> int (length z) \<le> 0x7fffffff"
        using add_mem_Some[OF z(1)] by auto
      then show ?thesis using z(2) kl(2) by (cases "e = 0") auto
    qed
    have b': "h_type_len (hdr b') = h_type_len (hdr ?b) + word_of_nat ?n" "hdr b' = hdr (btf_grow ?b ?n)"
        "nr_types b' = nr_types ?b + 1" "type_offs b' = offs" "types_data b' = m" "strs_data b' = strs_data ?b" "start_id b' = start_id ?b"
        "start_str_off b' = start_str_off ?b" "ptr_sz b' = ptr_sz ?b" "hdr_rest b' = hdr_rest ?b" "h_str_len (hdr b') = h_str_len (hdr ?b)"
        "h_hdr_len (hdr b') = h_hdr_len (hdr ?b)" "swapped_endian b' = swapped_endian ?b" "raw_data_swapped b' = raw_data_swapped ?b"
      by (simp_all add: b'_def btf_grow_def w1_def)
    have tl32: "?tl + ?n < 2 ^ 32" using room ok sp by (simp add: mb_ok_def Let_def)
    then have tl': "unat (h_type_len (hdr b')) = ?tl + ?n"
      by (simp add: b'(1) unat_word_ariths unsigned_of_nat take_bit_nat_eq_self)
    have "?k + 1 < 2 ^ 32" using o(1) ol by simp
    then have k': "unat (nr_types b') = ?k + 1" by (simp add: b'(3) unat_word_ariths)
    have add: "type_added xs ?b b'"
      unfolding type_added_def Let_def using tl' k' o lm(1) room b'(2) by (simp add: b'(4-9,13,14)) (simp add: m_def)
    have "layer_wf b'" using type_added_wf[OF wf add xs] ok ol b'(4) by (simp add: mb_ok_def Let_def)
    then have "mb_ok (w1\<lparr>mb := b'\<rparr>)" using ok sp ol lm(1) by (simp add: mb_ok_def Let_def b'(4-12) w1_def)
    moreover have "rbind (put_words xs w) (\<lambda>w. Inr (btf_commit_type M ?n w)) = Inr (new_id b', w1\<lparr>mb := b'\<rparr>)"
      using Some by (simp add: put btf_commit_type_def) (simp add: w1_def Let_def b'_def new_id_def btf_grow_def)
    ultimately show thesis using add sp by (intro that[of "new_id b'" "w1\<lparr>mb := b'\<rparr>"]) (simp_all add: w1_def)
  qed
qed

text \<open>Adding a string leaves the memory of the types of an object that can be changed.\<close>

lemma ensure_keeps: "btf_ensure_modifiable M root w = Inr (err, w') \<Longrightarrow> mb_split w \<Longrightarrow> mb_split w' \<and> types_data (mb w') = types_data (mb w)"
  by (auto simp: btf_ensure_modifiable_def btf_is_modifiable_def Let_def btf_invalidate_raw_data_def)

lemma probe_keeps: "append_probe M root s w = Inr (err, w') \<Longrightarrow> mb_split w \<Longrightarrow> mb_split w' \<and> types_data (mb w') = types_data (mb w)"
  by (auto simp: append_probe_def res_simps btf_add_str_mem_def dest: ensure_keeps split: if_splits option.splits)

lemma here_keeps:
  assumes "add_str_here M root s w = Inr (r, w')" "mb_split w"
  shows "mb_split w' \<and> types_data (mb w') = types_data (mb w)"
proof -
  obtain err w1 where p: "append_probe M root s w = Inr (err, w1)"
    using assms(1) by (auto simp: add_str_here_def rbind_eq_Inr)
  from probe_keeps[OF this assms(2)] show ?thesis
    using assms(1) by (auto simp: add_str_here_def p Let_def rbind_eq_Inr split: if_splits option.splits)
qed

lemma add_str_keeps:
  assumes "btf__add_str M (w # base) s = Inr (r, ws')" "mb_split w"
  shows "mb_split (hd ws') \<and> types_data (mb (hd ws')) = types_data (mb w)"
proof -
  obtain ret base' where b: "(if base \<noteq> [] then btf__find_str M base s else Inr (- 2, base)) = Inr (ret, base')"
    using assms(1) by (auto simp: btf__add_str_def rbind_eq_Inr)
  show ?thesis
  proof (cases "ret = - 2")
    case False
    then have "ws' = w # base'" using assms(1) b by (simp add: btf__add_str_def)
    then show ?thesis using assms(2) by simp
  next
    case True
    then obtain w' where "add_str_here M (base' = []) s w = Inr (r, w')" "ws' = w' # base'"
      using assms(1) b by (auto simp: btf__add_str_def rbind_eq_Inr)
    then show ?thesis using here_keeps assms(2) by fastforce
  qed
qed

lemma ws_ok_top:
  assumes "ws_ok (w # base)" "mb_ok w'" "start_id (mb w') = start_id (mb w)" "start_str_off (mb w') = start_str_off (mb w)"
  shows "ws_ok (w' # base)"
  using assms(1)
proof (cases rule: ws_ok_cases)
  case (1 v)
  then show ?thesis using assms(2-4) by (simp add: ws_ok_1)
next
  case (2 v u)
  then show ?thesis using assms(2-4) by (simp add: ws_ok_2)
qed

lemma ws_ok_mb: "ws_ok (w # base) \<Longrightarrow> mb_ok w"
  by (simp add: ws_ok_def)

definition below :: "mbtf list \<Rightarrow> mbtf list \<Rightarrow> bool" where
  "below ws ws' \<longleftrightarrow> list_all2 (\<lambda>w w'. same_view (mb w) (mb w')) ws ws'"

lemma below_refl: "ws_ok (w # base) \<Longrightarrow> below base base"
  unfolding below_def by (rule list.rel_refl_strong) (auto simp: ws_ok_def mb_ok_def Let_def intro: same_view_refl)

lemma open_type_ok:
  assumes ok: "ws_ok (w # base)"
  obtains err w' where "open_type M n (w # base) = Inr (err, w' # base)" "ws_ok (w' # base)" "same_view (mb w) (mb w')"
    "err = - 12 \<or> err = 0 \<and> mb_split w' \<and> unat (h_type_len (hdr (mb w'))) + n \<le> length (types_data (mb w'))"
proof -
  obtain err w1 where e: "btf_ensure_modifiable M (base = []) w = Inr (err, w1)" "mb_ok w1" "same_view (mb w) (mb w1)" "err = 0 \<Longrightarrow> mb_split w1"
    using ensure_modifiable_ok[OF ws_ok_mb[OF ok], of M "base = []"] by blast
  have ok1: "ws_ok (w1 # base)" by (rule ws_ok_top[OF ok e(2)]) (use e(3) in \<open>auto simp: same_view_def extends_def\<close>)
  let ?b = "mb w1" and ?tl = "unat (h_type_len (hdr (mb w1)))"
  show thesis
  proof (cases "err \<noteq> 0 \<or> btf_add_mem (mem_size M) 0 (types_data ?b) 1 ?tl 0xffffffff n = None")
    case True
    have "open_type M n (w # base) = Inr (- 12, w1 # base)" using e(1) True by (auto simp: open_type_def btf_add_type_mem_def)
    then show thesis using ok1 e(3) by (intro that[of "- 12" w1]) simp_all
  next
    case False
    then obtain d where d: "btf_add_mem (mem_size M) 0 (types_data ?b) 1 ?tl 0xffffffff n = Some d" by auto
    obtain k where k: "d = types_data ?b @ replicate k 0" "?tl + n \<le> length d" "k \<noteq> 0 \<Longrightarrow> int (length d) \<le> 0xffffffff"
      using add_mem_Some[OF d] by auto
    let ?w = "w1\<lparr>mb := ?b\<lparr>types_data := d\<rparr>\<rparr>"
    have sp: "mb_split w1" and wf: "layer_wf ?b" using e(2,4) False by (simp_all add: mb_ok_def Let_def)
    have v: "same_view ?b (mb ?w)" using wf k(1) by (simp add: same_view_def extends_def layer_wf_def)
    have "length d < 2 ^ 32" using k(1,3) e(2) sp by (cases "k = 0") (simp_all add: mb_ok_def Let_def)
    moreover have "layer_wf (mb ?w)" using v mb_ok_zero[OF e(2)] by (intro extends_wf[OF wf]) (auto simp: same_view_def)
    ultimately have "mb_ok ?w" using e(2) sp by (simp add: mb_ok_def Let_def)
    then have "ws_ok (?w # base)" by (rule ws_ok_top[OF ok1]) simp_all
    moreover have "open_type M n (w # base) = Inr (0, ?w # base)"
      using e(1) False d by (simp add: open_type_def btf_add_type_mem_def)
    ultimately show thesis using same_view_trans[OF e(3) v] sp k(2) by (intro that[of 0 ?w]) simp_all
  qed
qed

text \<open>A name that is given is found under its offset.\<close>

definition name_at :: "btf list \<Rightarrow> u8 list option \<Rightarrow> u32 \<Rightarrow> bool" where
  "name_at bs name off \<longleftrightarrow>
     (if no_name name then off = 0 else \<exists>m. btf__str_by_offset bs off = Inr (Some m) \<and> bstr m = Inr (the name))"

definition name_ok :: "u8 list option \<Rightarrow> bool" where
  "name_ok name \<longleftrightarrow> (case name of None \<Rightarrow> True | Some s \<Rightarrow> 0 \<notin> set s)"

lemma add_name_ok:
  assumes ok: "ws_ok (w # base)" and nm: "name_ok name" and sp: "mb_split w"
  obtains r w' base' where "add_name M name (w # base) = Inr (r, w' # base')" "ws_ok (w' # base')" "extends (mb w) (mb w')"
    "below base base'" "mb_split w'" "types_data (mb w') = types_data (mb w)"
    "0 \<le> r \<Longrightarrow> name_at (List.map mb (w' # base')) name (word_of_int r)"
proof (cases "no_name name")
  case True
  have "extends (mb w) (mb w)" using ws_ok_mb[OF ok] by (simp add: extends_refl mb_ok_def Let_def)
  moreover have "add_name M name (w # base) = Inr (0, w # base)" using True by (auto simp: add_name_def no_name_def)
  ultimately show thesis using ok below_refl[OF ok] sp True by (intro that[of 0 w base]) (simp_all add: name_at_def)
next
  case False
  then obtain s where s: "name = Some s" "s \<noteq> []" by (auto simp: no_name_def)
  obtain r ws' where a: "btf__add_str M (w # base) s = Inr (r, ws')" "ws_ok ws'" "grown (w # base) ws'"
      "0 \<le> r \<Longrightarrow> \<exists>m. btf__str_by_offset (List.map mb ws') (word_of_int r) = Inr (Some m) \<and> bstr m = Inr s"
    using add_str_ok[OF ok, of s M] nm s by (auto simp: name_ok_def)
  then obtain w' base' where ws': "ws' = w' # base'" by (cases ws') (auto simp: grown_def)
  show thesis
  proof (rule that[of r w' base'])
    show "add_name M name (w # base) = Inr (r, w' # base')" using a(1) s ws' by (simp add: add_name_def)
    show "ws_ok (w' # base')" "extends (mb w) (mb w')" "below base base'" using a(2,3) ws' by (simp_all add: grown_def below_def)
    show "mb_split w'" "types_data (mb w') = types_data (mb w)" using add_str_keeps[OF a(1) sp] ws' by simp_all
    show "name_at (List.map mb (w' # base')) name (word_of_int r)" if "0 \<le> r"
      using a(4)[OF that] s ws' by (simp add: name_at_def no_name_def)
  qed
qed

lemma name_at_cong:
  assumes "strs_data b' = strs_data b" "start_str_off b' = start_str_off b" "h_str_len (hdr b') = h_str_len (hdr b)"
  shows "name_at (b' # bs) name off = name_at (b # bs) name off"
  using assms by (simp add: name_at_def)

text \<open>What an addition may do: fail and leave the types, or add what \<open>fill\<close> makes of the object with its name.\<close>

lemma with_room_ok:
  assumes ok: "ws_ok (w # base)" and nm: "name_ok name"
    and fill: "\<And>off w1. mb_ok w1 \<Longrightarrow> mb_split w1 \<Longrightarrow> extends (mb w) (mb w1) \<Longrightarrow>
        unat (h_type_len (hdr (mb w1))) + n \<le> length (types_data (mb w1)) \<Longrightarrow>
        \<exists>r w2. fill off w1 = Inr (r, w2) \<and> mb_ok w2 \<and> start_id (mb w2) = start_id (mb w1) \<and> strs_data (mb w2) = strs_data (mb w1) \<and>
          start_str_off (mb w2) = start_str_off (mb w1) \<and> h_str_len (hdr (mb w2)) = h_str_len (hdr (mb w1)) \<and> Q off w1 r w2"
  obtains r w' base' where "with_room M n name fill (w # base) = Inr (r, w' # base')" "ws_ok (w' # base')" "below base base'"
    "r < 0 \<and> extends (mb w) (mb w') \<or>
     (\<exists>off w1. extends (mb w) (mb w1) \<and> name_at (List.map mb (w' # base')) name off \<and> Q off w1 r w')"
proof -
  obtain err w1 where o: "open_type M n (w # base) = Inr (err, w1 # base)" "ws_ok (w1 # base)" "same_view (mb w) (mb w1)"
    "err = - 12 \<or> err = 0 \<and> mb_split w1 \<and> unat (h_type_len (hdr (mb w1))) + n \<le> length (types_data (mb w1))"
    using open_type_ok[OF ok, of M n] by blast
  have e1: "extends (mb w) (mb w1)" using o(3) by (simp add: same_view_def)
  show thesis
  proof (cases "err = 0")
    case False
    then show thesis using o e1 below_refl[OF ok] by (intro that[of err w1 base]) (auto simp: with_room_def)
  next
    case True
    then have sp: "mb_split w1" and room: "unat (h_type_len (hdr (mb w1))) + n \<le> length (types_data (mb w1))" using o(4) by simp_all
    obtain r w2 base' where a: "add_name M name (w1 # base) = Inr (r, w2 # base')" "ws_ok (w2 # base')" "extends (mb w1) (mb w2)"
        "below base base'" "mb_split w2" "types_data (mb w2) = types_data (mb w1)"
        "0 \<le> r \<Longrightarrow> name_at (List.map mb (w2 # base')) name (word_of_int r)"
      using add_name_ok[OF o(2) nm sp, of M] by blast
    have e2: "extends (mb w) (mb w2)" by (rule extends_trans[OF e1 a(3)])
    show thesis
    proof (cases "r < 0")
      case neg: True
      then show thesis using o(1) True a e2 by (intro that[of r w2 base']) (auto simp: with_room_def)
    next
      case pos: False
      have room2: "unat (h_type_len (hdr (mb w2))) + n \<le> length (types_data (mb w2))"
        using room a(6) extends_hdr(1)[OF a(3)] by simp
      obtain r' w3 where f: "fill (word_of_int r) w2 = Inr (r', w3)" "mb_ok w3" "start_id (mb w3) = start_id (mb w2)"
          "strs_data (mb w3) = strs_data (mb w2)" "start_str_off (mb w3) = start_str_off (mb w2)"
          "h_str_len (hdr (mb w3)) = h_str_len (hdr (mb w2))" "Q (word_of_int r) w2 r' w3"
        using fill[OF ws_ok_mb[OF a(2)] a(5) e2 room2, of "word_of_int r"] by blast
      have "with_room M n name fill (w # base) = Inr (r', w3 # base')"
        using o(1) True a(1) pos f(1) by (simp add: with_room_def on_top_def)
      moreover have "ws_ok (w3 # base')" by (rule ws_ok_top[OF a(2) f(2,3,5)])
      moreover have "name_at (List.map mb (w3 # base')) name (word_of_int r)"
        using a(7) pos name_at_cong[OF f(4-6)] by simp
      ultimately show thesis using a(4) e2 f(7) by (intro that[of r' w3 base']) blast+
    qed
  qed
qed

text \<open>Whatever is filled in, nothing faults when filling does not.\<close>

lemma with_room_returns:
  assumes ok: "ws_ok (w # base)" and nm: "name_ok name"
    and fill: "\<And>off w1. mb_ok w1 \<Longrightarrow> mb_split w1 \<Longrightarrow> extends (mb w) (mb w1) \<Longrightarrow>
        unat (h_type_len (hdr (mb w1))) + n \<le> length (types_data (mb w1)) \<Longrightarrow> \<exists>r w2. fill off w1 = Inr (r, w2)"
  shows "\<exists>r ws'. with_room M n name fill (w # base) = Inr (r, ws') \<and> length ws' = length (w # base)"
proof -
  obtain err w1 where o: "open_type M n (w # base) = Inr (err, w1 # base)" "ws_ok (w1 # base)" "same_view (mb w) (mb w1)"
    "err = - 12 \<or> err = 0 \<and> mb_split w1 \<and> unat (h_type_len (hdr (mb w1))) + n \<le> length (types_data (mb w1))"
    using open_type_ok[OF ok, of M n] by blast
  show ?thesis
  proof (cases "err = 0")
    case False
    then show ?thesis using o by (simp add: with_room_def)
  next
    case True
    then have sp: "mb_split w1" and room: "unat (h_type_len (hdr (mb w1))) + n \<le> length (types_data (mb w1))" using o(4) by simp_all
    obtain r w2 base' where a: "add_name M name (w1 # base) = Inr (r, w2 # base')" "ws_ok (w2 # base')" "extends (mb w1) (mb w2)"
        "below base base'" "mb_split w2" "types_data (mb w2) = types_data (mb w1)"
      using add_name_ok[OF o(2) nm sp, of M] by blast
    have e: "extends (mb w) (mb w2)" using extends_trans[OF _ a(3)] o(3) by (simp add: same_view_def)
    have room2: "unat (h_type_len (hdr (mb w2))) + n \<le> length (types_data (mb w2))"
      using room a(6) extends_hdr(1)[OF a(3)] by simp
    have "length base' = length base" using a(4) by (auto simp: below_def dest: list_all2_lengthD)
    then show ?thesis
      using o(1) True a(1) fill[OF ws_ok_mb[OF a(2)] a(5) e room2, of "word_of_int r"] by (auto simp: with_room_def on_top_def)
  qed
qed

lemma new_type_ok:
  assumes ok: "ws_ok (w # base)" and nm: "name_ok name" and info: "info_size info = 12 + 4 * int (length extra)"
  obtains r w' base' where "new_type M name info ty extra (w # base) = Inr (r, w' # base')" "ws_ok (w' # base')" "below base base'"
    "r < 0 \<and> extends (mb w) (mb w') \<or>
     (\<exists>off b1. extends (mb w) b1 \<and> name_at (List.map mb (w' # base')) name off \<and> type_added (off # info # ty # extra) b1 (mb w') \<and>
        r = new_id (mb w'))"
proof -
  let ?xs = "\<lambda>off. off # info # ty # extra"
  let ?fill = "\<lambda>off w. rbind (put_words (?xs off) w) (\<lambda>w. Inr (btf_commit_type M (12 + 4 * length extra) w))"
  let ?Q = "\<lambda>off w1 r w2. r = - 12 \<and> same_view (mb w1) (mb w2) \<or> r = new_id (mb w2) \<and> type_added (?xs off) (mb w1) (mb w2)"
  have fill: "\<exists>r w2. ?fill off w1 = Inr (r, w2) \<and> mb_ok w2 \<and> start_id (mb w2) = start_id (mb w1) \<and> strs_data (mb w2) = strs_data (mb w1) \<and>
      start_str_off (mb w2) = start_str_off (mb w1) \<and> h_str_len (hdr (mb w2)) = h_str_len (hdr (mb w1)) \<and> ?Q off w1 r w2"
    if w1: "mb_ok w1" "mb_split w1" "unat (h_type_len (hdr (mb w1))) + (12 + 4 * length extra) \<le> length (types_data (mb w1))" for off w1
  proof -
    have len: "3 \<le> length (?xs off)" "info_size (?xs off ! 1) = 4 * int (length (?xs off))" "4 * length (?xs off) = 12 + 4 * length extra"
      using info by simp_all
    obtain r w2 where c: "rbind (put_words (?xs off) w1) (\<lambda>w. Inr (btf_commit_type M (4 * length (?xs off)) w)) = Inr (r, w2)" "mb_ok w2"
        "r = - 12 \<and> same_view (mb w1) (mb w2) \<and> strs_data (mb w2) = strs_data (mb w1) \<or> r = new_id (mb w2) \<and> type_added (?xs off) (mb w1) (mb w2)"
      using commit_ok[OF w1(1,2) len(1,2), of M] w1(3) len(3) by metis
    have "start_id (mb w2) = start_id (mb w1) \<and> strs_data (mb w2) = strs_data (mb w1) \<and>
        start_str_off (mb w2) = start_str_off (mb w1) \<and> h_str_len (hdr (mb w2)) = h_str_len (hdr (mb w1))"
      using c(3) by (auto simp: same_view_def extends_def type_added_def Let_def btf_grow_def)
    then show ?thesis using c unfolding len(3) by blast
  qed
  have ext: "extends (mb w) (mb w')" if "extends (mb w) (mb w1)" "same_view (mb w1) (mb w')" for w1 w'
    using that extends_trans by (auto simp: same_view_def)
  show thesis
  proof (rule with_room_ok[OF ok nm, of "12 + 4 * length extra" ?fill ?Q M])
    fix r w' base' assume r: "with_room M (12 + 4 * length extra) name ?fill (w # base) = Inr (r, w' # base')"
      "ws_ok (w' # base')" "below base base'"
      and q: "r < 0 \<and> extends (mb w) (mb w') \<or>
        (\<exists>off w1. extends (mb w) (mb w1) \<and> name_at (List.map mb (w' # base')) name off \<and> ?Q off w1 r w')"
    have "new_type M name info ty extra (w # base) = Inr (r, w' # base')" using r(1) by (simp add: new_type_def)
    moreover have "r < 0 \<and> extends (mb w) (mb w') \<or>
       (\<exists>off b1. extends (mb w) b1 \<and> name_at (List.map mb (w' # base')) name off \<and> type_added (?xs off) b1 (mb w') \<and>
          r = new_id (mb w'))"
      using q
    proof (elim disjE exE conjE)
      fix off w1 assume "extends (mb w) (mb w1)" "r = - 12" "same_view (mb w1) (mb w')"
      then show ?thesis using ext by auto
    qed blast+
    ultimately show thesis using r(2,3) that by blast
  qed (rule fill)
qed

section \<open>Adding members\<close>

definition member_size :: "u32 \<Rightarrow> nat" where
  "member_size k = (if k \<in> {BTF_KIND_STRUCT, BTF_KIND_UNION, BTF_KIND_DATASEC} then 12 else 8)"

definition has_members :: "u32 \<Rightarrow> bool" where
  "has_members k \<longleftrightarrow> k \<in> {BTF_KIND_STRUCT, BTF_KIND_UNION, BTF_KIND_DATASEC, BTF_KIND_ENUM, BTF_KIND_FUNC_PROTO}"

lemma info_size_member:
  assumes "has_members (BTF_INFO_KIND info)" "BTF_INFO_VLEN info = v" "unat v < 65535" "f < 2"
  shows "info_size (btf_type_info (BTF_INFO_KIND info) (v + 1) f) = info_size info + int (member_size (BTF_INFO_KIND info))"
proof -
  have v: "unat (v + 1) = unat v + 1" using assms(3) by (simp add: unat_word_ariths)
  then have "v + 1 < 65536" using assms(3) by (simp add: word_less_nat_alt)
  moreover have "BTF_INFO_KIND info < 16" using assms(1) by (auto simp: has_members_def)
  ultimately show ?thesis
    using info_fields[of "BTF_INFO_KIND info" f "v + 1"] assms v by (auto simp: info_size_def Let_def has_members_def member_size_def)
qed

lemma tiles_snocD:
  "tiles m (offs @ [off]) a fin \<Longrightarrow>
    \<exists>s. tiles m offs a (unat off) \<and> unat off + 12 \<le> fin \<and> btf_type_size (drop (unat off) m) = Inr s \<and> 12 \<le> s \<and> unat off + nat s = fin"
proof (induction offs arbitrary: a)
  case (Cons o1 offs)
  then obtain s where s: "unat o1 = a" "btf_type_size (drop a m) = Inr s" "12 \<le> s" "a + 12 \<le> fin" "tiles m (offs @ [off]) (a + nat s) fin"
    by auto
  obtain s' where s': "tiles m offs (a + nat s) (unat off)" "unat off + 12 \<le> fin" "btf_type_size (drop (unat off) m) = Inr s'"
      "12 \<le> s'" "unat off + nat s' = fin" using Cons.IH[OF s(5)] by blast
  have "a + nat s \<le> unat off" using tiles_length[OF s'(1)] by simp
  moreover have "12 \<le> nat s" using s(3) by simp
  ultimately show ?case using s s' by auto
qed auto

lemma unat_pred: "(w :: u32) \<noteq> 0 \<Longrightarrow> unat w = Suc (unat w - 1)"
proof -
  assume "w \<noteq> 0"
  then have "unat w \<noteq> 0" by (simp add: unsigned_eq_0_iff)
  then show ?thesis by simp
qed

text \<open>The last type of a layer with its position and its word.\<close>

definition last_at :: "btf \<Rightarrow> nat \<Rightarrow> u32 \<Rightarrow> bool" where
  "last_at b p info \<longleftrightarrow>
     nr_types b \<noteq> 0 \<and> p = unat (type_offs b ! (unat (nr_types b) - 1)) \<and> t_info (drop p (types_data b)) = Inr info"

lemma last_atE:
  assumes "layer_wf b" "nr_types b \<noteq> 0"
  obtains p info where "last_at b p info"
    "tiles (types_data b) (take (unat (nr_types b) - 1) (type_offs b)) 0 p"
    "take (unat (nr_types b)) (type_offs b) = take (unat (nr_types b) - 1) (type_offs b) @ [type_offs b ! (unat (nr_types b) - 1)]"
    "12 \<le> info_size info" "p + nat (info_size info) = unat (h_type_len (hdr b))"
proof -
  let ?k = "unat (nr_types b) - 1"
  have k: "unat (nr_types b) = Suc ?k" by (rule unat_pred[OF assms(2)])
  then have "?k < length (type_offs b)" using assms(1) by (simp add: layer_wf_def)
  then have t: "take (unat (nr_types b)) (type_offs b) = take ?k (type_offs b) @ [type_offs b ! ?k]"
    by (subst k) (rule take_Suc_conv_app_nth)
  then obtain s where s: "tiles (types_data b) (take ?k (type_offs b)) 0 (unat (type_offs b ! ?k))"
      "btf_type_size (drop (unat (type_offs b ! ?k)) (types_data b)) = Inr s" "12 \<le> s"
      "unat (type_offs b ! ?k) + nat s = unat (h_type_len (hdr b))"
    using assms(1) tiles_snocD[of "types_data b" "take ?k (type_offs b)" "type_offs b ! ?k" 0] by (auto simp: layer_wf_def)
  then obtain info where "t_info (drop (unat (type_offs b ! ?k)) (types_data b)) = Inr info" "s = info_size info"
    by (auto simp: btf_type_size_info res_simps)
  with s t assms(2) show thesis by (intro that[of "unat (type_offs b ! ?k)" info]) (simp_all add: last_at_def)
qed

lemma last_type_pos: "layer_wf b \<Longrightarrow> last_at b p info \<Longrightarrow> btf_last_type b = Inr p"
proof -
  assume a: "layer_wf b" "last_at b p info"
  have "unat (nr_types b - 1) = unat (nr_types b) - 1" using a(2) by (simp add: last_at_def unat_minus_one)
  moreover have "unat (nr_types b) - 1 < length (type_offs b)"
    using a unat_pred[of "nr_types b"] by (auto simp: layer_wf_def last_at_def)
  moreover have "btf__get_nr_types b - start_id b = nr_types b - 1" by (simp add: btf__get_nr_types_def)
  ultimately show ?thesis using a(2) by (simp add: btf_last_type_def type_pos_def get_elem_def last_at_def)
qed

lemma last_kind_at: "layer_wf b \<Longrightarrow> last_at b p info \<Longrightarrow> last_kind b = Inr (BTF_INFO_KIND info)"
  using last_type_pos by (auto simp: last_kind_def btf_kind_def last_at_def)

text \<open>The object with one more member in its last type: the words of the member behind the types, and the new word
  with the kind.\<close>

definition member_added :: "u32 list \<Rightarrow> u32 \<Rightarrow> btf \<Rightarrow> btf \<Rightarrow> bool" where
  "member_added xs info b b' \<longleftrightarrow>
     (let tl = unat (h_type_len (hdr b)); n = 4 * length xs; p = unat (type_offs b ! (unat (nr_types b) - 1)) in
      hdr b' = hdr (btf_grow b n) \<and> unat (h_type_len (hdr b')) = tl + n \<and>
      nr_types b' = nr_types b \<and> type_offs b' = type_offs b \<and>
      start_id b' = start_id b \<and> start_str_off b' = start_str_off b \<and> ptr_sz b' = ptr_sz b \<and>
      swapped_endian b' = swapped_endian b \<and> (raw_data_swapped b = None \<longrightarrow> raw_data_swapped b' = None) \<and>
      strs_data b' = strs_data b \<and> tl + n \<le> length (types_data b') \<and>
      take (tl + n) (types_data b') =
        take (p + 4) (types_data b) @ bytes32 info @ take (tl - (p + 8)) (drop (p + 8) (types_data b)) @ word_bytes_of xs)"

lemma member_added_wf:
  assumes wf: "layer_wf b" and add: "member_added xs info' b b'" and last: "last_at b p info"
    and size: "info_size info' = info_size info + 4 * int (length xs)"
  shows "layer_wf b'"
proof -
  let ?tl = "unat (h_type_len (hdr b))" and ?n = "4 * length xs" and ?k = "unat (nr_types b) - 1"
  have nz: "nr_types b \<noteq> 0" using last by (simp add: last_at_def)
  obtain p' info0 where l: "last_at b p' info0" "tiles (types_data b) (take ?k (type_offs b)) 0 p'"
      "take (unat (nr_types b)) (type_offs b) = take ?k (type_offs b) @ [type_offs b ! ?k]"
      "12 \<le> info_size info0" "p' + nat (info_size info0) = ?tl"
    by (rule last_atE[OF wf nz])
  have p: "p' = p" "info0 = info" "p = unat (type_offs b ! ?k)" using l(1) last by (auto simp: last_at_def)
  note a = add[unfolded member_added_def Let_def]
  have tlm: "?tl \<le> length (types_data b)" using wf by (simp add: layer_wf_def)
  have pt: "p + 12 \<le> ?tl" using l(4,5) p by simp
  let ?m = "take (p + 4) (types_data b) @ bytes32 info' @ take (?tl - (p + 8)) (drop (p + 8) (types_data b)) @ word_bytes_of xs"
  have lm: "length ?m = ?tl + ?n" using pt tlm by simp
  have ld: "btf_type_size (drop p ?m) = Inr (info_size info')"
  proof -
    have "ld32 ?m ((p + 4) + 0) = ld32 (bytes32 info' @ take (?tl - (p + 8)) (drop (p + 8) (types_data b)) @ word_bytes_of xs) 0"
      using pt tlm by (intro ld32_skip) simp
    then have "ld32 ?m (p + 4) = Inr info'" by (simp add: ld32_bytes32)
    moreover have "p \<le> length ?m" using lm pt by linarith
    then have "t_info (drop p ?m) = ld32 ?m (p + 4)" by (simp only: t_info_def ld32_drop if_True)
    ultimately have "t_info (drop p ?m) = Inr info'" by simp
    then show ?thesis by (simp add: btf_type_size_info)
  qed
  have "tiles ?m (take ?k (type_offs b)) 0 p"
    using l(2) tiles_cong[of p ?m "types_data b" "take ?k (type_offs b)" 0] pt tlm p(1) by simp
  then have "tiles ?m (take ?k (type_offs b) @ [type_offs b ! ?k]) 0 (p + nat (info_size info'))"
    using ld size l(4) p by (intro tiles_snoc) simp_all
  moreover have "p + nat (info_size info') = ?tl + ?n" using size l(4,5) p by (simp add: nat_add_distrib nat_mult_distrib)
  ultimately have "tiles ?m (take (unat (nr_types b)) (type_offs b)) 0 (?tl + ?n)" using l(3) by simp
  moreover have "take (?tl + ?n) (types_data b') = take (?tl + ?n) ?m"
  proof -
    have "take (?tl + ?n) (types_data b') = ?m" unfolding p(3) using a by blast
    moreover have "take (?tl + ?n) ?m = ?m" using lm by (simp only: take_all order_refl)
    ultimately show ?thesis by (simp only:)
  qed
  moreover have "?tl + ?n \<le> length (types_data b')" "?tl + ?n \<le> length ?m" using a lm by (blast, simp only: order_refl)
  ultimately have "tiles (types_data b') (take (unat (nr_types b)) (type_offs b)) 0 (?tl + ?n)"
    using tiles_cong by blast
  moreover have "unat (h_type_len (hdr b')) = ?tl + ?n" "nr_types b' = nr_types b" "type_offs b' = type_offs b"
      "start_id b' = start_id b" "ptr_sz b' = ptr_sz b" "strs_data b' = strs_data b" "?tl + ?n \<le> length (types_data b')"
    using a by blast+
  moreover have "h_str_len (hdr b') = h_str_len (hdr b)" using a by (simp add: btf_grow_def)
  ultimately show ?thesis using wf by (simp add: layer_wf_def)
qed


lemma extends_last:
  assumes "layer_wf b" "extends b b'" "last_at b p info"
  shows "last_at b' p info"
proof -
  have nz: "nr_types b \<noteq> 0" using assms(3) by (simp add: last_at_def)
  obtain p' info0 where l: "last_at b p' info0" "12 \<le> info_size info0" "p' + nat (info_size info0) = unat (h_type_len (hdr b))"
    by (rule last_atE[OF assms(1) nz])
  have "p' = p" using l(1) assms(3) by (simp add: last_at_def)
  then have pt: "p + 12 \<le> unat (h_type_len (hdr b))" using l(2,3) by simp
  have tl: "unat (h_type_len (hdr b)) \<le> length (types_data b)" "unat (h_type_len (hdr b)) \<le> length (types_data b')"
      "take (unat (h_type_len (hdr b))) (types_data b') = take (unat (h_type_len (hdr b))) (types_data b)"
    using assms(1,2) by (simp_all add: layer_wf_def extends_def)
  have "ld32 (types_data b') (p + 4) = ld32 (types_data b) (p + 4)"
    using pt tl by (intro ld32_take_cong[of "unat (h_type_len (hdr b))"]) simp_all
  then have "t_info (drop p (types_data b')) = t_info (drop p (types_data b))" using pt tl by (simp add: t_info_def ld32_drop)
  then show ?thesis using assms(2,3) by (auto simp: last_at_def extends_def)
qed

lemma member_fill_step:
  assumes ok: "mb_ok w" and room: "unat (h_type_len (hdr (mb w))) + 4 * length xs \<le> length (types_data (mb w))"
    and last: "last_at (mb w) p info"
  obtains m where "rbind (put_words xs w) (\<lambda>w. rbind (btf_last_type (mb w)) (\<lambda>pos. rbind (btf_type_inc_vlen bitfield pos w)
      (\<lambda>w. Inr (0, w\<lparr>mb := btf_grow (mb w) (4 * length xs)\<rparr>)))) =
        Inr (0 :: int, w\<lparr>mb := btf_grow ((mb w)\<lparr>types_data := m\<rparr>) (4 * length xs)\<rparr>)"
    "length m = length (types_data (mb w))"
    "take (unat (h_type_len (hdr (mb w))) + 4 * length xs) m = take (p + 4) (types_data (mb w)) @
       bytes32 (btf_type_info (BTF_INFO_KIND info) (BTF_INFO_VLEN info + 1) (if bitfield \<or> BTF_INFO_KFLAG info \<noteq> 0 then 1 else 0)) @
       take (unat (h_type_len (hdr (mb w))) - (p + 8)) (drop (p + 8) (types_data (mb w))) @ word_bytes_of xs"
proof -
  let ?b = "mb w" and ?n = "4 * length xs" and ?tl = "unat (h_type_len (hdr (mb w)))"
  define info' where "info' = btf_type_info (BTF_INFO_KIND info) (BTF_INFO_VLEN info + 1) (if bitfield \<or> BTF_INFO_KFLAG info \<noteq> 0 then 1 else 0)"
  have wf: "layer_wf ?b" using ok by (simp add: mb_ok_def Let_def)
  have nz: "nr_types ?b \<noteq> 0" using last by (simp add: last_at_def)
  obtain p' info0 where l: "last_at ?b p' info0" "12 \<le> info_size info0" "p' + nat (info_size info0) = ?tl"
    by (rule last_atE[OF wf nz])
  have "p' = p" using l(1) last by (simp add: last_at_def)
  then have pt: "p + 12 \<le> ?tl" using l(2,3) by simp
  define m1 where "m1 = take ?tl (types_data ?b) @ word_bytes_of xs @ drop (?tl + ?n) (types_data ?b)"
  define w1 where "w1 = w\<lparr>mb := ?b\<lparr>types_data := m1\<rparr>\<rparr>"
  have put: "put_words xs w = Inr w1" using room by (simp add: put_words_def st_words_ok w1_def m1_def)
  have lm: "length m1 = length (types_data ?b)" "take ?tl m1 = take ?tl (types_data ?b)" using room by (simp_all add: m1_def)
  have v1: "same_view ?b (mb w1)" using wf lm by (simp add: same_view_def extends_def w1_def layer_wf_def)
  have wf1: "layer_wf (mb w1)" using v1 mb_ok_zero[OF ok] by (intro extends_wf[OF wf]) (auto simp: same_view_def w1_def)
  have last1: "last_at (mb w1) p info" using extends_last[OF wf _ last] v1 by (simp add: same_view_def)
  have info: "t_info (drop p m1) = Inr info" using last1 by (auto simp: last_at_def w1_def)
  define m2 where "m2 = take (p + 4) m1 @ bytes32 info' @ drop (p + 8) m1"
  have vl: "btf_type_info (BTF_INFO_KIND info) (1 + BTF_INFO_VLEN info) (if bitfield \<or> BTF_INFO_KFLAG info \<noteq> 0 then 1 else 0) = info'"
    by (simp only: info'_def add.commute)
  have st: "st32 m1 (p + 4) info' = Inr m2"
    using pt lm(1) wf by (simp add: st32_def stn_def m2_def layer_wf_def add.assoc)
  have inc: "btf_type_inc_vlen bitfield p w1 = Inr (w1\<lparr>mb := (mb w1)\<lparr>types_data := m2\<rparr>\<rparr>)"
    using info by (simp add: btf_type_inc_vlen_def btf_kind_def btf_vlen_def btf_kflag_def w1_def set_info_def vl st split del: if_split)
  have "rbind (put_words xs w) (\<lambda>w. rbind (btf_last_type (mb w)) (\<lambda>pos. rbind (btf_type_inc_vlen bitfield pos w)
      (\<lambda>w. Inr (0, w\<lparr>mb := btf_grow (mb w) ?n\<rparr>)))) = Inr (0 :: int, w\<lparr>mb := btf_grow (?b\<lparr>types_data := m2\<rparr>) ?n\<rparr>)"
    by (simp add: put last_type_pos[OF wf1 last1] inc) (simp add: w1_def)
  moreover have "length m2 = length (types_data ?b)"
      "take (?tl + ?n) m2 = take (p + 4) (types_data ?b) @ bytes32 info' @ take (?tl - (p + 8)) (drop (p + 8) (types_data ?b)) @ word_bytes_of xs"
    using pt room lm(1) by (simp_all add: m2_def m1_def min_def take_drop)
  ultimately show thesis unfolding info'_def by (rule that)
qed

lemma member_fill_ok:
  assumes ok: "mb_ok w" and sp: "mb_split w" and room: "unat (h_type_len (hdr (mb w))) + 4 * length xs \<le> length (types_data (mb w))"
    and last: "last_at (mb w) p info" and k: "has_members (BTF_INFO_KIND info)" "member_size (BTF_INFO_KIND info) = 4 * length xs"
    and v: "unat (BTF_INFO_VLEN info) < 65535"
  shows "\<exists>w2. rbind (put_words xs w) (\<lambda>w. rbind (btf_last_type (mb w)) (\<lambda>pos. rbind (btf_type_inc_vlen bitfield pos w)
      (\<lambda>w. Inr (0, w\<lparr>mb := btf_grow (mb w) (4 * length xs)\<rparr>)))) = Inr (0 :: int, w2) \<and> mb_ok w2 \<and>
    member_added xs (btf_type_info (BTF_INFO_KIND info) (BTF_INFO_VLEN info + 1) (if bitfield \<or> BTF_INFO_KFLAG info \<noteq> 0 then 1 else 0))
      (mb w) (mb w2)"
proof -
  let ?b = "mb w" and ?n = "4 * length xs" and ?tl = "unat (h_type_len (hdr (mb w)))"
  define info' where "info' = btf_type_info (BTF_INFO_KIND info) (BTF_INFO_VLEN info + 1) (if bitfield \<or> BTF_INFO_KFLAG info \<noteq> 0 then 1 else 0)"
  have wf: "layer_wf ?b" using ok by (simp add: mb_ok_def Let_def)
  obtain m where step: "rbind (put_words xs w) (\<lambda>w. rbind (btf_last_type (mb w)) (\<lambda>pos. rbind (btf_type_inc_vlen bitfield pos w)
      (\<lambda>w. Inr (0, w\<lparr>mb := btf_grow (mb w) ?n\<rparr>)))) = Inr (0 :: int, w\<lparr>mb := btf_grow (?b\<lparr>types_data := m\<rparr>) ?n\<rparr>)"
    and m: "length m = length (types_data ?b)"
      "take (?tl + ?n) m = take (p + 4) (types_data ?b) @ bytes32 info' @ take (?tl - (p + 8)) (drop (p + 8) (types_data ?b)) @ word_bytes_of xs"
    unfolding info'_def by (rule member_fill_step[OF ok room last])
  define w2 where "w2 = w\<lparr>mb := btf_grow (?b\<lparr>types_data := m\<rparr>) ?n\<rparr>"
  have tl32: "?tl + ?n < 2 ^ 32" using room ok sp by (simp add: mb_ok_def Let_def)
  then have tl': "unat (h_type_len (hdr (mb w2))) = ?tl + ?n"
    by (simp add: w2_def btf_grow_def unat_word_ariths unsigned_of_nat take_bit_nat_eq_self)
  have p: "p = unat (type_offs ?b ! (unat (nr_types ?b) - 1))" using last by (simp add: last_at_def)
  have add: "member_added xs info' ?b (mb w2)"
    unfolding member_added_def Let_def p[symmetric] using tl' m room by (simp add: w2_def btf_grow_def)
  have "info_size info' = info_size info + 4 * int (length xs)"
    using info_size_member[OF k(1) refl v] k(2) by (simp add: info'_def)
  then have "layer_wf (mb w2)" by (rule member_added_wf[OF wf add last])
  then have "mb_ok w2" using ok m(1) by (simp add: mb_ok_def Let_def w2_def btf_grow_def)
  then show ?thesis using step add by (auto simp: info'_def w2_def)
qed

lemma new_member_ok:
  assumes ok: "ws_ok (w # base)" and nm: "name_ok name" and last: "last_at (mb w) p info"
    and k: "has_members (BTF_INFO_KIND info)" "member_size (BTF_INFO_KIND info) = 4 * l" "\<And>off. length (mk off) = l"
    and v: "unat (BTF_INFO_VLEN info) < 65535"
  obtains r w' base' where "new_member M name (4 * l) mk bitfield (w # base) = Inr (r, w' # base')" "ws_ok (w' # base')" "below base base'"
    "r < 0 \<and> extends (mb w) (mb w') \<or>
     r = 0 \<and> (\<exists>off b1. extends (mb w) b1 \<and> name_at (List.map mb (w' # base')) name off \<and>
       member_added (mk off) (btf_type_info (BTF_INFO_KIND info) (BTF_INFO_VLEN info + 1)
         (if bitfield \<or> BTF_INFO_KFLAG info \<noteq> 0 then 1 else 0)) b1 (mb w'))"
proof -
  let ?fill = "\<lambda>off w. rbind (put_words (mk off) w) (\<lambda>w. rbind (btf_last_type (mb w)) (\<lambda>pos. rbind (btf_type_inc_vlen bitfield pos w)
      (\<lambda>w. Inr (0 :: int, w\<lparr>mb := btf_grow (mb w) (4 * l)\<rparr>))))"
  let ?i = "btf_type_info (BTF_INFO_KIND info) (BTF_INFO_VLEN info + 1) (if bitfield \<or> BTF_INFO_KFLAG info \<noteq> 0 then 1 else 0)"
  let ?Q = "\<lambda>off w1 r w2. r = 0 \<and> member_added (mk off) ?i (mb w1) (mb w2)"
  have wf: "layer_wf (mb w)" using ws_ok_mb[OF ok] by (simp add: mb_ok_def Let_def)
  have fill: "\<exists>r w2. ?fill off w1 = Inr (r, w2) \<and> mb_ok w2 \<and> start_id (mb w2) = start_id (mb w1) \<and> strs_data (mb w2) = strs_data (mb w1) \<and>
      start_str_off (mb w2) = start_str_off (mb w1) \<and> h_str_len (hdr (mb w2)) = h_str_len (hdr (mb w1)) \<and> ?Q off w1 r w2"
    if w1: "mb_ok w1" "mb_split w1" "extends (mb w) (mb w1)" "unat (h_type_len (hdr (mb w1))) + 4 * l \<le> length (types_data (mb w1))" for off w1
  proof -
    have last1: "last_at (mb w1) p info" by (rule extends_last[OF wf w1(3) last])
    have len: "unat (h_type_len (hdr (mb w1))) + 4 * length (mk off) \<le> length (types_data (mb w1))"
      "member_size (BTF_INFO_KIND info) = 4 * length (mk off)" using w1(4) k(2,3) by simp_all
    obtain w2 where f: "?fill off w1 = Inr (0, w2)" "mb_ok w2" "member_added (mk off) ?i (mb w1) (mb w2)"
      using member_fill_ok[OF w1(1,2) len(1) last1 k(1) len(2) v, of bitfield, unfolded k(3)] by (elim exE conjE) (rule that)
    have "start_id (mb w2) = start_id (mb w1) \<and> strs_data (mb w2) = strs_data (mb w1) \<and>
        start_str_off (mb w2) = start_str_off (mb w1) \<and> h_str_len (hdr (mb w2)) = h_str_len (hdr (mb w1))"
      using f(3) by (auto simp: member_added_def Let_def btf_grow_def)
    then show ?thesis using f by blast
  qed
  show thesis
  proof (rule with_room_ok[OF ok nm, of "4 * l" ?fill ?Q M])
    fix r w' base' assume r: "with_room M (4 * l) name ?fill (w # base) = Inr (r, w' # base')"
      "ws_ok (w' # base')" "below base base'"
      and q: "r < 0 \<and> extends (mb w) (mb w') \<or>
        (\<exists>off w1. extends (mb w) (mb w1) \<and> name_at (List.map mb (w' # base')) name off \<and> ?Q off w1 r w')"
    have "new_member M name (4 * l) mk bitfield (w # base) = Inr (r, w' # base')" using r(1) by (simp add: new_member_def)
    then show thesis using r(2,3) q that[of r w' base'] by blast
  qed (rule fill)
qed

section \<open>Overwriting the last type\<close>

lemma type_added_last:
  assumes len: "unat (h_type_len (hdr b)) \<le> length (types_data b)" and add: "type_added xs b b'" and xs: "3 \<le> length xs"
  shows "last_at b' (unat (h_type_len (hdr b))) (xs ! 1)"
    and "j < length xs \<Longrightarrow> ld32 (types_data b') (unat (h_type_len (hdr b)) + 4 * j) = Inr (xs ! j)"
proof -
  let ?tl = "unat (h_type_len (hdr b))" and ?n = "4 * length xs"
  note a = add[unfolded type_added_def Let_def]
  have l: "length (take ?tl (types_data b)) = ?tl" using len by simp
  show word: "ld32 (types_data b') (?tl + 4 * j) = Inr (xs ! j)" if j: "j < length xs" for j
  proof -
    have "ld32 (types_data b') (?tl + 4 * j) = ld32 (take ?tl (types_data b) @ word_bytes_of xs) (?tl + 4 * j)"
      using a l j by (intro ld32_take_cong[of "?tl + ?n"]) (simp_all add: add.assoc)
    also have "\<dots> = ld32 (word_bytes_of xs) (4 * j)" by (rule ld32_skip[OF l])
    finally show ?thesis using ld32_words[OF j, of "[]"] by simp
  qed
  have "t_info (drop ?tl (types_data b')) = ld32 (types_data b') (?tl + 4 * 1)" using a by (simp add: t_info_def ld32_drop)
  then have "t_info (drop ?tl (types_data b')) = Inr (xs ! 1)" using word[of 1] xs by simp
  moreover have "nr_types b' \<noteq> 0" "unat (nr_types b') - 1 = unat (nr_types b)" using a by auto
  ultimately show "last_at b' ?tl (xs ! 1)" using a by (simp add: last_at_def)
qed

text \<open>The word with the kind of the last type is replaced by one for a type of the same size.\<close>

lemma set_info_ok:
  assumes ok: "mb_ok w" and last: "last_at (mb w) p info" and size: "info_size info' = info_size info"
  obtains w' where "set_info p info' w = Inr w'" "mb_ok w'" "mb_split w' = mb_split w" "member_added [] info' (mb w) (mb w')"
proof -
  let ?b = "mb w" and ?tl = "unat (h_type_len (hdr (mb w)))"
  have wf: "layer_wf ?b" using ok by (simp add: mb_ok_def Let_def)
  have nz: "nr_types ?b \<noteq> 0" using last by (simp add: last_at_def)
  obtain p' info0 where l: "last_at ?b p' info0" "12 \<le> info_size info0" "p' + nat (info_size info0) = ?tl"
    by (rule last_atE[OF wf nz])
  have "p' = p" using l(1) last by (simp add: last_at_def)
  then have pt: "p + 12 \<le> ?tl" using l(2,3) by simp
  define m where "m = take (p + 4) (types_data ?b) @ bytes32 info' @ drop (p + 8) (types_data ?b)"
  define w' where "w' = w\<lparr>mb := ?b\<lparr>types_data := m\<rparr>\<rparr>"
  have lm: "length m = length (types_data ?b)"
      "take ?tl m = take (p + 4) (types_data ?b) @ bytes32 info' @ take (?tl - (p + 8)) (drop (p + 8) (types_data ?b))"
    using pt wf by (simp_all add: m_def min_def layer_wf_def add.commute)
  have "st32 (types_data ?b) (p + 4) info' = Inr m"
    using pt wf by (simp add: st32_def stn_def m_def layer_wf_def add.assoc)
  then have set: "set_info p info' w = Inr w'" by (simp add: set_info_def w'_def)
  have p: "p = unat (type_offs ?b ! (unat (nr_types ?b) - 1))" using last by (simp add: last_at_def)
  have add: "member_added [] info' ?b (mb w')"
    unfolding member_added_def Let_def p[symmetric] using lm wf by (simp add: w'_def btf_grow_def layer_wf_def)
  have "layer_wf (mb w')" using size by (intro member_added_wf[OF wf add last]) simp
  then have "mb_ok w'" using ok lm(1) by (simp add: mb_ok_def Let_def w'_def)
  then show thesis using set add by (intro that[of w']) (simp_all add: w'_def)
qed

section \<open>The functions that build\<close>

text \<open>An object in the form that the library gives it: the sections follow each other, and the strings start with the empty one.\<close>

definition canonical :: "btf \<Rightarrow> bool" where
  "canonical b \<longleftrightarrow>
     (let h = hdr b in
      h_magic h = BTF_MAGIC \<and> h_hdr_len h = 24 \<and> h_type_off h = 0 \<and> h_str_off h = h_type_len h \<and> 0 < h_str_len h \<and>
      strs_data b ! 0 = 0 \<and> raw_data_swapped b = None)"

lemma canonical_extends: "extends b b' \<Longrightarrow> canonical b \<Longrightarrow> canonical b'"
proof -
  assume e: "extends b b'" and c: "canonical b"
  have n: "0 < unat (h_str_len (hdr b))" using c by (simp add: canonical_def Let_def word_less_nat_alt)
  have "strs_data b' ! 0 = take (unat (h_str_len (hdr b))) (strs_data b') ! 0" using n by simp
  also have "\<dots> = strs_data b ! 0" using e n by (simp add: extends_def)
  finally have z: "strs_data b' ! 0 = 0" using c by (simp add: canonical_def Let_def)
  have "0 < h_str_len (hdr b')" "raw_data_swapped b' = None"
    using e c by (auto simp: extends_def canonical_def Let_def intro: order.strict_trans2)
  then show ?thesis using c extends_hdr[OF e] z by (simp add: canonical_def Let_def)
qed

lemma canonical_added:
  "type_added xs b b' \<Longrightarrow> canonical b \<Longrightarrow> canonical b'"
  "member_added xs info b b' \<Longrightarrow> canonical b \<Longrightarrow> canonical b'"
  by (auto simp: type_added_def member_added_def canonical_def Let_def btf_grow_def)

text \<open>What every function that builds does: it returns, and keeps the objects well formed, the objects below as they are and the
  form.\<close>

definition kept :: "mbtf list \<Rightarrow> mbtf list \<Rightarrow> bool" where
  "kept ws ws' \<longleftrightarrow> ws' \<noteq> [] \<and> below (tl ws) (tl ws') \<and> (canonical (mb (hd ws)) \<longrightarrow> canonical (mb (hd ws')))"

definition good :: "mbtf list \<Rightarrow> (int \<times> mbtf list) res \<Rightarrow> bool" where
  "good ws x \<longleftrightarrow> (\<exists>r ws'. x = Inr (r, ws') \<and> ws_ok ws' \<and> kept ws ws')"

lemma ws_ok_Cons: "ws_ok ws \<Longrightarrow> \<exists>w base. ws = w # base"
  by (cases ws) (auto simp: ws_ok_def)

lemma good_refuse: "ws_ok ws \<Longrightarrow> good ws (Inr (r, ws))"
  using ws_ok_Cons[of ws] by (auto simp: good_def kept_def below_refl)

lemma good_add_str:
  assumes "ws_ok ws" "0 \<notin> set s"
  shows "good ws (btf__add_str M ws s)"
proof -
  obtain r ws' where a: "btf__add_str M ws s = Inr (r, ws')" "ws_ok ws'" "grown ws ws'" using add_str_ok[OF assms, of M] by blast
  then have "kept ws ws'" by (auto simp: kept_def grown_def below_def intro: canonical_extends)
  then show ?thesis using a by (auto simp: good_def)
qed

lemma good_new_type:
  assumes "ws_ok ws" "name_ok name" "info_size info = 12 + 4 * int (length extra)"
  shows "good ws (new_type M name info ty extra ws)"
proof -
  obtain w base where ws: "ws = w # base" using ws_ok_Cons[OF assms(1)] by blast
  obtain r w' base' where n: "new_type M name info ty extra (w # base) = Inr (r, w' # base')" "ws_ok (w' # base')" "below base base'"
    "r < 0 \<and> extends (mb w) (mb w') \<or>
     (\<exists>off b1. extends (mb w) b1 \<and> name_at (List.map mb (w' # base')) name off \<and> type_added (off # info # ty # extra) b1 (mb w') \<and>
        r = new_id (mb w'))"
    using new_type_ok[OF assms(1)[unfolded ws] assms(2,3), of M ty] by blast
  then have "kept ws (w' # base')" using ws by (auto simp: kept_def intro: canonical_extends canonical_added)
  then show ?thesis using n ws by (auto simp: good_def)
qed

lemma good_new_member:
  assumes "ws_ok (w # base)" "name_ok name" "last_at (mb w) p info"
    and "has_members (BTF_INFO_KIND info)" "member_size (BTF_INFO_KIND info) = 4 * l" "\<And>off. length (mk off) = l"
    and "unat (BTF_INFO_VLEN info) < 65535"
  shows "good (w # base) (new_member M name (4 * l) mk bitfield (w # base))"
proof -
  obtain r w' base' where n: "new_member M name (4 * l) mk bitfield (w # base) = Inr (r, w' # base')" "ws_ok (w' # base')" "below base base'"
     "r < 0 \<and> extends (mb w) (mb w') \<or>
      r = 0 \<and> (\<exists>off b1. extends (mb w) b1 \<and> name_at (List.map mb (w' # base')) name off \<and>
        member_added (mk off) (btf_type_info (BTF_INFO_KIND info) (BTF_INFO_VLEN info + 1)
          (if bitfield \<or> BTF_INFO_KFLAG info \<noteq> 0 then 1 else 0)) b1 (mb w'))"
    by (rule new_member_ok[OF assms, where bitfield = bitfield and M = M])
  from n(4) have "canonical (mb w) \<longrightarrow> canonical (mb w')" using canonical_extends canonical_added(2) by blast
  then have "kept (w # base) (w' # base')" using n(3) by (simp add: kept_def)
  then show ?thesis using n(1,2) unfolding good_def by blast
qed

text \<open>The kinds whose types have no data of their own.\<close>

lemma plain_info:
  assumes "k \<in> {BTF_KIND_FWD, BTF_KIND_CONST, BTF_KIND_VOLATILE, BTF_KIND_RESTRICT, BTF_KIND_PTR, BTF_KIND_TYPEDEF, BTF_KIND_FUNC}"
    and "v < 65536" "f < 2"
  shows "info_size (btf_type_info k v f) = 12"
proof -
  have "k < 16" using assms(1) by auto
  from info_fields[OF this assms(3,2)] show ?thesis using assms(1) by (auto simp: info_size_def Let_def)
qed

lemma empty_info:
  "k \<in> {BTF_KIND_STRUCT, BTF_KIND_UNION, BTF_KIND_ENUM, BTF_KIND_FUNC_PROTO, BTF_KIND_DATASEC} \<Longrightarrow> info_size (btf_type_info k 0 0) = 12"
  "k \<in> {BTF_KIND_INT, BTF_KIND_VAR} \<Longrightarrow> info_size (btf_type_info k 0 0) = 16"
  "info_size (btf_type_info BTF_KIND_ARRAY 0 0) = 24"
  using info_fields[of k 0 0] info_fields[of BTF_KIND_ARRAY 0 0] by (auto simp: info_size_def Let_def)

text \<open>The check of the last type, and the room for one more member.\<close>

definition vlen_room :: "mbtf list \<Rightarrow> bool" where
  "vlen_room ws \<longleftrightarrow>
     (case ws of
        [] \<Rightarrow> True
      | w # _ \<Rightarrow>
          if nr_types (mb w) = 0 then True
          else
            (case rbind (btf_last_type (mb w)) (\<lambda>pos. btf_vlen (drop pos (types_data (mb w)))) of
               Inl _ \<Rightarrow> True | Inr v \<Rightarrow> int v < 65535))"

lemma last_is_ok:
  assumes "ws_ok (w # base)"
  obtains "\<And>K. last_is K (w # base) = Inr False"
  | info p where "last_at (mb w) p info" "\<And>K. last_is K (w # base) = Inr (BTF_INFO_KIND info \<in> K)"
      "vlen_room (w # base) \<longleftrightarrow> unat (BTF_INFO_VLEN info) < 65535"
proof (cases "nr_types (mb w) = 0")
  case True
  then show thesis using that(1) by (simp add: last_is_def)
next
  case False
  have wf: "layer_wf (mb w)" using ws_ok_mb[OF assms] by (simp add: mb_ok_def Let_def)
  obtain p info where l: "last_at (mb w) p info" by (rule last_atE[OF wf False])
  have "btf_vlen (drop p (types_data (mb w))) = Inr (unat (BTF_INFO_VLEN info))" using l by (auto simp: last_at_def btf_vlen_def)
  moreover have "int (unat (BTF_INFO_VLEN info)) < 65535 \<longleftrightarrow> unat (BTF_INFO_VLEN info) < 65535" by linarith
  ultimately show thesis
    using that(2)[OF l] False last_kind_at[OF wf l] last_type_pos[OF wf l] by (simp add: last_is_def vlen_room_def del: of_nat_unat)
qed

text \<open>What holds of a refusal and of a member that is added to the last type holds of the functions that add members.\<close>

definition for_members :: "((int \<times> mbtf list) res \<Rightarrow> bool) \<Rightarrow> memory \<Rightarrow> u8 list option \<Rightarrow> mbtf list \<Rightarrow> bool" where
  "for_members P M name ws \<longleftrightarrow>
     (\<forall>r. P (Inr (r, ws))) \<and>
     (\<forall>w base p info l mk bitfield. ws = w # base \<longrightarrow> last_at (mb w) p info \<longrightarrow> has_members (BTF_INFO_KIND info) \<longrightarrow>
        member_size (BTF_INFO_KIND info) = 4 * l \<longrightarrow> (\<forall>off. length (mk off) = l) \<longrightarrow> P (new_member M name (4 * l) mk bitfield ws))"

lemma for_members_refuse: "for_members P M name ws \<Longrightarrow> P (Inr (r, ws))"
  by (simp add: for_members_def)

lemma on_last:
  assumes ok: "ws_ok ws" and P: "for_members P M name ws"
    and K: "K \<subseteq> {k. has_members k \<and> member_size k = 4 * l}" "\<And>off. length (mk off) = l"
  obtains "\<And>K'. last_is K' ws = Inr False"
  | k where "\<And>K'. last_is K' ws = Inr (k \<in> K')" "k \<in> K \<Longrightarrow> P (new_member M name (4 * l) mk bitfield ws)"
proof -
  obtain w base where ws: "ws = w # base" using ws_ok_Cons[OF ok] by blast
  show thesis
  proof (cases rule: last_is_ok[OF ok[unfolded ws]])
    case 1
    then show thesis using that(1) ws by simp
  next
    case (2 info p)
    have "P (new_member M name (4 * l) mk bitfield ws)" if "BTF_INFO_KIND info \<in> K"
      using that K P ws 2(1) unfolding for_members_def by blast
    then show thesis using that(2) 2(2) ws by simp
  qed
qed

lemma last_at_unique: "last_at b p info \<Longrightarrow> last_at b p' info' \<Longrightarrow> p' = p \<and> info' = info"
  by (auto simp: last_at_def)

lemma for_members_good:
  assumes ok: "ws_ok ws" "vlen_room ws" and nm: "name_ok name"
  shows "for_members (good ws) M name ws"
proof -
  have "good ws (new_member M name (4 * l) mk bitfield ws)"
    if ws: "ws = w # base" and a: "last_at (mb w) p info" "has_members (BTF_INFO_KIND info)"
      "member_size (BTF_INFO_KIND info) = 4 * l" "\<forall>off. length (mk off) = l" for w base p info l mk bitfield
  proof (cases rule: last_is_ok[OF ok(1)[unfolded ws]])
    case 1
    have "nr_types (mb w) \<noteq> 0" using a(1) by (simp add: last_at_def)
    then show ?thesis using 1[of UNIV] last_kind_at[OF _ a(1)] ws_ok_mb[of w base] ok(1) ws
      by (simp add: last_is_def mb_ok_def Let_def)
  next
    case (2 info' p')
    then have "unat (BTF_INFO_VLEN info) < 65535" using last_at_unique[OF a(1)] ok(2) ws by blast
    then show ?thesis unfolding ws by (intro good_new_member[OF ok(1)[unfolded ws] nm a(1-3)]) (use a(4) in auto)
  qed
  then show ?thesis using good_refuse[OF ok(1)] unfolding for_members_def by blast
qed

text \<open>Nothing faults, also when the last type has all the members it can have.\<close>

definition returns :: "mbtf list \<Rightarrow> (int \<times> mbtf list) res \<Rightarrow> bool" where
  "returns ws x \<longleftrightarrow> (\<exists>r ws'. x = Inr (r, ws') \<and> length ws' = length ws)"

lemma good_returns: "ws_ok ws \<Longrightarrow> good ws x \<Longrightarrow> returns ws x"
  using ws_ok_Cons[of ws] unfolding good_def returns_def kept_def below_def
  by (metis list.sel(3) list_all2_lengthD length_Cons list.exhaust_sel)

lemma for_members_returns:
  assumes ok: "ws_ok ws" and nm: "name_ok name"
  shows "for_members (returns ws) M name ws"
proof -
  have "returns ws (new_member M name (4 * l) mk bitfield ws)"
    if ws: "ws = w # base" and last: "last_at (mb w) p info" and mk: "\<forall>off. length (mk off) = l" for w base p info l mk bitfield
  proof -
    have wf: "layer_wf (mb w)" using ws_ok_mb[of w base] ok ws by (simp add: mb_ok_def Let_def)
    have fill: "\<exists>r w2. rbind (put_words (mk off) w1) (\<lambda>w. rbind (btf_last_type (mb w)) (\<lambda>pos. rbind (btf_type_inc_vlen bitfield pos w)
        (\<lambda>w. Inr (0 :: int, w\<lparr>mb := btf_grow (mb w) (4 * l)\<rparr>)))) = Inr (r, w2)"
      if "mb_ok w1" "extends (mb w) (mb w1)" "unat (h_type_len (hdr (mb w1))) + 4 * l \<le> length (types_data (mb w1))" for off w1
      using member_fill_step[OF that(1) _ extends_last[OF wf that(2) last], of "mk off" bitfield] that(3) mk by metis
    then show ?thesis
      unfolding new_member_def ws returns_def by (intro with_room_returns[OF ok[unfolded ws] nm] fill)
  qed
  then show ?thesis unfolding for_members_def by (simp add: returns_def)
qed

text \<open>One function after the other.\<close>

lemma good_ref_kind:
  assumes "ws_ok ws" "name_ok name"
    and "k \<in> {BTF_KIND_FWD, BTF_KIND_CONST, BTF_KIND_VOLATILE, BTF_KIND_RESTRICT, BTF_KIND_PTR, BTF_KIND_TYPEDEF, BTF_KIND_FUNC}"
  shows "good ws (btf_add_ref_kind M ws k name ref)"
  using good_new_type[OF assms(1,2), of _ "[]"] plain_info[OF assms(3), of 0 0] good_refuse[OF assms(1)]
  by (simp add: btf_add_ref_kind_def)

lemma good_add_int: "ws_ok ws \<Longrightarrow> name_ok name \<Longrightarrow> good ws (btf__add_int M ws name byte_sz encoding)"
  using good_new_type[of ws name "btf_type_info BTF_KIND_INT 0 0" "[_]"] empty_info(2)[of BTF_KIND_INT] good_refuse
  by (simp add: btf__add_int_def)

lemma good_add_refs:
  assumes "ws_ok ws"
  shows "good ws (btf__add_ptr M ws ref)" "good ws (btf__add_volatile M ws ref)" "good ws (btf__add_const M ws ref)"
    "good ws (btf__add_restrict M ws ref)" "name_ok name \<Longrightarrow> good ws (btf__add_typedef M ws name ref)"
  using good_ref_kind[OF assms] good_refuse[OF assms]
  by (simp_all add: btf__add_ptr_def btf__add_volatile_def btf__add_const_def btf__add_restrict_def btf__add_typedef_def name_ok_def)

lemma good_add_array: "ws_ok ws \<Longrightarrow> good ws (btf__add_array M ws i e n)"
  using good_new_type[of ws None "btf_type_info BTF_KIND_ARRAY 0 0" "[_, _, _]"] empty_info(3) good_refuse
  by (simp add: btf__add_array_def name_ok_def)

lemma good_add_composites:
  assumes "ws_ok ws"
  shows "name_ok name \<Longrightarrow> good ws (btf__add_struct M ws name byte_sz)" "name_ok name \<Longrightarrow> good ws (btf__add_union M ws name byte_sz)"
    "name_ok name \<Longrightarrow> good ws (btf__add_enum M ws name byte_sz)" "good ws (btf__add_func_proto M ws ref)"
    "name_ok name \<Longrightarrow> good ws (btf__add_datasec M ws name byte_sz)"
  using good_new_type[OF assms, of name _ "[]"] good_new_type[OF assms, of None _ "[]"] empty_info(1) good_refuse[OF assms]
  by (simp_all add: btf__add_struct_def btf__add_union_def btf_add_composite_def btf__add_enum_def btf__add_func_proto_def
      btf__add_datasec_def name_ok_def)

lemma good_add_var: "ws_ok ws \<Longrightarrow> name_ok name \<Longrightarrow> good ws (btf__add_var M ws name linkage ref)"
  using good_new_type[of ws name "btf_type_info BTF_KIND_VAR 0 0" "[_]"] empty_info(2)[of BTF_KIND_VAR] good_refuse
  by (simp add: btf__add_var_def)

lemma on_add_field:
  assumes ok: "ws_ok ws" and P: "for_members P M name ws"
  shows "P (btf__add_field M ws name ref bit_offset bit_size)"
proof -
  let ?mk = "\<lambda>off. [off, word_of_int ref, bit_offset OR push_bit 24 bit_size]"
  have K: "{BTF_KIND_STRUCT, BTF_KIND_UNION} \<subseteq> {k. has_members k \<and> member_size k = 4 * 3}"
    by (auto simp: has_members_def member_size_def)
  show ?thesis
  proof (rule on_last[OF ok P K, where mk = ?mk and bitfield = "bit_size \<noteq> 0 \<or> bit_offset mod 8 \<noteq> 0"])
    assume "\<And>K'. last_is K' ws = Inr False"
    then show ?thesis using for_members_refuse[OF P] by (simp add: btf__add_field_def)
  next
    fix k assume a: "\<And>K'. last_is K' ws = Inr (k \<in> K')"
      "k \<in> {BTF_KIND_STRUCT, BTF_KIND_UNION} \<Longrightarrow>
        P (new_member M name (4 * 3) ?mk (bit_size \<noteq> 0 \<or> bit_offset mod 8 \<noteq> 0) ws)"
    define N where "N = new_member M name 12 ?mk (bit_size \<noteq> 0 \<or> bit_offset mod 8 \<noteq> 0) ws"
    have "k \<in> {BTF_KIND_STRUCT, BTF_KIND_UNION} \<Longrightarrow> P N" using a(2) by (simp add: N_def)
    then show ?thesis using for_members_refuse[OF P]
      unfolding btf__add_field_def Let_def a(1) rbind_Inr N_def[symmetric] by simp
  qed simp
qed

lemma on_add_enum_value:
  assumes ok: "ws_ok ws" and P: "for_members P M name ws"
  shows "P (btf__add_enum_value M ws name value)"
proof -
  let ?mk = "\<lambda>off. [off, word_of_int value]"
  have K: "{BTF_KIND_ENUM} \<subseteq> {k. has_members k \<and> member_size k = 4 * 2}" by (simp add: has_members_def member_size_def)
  show ?thesis
  proof (rule on_last[OF ok P K, where mk = ?mk and bitfield = False])
    assume "\<And>K'. last_is K' ws = Inr False"
    then show ?thesis using for_members_refuse[OF P] by (simp add: btf__add_enum_value_def)
  next
    fix k assume "\<And>K'. last_is K' ws = Inr (k \<in> K')"
      and "k \<in> {BTF_KIND_ENUM} \<Longrightarrow> P (new_member M name (4 * 2) ?mk False ws)"
    then show ?thesis using for_members_refuse[OF P] by (simp add: btf__add_enum_value_def)
  qed simp
qed

lemma on_add_func_param:
  assumes ok: "ws_ok ws" and P: "for_members P M name ws"
  shows "P (btf__add_func_param M ws name ref)"
proof -
  let ?mk = "\<lambda>off. [off, word_of_int ref]"
  have K: "{BTF_KIND_FUNC_PROTO} \<subseteq> {k. has_members k \<and> member_size k = 4 * 2}" by (simp add: has_members_def member_size_def)
  show ?thesis
  proof (rule on_last[OF ok P K, where mk = ?mk and bitfield = False])
    assume "\<And>K'. last_is K' ws = Inr False"
    then show ?thesis using for_members_refuse[OF P] by (simp add: btf__add_func_param_def)
  next
    fix k assume "\<And>K'. last_is K' ws = Inr (k \<in> K')"
      and "k \<in> {BTF_KIND_FUNC_PROTO} \<Longrightarrow> P (new_member M name (4 * 2) ?mk False ws)"
    then show ?thesis using for_members_refuse[OF P] by (simp add: btf__add_func_param_def)
  qed simp
qed

lemma on_add_var_info:
  assumes ok: "ws_ok ws" and P: "for_members P M None ws"
  shows "P (btf__add_datasec_var_info M ws ref offset byte_sz)"
proof -
  let ?mk = "\<lambda>off :: u32. [word_of_int ref, offset, byte_sz]"
  have K: "{BTF_KIND_DATASEC} \<subseteq> {k. has_members k \<and> member_size k = 4 * 3}" by (simp add: has_members_def member_size_def)
  show ?thesis
  proof (rule on_last[OF ok P K, where mk = ?mk and bitfield = False])
    assume "\<And>K'. last_is K' ws = Inr False"
    then show ?thesis using for_members_refuse[OF P] by (simp add: btf__add_datasec_var_info_def)
  next
    fix k assume "\<And>K'. last_is K' ws = Inr (k \<in> K')"
      and "k \<in> {BTF_KIND_DATASEC} \<Longrightarrow> P (new_member M None (4 * 3) ?mk False ws)"
    then show ?thesis using for_members_refuse[OF P] by (simp add: btf__add_datasec_var_info_def)
  qed simp
qed

text \<open>A type whose word with the kind is replaced after it was added.\<close>

lemma new_id_word: "(word_of_int (new_id b) :: u32) = btf__get_nr_types b"
  by (simp add: new_id_def btf__get_nr_types_def)

lemma good_set_new_info:
  assumes ok: "ws_ok ws" "name_ok name"
    and k: "k \<in> {BTF_KIND_FWD, BTF_KIND_CONST, BTF_KIND_VOLATILE, BTF_KIND_RESTRICT, BTF_KIND_PTR, BTF_KIND_TYPEDEF, BTF_KIND_FUNC}"
    and v: "v < 65536" "f < 2"
  shows "good ws (rbind (btf_add_ref_kind M ws k name ref) (set_new_info (btf_type_info k v f)))"
proof (cases "validate_type_id ref")
  case False
  then show ?thesis using good_refuse[OF ok(1)] by (simp add: btf_add_ref_kind_def set_new_info_def)
next
  case True
  obtain w base where ws: "ws = w # base" using ws_ok_Cons[OF ok(1)] by blast
  let ?info = "btf_type_info k 0 0" and ?info' = "btf_type_info k v f"
  obtain r w' base' where n: "new_type M name ?info (word_of_int ref) [] (w # base) = Inr (r, w' # base')" "ws_ok (w' # base')"
      "below base base'" "r < 0 \<and> extends (mb w) (mb w') \<or>
       (\<exists>off b1. extends (mb w) b1 \<and> name_at (List.map mb (w' # base')) name off \<and>
          type_added (off # ?info # word_of_int ref # []) b1 (mb w') \<and> r = new_id (mb w'))"
    by (rule new_type_ok[OF ok(1)[unfolded ws] ok(2), of ?info "[]" M "word_of_int ref"]) (simp add: plain_info[OF k])
  have add: "btf_add_ref_kind M ws k name ref = Inr (r, w' # base')" using True n(1) ws by (simp add: btf_add_ref_kind_def)
  have kept: "kept ws (w' # base')" using n(3,4) ws by (auto simp: kept_def intro: canonical_extends canonical_added)
  show ?thesis
  proof (cases "r \<le> 0")
    case True
    then show ?thesis using add n(2) kept by (auto simp: good_def set_new_info_def)
  next
    case False
    then obtain off b1 where a: "extends (mb w) b1" "type_added [off, ?info, word_of_int ref] b1 (mb w')" "r = new_id (mb w')"
      using n(4) by auto
    have ok': "mb_ok w'" "layer_wf (mb w')" using ws_ok_mb[OF n(2)] by (simp_all add: mb_ok_def Let_def)
    obtain p where last: "last_at (mb w') p ?info"
      using type_added_last(1)[OF _ a(2)] a(1) extends_hdr(1)[OF a(1)] by (auto simp: extends_def)
    have pos: "type_pos (mb w') (word_of_int r) = Inr p"
      using last_type_pos[OF ok'(2) last] a(3) by (simp add: btf_last_type_def new_id_word)
    obtain w2 where w2: "set_info p ?info' w' = Inr w2" "mb_ok w2" "member_added [] ?info' (mb w') (mb w2)"
      using set_info_ok[OF ok'(1) last, of ?info'] plain_info[OF k, of 0 0] plain_info[OF k v] by auto
    have "ws_ok (w2 # base')" by (rule ws_ok_top[OF n(2) w2(2)]) (use w2(3) in \<open>auto simp: member_added_def Let_def\<close>)
    moreover have "kept ws (w2 # base')" using kept canonical_added(2)[OF w2(3)] by (simp add: kept_def)
    moreover have "rbind (btf_add_ref_kind M ws k name ref) (set_new_info ?info') = Inr (r, w2 # base')"
      using add False pos w2(1) by (simp add: set_new_info_def on_top_def)
    ultimately show ?thesis unfolding good_def by blast
  qed
qed

end
