(* ===== verification/Libbpf_Btf_Built.thy ===== *)
theory Libbpf_Btf_Built
  imports Libbpf_Btf_Build
begin

text \<open>
  Objects that are built by calls of the functions of \<open>Libbpf_Btf_Write\<close> on an empty object, in any order: no call
  faults, every object is well formed, and what was built is written in the other byte order and read back.
\<close>

section \<open>Calls\<close>

datatype build_op =
    Add_Str "u8 list" | Add_Int "u8 list option" u64 u32 | Add_Ptr int | Add_Volatile int | Add_Const int | Add_Restrict int
  | Add_Typedef "u8 list option" int | Add_Array int int u32 | Add_Struct "u8 list option" u32 | Add_Union "u8 list option" u32
  | Add_Enum "u8 list option" u32 | Add_Func_Proto int | Add_Var "u8 list option" int int | Add_Datasec "u8 list option" u32
  | Add_Fwd "u8 list option" nat | Add_Func "u8 list option" nat int | Add_Field "u8 list option" int u32 u32
  | Add_Enum_Value "u8 list option" int | Add_Func_Param "u8 list option" int | Add_Var_Info int u32 u32

fun build :: "memory \<Rightarrow> build_op \<Rightarrow> mbtf list \<Rightarrow> (int \<times> mbtf list) res" where
  "build M (Add_Str s) ws = btf__add_str M ws s"
| "build M (Add_Int name byte_sz encoding) ws = btf__add_int M ws name byte_sz encoding"
| "build M (Add_Ptr ref) ws = btf__add_ptr M ws ref"
| "build M (Add_Volatile ref) ws = btf__add_volatile M ws ref"
| "build M (Add_Const ref) ws = btf__add_const M ws ref"
| "build M (Add_Restrict ref) ws = btf__add_restrict M ws ref"
| "build M (Add_Typedef name ref) ws = btf__add_typedef M ws name ref"
| "build M (Add_Array index_id elem_id nr_elems) ws = btf__add_array M ws index_id elem_id nr_elems"
| "build M (Add_Struct name byte_sz) ws = btf__add_struct M ws name byte_sz"
| "build M (Add_Union name byte_sz) ws = btf__add_union M ws name byte_sz"
| "build M (Add_Enum name byte_sz) ws = btf__add_enum M ws name byte_sz"
| "build M (Add_Func_Proto ref) ws = btf__add_func_proto M ws ref"
| "build M (Add_Var name linkage ref) ws = btf__add_var M ws name linkage ref"
| "build M (Add_Datasec name byte_sz) ws = btf__add_datasec M ws name byte_sz"
| "build M (Add_Fwd name fwd_kind) ws = btf__add_fwd M ws name fwd_kind"
| "build M (Add_Func name linkage ref) ws = btf__add_func M ws name linkage ref"
| "build M (Add_Field name ref bit_offset bit_size) ws = btf__add_field M ws name ref bit_offset bit_size"
| "build M (Add_Enum_Value name value) ws = btf__add_enum_value M ws name value"
| "build M (Add_Func_Param name ref) ws = btf__add_func_param M ws name ref"
| "build M (Add_Var_Info ref offset byte_sz) ws = btf__add_datasec_var_info M ws ref offset byte_sz"

text \<open>The name that is given, and the calls that add a member.\<close>

fun op_name :: "build_op \<Rightarrow> u8 list option" where
  "op_name (Add_Str s) = Some s"
| "op_name (Add_Int name _ _) = name"
| "op_name (Add_Typedef name _) = name"
| "op_name (Add_Struct name _) = name"
| "op_name (Add_Union name _) = name"
| "op_name (Add_Enum name _) = name"
| "op_name (Add_Var name _ _) = name"
| "op_name (Add_Datasec name _) = name"
| "op_name (Add_Fwd name _) = name"
| "op_name (Add_Func name _ _) = name"
| "op_name (Add_Field name _ _ _) = name"
| "op_name (Add_Enum_Value name _) = name"
| "op_name (Add_Func_Param name _) = name"
| "op_name _ = None"

fun is_member :: "build_op \<Rightarrow> bool" where
  "is_member (Add_Field _ _ _ _) \<longleftrightarrow> True"
| "is_member (Add_Enum_Value _ _) \<longleftrightarrow> True"
| "is_member (Add_Func_Param _ _) \<longleftrightarrow> True"
| "is_member (Add_Var_Info _ _ _) \<longleftrightarrow> True"
| "is_member _ \<longleftrightarrow> False"

text \<open>The calls whose effect is what the caller means: a name is a C string, and the type that gets a member has less than 65535 of
  them, as many as the 16 bits of the number of members can count. The code does not check the latter.\<close>

definition op_ok :: "build_op \<Rightarrow> mbtf list \<Rightarrow> bool" where
  "op_ok op ws \<longleftrightarrow> name_ok (op_name op) \<and> (if is_member op then vlen_room ws else True)"

lemma good_add_fwd: "ws_ok ws \<Longrightarrow> name_ok name \<Longrightarrow> good ws (btf__add_fwd M ws name fwd_kind)"
  using good_set_new_info[of ws name BTF_KIND_FWD 0 _ M 0] good_add_composites(3)[of ws name M 4] good_refuse
  by (simp add: btf__add_fwd_def)

lemma good_add_func:
  assumes "ws_ok ws" "name_ok name"
  shows "good ws (btf__add_func M ws name linkage ref)"
proof -
  have "(word_of_nat linkage :: u32) < 65536" if "linkage \<in> {0, 1, 2}" using that by auto
  then show ?thesis
    using good_set_new_info[OF assms, of BTF_KIND_FUNC "word_of_nat linkage" 0 M ref] good_refuse[OF assms(1)]
    by (simp add: btf__add_func_def)
qed

lemma build_member:
  "ws_ok ws \<Longrightarrow> for_members P M (op_name op) ws \<Longrightarrow> is_member op \<Longrightarrow> P (build M op ws)"
  by (cases op) (simp_all add: on_add_field on_add_enum_value on_add_func_param on_add_var_info)

lemma build_other:
  "ws_ok ws \<Longrightarrow> name_ok (op_name op) \<Longrightarrow> \<not> is_member op \<Longrightarrow> good ws (build M op ws)"
  by (cases op)
    (simp_all add: good_add_int good_add_refs good_add_array good_add_composites good_add_var good_add_fwd good_add_func,
      simp add: good_add_str name_ok_def)

lemma build_good: "ws_ok ws \<Longrightarrow> op_ok op ws \<Longrightarrow> good ws (build M op ws)"
  using build_other[of ws op M] build_member[OF _ for_members_good, of ws op M] by (auto simp: op_ok_def split: if_splits)

lemma build_returns: "ws_ok ws \<Longrightarrow> name_ok (op_name op) \<Longrightarrow> returns ws (build M op ws)"
  using good_returns[OF _ build_other[of ws op M]] build_member[OF _ for_members_returns, of ws op M] by blast

text \<open>The objects that are built. A new object is empty; one may be based on what was built before.\<close>

inductive built :: "mbtf list \<Rightarrow> bool" where
  empty: "btf_new_empty True True [] = Inr [b] \<Longrightarrow> built [mb_wrap b]"
| split: "built [v] \<Longrightarrow> btf_new_empty True True [mb v] = Inr [b, mb v] \<Longrightarrow> built [mb_wrap b, v]"
| call: "built ws \<Longrightarrow> op_ok op ws \<Longrightarrow> build M op ws = Inr (r, ws') \<Longrightarrow> built ws'"

lemma empty_ok:
  assumes "btf_new_empty True True [] = Inr [b]"
  shows "ws_ok [mb_wrap b]" "canonical b"
  using assms by (auto simp: btf_new_empty_def Let_def canonical_def mb_wrap_def mb_ok_def layer_wf_def intro!: ws_ok_1)

lemma split_ok:
  assumes ok: "ws_ok [v]" and b: "btf_new_empty True True [mb v] = Inr [b, mb v]"
  shows "ws_ok [mb_wrap b, v]"
proof -
  have v: "mb_ok v" "start_id (mb v) = 1" "start_str_off (mb v) = 0" using ok by (simp_all add: ws_ok_def)
  then have n: "unat (nr_types (mb v)) \<le> 0x7fffffff" "unat (h_str_len (hdr (mb v))) \<le> 2 ^ 31"
    by (auto simp: mb_ok_def Let_def layer_wf_def)
  then have id: "unat (nr_types (mb v) + 1) = unat (nr_types (mb v)) + 1" by (simp add: unat_word_ariths)
  have f: "nr_types b = 0" "type_offs b = []" "types_data b = []" "strs_data b = []" "hdr_rest b = []" "ptr_sz b = 8"
      "h_type_len (hdr b) = 0" "h_str_len (hdr b) = 0" "h_hdr_len (hdr b) = 24" "start_id b = nr_types (mb v) + 1"
      "start_str_off b = h_str_len (hdr (mb v))"
    using b by (auto simp: btf_new_empty_def Let_def btf__get_nr_types_def v)
  have "layer_wf b" using n(1) id by (simp add: layer_wf_def f)
  then have "mb_ok (mb_wrap b)" using n id by (simp add: mb_ok_def mb_wrap_def f)
  then show ?thesis using v by (intro ws_ok_2) (simp_all add: mb_wrap_def f)
qed

lemma built_inv: "built ws \<Longrightarrow> ws_ok ws \<and> (tl ws = [] \<longrightarrow> canonical (mb (hd ws)))"
proof (induction rule: built.induct)
  case (empty b)
  then show ?case using empty_ok by (simp add: mb_wrap_def)
next
  case (split v b)
  then show ?case using split_ok by simp
next
  case (call ws op M r ws')
  then have "ws_ok ws' \<and> kept ws ws'" using build_good[of ws op M] by (auto simp: good_def)
  then show ?case using call by (auto simp: kept_def below_def)
qed

section \<open>What is promised\<close>

text \<open>C40. Building is safe: on an object that was built by earlier calls, with or without an object below it, every call of a
  function that adds a string, a type or a member, with a C string for the name, returns without a fault, whatever memory
  is found. It leaves well formed objects (every type is whole and has its place, every string ends), unless it adds a member
  to a type that has 65535 of them already; the code does not refuse that call, which sets the number of members to zero.
  The earlier calls are any, in any order, but not calls that add a 65536th member.\<close>

theorem build_safe:
  assumes "built ws" "name_ok (op_name op)"
  shows "\<exists>r ws'. build M op ws = Inr (r, ws') \<and> length ws' = length ws \<and>
     (is_member op \<and> \<not> vlen_room ws \<or> btf_wf (List.map mb ws'))"
proof -
  have ok: "ws_ok ws" using built_inv[OF assms(1)] by simp
  obtain r ws' where r: "build M op ws = Inr (r, ws')" "length ws' = length ws"
    using build_returns[OF ok assms(2), of M] by (auto simp: returns_def)
  have "btf_wf (List.map mb ws')" if "\<not> (is_member op \<and> \<not> vlen_room ws)"
    using build_good[OF ok, of op M] that assms(2) r(1) by (auto simp: op_ok_def good_def ws_ok_def)
  then show ?thesis using r by blast
qed

text \<open>C8. What was built is read back: the data of an object without a base that was built by any calls, in any order, written in
  the other byte order, is read as an object with the same header, types and strings. The calls have C strings for names,
  none adds a 65536th member to a type (the code lets it, and the types are then not read back), and the size of the data is
  below 2 to the 32.\<close>

theorem built_roundtrip:
  assumes "built [w]" "24 + unat (h_type_len (hdr (mb w))) + unat (h_str_len (hdr (mb w))) < 2 ^ 32"
  shows "\<exists>data sz b'. btf_get_raw_data (\<lambda>_. True) (mb w) True = Inr (Some (data, sz)) \<and> unat sz = length data \<and>
     btf_new (\<lambda>_. True) True True data [] = Inr (Inr [b']) \<and> hdr b' = hdr (mb w) \<and> nr_types b' = nr_types (mb w) \<and>
     take (unat (nr_types (mb w))) (type_offs b') = take (unat (nr_types (mb w))) (type_offs (mb w)) \<and>
     take (unat (h_type_len (hdr (mb w)))) (types_data b') = take (unat (h_type_len (hdr (mb w)))) (types_data (mb w)) \<and>
     take (unat (h_str_len (hdr (mb w)))) (strs_data b') = take (unat (h_str_len (hdr (mb w)))) (strs_data (mb w))"
proof -
  let ?b = "mb w"
  have ok: "ws_ok [w]" "canonical ?b" using built_inv[OF assms(1)] by simp_all
  have wf: "btf_wf [?b]" using ok(1) by (simp add: ws_ok_def)
  have c: "h_magic (hdr ?b) = BTF_MAGIC" "h_hdr_len (hdr ?b) = 24" "h_type_off (hdr ?b) = 0" "h_str_off (hdr ?b) = h_type_len (hdr ?b)"
      "0 < h_str_len (hdr ?b)" "strs_data ?b ! 0 = 0" "raw_data_swapped ?b = None"
    using ok(2) by (simp_all add: canonical_def Let_def)
  have "unat (h_str_len (hdr ?b)) \<le> 2 ^ 31" "unat (h_str_len (hdr ?b) - 1) = unat (h_str_len (hdr ?b)) - 1"
    using ws_ok_mb[OF ok(1)] c(5) by (simp_all add: mb_ok_def Let_def unat_minus_one)
  then have len: "h_str_len (hdr ?b) - 1 \<le> 0x7fffffff" by (simp add: word_le_nat_alt)
  show ?thesis using swapped_roundtrip[OF wf c(7,1-4) assms(2) c(5) len c(6)] by blast
qed

text \<open>A string that is added is found: adding it to an object that was built returns an error or an offset, and under the offset
  is the string, also when it was there before, in the object or in the one below.\<close>

theorem add_str_found:
  assumes "built ws" "0 \<notin> set s"
  shows "\<exists>r ws'. btf__add_str M ws s = Inr (r, ws') \<and> btf_wf (List.map mb ws') \<and>
     (0 \<le> r \<longrightarrow> (\<exists>m. btf__str_by_offset (List.map mb ws') (word_of_int r) = Inr (Some m) \<and> bstr m = Inr s))"
proof -
  obtain r ws' where "btf__add_str M ws s = Inr (r, ws')" "ws_ok ws'" "grown ws ws'"
    "0 \<le> r \<Longrightarrow> \<exists>m. btf__str_by_offset (List.map mb ws') (word_of_int r) = Inr (Some m) \<and> bstr m = Inr s"
    by (rule add_str_ok[of ws s M]) (use built_inv[OF assms(1)] assms(2) in auto)
  then show ?thesis by (auto simp: ws_ok_def)
qed








section \<open>Concrete runs\<close>

definition all_mem :: memory where
  "all_mem = \<lparr>mem_size = (\<lambda>_. True), mem_blocks = True, mem_map = True, mem_array = (\<lambda>_. True), mem_entry = (\<lambda>_. True)\<rparr>"

text \<open>A sequence of calls with all the memory, each of which must be allowed.\<close>

fun builds :: "build_op list \<Rightarrow> mbtf list \<Rightarrow> (int list \<times> mbtf list) res" where
  "builds [] ws = Inr ([], ws)"
| "builds (op # ops) ws =
     rbind (build all_mem op ws) (\<lambda>(r, ws). rbind (builds ops ws) (\<lambda>(rs, ws). Inr (r # rs, ws)))"

fun ops_ok :: "build_op list \<Rightarrow> mbtf list \<Rightarrow> bool" where
  "ops_ok [] ws \<longleftrightarrow> True"
| "ops_ok (op # ops) ws \<longleftrightarrow> op_ok op ws \<and> (case build all_mem op ws of Inl _ \<Rightarrow> False | Inr (_, ws) \<Rightarrow> ops_ok ops ws)"

lemma builds_built: "built ws \<Longrightarrow> ops_ok ops ws \<Longrightarrow> builds ops ws = Inr (rs, ws') \<Longrightarrow> built ws'"
proof (induction ops arbitrary: ws rs)
  case (Cons op ops)
  then obtain r ws1 where r: "build all_mem op ws = Inr (r, ws1)" by (cases "build all_mem op ws") auto
  then have "built ws1" using Cons.prems by (intro built.call[OF Cons.prems(1)]) simp_all
  then show ?case using Cons.IH[of ws1] Cons.prems r by (auto simp: rbind_eq_Inr)
qed simp

definition empty_btf :: btf where
  "empty_btf = (case btf_new_empty True True [] of Inr bs \<Rightarrow> hd bs)"

lemma empty_built: "built [mb_wrap empty_btf]"
  by (rule built.empty) (simp add: empty_btf_def btf_new_empty_def Let_def)

text \<open>An integer and a structure with two members of its type.\<close>

definition sample_ops :: "build_op list" where
  "sample_ops = [Add_Int (Some (ascii ''int'')) 4 1, Add_Struct (Some (ascii ''s'')) 8,
     Add_Field (Some (ascii ''a'')) 1 0 0, Add_Field (Some (ascii ''int'')) 1 32 0]"

definition sample_words :: "u32 list" where
  "sample_words = [1, 0x01000000, 4, 0x01000020,  5, 0x04000002, 8,  7, 1, 0,  1, 1, 32]"

definition run_data :: "build_op list \<Rightarrow> (int list \<times> u8 list \<times> u8 list) option" where
  "run_data ops =
     (case builds ops [mb_wrap empty_btf] of
        Inr (rs, [w]) \<Rightarrow> Some (rs, take (unat (h_type_len (hdr (mb w)))) (types_data (mb w)), take (unat (h_str_len (hdr (mb w)))) (strs_data (mb w)))
      | _ \<Rightarrow> None)"

lemma sample_built_run: "run_data sample_ops = Some ([1, 2, 0, 0], word_bytes_of sample_words, 0 # ascii ''int'' @ [0] @ ascii ''s'' @ [0] @ ascii ''a'' @ [0])"
  by code_simp

lemma sample_ops_ok: "ops_ok sample_ops [mb_wrap empty_btf]"
  by code_simp

lemma run_dataE:
  assumes "run_data ops = Some (rs, ts, ss)" "ops_ok ops [mb_wrap empty_btf]"
  obtains w where "builds ops [mb_wrap empty_btf] = Inr (rs, [w])" "built [w]"
    "take (unat (h_type_len (hdr (mb w)))) (types_data (mb w)) = ts" "take (unat (h_str_len (hdr (mb w)))) (strs_data (mb w)) = ss"
    "unat (h_type_len (hdr (mb w))) = length ts" "unat (h_str_len (hdr (mb w))) = length ss"
proof -
  obtain w where w: "builds ops [mb_wrap empty_btf] = Inr (rs, [w])"
      "take (unat (h_type_len (hdr (mb w)))) (types_data (mb w)) = ts" "take (unat (h_str_len (hdr (mb w)))) (strs_data (mb w)) = ss"
    using assms(1) by (auto simp: run_data_def split: sum.splits prod.splits list.splits)
  moreover have b: "built [w]" using builds_built[OF empty_built assms(2) w(1)] .
  moreover have "layer_wf (mb w)" using ws_ok_mb[of w "[]"] built_inv[OF b] by (simp add: mb_ok_def Let_def)
  then have "unat (h_type_len (hdr (mb w))) = length ts" "unat (h_str_len (hdr (mb w))) = length ss"
    using w(2,3) by (auto simp: layer_wf_def)
  ultimately show thesis by (intro that)
qed

theorem build_safe_witness:
  "\<exists>w r ws'. builds sample_ops [mb_wrap empty_btf] = Inr ([1, 2, 0, 0], [w]) \<and> build all_mem (Add_Ptr 2) [w] = Inr (r, ws') \<and>
     btf_wf (List.map mb ws')"
proof -
  obtain w where w: "builds sample_ops [mb_wrap empty_btf] = Inr ([1, 2, 0, 0], [w])" "built [w]"
    by (rule run_dataE[OF sample_built_run sample_ops_ok])
  have "name_ok (op_name (Add_Ptr 2))" "\<not> is_member (Add_Ptr 2)" by (simp_all add: name_ok_def)
  then show ?thesis using build_safe[OF w(2), of "Add_Ptr 2" all_mem] w(1) by blast
qed

theorem built_roundtrip_witness:
  "\<exists>w data sz b'. builds sample_ops [mb_wrap empty_btf] = Inr ([1, 2, 0, 0], [w]) \<and>
     btf_get_raw_data (\<lambda>_. True) (mb w) True = Inr (Some (data, sz)) \<and> btf_new (\<lambda>_. True) True True data [] = Inr (Inr [b']) \<and>
     take 52 (types_data b') = word_bytes_of sample_words"
proof -
  obtain w where w: "builds sample_ops [mb_wrap empty_btf] = Inr ([1, 2, 0, 0], [w])" "built [w]"
    "take (unat (h_type_len (hdr (mb w)))) (types_data (mb w)) = word_bytes_of sample_words"
    "unat (h_type_len (hdr (mb w))) = length (word_bytes_of sample_words)"
    "unat (h_str_len (hdr (mb w))) = length (0 # ascii ''int'' @ [0] @ ascii ''s'' @ [0] @ ascii ''a'' @ [0])"
    by (rule run_dataE[OF sample_built_run sample_ops_ok])
  have "length (word_bytes_of sample_words) = 52" by (simp add: sample_words_def)
  then show ?thesis using built_roundtrip[OF w(2)] w(1,3-5) by (auto simp: ascii_def)
qed

theorem add_str_found_witness:
  "\<exists>w r ws'. builds sample_ops [mb_wrap empty_btf] = Inr ([1, 2, 0, 0], [w]) \<and> btf__add_str all_mem [w] (ascii ''int'') = Inr (r, ws') \<and>
     btf_wf (List.map mb ws')"
proof -
  obtain w where w: "builds sample_ops [mb_wrap empty_btf] = Inr ([1, 2, 0, 0], [w])" "built [w]"
    by (rule run_dataE[OF sample_built_run sample_ops_ok])
  have "0 \<notin> set (ascii ''int'')" by (simp add: ascii_def)
  then show ?thesis using add_str_found[OF w(2), of "ascii ''int''" all_mem] w(1) by blast
qed


section \<open>Where the code does not keep what was said\<close>

text \<open>The word with the kind of an enumeration with 65535 values, and of one with one value more: the number of values is zero
  again, while the values stay behind the type.\<close>

definition big_enum :: mbtf where
  "big_enum = (mb_wrap empty_btf)\<lparr>mb := empty_btf\<lparr>types_data := word_bytes_of [0, 0x0600ffff, 4]\<rparr>\<rparr>"

text \<open>Adding the 65536th member to a type sets its number of members to zero.\<close>

theorem vlen_wraps:
  "btf_vlen (types_data (mb big_enum)) = Inr 65535 \<and>
   (case btf_type_inc_vlen False 0 big_enum of Inl _ \<Rightarrow> False | Inr w \<Rightarrow> btf_vlen (types_data (mb w)) = Inr 0)"
proof -
  have i: "t_info (types_data (mb big_enum)) = Inr 0x0600ffff" by code_simp
  then have v: "btf_vlen (types_data (mb big_enum)) = Inr 65535" by (simp add: btf_vlen_def BTF_INFO_VLEN_def)
  have "btf_type_inc_vlen False 0 big_enum = set_info 0 0x06010000 big_enum"
    using i by (simp add: btf_type_inc_vlen_def btf_kind_def btf_vlen_def btf_kflag_def BTF_INFO_VLEN_def BTF_INFO_KIND_def
        BTF_INFO_KFLAG_def btf_type_info_def)
  moreover have "(case set_info 0 0x06010000 big_enum of Inl _ \<Rightarrow> False | Inr w \<Rightarrow> t_info (types_data (mb w)) = Inr 0x06010000)"
    by code_simp
  ultimately have "(case btf_type_inc_vlen False 0 big_enum of Inl _ \<Rightarrow> False | Inr w \<Rightarrow> t_info (types_data (mb w)) = Inr 0x06010000)"
    by simp
  then show ?thesis using v by (auto simp: btf_vlen_def BTF_INFO_VLEN_def split: sum.splits)
qed

text \<open>Adding a bit field to a structure changes the members before it: a member 16 MiB behind the start has its place, until a bit
  field is added; then its offset is zero and it is a bit field of one bit.\<close>

definition far_ops :: "build_op list" where
  "far_ops = [Add_Int (Some (ascii ''int'')) 4 1, Add_Struct None 0x200004, Add_Field (Some (ascii ''a'')) 1 0x1000000 0]"

definition first_member :: "build_op list \<Rightarrow> (u32 \<times> u32) option" where
  "first_member ops =
     (case builds ops [mb_wrap empty_btf] of
        Inr (_, [w]) \<Rightarrow>
          (case (btf_member_bit_offset (drop 16 (types_data (mb w))) 0, btf_member_bitfield_size (drop 16 (types_data (mb w))) 0) of
             (Inr o1, Inr s1) \<Rightarrow> Some (o1, s1) | _ \<Rightarrow> None)
      | _ \<Rightarrow> None)"

theorem bitfield_changes_offsets:
  "first_member far_ops = Some (0x1000000, 0) \<and> first_member (far_ops @ [Add_Field (Some (ascii ''b'')) 1 0 1]) = Some (0, 1)"
  by (rule conjI; code_simp)

text \<open>A header that is shorter than the structure is accepted when the bytes are in the native order; taking the object apart then
  makes a copy of the header that is too short, and reading it is out of bounds.\<close>

definition short_header :: "u8 list" where
  "short_header =
     put_btf_header (btf_hdr_sample\<lparr>h_hdr_len := 20, h_type_off := 4, h_str_off := 68\<rparr>) @ btf_section @ btf_strings @ replicate 4 0"

theorem short_header_faults:
  "(case btf_new (\<lambda>_. True) True True short_header [] of Inr (Inr [b]) \<Rightarrow> btf_ensure_modifiable all_mem True (mb_wrap b) = Inl OutOfBounds
     | _ \<Rightarrow> False)"
proof -
  have "(case btf_new (\<lambda>_. True) True True short_header [] of
      Inr (Inr [b]) \<Rightarrow> (case btf_ensure_modifiable all_mem True (mb_wrap b) of Inl f \<Rightarrow> f = OutOfBounds | Inr _ \<Rightarrow> False) | _ \<Rightarrow> False)"
    by code_simp
  then show ?thesis by (auto split: sum.splits list.splits)
qed

text \<open>Sections with a gap between them are read, but not written back: after the object was made modifiable its data is one block
  without the gap and with the old offsets, and that block is refused.\<close>

definition gap_bytes :: "u8 list" where
  "gap_bytes = put_btf_header (btf_hdr_sample\<lparr>h_str_off := 68\<rparr>) @ btf_section @ replicate 4 0 @ btf_strings"

definition rewritten :: "u8 list \<Rightarrow> u8 list option" where
  "rewritten bytes =
     (case btf_new (\<lambda>_. True) True True bytes [] of
        Inr (Inr [b]) \<Rightarrow>
          (case btf_ensure_modifiable all_mem True (mb_wrap b) of
             Inr (_, w) \<Rightarrow> (case btf_get_raw_data (\<lambda>_. True) (mb w) False of Inr (Some (d, _)) \<Rightarrow> Some d | _ \<Rightarrow> None)
           | Inl _ \<Rightarrow> None)
      | _ \<Rightarrow> None)"

theorem gap_not_written:
  "rewritten gap_bytes = Some (put_btf_header (btf_hdr_sample\<lparr>h_str_off := 68\<rparr>) @ btf_section @ btf_strings) \<and>
   btf_new (\<lambda>_. True) True True (put_btf_header (btf_hdr_sample\<lparr>h_str_off := 68\<rparr>) @ btf_section @ btf_strings) [] = Inr (Inl (- 22))"
  by (rule conjI; code_simp)

end
