(* ===== verification/Libbpf_Xsk_Socket.thy ===== *)
theory Libbpf_Xsk_Socket
  imports NewIP_Base "HOL-Library.Multiset"
begin

text \<open>
  The life of AF_XDP sockets (\<open>xdp/libbpf/src/xsk.c\<close>): a packet memory (umem), the contexts of its queues, which
  sockets share and count, and the sockets. Contexts live in a heap; the ring structures belong to
  the caller and are at addresses. A ledger holds the open descriptors and the mapped regions, and remembers
  whether something was closed or unmapped that was not there. What the kernel answers to the calls
  of an operation is a record of parameters; \<open>Some e\<close> is a failure with error number \<open>e\<close>. The texts
  of interface names and programs are left out.
\<close>

section \<open>The structures\<close>

record ring_off =
  o_producer :: u64
  o_consumer :: u64
  o_desc :: u64
  o_flags :: u64

record mmap_off =
  off_rx :: ring_off
  off_tx :: ring_off
  off_fr :: ring_off
  off_cr :: ring_off

text \<open>The structure of a ring in the memory of the caller, with its pointers.\<close>

record xring =
  x_cached_prod :: u32
  x_cached_cons :: u32
  x_mask :: u32
  x_size :: u32
  x_producer :: u64
  x_consumer :: u64
  x_ring :: u64
  x_flags :: u64

record xsk_umem_config =
  fill_size :: u32
  comp_size :: u32
  frame_size :: u32
  frame_headroom :: u32
  umem_flags :: u32

record xsk_socket_config =
  rx_size :: u32
  tx_size :: u32
  libbpf_flags :: u32
  cfg_xdp_flags :: u32
  bind_flags :: u16

record xsk_umem =
  fill_save :: "nat option"
  comp_save :: "nat option"
  umem_area :: u64
  u_config :: xsk_umem_config
  u_fd :: int
  u_refcount :: int
  ctx_list :: "nat list"

record xsk_ctx =
  c_fill :: nat
  c_comp :: nat
  c_queue_id :: u32
  c_refcount :: int
  c_ifindex :: int
  c_prog_fd :: int
  c_map_fd :: int

record xsk_socket =
  s_rx :: "nat option"
  s_tx :: "nat option"
  s_ctx :: nat
  s_config :: xsk_socket_config
  s_fd :: int

definition xsk_umem__fd :: "xsk_umem option \<Rightarrow> int" where
  "xsk_umem__fd umem = (case umem of Some u \<Rightarrow> u_fd u | None \<Rightarrow> - 22)"

definition xsk_socket__fd :: "xsk_socket option \<Rightarrow> int" where
  "xsk_socket__fd xsk = (case xsk of Some x \<Rightarrow> s_fd x | None \<Rightarrow> - 22)"

record xsk_world =
  x_fds :: "int multiset"
  x_maps :: "(u64 \<times> u64) multiset"
  x_badclose :: bool
  x_badunmap :: bool
  rings :: "nat \<Rightarrow> xring"
  ctxs :: "nat \<rightharpoonup> xsk_ctx"

definition open_fd :: "int \<Rightarrow> xsk_world \<Rightarrow> xsk_world" where
  "open_fd fd w = w\<lparr>x_fds := add_mset fd (x_fds w)\<rparr>"

definition close_fd :: "int \<Rightarrow> xsk_world \<Rightarrow> xsk_world" where
  "close_fd fd w = w\<lparr>x_fds := x_fds w - {#fd#}, x_badclose := x_badclose w \<or> fd \<notin># x_fds w\<rparr>"

definition map_region :: "u64 \<Rightarrow> u64 \<Rightarrow> xsk_world \<Rightarrow> xsk_world" where
  "map_region a n w = w\<lparr>x_maps := add_mset (a, n) (x_maps w)\<rparr>"

definition unmap_region :: "u64 \<Rightarrow> u64 \<Rightarrow> xsk_world \<Rightarrow> xsk_world" where
  "unmap_region a n w = w\<lparr>x_maps := x_maps w - {#(a, n)#}, x_badunmap := x_badunmap w \<or> (a, n) \<notin># x_maps w\<rparr>"

definition set_ring :: "nat \<Rightarrow> xring \<Rightarrow> xsk_world \<Rightarrow> xsk_world" where
  "set_ring a r w = w\<lparr>rings := (rings w)(a := r)\<rparr>"

definition set_ctx :: "nat \<Rightarrow> xsk_ctx \<Rightarrow> xsk_world \<Rightarrow> xsk_world" where
  "set_ctx a c w = w\<lparr>ctxs := (ctxs w)(a \<mapsto> c)\<rparr>"

section \<open>Configurations\<close>

definition xsk_page_aligned :: "u64 \<Rightarrow> u64 \<Rightarrow> bool" where
  "xsk_page_aligned pagesize addr \<longleftrightarrow> addr AND (pagesize - 1) = 0"

definition xsk_set_umem_config :: "xsk_umem_config option \<Rightarrow> xsk_umem_config" where
  "xsk_set_umem_config usr =
     (case usr of
        None \<Rightarrow> \<lparr>fill_size = 2048, comp_size = 2048, frame_size = 4096, frame_headroom = 0, umem_flags = 0\<rparr>
      | Some c \<Rightarrow> c)"

abbreviation (input) INHIBIT_PROG_LOAD :: u32 where "INHIBIT_PROG_LOAD \<equiv> 1"

definition xsk_set_xdp_socket_config :: "xsk_socket_config option \<Rightarrow> int + xsk_socket_config" where
  "xsk_set_xdp_socket_config usr =
     (case usr of
        None \<Rightarrow> Inr \<lparr>rx_size = 2048, tx_size = 2048, libbpf_flags = 0, cfg_xdp_flags = 0, bind_flags = 0\<rparr>
      | Some c \<Rightarrow> if libbpf_flags c AND NOT INHIBIT_PROG_LOAD \<noteq> 0 then Inl (- 22) else Inr c)"

section \<open>The offsets of the rings\<close>

text \<open>What \<open>getsockopt\<close> gives: the words of the buffer and the length. Kernels up to 5.3 have no offsets of the
  flags, and the words of the rings are closer together.\<close>

record off_answer =
  oa_ret :: int
  oa_words :: "nat \<Rightarrow> u64"
  oa_len :: nat

definition ring_off_at :: "(nat \<Rightarrow> u64) \<Rightarrow> nat \<Rightarrow> ring_off" where
  "ring_off_at ws i = \<lparr>o_producer = ws i, o_consumer = ws (i + 1), o_desc = ws (i + 2), o_flags = ws (i + 3)\<rparr>"

definition ring_off_v1 :: "(nat \<Rightarrow> u64) \<Rightarrow> nat \<Rightarrow> ring_off" where
  "ring_off_v1 ws i = \<lparr>o_producer = ws i, o_consumer = ws (i + 1), o_desc = ws (i + 2), o_flags = ws (i + 1) + 4\<rparr>"

definition xsk_mmap_offsets_v1 :: "(nat \<Rightarrow> u64) \<Rightarrow> mmap_off" where
  "xsk_mmap_offsets_v1 ws =
     \<lparr>off_rx = ring_off_v1 ws 0, off_tx = ring_off_v1 ws 3, off_fr = ring_off_v1 ws 6, off_cr = ring_off_v1 ws 9\<rparr>"

definition full_offsets :: "(nat \<Rightarrow> u64) \<Rightarrow> mmap_off" where
  "full_offsets ws =
     \<lparr>off_rx = ring_off_at ws 0, off_tx = ring_off_at ws 4, off_fr = ring_off_at ws 8, off_cr = ring_off_at ws 12\<rparr>"

definition xsk_get_mmap_offsets :: "off_answer \<Rightarrow> int \<times> mmap_off" where
  "xsk_get_mmap_offsets A =
     (if oa_ret A \<noteq> 0 then (oa_ret A, full_offsets (oa_words A))
      else if oa_len A = 128 then (0, full_offsets (oa_words A))
      else if oa_len A = 96 then (0, xsk_mmap_offsets_v1 (oa_words A))
      else (- 22, full_offsets (oa_words A)))"

section \<open>The rings of a packet memory\<close>

text \<open>\<open>re_errno\<close> is \<open>errno\<close> after \<open>xsk_get_mmap_offsets\<close>. The pointer \<open>MAP_FAILED\<close> is \<open>- 1\<close>.\<close>

record rings_env =
  re_fill_opt :: "int option"
  re_comp_opt :: "int option"
  re_off :: off_answer
  re_errno :: int
  re_fill_map :: "int + u64"
  re_comp_map :: "int + u64"

definition xsk_create_umem_rings :: "rings_env \<Rightarrow> xsk_umem \<Rightarrow> nat \<Rightarrow> nat \<Rightarrow> xsk_world \<Rightarrow> int \<times> xsk_world" where
  "xsk_create_umem_rings E umem fill cmp w =
     (case re_fill_opt E of Some e \<Rightarrow> (- e, w) | None \<Rightarrow>
     (case re_comp_opt E of Some e \<Rightarrow> (- e, w) | None \<Rightarrow>
     (case xsk_get_mmap_offsets (re_off E) of (err, off) \<Rightarrow>
        if err \<noteq> 0 then (- re_errno E, w)
        else
          let flen = o_desc (off_fr off) + ucast (fill_size (u_config umem)) * 8;
              clen = o_desc (off_cr off) + ucast (comp_size (u_config umem)) * 8
          in (case re_fill_map E of Inl e \<Rightarrow> (- e, w) | Inr a \<Rightarrow>
                let w = set_ring fill ((rings w fill)\<lparr>x_mask := fill_size (u_config umem) - 1,
                      x_size := fill_size (u_config umem), x_producer := a + o_producer (off_fr off),
                      x_consumer := a + o_consumer (off_fr off), x_flags := a + o_flags (off_fr off),
                      x_ring := a + o_desc (off_fr off), x_cached_cons := fill_size (u_config umem)\<rparr>) (map_region a flen w)
                in (case re_comp_map E of
                      Inl e \<Rightarrow> (- e, unmap_region (- 1) flen w)
                    | Inr b \<Rightarrow>
                        (0, set_ring cmp ((rings w cmp)\<lparr>x_mask := comp_size (u_config umem) - 1,
                          x_size := comp_size (u_config umem), x_producer := b + o_producer (off_cr off),
                          x_consumer := b + o_consumer (off_cr off), x_flags := b + o_flags (off_cr off),
                          x_ring := b + o_desc (off_cr off)\<rparr>) (map_region b clen w)))))))"

section \<open>Packet memories\<close>

record umem_env =
  ue_calloc :: bool
  ue_socket :: "int + int"
  ue_reg :: "int option"
  ue_rings :: rings_env

text \<open>\<open>ptr_ok\<close> says that the caller gave a place for the result.\<close>

definition xsk_umem__create ::
  "umem_env \<Rightarrow> u64 \<Rightarrow> bool \<Rightarrow> u64 \<Rightarrow> u64 \<Rightarrow> nat option \<Rightarrow> nat option \<Rightarrow> xsk_umem_config option \<Rightarrow> xsk_world \<Rightarrow>
     int \<times> xsk_umem option \<times> xsk_world" where
  "xsk_umem__create E pagesize ptr_ok area sz fill cmp usr w =
     (case (fill, cmp) of
        (Some fill, Some cmp) \<Rightarrow>
          if area = 0 \<or> \<not> ptr_ok then (- 14, None, w)
          else if sz = 0 \<and> \<not> xsk_page_aligned pagesize area then (- 22, None, w)
          else if \<not> ue_calloc E then (- 12, None, w)
          else
            (case ue_socket E of
               Inl e \<Rightarrow> (- e, None, w)
             | Inr fd \<Rightarrow>
                 let w = open_fd fd w;
                     umem = \<lparr>fill_save = None, comp_save = None, umem_area = area, u_config = xsk_set_umem_config usr,
                       u_fd = fd, u_refcount = 0, ctx_list = []\<rparr>
                 in (case ue_reg E of
                       Some e \<Rightarrow> (- e, None, close_fd fd w)
                     | None \<Rightarrow>
                         (case xsk_create_umem_rings (ue_rings E) umem fill cmp w of (err, w) \<Rightarrow>
                            if err \<noteq> 0 then (err, None, close_fd fd w)
                            else (0, Some (umem\<lparr>fill_save := Some fill, comp_save := Some cmp\<rparr>), w))))
      | _ \<Rightarrow> (- 14, None, w))"

definition xsk_umem__create_v0_0_2 ::
  "umem_env \<Rightarrow> u64 \<Rightarrow> bool \<Rightarrow> u64 \<Rightarrow> u64 \<Rightarrow> nat option \<Rightarrow> nat option \<Rightarrow> xsk_umem_config option \<Rightarrow> xsk_world \<Rightarrow>
     (int \<times> xsk_umem option \<times> xsk_world) res" where
  "xsk_umem__create_v0_0_2 E pagesize ptr_ok area sz fill cmp usr w =
     (case usr of
        None \<Rightarrow> Inl NullDeref
      | Some c \<Rightarrow> Inr (xsk_umem__create E pagesize ptr_ok area sz fill cmp (Some (c\<lparr>umem_flags := 0\<rparr>)) w))"

definition xsk_umem__delete :: "xsk_umem option \<Rightarrow> xsk_world \<Rightarrow> int \<times> xsk_world" where
  "xsk_umem__delete umem w =
     (case umem of
        None \<Rightarrow> (0, w)
      | Some u \<Rightarrow> if u_refcount u \<noteq> 0 then (- 16, w) else (0, close_fd (u_fd u) w))"

section \<open>Contexts\<close>

fun find_ctx :: "(nat \<rightharpoonup> xsk_ctx) \<Rightarrow> int \<Rightarrow> u32 \<Rightarrow> nat list \<Rightarrow> nat option res" where
  "find_ctx h ifindex queue_id [] = Inr None"
| "find_ctx h ifindex queue_id (a # as) =
     rbind (deref h (Some a)) (\<lambda>c.
       if c_ifindex c = ifindex \<and> c_queue_id c = queue_id then Inr (Some a) else find_ctx h ifindex queue_id as)"

definition xsk_get_ctx :: "xsk_umem \<Rightarrow> int \<Rightarrow> u32 \<Rightarrow> xsk_world \<Rightarrow> (nat option \<times> xsk_world) res" where
  "xsk_get_ctx umem ifindex queue_id w =
     rbind (find_ctx (ctxs w) ifindex queue_id (ctx_list umem)) (\<lambda>r.
       case r of
         None \<Rightarrow> Inr (None, w)
       | Some a \<Rightarrow> rbind (deref (ctxs w) (Some a)) (\<lambda>c. Inr (Some a, set_ctx a (c\<lparr>c_refcount := c_refcount c + 1\<rparr>) w)))"

text \<open>\<open>A\<close> is the answer to the question for the offsets.\<close>

definition xsk_put_ctx :: "off_answer \<Rightarrow> xsk_umem \<Rightarrow> nat \<Rightarrow> xsk_world \<Rightarrow> (xsk_umem \<times> xsk_world) res" where
  "xsk_put_ctx A umem a w =
     rbind (deref (ctxs w) (Some a)) (\<lambda>c.
       let c = c\<lparr>c_refcount := c_refcount c - 1\<rparr>; w = set_ctx a c w
       in if c_refcount c \<noteq> 0 then Inr (umem, w)
          else
            let w = (case xsk_get_mmap_offsets A of (err, off) \<Rightarrow>
                      if err \<noteq> 0 then w
                      else unmap_region (x_ring (rings w (c_comp c)) - o_desc (off_cr off))
                             (o_desc (off_cr off) + ucast (comp_size (u_config umem)) * 8)
                           (unmap_region (x_ring (rings w (c_fill c)) - o_desc (off_fr off))
                             (o_desc (off_fr off) + ucast (fill_size (u_config umem)) * 8) w))
            in Inr (umem\<lparr>ctx_list := remove1 a (ctx_list umem)\<rparr>, w\<lparr>ctxs := (ctxs w)(a := None)\<rparr>))"

text \<open>\<open>alloc\<close> is the address of the new context, if there is memory.\<close>

definition xsk_create_ctx ::
  "rings_env \<Rightarrow> nat option \<Rightarrow> xsk_umem \<Rightarrow> int \<Rightarrow> u32 \<Rightarrow> nat \<Rightarrow> nat \<Rightarrow> xsk_world \<Rightarrow> (nat option \<times> xsk_umem \<times> xsk_world) res" where
  "xsk_create_ctx E alloc umem ifindex queue_id fill cmp w =
     (case alloc of
        None \<Rightarrow> Inr (None, umem, w)
      | Some a \<Rightarrow>
          rbind (case fill_save umem of
                   None \<Rightarrow> Inr (xsk_create_umem_rings E umem fill cmp w)
                 | Some fs \<Rightarrow>
                     if fs \<noteq> fill \<or> comp_save umem \<noteq> Some cmp
                     then (case comp_save umem of
                             None \<Rightarrow> Inl NullDeref
                           | Some cs \<Rightarrow> let w = set_ring fill (rings w fs) w in Inr (0, set_ring cmp (rings w cs) w))
                     else Inr (0, w)) (\<lambda>(err, w).
             if err \<noteq> 0 then Inr (None, umem, w)
             else
               Inr (Some a, umem\<lparr>fill_save := None, comp_save := None, ctx_list := a # ctx_list umem\<rparr>,
                 set_ctx a \<lparr>c_fill = fill, c_comp = cmp, c_queue_id = queue_id, c_refcount = 1, c_ifindex = ifindex,
                   c_prog_fd = 0, c_map_fd = 0\<rparr> w)))"

section \<open>The XDP program of a socket\<close>

text \<open>Whether the kernel knows the flags of the redirection: a map and a program are made, tried and closed.\<close>

record probe_env =
  pb_map :: int
  pb_load :: int
  pb_run :: "int \<times> u32"

definition get_xsk_prog :: "probe_env \<Rightarrow> xsk_world \<Rightarrow> bool \<times> xsk_world" where
  "get_xsk_prog E w =
     (if pb_map E < 0 then (False, w)
      else
        let w = open_fd (pb_map E) w in
        if pb_load E < 0 then (False, close_fd (pb_map E) w)
        else
          let w = open_fd (pb_load E) w
          in (fst (pb_run E) = 0 \<and> snd (pb_run E) = 2, close_fd (pb_map E) (close_fd (pb_load E) w)))"

text \<open>A map of the attached program: the descriptor or a negative error, and whether its information was read
  and is that of the map of sockets.\<close>

record map_answer =
  ma_fd :: int
  ma_info :: "bool option"

text \<open>\<open>pe_load\<close> gives the descriptor of the program with (\<open>True\<close>) or without the flags, \<open>pe_channels\<close> the error of
  the query, or the three numbers of channels.\<close>

record prog_env =
  pe_link_id :: "int \<times> u32"
  pe_sock :: "int + int"
  pe_channels :: "int + int \<times> int \<times> int"
  pe_create_map :: "int \<Rightarrow> int"
  pe_probe :: probe_env
  pe_load :: "bool \<Rightarrow> int"
  pe_set_link :: int
  pe_prog_fd :: "int + int"
  pe_info1 :: int
  pe_calloc :: bool
  pe_info2 :: int
  pe_map_ids :: "map_answer list"
  pe_update :: int

abbreviation (input) XSK_EOPNOTSUPP :: int where "XSK_EOPNOTSUPP \<equiv> 95"

definition xsk_get_max_queues :: "prog_env \<Rightarrow> xsk_world \<Rightarrow> int \<times> xsk_world" where
  "xsk_get_max_queues E w =
     (case pe_sock E of
        Inl e \<Rightarrow> (- e, w)
      | Inr fd \<Rightarrow>
          ((case pe_channels E of
              Inl e \<Rightarrow> if e \<noteq> XSK_EOPNOTSUPP then - e else 1
            | Inr (rx, tx, combined) \<Rightarrow> max (max rx tx) combined), close_fd fd (open_fd fd w)))"

definition xsk_create_bpf_maps :: "prog_env \<Rightarrow> nat \<Rightarrow> xsk_world \<Rightarrow> (int \<times> xsk_world) res" where
  "xsk_create_bpf_maps E a w =
     (case xsk_get_max_queues E w of (max_queues, w) \<Rightarrow>
        if max_queues < 0 then Inr (max_queues, w)
        else if pe_create_map E max_queues < 0 then Inr (pe_create_map E max_queues, w)
        else rbind (deref (ctxs w) (Some a)) (\<lambda>c.
               Inr (0, set_ctx a (c\<lparr>c_map_fd := pe_create_map E max_queues\<rparr>) (open_fd (pe_create_map E max_queues) w))))"

definition xsk_delete_bpf_maps :: "nat \<Rightarrow> xsk_world \<Rightarrow> xsk_world res" where
  "xsk_delete_bpf_maps a w = rbind (deref (ctxs w) (Some a)) (\<lambda>c. Inr (close_fd (c_map_fd c) w))"

definition xsk_load_xdp_prog :: "prog_env \<Rightarrow> nat \<Rightarrow> xsk_world \<Rightarrow> (int \<times> xsk_world) res" where
  "xsk_load_xdp_prog E a w =
     (case get_xsk_prog (pe_probe E) w of (flags, w) \<Rightarrow>
        if pe_load E flags < 0 then Inr (pe_load E flags, w)
        else
          let w = open_fd (pe_load E flags) w
          in if pe_set_link E \<noteq> 0 then Inr (pe_set_link E, close_fd (pe_load E flags) w)
             else rbind (deref (ctxs w) (Some a)) (\<lambda>c. Inr (0, set_ctx a (c\<lparr>c_prog_fd := pe_load E flags\<rparr>) w)))"

fun find_xsks_map :: "map_answer list \<Rightarrow> int \<Rightarrow> xsk_world \<Rightarrow> int \<times> xsk_world" where
  "find_xsks_map [] found w = (found, w)"
| "find_xsks_map (m # ms) found w =
     (if ma_fd m < 0 then find_xsks_map ms found w
      else
        let w = open_fd (ma_fd m) w
        in (case ma_info m of
              Some True \<Rightarrow> find_xsks_map ms (ma_fd m) w
            | _ \<Rightarrow> find_xsks_map ms found (close_fd (ma_fd m) w)))"

definition xsk_lookup_bpf_maps :: "prog_env \<Rightarrow> nat \<Rightarrow> xsk_world \<Rightarrow> (int \<times> xsk_world) res" where
  "xsk_lookup_bpf_maps E a w =
     (if pe_info1 E \<noteq> 0 then Inr (pe_info1 E, w)
      else if \<not> pe_calloc E then Inr (- 12, w)
      else if pe_info2 E \<noteq> 0 then Inr (pe_info2 E, w)
      else
        (case find_xsks_map (pe_map_ids E) (- 1) w of (fd, w) \<Rightarrow>
           rbind (deref (ctxs w) (Some a)) (\<lambda>c.
             Inr (if fd = - 1 then - 2 else 0, set_ctx a (c\<lparr>c_map_fd := fd\<rparr>) w))))"

text \<open>\<open>has_rx\<close> says whether the socket has a ring to receive. \<open>xsk_set_bpf_maps\<close> stores the socket in the map of the context.\<close>

definition xsk_setup_prog :: "prog_env \<Rightarrow> bool \<Rightarrow> nat \<Rightarrow> xsk_world \<Rightarrow> (int \<times> xsk_world) res" where
  "xsk_setup_prog E has_rx a w =
     (if fst (pe_link_id E) \<noteq> 0 then Inr (fst (pe_link_id E), w)
      else if snd (pe_link_id E) = 0 then
        rbind (xsk_create_bpf_maps E a w) (\<lambda>(err, w).
          if err \<noteq> 0 then Inr (err, w)
          else
            rbind (xsk_load_xdp_prog E a w) (\<lambda>(err, w).
              if err \<noteq> 0 then rbind (xsk_delete_bpf_maps a w) (\<lambda>w. Inr (err, w))
              else if has_rx \<and> pe_update E \<noteq> 0 then
                rbind (deref (ctxs w) (Some a)) (\<lambda>c.
                rbind (xsk_delete_bpf_maps a (close_fd (c_prog_fd c) w)) (\<lambda>w. Inr (pe_update E, w)))
              else Inr (0, w)))
      else
        (case pe_prog_fd E of
           Inl e \<Rightarrow> rbind (deref (ctxs w) (Some a)) (\<lambda>c. Inr (- e, set_ctx a (c\<lparr>c_prog_fd := - 1\<rparr>) w))
         | Inr fd \<Rightarrow>
             rbind (deref (ctxs w) (Some a)) (\<lambda>c.
             rbind (xsk_lookup_bpf_maps E a (set_ctx a (c\<lparr>c_prog_fd := fd\<rparr>) (open_fd fd w))) (\<lambda>(err, w).
               if err \<noteq> 0 then Inr (err, close_fd fd w)
               else if has_rx \<and> pe_update E \<noteq> 0 then Inr (pe_update E, close_fd fd w)
               else Inr (0, w)))))"

section \<open>Sockets\<close>

text \<open>The address a socket is bound to.\<close>

record sockaddr_xdp =
  sxdp_flags :: u16
  sxdp_ifindex :: int
  sxdp_queue_id :: u32
  sxdp_shared_umem_fd :: int

record sock_env =
  se_calloc :: bool
  se_ifindex :: int
  se_errno :: int
  se_socket :: "int + int"
  se_ctx :: "nat option"
  se_rings :: rings_env
  se_rx_opt :: "int option"
  se_tx_opt :: "int option"
  se_off :: off_answer
  se_off_errno :: int
  se_rx_map :: "int + u64"
  se_tx_map :: "int + u64"
  se_rx_words :: "u32 \<times> u32"
  se_tx_words :: "u32 \<times> u32"
  se_bind :: "sockaddr_xdp \<Rightarrow> int option"
  se_prog :: prog_env
  se_put_off :: off_answer

type_synonym create_result = "(int \<times> xsk_socket option \<times> xsk_umem option \<times> xsk_world) res"

text \<open>The end of a failed creation from the label \<open>out_socket\<close> on, and from \<open>out_put_ctx\<close> on.\<close>

definition out_socket :: "int \<Rightarrow> xsk_umem \<Rightarrow> int \<Rightarrow> xsk_world \<Rightarrow> create_result" where
  "out_socket fd umem err w =
     (let umem = umem\<lparr>u_refcount := u_refcount umem - 1\<rparr>
      in Inr (err, None, Some umem, if u_refcount umem \<noteq> 0 then close_fd fd w else w))"

definition out_put_ctx :: "off_answer \<Rightarrow> int \<Rightarrow> nat \<Rightarrow> xsk_umem \<Rightarrow> int \<Rightarrow> xsk_world \<Rightarrow> create_result" where
  "out_put_ctx A fd a umem err w = rbind (xsk_put_ctx A umem a w) (\<lambda>(umem, w). out_socket fd umem err w)"

definition ring_bytes :: "ring_off \<Rightarrow> u32 \<Rightarrow> u64" where
  "ring_bytes off sz = o_desc off + ucast sz * 16"

text \<open>The mapping of a ring (none when the caller gave none), and its structure; \<open>wd\<close> are the two words of the ring.\<close>

definition map_ring :: "nat option \<Rightarrow> int + u64 \<Rightarrow> u64 \<Rightarrow> xsk_world \<Rightarrow> int + u64 \<times> xsk_world" where
  "map_ring r answer n w =
     (case r of None \<Rightarrow> Inr (0, w)
      | Some _ \<Rightarrow> (case answer of Inl e \<Rightarrow> Inl e | Inr m \<Rightarrow> Inr (m, map_region m n w)))"

definition unmap_ring :: "nat option \<Rightarrow> u64 \<Rightarrow> u64 \<Rightarrow> xsk_world \<Rightarrow> xsk_world" where
  "unmap_ring r m n w = (if r = None then w else unmap_region m n w)"

definition setup_rx :: "ring_off \<Rightarrow> u32 \<Rightarrow> u64 \<Rightarrow> u32 \<times> u32 \<Rightarrow> nat option \<Rightarrow> xsk_world \<Rightarrow> xsk_world" where
  "setup_rx off sz m wd r w =
     (case r of None \<Rightarrow> w | Some a \<Rightarrow> set_ring a ((rings w a)\<lparr>x_mask := sz - 1, x_size := sz, x_producer := m + o_producer off,
        x_consumer := m + o_consumer off, x_flags := m + o_flags off, x_ring := m + o_desc off,
        x_cached_prod := fst wd, x_cached_cons := snd wd\<rparr>) w)"

definition setup_tx :: "ring_off \<Rightarrow> u32 \<Rightarrow> u64 \<Rightarrow> u32 \<times> u32 \<Rightarrow> nat option \<Rightarrow> xsk_world \<Rightarrow> xsk_world" where
  "setup_tx off sz m wd r w =
     (case r of None \<Rightarrow> w | Some a \<Rightarrow> set_ring a ((rings w a)\<lparr>x_mask := sz - 1, x_size := sz, x_producer := m + o_producer off,
        x_consumer := m + o_consumer off, x_flags := m + o_flags off, x_ring := m + o_desc off,
        x_cached_prod := fst wd, x_cached_cons := snd wd + sz\<rparr>) w)"

definition bind_address :: "xsk_umem \<Rightarrow> xsk_ctx \<Rightarrow> xsk_socket_config \<Rightarrow> sockaddr_xdp" where
  "bind_address umem c cfg =
     (if u_refcount umem > 1
      then \<lparr>sxdp_flags = 1, sxdp_ifindex = c_ifindex c, sxdp_queue_id = c_queue_id c, sxdp_shared_umem_fd = u_fd umem\<rparr>
      else \<lparr>sxdp_flags = bind_flags cfg, sxdp_ifindex = c_ifindex c, sxdp_queue_id = c_queue_id c, sxdp_shared_umem_fd = 0\<rparr>)"

text \<open>The part of the creation after the context is known: the rings, the binding and the program.\<close>

definition socket_rings ::
  "sock_env \<Rightarrow> xsk_socket_config \<Rightarrow> int \<Rightarrow> nat \<Rightarrow> nat option \<Rightarrow> nat option \<Rightarrow> xsk_umem \<Rightarrow> xsk_world \<Rightarrow> create_result" where
  "socket_rings E cfg fd a rx tx umem w =
     (let fail = out_put_ctx (se_put_off E) fd a umem in
      case (if rx = None then None else se_rx_opt E) of Some e \<Rightarrow> fail (- e) w | None \<Rightarrow>
     (case (if tx = None then None else se_tx_opt E) of Some e \<Rightarrow> fail (- e) w | None \<Rightarrow>
     (case xsk_get_mmap_offsets (se_off E) of (err, off) \<Rightarrow>
        if err \<noteq> 0 then fail (- se_off_errno E) w
        else
          let rxn = ring_bytes (off_rx off) (rx_size cfg); txn = ring_bytes (off_tx off) (tx_size cfg)
          in (case map_ring rx (se_rx_map E) rxn w of
                Inl e \<Rightarrow> fail (- e) w
              | Inr (rm, w) \<Rightarrow>
                  let w = setup_rx (off_rx off) (rx_size cfg) rm (se_rx_words E) rx w
                  in (case map_ring tx (se_tx_map E) txn w of
                        Inl e \<Rightarrow> fail (- e) (unmap_ring rx rm rxn w)
                      | Inr (tm, w) \<Rightarrow>
                          let w = setup_tx (off_tx off) (tx_size cfg) tm (se_tx_words E) tx w;
                              undo = (\<lambda>w. unmap_ring rx rm rxn (unmap_ring tx tm txn w))
                          in rbind (deref (ctxs w) (Some a)) (\<lambda>c.
                             case se_bind E (bind_address umem c cfg) of
                               Some e \<Rightarrow> fail (- e) (undo w)
                             | None \<Rightarrow>
                                 let w = set_ctx a (c\<lparr>c_prog_fd := - 1\<rparr>) w
                                 in rbind (if libbpf_flags cfg AND INHIBIT_PROG_LOAD = 0
                                           then xsk_setup_prog (se_prog E) (rx \<noteq> None) a w
                                           else Inr (0, w)) (\<lambda>(err, w).
                                    if err \<noteq> 0 then fail err (undo w)
                                    else Inr (0, Some \<lparr>s_rx = rx, s_tx = tx, s_ctx = a, s_config = cfg, s_fd = fd\<rparr>,
                                                Some umem, w))))))))"

definition socket_ctx ::
  "sock_env \<Rightarrow> int \<Rightarrow> u32 \<Rightarrow> nat option \<Rightarrow> nat option \<Rightarrow> xsk_umem \<Rightarrow> xsk_world \<Rightarrow> ((int + nat) \<times> xsk_umem \<times> xsk_world) res" where
  "socket_ctx E ifindex queue_id fill cmp umem w =
     rbind (xsk_get_ctx umem ifindex queue_id w) (\<lambda>(r, w).
       case r of
         Some a \<Rightarrow> Inr (Inr a, umem, w)
       | None \<Rightarrow>
           (case (fill, cmp) of
              (Some f, Some c) \<Rightarrow>
                rbind (xsk_create_ctx (se_rings E) (se_ctx E) umem ifindex queue_id f c w) (\<lambda>(r, umem, w).
                  Inr (case r of Some a \<Rightarrow> Inr a | None \<Rightarrow> Inl (- 12), umem, w))
            | _ \<Rightarrow> Inr (Inl (- 14), umem, w)))"


text \<open>\<open>ptr_ok\<close> says that the caller gave a place for the socket.\<close>

definition xsk_socket__create_shared ::
  "sock_env \<Rightarrow> bool \<Rightarrow> u32 \<Rightarrow> xsk_umem option \<Rightarrow> nat option \<Rightarrow> nat option \<Rightarrow> nat option \<Rightarrow> nat option \<Rightarrow>
     xsk_socket_config option \<Rightarrow> xsk_world \<Rightarrow> create_result" where
  "xsk_socket__create_shared E ptr_ok queue_id umem rx tx fill cmp usr w =
     (case umem of
        None \<Rightarrow> Inr (- 14, None, umem, w)
      | Some u \<Rightarrow>
          if \<not> ptr_ok \<or> rx = None \<and> tx = None then Inr (- 14, None, umem, w)
          else if \<not> se_calloc E then Inr (- 12, None, umem, w)
          else
            (case xsk_set_xdp_socket_config usr of
               Inl err \<Rightarrow> Inr (err, None, umem, w)
             | Inr cfg \<Rightarrow>
                 if se_ifindex E = 0 then Inr (- se_errno E, None, umem, w)
                 else
                   let u' = u\<lparr>u_refcount := u_refcount u + 1\<rparr>
                   in (case (if u_refcount u > 0 then se_socket E else Inr (u_fd u)) of
                         Inl e \<Rightarrow> Inr (- e, None, Some u', w)
                       | Inr fd \<Rightarrow>
                           rbind (socket_ctx E (se_ifindex E) queue_id fill cmp u'
                                    (if u_refcount u > 0 then open_fd fd w else w)) (\<lambda>(r, u', w).
                             case r of
                               Inl err \<Rightarrow> out_socket fd u' err w
                             | Inr a \<Rightarrow> socket_rings E cfg fd a rx tx u' w))))"

definition xsk_socket__create ::
  "sock_env \<Rightarrow> bool \<Rightarrow> u32 \<Rightarrow> xsk_umem option \<Rightarrow> nat option \<Rightarrow> nat option \<Rightarrow> xsk_socket_config option \<Rightarrow> xsk_world \<Rightarrow>
     create_result" where
  "xsk_socket__create E ptr_ok queue_id umem rx tx usr w =
     (case umem of
        None \<Rightarrow> Inl NullDeref
      | Some u \<Rightarrow> xsk_socket__create_shared E ptr_ok queue_id umem rx tx (fill_save u) (comp_save u) usr w)"

definition unmap_socket :: "off_answer \<Rightarrow> xsk_socket \<Rightarrow> xsk_world \<Rightarrow> xsk_world" where
  "unmap_socket A x w =
     (case xsk_get_mmap_offsets A of (err, off) \<Rightarrow>
        if err \<noteq> 0 then w
        else
          let w = (case s_rx x of None \<Rightarrow> w
                   | Some r \<Rightarrow> unmap_region (x_ring (rings w r) - o_desc (off_rx off))
                                (ring_bytes (off_rx off) (rx_size (s_config x))) w)
          in (case s_tx x of None \<Rightarrow> w
              | Some r \<Rightarrow> unmap_region (x_ring (rings w r) - o_desc (off_tx off))
                           (ring_bytes (off_tx off) (tx_size (s_config x))) w))"

text \<open>\<open>A\<close> and \<open>B\<close> are the answers to the two questions for the offsets, for the socket and for the context.\<close>

definition xsk_socket__delete ::
  "off_answer \<Rightarrow> off_answer \<Rightarrow> xsk_umem \<Rightarrow> xsk_socket option \<Rightarrow> xsk_world \<Rightarrow> (xsk_umem \<times> xsk_world) res" where
  "xsk_socket__delete A B umem xsk w =
     (case xsk of
        None \<Rightarrow> Inr (umem, w)
      | Some x \<Rightarrow>
          rbind (deref (ctxs w) (Some (s_ctx x))) (\<lambda>c.
          rbind (if c_prog_fd c \<noteq> - 1
                 then rbind (xsk_delete_bpf_maps (s_ctx x) w) (\<lambda>w. Inr (close_fd (c_prog_fd c) w))
                 else Inr w) (\<lambda>w.
          rbind (xsk_put_ctx B umem (s_ctx x) (unmap_socket A x w)) (\<lambda>(umem, w).
             Inr (umem\<lparr>u_refcount := u_refcount umem - 1\<rparr>, if s_fd x \<noteq> u_fd umem then close_fd (s_fd x) w else w)))))"

definition xsk_socket__update_xskmap :: "prog_env \<Rightarrow> xsk_socket \<Rightarrow> int \<Rightarrow> xsk_world \<Rightarrow> (int \<times> xsk_world) res" where
  "xsk_socket__update_xskmap E xsk fd w =
     rbind (deref (ctxs w) (Some (s_ctx xsk))) (\<lambda>c. Inr (pe_update E, set_ctx (s_ctx xsk) (c\<lparr>c_map_fd := fd\<rparr>) w))"

text \<open>\<open>xsk_setup_xdp_prog\<close> works on a temporary socket and context at \<open>actx\<close>; \<open>named\<close> says that the interface has a name.
  The result has the descriptor given through \<open>xsks_map_fd\<close>.\<close>

definition xsk_create_xsk_struct :: "nat option \<Rightarrow> bool \<Rightarrow> int \<Rightarrow> int \<Rightarrow> xsk_world \<Rightarrow> int \<times> xsk_world" where
  "xsk_create_xsk_struct actx named errno ifindex w =
     (case actx of
        None \<Rightarrow> (- 12, w)
      | Some a \<Rightarrow> if \<not> named then (- errno, w)
          else (0, set_ctx a \<lparr>c_fill = 0, c_comp = 0, c_queue_id = 0, c_refcount = 0, c_ifindex = ifindex,
                  c_prog_fd = 0, c_map_fd = 0\<rparr> w))"

definition xsk_setup_xdp_prog ::
  "prog_env \<Rightarrow> bool \<Rightarrow> nat option \<Rightarrow> bool \<Rightarrow> int \<Rightarrow> int \<Rightarrow> xsk_world \<Rightarrow> (int \<times> int option \<times> xsk_world) res" where
  "xsk_setup_xdp_prog E xsk_ok actx named errno ifindex w =
     (if \<not> xsk_ok then Inr (- 12, None, w)
      else
        (case xsk_create_xsk_struct actx named errno ifindex w of (err, w) \<Rightarrow>
           if err \<noteq> 0 then Inr (- 22, None, w)
           else
             (case actx of
                None \<Rightarrow> Inl NullDeref
              | Some a \<Rightarrow>
                  rbind (xsk_setup_prog E False a w) (\<lambda>(err, w).
                  rbind (deref (ctxs w) (Some a)) (\<lambda>c.
                  Inr (err, if err = 0 then Some (c_map_fd c) else None, w\<lparr>ctxs := (ctxs w)(a := None)\<rparr>))))))"

end
