(* ===== verification/Libbpf_Xsk_Life.thy ===== *)
theory Libbpf_Xsk_Life
  imports Libbpf_Xsk_Socket
begin

text \<open>
  Histories of packet memories and sockets of \<open>xsk.c\<close>: the invariant that ties reference counts, contexts and open descriptors
  to the sockets, that every creation and deletion keeps it on every path of failure, and the faults that break it or
  leak: a failing \<open>socket\<close>, a failing mapping, a shared program.
\<close>

section \<open>What a step leaves alone\<close>

definition same_fds :: "xsk_world \<Rightarrow> xsk_world \<Rightarrow> bool" where
  "same_fds w w' \<longleftrightarrow> x_fds w' = x_fds w \<and> x_badclose w' = x_badclose w"

lemma same_fds_simps [simp]:
  "same_fds w w"
  "same_fds w (map_region a n w) = True" "same_fds w (unmap_region a n w) = True"
  "same_fds w (set_ring r x w) = True" "same_fds w (set_ctx c y w) = True"
  by (simp_all add: same_fds_def map_region_def unmap_region_def set_ring_def set_ctx_def)

lemma same_fds_trans [trans]: "same_fds a b \<Longrightarrow> same_fds b c \<Longrightarrow> same_fds a c"
  by (simp add: same_fds_def)

lemma ctxs_simps [simp]:
  "ctxs (map_region a n w) = ctxs w" "ctxs (unmap_region a n w) = ctxs w" "ctxs (set_ring r x w) = ctxs w"
  "ctxs (set_ctx c y w) = (ctxs w)(c \<mapsto> y)" "ctxs (open_fd fd w) = ctxs w" "ctxs (close_fd fd w) = ctxs w"
  by (simp_all add: map_region_def unmap_region_def set_ring_def set_ctx_def open_fd_def close_fd_def)

lemma fds_simps [simp]:
  "x_fds (map_region a n w) = x_fds w" "x_fds (unmap_region a n w) = x_fds w" "x_fds (set_ring r x w) = x_fds w"
  "x_fds (set_ctx c y w) = x_fds w" "x_fds (open_fd fd w) = add_mset fd (x_fds w)" "x_fds (close_fd fd w) = x_fds w - {#fd#}"
  "x_badclose (map_region a n w) = x_badclose w" "x_badclose (unmap_region a n w) = x_badclose w"
  "x_badclose (set_ring r x w) = x_badclose w" "x_badclose (set_ctx c y w) = x_badclose w"
  "x_badclose (open_fd fd w) = x_badclose w" "x_badclose (close_fd fd w) = (x_badclose w \<or> fd \<notin># x_fds w)"
  by (simp_all add: map_region_def unmap_region_def set_ring_def set_ctx_def open_fd_def close_fd_def)

lemma create_umem_rings_frame:
  assumes "xsk_create_umem_rings E u f c w = (err, w')"
  shows "ctxs w' = ctxs w \<and> x_fds w' = x_fds w \<and> x_badclose w' = x_badclose w"
  using assms
  by (auto simp: xsk_create_umem_rings_def Let_def split: option.splits sum.splits prod.splits if_splits)

lemma setup_rx_frame [simp]:
  "ctxs (setup_rx off sz m wd r w) = ctxs w" "x_fds (setup_rx off sz m wd r w) = x_fds w"
  "x_badclose (setup_rx off sz m wd r w) = x_badclose w"
  by (simp_all add: setup_rx_def split: option.splits)

lemma setup_tx_frame [simp]:
  "ctxs (setup_tx off sz m wd r w) = ctxs w" "x_fds (setup_tx off sz m wd r w) = x_fds w"
  "x_badclose (setup_tx off sz m wd r w) = x_badclose w"
  by (simp_all add: setup_tx_def split: option.splits)

lemma unmap_ring_frame [simp]:
  "ctxs (unmap_ring r m n w) = ctxs w" "x_fds (unmap_ring r m n w) = x_fds w" "x_badclose (unmap_ring r m n w) = x_badclose w"
  by (simp_all add: unmap_ring_def)

lemma map_ring_frame:
  "map_ring r answer n w = Inr (m, w') \<Longrightarrow> ctxs w' = ctxs w \<and> x_fds w' = x_fds w \<and> x_badclose w' = x_badclose w"
  by (auto simp: map_ring_def split: option.splits sum.splits)

section \<open>The invariant of the contexts\<close>

text \<open>\<open>M\<close> is the multiset of the references that sockets hold to contexts. The contexts of \<open>P\<close> may name a program.\<close>

definition ctx_ok :: "nat set \<Rightarrow> nat multiset \<Rightarrow> xsk_umem \<Rightarrow> xsk_world \<Rightarrow> bool" where
  "ctx_ok P M u w \<longleftrightarrow>
     distinct (ctx_list u) \<and> set (ctx_list u) = set_mset M \<and> dom (ctxs w) = set_mset M \<and>
     (\<forall>a c. ctxs w a = Some c \<longrightarrow> c_refcount c = int (count M a) \<and> (a \<in> P \<or> c_prog_fd c = - 1)) \<and>
     (fill_save u = None \<longleftrightarrow> comp_save u = None)"

lemma ctx_ok_cong: "ctx_ok P M u w \<Longrightarrow> ctxs w' = ctxs w \<Longrightarrow> ctx_ok P M u w'"
  by (simp add: ctx_ok_def)

lemma ctx_ok_refcount [simp]: "ctx_ok P M (u\<lparr>u_refcount := n\<rparr>) w = ctx_ok P M u w"
  by (simp add: ctx_ok_def)

lemma ctx_ok_deref: "ctx_ok P M u w \<Longrightarrow> a \<in># M \<Longrightarrow> \<exists>c. ctxs w a = Some c \<and> c_refcount c = int (count M a)"
  unfolding ctx_ok_def by (metis domD)

lemma ctx_ok_set_prog:
  assumes ok: "ctx_ok P M u w" and P: "P \<subseteq> {a}" and c: "ctxs w a = Some c"
    and w': "ctxs w' = (ctxs w)(a \<mapsto> c\<lparr>c_prog_fd := - 1\<rparr>)"
  shows "ctx_ok {} M u w'"
proof -
  have "dom (ctxs w') = dom (ctxs w)" using c w' by auto
  moreover have "c_refcount d = int (count M b) \<and> c_prog_fd d = - 1" if "ctxs w' b = Some d" for b d
  proof (cases "b = a")
    case True
    then show ?thesis using that w' c ok by (auto simp: ctx_ok_def)
  next
    case False
    then have "ctxs w b = Some d" "b \<notin> P" using that w' P by auto
    then show ?thesis using ok by (auto simp: ctx_ok_def)
  qed
  ultimately show ?thesis using ok by (simp add: ctx_ok_def)
qed

lemma find_ctx_total:
  assumes "\<And>a. a \<in> set l \<Longrightarrow> h a \<noteq> None"
  shows "\<exists>r. find_ctx h i q l = Inr r \<and> (\<forall>a. r = Some a \<longrightarrow> a \<in> set l)"
  using assms
proof (induction l)
  case (Cons a l)
  then obtain c where "h a = Some c" by fastforce
  moreover obtain r where "find_ctx h i q l = Inr r" "\<forall>a. r = Some a \<longrightarrow> a \<in> set l" using Cons by fastforce
  ultimately show ?case by auto
qed simp

lemma get_ctx_ok:
  assumes ok: "ctx_ok {} M u w"
  shows "xsk_get_ctx u i q w = Inr (None, w) \<or>
    (\<exists>a w'. xsk_get_ctx u i q w = Inr (Some a, w') \<and> ctx_ok {} (add_mset a M) u w' \<and> a \<in># M \<and> same_fds w w')"
proof -
  have "\<And>a. a \<in> set (ctx_list u) \<Longrightarrow> ctxs w a \<noteq> None" using ok by (auto simp: ctx_ok_def dom_def set_eq_iff)
  then obtain r where r: "find_ctx (ctxs w) i q (ctx_list u) = Inr r" "\<And>a. r = Some a \<Longrightarrow> a \<in> set (ctx_list u)"
    using find_ctx_total by blast
  show ?thesis
  proof (cases r)
    case None
    with r show ?thesis by (simp add: xsk_get_ctx_def)
  next
    case (Some a)
    then have a: "a \<in># M" using r(2) ok by (simp add: ctx_ok_def)
    then obtain c where c: "ctxs w a = Some c" "c_refcount c = int (count M a)" using ctx_ok_deref ok by blast
    have "ctx_ok {} (add_mset a M) u (set_ctx a (c\<lparr>c_refcount := c_refcount c + 1\<rparr>) w)"
      using ok a c by (auto simp: ctx_ok_def)
    with r Some a c show ?thesis by (simp add: xsk_get_ctx_def)
  qed
qed

lemma put_ctx_ok:
  assumes ok: "ctx_ok P (add_mset a M) u w"
  obtains u' w' where "xsk_put_ctx A u a w = Inr (u', w')" "ctx_ok P M u' w'" "same_fds w w'"
    "u_fd u' = u_fd u" "u_refcount u' = u_refcount u"
proof -
  obtain c where c: "ctxs w a = Some c" "c_refcount c = int (count (add_mset a M) a)"
    using ctx_ok_deref[OF ok, of a] by (auto simp: insert_absorb)
  let ?w = "set_ctx a (c\<lparr>c_refcount := c_refcount c - 1\<rparr>) w"
  show thesis
  proof (cases "a \<in># M")
    case True
    then have "ctx_ok P M u ?w" using ok c by (auto simp: ctx_ok_def insert_absorb)
    moreover have "xsk_put_ctx A u a w = Inr (u, ?w)" using c True by (simp add: xsk_put_ctx_def)
    ultimately show thesis by (intro that) auto
  next
    case False
    then have z: "c_refcount c = 1" using c by (simp add: not_in_iff)
    have "\<exists>w'. xsk_put_ctx A u a w = Inr (u\<lparr>ctx_list := remove1 a (ctx_list u)\<rparr>, w') \<and>
      ctxs w' = (ctxs w)(a := None) \<and> same_fds w w'"
      using c(1) z by (cases "xsk_get_mmap_offsets A") (simp add: xsk_put_ctx_def Let_def same_fds_def)
    then obtain w' where w': "xsk_put_ctx A u a w = Inr (u\<lparr>ctx_list := remove1 a (ctx_list u)\<rparr>, w')"
      "ctxs w' = (ctxs w)(a := None)" "same_fds w w'" by blast
    have ok': "ctx_ok P M (u\<lparr>ctx_list := remove1 a (ctx_list u)\<rparr>) w'"
      using ok False w'(2) by (auto simp: ctx_ok_def split: if_splits)
    show thesis by (rule that[OF w'(1) ok' w'(3)]) simp_all
  qed
qed


lemma create_ctx_ok:
  assumes ok: "ctx_ok {} M u w" and fresh: "\<And>a. alloc = Some a \<Longrightarrow> ctxs w a = None"
  obtains u' w' where "xsk_create_ctx E alloc u i q f c w = Inr (None, u, w')" "ctx_ok {} M u w'" "same_fds w w'"
  | a u' w' where "xsk_create_ctx E alloc u i q f c w = Inr (Some a, u', w')" "ctx_ok {a} (add_mset a M) u' w'"
      "same_fds w w'" "u_fd u' = u_fd u" "u_refcount u' = u_refcount u"
proof (cases alloc)
  case None
  then show thesis by (intro that(1)) (auto simp: xsk_create_ctx_def ok)
next
  case (Some a)
  have a: "a \<notin># M" "ctxs w a = None" "a \<notin> set (ctx_list u)" using ok fresh[OF Some] by (auto simp: ctx_ok_def)
  obtain err :: int and w1 where w1: "ctxs w1 = ctxs w" "same_fds w w1" and step:
    "xsk_create_ctx E alloc u i q f c w = (if err \<noteq> 0 then Inr (None, u, w1)
       else Inr (Some a, u\<lparr>fill_save := None, comp_save := None, ctx_list := a # ctx_list u\<rparr>,
         set_ctx a \<lparr>c_fill = f, c_comp = c, c_queue_id = q, c_refcount = 1, c_ifindex = i, c_prog_fd = 0, c_map_fd = 0\<rparr> w1))"
  proof (cases "fill_save u")
    case None
    obtain err w1 where r: "xsk_create_umem_rings E u f c w = (err, w1)" by (cases "xsk_create_umem_rings E u f c w") auto
    from create_umem_rings_frame[OF this] show thesis
      by (intro that[of w1 err]) (auto simp: xsk_create_ctx_def Some None r same_fds_def)
  next
    case f: (Some fs)
    then obtain cs where "comp_save u = Some cs" using ok by (auto simp: ctx_ok_def)
    with f show thesis
      by (intro that[of "if fs \<noteq> f \<or> comp_save u \<noteq> Some c
             then set_ring c (rings (set_ring f (rings w fs) w) cs) (set_ring f (rings w fs) w) else w" 0])
        (auto simp: xsk_create_ctx_def Some same_fds_def Let_def)
  qed
  show thesis
  proof (cases "err = 0")
    case True
    let ?u = "u\<lparr>fill_save := None, comp_save := None, ctx_list := a # ctx_list u\<rparr>"
    let ?w = "set_ctx a \<lparr>c_fill = f, c_comp = c, c_queue_id = q, c_refcount = 1, c_ifindex = i, c_prog_fd = 0, c_map_fd = 0\<rparr> w1"
    have s: "xsk_create_ctx E alloc u i q f c w = Inr (Some a, ?u, ?w)" using step True by simp
    have ok': "ctx_ok {a} (add_mset a M) ?u ?w" using ok a w1(1) by (auto simp: ctx_ok_def not_in_iff)
    have fds: "same_fds w ?w" using w1(2) by (simp add: same_fds_def)
    show thesis by (rule that(2)[OF s ok' fds]) simp_all
  next
    case False
    then have s: "xsk_create_ctx E alloc u i q f c w = Inr (None, u, w1)" using step by simp
    show thesis by (rule that(1)[OF s ctx_ok_cong[OF ok w1(1)] w1(2)])
  qed
qed


section \<open>The invariant of a packet memory and its sockets\<close>

text \<open>\<open>B\<close> are the descriptors that belong to others, \<open>n\<close> is how often \<open>socket\<close> failed: each failure leaves a reference
  that is never given back.\<close>

definition xsk_ok :: "int multiset \<Rightarrow> nat \<Rightarrow> xsk_umem \<Rightarrow> xsk_socket list \<Rightarrow> xsk_world \<Rightarrow> bool" where
  "xsk_ok B n u socks w \<longleftrightarrow>
     u_refcount u = int (length socks + n) \<and> \<not> x_badclose w \<and>
     x_fds w = B + {#u_fd u#} + filter_mset (\<lambda>fd. fd \<noteq> u_fd u) (mset (map s_fd socks)) \<and>
     ctx_ok {} (mset (map s_ctx socks)) u w"

lemma no_refs [simp]:
  "int (length socks) + int n = 0 \<longleftrightarrow> socks = [] \<and> n = 0" "0 < int (length socks) + int n \<longleftrightarrow> socks \<noteq> [] \<or> n \<noteq> 0"
  by (cases socks; simp)+

definition inhibits :: "xsk_socket_config option \<Rightarrow> bool" where
  "inhibits usr \<longleftrightarrow> (\<exists>c. usr = Some c \<and> libbpf_flags c AND INHIBIT_PROG_LOAD \<noteq> 0)"

text \<open>What the operating system promises: a new descriptor is not an open one, a new context is not at the address of a live
  one.\<close>

definition fresh_env :: "sock_env \<Rightarrow> xsk_world \<Rightarrow> bool" where
  "fresh_env E w \<longleftrightarrow>
     (case se_socket E of Inl _ \<Rightarrow> True | Inr fd \<Rightarrow> fd \<notin># x_fds w) \<and>
     (case se_ctx E of None \<Rightarrow> True | Some a \<Rightarrow> ctxs w a = None)"

text \<open>A creation that comes to its call of \<open>socket\<close>, which fails.\<close>

definition socket_fails ::
    "sock_env \<Rightarrow> bool \<Rightarrow> nat option \<Rightarrow> nat option \<Rightarrow> xsk_socket_config option \<Rightarrow> xsk_umem \<Rightarrow> bool" where
  "socket_fails E ptr_ok rx tx usr u \<longleftrightarrow>
     ptr_ok \<and> (rx \<noteq> None \<or> tx \<noteq> None) \<and> se_calloc E \<and> isl (xsk_set_xdp_socket_config usr) = False \<and> se_ifindex E \<noteq> 0 \<and>
     0 < u_refcount u \<and> isl (se_socket E)"

definition failures :: "nat \<Rightarrow> bool \<Rightarrow> nat" where
  "failures n fails = (if fails then n + 1 else n)"

definition with_socket :: "xsk_socket option \<Rightarrow> xsk_socket list \<Rightarrow> xsk_socket list" where
  "with_socket r socks = (case r of None \<Rightarrow> socks | Some s \<Rightarrow> s # socks)"

text \<open>A creation under way: it has counted itself, and opened a descriptor unless it has that of the packet memory.\<close>

definition under_way :: "int multiset \<Rightarrow> nat \<Rightarrow> int \<Rightarrow> xsk_umem \<Rightarrow> xsk_socket list \<Rightarrow> xsk_world \<Rightarrow> bool" where
  "under_way B n fd u socks w \<longleftrightarrow>
     u_refcount u = int (length socks + n) + 1 \<and> \<not> x_badclose w \<and>
     (if length socks + n = 0 then fd = u_fd u else fd \<noteq> u_fd u) \<and>
     x_fds w = B + {#u_fd u#} + filter_mset (\<lambda>fd. fd \<noteq> u_fd u) (add_mset fd (mset (map s_fd socks)))"

lemma under_way_same:
  "under_way B n fd u socks w \<Longrightarrow> same_fds w w' \<Longrightarrow> u_fd u' = u_fd u \<Longrightarrow> u_refcount u' = u_refcount u \<Longrightarrow>
    under_way B n fd u' socks w'"
  by (simp add: under_way_def same_fds_def)

lemma out_socket_ok:
  assumes "under_way B n fd u socks w" "ctx_ok P (mset (map s_ctx socks)) u w" "P \<inter> s_ctx ` set socks = {}"
  shows "\<exists>u' w'. out_socket fd u err w = Inr (err, None, Some u', w') \<and> xsk_ok B n u' socks w'"
proof -
  have "ctx_ok {} (mset (map s_ctx socks)) u w" using assms(2,3) unfolding ctx_ok_def by fastforce
  moreover have "ctxs (if int (length socks + n) \<noteq> 0 then close_fd fd w else w) = ctxs w" by simp
  ultimately show ?thesis using assms(1)
    by (auto simp: out_socket_def under_way_def xsk_ok_def Let_def ctx_ok_def split: if_splits)
qed

lemma out_put_ctx_ok:
  assumes u: "under_way B n fd u socks w" and c: "ctx_ok P (add_mset a (mset (map s_ctx socks))) u w"
    and P: "P \<inter> s_ctx ` set socks = {}"
  shows "\<exists>u' w'. out_put_ctx A fd a u err w = Inr (err, None, Some u', w') \<and> xsk_ok B n u' socks w'"
proof -
  obtain u' w' where p: "xsk_put_ctx A u a w = Inr (u', w')" "ctx_ok P (mset (map s_ctx socks)) u' w'" "same_fds w w'"
    "u_fd u' = u_fd u" "u_refcount u' = u_refcount u" by (rule put_ctx_ok[OF c])
  from out_socket_ok[OF under_way_same[OF u p(3-5)] p(2) P] p(1) show ?thesis by (simp add: out_put_ctx_def)
qed


definition good_end :: "int multiset \<Rightarrow> nat \<Rightarrow> xsk_socket list \<Rightarrow> create_result \<Rightarrow> bool" where
  "good_end B n socks R \<longleftrightarrow>
     (\<exists>err r u w. R = Inr (err, r, Some u, w) \<and> xsk_ok B n u (with_socket r socks) w \<and> (r \<noteq> None \<longrightarrow> err = 0))"

lemma good_end_None: "\<exists>u' w'. R = Inr (err, None, Some u', w') \<and> xsk_ok B n u' socks w' \<Longrightarrow> good_end B n socks R"
  by (auto simp: good_end_def with_socket_def)

lemma good_end_Some: "xsk_ok B n u (s # socks) w \<Longrightarrow> good_end B n socks (Inr (0, Some s, Some u, w))"
  by (simp add: good_end_def with_socket_def)

lemma socket_rings_ok:
  assumes u: "under_way B n fd u socks w" and c: "ctx_ok P (add_mset a (mset (map s_ctx socks))) u w"
    and P: "P \<subseteq> {a}" "P \<inter> s_ctx ` set socks = {}" and inh: "libbpf_flags cfg AND INHIBIT_PROG_LOAD \<noteq> 0"
  shows "good_end B n socks (socket_rings E cfg fd a rx tx u w)"
proof -
  have F: "good_end B n socks (out_put_ctx A fd a u err w')" if "ctxs w' = ctxs w" "same_fds w w'" for A err w'
    by (rule good_end_None[OF out_put_ctx_ok[OF under_way_same[OF u that(2)] ctx_ok_cong[OF c that(1)] P(2)]]) simp_all
  obtain err off where off: "xsk_get_mmap_offsets (se_off E) = (err, off)" by fastforce
  obtain cx where cx: "ctxs w a = Some cx" using ctx_ok_deref[OF c, of a] by auto
  have fin: "xsk_ok B n u (\<lparr>s_rx = rx, s_tx = tx, s_ctx = a, s_config = cfg, s_fd = fd\<rparr> # socks) w'"
    if "ctxs w' = (ctxs w)(a \<mapsto> cx\<lparr>c_prog_fd := - 1\<rparr>)" "same_fds w w'" for w'
  proof -
    have "ctx_ok {} (add_mset a (mset (map s_ctx socks))) u w'" by (rule ctx_ok_set_prog[OF c P(1) cx that(1)])
    then show ?thesis using u that(2) by (simp add: xsk_ok_def under_way_def same_fds_def)
  qed
  let ?rxn = "ring_bytes (off_rx off) (rx_size cfg)" and ?txn = "ring_bytes (off_tx off) (tx_size cfg)"
  show ?thesis
  proof (cases "(if rx = None then None else se_rx_opt E) = None \<and> (if tx = None then None else se_tx_opt E) = None \<and> err = 0")
    case False
    then show ?thesis using off by (auto simp: socket_rings_def Let_def intro!: F split: option.splits)
  next
    case True
    show ?thesis
    proof (cases "map_ring rx (se_rx_map E) ?rxn w")
      case (Inl e)
      then show ?thesis using True off by (simp add: socket_rings_def Let_def F)
    next
      case (Inr mw)
      then obtain rm w1 where rm: "map_ring rx (se_rx_map E) ?rxn w = Inr (rm, w1)" by (cases mw) auto
      let ?w1 = "setup_rx (off_rx off) (rx_size cfg) rm (se_rx_words E) rx w1"
      note f1 = map_ring_frame[OF rm]
      show ?thesis
      proof (cases "map_ring tx (se_tx_map E) ?txn ?w1")
        case (Inl e)
        then show ?thesis using True off rm f1 by (simp add: socket_rings_def Let_def F same_fds_def)
      next
        case (Inr mw)
        then obtain tm w2 where tm: "map_ring tx (se_tx_map E) ?txn ?w1 = Inr (tm, w2)" by (cases mw) auto
        note f2 = map_ring_frame[OF tm]
        show ?thesis using True off rm f1 tm f2 cx inh
          by (auto simp: socket_rings_def Let_def same_fds_def intro!: F good_end_Some fin split: option.splits)
      qed
    qed
  qed
qed


text \<open>What follows the context.\<close>

abbreviation (input) after_ctx where
  "after_ctx E cfg fd rx tx \<equiv>
     \<lambda>(r, u, w). case r of Inl err \<Rightarrow> out_socket fd u err w | Inr a \<Rightarrow> socket_rings E cfg fd a rx tx u w"

lemma new_ctx_ok:
  assumes uw: "under_way B n fd u socks w" and c: "ctx_ok {} (mset (map s_ctx socks)) u w"
    and fresh: "\<And>a. se_ctx E = Some a \<Longrightarrow> ctxs w a = None" and inh: "libbpf_flags cfg AND INHIBIT_PROG_LOAD \<noteq> 0"
  shows "good_end B n socks (rbind (rbind (xsk_create_ctx (se_rings E) (se_ctx E) u i q f g w)
    (\<lambda>(r, u, w). Inr (case r of Some a \<Rightarrow> Inr a | None \<Rightarrow> Inl (- 12), u, w))) (after_ctx E cfg fd rx tx))"
proof (rule create_ctx_ok[OF c fresh, of "se_ctx E" "se_rings E" i q f g])
  show "se_ctx E = Some a \<Longrightarrow> se_ctx E = Some a" for a by assumption
next
  fix w2 assume cr: "xsk_create_ctx (se_rings E) (se_ctx E) u i q f g w = Inr (None, u, w2)"
    "ctx_ok {} (mset (map s_ctx socks)) u w2" "same_fds w w2"
  have "good_end B n socks (out_socket fd u (- 12) w2)"
    by (rule good_end_None[OF out_socket_ok[OF under_way_same[OF uw cr(3)] cr(2)]]) simp_all
  then show ?thesis using cr(1) by simp
next
  fix a u2 w2 assume cr: "xsk_create_ctx (se_rings E) (se_ctx E) u i q f g w = Inr (Some a, u2, w2)"
    "ctx_ok {a} (add_mset a (mset (map s_ctx socks))) u2 w2" "same_fds w w2" "u_fd u2 = u_fd u" "u_refcount u2 = u_refcount u"
  then have "se_ctx E = Some a" by (auto simp: xsk_create_ctx_def rbind_eq_Inr split: option.splits if_splits)
  then have "ctxs w a = None" by (rule fresh)
  then have "a \<notin># mset (map s_ctx socks)" using c unfolding ctx_ok_def by (metis domIff)
  then have "a \<notin> s_ctx ` set socks" by simp
  then have "good_end B n socks (socket_rings E cfg fd a rx tx u2 w2)"
    by (intro socket_rings_ok[OF under_way_same[OF uw cr(3-5)] cr(2) _ _ inh]) auto
  then show ?thesis using cr(1) by simp
qed

lemma socket_ctx_ok:
  assumes uw: "under_way B n fd u socks w" and c: "ctx_ok {} (mset (map s_ctx socks)) u w"
    and fresh: "\<And>a. se_ctx E = Some a \<Longrightarrow> ctxs w a = None" and inh: "libbpf_flags cfg AND INHIBIT_PROG_LOAD \<noteq> 0"
  shows "good_end B n socks (rbind (socket_ctx E i q fill cmp u w) (after_ctx E cfg fd rx tx))"
proof -
  from get_ctx_ok[OF c] consider (new) "xsk_get_ctx u i q w = Inr (None, w)"
    | (old) a w2 where "xsk_get_ctx u i q w = Inr (Some a, w2)"
        "ctx_ok {} (add_mset a (mset (map s_ctx socks))) u w2" "same_fds w w2" by blast
  then show ?thesis
  proof cases
    case old
    have "good_end B n socks (socket_rings E cfg fd a rx tx u w2)"
      by (rule socket_rings_ok[OF under_way_same[OF uw old(3)] old(2) _ _ inh]) simp_all
    with old(1) show ?thesis by (simp add: socket_ctx_def)
  next
    case new
    have "good_end B n socks (out_socket fd u (- 14) w)" by (rule good_end_None[OF out_socket_ok[OF uw c]]) simp
    with new new_ctx_ok[OF assms] show ?thesis
      by (cases fill; cases cmp) (simp_all add: socket_ctx_def)
  qed
qed

lemma create_shared_ok:
  assumes ok: "xsk_ok B n u socks w" and env: "fresh_env E w" and inh: "inhibits usr"
  shows "good_end B (failures n (socket_fails E ptr_ok rx tx usr u)) socks
    (xsk_socket__create_shared E ptr_ok q (Some u) rx tx fill cmp usr w)"
proof -
  obtain cfg where cfg: "usr = Some cfg" "libbpf_flags cfg AND INHIBIT_PROG_LOAD \<noteq> 0" using inh by (auto simp: inhibits_def)
  have early: "good_end B n socks (Inr (err, None, Some u, w))" for err
    using ok by (auto simp: good_end_def with_socket_def)
  have failed: "good_end B (Suc n) socks (Inr (err, None, Some (u\<lparr>u_refcount := u_refcount u + 1\<rparr>), w))" for err
    using ok by (auto simp: good_end_def with_socket_def xsk_ok_def)
  let ?own = "u_refcount u > 0"
  let ?u = "u\<lparr>u_refcount := u_refcount u + 1\<rparr>"
  have set: "xsk_set_xdp_socket_config usr = Inr cfg \<or> isl (xsk_set_xdp_socket_config usr)"
    by (simp add: cfg(1) xsk_set_xdp_socket_config_def)
  show ?thesis
  proof (cases "?own \<and> isl (se_socket E)")
    case True
    then obtain e where "se_socket E = Inl e" by (auto simp: isl_def)
    with True show ?thesis
      using early failed
      by (auto simp: xsk_socket__create_shared_def socket_fails_def failures_def Let_def split: sum.splits)
  next
    case False
    define fd where "fd = (if ?own then projr (se_socket E) else u_fd u)"
    define w1 where "w1 = (if ?own then open_fd fd w else w)"
    have eq: "(if ?own then se_socket E else Inr (u_fd u)) = Inr fd" using False by (auto simp: fd_def isl_def)
    have new: "fd \<notin># x_fds w" if ?own
      using env that False by (auto simp: fresh_env_def fd_def split: sum.splits)
    have uw: "under_way B n fd ?u socks w1"
      using ok new by (auto simp: under_way_def xsk_ok_def w1_def fd_def)
    have c1: "ctx_ok {} (mset (map s_ctx socks)) ?u w1" using ok by (simp add: xsk_ok_def w1_def ctx_ok_def)
    have fresh: "ctxs w1 a = None" if "se_ctx E = Some a" for a using env that by (simp add: fresh_env_def w1_def)
    have "\<not> socket_fails E ptr_ok rx tx usr u" using False by (auto simp: socket_fails_def)
    then show ?thesis
      using early socket_ctx_ok[OF uw c1 fresh cfg(2), of E]
      by (simp add: xsk_socket__create_shared_def cfg(1) xsk_set_xdp_socket_config_def eq w1_def[symmetric] Let_def failures_def)
  qed
qed

lemma unmap_socket_frame [simp]:
  "ctxs (unmap_socket A x w) = ctxs w" "x_fds (unmap_socket A x w) = x_fds w" "x_badclose (unmap_socket A x w) = x_badclose w"
  by (simp_all add: unmap_socket_def Let_def split: prod.splits option.splits)

lemma delete_ok:
  assumes ok: "xsk_ok B n u socks w" and s: "s \<in> set socks"
  shows "\<exists>u' w'. xsk_socket__delete A A' u (Some s) w = Inr (u', w') \<and> xsk_ok B n u' (remove1 s socks) w'"
proof -
  let ?M = "mset (map s_ctx (remove1 s socks))"
  have ms: "mset socks = add_mset s (mset (remove1 s socks))" using s by simp
  have M: "mset (map s_ctx socks) = add_mset (s_ctx s) ?M" and F: "mset (map s_fd socks) = add_mset (s_fd s) (mset (map s_fd (remove1 s socks)))"
    using arg_cong[OF ms, of "image_mset s_ctx"] arg_cong[OF ms, of "image_mset s_fd"] by simp_all
  have c: "ctx_ok {} (add_mset (s_ctx s) ?M) u w" using ok M by (simp add: xsk_ok_def)
  obtain cx where cx: "ctxs w (s_ctx s) = Some cx" "c_prog_fd cx = - 1"
    using ctx_ok_deref[OF c, of "s_ctx s"] c by (auto simp: ctx_ok_def)
  let ?w1 = "unmap_socket A s w"
  obtain u' w' where p: "xsk_put_ctx A' u (s_ctx s) ?w1 = Inr (u', w')" "ctx_ok {} ?M u' w'" "same_fds ?w1 w'"
    "u_fd u' = u_fd u" "u_refcount u' = u_refcount u" by (rule put_ctx_ok[OF ctx_ok_cong[OF c unmap_socket_frame(1)]])
  have step: "xsk_socket__delete A A' u (Some s) w =
    Inr (u'\<lparr>u_refcount := u_refcount u' - 1\<rparr>, if s_fd s \<noteq> u_fd u' then close_fd (s_fd s) w' else w')"
    using cx p(1) by (simp add: xsk_socket__delete_def )
  have "length socks = Suc (length (remove1 s socks))" using arg_cong[OF ms, of size] by (simp only: size_add_mset size_mset)
  moreover have "ctx_ok {} ?M u' (if s_fd s \<noteq> u_fd u' then close_fd (s_fd s) w' else w')"
    by (rule ctx_ok_cong[OF p(2)]) simp
  ultimately have "xsk_ok B n (u'\<lparr>u_refcount := u_refcount u' - 1\<rparr>) (remove1 s socks)
      (if s_fd s \<noteq> u_fd u' then close_fd (s_fd s) w' else w')"
    using ok p(3-5) unfolding xsk_ok_def F by (simp add: same_fds_def)
  with step show ?thesis by blast
qed


section \<open>Histories\<close>

text \<open>A packet memory is created, then sockets are created and deleted, in any order and with any failures of the
  system. The creations have \<open>XSK_LIBBPF_FLAGS__INHIBIT_PROG_LOAD\<close>: no program is loaded. \<open>n\<close> counts the calls of
  \<open>socket\<close> that failed. \<open>xsk_socket__create\<close> is a creation with the rings that the packet memory has saved.\<close>

inductive xsk_reach :: "int multiset \<Rightarrow> nat \<Rightarrow> xsk_umem \<Rightarrow> xsk_socket list \<Rightarrow> xsk_world \<Rightarrow> bool" for B where
  umem_created:
    "xsk_umem__create E pagesize True area sz fill cmp usr w = (0, Some u, w') \<Longrightarrow> ctxs w = Map.empty \<Longrightarrow>
     \<not> x_badclose w \<Longrightarrow> x_fds w = B \<Longrightarrow> xsk_reach B 0 u [] w'"
| socket_created:
    "xsk_reach B n u socks w \<Longrightarrow> fresh_env E w \<Longrightarrow> inhibits usr \<Longrightarrow>
     xsk_socket__create_shared E ptr_ok q (Some u) rx tx fill cmp usr w = Inr (err, r, Some u', w') \<Longrightarrow>
     xsk_reach B (failures n (socket_fails E ptr_ok rx tx usr u)) u' (with_socket r socks) w'"
| socket_deleted:
    "xsk_reach B n u socks w \<Longrightarrow> s \<in> set socks \<Longrightarrow> xsk_socket__delete A A' u (Some s) w = Inr (u', w') \<Longrightarrow>
     xsk_reach B n u' (remove1 s socks) w'"

lemma umem_create_ok:
  assumes "xsk_umem__create E pagesize p area sz fill cmp usr w = (0, Some u, w')" "ctxs w = Map.empty" "\<not> x_badclose w"
  shows "xsk_ok (x_fds w) 0 u [] w'"
  using assms
  by (auto simp: xsk_umem__create_def Let_def xsk_ok_def ctx_ok_def dest!: create_umem_rings_frame
      split: option.splits sum.splits prod.splits if_splits)

lemma reach_ok: "xsk_reach B n u socks w \<Longrightarrow> xsk_ok B n u socks w"
proof (induction rule: xsk_reach.induct)
  case (umem_created E pagesize area sz fill cmp usr w u w')
  then show ?case using umem_create_ok by blast
next
  case (socket_created n u socks w E usr ptr_ok q rx tx fill cmp err r u' w')
  then show ?case using create_shared_ok[of B n u socks w E usr ptr_ok rx tx q fill cmp] by (auto simp: good_end_def)
next
  case (socket_deleted n u socks w s A A' u' w')
  then show ?case using delete_ok[of B n u socks w s A A'] by auto
qed

text \<open>C37. In a history without program loading (\<open>XSK_LIBBPF_FLAGS__INHIBIT_PROG_LOAD\<close>), whatever calls of the system fail,
  the reference count of the packet memory is the number of its sockets plus the number \<open>n\<close> of calls of \<open>socket\<close> that
  failed, and the open descriptors are exactly those of others, its own, and one for each socket that does not use its own.
  No descriptor is closed that is not open; and a further creation or deletion touches no context that was freed. A failing
  \<open>socket\<close> leaves its reference for ever, and with a program that is loaded for a shared context its descriptors are
  closed twice: both are findings.\<close>

theorem xsk_history_safe:
  assumes "xsk_reach B n u socks w"
  shows "u_refcount u = int (length socks + n) \<and> \<not> x_badclose w \<and>
    x_fds w = B + {#u_fd u#} + filter_mset (\<lambda>fd. fd \<noteq> u_fd u) (mset (map s_fd socks)) \<and>
    (\<forall>E usr p q rx tx fill cmp. fresh_env E w \<longrightarrow> inhibits usr \<longrightarrow>
       (\<exists>R. xsk_socket__create_shared E p q (Some u) rx tx fill cmp usr w = Inr R)) \<and>
    (\<forall>s \<in> set socks. \<forall>A A'. \<exists>R. xsk_socket__delete A A' u (Some s) w = Inr R)"
proof -
  note ok = reach_ok[OF assms]
  have "\<exists>R. xsk_socket__create_shared E p q (Some u) rx tx fill cmp usr w = Inr R" if "fresh_env E w" "inhibits usr" for E usr p q rx tx fill cmp
    using create_shared_ok[OF ok that] unfolding good_end_def by blast
  moreover have "\<exists>R. xsk_socket__delete A A' u (Some s) w = Inr R" if "s \<in> set socks" for s A A'
    using delete_ok[OF ok that] by blast
  ultimately show ?thesis using ok unfolding xsk_ok_def by blast
qed

text \<open>\<open>xsk_umem__delete\<close> refuses with \<open>- EBUSY\<close> exactly while there are sockets or a call of \<open>socket\<close> failed; when it succeeds every
  descriptor of the packet memory and its sockets is closed, and no context is left.\<close>

theorem umem_delete_exact:
  assumes "xsk_reach B n u socks w"
  shows "fst (xsk_umem__delete (Some u) w) = (if socks = [] \<and> n = 0 then 0 else - 16) \<and>
    (socks = [] \<and> n = 0 \<longrightarrow> x_fds (snd (xsk_umem__delete (Some u) w)) = B \<and> ctxs w = Map.empty \<and>
       \<not> x_badclose (snd (xsk_umem__delete (Some u) w)))"
  using reach_ok[OF assms] by (auto simp: xsk_ok_def ctx_ok_def xsk_umem__delete_def)

section \<open>Faults\<close>

text \<open>When \<open>socket\<close> fails for a second socket, the reference it counted is kept, so after the only socket is
  deleted the packet memory can never be: \<open>xsk_umem__delete\<close> answers \<open>- EBUSY\<close>.\<close>

theorem socket_failure_keeps_umem:
  assumes reach: "xsk_reach B 0 u [s] w" and e: "se_socket E = Inl e" "se_calloc E" "se_ifindex E \<noteq> 0"
    and args: "rx \<noteq> None" "xsk_set_xdp_socket_config usr = Inr cfg"
  shows "\<exists>u' u'' w''. xsk_socket__create_shared E True q (Some u) rx tx fill cmp usr w = Inr (- e, None, Some u', w) \<and>
    xsk_socket__delete A A' u' (Some s) w = Inr (u'', w'') \<and> xsk_umem__delete (Some u'') w'' = (- 16, w'')"
proof -
  note ok = reach_ok[OF reach]
  let ?u = "u\<lparr>u_refcount := u_refcount u + 1\<rparr>"
  have c: "xsk_socket__create_shared E True q (Some u) rx tx fill cmp usr w = Inr (- e, None, Some ?u, w)"
    using ok e args by (auto simp: xsk_socket__create_shared_def xsk_ok_def)
  have cx: "ctx_ok {} (add_mset (s_ctx s) {#}) ?u w" using ok by (simp add: xsk_ok_def)
  obtain x where x: "ctxs w (s_ctx s) = Some x" "c_prog_fd x = - 1"
    using ctx_ok_deref[OF cx, of "s_ctx s"] cx by (auto simp: ctx_ok_def)
  obtain u' w' where p: "xsk_put_ctx A' ?u (s_ctx s) (unmap_socket A s w) = Inr (u', w')" "u_refcount u' = u_refcount ?u"
    by (rule put_ctx_ok[OF ctx_ok_cong[OF cx unmap_socket_frame(1)]])
  have "u_refcount u' = 2" using ok p(2) by (simp add: xsk_ok_def)
  then show ?thesis using c x p(1) by (simp add: xsk_socket__delete_def xsk_umem__delete_def)
qed


text \<open>When the completion ring cannot be mapped, what is unmapped is \<open>MAP_FAILED\<close>, not the fill ring, whose
  mapping stays.\<close>

theorem comp_failure_leaks_fill:
  assumes "re_fill_opt E = None" "re_comp_opt E = None" "xsk_get_mmap_offsets (re_off E) = (0, off)"
    and "re_fill_map E = Inr a" "re_comp_map E = Inl e" "a \<noteq> - 1" "\<And>n. (- 1, n) \<notin># x_maps w"
  shows "\<exists>w'. xsk_create_umem_rings E u fill cmp w = (- e, w') \<and> x_badunmap w' \<and>
    x_maps w' = add_mset (a, o_desc (off_fr off) + ucast (fill_size (u_config u)) * 8) (x_maps w)"
  using assms by (auto simp: xsk_create_umem_rings_def Let_def unmap_region_def map_region_def set_ring_def)

text \<open>An answer of an unknown length makes \<open>xsk_get_mmap_offsets\<close> fail without setting \<open>errno\<close>; as the caller gives
  \<open>- errno\<close>, it may report success with no ring mapped.\<close>

theorem unknown_offsets_succeed:
  assumes "re_fill_opt E = None" "re_comp_opt E = None" "oa_ret (re_off E) = 0" "oa_len (re_off E) \<notin> {96, 128}"
    and "re_errno E = 0"
  shows "xsk_create_umem_rings E u fill cmp w = (0, w)"
  using assms by (simp add: xsk_create_umem_rings_def xsk_get_mmap_offsets_def)

text \<open>Two sockets share a context with a program: each deletion closes the descriptor of its map, the second
  time when it is closed already.\<close>

theorem shared_program_closed_twice:
  assumes c: "ctxs w (s_ctx s) = Some c" "s_ctx t = s_ctx s" "c_refcount c = 2" "c_prog_fd c \<noteq> - 1"
    and once: "count (x_fds w) (c_map_fd c) = 1"
    and d1: "xsk_socket__delete A A' u (Some s) w = Inr (u1, w1)"
    and d2: "xsk_socket__delete A2 A2' u1 (Some t) w1 = Inr (u2, w2)"
  shows "x_badclose w2"
proof -
  let ?w = "unmap_socket A s (close_fd (c_prog_fd c) (close_fd (c_map_fd c) w))"
  have u1: "ctxs w1 (s_ctx s) = Some (c\<lparr>c_refcount := 1\<rparr>)" "c_map_fd c \<notin># x_fds w1"
    using d1 c once by (auto simp: xsk_socket__delete_def xsk_delete_bpf_maps_def xsk_put_ctx_def Let_def not_in_iff)
  have "x_badclose (close_fd (c_map_fd c) w1)" using u1(2) by simp
  moreover have "x_badclose w'" if "xsk_put_ctx B v a w = Inr (v', w')" "x_badclose w" for B v a v' w w'
    using that by (auto simp: xsk_put_ctx_def Let_def rbind_eq_Inr split: if_splits prod.splits)
  ultimately show ?thesis using d2 u1(1) c
    by (auto simp: xsk_socket__delete_def xsk_delete_bpf_maps_def rbind_eq_Inr)
qed

text \<open>After the context of a queue was made, or its creation failed late, \<open>xsk_socket__create\<close> makes no socket for another
  queue: the packet memory has forgotten its rings, and the answer is \<open>- EFAULT\<close>.\<close>

theorem create_forgets_rings:
  assumes "fill_save u = None" "xsk_get_ctx u (se_ifindex E) q w1 = Inr (None, w1)"
    and "w1 = (if u_refcount u > 0 then open_fd fd w else w)" "u_refcount u \<ge> 0"
    and "(if u_refcount u > 0 then se_socket E else Inr (u_fd u)) = Inr fd"
    and "se_calloc E" "se_ifindex E \<noteq> 0" "rx \<noteq> None" "xsk_set_xdp_socket_config usr = Inr cfg"
  shows "xsk_socket__create E True q (Some u) rx tx usr w = Inr (- 14, None, Some u, w)"
proof -
  have g: "xsk_get_ctx (u\<lparr>u_refcount := n\<rparr>) i q w = xsk_get_ctx u i q w" for n i w
    by (simp add: xsk_get_ctx_def)
  have cl: "close_fd fd (open_fd fd w) = w" by (simp add: close_fd_def open_fd_def)
  show ?thesis using assms
    by (auto simp: xsk_socket__create_def xsk_socket__create_shared_def socket_ctx_def out_socket_def Let_def g cl
        split: if_splits)
qed


section \<open>A history\<close>

definition plain_offsets :: off_answer where
  "plain_offsets = \<lparr>oa_ret = 0, oa_words = (\<lambda>i. of_nat (8 * i)), oa_len = 128\<rparr>"

definition plain_rings :: rings_env where
  "plain_rings = \<lparr>re_fill_opt = None, re_comp_opt = None, re_off = plain_offsets, re_errno = 0, re_fill_map = Inr 4096,
     re_comp_map = Inr 65536\<rparr>"

definition plain_umem :: umem_env where
  "plain_umem = \<lparr>ue_calloc = True, ue_socket = Inr 3, ue_reg = None, ue_rings = plain_rings\<rparr>"

definition plain_sock :: sock_env where
  "plain_sock = \<lparr>se_calloc = True, se_ifindex = 7, se_errno = 0, se_socket = Inr 4, se_ctx = Some 9, se_rings = plain_rings,
     se_rx_opt = None, se_tx_opt = None, se_off = plain_offsets, se_off_errno = 0, se_rx_map = Inr 131072, se_tx_map = Inr 196608,
     se_rx_words = (0, 0), se_tx_words = (0, 0), se_bind = (\<lambda>_. None),
     se_prog = \<lparr>pe_link_id = (0, 0), pe_sock = Inr 5, pe_channels = Inr (1, 1, 1), pe_create_map = (\<lambda>_. 5),
       pe_probe = \<lparr>pb_map = - 1, pb_load = - 1, pb_run = (0, 0)\<rparr>, pe_load = (\<lambda>_. 6), pe_set_link = 0, pe_prog_fd = Inr 6,
       pe_info1 = 0, pe_calloc = True, pe_info2 = 0, pe_map_ids = [], pe_update = 0\<rparr>, se_put_off = plain_offsets\<rparr>"

definition start_world :: xsk_world where
  "start_world = \<lparr>x_fds = {#}, x_maps = {#}, x_badclose = False, x_badunmap = False,
     rings = (\<lambda>_. \<lparr>x_cached_prod = 0, x_cached_cons = 0, x_mask = 0, x_size = 0, x_producer = 0, x_consumer = 0, x_ring = 0, x_flags = 0\<rparr>),
     ctxs = Map.empty\<rparr>"

definition quiet_config :: xsk_socket_config where
  "quiet_config = \<lparr>rx_size = 64, tx_size = 64, libbpf_flags = 1, cfg_xdp_flags = 0, bind_flags = 0\<rparr>"

lemma quiet_config_simps: "inhibits (Some quiet_config)" "xsk_set_xdp_socket_config (Some quiet_config) = Inr quiet_config"
  "libbpf_flags quiet_config AND INHIBIT_PROG_LOAD = 1"
  by (simp_all add: inhibits_def quiet_config_def xsk_set_xdp_socket_config_def)

lemma history:
  obtains u s w where "xsk_reach {#} 0 u [s] w" "s_fd s = 3" "u_fd u = 3" "fresh_env (plain_sock\<lparr>se_ctx := None\<rparr>) w"
proof -
  have "\<exists>u w. xsk_umem__create plain_umem 4096 True 4096 4096 (Some 0) (Some 1) None start_world = (0, Some u, w) \<and>
    u_fd u = 3 \<and> u_refcount u = 0 \<and> ctx_list u = [] \<and> fill_save u = Some 0 \<and> comp_save u = Some 1 \<and>
    ctxs w = Map.empty \<and> x_fds w = {#3#}"
    by (simp add: xsk_umem__create_def plain_umem_def plain_rings_def plain_offsets_def start_world_def Let_def
        xsk_page_aligned_def xsk_create_umem_rings_def xsk_get_mmap_offsets_def map_region_def set_ring_def open_fd_def)
  then obtain u w where c: "xsk_umem__create plain_umem 4096 True 4096 4096 (Some 0) (Some 1) None start_world = (0, Some u, w)"
    and u: "u_fd u = 3" "u_refcount u = 0" "ctx_list u = []" "fill_save u = Some 0" "comp_save u = Some 1"
    and w: "ctxs w = Map.empty" "x_fds w = {#3#}" by blast
  have r: "xsk_reach {#} 0 u [] w" by (rule umem_created[OF c]) (simp_all add: start_world_def)
  have f: "fresh_env plain_sock w" by (simp add: fresh_env_def plain_sock_def w)
  have "\<exists>s u' w'. xsk_socket__create_shared plain_sock True 0 (Some u) (Some 2) (Some 3) (Some 0) (Some 1) (Some quiet_config) w
    = Inr (0, Some s, Some u', w') \<and> s_fd s = 3 \<and> u_fd u' = 3 \<and> x_fds w' = {#3#}"
    using u w quiet_config_simps
    by (simp add: xsk_socket__create_shared_def plain_sock_def Let_def socket_ctx_def xsk_get_ctx_def xsk_create_ctx_def
        socket_rings_def plain_offsets_def xsk_get_mmap_offsets_def map_ring_def)
  then obtain s u' w' where s: "xsk_socket__create_shared plain_sock True 0 (Some u) (Some 2) (Some 3) (Some 0) (Some 1) (Some quiet_config) w
    = Inr (0, Some s, Some u', w')" "s_fd s = 3" "u_fd u' = 3" "x_fds w' = {#3#}" by blast
  have "xsk_reach {#} 0 u' [s] w'" using socket_created[OF r f quiet_config_simps(1) s(1)] u(2) by (simp add: with_socket_def failures_def socket_fails_def)
  then show thesis by (rule that) (simp_all add: s fresh_env_def plain_sock_def)
qed

lemma umem_delete_exact_witness: "\<exists>u s w. s_fd s = 3 \<and> xsk_reach {#} 0 u [s] w \<and> fst (xsk_umem__delete (Some u) w) = - 16"
proof -
  obtain u s w where h: "xsk_reach {#} 0 u [s] w" "s_fd s = 3" by (rule history)
  then show ?thesis using umem_delete_exact[OF h(1)] by auto
qed

lemma xsk_history_safe_witness: "\<exists>u s w. xsk_reach {#} 0 u [s] w \<and> u_fd u = 3 \<and> s_fd s = 3 \<and> u_refcount u = 1 \<and> x_fds w = {#3#}"
proof -
  obtain u s w where h: "xsk_reach {#} 0 u [s] w" "s_fd s = 3" "u_fd u = 3" by (rule history)
  have "u_refcount u = 1 \<and> x_fds w = {#3#}" using xsk_history_safe[OF h(1)] h(2,3) by simp
  with h show ?thesis by blast
qed

lemma socket_failure_keeps_umem_witness:
  "\<exists>u s w u' u'' w''. xsk_reach {#} 0 u [s] w \<and>
    xsk_socket__create_shared (plain_sock\<lparr>se_socket := Inl 24\<rparr>) True 1 (Some u) (Some 5) None (Some 6) (Some 7) (Some quiet_config) w
      = Inr (- 24, None, Some u', w) \<and>
    xsk_socket__delete plain_offsets plain_offsets u' (Some s) w = Inr (u'', w'') \<and> xsk_umem__delete (Some u'') w'' = (- 16, w'')"
proof -
  obtain u s w where h: "xsk_reach {#} 0 u [s] w" by (rule history)
  have e: "se_socket (plain_sock\<lparr>se_socket := Inl 24\<rparr>) = Inl 24" "se_calloc (plain_sock\<lparr>se_socket := Inl 24\<rparr>)"
    "se_ifindex (plain_sock\<lparr>se_socket := Inl 24\<rparr>) \<noteq> 0" "Some (5::nat) \<noteq> None" by (simp_all add: plain_sock_def)
  show ?thesis using h socket_failure_keeps_umem[OF h e quiet_config_simps(2), of 1 None "Some 6" "Some 7" plain_offsets plain_offsets] by blast
qed

end
