(* ===== verification/Spec2Isabelle.thy ===== *)
theory Spec2Isabelle
  imports NewIP_Base NewIP_Header Lbf_Delay Lbf_Heap Lbf_Store Lbf_Buckets Lbf_Search Lbf_Qdisc
    Lbf_Dequeue Lbf_Invariant Lbf_Release Lbf_System Lbf_Faults
    Xdp_Base Xdp_Router Xdp_Forward Xdp_Spec Tc_Router
    Xdp_Parsing Xdp_Rewrite Jhash C_String User_Params User_Link User_Loader User_Table User_Stats
    Libbpf_Hashmap Libbpf_Nlattr Libbpf_Netlink Lbf_Tool Libbpf_Xsk_Ring
    Libbpf_Linfo Libbpf_Ringbuf User_Cpus Libbpf_Errno Newip_System
    Libbpf_Btf Libbpf_Btf_Spec Libbpf_Btf_Load Libbpf_Btf_Write Libbpf_Btf_Strings Libbpf_Btf_Build
    Libbpf_Btf_Built Libbpf_Xsk_Socket Libbpf_Xsk_Life
begin

text \<open>
  A verification development for the New IP data plane for Linux.

  The repository has two programs that together forward New IP packets. Under \<open>xdp/\<close>, an XDP program
  (\<open>newip_router/xdp_prog_kern.c\<close>) parses the New IP header of a packet, applies its contract, looks up the
  next hop and leaves the outgoing interface and the contract in the metadata of the packet; a tc
  program (\<open>newip_router/tc_prog_kern.c\<close>) reads the interface there and redirects the packet. Programs
  for the user load and attach them, fill the table of 8-bit addresses and show statistics, over
  libbpf. Under \<open>lbf/\<close>, a queue discipline of the kernel (\<open>linux/sch_lbf.c\<close>) delays a packet with a
  Latency Based Forwarding contract so that it is neither too early nor too late, and an extension of
  \<open>tc\<close> (\<open>iproute2/q_lbf.c\<close>) configures it.

  Common ground.
  \<^item> \<open>NewIP_Base\<close>: machine words, byte buffers with checked accesses, the values \<open>Inl fault\<close> and \<open>Inr result\<close> of
    code that may fault, \<open>None\<close> for code that does not return, and the combinators \<open>rbind\<close> and
    \<open>obind\<close>. A fault is an access outside a buffer, through NULL or to freed memory; a property that a
    result is \<open>Inr\<close> says that none happens.
  \<^item> \<open>NewIP_Header\<close>: the wire structures of \<open>newip.h\<close>; the locale \<open>wire_struct\<close> is what a reader and a writer
    of a structure promise each other.

  The queue discipline (\<open>lbf/src/linux/sch_lbf.c\<close>).
  \<^item> \<open>Lbf_Delay\<close>: the 16-bit arithmetic of the delays. The sum of the delays along a path is the subject of
    \<open>lbf_path_in_contract\<close>.
  \<^item> \<open>Lbf_Heap\<close>: the two-level linked list of packets in an explicit heap, with every allocation, search and
    removal; \<open>Lbf_Store\<close>: the list of buckets it represents (\<open>store_repr\<close>) and the refinement of insertion;
    \<open>Lbf_Buckets\<close>: finding or making a bucket; \<open>Lbf_Search\<close>: the two searches and removal.
  \<^item> \<open>Lbf_Qdisc\<close>: enqueue, dequeue, peek, reset, init, change, dump; \<open>Lbf_Dequeue\<close>, \<open>Lbf_Invariant\<close> and \<open>Lbf_Release\<close>:
    dequeue on the abstract store, the invariant \<open>qdisc_safe\<close>, and what is conserved and released.
  \<^item> \<open>Lbf_System\<close>: the step relation \<open>lbf_reach\<close> of the runs and the properties of all reachable states. The
    runs have any clock readings and any failures of allocation. The code breaks its own invariant in three
    situations, which a step excludes by a condition on its state and input: a packet that is put in front of the
    one \<open>next_pnode\<close> points to (\<open>overtakes\<close>), that one becoming due between two clock readings of a
    dequeue (\<open>due_midway\<close>), and a reset with packets stored. \<open>Lbf_Faults\<close>: what happens then, and the
    sequences that lose a packet.
  \<^item> \<open>Lbf_Tool\<close>: the \<open>tc\<close> extension, against the netlink operations of \<open>Lbf_Qdisc\<close> (locale \<open>tc_netlink\<close>, with the flag
    of nested attributes and the room of the message).

  The router (\<open>xdp/newip_router/\<close>, \<open>xdp/common/\<close>).
  \<^item> \<open>Xdp_Base\<close>, \<open>Xdp_Router\<close>: the XDP program, step by step, with the address families of the headers it is
    compiled with or else its own; \<open>Xdp_Forward\<close>: the abstract routing decision over
    the view of a packet and the refinement; \<open>Xdp_Spec\<close>: its properties; \<open>Tc_Router\<close>: the tc program and
    the two programs one after the other.
  \<^item> \<open>Xdp_Parsing\<close>, \<open>Xdp_Rewrite\<close>: the helpers for parsing and rewriting headers (locales \<open>header_parser\<close>,
    \<open>fixed_parser\<close>, \<open>parser_pair\<close>, one interpretation for each parser); \<open>Jhash\<close>: the hash functions.
  \<^item> \<open>C_String\<close>, \<open>User_Params\<close>, \<open>User_Link\<close>, \<open>User_Loader\<close>, \<open>User_Table\<close>, \<open>User_Stats\<close>, \<open>User_Cpus\<close>: the programs for the
    user, from the command line to the calls of libbpf, which are a record of parameters. \<open>getopt_long\<close> is a
    function of the option array that the program builds, and may fault on it.
  \<^item> \<open>Newip_System\<close>: the table program, the XDP program and the tc program in sequence.

  libbpf (\<open>xdp/libbpf/src/\<close>), the parts with logic of their own that the programs rest on.
  \<^item> \<open>Libbpf_Hashmap\<close>: the hash map, as a refinement of finite maps (locale \<open>hash_key\<close>, interpreted for the
    functions of the clients).
  \<^item> \<open>Libbpf_Nlattr\<close>, \<open>Libbpf_Netlink\<close>: netlink attributes, the request that attaches a program and the dump that
    finds the attached one, byte by byte.
  \<^item> \<open>Libbpf_Xsk_Ring\<close>: the four rings of an AF_XDP socket, as queues (locale \<open>ring_queue\<close>, interpreted for
    the filling and the draining side). \<open>Libbpf_Ringbuf\<close>: the BPF ring buffer, its delivery and its set-up.
  \<^item> \<open>Libbpf_Xsk_Socket\<close>: the packet memories, contexts and sockets of \<open>xsk.c\<close>, with a ledger of descriptors and
    mappings; \<open>Libbpf_Xsk_Life\<close>: the step relation \<open>xsk_reach\<close> of their histories (every system call may fail, no
    program is loaded), its invariant, and the faults.
  \<^item> \<open>Libbpf_Btf\<close>: type information: the object of \<open>btf.c\<close>, its types as the words of the data, sizes,
    alignments and searches; \<open>Libbpf_Btf_Spec\<close>: what the searches compute, and where they do not return;
    \<open>Libbpf_Btf_Load\<close>: parsing and writing the data, in both byte orders; \<open>Libbpf_Btf_Write\<close>: the functions
    \<open>btf__add_*\<close> that build an object, with its strings in the hash map of \<open>Libbpf_Hashmap\<close>;
    \<open>Libbpf_Btf_Strings\<close>, \<open>Libbpf_Btf_Build\<close>: the invariant of the layers and what each function does to it;
    \<open>Libbpf_Btf_Built\<close>: the objects that are reached by calls in any order (\<open>op_ok\<close>: names are C strings, and no
    call adds a member to a type that has as many as its 16 bits can count), what is promised of them, and the faults.
  \<^item> \<open>Libbpf_Linfo\<close>: line information. \<open>Libbpf_Errno\<close>: texts of errors.

  Termination. Loops over a linked list, over the messages of a socket and over the shared memory of a
  ring are \<open>partial_function (option)\<close>, and a property that gives \<open>Some\<close> says that they return. Loops that
  count to a bound are recursive functions with a measure. Loops of a BPF program are unrolled by the
  compiler and have their bound in the code. The only fuel is in \<open>nl_messages\<close>: 257 steps, enough because the
  receive buffer has 4096 bytes and a message has at least 16 (\<open>nl_messages_enough\<close>).

  What stands behind a parameter is documented behaviour of the kernel, of the C library, of libbpf or of
  iproute2: the FIFO and the accounting of a queue discipline (\<open>kernel_laws\<close>), \<open>kcalloc\<close> (any plan of
  failures), the clock, the BPF helpers (\<open>meta_reserved\<close>, \<open>macs_ok\<close>), the update of a BPF map (\<open>map_contract\<close>), the link
  layer (\<open>link_contract\<close>). Each is met by a concrete instance on which the examples run.

  Not modelled. The object loader of libbpf (\<open>libbpf.c\<close>, apart from counting processors), the part of \<open>btf.c\<close> that
  reads ELF files, deduplicates and talks to the kernel, \<open>btf_dump.c\<close>, and the wrappers of the system
  calls (\<open>bpf.c\<close>, \<open>libbpf_probes.c\<close>) belong to a vendored library and are called through the parameters of the
  programs' models.
  Headers of the kernel and generated declarations have no logic. Memory barriers, interrupts and locks are
  left out: the callbacks of a queue discipline run under its lock. Floating point numbers (the rates that
  \<open>xdp_stats.c\<close> prints) and messages to the user are left out.
\<close>

end
